(* ===== verification/Prelude.thy ===== *)
theory Prelude
  imports Main "HOL-Library.Char_ord" "HOL-Library.List_Lexorder"
begin

text \<open>
  Shared vocabulary of the development: the error values that replace JavaScript's thrown
  objects, the state-exception functions that replace \<open>async\<close> service bodies, the few string
  primitives of the language the code uses, and lemmas on lists and filters that the table
  model needs.

  Strings are lists of characters below 128 (ASCII); case conversion and trimming agree with
  the language on those. An instant is an \<open>int\<close>, milliseconds since the epoch, as
  \<open>Date.now()\<close> returns it.
\<close>

named_theorems repo_simps \<open>unfolding equations of repository operations\<close>
named_theorems frame_simps \<open>tables an operation leaves alone\<close>

section \<open>Errors and service functions\<close>

text \<open>
  \<open>Err code status\<close> is \<open>createError(code, status)\<close> of \<open>utils/errorHandler.js\<close>; \<open>Driver code msg\<close>
  an error of a database driver or the network; \<open>Plain msg\<close> a bare \<open>new Error(msg)\<close>. \<open>No_return\<close> is not an error of the code: a service with this result
  sits in a loop that never ends, and no handler catches it.
\<close>

datatype err = Err string nat | Driver string string | Plain string | No_return

fun err_status :: "err \<Rightarrow> nat option" where
  "err_status (Err c s) = Some s"
| "err_status (Driver c m) = None"
| "err_status (Plain m) = None"
| "err_status No_return = None"

text \<open>The \<open>message\<close> property of a thrown object.\<close>

fun err_message :: "err \<Rightarrow> string" where
  "err_message (Driver n m) = m"
| "err_message (Plain m) = m"
| "err_message (Err c s) = c"
| "err_message No_return = []"

type_synonym 'a result = "err + 'a"

text \<open>
  A service function takes the state and returns its result, or the error it throws, and the
  state it leaves. What was written before a throw stays written.
\<close>

type_synonym ('s, 'a) service = "'s \<Rightarrow> (err + 'a) \<times> 's"

definition ret :: "'a \<Rightarrow> ('s, 'a) service" where
  "ret x s = (Inr x, s)"

definition throw :: "err \<Rightarrow> ('s, 'a) service" where
  "throw e s = (Inl e, s)"

definition seqs :: "('s, 'a) service \<Rightarrow> ('a \<Rightarrow> ('s, 'b) service) \<Rightarrow> ('s, 'b) service" where
  "seqs m f s = (case m s of (Inl e, t) \<Rightarrow> (Inl e, t) | (Inr x, t) \<Rightarrow> f x t)"

text \<open>\<open>try m catch h\<close>: the handler runs in the state the failed body left.\<close>

definition catching :: "('s, 'a) service \<Rightarrow> (err \<Rightarrow> ('s, 'a) service) \<Rightarrow> ('s, 'a) service" where
  "catching m h s =
     (case m s of (Inl e, t) \<Rightarrow> (if e = No_return then (Inl No_return, t) else h e t)
      | (Inr x, t) \<Rightarrow> (Inr x, t))"

text \<open>A read of the state, and a guard that throws.\<close>

definition reads :: "('s \<Rightarrow> 'a) \<Rightarrow> ('s, 'a) service" where
  "reads f s = (Inr (f s), s)"

definition updates :: "('s \<Rightarrow> 's) \<Rightarrow> ('s, unit) service" where
  "updates f s = (Inr (), f s)"

definition guard :: "bool \<Rightarrow> err \<Rightarrow> ('s, unit) service" where
  "guard b e s = (if b then (Inr (), s) else (Inl e, s))"

lemmas service_defs = ret_def throw_def seqs_def catching_def reads_def updates_def guard_def

lemma seqs_Inl: "m s = (Inl e, t) \<Longrightarrow> seqs m f s = (Inl e, t)"
  by (simp add: seqs_def)

lemma seqs_Inr: "m s = (Inr x, t) \<Longrightarrow> seqs m f s = f x t"
  by (simp add: seqs_def)

lemma catching_Inl: "m s = (Inl e, t) \<Longrightarrow> e \<noteq> No_return \<Longrightarrow> catching m h s = h e t"
  by (simp add: catching_def)

lemma catching_Inr: "m s = (Inr x, t) \<Longrightarrow> catching m h s = (Inr x, t)"
  by (simp add: catching_def)

lemma seqs_guard: "seqs (guard b e) f s = (if b then f () s else (Inl e, s))"
  by (simp add: service_defs)

lemma seqs_reads: "seqs (reads r) f s = f (r s) s"
  by (simp add: service_defs)

lemma seqs_updates: "seqs (updates u) f s = f () (u s)"
  by (simp add: service_defs)

lemma seqs_ret: "seqs (ret x) f s = f x s"
  by (simp add: service_defs)

lemma seqs_throw: "seqs (throw e) f s = (Inl e, s)"
  by (simp add: service_defs)

lemmas service_simps = seqs_guard seqs_reads seqs_updates seqs_ret seqs_throw

lemma result_Inr: "\<not> isl (fst p) \<Longrightarrow> p = (Inr (projr (fst p)), snd p)"
  by (cases p; cases "fst p") auto

lemma result_Inl: "isl (fst p) \<Longrightarrow> p = (Inl (projl (fst p)), snd p)"
  by (cases p; cases "fst p") auto

section \<open>The language's string primitives\<close>

definition is_space :: "char \<Rightarrow> bool" where
  "is_space c \<longleftrightarrow> of_char c \<in> {9, 10, 11, 12, 13, 32 :: nat}"

definition trim :: "string \<Rightarrow> string" where
  "trim s = rev (dropWhile is_space (rev (dropWhile is_space s)))"

definition lower_char :: "char \<Rightarrow> char" where
  "lower_char c = (let n = of_char c :: nat in if 65 \<le> n \<and> n \<le> 90 then char_of (n + 32) else c)"

definition upper_char :: "char \<Rightarrow> char" where
  "upper_char c = (let n = of_char c :: nat in if 97 \<le> n \<and> n \<le> 122 then char_of (n - 32) else c)"

definition to_lower :: "string \<Rightarrow> string" where
  "to_lower s = map lower_char s"

definition to_upper :: "string \<Rightarrow> string" where
  "to_upper s = map upper_char s"

fun starts_with :: "string \<Rightarrow> string \<Rightarrow> bool" where
  "starts_with s [] = True"
| "starts_with [] (p # ps) = False"
| "starts_with (c # s) (p # ps) = (c = p \<and> starts_with s ps)"

fun has_infix :: "string \<Rightarrow> string \<Rightarrow> bool" where
  "has_infix [] p = (p = [])"
| "has_infix (c # s) p = (starts_with (c # s) p \<or> has_infix s p)"

definition ends_with :: "string \<Rightarrow> string \<Rightarrow> bool" where
  "ends_with s p = starts_with (rev s) (rev p)"

text \<open>\<open>s.split(c)\<close> for a one-character separator: always at least one piece.\<close>

fun split_on :: "char \<Rightarrow> string \<Rightarrow> string list" where
  "split_on c [] = [[]]"
| "split_on c (x # xs) =
     (if x = c then [] # split_on c xs
      else (case split_on c xs of [] \<Rightarrow> [[x]] | p # ps \<Rightarrow> (x # p) # ps))"

text \<open>\<open>parts.join(c)\<close>.\<close>

fun join_with :: "char \<Rightarrow> string list \<Rightarrow> string" where
  "join_with c [] = []"
| "join_with c [p] = p"
| "join_with c (p # q # ps) = p @ c # join_with c (q # ps)"

text \<open>The decimal form of a number.\<close>

fun decimal :: "nat \<Rightarrow> string" where
  "decimal n = (if n < 10 then [char_of (48 + n)] else decimal (n div 10) @ [char_of (48 + n mod 10)])"

declare decimal.simps [simp del]

lemma starts_with_iff: "starts_with s p \<longleftrightarrow> (\<exists>t. s = p @ t)"
  by (induction s p rule: starts_with.induct) auto

lemma starts_with_refl [simp]: "starts_with s s"
  by (simp add: starts_with_iff)

lemma ends_with_iff: "ends_with s p \<longleftrightarrow> (\<exists>t. s = t @ p)"
proof -
  have "(\<exists>t. rev s = rev p @ t) \<longleftrightarrow> (\<exists>t. s = t @ p)"
    by (metis rev_append rev_rev_ident)
  then show ?thesis by (simp add: ends_with_def starts_with_iff)
qed

lemma split_on_nonempty [simp]: "split_on c s \<noteq> []"
  by (induction s) (auto split: list.splits)

lemma join_split [simp]: "join_with c (split_on c s) = s"
proof (induction s)
  case Nil
  then show ?case by simp
next
  case (Cons x xs)
  obtain p ps where sp: "split_on c xs = p # ps"
    by (cases "split_on c xs") auto
  with Cons show ?case by (cases ps) auto
qed

lemma split_on_no_sep: "p \<in> set (split_on c s) \<Longrightarrow> c \<notin> set p"
proof (induction s arbitrary: p)
  case Nil
  then show ?case by simp
next
  case (Cons x xs)
  obtain q qs where sp: "split_on c xs = q # qs"
    by (cases "split_on c xs") auto
  with Cons show ?case by (auto split: if_splits)
qed

lemma split_on_single: "c \<notin> set s \<Longrightarrow> split_on c s = [s]"
  by (induction s) auto

lemma split_on_append_sep: "c \<notin> set p \<Longrightarrow> split_on c (p @ c # s) = p # split_on c s"
  by (induction p) auto

lemma split_join: "\<lbrakk>ps \<noteq> []; \<forall>p \<in> set ps. c \<notin> set p\<rbrakk> \<Longrightarrow> split_on c (join_with c ps) = ps"
  by (induction c ps rule: join_with.induct) (auto simp: split_on_single split_on_append_sep)

section \<open>Lists as tables\<close>

text \<open>\<open>SELECT ... LIMIT 1\<close>: the first row, if any.\<close>

definition first_row :: "'a list \<Rightarrow> 'a option" where
  "first_row xs = (case xs of [] \<Rightarrow> None | x # _ \<Rightarrow> Some x)"

lemma first_row_simps [simp]: "first_row [] = None" "first_row (x # xs) = Some x"
  by (simp_all add: first_row_def)

lemma first_row_None: "first_row xs = None \<longleftrightarrow> xs = []"
  by (cases xs) auto

lemma first_row_in: "first_row xs = Some x \<Longrightarrow> x \<in> set xs"
  by (cases xs) auto

text \<open>\<open>UPDATE t SET f WHERE p\<close>.\<close>

definition update_where :: "('a \<Rightarrow> bool) \<Rightarrow> ('a \<Rightarrow> 'a) \<Rightarrow> 'a list \<Rightarrow> 'a list" where
  "update_where p f xs = map (\<lambda>x. if p x then f x else x) xs"

text \<open>\<open>DELETE FROM t WHERE p\<close>.\<close>

definition delete_where :: "('a \<Rightarrow> bool) \<Rightarrow> 'a list \<Rightarrow> 'a list" where
  "delete_where p xs = filter (\<lambda>x. \<not> p x) xs"

text \<open>\<open>changes\<close> of an \<open>UPDATE\<close> or \<open>DELETE\<close>.\<close>

definition count_where :: "('a \<Rightarrow> bool) \<Rightarrow> 'a list \<Rightarrow> nat" where
  "count_where p xs = length (filter p xs)"

lemma set_delete_where [simp]: "set (delete_where p xs) = {x \<in> set xs. \<not> p x}"
  by (auto simp: delete_where_def)

lemma set_update_where: "set (update_where p f xs) = (\<lambda>x. if p x then f x else x) ` set xs"
  by (auto simp: update_where_def)

lemma map_update_where: "(\<And>x. g (f x) = g x) \<Longrightarrow> map g (update_where p f xs) = map g xs"
  by (simp add: update_where_def)

lemma distinct_map_delete: "distinct (map g xs) \<Longrightarrow> distinct (map g (delete_where p xs))"
  by (simp add: delete_where_def distinct_map_filter)

lemma update_where_id: "(\<And>x. x \<in> set xs \<Longrightarrow> p x \<Longrightarrow> f x = x) \<Longrightarrow> update_where p f xs = xs"
  by (simp add: update_where_def map_idI)

lemma delete_where_id: "(\<And>x. x \<in> set xs \<Longrightarrow> \<not> p x) \<Longrightarrow> delete_where p xs = xs"
  by (simp add: delete_where_def)

lemma distinct_map_sorted_wrt: "distinct (map g xs) \<Longrightarrow> sorted_wrt (\<lambda>x y. g x \<noteq> g y) xs"
  by (induction xs) auto

lemma sort_key_empty: "sort_key f xs = [] \<longleftrightarrow> xs = []"
  using length_sort [of f xs] by (metis length_0_conv)

lemma filter_key_le_1: "distinct (map g xs) \<Longrightarrow> length (filter (\<lambda>x. g x = a) xs) \<le> 1"
proof (induction xs)
  case (Cons x xs)
  then show ?case by (auto simp: filter_empty_conv image_iff)
qed simp

lemma distinct_map_unique:
  assumes "distinct (map g xs)" "x \<in> set xs" "y \<in> set xs" "g x = g y"
  shows "x = y"
  using assms by (metis distinct_map inj_onD)

lemma first_row_filter_unique:
  assumes "distinct (map g xs)" "x \<in> set xs" "p x" "\<And>y. y \<in> set xs \<Longrightarrow> p y \<Longrightarrow> g y = g x"
  shows "first_row (filter p xs) = Some x"
proof -
  obtain y where y: "first_row (filter p xs) = Some y"
    using assms(2,3) by (cases "filter p xs") (auto simp: filter_empty_conv)
  then have "y \<in> set xs" "p y" using first_row_in by fastforce+
  then have "y = x" using assms distinct_map_unique by metis
  then show ?thesis using y by simp
qed

end
