(* ===== verification/Tables.thy ===== *)
theory Tables
  imports Prelude
begin

text \<open>
  The metadata tables of \<open>server/store/postgresql/ddl/001_initial_normalized_schema.sql\<close> that the
  file, permission and sharing components use, with the constraints the database enforces:
  unique indexes, foreign keys and their \<open>ON DELETE CASCADE\<close>.

  A table is the list of its rows. \<open>clock\<close> is the instant at which a statement runs; it is part
  of the database state because every statement reads it from the server. \<open>datetime('now')\<close> has
  a resolution of one second. The sequences of the \<open>AUTOINCREMENT\<close> keys are fields as well.
\<close>

section \<open>Enumerations of shared/constants.js and the CHECK constraints\<close>

datatype permission = Read | Write | Admin

datatype node_type = File | Directory

datatype sync_status = Active | Pending_upload | Orphaned_node

datatype obj_status = Obj_pending | Obj_active | Obj_history | Obj_orphaned

datatype backend = S3 | Webdav

datatype user_status = User_pending | User_approved | User_rejected

datatype request_status = Req_pending | Req_approved | Req_rejected | Req_cancelled

section \<open>Rows\<close>

record node =
  nid :: nat
  nparent :: "nat option"
  nname :: string
  ntype :: node_type
  nsync :: sync_status
  ncreated :: int
  nupdated :: int
  ndeleted :: "int option"

record anc =
  aanc :: nat
  adesc :: nat
  adepth :: nat

record obj =
  oid :: nat
  onode :: nat
  okey :: "string option"
  osize :: "nat option"
  obackend :: backend
  overs :: nat
  ostatus :: obj_status
  ocreated :: int

record cache_row =
  cnode :: nat
  csize :: nat
  cmime :: "string option"
  chash :: "string option"
  cupdated :: int

record grant =
  guser :: nat
  gnode :: nat
  gperm :: permission

record share_grant =
  stoken :: string
  snode :: nat
  sperm :: permission

record share_link =
  ltoken :: string
  lnode :: nat
  lcreated_by :: nat
  lcreated :: int
  lexpires :: "int option"
  lcount :: nat

record user =
  uid :: nat
  username :: string
  email :: string
  password :: string
  ustatus :: user_status
  is_admin :: bool
  token_version :: nat
  ucreated :: int
  uupdated :: int

record request =
  rid :: nat
  rrequester :: nat
  rrequester_name :: string
  rowner :: nat
  rowner_name :: string
  rnode :: nat
  rperm :: permission
  rstatus :: request_status
  rmessage :: string
  rcreated :: int
  rresolved_at :: "int option"
  rresolved_by :: "nat option"

record db =
  clock :: int
  file_nodes :: "node list"
  node_ancestors :: "anc list"
  object_map :: "obj list"
  filecache :: "cache_row list"
  user_paths :: "grant list"
  user_files :: "grant list"
  perm_shares :: "share_grant list"
  share_links :: "share_link list"
  users :: "user list"
  requests :: "request list"
  next_node :: nat
  next_obj :: nat
  next_request :: nat
  next_user :: nat

definition datetime_now :: "db \<Rightarrow> int" where
  "datetime_now d = (clock d div 1000) * 1000"

definition ms_per_day :: int where
  "ms_per_day = 86400000"

section \<open>Errors of the database\<close>

definition db_failed :: err where
  "db_failed = Err ''serverErrors.errorHandler.databaseQueryFailed'' 500"

definition unique_failed :: err where
  "unique_failed = Driver ''ERR_SQLITE_ERROR'' ''UNIQUE constraint failed''"

definition fk_failed :: err where
  "fk_failed = Driver ''ERR_SQLITE_ERROR'' ''FOREIGN KEY constraint failed''"

definition PG_UNREACHABLE_SYSTEM_CODES :: "string list" where
  "PG_UNREACHABLE_SYSTEM_CODES =
     [''ECONNREFUSED'', ''ENOTFOUND'', ''EAI_AGAIN'', ''ETIMEDOUT'', ''ECONNRESET'', ''EPIPE'']"

definition PG_AUTH_CODES :: "string list" where
  "PG_AUTH_CODES = [''28P01'', ''28000'']"

text \<open>
  \<open>mapDatabaseError\<close>: an error that carries a status and a code passes; a driver error is mapped by
  its code, then by its message. The codes are PostgreSQL's and the network's: a constraint failure
  of sqlite becomes the fallback. The report to the backend health monitor, made for PostgreSQL
  only, is not part of the model.
\<close>

definition map_driver_error :: "string \<Rightarrow> string \<Rightarrow> err" where
  "map_driver_error code message =
     (if code = ''23505'' then Err ''serverErrors.errorHandler.databaseConflict'' 409
      else if code \<in> set [''23503'', ''23514'', ''22P02'']
        then Err ''serverErrors.errorHandler.databaseConstraintViolation'' 400
      else if code \<in> set [''57P01'', ''53300'']
        then Err ''serverErrors.errorHandler.databaseUnavailable'' 503
      else if to_upper code \<in> set PG_AUTH_CODES
        then Err ''serverErrors.errorHandler.databaseUnavailable'' 503
      else if to_upper code \<in> set PG_UNREACHABLE_SYSTEM_CODES \<or>
              has_infix (to_lower message) ''query read timeout''
        then Err ''serverErrors.errorHandler.databaseUnavailable'' 503
      else db_failed)"

fun mapDatabaseError :: "err \<Rightarrow> err" where
  "mapDatabaseError (Err c s) = Err c s"
| "mapDatabaseError (Driver c m) = map_driver_error c m"
| "mapDatabaseError (Plain m) = map_driver_error [] m"
| "mapDatabaseError No_return = No_return"

lemma map_constraint_failed [simp]:
  "mapDatabaseError unique_failed = db_failed" "mapDatabaseError fk_failed = db_failed"
  "mapDatabaseError db_failed = db_failed"
  by code_simp+

section \<open>Constraints\<close>

definition live :: "node \<Rightarrow> bool" where
  "live n \<longleftrightarrow> ndeleted n = None"

text \<open>
  \<open>file_nodes_root_unique\<close> and \<open>file_nodes_unique_name_per_parent\<close>: the live rows have distinct
  (parent, name), the root level included.
\<close>

definition live_unique :: "node list \<Rightarrow> bool" where
  "live_unique ns \<longleftrightarrow> distinct (map (\<lambda>n. (nparent n, nname n)) (filter live ns))"

definition node_ids :: "db \<Rightarrow> nat set" where
  "node_ids d = nid ` set (file_nodes d)"

definition has_node :: "db \<Rightarrow> nat \<Rightarrow> bool" where
  "has_node d i \<longleftrightarrow> (\<exists>n \<in> set (file_nodes d). nid n = i)"

text \<open>\<open>parent_id ... REFERENCES file_nodes(id)\<close>.\<close>

definition parent_exists :: "db \<Rightarrow> nat option \<Rightarrow> bool" where
  "parent_exists d p \<longleftrightarrow> (case p of None \<Rightarrow> True | Some i \<Rightarrow> has_node d i)"

text \<open>
  \<open>ON DELETE CASCADE\<close> along \<open>parent_id\<close>: the given rows and, repeatedly, the rows whose parent
  is already gone.
\<close>

definition below :: "nat list \<Rightarrow> node \<Rightarrow> bool" where
  "below ids n = (case nparent n of None \<Rightarrow> False | Some p \<Rightarrow> p \<in> set ids)"

function cascade :: "node list \<Rightarrow> nat list \<Rightarrow> nat list" where
  "cascade ns ids =
     (let new = filter (\<lambda>n. nid n \<notin> set ids \<and> below ids n) ns
      in if new = [] then ids else cascade ns (ids @ map nid new))"
  by pat_completeness auto
termination
proof (relation "measure (\<lambda>(ns, ids). length (filter (\<lambda>n. nid n \<notin> set ids) ns))", goal_cases)
  case 1
  then show ?case by simp
next
  case (2 ns ids new)
  define x where "x = hd new"
  from 2(2) have "x \<in> set new" unfolding x_def by (rule hd_in_set)
  with 2(1) have x: "x \<in> set ns" "nid x \<notin> set ids" "nid x \<in> nid ` set new"
    by auto
  have "length (filter (\<lambda>n. nid n \<notin> set (ids @ map nid new)) ns)
      = length (filter (\<lambda>n. nid n \<notin> nid ` set new) (filter (\<lambda>n. nid n \<notin> set ids) ns))"
    by (simp add: conj_commute)
  also have "\<dots> < length (filter (\<lambda>n. nid n \<notin> set ids) ns)"
    using x by (intro length_filter_less [of x]) auto
  finally show ?case by simp
qed

declare cascade.simps [simp del]

lemma cascade_superset: "set ids \<subseteq> set (cascade ns ids)"
proof (induction ns ids rule: cascade.induct)
  case (1 ns ids)
  then show ?case by (subst cascade.simps) (auto simp: Let_def)
qed

lemma cascade_closed:
  "n \<in> set ns \<Longrightarrow> nparent n = Some p \<Longrightarrow> p \<in> set (cascade ns ids) \<Longrightarrow> nid n \<in> set (cascade ns ids)"
proof (induction ns ids rule: cascade.induct)
  case (1 ns ids)
  define new where
    "new = filter (\<lambda>n. nid n \<notin> set ids \<and> below ids n) ns"
  show ?case
  proof (cases "new = []")
    case True
    then have "cascade ns ids = ids"
      by (subst cascade.simps) (simp add: new_def [symmetric] Let_def)
    with True 1 show ?thesis by (auto simp: new_def below_def filter_empty_conv)
  next
    case False
    then have eq: "cascade ns ids = cascade ns (ids @ map nid new)"
      by (subst cascade.simps) (simp add: new_def [symmetric] Let_def)
    show ?thesis using 1 False unfolding eq by (simp add: new_def [symmetric])
  qed
qed

text \<open>A set that already holds the children of its members is its own cascade.\<close>

lemma cascade_fixpoint:
  assumes "\<And>n p. n \<in> set ns \<Longrightarrow> nparent n = Some p \<Longrightarrow> p \<in> set ids \<Longrightarrow> nid n \<in> set ids"
  shows "cascade ns ids = ids"
  using assms by (subst cascade.simps) (auto simp: Let_def below_def filter_empty_conv split: option.splits)

text \<open>
  \<open>DELETE FROM file_nodes WHERE id IN (ids)\<close> with every table that references \<open>file_nodes\<close>.
\<close>

definition delete_nodes :: "nat list \<Rightarrow> db \<Rightarrow> db" where
  "delete_nodes ids d =
     (let gone = cascade (file_nodes d) ids
      in d\<lparr>file_nodes := delete_where (\<lambda>n. nid n \<in> set gone) (file_nodes d),
           node_ancestors :=
             delete_where (\<lambda>a. aanc a \<in> set gone \<or> adesc a \<in> set gone) (node_ancestors d),
           object_map := delete_where (\<lambda>r. onode r \<in> set gone) (object_map d),
           filecache := delete_where (\<lambda>r. cnode r \<in> set gone) (filecache d),
           user_paths := delete_where (\<lambda>r. gnode r \<in> set gone) (user_paths d),
           user_files := delete_where (\<lambda>r. gnode r \<in> set gone) (user_files d),
           perm_shares := delete_where (\<lambda>r. snode r \<in> set gone) (perm_shares d),
           share_links := delete_where (\<lambda>r. lnode r \<in> set gone) (share_links d),
           requests := delete_where (\<lambda>r. rnode r \<in> set gone) (requests d)\<rparr>)"

section \<open>Transactions\<close>

text \<open>
  \<open>withSqliteTransaction\<close>: the body's writes are committed together; on an error they are rolled
  back and the error is mapped. The queue of \<open>storage.js\<close> runs whole transactions one after the
  other, so a transaction is one step of the model.
\<close>

definition withTx :: "('s, 'a) service \<Rightarrow> ('s, 'a) service" where
  "withTx m s = (case m s of (Inl e, t) \<Rightarrow> (Inl (mapDatabaseError e), s) | (Inr x, t) \<Rightarrow> (Inr x, t))"

lemma withTx_rollback: "fst (withTx m s) = Inl e \<Longrightarrow> snd (withTx m s) = s"
  by (auto simp: withTx_def split: prod.splits sum.splits)

lemma withTx_ok: "m s = (Inr x, t) \<Longrightarrow> withTx m s = (Inr x, t)"
  by (simp add: withTx_def)

section \<open>Well-formed node tables\<close>

text \<open>
  What the schema guarantees of \<open>file_nodes\<close> at any time: the primary key, the parent reference,
  the live names, and a sequence ahead of every key.
\<close>

definition nodes_ok :: "db \<Rightarrow> bool" where
  "nodes_ok d \<longleftrightarrow> distinct (map nid (file_nodes d)) \<and>
     (\<forall>n \<in> set (file_nodes d). parent_exists d (nparent n) \<and> nid n < next_node d) \<and>
     live_unique (file_nodes d)"

lemma nodes_okD:
  assumes "nodes_ok d"
  shows "distinct (map nid (file_nodes d))"
    and "n \<in> set (file_nodes d) \<Longrightarrow> parent_exists d (nparent n)"
    and "n \<in> set (file_nodes d) \<Longrightarrow> nid n < next_node d"
    and "live_unique (file_nodes d)"
  using assms by (auto simp: nodes_ok_def)

lemma has_node_iff: "has_node d i \<longleftrightarrow> i \<in> node_ids d"
  by (auto simp: has_node_def node_ids_def)

end
