(* ===== verification/FileNodeRepo.thy ===== *)
theory FileNodeRepo
  imports Tables
begin

text \<open>
  The tree part of \<open>server/store/repositories/sqlite/FileNodeRepository.sqlite.js\<close>: one definition
  per method, the SQL statement as an operation on the row lists. Reads are functions of the
  database, writes are service functions whose error is the one the method throws after
  \<open>mapDatabaseError\<close>. Rows come back in the order of the statement's \<open>ORDER BY\<close>; without one, in
  insertion order, and nothing proved here depends on it.
\<close>

section \<open>Row shaping: fileNodeShared.js\<close>

text \<open>
  The object \<open>mapNodeRow\<close> and \<open>mapChildRow\<close> return. A column the read does not join is absent
  (\<open>undefined\<close>), which \<open>None\<close> stands for, as it does for SQL \<open>NULL\<close>.
\<close>

record node_view =
  v_id :: nat
  v_parentId :: "nat option"
  v_name :: string
  v_type :: node_type
  v_sync :: sync_status
  v_created :: int
  v_updated :: int
  v_deleted :: "int option"
  v_size :: "nat option"
  v_mime :: "string option"
  v_hash :: "string option"

definition mapNodeRow :: "node \<Rightarrow> cache_row option \<Rightarrow> node_view" where
  "mapNodeRow row fc =
     \<lparr>v_id = nid row, v_parentId = nparent row, v_name = nname row, v_type = ntype row,
      v_sync = nsync row, v_created = ncreated row, v_updated = nupdated row,
      v_deleted = ndeleted row, v_size = map_option csize fc,
      v_mime = Option.bind fc cmime, v_hash = None\<rparr>"

definition mapChildRow :: "node \<Rightarrow> cache_row option \<Rightarrow> node_view" where
  "mapChildRow row fc = (mapNodeRow row fc)\<lparr>v_hash := Option.bind fc chash\<rparr>"

lemma mapNodeRow_simps [simp]:
  "v_id (mapNodeRow r c) = nid r" "v_parentId (mapNodeRow r c) = nparent r"
  "v_name (mapNodeRow r c) = nname r" "v_type (mapNodeRow r c) = ntype r"
  "v_deleted (mapNodeRow r c) = ndeleted r" "v_sync (mapNodeRow r c) = nsync r"
  by (simp_all add: mapNodeRow_def)

lemma mapChildRow_simps [simp]:
  "v_id (mapChildRow r c) = nid r" "v_parentId (mapChildRow r c) = nparent r"
  "v_name (mapChildRow r c) = nname r" "v_type (mapChildRow r c) = ntype r"
  "v_deleted (mapChildRow r c) = ndeleted r" "v_sync (mapChildRow r c) = nsync r"
  by (simp_all add: mapChildRow_def)

text \<open>\<open>LEFT JOIN filecache fc ON fc.file_node_id = fn.id\<close>: at most one row, the key is unique.\<close>

definition cache_of :: "db \<Rightarrow> nat \<Rightarrow> cache_row option" where
  "cache_of d i = first_row (filter (\<lambda>c. cnode c = i) (filecache d))"

definition node_row :: "db \<Rightarrow> nat \<Rightarrow> node option" where
  "node_row d i = first_row (filter (\<lambda>n. nid n = i) (file_nodes d))"

section \<open>Reads\<close>

definition getNode :: "db \<Rightarrow> nat \<Rightarrow> node_view option" where
  "getNode d i =
     map_option (\<lambda>n. mapNodeRow n (cache_of d (nid n)))
       (first_row (filter (\<lambda>n. nid n = i \<and> live n) (file_nodes d)))"

definition getNodeIncludingTrashed :: "db \<Rightarrow> nat \<Rightarrow> node_view option" where
  "getNodeIncludingTrashed d i = map_option (\<lambda>n. mapNodeRow n None) (node_row d i)"

definition getChildren :: "db \<Rightarrow> nat option \<Rightarrow> node_view list" where
  "getChildren d p =
     map (\<lambda>n. mapChildRow n (cache_of d (nid n)))
       (sort_key nname (filter (\<lambda>n. nparent n = p \<and> live n) (file_nodes d)))"

definition getTrashChildren :: "db \<Rightarrow> nat option \<Rightarrow> node_view list" where
  "getTrashChildren d p =
     map (\<lambda>n. mapNodeRow n (cache_of d (nid n)))
       (sort_key nname (filter (\<lambda>n. nparent n = p \<and> \<not> live n) (file_nodes d)))"

text \<open>
  \<open>getTopmostTrashedNodes\<close>: without a finite argument no age condition (\<open>None\<close>); otherwise rows
  whose \<open>deleted_at\<close> lies before now minus the days. A row is topmost when its parent is absent
  or live.
\<close>

definition topmost_trashed :: "db \<Rightarrow> node \<Rightarrow> bool" where
  "topmost_trashed d n \<longleftrightarrow> \<not> live n \<and>
     (case nparent n of None \<Rightarrow> True
      | Some p \<Rightarrow> (case node_row d p of None \<Rightarrow> True | Some q \<Rightarrow> live q))"

definition getTopmostTrashedNodes :: "db \<Rightarrow> nat option \<Rightarrow> node_view list" where
  "getTopmostTrashedNodes d olderThanDays =
     map (\<lambda>n. mapNodeRow n (cache_of d (nid n)))
       (sort_key (\<lambda>n. - the (ndeleted n))
         (sort_key nname
           (filter (\<lambda>n. topmost_trashed d n \<and>
               (case olderThanDays of None \<Rightarrow> True
                | Some days \<Rightarrow> the (ndeleted n) < clock d - int days * ms_per_day))
             (file_nodes d))))"

definition resolvePathSegment :: "db \<Rightarrow> nat option \<Rightarrow> string \<Rightarrow> nat option" where
  "resolvePathSegment d p name =
     map_option nid
       (first_row (filter (\<lambda>n. nparent n = p \<and> nname n = name \<and> live n) (file_nodes d)))"

definition getDescendantIds :: "db \<Rightarrow> nat \<Rightarrow> nat list" where
  "getDescendantIds d a = map adesc (filter (\<lambda>r. aanc r = a) (node_ancestors d))"

definition getDescendants :: "db \<Rightarrow> nat \<Rightarrow> node_view list" where
  "getDescendants d a =
     map (\<lambda>n. mapNodeRow n None)
       (concat (map (\<lambda>r. filter (\<lambda>n. nid n = adesc r) (file_nodes d))
         (filter (\<lambda>r. aanc r = a) (node_ancestors d))))"

definition getAncestorChain :: "db \<Rightarrow> nat \<Rightarrow> (nat \<times> nat) list" where
  "getAncestorChain d c =
     map (\<lambda>r. (aanc r, adepth r))
       (sort_key (\<lambda>r. - int (adepth r)) (filter (\<lambda>r. adesc r = c) (node_ancestors d)))"

definition isAncestor :: "db \<Rightarrow> nat \<Rightarrow> nat \<Rightarrow> bool" where
  "isAncestor d a c \<longleftrightarrow> filter (\<lambda>r. aanc r = a \<and> adesc r = c) (node_ancestors d) \<noteq> []"

definition findById :: "db \<Rightarrow> nat \<Rightarrow> user option" where
  "findById d u = first_row (filter (\<lambda>x. uid x = u) (users d))"

text \<open>\<open>getUserRootNode\<close>: the root row named after the user. The statement has no \<open>deleted_at\<close> test.\<close>

definition getUserRootNode :: "db \<Rightarrow> nat \<Rightarrow> node_view option" where
  "getUserRootNode d u =
     (case findById d u of None \<Rightarrow> None
      | Some x \<Rightarrow> (if username x = [] then None
          else map_option (\<lambda>n. mapNodeRow n None)
            (first_row (filter (\<lambda>n. nparent n = None \<and> nname n = username x) (file_nodes d)))))"

definition getNodesBySyncStatus :: "db \<Rightarrow> sync_status \<Rightarrow> node_view list" where
  "getNodesBySyncStatus d s =
     map (\<lambda>n. mapNodeRow n None) (filter (\<lambda>n. nsync n = s) (file_nodes d))"

definition getNodesBySyncStatusNot :: "db \<Rightarrow> sync_status \<Rightarrow> node_view list" where
  "getNodesBySyncStatusNot d s =
     map (\<lambda>n. mapNodeRow n None) (filter (\<lambda>n. nsync n \<noteq> s) (file_nodes d))"

section \<open>Writes\<close>

text \<open>An \<open>UPDATE\<close> of \<open>file_nodes\<close> that may break the live-name indexes.\<close>

definition write_nodes :: "node list \<Rightarrow> nat \<Rightarrow> (db, nat) service" where
  "write_nodes ns changes d =
     (if live_unique ns then (Inr changes, d\<lparr>file_nodes := ns\<rparr>)
      else (Inl (mapDatabaseError unique_failed), d))"

definition createNode :: "nat option \<Rightarrow> string \<Rightarrow> node_type \<Rightarrow> (db, node_view) service" where
  "createNode p name ty d =
     (let row = \<lparr>nid = next_node d, nparent = p, nname = name, ntype = ty,
                 nsync = Pending_upload, ncreated = datetime_now d, nupdated = datetime_now d,
                 ndeleted = None\<rparr>;
          ns = file_nodes d @ [row]
      in if \<not> parent_exists d p then (Inl (mapDatabaseError fk_failed), d)
         else if \<not> live_unique ns then (Inl (mapDatabaseError unique_failed), d)
         else (Inr (mapNodeRow row None), d\<lparr>file_nodes := ns, next_node := Suc (next_node d)\<rparr>))"

definition markSubtreeDeleted :: "nat list \<Rightarrow> (db, nat) service" where
  "markSubtreeDeleted ids d =
     (if ids = [] then (Inr 0, d)
      else (Inr (count_where (\<lambda>n. nid n \<in> set ids) (file_nodes d)),
            d\<lparr>file_nodes := update_where (\<lambda>n. nid n \<in> set ids)
                 (\<lambda>n. n\<lparr>ndeleted := Some (datetime_now d)\<rparr>) (file_nodes d)\<rparr>))"

definition untrashSubtree :: "nat list \<Rightarrow> (db, nat) service" where
  "untrashSubtree ids d =
     (if ids = [] then (Inr 0, d)
      else write_nodes
             (update_where (\<lambda>n. nid n \<in> set ids) (\<lambda>n. n\<lparr>ndeleted := None\<rparr>) (file_nodes d))
             (count_where (\<lambda>n. nid n \<in> set ids) (file_nodes d)) d)"

text \<open>Not named \<open>renameNode\<close>: the service of that name wraps it.\<close>

definition repo_renameNode :: "nat \<Rightarrow> string \<Rightarrow> (db, nat) service" where
  "repo_renameNode i newName d =
     write_nodes
       (update_where (\<lambda>n. nid n = i) (\<lambda>n. n\<lparr>nname := newName, nupdated := datetime_now d\<rparr>)
         (file_nodes d))
       (count_where (\<lambda>n. nid n = i) (file_nodes d)) d"

definition repo_moveNode :: "nat \<Rightarrow> nat option \<Rightarrow> (db, nat) service" where
  "repo_moveNode i p d =
     (if count_where (\<lambda>n. nid n = i) (file_nodes d) > 0 \<and> \<not> parent_exists d p
      then (Inl (mapDatabaseError fk_failed), d)
      else write_nodes
             (update_where (\<lambda>n. nid n = i) (\<lambda>n. n\<lparr>nparent := p, nupdated := datetime_now d\<rparr>)
               (file_nodes d))
             (count_where (\<lambda>n. nid n = i) (file_nodes d)) d)"

definition deleteNodeTree :: "nat list \<Rightarrow> (db, nat) service" where
  "deleteNodeTree ids d =
     (if ids = [] then (Inr 0, d)
      else (Inr (count_where (\<lambda>n. nid n \<in> set ids) (file_nodes d)), delete_nodes ids d))"

definition repo_updateSyncStatus :: "nat \<Rightarrow> sync_status \<Rightarrow> (db, nat) service" where
  "repo_updateSyncStatus i st d =
     (Inr (count_where (\<lambda>n. nid n = i) (file_nodes d)),
      d\<lparr>file_nodes := update_where (\<lambda>n. nid n = i)
           (\<lambda>n. n\<lparr>nsync := st, nupdated := datetime_now d\<rparr>) (file_nodes d)\<rparr>)"

text \<open>
  \<open>insertAncestorRows\<close>: one \<open>INSERT\<close> per row, autocommitted unless the caller holds a
  transaction; the primary key (ancestor, descendant) and both references are checked.
\<close>

fun insertAncestorRows :: "anc list \<Rightarrow> nat \<Rightarrow> (db, nat) service" where
  "insertAncestorRows [] cnt d = (Inr cnt, d)"
| "insertAncestorRows (r # rs) cnt d =
     (if \<exists>q \<in> set (node_ancestors d). aanc q = aanc r \<and> adesc q = adesc r
      then (Inl (mapDatabaseError unique_failed), d)
      else if \<not> has_node d (aanc r) \<or> \<not> has_node d (adesc r)
      then (Inl (mapDatabaseError fk_failed), d)
      else insertAncestorRows rs (Suc cnt) (d\<lparr>node_ancestors := node_ancestors d @ [r]\<rparr>))"

definition deleteAncestorByDescendant :: "nat list \<Rightarrow> (db, nat) service" where
  "deleteAncestorByDescendant ids d =
     (if ids = [] then (Inr 0, d)
      else (Inr (count_where (\<lambda>r. adesc r \<in> set ids) (node_ancestors d)),
            d\<lparr>node_ancestors := delete_where (\<lambda>r. adesc r \<in> set ids) (node_ancestors d)\<rparr>))"

section \<open>Laws\<close>

lemma node_row_some:
  "nodes_ok d \<Longrightarrow> n \<in> set (file_nodes d) \<Longrightarrow> node_row d (nid n) = Some n"
  unfolding node_row_def by (rule first_row_filter_unique [where g = nid]) (auto simp: nodes_ok_def)

lemma node_row_in: "node_row d i = Some n \<Longrightarrow> n \<in> set (file_nodes d) \<and> nid n = i"
  by (auto simp: node_row_def dest!: first_row_in)

lemma node_row_None: "node_row d i = None \<longleftrightarrow> \<not> has_node d i"
  by (auto simp: node_row_def first_row_None has_node_def filter_empty_conv)

lemma node_row_iff:
  "nodes_ok d \<Longrightarrow> node_row d i = Some n \<longleftrightarrow> n \<in> set (file_nodes d) \<and> nid n = i"
  using node_row_in node_row_some by blast

lemma getNode_row:
  assumes "nodes_ok d"
  shows "getNode d i = (case node_row d i of None \<Rightarrow> None
           | Some n \<Rightarrow> if live n then Some (mapNodeRow n (cache_of d i)) else None)"
proof (cases "node_row d i")
  case None
  then have "filter (\<lambda>n. nid n = i \<and> live n) (file_nodes d) = []"
    by (auto simp: node_row_None has_node_def filter_empty_conv)
  then show ?thesis by (simp add: getNode_def None)
next
  case (Some n)
  then have n: "n \<in> set (file_nodes d)" "nid n = i" using node_row_in by auto
  have uniq: "m = n" if "m \<in> set (file_nodes d)" "nid m = i" for m
    using assms n that distinct_map_unique unfolding nodes_ok_def by metis
  show ?thesis
  proof (cases "live n")
    case True
    have "first_row (filter (\<lambda>n. nid n = i \<and> live n) (file_nodes d)) = Some n"
      using assms n True by (intro first_row_filter_unique [where g = nid]) (auto simp: nodes_ok_def)
    then show ?thesis using Some True n by (simp add: getNode_def)
  next
    case False
    then have "filter (\<lambda>n. nid n = i \<and> live n) (file_nodes d) = []"
      using uniq by (auto simp: filter_empty_conv)
    then show ?thesis using Some False by (simp add: getNode_def)
  qed
qed

lemma set_getChildren:
  "v_id ` set (getChildren d p) = nid ` {n \<in> set (file_nodes d). nparent n = p \<and> live n}"
  by (auto simp: getChildren_def image_image)

lemma set_getDescendantIds:
  "set (getDescendantIds d a) = {c. \<exists>r \<in> set (node_ancestors d). aanc r = a \<and> adesc r = c}"
  by (auto simp: getDescendantIds_def)

lemma set_getAncestorChain:
  "set (getAncestorChain d c)
     = {(a, k). \<exists>r \<in> set (node_ancestors d). aanc r = a \<and> adesc r = c \<and> adepth r = k}"
  by (auto simp: getAncestorChain_def image_iff)

lemma isAncestor_iff:
  "isAncestor d a c \<longleftrightarrow> (\<exists>r \<in> set (node_ancestors d). aanc r = a \<and> adesc r = c)"
  by (auto simp: isAncestor_def filter_empty_conv)

end
