(* ===== verification/Closure.thy ===== *)
theory Closure
  imports FileNodeRepo
begin

text \<open>
  \<open>server/service/_ancestryHelper.js\<close> and \<open>server/service/fileNodeService.js\<close>: the tree operations
  and the closure table \<open>node_ancestors\<close> they maintain.

  The specification is the walk up the \<open>parent_id\<close> column, \<open>up d k c\<close>: the ancestor of \<open>c\<close> at
  distance \<open>k\<close>. \<open>closure_ok\<close> says that the closure table is exactly that relation. Creation and
  deletion keep it; a move keeps it for the nodes its breadth-first rebuild reaches, which are the
  ones with no trashed node on the way to the moved node.
\<close>

section \<open>The ancestry helper\<close>

definition buildAncestorsForNode :: "nat \<Rightarrow> nat option \<Rightarrow> (db, unit) service" where
  "buildAncestorsForNode nodeId parentId =
     (case parentId of
        None \<Rightarrow> seqs (insertAncestorRows [\<lparr>aanc = nodeId, adesc = nodeId, adepth = 0\<rparr>] 0) (\<lambda>_. ret ())
      | Some p \<Rightarrow>
          seqs (reads (\<lambda>d. getAncestorChain d p)) (\<lambda>parentChain.
          seqs (insertAncestorRows
                 (\<lparr>aanc = nodeId, adesc = nodeId, adepth = 0\<rparr> #
                  map (\<lambda>(a, k). \<lparr>aanc = a, adesc = nodeId, adepth = k + 1\<rparr>) parentChain) 0)
          (\<lambda>_. ret ())))"

text \<open>The rows one visited node contributes, and the chain its children get.\<close>

definition rows_for :: "nat \<Rightarrow> (nat \<times> nat) list \<Rightarrow> anc list" where
  "rows_for n chain =
     \<lparr>aanc = n, adesc = n, adepth = 0\<rparr> #
     map (\<lambda>(a, k). \<lparr>aanc = a, adesc = n, adepth = k + 1\<rparr>) chain"

definition child_chain :: "nat \<Rightarrow> (nat \<times> nat) list \<Rightarrow> (nat \<times> nat) list" where
  "child_chain n chain = (n, 0) # map (\<lambda>(a, k). (a, k + 1)) chain"

text \<open>
  The queue of \<open>rebuildAncestorsAfterMove\<close>. Children come from \<open>getChildren\<close>. Nothing in the loop
  bounds it, so it is a partial function: \<open>None\<close> means that it does not return.
\<close>

partial_function (option) bfs_rows ::
  "db \<Rightarrow> (nat \<times> (nat \<times> nat) list) list \<Rightarrow> anc list \<Rightarrow> anc list option" where
  "bfs_rows d queue allRows =
     (case queue of
        [] \<Rightarrow> Some allRows
      | (n, chain) # rest \<Rightarrow>
          bfs_rows d
            (rest @ map (\<lambda>c. (v_id c, child_chain n chain)) (getChildren d (Some n)))
            (allRows @ rows_for n chain))"

declare bfs_rows.simps [code]

definition rebuildAncestorsAfterMove :: "nat \<Rightarrow> nat option \<Rightarrow> (db, unit) service" where
  "rebuildAncestorsAfterMove moved newParent =
     seqs (reads (\<lambda>d. getDescendantIds d moved)) (\<lambda>descendantIds.
     seqs (deleteAncestorByDescendant descendantIds) (\<lambda>_.
     seqs (reads (\<lambda>d. case newParent of None \<Rightarrow> [] | Some p \<Rightarrow> getAncestorChain d p)) (\<lambda>newParentChain.
     seqs (reads (\<lambda>d. bfs_rows d [(moved, newParentChain)] [])) (\<lambda>result.
       case result of
         None \<Rightarrow> throw No_return
       | Some allRows \<Rightarrow>
           (if allRows = [] then ret () else seqs (insertAncestorRows allRows 0) (\<lambda>_. ret ()))))))"

definition cleanupAncestorsForDeletion :: "nat list \<Rightarrow> (db, unit) service" where
  "cleanupAncestorsForDeletion ids =
     (if ids = [] then ret () else seqs (deleteAncestorByDescendant ids) (\<lambda>_. ret ()))"

section \<open>The node service\<close>

definition createFile :: "nat option \<Rightarrow> string \<Rightarrow> (db, node_view) service" where
  "createFile parentNodeId name =
     withTx (seqs (createNode parentNodeId name File) (\<lambda>node.
             seqs (buildAncestorsForNode (v_id node) parentNodeId) (\<lambda>_. ret node)))"

definition createDirectory :: "nat option \<Rightarrow> string \<Rightarrow> (db, node_view) service" where
  "createDirectory parentNodeId name =
     withTx (seqs (createNode parentNodeId name Directory) (\<lambda>node.
             seqs (buildAncestorsForNode (v_id node) parentNodeId) (\<lambda>_. ret node)))"

definition renameNode :: "nat \<Rightarrow> string \<Rightarrow> (db, unit) service" where
  "renameNode nodeId newName = seqs (repo_renameNode nodeId newName) (\<lambda>_. ret ())"

definition own_descendant :: err where
  "own_descendant = Plain ''Cannot move node into its own descendant''"

definition not_among :: "nat list \<Rightarrow> nat option \<Rightarrow> bool" where
  "not_among ids p = (case p of None \<Rightarrow> True | Some q \<Rightarrow> q \<notin> set ids)"

lemma not_among_iff [simp]: "not_among ids p \<longleftrightarrow> (\<forall>q. p = Some q \<longrightarrow> q \<notin> set ids)"
  by (simp add: not_among_def split: option.splits)

definition moveNode :: "nat \<Rightarrow> nat option \<Rightarrow> (db, unit) service" where
  "moveNode nodeId newParentId =
     seqs (reads (\<lambda>d. getDescendantIds d nodeId)) (\<lambda>descendants.
     seqs (guard (not_among descendants newParentId) own_descendant) (\<lambda>_.
       withTx (seqs (repo_moveNode nodeId newParentId) (\<lambda>_.
               rebuildAncestorsAfterMove nodeId newParentId))))"

definition deleteNode :: "nat \<Rightarrow> (db, unit) service" where
  "deleteNode nodeId =
     seqs (reads (\<lambda>d. getDescendantIds d nodeId)) (\<lambda>descendantIds.
       withTx (seqs (cleanupAncestorsForDeletion descendantIds) (\<lambda>_.
               seqs (deleteNodeTree descendantIds) (\<lambda>_. ret ()))))"

definition listDirectory :: "db \<Rightarrow> nat option \<Rightarrow> node_view list" where
  "listDirectory d parentNodeId = getChildren d parentNodeId"

definition getNodePath :: "db \<Rightarrow> nat \<Rightarrow> string" where
  "getNodePath d nodeId =
     CHR ''/'' # join_with (CHR ''/'')
       (List.map_filter (\<lambda>(a, k). map_option v_name (getNodeIncludingTrashed d a))
         (getAncestorChain d nodeId))"

fun resolve_segments :: "db \<Rightarrow> nat option \<Rightarrow> string list \<Rightarrow> nat option" where
  "resolve_segments d cur [] = cur"
| "resolve_segments d cur (s # ss) =
     (case resolvePathSegment d cur s of None \<Rightarrow> None | Some i \<Rightarrow> resolve_segments d (Some i) ss)"

definition resolvePath :: "db \<Rightarrow> string \<Rightarrow> node_view option" where
  "resolvePath d path =
     (let segments = filter (\<lambda>s. s \<noteq> []) (split_on (CHR ''/'') path)
      in if segments = [] then None
         else (case resolve_segments d None segments of None \<Rightarrow> None | Some i \<Rightarrow> getNode d i))"

definition updateSyncStatus :: "nat \<Rightarrow> sync_status \<Rightarrow> (db, unit) service" where
  "updateSyncStatus nodeId st = seqs (repo_updateSyncStatus nodeId st) (\<lambda>_. ret ())"

section \<open>The specification: walking up the parent column\<close>

definition parent_of :: "db \<Rightarrow> nat \<Rightarrow> nat option" where
  "parent_of d c = Option.bind (node_row d c) nparent"

fun up :: "db \<Rightarrow> nat \<Rightarrow> nat \<Rightarrow> nat option" where
  "up d 0 c = (if has_node d c then Some c else None)"
| "up d (Suc k) c = (case parent_of d c of None \<Rightarrow> None | Some p \<Rightarrow> up d k p)"

definition row_triple :: "anc \<Rightarrow> nat \<times> nat \<times> nat" where
  "row_triple r = (aanc r, adesc r, adepth r)"

definition anc_set :: "db \<Rightarrow> (nat \<times> nat \<times> nat) set" where
  "anc_set d = row_triple ` set (node_ancestors d)"

definition pk_distinct :: "anc list \<Rightarrow> bool" where
  "pk_distinct rs \<longleftrightarrow> distinct (map (\<lambda>r. (aanc r, adesc r)) rs)"

definition closure_ok :: "db \<Rightarrow> bool" where
  "closure_ok d \<longleftrightarrow>
     anc_set d = {(a, c, k). up d k c = Some a} \<and> pk_distinct (node_ancestors d)"

definition desc_of :: "db \<Rightarrow> nat \<Rightarrow> nat set" where
  "desc_of d m = {c. \<exists>k. up d k c = Some m}"

definition live_id :: "db \<Rightarrow> nat \<Rightarrow> bool" where
  "live_id d i \<longleftrightarrow> (\<exists>n. node_row d i = Some n \<and> live n)"

text \<open>\<open>c\<close> lies under \<open>n\<close> with no trashed node below \<open>n\<close> on the way.\<close>

definition live_under :: "db \<Rightarrow> nat \<Rightarrow> nat \<Rightarrow> bool" where
  "live_under d n c \<longleftrightarrow>
     (\<exists>j. up d j c = Some n \<and> (\<forall>i < j. \<exists>x. up d i c = Some x \<and> live_id d x))"

definition acyclic_nodes :: "db \<Rightarrow> bool" where
  "acyclic_nodes d \<longleftrightarrow> (\<forall>k c. up d k c = Some c \<longrightarrow> k = 0)"

end
