(* ===== verification/ClosureLaws.thy ===== *)
theory ClosureLaws
  imports Closure
begin

text \<open>
  The laws of the closure table: what the walk up the parent column satisfies, what the repository
  reads return when \<open>closure_ok\<close> holds, and that creation and deletion keep it. \<open>MoveLaws\<close> treats
  the move.
\<close>

section \<open>The walk up\<close>

lemma parent_of_iff:
  "nodes_ok d \<Longrightarrow> parent_of d c = Some p \<longleftrightarrow> (\<exists>n \<in> set (file_nodes d). nid n = c \<and> nparent n = Some p)"
  unfolding parent_of_def
  by (auto simp: node_row_some dest!: node_row_in split: bind_splits)
     (metis Option.bind_lunit node_row_some)

lemma parent_of_has: "nodes_ok d \<Longrightarrow> parent_of d c = Some p \<Longrightarrow> has_node d c \<and> has_node d p"
  by (auto simp: parent_of_iff has_node_def dest: nodes_okD(2) split: option.splits)
     (force simp: parent_exists_def has_node_def dest: nodes_okD(2))

lemma parent_of_has_child: "parent_of d c = Some p \<Longrightarrow> has_node d c"
  by (auto simp: parent_of_def has_node_def dest: node_row_in split: bind_splits)

lemma up_has: "up d k c = Some a \<Longrightarrow> has_node d c \<and> has_node d a"
proof (induction k arbitrary: c)
  case 0
  then show ?case by (auto split: if_splits)
next
  case (Suc k)
  then obtain p where p: "parent_of d c = Some p" "up d k p = Some a"
    by (auto split: option.splits)
  with Suc.IH [of p] parent_of_has_child show ?case by blast
qed

lemma up_add: "up d i c = Some x \<Longrightarrow> up d (i + j) c = up d j x"
  by (induction i arbitrary: c) (auto split: if_splits option.splits)

lemma up_prefix: "up d (i + j) c = Some a \<Longrightarrow> \<exists>x. up d i c = Some x \<and> up d j x = Some a"
proof (induction i arbitrary: c)
  case 0
  then show ?case using up_has [of d j c a] by auto
next
  case (Suc i)
  then show ?case by (auto split: option.splits)
qed

lemma up_le: "up d k c = Some a \<Longrightarrow> i \<le> k \<Longrightarrow> \<exists>x. up d i c = Some x \<and> up d (k - i) x = Some a"
  using up_prefix [of d i "k - i" c a] by simp

lemma up_Suc_some: "up d k c = Some x \<Longrightarrow> up d (Suc k) c = up d 1 x"
  using up_add [of d k c x 1] by simp

lemma up_cong: "file_nodes d = file_nodes d' \<Longrightarrow> up d k c = up d' k c"
  by (induction k arbitrary: c) (auto simp: has_node_def parent_of_def node_row_def split: option.splits)

lemma has_node_cong: "file_nodes d = file_nodes d' \<Longrightarrow> has_node d c = has_node d' c"
  by (simp add: has_node_def)

lemma nodes_ok_cong:
  "file_nodes d = file_nodes d' \<Longrightarrow> next_node d = next_node d' \<Longrightarrow> nodes_ok d = nodes_ok d'"
  by (simp add: nodes_ok_def parent_exists_def has_node_def split: option.splits)

lemma up_inj:
  assumes "acyclic_nodes d" "up d i c = Some a" "up d j c = Some a"
  shows "i = j"
proof -
  have *: "i = j" if "i \<le> j" "up d i c = Some a" "up d j c = Some a" for i j
  proof -
    have "up d (j - i) a = Some a" using up_add [OF that(2), of "j - i"] that by simp
    then have "j - i = 0" using assms(1) unfolding acyclic_nodes_def by blast
    with that show ?thesis by simp
  qed
  show ?thesis using * assms by (metis nat_le_linear)
qed

section \<open>The table under the invariant\<close>

lemma anc_set_iff:
  "(a, c, k) \<in> anc_set d \<longleftrightarrow> (\<exists>r \<in> set (node_ancestors d). aanc r = a \<and> adesc r = c \<and> adepth r = k)"
  by (force simp: anc_set_def row_triple_def)

lemma closure_okD: "closure_ok d \<Longrightarrow> (a, c, k) \<in> anc_set d \<longleftrightarrow> up d k c = Some a"
  by (auto simp: closure_ok_def)

lemma closure_row:
  "closure_ok d \<Longrightarrow> r \<in> set (node_ancestors d) \<Longrightarrow> up d (adepth r) (adesc r) = Some (aanc r)"
  using closure_okD [of d "aanc r" "adesc r" "adepth r"] by (auto simp: anc_set_iff)

lemma pk_distinct_depth:
  assumes "pk_distinct rs" "r \<in> set rs" "q \<in> set rs" "aanc r = aanc q" "adesc r = adesc q"
  shows "r = q"
  using assms distinct_map_unique [of "\<lambda>r. (aanc r, adesc r)" rs r q] by (auto simp: pk_distinct_def)

lemma closure_acyclic:
  assumes "closure_ok d"
  shows "acyclic_nodes d"
  unfolding acyclic_nodes_def
proof (intro allI impI)
  fix k c assume k: "up d k c = Some c"
  then have "up d 0 c = Some c" using up_has by fastforce
  then obtain q where q: "q \<in> set (node_ancestors d)" "aanc q = c" "adesc q = c" "adepth q = 0"
    using closure_okD [OF assms] anc_set_iff by blast
  from k obtain r where r: "r \<in> set (node_ancestors d)" "aanc r = c" "adesc r = c" "adepth r = k"
    using closure_okD [OF assms] anc_set_iff by blast
  have "r = q" using assms q r by (intro pk_distinct_depth) (auto simp: closure_ok_def)
  then show "k = 0" using q r by simp
qed

lemma descendants_closure: "closure_ok d \<Longrightarrow> set (getDescendantIds d a) = desc_of d a"
  unfolding set_getDescendantIds desc_of_def using closure_okD anc_set_iff by fastforce

lemma ancestors_closure: "closure_ok d \<Longrightarrow> set (getAncestorChain d c) = {(a, k). up d k c = Some a}"
  unfolding set_getAncestorChain using closure_okD anc_set_iff by fastforce

lemma distinct_ancestor_chain:
  assumes "pk_distinct (node_ancestors d)"
  shows "distinct (map fst (getAncestorChain d c))"
proof -
  have "distinct (map (\<lambda>r. (aanc r, adesc r)) (filter (\<lambda>r. adesc r = c) (node_ancestors d)))"
    using assms unfolding pk_distinct_def by (rule distinct_map_filter)
  then have "distinct (map aanc (filter (\<lambda>r. adesc r = c) (node_ancestors d)))"
    by (force simp: distinct_map inj_on_def)
  then have "distinct (map aanc (sort_key (\<lambda>r. - int (adepth r)) (filter (\<lambda>r. adesc r = c) (node_ancestors d))))"
    by (simp add: distinct_map)
  then show ?thesis by (simp add: getAncestorChain_def comp_def)
qed

lemma desc_of_parent:
  "parent_of d c = Some p \<Longrightarrow> p \<in> desc_of d m \<Longrightarrow> c \<in> desc_of d m"
  unfolding desc_of_def by clarsimp (metis option.simps(5) up.simps(2))

lemma desc_of_self: "has_node d m \<Longrightarrow> m \<in> desc_of d m"
  by (auto simp: desc_of_def intro: exI [of _ 0])

lemma desc_of_trans: "up d k c = Some x \<Longrightarrow> x \<in> desc_of d m \<Longrightarrow> c \<in> desc_of d m"
  unfolding desc_of_def by clarsimp (metis up_add)

section \<open>Inserting rows\<close>

lemma insertAncestorRows_ok:
  assumes "pk_distinct (node_ancestors d @ rs)" "\<forall>r \<in> set rs. has_node d (aanc r) \<and> has_node d (adesc r)"
  shows "insertAncestorRows rs cnt d
           = (Inr (cnt + length rs), d\<lparr>node_ancestors := node_ancestors d @ rs\<rparr>)"
  using assms
proof (induction rs arbitrary: cnt d)
  case Nil
  then show ?case by simp
next
  case (Cons r rs)
  have 1: "\<not> (\<exists>q \<in> set (node_ancestors d). aanc q = aanc r \<and> adesc q = adesc r)"
    using Cons.prems(1) by (auto simp: pk_distinct_def image_iff)
  have 2: "\<forall>q \<in> set rs. has_node (d\<lparr>node_ancestors := node_ancestors d @ [r]\<rparr>) (aanc q) \<and>
             has_node (d\<lparr>node_ancestors := node_ancestors d @ [r]\<rparr>) (adesc q)"
    using Cons.prems(2) by (simp add: has_node_def)
  have "insertAncestorRows (r # rs) cnt d
          = insertAncestorRows rs (Suc cnt) (d\<lparr>node_ancestors := node_ancestors d @ [r]\<rparr>)"
    using 1 Cons.prems(2) by auto
  also have "\<dots> = (Inr (Suc cnt + length rs), d\<lparr>node_ancestors := node_ancestors d @ r # rs\<rparr>)"
    using Cons.IH [OF _ 2] Cons.prems(1) by simp
  finally show ?case by simp
qed

section \<open>Creation\<close>

text \<open>A database with one more node, below \<open>p\<close>, and the rows \<open>buildAncestorsForNode\<close> gives it.\<close>

lemma up_new_node:
  assumes ok: "nodes_ok d" and p: "parent_exists d p"
    and d': "file_nodes d' = file_nodes d @ [row]" "nid row = next_node d" "nparent row = p"
  shows "has_node d c \<Longrightarrow> up d' k c = up d k c"
    and "up d' 0 (next_node d) = Some (next_node d)"
    and "up d' (Suc k) (next_node d) = (case p of None \<Rightarrow> None | Some q \<Rightarrow> up d k q)"
    and "\<not> has_node d c \<Longrightarrow> c \<noteq> next_node d \<Longrightarrow> up d' k c = None"
proof -
  have fresh: "\<not> has_node d (next_node d)"
    using nodes_okD(3) [OF ok] by (fastforce simp: has_node_def)
  have has: "has_node d' c \<longleftrightarrow> has_node d c \<or> c = next_node d" for c
    using d' by (auto simp: has_node_def)
  have row: "node_row d' c = (if c = next_node d then Some row else node_row d c)" for c
  proof (cases "c = next_node d")
    case True
    with fresh have "filter (\<lambda>n. nid n = c) (file_nodes d) = []"
      by (auto simp: has_node_def filter_empty_conv)
    then show ?thesis using d' True by (simp add: node_row_def)
  next
    case False
    then show ?thesis using d' by (simp add: node_row_def)
  qed
  show old: "up d' k c = up d k c" if "has_node d c" for c k
    using that
  proof (induction k arbitrary: c)
    case 0
    then show ?case by (simp add: has)
  next
    case (Suc k)
    have "c \<noteq> next_node d" using Suc.prems fresh by auto
    then have "parent_of d' c = parent_of d c" by (simp add: parent_of_def row)
    then show ?case using Suc.IH parent_of_has [OF ok] by (auto split: option.splits)
  qed
  show "up d' 0 (next_node d) = Some (next_node d)" by (simp add: has)
  have "parent_of d' (next_node d) = p" using d' by (simp add: parent_of_def row)
  then show "up d' (Suc k) (next_node d) = (case p of None \<Rightarrow> None | Some q \<Rightarrow> up d k q)"
    using p old by (auto simp: parent_exists_def split: option.splits)
  show "up d' k c = None" if "\<not> has_node d c" "c \<noteq> next_node d"
    using that up_has [of d' k c] has by fastforce
qed

definition chain_of :: "db \<Rightarrow> nat option \<Rightarrow> (nat \<times> nat) list" where
  "chain_of d p = (case p of None \<Rightarrow> [] | Some q \<Rightarrow> getAncestorChain d q)"

lemma buildAncestorsForNode_rows:
  "buildAncestorsForNode n p d
     = seqs (insertAncestorRows (rows_for n (chain_of d p)) 0) (\<lambda>_. ret ()) d"
  by (cases p) (simp_all add: buildAncestorsForNode_def rows_for_def chain_of_def service_simps
      del: insertAncestorRows.simps)

lemma buildAncestorsForNode_ok:
  assumes "pk_distinct (node_ancestors d @ rows_for n (chain_of d p))"
    "\<forall>r \<in> set (rows_for n (chain_of d p)). has_node d (aanc r) \<and> has_node d (adesc r)"
  shows "buildAncestorsForNode n p d
           = (Inr (), d\<lparr>node_ancestors := node_ancestors d @ rows_for n (chain_of d p)\<rparr>)"
  unfolding buildAncestorsForNode_rows
  using insertAncestorRows_ok [OF assms] by (simp add: seqs_def ret_def)

lemma rows_for_triples:
  "row_triple ` set (rows_for n chain) = {(n, n, 0)} \<union> {(a, n, Suc k) | a k. (a, k) \<in> set chain}"
  by (force simp: rows_for_def row_triple_def)

lemma rows_for_pk:
  assumes "distinct (map fst chain)" "n \<notin> fst ` set chain"
  shows "pk_distinct (rows_for n chain)"
proof -
  have "distinct (map (\<lambda>x. (fst x, n)) chain)"
    using assms(1) by (auto simp: distinct_map inj_on_def)
  with assms(2) show ?thesis
    by (auto simp: pk_distinct_def rows_for_def comp_def case_prod_unfold)
qed

lemma adesc_rows_for: "r \<in> set (rows_for n chain) \<Longrightarrow> adesc r = n"
  by (auto simp: rows_for_def)

lemma aanc_rows_for: "r \<in> set (rows_for n chain) \<Longrightarrow> aanc r = n \<or> aanc r \<in> fst ` set chain"
  by (force simp: rows_for_def)

lemma pk_distinct_append:
  "pk_distinct (xs @ ys) \<longleftrightarrow> pk_distinct xs \<and> pk_distinct ys \<and>
     (\<forall>x \<in> set xs. \<forall>y \<in> set ys. aanc x = aanc y \<longrightarrow> adesc x \<noteq> adesc y)"
  by (auto simp: pk_distinct_def image_iff)

lemma createNode_ok:
  assumes "createNode p nm ty d = (Inr v, d1)"
  obtains row where "nid row = next_node d" "nparent row = p" "nname row = nm" "live row"
    "v = mapNodeRow row None" "parent_exists d p" "live_unique (file_nodes d @ [row])"
    "d1 = d\<lparr>file_nodes := file_nodes d @ [row], next_node := Suc (next_node d)\<rparr>"
proof -
  let ?row = "\<lparr>nid = next_node d, nparent = p, nname = nm, ntype = ty, nsync = Pending_upload,
    ncreated = datetime_now d, nupdated = datetime_now d, ndeleted = None\<rparr>"
  show thesis
    using assms by (intro that [of ?row]) (auto simp: createNode_def live_def Let_def split: if_splits)
qed

lemma nodes_ok_create:
  assumes ok: "nodes_ok d" and p: "parent_exists d p" and u: "live_unique (file_nodes d @ [row])"
    and row: "nid row = next_node d" "nparent row = p"
    and d': "file_nodes d' = file_nodes d @ [row]" "next_node d' = Suc (next_node d)"
  shows "nodes_ok d'"
proof -
  have fresh: "next_node d \<notin> nid ` set (file_nodes d)"
    using nodes_okD(3) [OF ok] by fastforce
  have mono: "parent_exists d q \<Longrightarrow> parent_exists d' q" for q
    using d' by (auto simp: parent_exists_def has_node_def split: option.splits)
  show ?thesis
    unfolding nodes_ok_def
  proof (intro conjI ballI)
    show "distinct (map nid (file_nodes d'))"
      using fresh d' row nodes_okD(1) [OF ok] by auto
    show "live_unique (file_nodes d')" using u d' by simp
  next
    fix n assume "n \<in> set (file_nodes d')"
    then consider "n \<in> set (file_nodes d)" | "n = row" using d' by auto
    then show "parent_exists d' (nparent n)" "nid n < next_node d'"
      using nodes_okD [OF ok] mono p row d' by (cases; fastforce)+
  qed
qed

text \<open>Both creations of the service: the node is added with exactly the closure rows it needs.\<close>

lemma create_closure:
  assumes ok: "nodes_ok d" and cl: "closure_ok d"
    and c: "createNode p nm ty d = (Inr v, d1)"
  defines "d2 \<equiv> d1\<lparr>node_ancestors := node_ancestors d @ rows_for (v_id v) (chain_of d p)\<rparr>"
  shows "withTx (seqs (createNode p nm ty) (\<lambda>node.
           seqs (buildAncestorsForNode (v_id node) p) (\<lambda>_. ret node))) d = (Inr v, d2)"
    and "nodes_ok d2" and "closure_ok d2"
proof -
  from c obtain row where row: "nid row = next_node d" "nparent row = p"
    "v = mapNodeRow row None" "parent_exists d p" "live_unique (file_nodes d @ [row])"
    and d1: "d1 = d\<lparr>file_nodes := file_nodes d @ [row], next_node := Suc (next_node d)\<rparr>"
    by (rule createNode_ok)
  let ?n = "next_node d" and ?ch = "chain_of d p"
  have vid: "v_id v = ?n" using row by simp
  have fresh: "\<not> has_node d ?n" using nodes_okD(3) [OF ok] by (fastforce simp: has_node_def)
  have ch1: "chain_of d1 p = ?ch"
    by (simp add: d1 chain_of_def getAncestorChain_def split: option.splits)
  have ch: "set ?ch = {(a, k). \<exists>q. p = Some q \<and> up d k q = Some a}"
    using ancestors_closure [OF cl] by (auto simp: chain_of_def split: option.splits)
  have chd: "distinct (map fst ?ch)"
    using cl distinct_ancestor_chain by (auto simp: chain_of_def closure_ok_def split: option.splits)
  have ch_has: "has_node d a" if "a \<in> fst ` set ?ch" for a
    using that ch up_has by auto
  have old_has: "has_node d (aanc r) \<and> has_node d (adesc r)" if "r \<in> set (node_ancestors d)" for r
    using closure_row [OF cl that] up_has by blast
  have pk: "pk_distinct (node_ancestors d @ rows_for ?n ?ch)"
    unfolding pk_distinct_append
  proof (intro conjI ballI impI)
    show "pk_distinct (node_ancestors d)" using cl by (simp add: closure_ok_def)
    show "pk_distinct (rows_for ?n ?ch)" using rows_for_pk [OF chd] ch_has fresh by blast
    show "adesc x \<noteq> adesc y" if "x \<in> set (node_ancestors d)" "y \<in> set (rows_for ?n ?ch)" for x y
      using old_has [OF that(1)] adesc_rows_for [OF that(2)] fresh by auto
  qed
  have has1: "has_node d1 a \<longleftrightarrow> has_node d a \<or> a = ?n" for a
    using row by (auto simp: d1 has_node_def)
  have b: "buildAncestorsForNode ?n p d1 = (Inr (), d2)"
  proof -
    have "has_node d1 (aanc r) \<and> has_node d1 (adesc r)" if "r \<in> set (rows_for ?n ?ch)" for r
      using aanc_rows_for [OF that] adesc_rows_for [OF that] ch_has has1 by metis
    then show ?thesis
      using buildAncestorsForNode_ok [of d1 ?n p] pk unfolding ch1 vid d2_def by (simp add: d1)
  qed
  show "withTx (seqs (createNode p nm ty) (\<lambda>node.
           seqs (buildAncestorsForNode (v_id node) p) (\<lambda>_. ret node))) d = (Inr v, d2)"
    using b c vid by (simp add: withTx_def seqs_def ret_def)
  show "nodes_ok d2" using nodes_ok_create [OF ok row(4,5,1,2)] by (simp add: d2_def d1)
  have u: "has_node d c \<Longrightarrow> up d2 k c = up d k c" "up d2 0 ?n = Some ?n"
    "up d2 (Suc k) ?n = (case p of None \<Rightarrow> None | Some q \<Rightarrow> up d k q)"
    "\<not> has_node d c \<Longrightarrow> c \<noteq> ?n \<Longrightarrow> up d2 k c = None" for c k
    using up_new_node [OF ok row(4) _ row(1,2), of d2] by (simp_all add: d2_def d1)
  have "(a, c, k) \<in> anc_set d2 \<longleftrightarrow> up d2 k c = Some a" for a c k
  proof -
    have "anc_set d2 = anc_set d \<union> ({(?n, ?n, 0)} \<union> {(a, ?n, Suc k) | a k. (a, k) \<in> set ?ch})"
      by (simp add: anc_set_def d2_def vid image_Un rows_for_triples)
    then have "(a, c, k) \<in> anc_set d2 \<longleftrightarrow> up d k c = Some a \<or>
        c = ?n \<and> (k = 0 \<and> a = ?n \<or> (\<exists>j q. k = Suc j \<and> p = Some q \<and> up d j q = Some a))"
      using closure_okD [OF cl] ch by auto
    also have "\<dots> \<longleftrightarrow> up d2 k c = Some a"
    proof (cases "c = ?n")
      case True
      then have "up d k c = None" using fresh up_has [of d k c] by fastforce
      then show ?thesis using True u(2,3) by (cases k; cases p) auto
    next
      case False
      then show ?thesis using u(1,4) up_has [of d k c a] by (cases "has_node d c") auto
    qed
    finally show ?thesis .
  qed
  then show "closure_ok d2" using pk by (auto simp: closure_ok_def d2_def vid)
qed

section \<open>Deletion\<close>

lemma delete_nodes_nodes [simp]:
  "file_nodes (delete_nodes ids d)
     = delete_where (\<lambda>n. nid n \<in> set (cascade (file_nodes d) ids)) (file_nodes d)"
  "next_node (delete_nodes ids d) = next_node d"
  by (simp_all add: delete_nodes_def Let_def)

lemma has_node_delete:
  "has_node (delete_nodes ids d) c \<longleftrightarrow> has_node d c \<and> c \<notin> set (cascade (file_nodes d) ids)"
  by (auto simp: has_node_def)

lemma nodes_ok_delete:
  assumes "nodes_ok d"
  shows "nodes_ok (delete_nodes ids d)"
  unfolding nodes_ok_def
proof (intro conjI ballI)
  show "distinct (map nid (file_nodes (delete_nodes ids d)))"
    using nodes_okD(1) [OF assms] by (simp add: distinct_map_delete)
  show "live_unique (file_nodes (delete_nodes ids d))"
  proof -
    have "distinct (map (\<lambda>n. (nparent n, nname n))
            (filter (\<lambda>n. nid n \<notin> set (cascade (file_nodes d) ids)) (filter live (file_nodes d))))"
      using nodes_okD(4) [OF assms] unfolding live_unique_def by (rule distinct_map_filter)
    then show ?thesis
      by (simp add: live_unique_def delete_where_def conj_commute)
  qed
next
  fix n assume n: "n \<in> set (file_nodes (delete_nodes ids d))"
  then show "nid n < next_node (delete_nodes ids d)" using nodes_okD(3) [OF assms] by simp
  show "parent_exists (delete_nodes ids d) (nparent n)"
  proof (cases "nparent n")
    case (Some p)
    with n have "has_node d p" "p \<notin> set (cascade (file_nodes d) ids)"
      using nodes_okD(2) [OF assms, of n] cascade_closed by (auto simp: parent_exists_def)
    then show ?thesis by (simp add: Some parent_exists_def has_node_delete)
  qed (simp add: parent_exists_def)
qed

lemma node_row_delete:
  "node_row (delete_nodes ids d) c
     = (if c \<in> set (cascade (file_nodes d) ids) then None else node_row d c)"
proof -
  have "filter (\<lambda>n. nid n = c) (file_nodes (delete_nodes ids d))
      = filter (\<lambda>n. nid n = c \<and> c \<notin> set (cascade (file_nodes d) ids)) (file_nodes d)"
    by (simp add: delete_where_def) (rule filter_cong, auto)
  then show ?thesis by (simp add: node_row_def)
qed

lemma parent_of_delete:
  "parent_of (delete_nodes ids d) c
     = (if c \<in> set (cascade (file_nodes d) ids) then None else parent_of d c)"
  by (simp add: parent_of_def node_row_delete)

lemma up_delete:
  assumes ok: "nodes_ok d"
  shows "up (delete_nodes ids d) k c
           = (if c \<in> set (cascade (file_nodes d) ids) then None else up d k c)"
proof (induction k arbitrary: c)
  case 0
  then show ?case by (simp add: has_node_delete)
next
  case (Suc k)
  have "p \<notin> set (cascade (file_nodes d) ids)"
    if "parent_of d c = Some p" "c \<notin> set (cascade (file_nodes d) ids)" for p
    using that cascade_closed parent_of_iff [OF ok] by metis
  then show ?case
    using Suc.IH by (auto simp: parent_of_delete split: option.splits)
qed

lemma up_cascade:
  assumes ok: "nodes_ok d" and "up d k c = Some a" "a \<in> set (cascade (file_nodes d) ids)"
  shows "c \<in> set (cascade (file_nodes d) ids)"
  using assms(2,3)
proof (induction k arbitrary: c)
  case 0
  then show ?case by (simp split: if_splits)
next
  case (Suc k)
  then obtain p where p: "parent_of d c = Some p" "up d k p = Some a" by (auto split: option.splits)
  then have "p \<in> set (cascade (file_nodes d) ids)" using Suc by blast
  with p(1) show ?case using parent_of_iff [OF ok] cascade_closed by metis
qed

lemma closure_ok_delete:
  assumes ok: "nodes_ok d" and cl: "closure_ok d"
  shows "closure_ok (delete_nodes ids d)"
proof -
  let ?G = "set (cascade (file_nodes d) ids)"
  have rows: "node_ancestors (delete_nodes ids d)
      = delete_where (\<lambda>r. aanc r \<in> ?G \<or> adesc r \<in> ?G) (node_ancestors d)"
    by (simp add: delete_nodes_def Let_def)
  have "(a, c, k) \<in> anc_set (delete_nodes ids d) \<longleftrightarrow> up (delete_nodes ids d) k c = Some a" for a c k
  proof -
    have "(a, c, k) \<in> anc_set (delete_nodes ids d) \<longleftrightarrow> (a, c, k) \<in> anc_set d \<and> a \<notin> ?G \<and> c \<notin> ?G"
      by (auto simp: anc_set_iff rows)
    then show ?thesis
      using closure_okD [OF cl] up_cascade [OF ok] by (auto simp: up_delete [OF ok])
  qed
  moreover have "pk_distinct (node_ancestors (delete_nodes ids d))"
    using cl unfolding rows closure_ok_def pk_distinct_def by (simp add: distinct_map_delete)
  ultimately show ?thesis by (auto simp: closure_ok_def)
qed

lemma delete_nodes_Nil: "delete_nodes [] d = d"
proof -
  have "cascade (file_nodes d) [] = []" by (rule cascade_fixpoint) simp
  then show ?thesis by (simp add: delete_nodes_def delete_where_id)
qed

lemma delete_nodes_rows_first:
  assumes "ids \<noteq> []"
  shows "delete_nodes ids (d\<lparr>node_ancestors := delete_where (\<lambda>r. adesc r \<in> set ids) (node_ancestors d)\<rparr>)
           = delete_nodes ids d"
proof -
  have "set ids \<subseteq> set (cascade (file_nodes d) ids)" by (rule cascade_superset)
  then have "delete_where (\<lambda>a. aanc a \<in> set (cascade (file_nodes d) ids) \<or>
        adesc a \<in> set (cascade (file_nodes d) ids))
        (delete_where (\<lambda>r. adesc r \<in> set ids) (node_ancestors d))
      = delete_where (\<lambda>a. aanc a \<in> set (cascade (file_nodes d) ids) \<or>
        adesc a \<in> set (cascade (file_nodes d) ids)) (node_ancestors d)"
    unfolding delete_where_def filter_filter by (intro filter_cong) auto
  then show ?thesis by (simp add: delete_nodes_def Let_def)
qed

lemma deleteNode_eq: "deleteNode m d = (Inr (), delete_nodes (getDescendantIds d m) d)"
proof (cases "getDescendantIds d m = []")
  case True
  then show ?thesis
    by (simp add: deleteNode_def service_simps withTx_def cleanupAncestorsForDeletion_def
        deleteNodeTree_def seqs_def reads_def ret_def delete_nodes_Nil)
next
  case False
  then show ?thesis
    by (simp add: deleteNode_def withTx_def cleanupAncestorsForDeletion_def deleteNodeTree_def
        deleteAncestorByDescendant_def seqs_def reads_def ret_def delete_nodes_rows_first)
qed

text \<open>The subtree the closure table lists is closed under children: the cascade adds nothing.\<close>

lemma cascade_descendants:
  assumes ok: "nodes_ok d" and cl: "closure_ok d"
  shows "cascade (file_nodes d) (getDescendantIds d m) = getDescendantIds d m"
proof (rule cascade_fixpoint)
  fix n p assume n: "n \<in> set (file_nodes d)" "nparent n = Some p" "p \<in> set (getDescendantIds d m)"
  then have "parent_of d (nid n) = Some p" using parent_of_iff [OF ok] by blast
  with n(3) show "nid n \<in> set (getDescendantIds d m)"
    unfolding descendants_closure [OF cl] by (blast intro: desc_of_parent)
qed

end
