(* ===== verification/MoveLaws.thy ===== *)
theory MoveLaws
  imports ClosureLaws
begin

text \<open>
  The move of a subtree. First the breadth-first rebuild: on a forest it ends, and it produces
  the ancestor rows of exactly the nodes it can reach through live children. Then the move
  itself, on every branch: which errors it can end with, and the closure table it leaves.
\<close>

section \<open>The nodes a rebuild reaches\<close>

definition reached :: "db \<Rightarrow> nat \<Rightarrow> nat set" where
  "reached d n = {c. live_under d n c}"

lemma reached_iff: "c \<in> reached d n \<longleftrightarrow> live_under d n c"
  by (simp add: reached_def)

lemma reached_up: "c \<in> reached d n \<Longrightarrow> \<exists>j. up d j c = Some n"
  by (auto simp: reached_def live_under_def)

lemma reached_self: "has_node d n \<Longrightarrow> n \<in> reached d n"
  unfolding reached_def live_under_def by (intro CollectI exI [of _ 0]) simp

lemma finite_reached: "finite (reached d n)"
proof (rule finite_subset)
  show "reached d n \<subseteq> node_ids d" using reached_up up_has has_node_iff by blast
  show "finite (node_ids d)" by (simp add: node_ids_def)
qed

lemma live_children:
  assumes "nodes_ok d"
  shows "v_id ` set (getChildren d (Some n)) = {c. parent_of d c = Some n \<and> live_id d c}"
proof -
  have "{c. parent_of d c = Some n \<and> live_id d c}
      = {c. \<exists>m. node_row d c = Some m \<and> nparent m = Some n \<and> live m}"
    by (auto simp: parent_of_def live_id_def split: bind_splits)
  also have "\<dots> = nid ` {m \<in> set (file_nodes d). nparent m = Some n \<and> live m}"
    unfolding node_row_iff [OF assms] by auto
  finally show ?thesis by (simp add: set_getChildren)
qed

lemma distinct_children:
  assumes "nodes_ok d"
  shows "distinct (map v_id (getChildren d p))"
  using nodes_okD(1) [OF assms]
  by (simp add: getChildren_def comp_def distinct_map inj_on_def)

lemma reached_child:
  assumes "c \<in> reached d x" "parent_of d x = Some n" "live_id d x" "has_node d n"
  shows "c \<in> reached d n"
proof -
  obtain j where j: "up d j c = Some x" "\<forall>i < j. \<exists>y. up d i c = Some y \<and> live_id d y"
    using assms(1) by (auto simp: reached_iff live_under_def)
  have "up d (Suc j) c = Some n" using up_Suc_some [OF j(1)] assms(2,4) by simp
  moreover have "\<exists>y. up d i c = Some y \<and> live_id d y" if "i < Suc j" for i
    using that j assms(3) by (cases "i = j") auto
  ultimately show ?thesis unfolding reached_iff live_under_def by blast
qed

lemma reached_split:
  assumes ok: "nodes_ok d" and "has_node d n"
  shows "reached d n = {n} \<union> (\<Union>x \<in> {x. parent_of d x = Some n \<and> live_id d x}. reached d x)"
proof (intro equalityI subsetI)
  fix c assume "c \<in> reached d n"
  then obtain j where j: "up d j c = Some n" "\<forall>i < j. \<exists>y. up d i c = Some y \<and> live_id d y"
    by (auto simp: reached_iff live_under_def)
  show "c \<in> {n} \<union> (\<Union>x \<in> {x. parent_of d x = Some n \<and> live_id d x}. reached d x)"
  proof (cases j)
    case 0
    then show ?thesis using j by (simp split: if_splits)
  next
    case (Suc i)
    then obtain x where x: "up d i c = Some x" "live_id d x" using j by auto
    then have "up d 1 x = Some n" using j Suc up_Suc_some by metis
    then have "parent_of d x = Some n" by (auto split: option.splits if_splits)
    moreover have "c \<in> reached d x"
      using x j Suc unfolding reached_iff live_under_def by (intro exI [of _ i]) auto
    ultimately show ?thesis using x by blast
  qed
next
  fix c assume "c \<in> {n} \<union> (\<Union>x \<in> {x. parent_of d x = Some n \<and> live_id d x}. reached d x)"
  then show "c \<in> reached d n" using reached_self reached_child assms by blast
qed

lemma reached_disjoint:
  assumes "acyclic_nodes d" "has_node d n" "parent_of d x = Some n" "parent_of d y = Some n" "x \<noteq> y"
  shows "reached d x \<inter> reached d y = {}"
proof (rule ccontr)
  assume "reached d x \<inter> reached d y \<noteq> {}"
  then obtain c i j where c: "up d i c = Some x" "up d j c = Some y"
    using reached_up by (metis disjoint_iff)
  then have "up d (Suc i) c = Some n" "up d (Suc j) c = Some n"
    using up_Suc_some [OF c(1)] up_Suc_some [OF c(2)] assms by simp_all
  then have "Suc i = Suc j" using up_inj assms(1) by blast
  with c assms(5) show False by simp
qed

lemma not_reached_from_child:
  assumes "acyclic_nodes d" "has_node d n" "parent_of d x = Some n"
  shows "n \<notin> reached d x"
proof
  assume "n \<in> reached d x"
  then obtain j where j: "up d j n = Some x" using reached_up by blast
  then have "up d (Suc j) n = Some n" using up_Suc_some [OF j] assms by simp
  then show False using assms(1) unfolding acyclic_nodes_def by fastforce
qed

section \<open>The breadth-first rebuild\<close>

definition good_item :: "db \<Rightarrow> nat \<times> (nat \<times> nat) list \<Rightarrow> bool" where
  "good_item d q \<longleftrightarrow> has_node d (fst q) \<and> distinct (map fst (snd q)) \<and>
     set (snd q) = {(a, k). up d (Suc k) (fst q) = Some a}"

definition reach_all :: "db \<Rightarrow> (nat \<times> (nat \<times> nat) list) list \<Rightarrow> nat set" where
  "reach_all d queue = (\<Union>q \<in> set queue. reached d (fst q))"

definition good_queue :: "db \<Rightarrow> (nat \<times> (nat \<times> nat) list) list \<Rightarrow> bool" where
  "good_queue d queue \<longleftrightarrow> (\<forall>q \<in> set queue. good_item d q) \<and>
     sorted_wrt (\<lambda>p q. reached d (fst p) \<inter> reached d (fst q) = {}) queue"

lemma good_item_not_own:
  "acyclic_nodes d \<Longrightarrow> good_item d (n, chain) \<Longrightarrow> n \<notin> fst ` set chain"
  by (auto simp: good_item_def acyclic_nodes_def simp del: up.simps) (metis nat.distinct(1))

lemma good_item_rows:
  assumes "good_item d (n, chain)"
  shows "row_triple ` set (rows_for n chain) = {(a, c, k). c = n \<and> up d k c = Some a}"
proof -
  have "(a, c, k) \<in> row_triple ` set (rows_for n chain) \<longleftrightarrow> c = n \<and> up d k c = Some a" for a c k
    using assms unfolding rows_for_triples good_item_def by (cases k) auto
  then show ?thesis by auto
qed

lemma good_item_child:
  assumes "acyclic_nodes d" "good_item d (n, chain)" "nodes_ok d" "parent_of d x = Some n"
  shows "good_item d (x, child_chain n chain)"
proof -
  have "distinct (map fst (child_chain n chain))"
    using good_item_not_own [OF assms(1,2)] assms(2)
    by (auto simp: child_chain_def good_item_def comp_def case_prod_unfold)
  moreover have "(a, k) \<in> set (child_chain n chain) \<longleftrightarrow> up d (Suc k) x = Some a" for a k
    using assms(2,4) by (cases k) (auto simp: child_chain_def good_item_def image_iff)
  ultimately show ?thesis
    using parent_of_has [OF assms(3,4)] unfolding good_item_def by auto
qed

lemma good_queue_step:
  assumes ok: "nodes_ok d" and ac: "acyclic_nodes d" and q: "good_queue d ((n, chain) # rest)"
  defines "queue' \<equiv> rest @ map (\<lambda>c. (v_id c, child_chain n chain)) (getChildren d (Some n))"
  shows "good_queue d queue'" and "reach_all d ((n, chain) # rest) = insert n (reach_all d queue')"
    and "n \<notin> reach_all d queue'"
proof -
  let ?C = "{x. parent_of d x = Some n \<and> live_id d x}"
  have n: "has_node d n" and item: "good_item d (n, chain)"
    using q by (auto simp: good_queue_def good_item_def)
  have ch: "v_id ` set (getChildren d (Some n)) = ?C" by (rule live_children [OF ok])
  have split: "reached d n = {n} \<union> (\<Union>x \<in> ?C. reached d x)" by (rule reached_split [OF ok n])
  have rest: "reached d n \<inter> reached d (fst p) = {}" if "p \<in> set rest" for p
    using q that by (auto simp: good_queue_def)
  have items: "good_item d p" if "p \<in> set queue'" for p
  proof -
    from that consider "p \<in> set rest" | x where "x \<in> ?C" "p = (x, child_chain n chain)"
      using ch by (auto simp: queue'_def)
    then show ?thesis
    proof cases
      case 1
      then show ?thesis using q by (simp add: good_queue_def)
    next
      case 2
      then show ?thesis using good_item_child [OF ac item ok] by blast
    qed
  qed
  have kids: "sorted_wrt (\<lambda>x y. reached d (v_id x) \<inter> reached d (v_id y) = {}) (getChildren d (Some n))"
  proof (rule sorted_wrt_mono_rel)
    show "sorted_wrt (\<lambda>x y. v_id x \<noteq> v_id y) (getChildren d (Some n))"
      using distinct_children [OF ok, of "Some n"] by (rule distinct_map_sorted_wrt)
    show "reached d (v_id x) \<inter> reached d (v_id y) = {}"
      if "x \<in> set (getChildren d (Some n))" "y \<in> set (getChildren d (Some n))" "v_id x \<noteq> v_id y" for x y
      using that ch reached_disjoint [OF ac n] by blast
  qed
  show "good_queue d queue'"
    unfolding good_queue_def
  proof (intro conjI ballI)
    show "sorted_wrt (\<lambda>p q. reached d (fst p) \<inter> reached d (fst q) = {}) queue'"
      using q kids rest split ch
      by (fastforce simp: queue'_def sorted_wrt_append sorted_wrt_map good_queue_def)
  qed (rule items)
  have "reach_all d queue' = reach_all d rest \<union> (\<Union>x \<in> ?C. reached d x)"
    unfolding ch [symmetric] by (auto simp: reach_all_def queue'_def)
  then show "reach_all d ((n, chain) # rest) = insert n (reach_all d queue')"
    and "n \<notin> reach_all d queue'"
    using split rest reached_self [OF n] not_reached_from_child [OF ac n]
    by (auto simp: reach_all_def)
qed

lemma finite_reach_all: "finite (reach_all d queue)"
  by (simp add: reach_all_def finite_reached)

text \<open>The loop ends, and with which rows.\<close>

lemma bfs_rows_ok:
  assumes ok: "nodes_ok d" and ac: "acyclic_nodes d" and q: "good_queue d queue"
  shows "\<exists>rows. bfs_rows d queue acc = Some (acc @ rows) \<and> pk_distinct rows \<and>
           row_triple ` set rows = {(a, c, k). c \<in> reach_all d queue \<and> up d k c = Some a}"
  using q
proof (induction "card (reach_all d queue)" arbitrary: queue acc rule: less_induct)
  case less
  show ?case
  proof (cases queue)
    case Nil
    then show ?thesis
      by (subst bfs_rows.simps) (simp add: reach_all_def pk_distinct_def)
  next
    case (Cons q rest)
    obtain n chain where q: "q = (n, chain)" by (cases q)
    let ?q' = "rest @ map (\<lambda>c. (v_id c, child_chain n chain)) (getChildren d (Some n))"
    note step = good_queue_step [OF ok ac less.prems [unfolded Cons q]]
    have item: "good_item d (n, chain)" using less.prems by (simp add: Cons q good_queue_def)
    have "card (reach_all d ?q') < card (reach_all d queue)"
      unfolding Cons q step(2) using step(3) finite_reach_all by simp
    from less.hyps [OF this step(1), of "acc @ rows_for n chain"] obtain rows where rows:
      "bfs_rows d ?q' (acc @ rows_for n chain) = Some ((acc @ rows_for n chain) @ rows)"
      "pk_distinct rows"
      "row_triple ` set rows = {(a, c, k). c \<in> reach_all d ?q' \<and> up d k c = Some a}"
      by blast
    have desc: "adesc r \<in> reach_all d ?q'" if "r \<in> set rows" for r
    proof -
      have "row_triple r \<in> row_triple ` set rows" using that by (rule imageI)
      then show ?thesis unfolding rows(3) by (simp add: row_triple_def)
    qed
    have "pk_distinct (rows_for n chain @ rows)"
      unfolding pk_distinct_append
      using rows(2) rows_for_pk [of chain n] good_item_not_own [OF ac item] item desc step(3)
        adesc_rows_for by (fastforce simp: good_item_def)
    moreover have "row_triple ` set (rows_for n chain @ rows)
        = {(a, c, k). c \<in> reach_all d queue \<and> up d k c = Some a}"
      unfolding set_append image_Un good_item_rows [OF item] rows(3) Cons q step(2) by auto
    moreover have "bfs_rows d queue acc = Some (acc @ rows_for n chain @ rows)"
      using rows(1) by (subst bfs_rows.simps) (simp add: Cons q)
    ultimately show ?thesis by blast
  qed
qed

lemma bfs_rows_root:
  assumes ok: "nodes_ok d" and ac: "acyclic_nodes d" and n: "has_node d n"
    and ch: "distinct (map fst chain)" "set chain = {(a, k). up d (Suc k) n = Some a}"
  obtains rows where "bfs_rows d [(n, chain)] [] = Some rows" "pk_distinct rows"
    "row_triple ` set rows = {(a, c, k). live_under d n c \<and> up d k c = Some a}"
proof -
  have "good_queue d [(n, chain)]" using n ch by (simp add: good_queue_def good_item_def)
  from bfs_rows_ok [OF ok ac this, of "[]"] show thesis
    using that by (auto simp: reach_all_def reached_def)
qed

section \<open>The forest after a move\<close>

definition moved :: "db \<Rightarrow> nat \<Rightarrow> nat option \<Rightarrow> db" where
  "moved d m p = d\<lparr>file_nodes := update_where (\<lambda>n. nid n = m)
     (\<lambda>n. n\<lparr>nparent := p, nupdated := datetime_now d\<rparr>) (file_nodes d)\<rparr>"

lemma nid_moved: "map nid (file_nodes (moved d m p)) = map nid (file_nodes d)"
  by (simp add: moved_def map_update_where)

lemma has_node_moved [simp]: "has_node (moved d m p) c = has_node d c"
  using arg_cong [OF nid_moved, of set d m p] by (simp add: has_node_iff node_ids_def)

lemma filter_update_key:
  "(\<And>n. g (f n) = g n) \<Longrightarrow>
   filter (\<lambda>n. g n = c) (update_where (\<lambda>n. g n = m) f ns)
     = map (\<lambda>n. if c = m then f n else n) (filter (\<lambda>n. g n = c) ns)"
  by (induction ns) (auto simp: update_where_def)

lemma first_row_map: "first_row (map f xs) = map_option f (first_row xs)"
  by (cases xs) auto

lemma node_row_moved:
  "node_row (moved d m p) c
     = map_option (\<lambda>n. if c = m then n\<lparr>nparent := p, nupdated := datetime_now d\<rparr> else n) (node_row d c)"
  by (simp add: node_row_def moved_def filter_update_key first_row_map)

lemma parent_of_moved:
  "parent_of (moved d m p) c = (if c = m \<and> has_node d m then p else parent_of d c)"
  using node_row_None [of d c] by (cases "node_row d c") (auto simp: parent_of_def node_row_moved)

lemma live_id_moved [simp]: "live_id (moved d m p) c = live_id d c"
  by (cases "node_row d c") (auto simp: live_id_def node_row_moved live_def)

text \<open>Outside the moved subtree nothing changes; inside, the walk goes on above the new parent.\<close>

definition can_move :: "db \<Rightarrow> nat \<Rightarrow> nat option \<Rightarrow> bool" where
  "can_move d m p \<longleftrightarrow> nodes_ok d \<and> acyclic_nodes d \<and> has_node d m \<and> parent_exists d p \<and>
     (\<forall>q. p = Some q \<longrightarrow> q \<notin> desc_of d m)"

lemma can_moveD:
  assumes "can_move d m p"
  shows "nodes_ok d" "acyclic_nodes d" "has_node d m" "parent_exists d p"
    "p = Some q \<Longrightarrow> q \<notin> desc_of d m"
  using assms by (auto simp: can_move_def)

lemma up_moved_outside:
  assumes mv: "can_move d m p" and "c \<notin> desc_of d m"
  shows "up (moved d m p) k c = up d k c"
  using assms(2)
proof (induction k arbitrary: c)
  case 0
  then show ?case by simp
next
  case (Suc k)
  have "c \<noteq> m" using Suc.prems desc_of_self can_moveD(3) [OF mv] by blast
  then have par: "parent_of (moved d m p) c = parent_of d c" by (simp add: parent_of_moved)
  have "x \<notin> desc_of d m" if "parent_of d c = Some x" for x
    using that Suc.prems desc_of_parent by metis
  then show ?case using Suc.IH par by (auto split: option.splits)
qed

lemma up_moved_inside:
  assumes mv: "can_move d m p"
  shows "up d j c = Some m \<Longrightarrow> i \<le> j \<Longrightarrow> up (moved d m p) i c = up d i c"
proof (induction j arbitrary: c i)
  case 0
  then show ?case by simp
next
  case (Suc j)
  show ?case
  proof (cases i)
    case 0
    then show ?thesis by simp
  next
    case i: (Suc i')
    have "c \<noteq> m" using Suc.prems(1) can_moveD(2) [OF mv] unfolding acyclic_nodes_def by blast
    moreover obtain x where "parent_of d c = Some x" "up d j x = Some m"
      using Suc.prems(1) by (auto split: option.splits)
    ultimately show ?thesis using Suc i by (simp add: parent_of_moved)
  qed
qed

lemma up_moved_root:
  assumes mv: "can_move d m p"
  shows "up (moved d m p) (Suc k) m = (case p of None \<Rightarrow> None | Some q \<Rightarrow> up d k q)"
  using can_moveD(3,5) [OF mv] up_moved_outside [OF mv]
  by (cases p) (simp_all add: parent_of_moved)

lemma up_moved_above:
  assumes mv: "can_move d m p" and "up d j c = Some m"
  shows "up (moved d m p) (Suc (j + k)) c = (case p of None \<Rightarrow> None | Some q \<Rightarrow> up d k q)"
  using up_moved_inside [OF assms order_refl] assms(2) up_add [of "moved d m p" j c m "Suc k"]
    up_moved_root [OF mv] by simp

lemma desc_of_moved:
  assumes mv: "can_move d m p"
  shows "desc_of (moved d m p) m = desc_of d m"
proof (intro equalityI subsetI)
  fix c assume "c \<in> desc_of d m"
  then obtain j where "up d j c = Some m" by (auto simp: desc_of_def)
  with up_moved_inside [OF mv this order_refl] show "c \<in> desc_of (moved d m p) m"
    by (auto simp: desc_of_def)
next
  fix c assume c: "c \<in> desc_of (moved d m p) m"
  show "c \<in> desc_of d m"
  proof (rule ccontr)
    assume "c \<notin> desc_of d m"
    with c up_moved_outside [OF mv, of c] show False by (auto simp: desc_of_def)
  qed
qed

lemma acyclic_moved:
  assumes mv: "can_move d m p"
  shows "acyclic_nodes (moved d m p)"
  unfolding acyclic_nodes_def
proof (intro allI impI)
  fix k c assume k: "up (moved d m p) k c = Some c"
  show "k = 0"
  proof (cases "c \<in> desc_of d m")
    case False
    then show ?thesis using k can_moveD(2) [OF mv] up_moved_outside [OF mv] unfolding acyclic_nodes_def by metis
  next
    case True
    then obtain j where j: "up d j c = Some m" by (auto simp: desc_of_def)
    show ?thesis
    proof (cases "k \<le> j")
      case True
      then show ?thesis using up_moved_inside [OF mv j True] k can_moveD(2) [OF mv] unfolding acyclic_nodes_def by metis
    next
      case False
      then obtain i where "k = Suc (j + i)" by (metis less_iff_Suc_add not_le)
      with k up_moved_above [OF mv j, of i] obtain q where q: "p = Some q" "up d i q = Some c"
        by (auto split: option.splits)
      then have "q \<in> desc_of d m" using True by (blast intro: desc_of_trans)
      then show ?thesis using can_moveD(5) [OF mv] q by blast
    qed
  qed
qed

lemma nodes_ok_moved:
  assumes ok: "nodes_ok d" and p: "parent_exists d p" and u: "live_unique (file_nodes (moved d m p))"
  shows "nodes_ok (moved d m p)"
  unfolding nodes_ok_def
proof (intro conjI ballI)
  show "distinct (map nid (file_nodes (moved d m p)))"
    using nodes_okD(1) [OF ok] by (simp add: moved_def map_update_where)
  show "live_unique (file_nodes (moved d m p))" by (rule u)
next
  fix n assume n: "n \<in> set (file_nodes (moved d m p))"
  have pe: "parent_exists (moved d m p) q = parent_exists d q" for q
    by (simp add: parent_exists_def split: option.splits)
  from n obtain o' where "o' \<in> set (file_nodes d)" "nid n = nid o'"
    "nparent n = p \<or> nparent n = nparent o'"
    by (auto simp: moved_def set_update_where)
  then show "parent_exists (moved d m p) (nparent n)" "nid n < next_node (moved d m p)"
    using nodes_okD(2,3) [OF ok] p pe by (auto simp: moved_def)
qed

section \<open>The move service\<close>

definition move_refused :: "db \<Rightarrow> nat \<Rightarrow> nat option \<Rightarrow> bool" where
  "move_refused d m p \<longleftrightarrow> \<not> has_node d m \<or> \<not> parent_exists d p \<or>
     \<not> live_unique (file_nodes (moved d m p))"

lemma count_where_0: "count_where P xs = 0 \<longleftrightarrow> (\<forall>x \<in> set xs. \<not> P x)"
  by (simp add: count_where_def filter_empty_conv)

lemma repo_moveNode_eq:
  assumes "has_node d m"
  shows "repo_moveNode m p d
    = (if \<not> parent_exists d p then (Inl db_failed, d)
       else if \<not> live_unique (file_nodes (moved d m p)) then (Inl db_failed, d)
       else (Inr (count_where (\<lambda>n. nid n = m) (file_nodes d)), moved d m p))"
proof -
  have "0 < count_where (\<lambda>n. nid n = m) (file_nodes d)"
    using assms count_where_0 [of "\<lambda>n. nid n = m" "file_nodes d"] by (auto simp: has_node_def)
  then show ?thesis
    by (simp add: repo_moveNode_def write_nodes_def moved_def)
qed

text \<open>The table without the rows of the moved subtree.\<close>

definition without_subtree :: "db \<Rightarrow> nat \<Rightarrow> nat option \<Rightarrow> db" where
  "without_subtree d m p = (moved d m p)\<lparr>node_ancestors :=
     delete_where (\<lambda>r. adesc r \<in> set (getDescendantIds d m)) (node_ancestors d)\<rparr>"

lemma without_subtree_tree:
  "file_nodes (without_subtree d m p) = file_nodes (moved d m p)"
  "next_node (without_subtree d m p) = next_node (moved d m p)"
  "node_ancestors (without_subtree d m p)
     = delete_where (\<lambda>r. adesc r \<in> set (getDescendantIds d m)) (node_ancestors d)"
  by (simp_all add: without_subtree_def)

lemma without_subtree_up: "up (without_subtree d m p) k c = up (moved d m p) k c"
  by (rule up_cong) (simp add: without_subtree_tree)

lemma live_under_cong:
  assumes "file_nodes d = file_nodes d'"
  shows "live_under d n c = live_under d' n c"
  using up_cong [OF assms] assms by (simp add: live_under_def live_id_def node_row_def)

lemma without_subtree_chain:
  assumes "\<And>q. p = Some q \<Longrightarrow> q \<notin> set (getDescendantIds d m)"
  shows "chain_of (without_subtree d m p) p = chain_of d p"
proof (cases p)
  case (Some q)
  have "filter (\<lambda>r. adesc r = q)
      (delete_where (\<lambda>r. adesc r \<in> set (getDescendantIds d m)) (node_ancestors d))
    = filter (\<lambda>r. adesc r = q) (node_ancestors d)"
    using assms [OF Some] unfolding delete_where_def filter_filter by (intro filter_cong) auto
  then show ?thesis by (simp add: Some chain_of_def getAncestorChain_def without_subtree_tree)
qed (simp add: chain_of_def)

lemma rebuild_steps:
  assumes "getDescendantIds d m \<noteq> []"
    and "bfs_rows (without_subtree d m p) [(m, chain_of (without_subtree d m p) p)] [] = Some rows"
    and "insertAncestorRows rows 0 (without_subtree d m p) = (Inr n, d')"
  shows "rebuildAncestorsAfterMove m p (moved d m p) = (Inr (), d')"
proof -
  have ids: "getDescendantIds (moved d m p) m = getDescendantIds d m"
    by (simp add: getDescendantIds_def moved_def)
  have del: "deleteAncestorByDescendant (getDescendantIds d m) (moved d m p)
      = (Inr (count_where (\<lambda>r. adesc r \<in> set (getDescendantIds d m)) (node_ancestors d)),
         without_subtree d m p)"
    using assms(1) by (simp add: deleteAncestorByDescendant_def without_subtree_def moved_def)
  show ?thesis
    using assms(2,3) unfolding chain_of_def
    by (simp add: rebuildAncestorsAfterMove_def service_simps ids del seqs_def reads_def ret_def
        del: insertAncestorRows.simps) auto
qed

lemma rebuild_ok:
  assumes mv: "can_move d m p" and cl: "closure_ok d" and u: "live_unique (file_nodes (moved d m p))"
  obtains rows where
    "rebuildAncestorsAfterMove m p (moved d m p) = (Inr (), (without_subtree d m p)\<lparr>node_ancestors :=
       node_ancestors (without_subtree d m p) @ rows\<rparr>)"
    "row_triple ` set rows
       = {(a, c, k). live_under (moved d m p) m c \<and> up (moved d m p) k c = Some a}"
    "pk_distinct (node_ancestors (without_subtree d m p) @ rows)"
proof -
  let ?d = "without_subtree d m p" and ?M = "moved d m p"
  note up2 = without_subtree_up [of d m p]
  have D: "set (getDescendantIds d m) = desc_of d m" by (rule descendants_closure [OF cl])
  have ne: "getDescendantIds d m \<noteq> []"
    using D desc_of_self [OF can_moveD(3) [OF mv]] by auto
  have ok2: "nodes_ok ?d"
    using nodes_ok_moved [OF can_moveD(1,4) [OF mv] u] nodes_ok_cong [of ?d ?M]
    by (simp add: without_subtree_tree)
  have ac2: "acyclic_nodes ?d" using acyclic_moved [OF mv] by (simp add: acyclic_nodes_def up2)
  have m2: "has_node ?d m" using can_moveD(3) [OF mv] has_node_cong [of ?d ?M m]
    by (simp add: without_subtree_tree)
  have ch: "chain_of ?d p = chain_of d p"
    using without_subtree_chain can_moveD(5) [OF mv] D by metis
  have chd: "distinct (map fst (chain_of d p))"
    using cl distinct_ancestor_chain by (auto simp: chain_of_def closure_ok_def split: option.splits)
  have chs: "set (chain_of d p) = {(a, k). up ?d (Suc k) m = Some a}"
    using ancestors_closure [OF cl] up_moved_root [OF mv] unfolding up2
    by (auto simp: chain_of_def simp del: up.simps split: option.splits)
  obtain rows where bfs: "bfs_rows ?d [(m, chain_of ?d p)] [] = Some rows" and pk: "pk_distinct rows"
    and rows: "row_triple ` set rows = {(a, c, k). live_under ?d m c \<and> up ?d k c = Some a}"
    unfolding ch by (rule bfs_rows_root [OF ok2 ac2 m2 chd chs])
  have rows': "row_triple ` set rows = {(a, c, k). live_under ?M m c \<and> up ?M k c = Some a}"
    unfolding rows up2 using live_under_cong [of ?d ?M m] by (simp add: without_subtree_tree)
  have row: "live_under ?M m (adesc r) \<and> up ?M (adepth r) (adesc r) = Some (aanc r)"
    if "r \<in> set rows" for r
    using imageI [OF that, of row_triple] unfolding rows' by (simp add: row_triple_def)
  have "adesc r \<in> desc_of d m" if "r \<in> set rows" for r
    using row [OF that] desc_of_moved [OF mv] by (auto simp: live_under_def desc_of_def)
  then have pk2: "pk_distinct (node_ancestors ?d @ rows)"
    using cl pk unfolding pk_distinct_append without_subtree_tree D
    by (auto simp: closure_ok_def pk_distinct_def distinct_map_delete)
  have "\<forall>r \<in> set rows. has_node ?d (aanc r) \<and> has_node ?d (adesc r)"
    using row up_has has_node_cong [of ?d ?M] by (metis without_subtree_tree(1))
  from insertAncestorRows_ok [OF pk2 this, of 0] rebuild_steps [OF ne bfs]
  show thesis using that rows' pk2 by blast
qed

lemma moveNode_own_descendant:
  assumes "closure_ok d" and "p = Some q" and "q \<in> desc_of d m"
  shows "moveNode m p d = (Inl own_descendant, d)"
  using assms descendants_closure [OF assms(1)]
  by (simp add: moveNode_def service_simps)

text \<open>A move that passes the guard and the constraints: the table it leaves.\<close>

lemma moveNode_result:
  assumes ok: "nodes_ok d" and cl: "closure_ok d"
    and out: "\<forall>q. p = Some q \<longrightarrow> q \<notin> desc_of d m" and r: "\<not> move_refused d m p"
  obtains d' where "moveNode m p d = (Inr (), d')"
    "file_nodes d' = file_nodes (moved d m p)" "nodes_ok d'" "pk_distinct (node_ancestors d')"
    "anc_set d' = {(a, c, k). up d' k c = Some a \<and> (c \<in> desc_of d m \<longrightarrow> live_under d' m c)}"
proof -
  have m: "has_node d m" "parent_exists d p" and u: "live_unique (file_nodes (moved d m p))"
    using r by (auto simp: move_refused_def)
  have mv: "can_move d m p"
    using ok closure_acyclic [OF cl] m out by (simp add: can_move_def)
  have D: "set (getDescendantIds d m) = desc_of d m" by (rule descendants_closure [OF cl])
  obtain rows where rb: "rebuildAncestorsAfterMove m p (moved d m p)
      = (Inr (), (without_subtree d m p)\<lparr>node_ancestors :=
           node_ancestors (without_subtree d m p) @ rows\<rparr>)"
    and rows: "row_triple ` set rows
      = {(a, c, k). live_under (moved d m p) m c \<and> up (moved d m p) k c = Some a}"
    and pk: "pk_distinct (node_ancestors (without_subtree d m p) @ rows)"
    by (rule rebuild_ok [OF mv cl u])
  define d' where "d' = (without_subtree d m p)\<lparr>node_ancestors :=
    node_ancestors (without_subtree d m p) @ rows\<rparr>"
  have files: "file_nodes d' = file_nodes (moved d m p)" "next_node d' = next_node (moved d m p)"
    by (simp_all add: d'_def without_subtree_tree)
  note up' = up_cong [OF files(1)] and lu' = live_under_cong [OF files(1)]
  have "moveNode m p d = (Inr (), d')"
    using out D rb repo_moveNode_eq [OF m(1), of p] m(2) u
    by (simp add: moveNode_def service_simps withTx_def seqs_def reads_def guard_def d'_def)
  moreover have "nodes_ok d'"
    using nodes_ok_moved [OF ok m(2) u] nodes_ok_cong [OF files] by simp
  moreover have "(a, c, k) \<in> anc_set d' \<longleftrightarrow>
      up d' k c = Some a \<and> (c \<in> desc_of d m \<longrightarrow> live_under d' m c)" for a c k
  proof -
    have "anc_set d' = row_triple ` set (node_ancestors (without_subtree d m p)) \<union> row_triple ` set rows"
      by (simp add: anc_set_def d'_def image_Un)
    moreover have "(a, c, k) \<in> row_triple ` set (node_ancestors (without_subtree d m p)) \<longleftrightarrow>
        up d k c = Some a \<and> c \<notin> desc_of d m"
      using closure_okD [OF cl, of a c k] D
      by (force simp: anc_set_iff row_triple_def without_subtree_tree)
    ultimately have "(a, c, k) \<in> anc_set d' \<longleftrightarrow> (up d k c = Some a \<and> c \<notin> desc_of d m) \<or>
        (live_under (moved d m p) m c \<and> up (moved d m p) k c = Some a)"
      unfolding rows by auto
    moreover have "live_under (moved d m p) m c \<Longrightarrow> c \<in> desc_of d m"
      using desc_of_moved [OF mv] by (auto simp: live_under_def desc_of_def)
    ultimately show ?thesis
      using up_moved_outside [OF mv, of c k] up' lu' by auto
  qed
  moreover have "pk_distinct (node_ancestors d')" using pk by (simp add: d'_def)
  ultimately show thesis using that [of d'] files(1) by blast
qed

lemma moveNode_refused:
  assumes ok: "nodes_ok d" and cl: "closure_ok d"
    and out: "\<forall>q. p = Some q \<longrightarrow> q \<notin> desc_of d m" and r: "move_refused d m p" and m: "has_node d m"
  shows "moveNode m p d = (Inl db_failed, d)"
  using out descendants_closure [OF cl] repo_moveNode_eq [OF m, of p] r m
  by (simp add: moveNode_def service_simps withTx_def seqs_def reads_def guard_def move_refused_def
      db_failed_def)

text \<open>With every node of the subtree live, the rebuild reaches all of them.\<close>

lemma live_subtree_reached:
  assumes "\<forall>c \<in> desc_of d m. c = m \<or> live_id d c" and "c \<in> desc_of d m"
    and ac: "acyclic_nodes d"
  shows "live_under d m c"
proof -
  obtain j where j: "up d j c = Some m" using assms(2) by (auto simp: desc_of_def)
  have "\<exists>x. up d i c = Some x \<and> live_id d x" if i: "i < j" for i
  proof -
    obtain x where x: "up d i c = Some x" "up d (j - i) x = Some m"
      using up_le [OF j, of i] i by auto
    then have "x \<in> desc_of d m" by (auto simp: desc_of_def)
    moreover have "x \<noteq> m" using x(2) i ac unfolding acyclic_nodes_def by fastforce
    ultimately show ?thesis using assms(1) x(1) by blast
  qed
  with j show ?thesis unfolding live_under_def by blast
qed

text \<open>A node below the moved one that cannot be reached has no row left, not even its own.\<close>

lemma unreached_rows_lost:
  assumes "anc_set d' = {(a, c, k). up d' k c = Some a \<and> (c \<in> D \<longrightarrow> live_under d' m c)}"
    and "c \<in> D" and "\<not> live_under d' m c"
  shows "getAncestorChain d' c = []"
proof -
  have "(a, c, k) \<notin> anc_set d'" for a k using assms by auto
  then have "filter (\<lambda>r. adesc r = c) (node_ancestors d') = []"
    by (auto simp: anc_set_iff filter_empty_conv)
  then show ?thesis by (simp add: getAncestorChain_def)
qed

end
