(* ===== verification/TreeProps.thy ===== *)
theory TreeProps
  imports MoveLaws
begin

text \<open>
  What the node service guarantees of the tree as a whole: the invariant over every history of
  operations, the exact effect of a move and of a deletion, and the round trip between a node
  and its path.
\<close>

section \<open>Operations that leave the shape of the tree alone\<close>

definition shape :: "db \<Rightarrow> (nat \<times> nat option) list" where
  "shape d = map (\<lambda>n. (nid n, nparent n)) (file_nodes d)"

lemma node_row_shape:
  "map_option nparent (node_row d i) = map_option snd (first_row (filter (\<lambda>x. fst x = i) (shape d)))"
proof -
  have "filter (\<lambda>x. fst x = i) (shape d)
      = map (\<lambda>n. (nid n, nparent n)) (filter (\<lambda>n. nid n = i) (file_nodes d))"
    by (simp add: shape_def filter_map comp_def)
  then show ?thesis by (simp add: node_row_def first_row_map option.map_comp comp_def)
qed

lemma shape_parent_of:
  assumes "shape d = shape d'"
  shows "parent_of d c = parent_of d' c"
proof -
  have "map_option nparent (node_row d c) = map_option nparent (node_row d' c)"
    using assms by (simp add: node_row_shape)
  then show ?thesis
    by (cases "node_row d c"; cases "node_row d' c") (auto simp: parent_of_def)
qed

lemma shape_has_node:
  assumes "shape d = shape d'"
  shows "has_node d c = has_node d' c"
proof -
  have "map nid (file_nodes d) = map fst (shape d)" for d by (simp add: shape_def comp_def)
  then have "node_ids d = fst ` set (shape d)" for d
    by (metis list.set_map node_ids_def)
  then show ?thesis using assms by (simp add: has_node_iff)
qed

lemma shape_up:
  assumes "shape d = shape d'"
  shows "up d k c = up d' k c"
  by (induction k arbitrary: c)
     (simp_all add: shape_has_node [OF assms] shape_parent_of [OF assms] split: option.splits)

lemma shape_closure_ok:
  assumes "shape d = shape d'" "node_ancestors d = node_ancestors d'"
  shows "closure_ok d = closure_ok d'"
  using assms(2) by (simp add: closure_ok_def anc_set_def shape_up [OF assms(1)])

lemma shape_nodes_ok:
  assumes sh: "shape d = shape d'" and ok: "nodes_ok d" and n: "next_node d' = next_node d"
    and u: "live_unique (file_nodes d')"
  shows "nodes_ok d'"
  unfolding nodes_ok_def
proof (intro conjI ballI)
  have ids: "map nid (file_nodes d') = map nid (file_nodes d)"
    using arg_cong [OF sh, of "map fst"] by (simp add: shape_def comp_def)
  show "distinct (map nid (file_nodes d'))" using ids nodes_okD(1) [OF ok] by simp
  fix m assume m: "m \<in> set (file_nodes d')"
  then have "(nid m, nparent m) \<in> set (shape d)" by (simp add: sh) (simp add: shape_def)
  then obtain q where q: "q \<in> set (file_nodes d)" "nid q = nid m" "nparent q = nparent m"
    by (auto simp: shape_def)
  show "nid m < next_node d'" using nodes_okD(3) [OF ok q(1)] q(2) n by simp
  show "parent_exists d' (nparent m)"
    using nodes_okD(2) [OF ok q(1)] q(3) shape_has_node [OF sh]
    by (simp add: parent_exists_def split: option.splits)
qed (rule u)

lemma shape_update_where:
  "(\<And>n. nid (f n) = nid n) \<Longrightarrow> (\<And>n. nparent (f n) = nparent n) \<Longrightarrow>
   shape (d\<lparr>file_nodes := update_where P f (file_nodes d)\<rparr>) = shape d"
  by (simp add: shape_def map_update_where)

definition tree_ok :: "db \<Rightarrow> bool" where
  "tree_ok d \<longleftrightarrow> nodes_ok d \<and> closure_ok d"

lemma tree_okD: "tree_ok d \<Longrightarrow> nodes_ok d" "tree_ok d \<Longrightarrow> closure_ok d"
  by (auto simp: tree_ok_def)

lemma tree_ok_update:
  assumes "tree_ok d" "\<And>n. nid (f n) = nid n" "\<And>n. nparent (f n) = nparent n"
    and "live_unique (update_where P f (file_nodes d))"
  shows "tree_ok (d\<lparr>file_nodes := update_where P f (file_nodes d)\<rparr>)"
proof -
  let ?d = "d\<lparr>file_nodes := update_where P f (file_nodes d)\<rparr>"
  have sh: "shape ?d = shape d" using assms(2,3) by (rule shape_update_where)
  show ?thesis
    using assms(1,4) shape_nodes_ok [OF sh [symmetric]] shape_closure_ok [OF sh]
    by (simp add: tree_ok_def)
qed

lemma live_unique_mono:
  assumes "live_unique ns" "\<And>n. n \<in> set ns \<Longrightarrow> live (f n) \<Longrightarrow> live n \<and> nparent (f n) = nparent n \<and> nname (f n) = nname n"
  shows "live_unique (map f ns)"
  using assms
proof (induction ns)
  case Nil
  then show ?case by (simp add: live_unique_def)
next
  case (Cons n ns)
  have IH: "live_unique (map f ns)" using Cons by (auto simp: live_unique_def split: if_splits)
  show ?case
  proof (cases "live (f n)")
    case True
    then have n: "live n" "nparent (f n) = nparent n" "nname (f n) = nname n" using Cons.prems(2) by auto
    have A: "(nparent n, nname n) \<notin> (\<lambda>n. (nparent n, nname n)) ` set (filter live ns)"
      using Cons.prems(1) n(1) by (simp add: live_unique_def)
    have B: "(\<lambda>n. (nparent n, nname n)) ` set (filter live (map f ns))
        \<subseteq> (\<lambda>n. (nparent n, nname n)) ` set (filter live ns)"
      using Cons.prems(2) by (force simp: image_iff)
    have "(nparent (f n), nname (f n))
        \<notin> (\<lambda>n. (nparent n, nname n)) ` set (filter live (map f ns))"
      unfolding n(2,3) using A B by blast
    then show ?thesis using IH True unfolding live_unique_def by simp
  qed (use IH in \<open>simp add: live_unique_def\<close>)
qed

lemma rename_tree_ok: "tree_ok d \<Longrightarrow> tree_ok (snd (renameNode i nm d))"
  using tree_ok_update [of d "\<lambda>n. n\<lparr>nname := nm, nupdated := datetime_now d\<rparr>" "\<lambda>n. nid n = i"]
  by (simp add: renameNode_def repo_renameNode_def write_nodes_def seqs_def ret_def)

lemma trash_tree_ok: "tree_ok d \<Longrightarrow> tree_ok (snd (markSubtreeDeleted ids d))"
proof -
  assume ok: "tree_ok d"
  have "live_unique (update_where (\<lambda>n. nid n \<in> set ids) (\<lambda>n. n\<lparr>ndeleted := Some (datetime_now d)\<rparr>)
          (file_nodes d))"
    unfolding update_where_def
    by (rule live_unique_mono [OF nodes_okD(4) [OF tree_okD(1) [OF ok]]]) (auto simp: live_def split: if_splits)
  with ok show ?thesis by (auto simp: markSubtreeDeleted_def intro: tree_ok_update)
qed

lemma untrash_tree_ok: "tree_ok d \<Longrightarrow> tree_ok (snd (untrashSubtree ids d))"
  by (auto simp: untrashSubtree_def write_nodes_def intro: tree_ok_update)

lemma sync_tree_ok: "tree_ok d \<Longrightarrow> tree_ok (snd (updateSyncStatus i st d))"
proof -
  assume ok: "tree_ok d"
  have "live_unique (update_where (\<lambda>n. nid n = i) (\<lambda>n. n\<lparr>nsync := st, nupdated := datetime_now d\<rparr>)
          (file_nodes d))"
    unfolding update_where_def
    by (rule live_unique_mono [OF nodes_okD(4) [OF tree_okD(1) [OF ok]]]) (auto simp: live_def split: if_splits)
  with ok show ?thesis
    by (auto simp: updateSyncStatus_def repo_updateSyncStatus_def seqs_def ret_def intro: tree_ok_update)
qed

section \<open>Histories of tree operations\<close>

lemma createNode_fail: "createNode p nm ty d = (Inl e, t) \<Longrightarrow> e = db_failed \<and> t = d"
  by (auto simp: createNode_def Let_def split: if_splits)

lemma create_tree_ok:
  assumes "tree_ok d"
  shows "tree_ok (snd (withTx (seqs (createNode p nm ty) (\<lambda>node.
           seqs (buildAncestorsForNode (v_id node) p) (\<lambda>_. ret node))) d))"
proof (cases "createNode p nm ty d")
  case (Pair r d1)
  show ?thesis
  proof (cases r)
    case (Inl e)
    then show ?thesis
      using assms Pair by (simp add: withTx_def seqs_def)
  next
    case (Inr v)
    with Pair have c: "createNode p nm ty d = (Inr v, d1)" by simp
    show ?thesis
      using create_closure [OF tree_okD [OF assms] c] by (simp add: tree_ok_def)
  qed
qed

lemma moveNode_missing:
  assumes ok: "tree_ok d" and m: "\<not> has_node d m"
  shows "moveNode m p d = (Inl db_failed, d)"
proof -
  have "desc_of d m = {}" using m by (auto simp: desc_of_def dest: up_has)
  then have D: "getDescendantIds d m = []"
    using descendants_closure [OF tree_okD(2) [OF ok], of m] by simp
  have none: "\<forall>n \<in> set (file_nodes d). nid n \<noteq> m" using m by (auto simp: has_node_def)
  then have upd: "update_where (\<lambda>n. nid n = m) f (file_nodes d) = file_nodes d"
      "count_where (\<lambda>n. nid n = m) (file_nodes d) = 0" for f
    by (auto intro!: update_where_id simp: count_where_0)
  have rm: "repo_moveNode m p d = (Inr 0, d)"
    using upd nodes_okD(4) [OF tree_okD(1) [OF ok]] by (simp add: repo_moveNode_def write_nodes_def)
  have kids: "getChildren d (Some m) = []"
  proof -
    have "v_id ` set (getChildren d (Some m)) = {}"
      using live_children [OF tree_okD(1) [OF ok], of m] parent_of_has [OF tree_okD(1) [OF ok]] m by auto
    then show ?thesis by simp
  qed
  have bfs: "bfs_rows d [(m, ch)] [] = Some (rows_for m ch)" for ch
    by (subst bfs_rows.simps, simp add: kids, subst bfs_rows.simps) simp
  have ins: "insertAncestorRows (rows_for m ch) 0 d = (Inl db_failed, d)" for ch
    using m by (simp add: rows_for_def)
  have "rows_for m ch \<noteq> []" for ch by (simp add: rows_for_def)
  then show ?thesis
    by (simp add: moveNode_def service_simps D rm withTx_def seqs_def reads_def guard_def ret_def
        rebuildAncestorsAfterMove_def deleteAncestorByDescendant_def bfs ins db_failed_def)
qed

text \<open>A node of the subtree below the moved one is live: then the move keeps the table exact.\<close>

definition all_live_below :: "db \<Rightarrow> nat \<Rightarrow> bool" where
  "all_live_below d m \<longleftrightarrow> (\<forall>c \<in> set (getDescendantIds d m). c = m \<or> getNode d c \<noteq> None)"

lemma getNode_live: "nodes_ok d \<Longrightarrow> getNode d c \<noteq> None \<longleftrightarrow> live_id d c"
  by (auto simp: getNode_row live_id_def split: option.splits)

lemma moveNode_cases:
  assumes ok: "tree_ok d"
  shows "moveNode m p d = (Inl own_descendant, d) \<or> moveNode m p d = (Inl db_failed, d) \<or>
    (\<not> move_refused d m p \<and> (\<forall>q. p = Some q \<longrightarrow> q \<notin> desc_of d m) \<and>
     fst (moveNode m p d) = Inr ())"
proof -
  consider q where "p = Some q" "q \<in> desc_of d m"
    | "\<forall>q. p = Some q \<longrightarrow> q \<notin> desc_of d m" "\<not> has_node d m"
    | "\<forall>q. p = Some q \<longrightarrow> q \<notin> desc_of d m" "has_node d m" "move_refused d m p"
    | "\<forall>q. p = Some q \<longrightarrow> q \<notin> desc_of d m" "\<not> move_refused d m p"
    by blast
  then show ?thesis
  proof cases
    case 1
    then show ?thesis using moveNode_own_descendant [OF tree_okD(2) [OF ok]] by blast
  next
    case 2
    then show ?thesis using moveNode_missing [OF ok] by blast
  next
    case 3
    then show ?thesis using moveNode_refused [OF tree_okD [OF ok]] by blast
  next
    case 4
    then show ?thesis using moveNode_result [OF tree_okD [OF ok] 4] by (metis fst_conv)
  qed
qed

lemma up_moved_dom:
  assumes "can_move d m p" "file_nodes d' = file_nodes (moved d m p)"
  shows "desc_of d' m = desc_of d m" "acyclic_nodes d'" "live_id d' c = live_id d c"
proof -
  note up' = up_cong [OF assms(2)]
  show "desc_of d' m = desc_of d m" using desc_of_moved [OF assms(1)] by (simp add: desc_of_def up')
  show "acyclic_nodes d'" using acyclic_moved [OF assms(1)] by (simp add: acyclic_nodes_def up')
  have "live_id d' c = live_id (moved d m p) c" using assms(2) by (simp add: live_id_def node_row_def)
  then show "live_id d' c = live_id d c" by simp
qed

lemma move_tree_ok:
  assumes ok: "tree_ok d" and lv: "all_live_below d m"
  shows "tree_ok (snd (moveNode m p d))"
proof -
  consider "snd (moveNode m p d) = d"
    | "\<not> move_refused d m p" "\<forall>q. p = Some q \<longrightarrow> q \<notin> desc_of d m"
    using moveNode_cases [OF ok, of m p] by (metis snd_conv)
  then show ?thesis
  proof cases
    case 1
    then show ?thesis using ok by simp
  next
    case 2
    obtain d' where d': "moveNode m p d = (Inr (), d')" "file_nodes d' = file_nodes (moved d m p)"
      "nodes_ok d'" "pk_distinct (node_ancestors d')"
      "anc_set d' = {(a, c, k). up d' k c = Some a \<and> (c \<in> desc_of d m \<longrightarrow> live_under d' m c)}"
      using moveNode_result [OF tree_okD [OF ok] 2(2,1)] by blast
    have mv: "can_move d m p"
      using 2 tree_okD [OF ok] closure_acyclic by (auto simp: can_move_def move_refused_def)
    have "live_under d' m c" if "c \<in> desc_of d m" for c
      using live_subtree_reached [of d' m c] up_moved_dom [OF mv d'(2)] that lv
        descendants_closure [OF tree_okD(2) [OF ok]] getNode_live [OF tree_okD(1) [OF ok]]
      unfolding all_live_below_def by metis
    then show ?thesis using d' by (auto simp: tree_ok_def closure_ok_def)
  qed
qed

inductive tree_step :: "db \<Rightarrow> db \<Rightarrow> bool" where
  create_file: "tree_step d (snd (createFile p nm d))"
| create_directory: "tree_step d (snd (createDirectory p nm d))"
| rename_node: "tree_step d (snd (renameNode i nm d))"
| move_node: "all_live_below d i \<Longrightarrow> tree_step d (snd (moveNode i p d))"
| delete_node: "tree_step d (snd (deleteNode i d))"
| trash_nodes: "tree_step d (snd (markSubtreeDeleted ids d))"
| untrash_nodes: "tree_step d (snd (untrashSubtree ids d))"
| sync_status: "tree_step d (snd (updateSyncStatus i st d))"
| tick: "t \<ge> clock d \<Longrightarrow> tree_step d (d\<lparr>clock := t\<rparr>)"

definition empty_db :: db where
  "empty_db = \<lparr>clock = 0, file_nodes = [], node_ancestors = [], object_map = [], filecache = [],
     user_paths = [], user_files = [], perm_shares = [], share_links = [], users = [],
     requests = [], next_node = 1, next_obj = 1, next_request = 1,
     next_user = 1\<rparr>"

inductive_cases tree_stepE: "tree_step d d'"

lemma delete_tree_ok: "tree_ok d \<Longrightarrow> tree_ok (snd (deleteNode i d))"
  using nodes_ok_delete closure_ok_delete by (simp add: deleteNode_eq tree_ok_def)

lemma tick_tree_ok: "tree_ok d \<Longrightarrow> tree_ok (d\<lparr>clock := t\<rparr>)"
  using nodes_ok_cong [of d "d\<lparr>clock := t\<rparr>"] up_cong [of d "d\<lparr>clock := t\<rparr>"]
  by (simp add: tree_ok_def closure_ok_def anc_set_def)

lemma tree_step_ok: "tree_step d d' \<Longrightarrow> tree_ok d \<Longrightarrow> tree_ok d'"
  by (induction rule: tree_step.induct)
     (simp_all add: createFile_def createDirectory_def create_tree_ok rename_tree_ok move_tree_ok
       delete_tree_ok trash_tree_ok untrash_tree_ok sync_tree_ok tick_tree_ok)

lemma empty_tree_ok: "tree_ok empty_db"
proof -
  have "up empty_db k c = None" for k c
    by (cases k) (auto simp: empty_db_def has_node_def parent_of_def node_row_def)
  then show ?thesis
    by (simp add: tree_ok_def closure_ok_def nodes_ok_def live_unique_def anc_set_def pk_distinct_def)
       (simp add: empty_db_def)
qed

lemma reachable_tree_ok: "tree_step\<^sup>*\<^sup>* empty_db d \<Longrightarrow> tree_ok d"
  by (induction rule: rtranclp_induct) (auto intro: empty_tree_ok tree_step_ok)

section \<open>Paths\<close>

lemma resolve_segment_live:
  assumes ok: "nodes_ok d" and n: "n \<in> set (file_nodes d)" "live n"
  shows "resolvePathSegment d (nparent n) (nname n) = Some (nid n)"
proof -
  have "first_row (filter (\<lambda>m. nparent m = nparent n \<and> nname m = nname n) (filter live (file_nodes d)))
      = Some n"
    using nodes_okD(4) [OF ok] n unfolding live_unique_def
    by (intro first_row_filter_unique [where g = "\<lambda>n. (nparent n, nname n)"]) auto
  then show ?thesis
    by (simp add: resolvePathSegment_def conj_commute conj_left_commute)
qed

lemma resolve_append:
  "xs \<noteq> [] \<Longrightarrow> resolve_segments d cur (xs @ ys)
     = (case resolve_segments d cur xs of None \<Rightarrow> None | Some i \<Rightarrow> resolve_segments d (Some i) ys)"
proof (induction d cur xs rule: resolve_segments.induct)
  case (1 d cur)
  then show ?case by simp
next
  case (2 d cur s ss)
  then show ?case by (cases ss) (auto split: option.splits)
qed

text \<open>Under the invariant the chain of a node is its walk up, farthest first.\<close>

lemma ancestor_chain_walk:
  assumes cl: "closure_ok d" and c: "has_node d c"
  obtains h where "getAncestorChain d c = map (\<lambda>j. (the (up d j c), j)) (rev [0..<Suc h])"
    and "\<And>j. up d j c \<noteq> None \<longleftrightarrow> j \<le> h"
proof -
  let ?ch = "getAncestorChain d c"
  define K where "K = {k. up d k c \<noteq> None}"
  have set: "set ?ch = {(a, k). up d k c = Some a}" by (rule ancestors_closure [OF cl])
  have K: "K = snd ` set ?ch" by (auto simp: K_def set image_iff)
  have fin: "finite K" by (simp add: K)
  have "up d 0 c = Some c" using c by simp
  then have "0 \<in> K" unfolding K_def by simp
  define h where "h = Max K"
  have h: "h \<in> K" using fin \<open>0 \<in> K\<close> unfolding h_def by (blast intro: Max_in)
  have iff: "up d j c \<noteq> None \<longleftrightarrow> j \<le> h" for j
  proof
    assume "up d j c \<noteq> None"
    then show "j \<le> h" using fin unfolding h_def by (simp add: K_def)
  next
    assume "j \<le> h"
    then show "up d j c \<noteq> None" using h up_le [of d h c _ j] by (auto simp: K_def)
  qed
  then have K': "K = {0..<Suc h}" by (auto simp: K_def)
  have val: "x = (the (up d (snd x) c), snd x)" if "x \<in> set ?ch" for x
  proof -
    have "x \<in> {(a, k). up d k c = Some a}" using that set by blast
    then show ?thesis by auto
  qed
  have sorted: "sorted (map (\<lambda>x. - int (snd x)) ?ch)"
    by (simp add: getAncestorChain_def comp_def)
  have dist: "distinct (map (\<lambda>x. - int (snd x)) ?ch)"
    using distinct_ancestor_chain [of d c] cl val unfolding closure_ok_def distinct_map inj_on_def
    by (metis nat_int neg_equal_iff_equal)
  have "map (\<lambda>x. - int (snd x)) ?ch = map (\<lambda>j. - int j) (rev [0..<Suc h])"
  proof (rule sorted_distinct_set_unique [OF sorted dist])
    show "sorted (map (\<lambda>j. - int j) (rev [0..<Suc h]))"
      by (simp only: rev_map [symmetric]) (simp add: sorted_rev_iff_nth_mono nth_append)
    show "distinct (map (\<lambda>j. - int j) (rev [0..<Suc h]))"
      by (simp only: rev_map [symmetric] distinct_rev distinct_map) (simp add: inj_on_def del: upt_Suc)
    have "(\<lambda>x. - int (snd x)) ` set ?ch = (\<lambda>k. - int k) ` K" by (simp add: K image_image)
    then show "set (map (\<lambda>x. - int (snd x)) ?ch) = set (map (\<lambda>j. - int j) (rev [0..<Suc h]))"
      by (simp add: K' del: upt_Suc)
  qed
  then have "map (\<lambda>j. nat (- j)) (map (\<lambda>x. - int (snd x)) ?ch)
      = map (\<lambda>j. nat (- j)) (map (\<lambda>j. - int j) (rev [0..<Suc h]))" by (rule arg_cong)
  then have "map snd ?ch = rev [0..<Suc h]" by (simp add: comp_def)
  then have "map (\<lambda>j. (the (up d j c), j)) (rev [0..<Suc h]) = map (\<lambda>x. (the (up d (snd x) c), snd x)) ?ch"
    by (metis (no_types, lifting) list.map_comp comp_apply map_eq_conv)
  also have "\<dots> = ?ch" using val by (intro map_idI) simp
  finally show thesis using that [of h] iff by simp
qed

definition name_of :: "db \<Rightarrow> nat \<Rightarrow> string" where
  "name_of d a = (case node_row d a of None \<Rightarrow> [] | Some n \<Rightarrow> nname n)"

lemma getNodePath_names:
  assumes "closure_ok d" "getAncestorChain d c = map (\<lambda>j. (the (up d j c), j)) js"
    and "\<And>j. j \<in> set js \<Longrightarrow> up d j c \<noteq> None"
  shows "getNodePath d c = CHR ''/'' # join_with (CHR ''/'') (map (\<lambda>j. name_of d (the (up d j c))) js)"
proof -
  have "List.map_filter (\<lambda>(a, k). map_option v_name (getNodeIncludingTrashed d a))
      (map (\<lambda>j. (the (up d j c), j)) js) = map (\<lambda>j. name_of d (the (up d j c))) js"
    using assms(3)
  proof (induction js)
    case Nil
    then show ?case by (simp add: List.map_filter_def)
  next
    case (Cons j js)
    obtain a where a: "up d j c = Some a" using Cons.prems by auto
    then obtain n where "node_row d a = Some n"
      using up_has [OF a] node_row_None [of d a] by (cases "node_row d a") auto
    then show ?case using Cons a by (simp add: List.map_filter_def name_of_def getNodeIncludingTrashed_def)
  qed
  then show ?thesis by (simp add: getNodePath_def assms(2))
qed

definition path_ok :: "db \<Rightarrow> nat \<Rightarrow> bool" where
  "path_ok d c \<longleftrightarrow> (\<forall>(a, k) \<in> set (getAncestorChain d c).
     (case getNode d a of None \<Rightarrow> False | Some v \<Rightarrow> v_name v \<noteq> [] \<and> CHR ''/'' \<notin> set (v_name v)))"

lemma resolve_walk:
  assumes ok: "nodes_ok d" and iff: "\<And>j. up d j c \<noteq> None \<longleftrightarrow> j \<le> h"
    and lv: "\<And>j a. up d j c = Some a \<Longrightarrow> live_id d a"
  shows "i \<le> h \<Longrightarrow> resolve_segments d None
           (map (\<lambda>j. name_of d (the (up d j c))) (rev [i..<Suc h])) = up d i c"
proof (induction "h - i" arbitrary: i)
  case 0
  then have i: "i = h" by simp
  obtain a n where a: "up d h c = Some a" and n: "node_row d a = Some n" "live n"
    using iff [of h] lv [of h] unfolding live_id_def by (metis order_refl not_None_eq)
  have "up d (Suc h) c = None" using iff [of "Suc h"] by auto
  then have none: "up d 1 a = None" using up_Suc_some [OF a] by simp
  have "nparent n = None"
  proof (rule ccontr)
    assume "nparent n \<noteq> None"
    then obtain q where q: "parent_of d a = Some q" using n by (auto simp: parent_of_def)
    then show False using none parent_of_has [OF ok q] by simp
  qed
  moreover have "n \<in> set (file_nodes d)" "nid n = a" using node_row_in [OF n(1)] by auto
  ultimately show ?case using resolve_segment_live [OF ok] n i a by (fastforce simp: name_of_def)
next
  case (Suc x)
  then have i: "Suc i \<le> h" by simp
  obtain a n where a: "up d i c = Some a" and n: "node_row d a = Some n" "live n"
    using iff [of i] i lv [of i] unfolding live_id_def by (metis Suc_leD not_None_eq)
  obtain b where b: "up d (Suc i) c = Some b" using iff [of "Suc i"] i by auto
  then have "nparent n = Some b"
    using up_Suc_some [OF a] n by (auto simp: parent_of_def split: option.splits if_splits)
  moreover have "n \<in> set (file_nodes d)" "nid n = a" using node_row_in [OF n(1)] by auto
  ultimately have seg: "resolvePathSegment d (Some b) (name_of d a) = Some a"
    using resolve_segment_live [OF ok] n by (fastforce simp: name_of_def)
  have IH: "resolve_segments d None (map (\<lambda>j. name_of d (the (up d j c))) (rev [Suc i..<Suc h])) = Some b"
    using Suc.hyps(1) [of "Suc i"] Suc.hyps(2) i b by simp
  have "rev [i..<Suc h] = rev [Suc i..<Suc h] @ [i]" using i by (simp add: upt_conv_Cons)
  then show ?case
    using IH seg a i resolve_append [of "map (\<lambda>j. name_of d (the (up d j c))) (rev [Suc i..<Suc h])" d None]
    by (simp del: upt_Suc)
qed

lemma resolve_path_inverse:
  assumes ok: "tree_ok d" and c: "has_node d c" and p: "path_ok d c"
  shows "resolvePath d (getNodePath d c) = getNode d c"
proof -
  note nok = tree_okD(1) [OF ok] and cl = tree_okD(2) [OF ok]
  obtain h where ch: "getAncestorChain d c = map (\<lambda>j. (the (up d j c), j)) (rev [0..<Suc h])"
    and iff: "\<And>j. up d j c \<noteq> None \<longleftrightarrow> j \<le> h"
    using ancestor_chain_walk [OF cl c] by blast
  let ?names = "map (\<lambda>j. name_of d (the (up d j c))) (rev [0..<Suc h])"
  have anc: "\<exists>v. getNode d a = Some v \<and> v_name v \<noteq> [] \<and> CHR ''/'' \<notin> set (v_name v)"
    if "up d k c = Some a" for a k
    using p that ancestors_closure [OF cl, of c] unfolding path_ok_def by (force split: option.splits)
  have lv: "live_id d a" if "up d k c = Some a" for a k
    using anc [OF that] getNode_live [OF nok, of a] by auto
  have nm: "s \<noteq> [] \<and> CHR ''/'' \<notin> set s" if s: "s \<in> set ?names" for s
  proof -
    from s obtain j where j: "j \<le> h" "s = name_of d (the (up d j c))"
      by (auto simp del: upt_Suc simp: less_Suc_eq_le)
    then obtain a where a: "up d j c = Some a" using iff [of j] by auto
    then have "name_of d a = v_name (the (getNode d a))"
      using anc [OF a] lv [OF a] by (auto simp: name_of_def getNode_row [OF nok] live_id_def)
    then show ?thesis using anc [OF a] j(2) a by auto
  qed
  have path: "getNodePath d c = CHR ''/'' # join_with (CHR ''/'') ?names"
  proof (rule getNodePath_names [OF cl ch])
    show "\<And>j. j \<in> set (rev [0..<Suc h]) \<Longrightarrow> up d j c \<noteq> None" using iff by auto
  qed
  have ne: "?names \<noteq> []" by simp
  have "split_on (CHR ''/'') (getNodePath d c) = [] # ?names"
    using split_join [OF ne] nm by (simp add: path)
  moreover have "filter (\<lambda>s. s \<noteq> []) ?names = ?names" using nm by (intro filter_True) blast
  ultimately have segs: "filter (\<lambda>s. s \<noteq> []) (split_on (CHR ''/'') (getNodePath d c)) = ?names" by simp
  have "resolve_segments d None ?names = up d 0 c"
    by (rule resolve_walk [OF nok iff lv]) simp_all
  then show ?thesis
    using c ne unfolding resolvePath_def segs Let_def by simp
qed

section \<open>Properties\<close>

text \<open>Concrete histories for the witnesses: \<open>/a\<close>, \<open>/a/b\<close>, \<open>/a/b/f\<close>, \<open>/c\<close> are the nodes 1 to 4.\<close>

definition demo_tree :: db where
  "demo_tree =
     snd (createDirectory None ''c'' (snd (createFile (Some 2) ''f''
       (snd (createDirectory (Some 1) ''b'' (snd (createDirectory None ''a'' empty_db)))))))"

definition demo_trashed :: db where
  "demo_trashed = snd (markSubtreeDeleted [3] demo_tree)"

lemma demo_tree_ok: "tree_ok demo_tree"
  unfolding demo_tree_def createFile_def createDirectory_def by (intro create_tree_ok empty_tree_ok)

lemma demo_trashed_ok: "tree_ok demo_trashed"
  unfolding demo_trashed_def by (intro trash_tree_ok demo_tree_ok)

lemmas tree_eval = demo_tree_def demo_trashed_def empty_db_def createFile_def createDirectory_def
  createNode_def buildAncestorsForNode_def withTx_def seqs_def reads_def ret_def guard_def throw_def
  mapNodeRow_def getAncestorChain_def live_unique_def live_def parent_exists_def has_node_def
  datetime_now_def markSubtreeDeleted_def update_where_def count_where_def

lemma demo_tree_eval:
  "file_nodes demo_tree =
     [\<lparr>nid = 1, nparent = None, nname = ''a'', ntype = Directory, nsync = Pending_upload,
       ncreated = 0, nupdated = 0, ndeleted = None\<rparr>,
      \<lparr>nid = 2, nparent = Some 1, nname = ''b'', ntype = Directory, nsync = Pending_upload,
       ncreated = 0, nupdated = 0, ndeleted = None\<rparr>,
      \<lparr>nid = 3, nparent = Some 2, nname = ''f'', ntype = File, nsync = Pending_upload,
       ncreated = 0, nupdated = 0, ndeleted = None\<rparr>,
      \<lparr>nid = 4, nparent = None, nname = ''c'', ntype = Directory, nsync = Pending_upload,
       ncreated = 0, nupdated = 0, ndeleted = None\<rparr>]"
  "map row_triple (node_ancestors demo_tree) =
     [(1, 1, 0), (2, 2, 0), (1, 2, 1), (3, 3, 0), (1, 3, 2), (2, 3, 1), (4, 4, 0)]"
  by code_simp+

text \<open>
  C1: Whatever the history of creations, renames, moves, deletions, trashing and restoring, the
  node table is well formed and the closure table is exactly the ancestor relation of the parent
  column, with no pair twice. The one condition is on moves: no trashed node below the moved one.
\<close>

theorem tree_invariant:
  assumes "tree_step\<^sup>*\<^sup>* empty_db d"
  shows "nodes_ok d \<and> anc_set d = {(a, c, k). up d k c = Some a} \<and> pk_distinct (node_ancestors d)"
  using reachable_tree_ok [OF assms] by (simp add: tree_ok_def closure_ok_def)

theorem tree_invariant_witness:
  "anc_set (snd (createDirectory None ''a'' empty_db))
     = {(a, c, k). up (snd (createDirectory None ''a'' empty_db)) k c = Some a}"
proof -
  have "tree_step\<^sup>*\<^sup>* empty_db (snd (createDirectory None ''a'' empty_db))"
    by (intro r_into_rtranclp tree_step.intros)
  then show ?thesis using tree_invariant by blast
qed

text \<open>
  C32: \<open>moveNode\<close> always returns, even though nothing in its queue loop bounds it. It refuses with the
  descendant error exactly when the target lies in the moved subtree; it fails in the database, and
  changes nothing, when the node or the target is missing or a live sibling has the name; otherwise
  it succeeds.
\<close>

theorem move_outcome:
  assumes "tree_ok d"
  shows "(if \<exists>q. p = Some q \<and> q \<in> set (getDescendantIds d m)
          then moveNode m p d = (Inl own_descendant, d)
          else if move_refused d m p then moveNode m p d = (Inl db_failed, d)
          else fst (moveNode m p d) = Inr ())"
proof -
  have D: "set (getDescendantIds d m) = desc_of d m"
    by (rule descendants_closure [OF tree_okD(2) [OF assms]])
  show ?thesis
    unfolding D
    using moveNode_own_descendant [OF tree_okD(2) [OF assms], of p _ m]
      moveNode_missing [OF assms, of m p] moveNode_refused [OF tree_okD [OF assms], of p m]
      moveNode_result [OF tree_okD [OF assms], of p m]
    by (metis fst_conv)
qed

theorem move_outcome_witness:
  "moveNode 1 (Some 3) demo_tree = (Inl own_descendant, demo_tree) \<and>
   fst (moveNode 2 (Some 4) demo_tree) = Inr ()"
proof -
  have "3 \<in> set (getDescendantIds demo_tree 1)" "4 \<notin> set (getDescendantIds demo_tree 2)"
    "\<not> move_refused demo_tree 2 (Some 4)"
    by code_simp+
  then show ?thesis
    using move_outcome [OF demo_tree_ok, of "Some 3" 1] move_outcome [OF demo_tree_ok, of "Some 4" 2]
    by auto
qed

text \<open>
  C31: The exact closure table after a successful move. Nodes outside the subtree keep the rows of
  their (unchanged) ancestors. A node of the subtree has the rows of its ancestors in the new tree
  if and only if the rebuild can reach it, that is, if no node from it up to the moved one,
  the moved one excepted, is in the trash.
\<close>

theorem move_exact:
  assumes "tree_ok d" "moveNode m p d = (Inr (), d')"
  shows "nodes_ok d' \<and> parent_of d' m = p \<and> (\<forall>c. c \<noteq> m \<longrightarrow> parent_of d' c = parent_of d c) \<and>
    anc_set d' = {(a, c, k). up d' k c = Some a \<and>
      (c \<in> set (getDescendantIds d m) \<longrightarrow> live_under d' m c)}"
proof -
  have D: "set (getDescendantIds d m) = desc_of d m"
    by (rule descendants_closure [OF tree_okD(2) [OF assms(1)]])
  have c: "\<forall>q. p = Some q \<longrightarrow> q \<notin> desc_of d m" "\<not> move_refused d m p"
    using moveNode_cases [OF assms(1), of m p] assms(2) by auto
  obtain e where e: "moveNode m p d = (Inr (), e)" "file_nodes e = file_nodes (moved d m p)" "nodes_ok e"
    "anc_set e = {(a, c, k). up e k c = Some a \<and> (c \<in> desc_of d m \<longrightarrow> live_under e m c)}"
    using moveNode_result [OF tree_okD [OF assms(1)] c] by blast
  have "e = d'" using e(1) assms(2) by simp
  moreover have "parent_of e x = parent_of (moved d m p) x" for x
    using e(2) by (simp add: parent_of_def node_row_def)
  ultimately show ?thesis
    using e(3,4) c(2) unfolding D by (auto simp: parent_of_moved move_refused_def)
qed

theorem move_exact_witness:
  "let d' = snd (moveNode 2 (Some 4) demo_tree) in
   anc_set d' = {(a, c, k). up d' k c = Some a \<and>
      (if c \<in> set (getDescendantIds demo_tree 2) then live_under d' 2 c else True)}"
proof -
  have "fst (moveNode 2 (Some 4) demo_tree) = Inr ()" using move_outcome_witness by simp
  then have "moveNode 2 (Some 4) demo_tree = (Inr (), snd (moveNode 2 (Some 4) demo_tree))"
    by (metis prod.collapse)
  note exact = move_exact [OF demo_tree_ok this]
  have "(if P then Q else True) = (P \<longrightarrow> Q)" for P Q by simp
  then show ?thesis unfolding Let_def using exact by simp
qed

text \<open>
  A trashed node below the moved one loses every row of the closure table, its own row of
  depth 0 included: no descendant query of any folder finds it again, so restoring or purging the
  folder leaves it behind.
\<close>

theorem move_loses_trashed:
  assumes "tree_ok d" "moveNode m p d = (Inr (), d')" "c \<in> set (getDescendantIds d m)" "c \<noteq> m"
    "getNode d c = None"
  shows "getAncestorChain d' c = [] \<and> c \<notin> set (getDescendantIds d' a)"
proof -
  have D: "set (getDescendantIds d m) = desc_of d m"
    by (rule descendants_closure [OF tree_okD(2) [OF assms(1)]])
  have r: "\<forall>q. p = Some q \<longrightarrow> q \<notin> desc_of d m" "\<not> move_refused d m p"
    using moveNode_cases [OF assms(1), of m p] assms(2) by auto
  obtain e where e: "moveNode m p d = (Inr (), e)" "file_nodes e = file_nodes (moved d m p)"
    "anc_set e = {(a, c, k). up e k c = Some a \<and> (c \<in> desc_of d m \<longrightarrow> live_under e m c)}"
    using moveNode_result [OF tree_okD [OF assms(1)] r] by blast
  have eq: "e = d'" using e(1) assms(2) by simp
  have mv: "can_move d m p"
    using r tree_okD [OF assms(1)] closure_acyclic by (auto simp: can_move_def move_refused_def)
  have "\<not> live_id e c"
    using assms(5) getNode_live [OF tree_okD(1) [OF assms(1)], of c] up_moved_dom(3) [OF mv e(2)]
    by simp
  then have "\<not> live_under e m c"
    using assms(4) unfolding live_under_def
    by (metis bot_nat_0.not_eq_extremum option.inject up.simps(1) option.distinct(1))
  then have "(b, c, k) \<notin> anc_set d'" for b k using e(3) assms(3) unfolding D eq by auto
  then have "\<forall>r \<in> set (node_ancestors d'). adesc r \<noteq> c" by (auto simp: anc_set_iff)
  then show ?thesis by (auto simp: getAncestorChain_def getDescendantIds_def filter_empty_conv)
qed

theorem move_loses_trashed_witness:
  "3 \<in> set (getDescendantIds demo_trashed 2) \<and>
   3 \<notin> set (getDescendantIds (snd (moveNode 2 (Some 4) demo_trashed)) 2)"
proof -
  have c: "3 \<in> set (getDescendantIds demo_trashed 2)" "getNode demo_trashed 3 = None"
    "4 \<notin> set (getDescendantIds demo_trashed 2)" "\<not> move_refused demo_trashed 2 (Some 4)"
    by code_simp+
  then have "fst (moveNode 2 (Some 4) demo_trashed) = Inr ()"
    using moveNode_cases [OF demo_trashed_ok, of 2 "Some 4"]
      moveNode_result [OF tree_okD [OF demo_trashed_ok], of "Some 4" 2]
      descendants_closure [OF tree_okD(2) [OF demo_trashed_ok], of 2]
    by (metis fst_conv option.inject)
  then have "moveNode 2 (Some 4) demo_trashed = (Inr (), snd (moveNode 2 (Some 4) demo_trashed))"
    by (metis prod.collapse)
  from move_loses_trashed [OF demo_trashed_ok this c(1) _ c(2)] c(1) show ?thesis by simp
qed



text \<open>
  C34: The path of a node leads back to it: when the node and its ancestors are live and their names
  are non-empty and free of slashes, \<open>resolvePath\<close> of \<open>getNodePath\<close> is the node.
\<close>

theorem path_roundtrip:
  assumes "tree_ok d" "getNode d c \<noteq> None" "path_ok d c"
  shows "resolvePath d (getNodePath d c) = getNode d c"
proof -
  have "has_node d c"
    using assms(2) getNode_row [OF tree_okD(1) [OF assms(1)], of c] node_row_None [of d c]
    by (auto split: option.splits)
  then show ?thesis using resolve_path_inverse [OF assms(1) _ assms(3)] by simp
qed

theorem path_roundtrip_witness:
  "getNodePath demo_tree 3 = ''/a/b/f'' \<and> resolvePath demo_tree ''/a/b/f'' = getNode demo_tree 3"
proof -
  have p: "getNodePath demo_tree 3 = ''/a/b/f''" by code_simp
  have "getNode demo_tree 3 \<noteq> None" "path_ok demo_tree 3" by code_simp+
  from path_roundtrip [OF demo_tree_ok this] show ?thesis unfolding p by simp
qed

lemma live_unique_snoc:
  "live row \<Longrightarrow> live_unique (ns @ [row]) \<longleftrightarrow>
     live_unique ns \<and> \<not> (\<exists>n \<in> set ns. live n \<and> nparent n = nparent row \<and> nname n = nname row)"
  unfolding live_unique_def by (auto simp: image_iff) metis

lemma listing_snoc:
  "live row \<Longrightarrow> nid ` {n \<in> set (ns @ [row]). nparent n = q \<and> live n}
     = (if nparent row = q then insert (nid row) (nid ` {n \<in> set ns. nparent n = q \<and> live n})
        else nid ` {n \<in> set ns. nparent n = q \<and> live n})"
  by (auto simp: image_iff)

definition name_taken :: "db \<Rightarrow> nat option \<Rightarrow> string \<Rightarrow> bool" where
  "name_taken d p nm \<longleftrightarrow> resolvePathSegment d p nm \<noteq> None"

lemma name_taken_iff:
  "name_taken d p nm \<longleftrightarrow> (\<exists>n \<in> set (file_nodes d). live n \<and> nparent n = p \<and> nname n = nm)"
  by (auto simp: name_taken_def resolvePathSegment_def first_row_None filter_empty_conv)

lemma create_cases:
  fixes d p nm ty
  assumes ok: "tree_ok d"
  defines "r \<equiv> withTx (seqs (createNode p nm ty) (\<lambda>node.
           seqs (buildAncestorsForNode (v_id node) p) (\<lambda>_. ret node))) d"
  shows "if \<not> parent_exists d p \<or> name_taken d p nm then r = (Inl db_failed, d)
         else \<exists>v d'. r = (Inr v, d') \<and> v_id v = next_node d \<and> v_type v = ty \<and>
           resolvePathSegment d' p nm = Some (v_id v) \<and>
           v_id ` set (listDirectory d' p) = insert (v_id v) (v_id ` set (listDirectory d p)) \<and>
           (\<forall>q. q \<noteq> p \<longrightarrow> v_id ` set (listDirectory d' q) = v_id ` set (listDirectory d q)) \<and> tree_ok d'"
proof -
  let ?row = "\<lparr>nid = next_node d, nparent = p, nname = nm, ntype = ty, nsync = Pending_upload,
    ncreated = datetime_now d, nupdated = datetime_now d, ndeleted = None\<rparr>"
  have lv: "live ?row" by (simp add: live_def)
  have u: "live_unique (file_nodes d @ [?row]) \<longleftrightarrow> \<not> name_taken d p nm"
    using nodes_okD(4) [OF tree_okD(1) [OF ok]] live_unique_snoc [OF lv] by (simp add: name_taken_iff)
  show ?thesis
  proof (cases "\<not> parent_exists d p \<or> name_taken d p nm")
    case True
    then have "createNode p nm ty d = (Inl db_failed, d)"
      using u by (auto simp: createNode_def Let_def)
    then show ?thesis using True by (simp add: r_def withTx_def seqs_def db_failed_def)
  next
    case False
    let ?d1 = "d\<lparr>file_nodes := file_nodes d @ [?row], next_node := Suc (next_node d)\<rparr>"
    have c: "createNode p nm ty d = (Inr (mapNodeRow ?row None), ?d1)"
      using False u by (simp add: createNode_def Let_def)
    note cc = create_closure [OF tree_okD [OF ok] c]
    define d' where "d' = ?d1\<lparr>node_ancestors := node_ancestors d @
      rows_for (v_id (mapNodeRow ?row None)) (chain_of d p)\<rparr>"
    have fn: "file_nodes d' = file_nodes d @ [?row]" by (simp add: d'_def)
    have "resolvePathSegment d' p nm = Some (next_node d)"
      using resolve_segment_live [of d' ?row] cc(2) lv fn by (simp add: d'_def)
    moreover have "v_id ` set (listDirectory d' p)
        = insert (next_node d) (v_id ` set (listDirectory d p))"
      unfolding listDirectory_def set_getChildren fn listing_snoc [OF lv] by simp
    moreover have "v_id ` set (listDirectory d' q) = v_id ` set (listDirectory d q)" if "q \<noteq> p" for q
      unfolding listDirectory_def set_getChildren fn listing_snoc [OF lv] using that by simp
    moreover have "r = (Inr (mapNodeRow ?row None), d')" using cc(1) by (simp add: r_def d'_def)
    moreover have "tree_ok d'" using cc(2,3) by (simp add: tree_ok_def d'_def)
    ultimately show ?thesis using False by auto
  qed
qed

text \<open>
  \<open>createFile\<close>, and likewise \<open>createDirectory\<close>, fail without a change when the parent is missing or
  a live sibling has the name, and only then; on success the node gets the next id, is found under
  its name at once, and the listing of its folder is the old one with it added.
\<close>

theorem create_outcome:
  assumes "tree_ok d"
  shows "if \<not> parent_exists d p \<or> name_taken d p nm then createFile p nm d = (Inl db_failed, d)
         else \<exists>v d'. createFile p nm d = (Inr v, d') \<and> v_id v = next_node d \<and> v_type v = File \<and>
           resolvePathSegment d' p nm = Some (v_id v) \<and>
           v_id ` set (listDirectory d' p) = insert (v_id v) (v_id ` set (listDirectory d p)) \<and>
           (\<forall>q. q \<noteq> p \<longrightarrow> v_id ` set (listDirectory d' q) = v_id ` set (listDirectory d q)) \<and> tree_ok d'"
  unfolding createFile_def by (rule create_cases [OF assms])

theorem create_outcome_witness:
  "createFile (Some 2) ''f'' demo_tree = (Inl db_failed, demo_tree)"
proof -
  have "name_taken demo_tree (Some 2) ''f''" by code_simp
  then show ?thesis using create_outcome [OF demo_tree_ok, of "Some 2" "''f''"] by simp
qed

end
