(* ===== verification/PathUtils.thy ===== *)
theory PathUtils
  imports Prelude
begin

text \<open>
  \<open>shared/pathUtils.js\<close>: normalisation of paths and the functions built on it. The specification is
  the list of segments: a normal path is \<open>/\<close> followed by its segments joined with slashes, and the
  ancestor test is the prefix order on segments.
\<close>

section \<open>The code\<close>

definition slash :: char where
  "slash = CHR ''/''"

definition backslash :: char where
  "backslash = CHR 0x5C"

text \<open>\<open>replace(/\/+/g, '/')\<close>.\<close>

fun squeeze :: "string \<Rightarrow> string" where
  "squeeze (a # b # s) = (if a = slash \<and> b = slash then squeeze (b # s) else a # squeeze (b # s))"
| "squeeze s = s"

definition normalizePath :: "string \<Rightarrow> bool \<Rightarrow> string" where
  "normalizePath path isDirectory =
     (if path = [] then [slash]
      else
        (let n1 = map (\<lambda>c. if c = backslash then slash else c) (trim path);
             n2 = (if starts_with n1 [slash] then n1 else slash # n1);
             n3 = squeeze n2;
             n4 = (if n3 \<noteq> [slash] \<and> ends_with n3 [slash] \<and> \<not> isDirectory then butlast n3 else n3)
         in if isDirectory \<and> n4 \<noteq> [slash] \<and> \<not> ends_with n4 [slash] then n4 @ [slash] else n4))"

text \<open>\<open>s.lastIndexOf(c)\<close>, \<open>-1\<close> when absent.\<close>

definition lastIndexOf :: "char \<Rightarrow> string \<Rightarrow> int" where
  "lastIndexOf c s = int (length s) - 1 - int (length (takeWhile (\<lambda>x. x \<noteq> c) (rev s)))"

text \<open>\<open>treatAsRoot\<close> is \<open>None\<close> when the option is not an array.\<close>

definition getParentPath :: "string \<Rightarrow> string list option \<Rightarrow> string" where
  "getParentPath path treatAsRoot =
     (let n = normalizePath path False
      in if n = [slash] then [slash]
         else if (case treatAsRoot of None \<Rightarrow> False | Some rs \<Rightarrow> n \<in> set rs) then [slash]
         else if lastIndexOf slash n = 0 then [slash]
         else take (nat (lastIndexOf slash n)) n)"

definition isRootPath :: "string \<Rightarrow> string list option \<Rightarrow> bool" where
  "isRootPath path treatAsRoot \<longleftrightarrow>
     path = [] \<or> path = [slash] \<or>
     (case treatAsRoot of None \<Rightarrow> False | Some rs \<Rightarrow> normalizePath path False \<in> set rs)"

definition getBasename :: "string \<Rightarrow> string" where
  "getBasename path =
     (let n = normalizePath path False
      in if n = [slash] then [slash] else drop (nat (lastIndexOf slash n + 1)) n)"

definition isPathUnder :: "string \<Rightarrow> string \<Rightarrow> bool" where
  "isPathUnder child parent =
     (let c = normalizePath child False; p = normalizePath parent False
      in p = [slash] \<or> c = p \<or> starts_with c (p @ [slash]))"

definition getParentPaths :: "string \<Rightarrow> string list" where
  "getParentPaths path =
     (let n = normalizePath path False
      in if n = [slash] then []
         else (let parts = filter (\<lambda>s. s \<noteq> []) (split_on slash n)
               in map (\<lambda>i. slash # join_with slash (take i parts)) (rev [1..<length parts]) @ [[slash]]))"

section \<open>Normal paths\<close>

fun no_double :: "string \<Rightarrow> bool" where
  "no_double (a # b # s) \<longleftrightarrow> \<not> (a = slash \<and> b = slash) \<and> no_double (b # s)"
| "no_double s \<longleftrightarrow> True"

definition normal :: "string \<Rightarrow> bool" where
  "normal r \<longleftrightarrow> r \<noteq> [] \<and> hd r = slash \<and> no_double r \<and> backslash \<notin> set r \<and>
     (r = [slash] \<or> last r \<noteq> slash)"

definition segments :: "string \<Rightarrow> string list" where
  "segments s = filter (\<lambda>p. p \<noteq> []) (split_on slash s)"

definition render :: "string list \<Rightarrow> string" where
  "render ss = slash # join_with slash ss"

lemma slash_neq_backslash [simp]: "slash \<noteq> backslash" "backslash \<noteq> slash"
  by (simp_all add: slash_def backslash_def)

lemma squeeze_hd: "s \<noteq> [] \<Longrightarrow> squeeze s \<noteq> [] \<and> hd (squeeze s) = hd s"
  by (induction s rule: squeeze.induct) auto

lemma squeeze_no_double: "no_double (squeeze s)"
proof (induction s rule: squeeze.induct)
  case (1 a b s)
  then show ?case
    using squeeze_hd [of "b # s"] by (cases "squeeze (b # s)") auto
qed auto

lemma set_squeeze: "set (squeeze s) \<subseteq> set s"
  by (induction s rule: squeeze.induct) auto

lemma squeeze_id: "no_double s \<Longrightarrow> squeeze s = s"
  by (induction s rule: squeeze.induct) auto

lemma no_double_butlast: "no_double s \<Longrightarrow> no_double (butlast s)"
proof (induction s rule: no_double.induct)
  case (1 a b s)
  then show ?case by (cases s) auto
qed auto

lemma no_double_last2:
  "no_double s \<Longrightarrow> s \<noteq> [] \<Longrightarrow> last s = slash \<Longrightarrow> butlast s \<noteq> [] \<Longrightarrow> last (butlast s) \<noteq> slash"
proof (induction s rule: no_double.induct)
  case (1 a b s)
  then show ?case by (cases s) auto
qed auto

lemma ends_with_last: "ends_with s [c] \<longleftrightarrow> s \<noteq> [] \<and> last s = c"
  by (auto simp: ends_with_iff) (metis append_butlast_last_id)

lemma starts_with_hd: "starts_with s [c] \<longleftrightarrow> s \<noteq> [] \<and> hd s = c"
  by (cases s) auto

lemma normalizePath_normal: "normal (normalizePath path False)"
proof (cases "path = []")
  case True
  then show ?thesis by (simp add: normalizePath_def normal_def)
next
  case False
  define n1 where "n1 = map (\<lambda>c. if c = backslash then slash else c) (trim path)"
  define n2 where "n2 = (if starts_with n1 [slash] then n1 else slash # n1)"
  define n3 where "n3 = squeeze n2"
  have n2: "n2 \<noteq> []" "hd n2 = slash" "backslash \<notin> set n2"
    by (auto simp: n2_def starts_with_hd n1_def)
  then have n3: "n3 \<noteq> []" "hd n3 = slash" "backslash \<notin> set n3" "no_double n3"
    using squeeze_hd [of n2] set_squeeze [of n2] squeeze_no_double [of n2] by (auto simp: n3_def)
  have eq: "normalizePath path False = (if n3 \<noteq> [slash] \<and> ends_with n3 [slash] then butlast n3 else n3)"
    using False by (simp add: normalizePath_def n1_def n2_def n3_def Let_def)
  show ?thesis
  proof (cases "n3 \<noteq> [slash] \<and> ends_with n3 [slash]")
    case True
    then obtain x xs where x: "n3 = slash # x # xs" "last n3 = slash"
      using n3(1,2) by (cases n3; cases "tl n3") (auto simp: ends_with_last)
    then show ?thesis
      using n3 no_double_butlast [OF n3(4)] no_double_last2 [OF n3(4,1)] True eq
      by (auto simp: normal_def dest: in_set_butlastD)
  next
    case False
    then show ?thesis using n3 eq by (auto simp: normal_def ends_with_last)
  qed
qed

text \<open>A normal path without white space at its ends is left alone.\<close>

definition trimmed :: "string \<Rightarrow> bool" where
  "trimmed s \<longleftrightarrow> s = [] \<or> \<not> is_space (hd s) \<and> \<not> is_space (last s)"

lemma trim_trimmed:
  assumes "trimmed s"
  shows "trim s = s"
proof -
  have "dropWhile is_space s = s" "dropWhile is_space (rev s) = rev s"
    using assms by (auto simp: trimmed_def dropWhile_eq_self_iff hd_rev)
  then show ?thesis by (simp add: trim_def)
qed

lemma normalize_normal:
  assumes "normal r" "trimmed r"
  shows "normalizePath r False = r"
proof -
  have "map (\<lambda>c. if c = backslash then slash else c) (trim r) = r"
    using assms by (auto simp: trim_trimmed normal_def intro!: map_idI)
  then show ?thesis
    using assms squeeze_id [of r]
    by (auto simp: normalizePath_def normal_def starts_with_hd ends_with_last Let_def)
qed

section \<open>Segments\<close>

lemma no_double_cons: "no_double (a # s) \<Longrightarrow> no_double s"
  by (cases s) auto

lemma split_no_empty:
  "no_double t \<Longrightarrow> t \<noteq> [] \<Longrightarrow> hd t \<noteq> slash \<Longrightarrow> last t \<noteq> slash \<Longrightarrow> [] \<notin> set (split_on slash t)"
proof (induction t rule: length_induct)
  case (1 t)
  show ?case
  proof (cases "slash \<in> set t")
    case False
    then show ?thesis using 1 by (simp add: split_on_single)
  next
    case True
    then obtain p s where t: "t = p @ slash # s" "slash \<notin> set p"
      by (metis split_list_first)
    have p: "p \<noteq> []" using 1(4) t by auto
    have s: "s \<noteq> []" using 1(5) t by auto
    have nd: "no_double (slash # s)"
      using 1(2) unfolding t(1) by (induction p) (auto dest: no_double_cons)
    then have "hd s \<noteq> slash" "no_double s" using s by (cases s; auto dest: no_double_cons)+
    moreover have "last s \<noteq> slash" using 1(5) s t by simp
    ultimately have "[] \<notin> set (split_on slash s)" using 1(1) s t by simp
    then show ?thesis using t p by (simp add: split_on_append_sep)
  qed
qed

lemma normal_render:
  assumes "normal r"
  shows "r = render (segments r)" and "r \<noteq> [slash] \<Longrightarrow> segments r = split_on slash (tl r)"
    and "r = [slash] \<longleftrightarrow> segments r = []"
proof -
  obtain t where r: "r = slash # t" using assms by (cases r) (auto simp: normal_def)
  show *: "segments r = split_on slash (tl r)" if "r \<noteq> [slash]"
  proof -
    have "t \<noteq> []" using that r by auto
    moreover have "no_double t" "hd t \<noteq> slash" "last t \<noteq> slash"
      using assms r \<open>t \<noteq> []\<close> by (cases t; auto simp: normal_def dest: no_double_cons)+
    ultimately have "[] \<notin> set (split_on slash t)" using split_no_empty by blast
    then show ?thesis by (auto simp: segments_def r intro!: filter_True)
  qed
  show "r = render (segments r)"
  proof (cases "r = [slash]")
    case True
    then show ?thesis by (simp add: render_def segments_def)
  next
    case False
    then show ?thesis using * r by (simp add: render_def)
  qed
  show "r = [slash] \<longleftrightarrow> segments r = []"
    using * split_on_nonempty [of slash "tl r"] by (cases "r = [slash]") (simp_all add: segments_def)
qed

lemma split_on_append: "split_on c (a @ c # b) = split_on c a @ split_on c b"
proof (induction a)
  case (Cons x a)
  obtain p ps where "split_on c a = p # ps" by (cases "split_on c a") auto
  with Cons show ?case by simp
qed simp

lemma join_snoc: "xs \<noteq> [] \<Longrightarrow> join_with c (xs @ [b]) = join_with c xs @ c # b"
  by (induction c xs rule: join_with.induct) auto

lemma join_append: "xs \<noteq> [] \<Longrightarrow> ys \<noteq> [] \<Longrightarrow> join_with c (xs @ ys) = join_with c xs @ c # join_with c ys"
proof (induction c xs rule: join_with.induct)
  case (2 c p)
  then show ?case by (cases ys) auto
qed auto

lemma segments_no_slash: "p \<in> set (segments s) \<Longrightarrow> p \<noteq> [] \<and> slash \<notin> set p"
  by (auto simp: segments_def split_on_no_sep)

lemma segments_render:
  assumes "\<forall>p \<in> set ss. p \<noteq> [] \<and> slash \<notin> set p"
  shows "segments (render ss) = ss"
proof (cases "ss = []")
  case False
  then have "split_on slash (render ss) = [] # ss" using assms by (simp add: render_def split_join)
  then show ?thesis using assms by (auto simp: segments_def intro!: filter_True)
qed (simp add: render_def segments_def)

lemma lastIndexOf_split:
  assumes "slash \<notin> set b"
  shows "lastIndexOf slash (x @ slash # b) = int (length x)"
proof -
  have "takeWhile (\<lambda>c. c \<noteq> slash) (rev (x @ slash # b)) = rev b"
    using assms by (simp add: takeWhile_append takeWhile_tail)
  then show ?thesis by (simp add: lastIndexOf_def)
qed

lemma render_last:
  assumes "ss \<noteq> []"
  obtains x where "render ss = x @ slash # last ss" "x = (if butlast ss = [] then [] else render (butlast ss))"
proof -
  have ss: "ss = butlast ss @ [last ss]" using assms by simp
  show thesis
  proof (cases "butlast ss = []")
    case True
    then have "ss = [last ss]" using ss by simp
    then have "render ss = slash # last ss" by (metis join_with.simps(2) render_def)
    then show thesis using that [of "[]"] True by simp
  next
    case False
    have "render ss = render (butlast ss) @ slash # last ss"
      using join_snoc [OF False, of slash "last ss"] ss by (simp add: render_def)
    then show thesis using that False by simp
  qed
qed

text \<open>The two halves of a path in terms of its segments.\<close>

lemma parent_base_segments:
  fixes path
  defines "ss \<equiv> segments (normalizePath path False)"
  assumes "ss \<noteq> []"
  shows "getBasename path = last ss" and "getParentPath path None = render (butlast ss)"
proof -
  let ?n = "normalizePath path False"
  note N = normal_render [OF normalizePath_normal, of path]
  have ne: "?n \<noteq> [slash]" using N(3) assms by simp
  have n: "?n = render ss" using N(1) by (simp add: ss_def)
  have b: "slash \<notin> set (last ss)" using segments_no_slash [of "last ss" ?n] assms by simp
  obtain x where x: "render ss = x @ slash # last ss"
      "x = (if butlast ss = [] then [] else render (butlast ss))"
    using render_last [OF assms(2)] by blast
  have i: "lastIndexOf slash ?n = int (length x)" using lastIndexOf_split [OF b] x n by simp
  then show "getBasename path = last ss" using ne n x(1) by (simp add: getBasename_def nat_add_distrib)
  show "getParentPath path None = render (butlast ss)"
  proof (cases "butlast ss = []")
    case True
    then show ?thesis using ne i x(2) by (simp add: getParentPath_def render_def Let_def)
  next
    case False
    then have "x \<noteq> []" using x(2) by (simp add: render_def)
    then show ?thesis using ne i x n False by (simp add: getParentPath_def Let_def)
  qed
qed

lemma under_segments:
  "isPathUnder child parent \<longleftrightarrow>
     (\<exists>rest. segments (normalizePath child False) = segments (normalizePath parent False) @ rest)"
proof -
  let ?c = "normalizePath child False" and ?p = "normalizePath parent False"
  note C = normal_render [OF normalizePath_normal, of child]
  note P = normal_render [OF normalizePath_normal, of parent]
  consider "?p = [slash]" | "?p \<noteq> [slash]" "?c = ?p" | "?p \<noteq> [slash]" "?c \<noteq> ?p" by blast
  then show ?thesis
  proof cases
    case 1
    then show ?thesis using P(3) by (simp add: isPathUnder_def)
  next
    case 2
    then show ?thesis by (simp add: isPathUnder_def)
  next
    case 3
    have pne: "segments ?p \<noteq> []" using P(3) 3 by simp
    have "starts_with ?c (?p @ [slash]) \<longleftrightarrow> (\<exists>rest. segments ?c = segments ?p @ rest)"
    proof
      assume "starts_with ?c (?p @ [slash])"
      then obtain t where t: "?c = ?p @ slash # t" by (auto simp: starts_with_iff)
      then have "segments ?c = segments ?p @ segments t"
        by (simp add: segments_def split_on_append)
      then show "\<exists>rest. segments ?c = segments ?p @ rest" by blast
    next
      assume "\<exists>rest. segments ?c = segments ?p @ rest"
      then obtain rest where r: "segments ?c = segments ?p @ rest" by blast
      have "rest \<noteq> []" using r C(1) P(1) 3 by auto
      then have "?c = ?p @ slash # join_with slash rest"
        using join_append [OF pne] r C(1) P(1) by (metis append_Cons render_def)
      then show "starts_with ?c (?p @ [slash])" by (auto simp: starts_with_iff)
    qed
    then show ?thesis using 3 by (auto simp: isPathUnder_def)
  qed
qed

lemma parents_segments:
  fixes path
  defines "ss \<equiv> segments (normalizePath path False)"
  shows "getParentPaths path = map (\<lambda>i. render (take i ss)) (rev [0..<length ss])"
proof (cases "ss = []")
  case True
  then show ?thesis
    using normal_render(3) [OF normalizePath_normal, of path] by (simp add: getParentPaths_def ss_def)
next
  case False
  then have "normalizePath path False \<noteq> [slash]"
    using normal_render(3) [OF normalizePath_normal, of path] by (simp add: ss_def)
  moreover have "[0..<length ss] = 0 # [1..<length ss]" using False by (simp add: upt_conv_Cons)
  ultimately show ?thesis
    by (simp add: getParentPaths_def ss_def [unfolded segments_def, symmetric] render_def Let_def)
qed

section \<open>Properties\<close>

text \<open>
  Every normalised path is in normal form: it starts with a slash, has no empty segment, no
  backslash and, the root apart, no trailing slash; and it is the rendering of its own segments.
\<close>

theorem normalize_form:
  "let r = normalizePath path False
   in r \<noteq> [] \<and> hd r = slash \<and> no_double r \<and> backslash \<notin> set r \<and> (r = [slash] \<or> last r \<noteq> slash) \<and>
      r = render (segments r)"
  using normalizePath_normal [of path] normal_render(1) [OF normalizePath_normal, of path]
  by (simp add: normal_def)

theorem normalize_form_witness:
  "normalizePath ''a//b/'' False = ''/a/b'' \<and> no_double ''/a/b'' \<and> render (segments ''/a/b'') = ''/a/b''"
proof -
  have "normalizePath ''a//b/'' False = ''/a/b''" by code_simp
  with normalize_form [of "''a//b/''"] show ?thesis unfolding Let_def by metis
qed

text \<open>
  Normalising twice changes nothing when the first result has no white space at its end. Without
  that condition it may: trimming happens before the trailing slash is removed.
\<close>

theorem normalize_idempotent:
  "(\<not> is_space (last (normalizePath path False)) \<longrightarrow>
      normalizePath (normalizePath path False) False = normalizePath path False) \<and>
   normalizePath (normalizePath ''/a /'' False) False \<noteq> normalizePath ''/a /'' False"
proof -
  have "trimmed (normalizePath path False)" if "\<not> is_space (last (normalizePath path False))"
    using that normalizePath_normal [of path]
    by (simp add: trimmed_def normal_def is_space_def slash_def)
  moreover have "normalizePath (normalizePath ''/a /'' False) False \<noteq> normalizePath ''/a /'' False"
    by code_simp
  ultimately show ?thesis using normalize_normal [OF normalizePath_normal] by blast
qed

theorem normalize_idempotent_witness:
  "normalizePath (normalizePath (''a//b'' @ [backslash] @ ''c/'') False) False = ''/a/b/c''"
proof -
  have "normalizePath (''a//b'' @ [backslash] @ ''c/'') False = ''/a/b/c''" by code_simp
  moreover have "\<not> is_space (last ''/a/b/c'')" by code_simp
  ultimately show ?thesis using normalize_idempotent [of "''a//b'' @ [backslash] @ ''c/''"] by simp
qed

text \<open>
  The ancestor test, the parent, the base name and the list of parents agree with the segments:
  \<open>isPathUnder\<close> is the prefix order (so \<open>/ab\<close> is not under \<open>/a\<close>), and the parents of a path are the
  renderings of its proper prefixes, longest first.
\<close>

theorem path_segments:
  "let ss = segments (normalizePath path False); ps = segments (normalizePath parent False)
   in (isPathUnder path parent \<longleftrightarrow> take (length ps) ss = ps) \<and>
      getParentPaths path = map (\<lambda>i. render (take i ss)) (rev [0..<length ss]) \<and>
      (ss = [] \<or> getBasename path = last ss \<and> getParentPath path None = render (butlast ss))"
proof -
  have "(\<exists>rest. ss = ps @ rest) \<longleftrightarrow> take (length ps) ss = ps" for ss ps :: "string list"
    by (metis append_eq_conv_conj append_take_drop_id)
  then show ?thesis
    using under_segments [of path parent] parents_segments [of path] parent_base_segments [of path]
    by (auto simp: Let_def)
qed

end
