(* ===== verification/Cache.thy ===== *)
theory Cache
  imports Prelude "HOL-Library.AList"
begin

text \<open>
  The two caches of the server: \<open>infrastructure/adapters/cache/InMemoryCacheAdapter.js\<close>, and the
  \<open>Map\<close> of \<open>{ expiresAt, data }\<close> objects that \<open>permissionStore.js\<close> and \<open>aclService.js\<close> keep. Both
  meet one interface, the locale \<open>expiring_cache\<close>, in which the lemmas about read-through use are
  proved. A JavaScript \<open>Map\<close> is an association list in insertion order: \<open>set\<close> of a present key
  keeps its place, which is what \<open>AList.update\<close> does.
\<close>

section \<open>The interface\<close>

locale expiring_cache =
  fixes lookup :: "int \<Rightarrow> 'k \<Rightarrow> 'c \<Rightarrow> 'v option"
    and store :: "int \<Rightarrow> 'k \<Rightarrow> 'v \<Rightarrow> int \<Rightarrow> 'c \<Rightarrow> 'c"
    and evict :: "'k \<Rightarrow> 'c \<Rightarrow> 'c"
    and empty :: 'c
  assumes hit: "0 < now \<Longrightarrow> 0 < ttl \<Longrightarrow> now \<le> t \<Longrightarrow> t < now + ttl \<Longrightarrow> lookup t k (store now k v ttl c) = Some v"
    and only_stored: "lookup t k (store now k v ttl c) = Some w \<Longrightarrow> w = v"
    and expired: "0 < now \<Longrightarrow> 0 < ttl \<Longrightarrow> now + ttl < t \<Longrightarrow> lookup t k (store now k v ttl c) = None"
    and store_other: "j \<noteq> k \<Longrightarrow> lookup t j (store now k v ttl c) = lookup t j c"
    and evicted: "lookup t k (evict k c) = None"
    and evict_other: "j \<noteq> k \<Longrightarrow> lookup t j (evict k c) = lookup t j c"
    and empty_miss: "lookup t k empty = None"
begin

text \<open>Coherence with a source of truth, and its preservation.\<close>

definition coherent :: "('k \<Rightarrow> 'v) \<Rightarrow> 'c \<Rightarrow> bool" where
  "coherent src c \<longleftrightarrow> (\<forall>t k v. lookup t k c = Some v \<longrightarrow> v = src k)"

lemma coherent_empty: "coherent src empty"
  by (simp add: coherent_def empty_miss)

lemma coherent_store:
  assumes "coherent src c"
  shows "coherent src (store now k (src k) ttl c)"
  unfolding coherent_def
proof (intro allI impI)
  fix t j v assume "lookup t j (store now k (src k) ttl c) = Some v"
  then show "v = src j"
    using assms only_stored store_other unfolding coherent_def by (cases "j = k") auto
qed

lemma coherent_evict:
  assumes "coherent src c" "\<And>j. j \<noteq> k \<Longrightarrow> src' j = src j"
  shows "coherent src' (evict k c)"
  unfolding coherent_def
proof (intro allI impI)
  fix t j v assume l: "lookup t j (evict k c) = Some v"
  then have "j \<noteq> k" using evicted by auto
  then show "v = src' j" using l assms evict_other unfolding coherent_def by simp
qed

text \<open>Reading through a coherent cache gives the source's value.\<close>

lemma read_through:
  assumes "coherent src c"
  shows "(case lookup t k c of Some v \<Rightarrow> v | None \<Rightarrow> src k) = src k"
  using assms by (auto simp: coherent_def split: option.splits)

end

section \<open>The map of expiring entries\<close>

type_synonym ('k, 'v) emap = "('k \<times> int \<times> 'v) list"

text \<open>\<open>const cached = cache.get(key); if (cached && cached.expiresAt > Date.now()) return cached.data\<close>.\<close>

definition emap_get :: "int \<Rightarrow> 'k \<Rightarrow> ('k, 'v) emap \<Rightarrow> 'v option" where
  "emap_get now k c =
     (case map_of c k of None \<Rightarrow> None | Some (e, v) \<Rightarrow> if e > now then Some v else None)"

definition emap_set :: "int \<Rightarrow> 'k \<Rightarrow> 'v \<Rightarrow> int \<Rightarrow> ('k, 'v) emap \<Rightarrow> ('k, 'v) emap" where
  "emap_set now k v ttl c = AList.update k (now + ttl, v) c"

definition emap_delete :: "'k \<Rightarrow> ('k, 'v) emap \<Rightarrow> ('k, 'v) emap" where
  "emap_delete k c = AList.delete k c"

interpretation em: expiring_cache emap_get emap_set emap_delete "[]"
  by unfold_locales
     (auto simp: emap_get_def emap_set_def emap_delete_def update_conv' delete_conv' split: if_splits option.splits)

section \<open>InMemoryCacheAdapter\<close>

record 'v cache_entry =
  entry_value :: 'v
  entry_expires :: "int option"

type_synonym ('k, 'v) adapter = "('k \<times> 'v cache_entry) list"

text \<open>\<open>entry.expiresAt && Date.now() > entry.expiresAt\<close>.\<close>

definition entry_expired :: "int \<Rightarrow> 'v cache_entry \<Rightarrow> bool" where
  "entry_expired now e \<longleftrightarrow> (case entry_expires e of None \<Rightarrow> False | Some x \<Rightarrow> x \<noteq> 0 \<and> now > x)"

definition cache_get :: "int \<Rightarrow> 'k \<Rightarrow> ('k, 'v) adapter \<Rightarrow> 'v option \<times> ('k, 'v) adapter" where
  "cache_get now k c =
     (case map_of c k of
        None \<Rightarrow> (None, c)
      | Some e \<Rightarrow> (if entry_expired now e then (None, AList.delete k c) else (Some (entry_value e), c)))"

text \<open>\<open>ttl_ms\<close> absent or zero: the entry never expires.\<close>

definition cache_set :: "int \<Rightarrow> 'k \<Rightarrow> 'v \<Rightarrow> int option \<Rightarrow> ('k, 'v) adapter \<Rightarrow> ('k, 'v) adapter" where
  "cache_set now k v ttl c =
     AList.update k
       (if ttl = None \<or> ttl = Some 0 then \<lparr>entry_value = v, entry_expires = None\<rparr>
        else \<lparr>entry_value = v, entry_expires = Some (now + the ttl)\<rparr>) c"

definition cache_delete :: "'k \<Rightarrow> ('k, 'v) adapter \<Rightarrow> bool \<times> ('k, 'v) adapter" where
  "cache_delete k c = (map_of c k \<noteq> None, AList.delete k c)"

definition cache_has :: "int \<Rightarrow> 'k \<Rightarrow> ('k, 'v) adapter \<Rightarrow> bool \<times> ('k, 'v) adapter" where
  "cache_has now k c =
     (case map_of c k of
        None \<Rightarrow> (False, c)
      | Some e \<Rightarrow> (if entry_expired now e then (False, AList.delete k c) else (True, c)))"

definition cache_clear :: "('k, 'v) adapter \<Rightarrow> ('k, 'v) adapter" where
  "cache_clear c = []"

text \<open>The two generators, run to their end: the expired entries go, the others are yielded.\<close>

fun cache_keys :: "int \<Rightarrow> ('k, 'v) adapter \<Rightarrow> 'k list \<times> ('k, 'v) adapter" where
  "cache_keys now [] = ([], [])"
| "cache_keys now ((k, e) # c) =
     (case cache_keys now c of (ks, c') \<Rightarrow> if entry_expired now e then (ks, c') else (k # ks, (k, e) # c'))"

fun cache_entries :: "int \<Rightarrow> ('k, 'v) adapter \<Rightarrow> ('k \<times> 'v) list \<times> ('k, 'v) adapter" where
  "cache_entries now [] = ([], [])"
| "cache_entries now ((k, e) # c) =
     (case cache_entries now c of (es, c') \<Rightarrow>
        if entry_expired now e then (es, c') else ((k, entry_value e) # es, (k, e) # c'))"

definition cache_size :: "('k, 'v) adapter \<Rightarrow> nat" where
  "cache_size c = length c"

interpretation im: expiring_cache
  "\<lambda>now k c. fst (cache_get now k c)" "\<lambda>now k v ttl c. cache_set now k v (Some ttl) c"
  "\<lambda>k c. snd (cache_delete k c)" "[]"
  by unfold_locales
     (auto simp: cache_get_def cache_set_def cache_delete_def entry_expired_def update_conv' delete_conv'
       split: if_splits option.splits)

lemma cache_get_keeps:
  "fst (cache_get now' j (snd (cache_get now k c))) =
     (if j = k \<and> fst (cache_get now k c) = None then None else fst (cache_get now' j c))"
  by (auto simp: cache_get_def delete_conv' split: option.splits if_splits)

lemma cache_keys_filter:
  "cache_keys now c = (map fst (filter (\<lambda>p. \<not> entry_expired now (snd p)) c),
                      filter (\<lambda>p. \<not> entry_expired now (snd p)) c)"
  by (induction c) auto

lemma cache_entries_filter:
  "cache_entries now c = (map (\<lambda>(k, e). (k, entry_value e)) (filter (\<lambda>p. \<not> entry_expired now (snd p)) c),
                         filter (\<lambda>p. \<not> entry_expired now (snd p)) c)"
  by (induction c) auto

lemma distinct_cache_set: "distinct (map fst c) \<Longrightarrow> distinct (map fst (cache_set now k v ttl c))"
  by (simp add: cache_set_def distinct_update)

section \<open>Properties\<close>

text \<open>
  Lazy expiry cannot be observed: the keys, the entries, \<open>has\<close> and \<open>get\<close> of the adapter agree on
  what is present at an instant, whatever expired entries are still stored, and listing drops
  exactly those.
\<close>

theorem adapter_consistent:
  assumes "distinct (map fst c)"
  shows "(k \<in> set (fst (cache_keys now c)) \<longleftrightarrow> fst (cache_has now k c)) \<and>
    (fst (cache_has now k c) \<longleftrightarrow> fst (cache_get now k c) \<noteq> None) \<and>
    ((k, v) \<in> set (fst (cache_entries now c)) \<longleftrightarrow> fst (cache_get now k c) = Some v) \<and>
    fst (cache_get now k (snd (cache_keys now c))) = fst (cache_get now k c) \<and>
    cache_size (snd (cache_keys now c)) = length (fst (cache_keys now c))"
proof -
  have mo: "map_of c k = Some e \<longleftrightarrow> (k, e) \<in> set c" for e using assms by simp
  have "distinct (map fst (filter (\<lambda>p. \<not> entry_expired now (snd p)) c))"
    using assms by (rule distinct_map_filter)
  then have mf: "map_of (filter (\<lambda>p. \<not> entry_expired now (snd p)) c) k = Some e \<longleftrightarrow>
      map_of c k = Some e \<and> \<not> entry_expired now e" for e
    using mo by auto
  show ?thesis
  proof (cases "map_of c k")
    case None
    then have "k \<notin> fst ` set c" by (simp add: map_of_eq_None_iff)
    moreover have "map_of (filter (\<lambda>p. \<not> entry_expired now (snd p)) c) k = None"
      using mf None by (metis option.exhaust option.simps(3))
    ultimately show ?thesis
      using None by (auto simp: cache_keys_filter cache_entries_filter cache_has_def cache_get_def
          cache_size_def image_iff)
  next
    case (Some e)
    have uniq: "(k, e') \<in> set c \<Longrightarrow> e' = e" for e' using mo [of e'] Some by simp
    have inn: "(k, e) \<in> set c" using mo Some by blast
    show ?thesis
    proof (cases "entry_expired now e")
      case True
      then have "map_of (filter (\<lambda>p. \<not> entry_expired now (snd p)) c) k = None"
        using mf Some by (metis option.exhaust option.inject)
      then show ?thesis
        using Some True uniq by (auto simp: cache_keys_filter cache_entries_filter cache_has_def
            cache_get_def cache_size_def)
    next
      case False
      then have "map_of (filter (\<lambda>p. \<not> entry_expired now (snd p)) c) k = Some e" using mf Some by blast
      moreover have "k \<in> set (fst (cache_keys now c))"
        using imageI [OF inn, of fst] inn False unfolding cache_keys_filter
        by (intro image_eqI [of _ fst "(k, e)"] | simp)+
      moreover have "(k, v) \<in> set (fst (cache_entries now c)) \<longleftrightarrow> v = entry_value e"
      proof
        assume "(k, v) \<in> set (fst (cache_entries now c))"
        then obtain e' where "(k, e') \<in> set c" "v = entry_value e'"
          by (auto simp: cache_entries_filter)
        then show "v = entry_value e" using uniq by simp
      next
        assume "v = entry_value e"
        then show "(k, v) \<in> set (fst (cache_entries now c))"
          using inn False unfolding cache_entries_filter
          by (intro image_eqI [of _ "\<lambda>(k, e). (k, entry_value e)" "(k, e)"] | simp)+
      qed
      ultimately show ?thesis
        using Some False by (auto simp: cache_keys_filter cache_has_def cache_get_def cache_size_def)
    qed
  qed
qed

theorem adapter_consistent_witness:
  "fst (cache_keys 100 (cache_set 0 ''a'' (1 :: nat) (Some 50) (cache_set 0 ''b'' 2 None []))) = [''b'']"
proof -
  let ?c = "cache_set 0 ''a'' (1 :: nat) (Some 50) (cache_set 0 ''b'' 2 None [])"
  have d: "distinct (map fst ?c)" by (intro distinct_cache_set) simp
  have "fst (cache_keys 100 ?c) = [''b'']" by code_simp
  then show ?thesis using adapter_consistent [OF d, of "''b''" 100 2] by blast
qed

end
