(* ===== verification/Permissions.thy ===== *)
theory Permissions
  imports TreeProps PathUtils Cache
begin

text \<open>
  \<open>server/domains/permissions\<close>: the sqlite permission repository, the permission store with its
  per-user cache, the rank and owner policies, and the access checks of \<open>aclService\<close>. Grants are
  rows on nodes; a folder grant reaches every node below through the closure table, and the
  nearest grant decides.
\<close>

section \<open>permissionRank.js\<close>

fun perm_name :: "permission \<Rightarrow> string" where
  "perm_name Read = ''read''"
| "perm_name Write = ''write''"
| "perm_name Admin = ''admin''"

definition PERMISSIONS_ALL :: "string list" where
  "PERMISSIONS_ALL = [''read'', ''write'', ''admin'']"

text \<open>\<open>Array.indexOf\<close>.\<close>

fun indexOf :: "'a list \<Rightarrow> 'a \<Rightarrow> int" where
  "indexOf [] x = - 1"
| "indexOf (y # ys) x = (if y = x then 0 else (let i = indexOf ys x in if i = - 1 then - 1 else i + 1))"

definition getPermissionRank :: "string \<Rightarrow> int" where
  "getPermissionRank p = indexOf PERMISSIONS_ALL p"

definition meetsRank :: "string \<Rightarrow> string \<Rightarrow> bool" where
  "meetsRank actual required =
     (if actual = [] \<or> required = [] then False
      else getPermissionRank actual \<ge> getPermissionRank required)"

text \<open>The order of the ranks, as the order of the type.\<close>

fun perm_rank :: "permission \<Rightarrow> nat" where
  "perm_rank Read = 0"
| "perm_rank Write = 1"
| "perm_rank Admin = 2"

instantiation permission :: linorder
begin

definition less_eq_permission :: "permission \<Rightarrow> permission \<Rightarrow> bool" where
  "less_eq_permission p q \<longleftrightarrow> perm_rank p \<le> perm_rank q"

definition less_permission :: "permission \<Rightarrow> permission \<Rightarrow> bool" where
  "less_permission p q \<longleftrightarrow> perm_rank p < perm_rank q"

instance
proof
  fix x y z :: permission
  show "x < y \<longleftrightarrow> x \<le> y \<and> \<not> y \<le> x" by (auto simp: less_permission_def less_eq_permission_def)
  show "x \<le> x" by (simp add: less_eq_permission_def)
  show "x \<le> y \<Longrightarrow> y \<le> z \<Longrightarrow> x \<le> z" by (simp add: less_eq_permission_def)
  show "x \<le> y \<Longrightarrow> y \<le> x \<Longrightarrow> x = y"
    by (cases x; cases y) (auto simp: less_eq_permission_def)
  show "x \<le> y \<or> y \<le> x" by (auto simp: less_eq_permission_def)
qed

end

lemma meetsRank_names: "meetsRank (perm_name p) (perm_name q) \<longleftrightarrow> q \<le> p"
  by (cases p; cases q) (simp_all add: meetsRank_def getPermissionRank_def PERMISSIONS_ALL_def
      less_eq_permission_def)

section \<open>The sqlite repository\<close>

text \<open>
  \<open>buildAncestorPermSelect\<close>: the grants of one identity joined with the ancestors of the node,
  nearest first, and the first row.
\<close>

definition ancestor_grants :: "db \<Rightarrow> (nat \<times> permission) list \<Rightarrow> nat \<Rightarrow> (nat \<times> permission \<times> nat) list" where
  "ancestor_grants d gs n =
     concat (map (\<lambda>(g, p). map (\<lambda>r. (g, p, adepth r))
       (filter (\<lambda>r. aanc r = g \<and> adesc r = n) (node_ancestors d))) gs)"

definition nearest_grant :: "db \<Rightarrow> (nat \<times> permission) list \<Rightarrow> nat \<Rightarrow> (permission \<times> nat) option" where
  "nearest_grant d gs n =
     map_option (\<lambda>(g, p, k). (p, k)) (first_row (sort_key (\<lambda>(g, p, k). k) (ancestor_grants d gs n)))"

definition grants_of :: "grant list \<Rightarrow> nat \<Rightarrow> (nat \<times> permission) list" where
  "grants_of gs u = map (\<lambda>g. (gnode g, gperm g)) (filter (\<lambda>g. guser g = u) gs)"

definition share_grants_of :: "db \<Rightarrow> string \<Rightarrow> (nat \<times> permission) list" where
  "share_grants_of d tok = map (\<lambda>s. (snode s, sperm s)) (filter (\<lambda>s. stoken s = tok) (perm_shares d))"

definition has_user :: "db \<Rightarrow> nat \<Rightarrow> bool" where
  "has_user d u \<longleftrightarrow> (\<exists>x \<in> set (users d). uid x = u)"

text \<open>\<open>INSERT ... ON CONFLICT (user_id, file_node_id) DO UPDATE\<close>; both columns are references.\<close>

definition upsert_grant :: "nat \<Rightarrow> nat \<Rightarrow> permission \<Rightarrow> grant list \<Rightarrow> grant list" where
  "upsert_grant u n p gs =
     (if \<exists>g \<in> set gs. guser g = u \<and> gnode g = n
      then update_where (\<lambda>g. guser g = u \<and> gnode g = n) (\<lambda>g. g\<lparr>gperm := p\<rparr>) gs
      else gs @ [\<lparr>guser = u, gnode = n, gperm = p\<rparr>])"

definition upsertPathPermission :: "nat \<Rightarrow> nat \<Rightarrow> permission \<Rightarrow> (db, unit) service" where
  "upsertPathPermission u n p d =
     (if has_user d u \<and> has_node d n then (Inr (), d\<lparr>user_paths := upsert_grant u n p (user_paths d)\<rparr>)
      else (Inl (mapDatabaseError fk_failed), d))"

definition upsertFilePermission :: "nat \<Rightarrow> nat \<Rightarrow> permission \<Rightarrow> (db, unit) service" where
  "upsertFilePermission u n p d =
     (if has_user d u \<and> has_node d n then (Inr (), d\<lparr>user_files := upsert_grant u n p (user_files d)\<rparr>)
      else (Inl (mapDatabaseError fk_failed), d))"

definition deletePathPermission :: "nat \<Rightarrow> nat \<Rightarrow> (db, unit) service" where
  "deletePathPermission u n d =
     (Inr (), d\<lparr>user_paths := delete_where (\<lambda>g. guser g = u \<and> gnode g = n) (user_paths d)\<rparr>)"

definition deleteFilePermission :: "nat \<Rightarrow> nat \<Rightarrow> (db, unit) service" where
  "deleteFilePermission u n d =
     (Inr (), d\<lparr>user_files := delete_where (\<lambda>g. guser g = u \<and> gnode g = n) (user_files d)\<rparr>)"

definition deleteAllUserPermissions :: "nat \<Rightarrow> (db, unit) service" where
  "deleteAllUserPermissions u d =
     (Inr (), d\<lparr>user_paths := delete_where (\<lambda>g. guser g = u) (user_paths d),
                user_files := delete_where (\<lambda>g. guser g = u) (user_files d)\<rparr>)"

definition upsertSharePermission :: "string \<Rightarrow> nat \<Rightarrow> (db, unit) service" where
  "upsertSharePermission tok n d =
     (if \<not> has_node d n then (Inl (mapDatabaseError fk_failed), d)
      else (Inr (), d\<lparr>perm_shares :=
        (if \<exists>s \<in> set (perm_shares d). stoken s = tok
         then update_where (\<lambda>s. stoken s = tok) (\<lambda>s. s\<lparr>snode := n, sperm := Read\<rparr>) (perm_shares d)
         else perm_shares d @ [\<lparr>stoken = tok, snode = n, sperm = Read\<rparr>])\<rparr>))"

definition deleteSharePermission :: "string \<Rightarrow> (db, unit) service" where
  "deleteSharePermission tok d =
     (Inr (), d\<lparr>perm_shares := delete_where (\<lambda>s. stoken s = tok) (perm_shares d)\<rparr>)"

definition findSharePermissionForNode :: "db \<Rightarrow> string \<Rightarrow> nat \<Rightarrow> (permission \<times> nat) option" where
  "findSharePermissionForNode d tok n = nearest_grant d (share_grants_of d tok) n"

definition findPathPermissionForNode :: "db \<Rightarrow> nat \<Rightarrow> nat \<Rightarrow> (permission \<times> nat) option" where
  "findPathPermissionForNode d u n = nearest_grant d (grants_of (user_paths d) u) n"

definition findPathPermissionsForNode :: "db \<Rightarrow> nat \<Rightarrow> nat \<Rightarrow> (nat \<times> permission \<times> nat) list" where
  "findPathPermissionsForNode d u n = ancestor_grants d (grants_of (user_paths d) u) n"

definition findFilePermission :: "db \<Rightarrow> nat \<Rightarrow> nat \<Rightarrow> permission option" where
  "findFilePermission d u n =
     map_option gperm (first_row (filter (\<lambda>g. guser g = u \<and> gnode g = n) (user_files d)))"

definition listFilePermissions :: "db \<Rightarrow> nat \<Rightarrow> (nat \<times> permission) list" where
  "listFilePermissions d u = grants_of (user_files d) u"

definition listPermissionUserIds :: "db \<Rightarrow> nat list" where
  "listPermissionUserIds d = remdups (map guser (user_paths d) @ map guser (user_files d))"

definition listPathAndFilePermissions :: "db \<Rightarrow> nat \<Rightarrow> (nat \<times> permission \<times> node_type) list" where
  "listPathAndFilePermissions d u =
     map (\<lambda>(n, p). (n, p, Directory)) (grants_of (user_paths d) u) @
     map (\<lambda>(n, p). (n, p, File)) (grants_of (user_files d) u)"

text \<open>\<open>buildSharedSql\<close>: live nodes only, the user's own home subtree left out when it is known.\<close>

definition shared_rows :: "db \<Rightarrow> (nat \<times> permission) list \<Rightarrow> nat option \<Rightarrow>
    (nat \<times> string \<times> permission \<times> node_type) list" where
  "shared_rows d gs home =
     concat (map (\<lambda>(g, p). map (\<lambda>n. (g, nname n, p, ntype n))
       (filter (\<lambda>n. nid n = g \<and> live n \<and>
          (case home of None \<Rightarrow> True | Some h \<Rightarrow> g \<notin> set (getDescendantIds d h))) (file_nodes d))) gs)"

fun first_per_node :: "nat list \<Rightarrow> (nat \<times> 'a) list \<Rightarrow> (nat \<times> 'a) list" where
  "first_per_node seen [] = []"
| "first_per_node seen ((i, x) # rows) =
     (if i \<in> set seen then first_per_node seen rows else (i, x) # first_per_node (i # seen) rows)"

definition listSharedWithUser :: "db \<Rightarrow> nat \<Rightarrow> nat option \<Rightarrow> (nat \<times> string \<times> permission \<times> node_type) list" where
  "listSharedWithUser d u home =
     first_per_node [] (shared_rows d (grants_of (user_paths d) u) home @
                        shared_rows d (grants_of (user_files d) u) home)"

definition deleteOwnSubtreePermissions :: "nat \<Rightarrow> nat \<Rightarrow> (db, nat \<times> nat) service" where
  "deleteOwnSubtreePermissions u h d =
     (let below = map adesc (filter (\<lambda>r. aanc r = h \<and> adepth r > 0) (node_ancestors d));
          gone = (\<lambda>g. guser g = u \<and> gnode g \<in> set below)
      in (Inr (count_where gone (user_paths d), count_where gone (user_files d)),
          d\<lparr>user_paths := delete_where gone (user_paths d), user_files := delete_where gone (user_files d)\<rparr>))"

definition deleteUserSubtreePermissions :: "nat \<Rightarrow> nat \<Rightarrow> (db, nat \<times> nat) service" where
  "deleteUserSubtreePermissions u h d =
     (let below = getDescendantIds d h;
          gone = (\<lambda>g. guser g = u \<and> gnode g \<in> set below)
      in (Inr (count_where gone (user_paths d), count_where gone (user_files d)),
          d\<lparr>user_paths := delete_where gone (user_paths d), user_files := delete_where gone (user_files d)\<rparr>))"

end
