(* ===== verification/Acl.thy ===== *)
theory Acl
  imports Permissions
begin

text \<open>
  \<open>permissionStore.js\<close>, \<open>permissionExistenceIndex.js\<close>, \<open>ownerNodeResolver.js\<close>, \<open>permissionPolicy.js\<close>
  and \<open>aclService.js\<close>. Their state is the database, two caches of expiring entries (the grant rows
  of a user, and user rows), and the index of which paths exist. Configuration values are what
  \<open>parseInt\<close> returned, with 0 for \<open>NaN\<close>.
\<close>

section \<open>The existence index\<close>

record exist_index =
  ex_entries :: "(string \<times> bool \<times> int) list"
  ex_queue :: "string list"
  ex_version :: nat

definition setExistenceState :: "string \<Rightarrow> bool \<Rightarrow> int \<Rightarrow> exist_index \<Rightarrow> exist_index" where
  "setExistenceState path st checkedAt x =
     x\<lparr>ex_entries := AList.update (normalizePath path False) (st, checkedAt) (ex_entries x),
       ex_version := Suc (ex_version x)\<rparr>"

text \<open>\<open>None\<close> is the state \<open>'unknown'\<close>; an entry past its time is removed.\<close>

definition getExistenceState :: "int \<Rightarrow> string \<Rightarrow> int \<Rightarrow> exist_index \<Rightarrow> bool option \<times> exist_index" where
  "getExistenceState cfg_ttl path now x =
     (let p = normalizePath path False; ttl = (if cfg_ttl = 0 then 30000 else cfg_ttl)
      in case map_of (ex_entries x) p of
           None \<Rightarrow> (None, x)
         | Some (st, checkedAt) \<Rightarrow>
             (if now - checkedAt > ttl then (None, x\<lparr>ex_entries := AList.delete p (ex_entries x)\<rparr>)
              else (Some st, x)))"

definition under_prefix :: "string \<Rightarrow> string \<Rightarrow> bool" where
  "under_prefix p key \<longleftrightarrow> p = [slash] \<or> key = p \<or> starts_with key (if p = [slash] then [slash] else p @ [slash])"

definition invalidateExistenceIndexByPrefix :: "string \<Rightarrow> exist_index \<Rightarrow> exist_index" where
  "invalidateExistenceIndexByPrefix path x =
     (let p = normalizePath path False;
          changed = (\<exists>k \<in> set (map fst (ex_entries x) @ ex_queue x). under_prefix p k)
      in x\<lparr>ex_entries := filter (\<lambda>e. \<not> under_prefix p (fst e)) (ex_entries x),
           ex_queue := filter (\<lambda>k. \<not> under_prefix p k) (ex_queue x),
           ex_version := ex_version x + (if changed then 1 else 0)\<rparr>)"

text \<open>The argument is a node id or a path; for a number the function does nothing.\<close>

definition invalidateExistenceIndexForAclMutation :: "nat + string \<Rightarrow> exist_index \<Rightarrow> exist_index" where
  "invalidateExistenceIndexForAclMutation t x =
     (case t of Inl n \<Rightarrow> x | Inr path \<Rightarrow> invalidateExistenceIndexByPrefix path x)"

definition queueReconciliation :: "string \<Rightarrow> exist_index \<Rightarrow> exist_index" where
  "queueReconciliation path x =
     (let p = normalizePath path False
      in if p \<in> set (ex_queue x) then x else x\<lparr>ex_queue := ex_queue x @ [p]\<rparr>)"

text \<open>\<open>slice(0, k)\<close>; a negative \<open>k\<close> counts from the end.\<close>

definition slice_to :: "int \<Rightarrow> 'a list \<Rightarrow> 'a list" where
  "slice_to k xs = (if k \<ge> 0 then take (nat k) xs else take (length xs - nat (- k)) xs)"

definition effective_batch :: "int \<Rightarrow> int" where
  "effective_batch b = (if b = 0 then 100 else b)"

text \<open>
  One batch. \<open>pathExists\<close> asks the WebDAV server: a parameter, \<open>None\<close> when the request fails, which
  leaves the state of the path unknown.
\<close>

definition reconcile_batch :: "(string \<Rightarrow> bool option) \<Rightarrow> int \<Rightarrow> int \<Rightarrow> exist_index \<Rightarrow> exist_index" where
  "reconcile_batch pathExists b now x =
     (let batch = slice_to (effective_batch b) (ex_queue x);
          x1 = x\<lparr>ex_queue := filter (\<lambda>p. p \<notin> set batch) (ex_queue x)\<rparr>
      in foldl (\<lambda>x p. case pathExists p of None \<Rightarrow> x | Some e \<Rightarrow> setExistenceState p e now x) x1 batch)"

partial_function (option) runReconciliationLoop ::
  "(string \<Rightarrow> bool option) \<Rightarrow> int \<Rightarrow> int \<Rightarrow> exist_index \<Rightarrow> exist_index option" where
  "runReconciliationLoop pathExists b now x =
     (if ex_queue x = [] then Some x
      else runReconciliationLoop pathExists b now (reconcile_batch pathExists b now x))"

section \<open>The permission store\<close>

record perm_state =
  pdb :: db
  pcache :: "(nat, (nat \<times> permission \<times> node_type) list) emap"
  ucache :: "(nat, user) emap"
  pexist :: exist_index
  cfg_perm_ttl :: int
  cfg_user_ttl :: int

definition lift_db :: "(db, 'a) service \<Rightarrow> (perm_state, 'a) service" where
  "lift_db m s = (case m (pdb s) of (r, d) \<Rightarrow> (r, s\<lparr>pdb := d\<rparr>))"

definition drop_user :: "nat \<Rightarrow> perm_state \<Rightarrow> perm_state" where
  "drop_user u s = s\<lparr>pcache := emap_delete u (pcache s)\<rparr>"

definition invalidate :: "nat + string \<Rightarrow> perm_state \<Rightarrow> perm_state" where
  "invalidate t s = s\<lparr>pexist := invalidateExistenceIndexForAclMutation t (pexist s)\<rparr>"

definition grant_path :: "nat \<Rightarrow> nat \<Rightarrow> permission \<Rightarrow> (perm_state, unit) service" where
  "grant_path u n p =
     seqs (lift_db (upsertPathPermission u n p)) (\<lambda>_.
     seqs (updates (drop_user u)) (\<lambda>_. updates (invalidate (Inl n))))"

definition revoke_path :: "nat \<Rightarrow> nat \<Rightarrow> (perm_state, unit) service" where
  "revoke_path u n =
     seqs (lift_db (deletePathPermission u n)) (\<lambda>_.
     seqs (updates (drop_user u)) (\<lambda>_. updates (invalidate (Inl n))))"

definition revokeAllUserPermissions :: "nat \<Rightarrow> (perm_state, unit) service" where
  "revokeAllUserPermissions u =
     seqs (lift_db (deleteAllUserPermissions u)) (\<lambda>_.
     seqs (updates (drop_user u)) (\<lambda>_. updates (invalidate (Inr ''/''))))"

definition invalid_permission :: err where
  "invalid_permission = Err ''serverErrors.permissionRequests.invalidPermission'' 400"

text \<open>The permission arrives as a string and is checked here.\<close>

fun perm_of :: "string \<Rightarrow> permission option" where
  "perm_of s = (if s = ''read'' then Some Read else if s = ''write'' then Some Write
                else if s = ''admin'' then Some Admin else None)"

definition grantFilePermission :: "nat \<Rightarrow> nat \<Rightarrow> string \<Rightarrow> (perm_state, unit) service" where
  "grantFilePermission u n p =
     (case perm_of p of
        None \<Rightarrow> throw invalid_permission
      | Some q \<Rightarrow>
          seqs (lift_db (upsertFilePermission u n q)) (\<lambda>_.
          seqs (updates (drop_user u)) (\<lambda>_. updates (invalidate (Inl n)))))"

definition revokeFilePermission :: "nat \<Rightarrow> nat \<Rightarrow> (perm_state, unit) service" where
  "revokeFilePermission u n =
     seqs (lift_db (deleteFilePermission u n)) (\<lambda>_.
     seqs (updates (drop_user u)) (\<lambda>_. updates (invalidate (Inl n))))"

definition removeOwnSubtreePermissions :: "nat \<Rightarrow> nat \<Rightarrow> (perm_state, nat \<times> nat) service" where
  "removeOwnSubtreePermissions u home =
     seqs (lift_db (deleteOwnSubtreePermissions u home)) (\<lambda>r.
     seqs (updates (drop_user u)) (\<lambda>_. ret r))"

definition revokeUserSubtreePermissions :: "nat \<Rightarrow> nat \<Rightarrow> (perm_state, nat \<times> nat) service" where
  "revokeUserSubtreePermissions u root =
     seqs (lift_db (deleteUserSubtreePermissions u root)) (\<lambda>r.
     seqs (updates (drop_user u)) (\<lambda>_. ret r))"

definition grantSharePermission :: "string \<Rightarrow> nat \<Rightarrow> (perm_state, unit) service" where
  "grantSharePermission tok n = lift_db (upsertSharePermission tok n)"

definition revokeSharePermission :: "string \<Rightarrow> (perm_state, unit) service" where
  "revokeSharePermission tok = lift_db (deleteSharePermission tok)"

definition perm_ttl :: "perm_state \<Rightarrow> int" where
  "perm_ttl s = (if cfg_perm_ttl s = 0 then 5000 else cfg_perm_ttl s)"

definition getUserPermissions :: "nat \<Rightarrow> perm_state \<Rightarrow> (nat \<times> permission \<times> node_type) list \<times> perm_state" where
  "getUserPermissions u s =
     (let now = clock (pdb s); ttl = perm_ttl s; rows = listPathAndFilePermissions (pdb s) u
      in case (if ttl > 0 then emap_get now u (pcache s) else None) of
           Some data \<Rightarrow> (data, s)
         | None \<Rightarrow> (rows, s\<lparr>pcache := (if ttl > 0 then emap_set now u rows ttl (pcache s)
                                      else emap_delete u (pcache s))\<rparr>))"

definition checkSharePermission :: "db \<Rightarrow> string \<Rightarrow> nat \<Rightarrow> string \<Rightarrow> bool" where
  "checkSharePermission d tok n required =
     (case findSharePermissionForNode d tok n of
        None \<Rightarrow> False | Some (p, k) \<Rightarrow> meetsRank (perm_name p) required)"

definition checkPathPermission :: "db \<Rightarrow> nat \<Rightarrow> nat \<Rightarrow> string \<Rightarrow> bool" where
  "checkPathPermission d u n required =
     (case findPathPermissionForNode d u n of
        None \<Rightarrow> False | Some (p, k) \<Rightarrow> meetsRank (perm_name p) required)"

definition getEffectivePermission :: "db \<Rightarrow> nat \<Rightarrow> nat \<Rightarrow> permission option" where
  "getEffectivePermission d u n =
     (case findFilePermission d u n of
        Some p \<Rightarrow> Some p
      | None \<Rightarrow> map_option fst (findPathPermissionForNode d u n))"

definition getPathEffectivePermission :: "db \<Rightarrow> nat \<Rightarrow> nat \<Rightarrow> permission option" where
  "getPathEffectivePermission d u n = map_option fst (findPathPermissionForNode d u n)"

definition getFolderPermissions :: "db \<Rightarrow> nat \<Rightarrow> nat option \<Rightarrow>
    (user \<times> permission option \<times> permission option) list" where
  "getFolderPermissions d n fileNode =
     List.map_filter (\<lambda>u.
       let perm = map_option fst (findPathPermissionForNode d u n);
           filePerm = (case fileNode of None \<Rightarrow> None | Some f \<Rightarrow> findFilePermission d u f)
       in if perm = None \<and> filePerm = None then None
          else map_option (\<lambda>x. (x, perm, filePerm)) (findById d u)) (listPermissionUserIds d)"

definition hasPermissionsInPath :: "db \<Rightarrow> nat \<Rightarrow> (user \<times> nat \<times> permission) list" where
  "hasPermissionsInPath d n =
     concat (map (\<lambda>u. List.map_filter (\<lambda>(g, p, k). map_option (\<lambda>x. (x, g, p)) (findById d u))
       (findPathPermissionsForNode d u n)) (listPermissionUserIds d))"

section \<open>Owner and policy\<close>

definition isOwnerNode :: "db \<Rightarrow> nat \<Rightarrow> nat \<Rightarrow> bool" where
  "isOwnerNode d u n =
     (if (case findById d u of None \<Rightarrow> False | Some x \<Rightarrow> is_admin x) then True
      else (case getUserRootNode d u of
              None \<Rightarrow> False
            | Some r \<Rightarrow> n = v_id r \<or> isAncestor d (v_id r) n))"

definition canGrantPermissionNode :: "db \<Rightarrow> nat \<Rightarrow> nat \<Rightarrow> bool" where
  "canGrantPermissionNode d u n =
     (case findById d u of None \<Rightarrow> False
      | Some x \<Rightarrow> is_admin x \<or> isOwnerNode d u n \<or> checkPathPermission d u n ''admin'')"

definition canRevokePermissionNode :: "db \<Rightarrow> nat \<Rightarrow> nat \<Rightarrow> nat \<Rightarrow> bool" where
  "canRevokePermissionNode d u n target =
     (case findById d u of None \<Rightarrow> False
      | Some x \<Rightarrow> u = target \<or> is_admin x \<or> isOwnerNode d u n \<or> checkPathPermission d u n ''admin'')"

definition canViewPermissionsNode :: "db \<Rightarrow> nat \<Rightarrow> nat \<Rightarrow> bool" where
  "canViewPermissionsNode d u n =
     (case findById d u of None \<Rightarrow> False
      | Some x \<Rightarrow> is_admin x \<or> isOwnerNode d u n \<or> checkPathPermission d u n ''admin'')"

section \<open>aclService.js\<close>

text \<open>A principal is a user id or a string such as \<open>share:<token>\<close>; other strings name no user.\<close>

datatype principal = User_id nat | Principal_string string

definition isSharePrincipal :: "principal \<Rightarrow> bool" where
  "isSharePrincipal p = (case p of User_id u \<Rightarrow> False | Principal_string s \<Rightarrow> starts_with s ''share:'')"

definition extractShareToken :: "principal \<Rightarrow> string option" where
  "extractShareToken p =
     (case p of User_id u \<Rightarrow> None
      | Principal_string s \<Rightarrow> if starts_with s ''share:'' then Some (drop 6 s) else None)"

definition user_ttl :: "perm_state \<Rightarrow> int" where
  "user_ttl s = (if cfg_user_ttl s = 0 then 3000 else cfg_user_ttl s)"

definition getCachedUser :: "nat \<Rightarrow> perm_state \<Rightarrow> user option \<times> perm_state" where
  "getCachedUser u s =
     (let now = clock (pdb s)
      in case emap_get now u (ucache s) of
           Some x \<Rightarrow> (Some x, s)
         | None \<Rightarrow>
             (case findById (pdb s) u of
                None \<Rightarrow> (None, s)
              | Some x \<Rightarrow> (Some x, if user_ttl s > 0
                    then s\<lparr>ucache := emap_set now u x (user_ttl s) (ucache s)\<rparr> else s)))"

definition check_share :: "db \<Rightarrow> principal \<Rightarrow> nat \<Rightarrow> string \<Rightarrow> bool" where
  "check_share d p n required =
     (case extractShareToken p of
        None \<Rightarrow> False
      | Some tok \<Rightarrow> if tok = [] then False else checkSharePermission d tok n required)"

definition checkFilePermission :: "principal \<Rightarrow> nat \<Rightarrow> string \<Rightarrow> perm_state \<Rightarrow> bool \<times> perm_state" where
  "checkFilePermission p n required s =
     (if isSharePrincipal p then (check_share (pdb s) p n required, s)
      else (case p of
              Principal_string _ \<Rightarrow> (False, s)
            | User_id u \<Rightarrow>
                (case getCachedUser u s of
                   (None, t) \<Rightarrow> (False, t)
                 | (Some x, t) \<Rightarrow>
                     (if is_admin x then (True, t)
                      else (case findFilePermission (pdb t) u n of
                              Some q \<Rightarrow> (meetsRank (perm_name q) required, t)
                            | None \<Rightarrow> (checkPathPermission (pdb t) u n required, t))))))"

definition checkFolderPermission :: "principal \<Rightarrow> nat \<Rightarrow> string \<Rightarrow> perm_state \<Rightarrow> bool \<times> perm_state" where
  "checkFolderPermission p n required s =
     (if isSharePrincipal p then (check_share (pdb s) p n required, s)
      else (case p of
              Principal_string _ \<Rightarrow> (False, s)
            | User_id u \<Rightarrow>
                (case getCachedUser u s of
                   (None, t) \<Rightarrow> (False, t)
                 | (Some x, t) \<Rightarrow>
                     (if is_admin x then (True, t) else (checkPathPermission (pdb t) u n required, t)))))"

definition checkPermission :: "nat \<Rightarrow> principal \<Rightarrow> string \<Rightarrow> bool \<Rightarrow> perm_state \<Rightarrow> bool \<times> perm_state" where
  "checkPermission n p action isDirectory s =
     (if isSharePrincipal p then (check_share (pdb s) p n action, s)
      else (case p of
              Principal_string _ \<Rightarrow> (False, s)
            | User_id u \<Rightarrow>
                (case getCachedUser u s of
                   (usr, t) \<Rightarrow>
                     (if usr = None \<or> \<not> is_admin (the usr)
                      then (if isDirectory then checkFolderPermission p n action t
                            else checkFilePermission p n action t)
                      else (True, t)))))"

end
