(* ===== verification/AclLaws.thy ===== *)
theory AclLaws
  imports Acl
begin

text \<open>
  What the access checks decide. The grants of an identity reach a node along the walk up, and the
  nearest one decides; a grant on the file itself comes before all of them; an administrator passes.
  The caches do not show: reads through them equal reads of the database.
\<close>

section \<open>The nearest grant\<close>

lemma first_sorted:
  assumes "first_row (sort_key f xs) = Some x"
  shows "x \<in> set xs" and "\<And>y. y \<in> set xs \<Longrightarrow> f x \<le> f y"
proof -
  obtain ys where ys: "sort_key f xs = x # ys" using assms by (cases "sort_key f xs") auto
  have "sorted (map f (x # ys))" using sorted_sort_key [of f xs] by (simp add: ys)
  moreover have "set (x # ys) = set xs" using set_sort [of f xs] by (simp add: ys)
  ultimately show "x \<in> set xs" "\<And>y. y \<in> set xs \<Longrightarrow> f x \<le> f y" by auto
qed

lemma ancestor_grants_set:
  assumes "closure_ok d"
  shows "set (ancestor_grants d gs n) = {(g, p, k). (g, p) \<in> set gs \<and> up d k n = Some g}"
proof -
  have "(\<exists>r \<in> set (node_ancestors d). aanc r = g \<and> adesc r = n \<and> adepth r = k) \<longleftrightarrow> up d k n = Some g" for g k
    using closure_okD [OF assms, of g n k] by (simp add: anc_set_iff)
  moreover have "(g, p, k) \<in> set (ancestor_grants d gs n) \<longleftrightarrow> (g, p) \<in> set gs \<and>
      (\<exists>r \<in> set (node_ancestors d). aanc r = g \<and> adesc r = n \<and> adepth r = k)" for g p k
    by (auto simp: ancestor_grants_def image_iff)
  ultimately show ?thesis by auto
qed

definition nearest :: "db \<Rightarrow> (nat \<times> permission) list \<Rightarrow> nat \<Rightarrow> permission \<Rightarrow> nat \<Rightarrow> bool" where
  "nearest d gs n p k \<longleftrightarrow> (\<exists>a. up d k n = Some a \<and> (a, p) \<in> set gs \<and>
     (\<forall>j < k. \<forall>b. up d j n = Some b \<longrightarrow> b \<notin> fst ` set gs))"

lemma nearest_grant_iff:
  assumes cl: "closure_ok d" and u: "distinct (map fst gs)"
  shows "nearest_grant d gs n = Some (p, k) \<longleftrightarrow> nearest d gs n p k"
proof -
  let ?f = "\<lambda>(g :: nat, p :: permission, k). k"
  let ?rows = "ancestor_grants d gs n"
  note set = ancestor_grants_set [OF cl, of gs n]
  have fwd: "nearest d gs n q i" if "nearest_grant d gs n = Some (q, i)" for q i
  proof -
    from that obtain g where g: "first_row (sort_key ?f ?rows) = Some (g, q, i)"
      by (auto simp: nearest_grant_def)
    have m: "(g, q, i) \<in> set ?rows" and le: "\<And>y. y \<in> set ?rows \<Longrightarrow> i \<le> ?f y"
      using first_sorted [OF g] by auto
    have "b \<notin> fst ` set gs" if "j < i" "up d j n = Some b" for j b
    proof
      assume "b \<in> fst ` set gs"
      then obtain r where "(b, r) \<in> set gs" by auto
      then have "(b, r, j) \<in> set ?rows" using that(2) by (simp add: set)
      from le [OF this] that(1) show False by simp
    qed
    then show ?thesis using m unfolding set nearest_def by blast
  qed
  have uniq: "q = p \<and> i = k" if "nearest d gs n q i" "nearest d gs n p k" for q i
  proof -
    from that obtain a b where a: "up d i n = Some a" "(a, q) \<in> set gs"
      "\<forall>j < i. \<forall>b. up d j n = Some b \<longrightarrow> b \<notin> fst ` set gs"
      and b: "up d k n = Some b" "(b, p) \<in> set gs" "\<forall>j < k. \<forall>b. up d j n = Some b \<longrightarrow> b \<notin> fst ` set gs"
      by (auto simp: nearest_def)
    have "i = k" using a b by (metis fst_conv imageI linorder_neqE_nat)
    moreover have "q = p" using a b \<open>i = k\<close> u by (auto dest: eq_key_imp_eq_value)
    ultimately show ?thesis by simp
  qed
  show ?thesis
  proof
    assume "nearest d gs n p k"
    then obtain a where "(a, p, k) \<in> set ?rows" unfolding set nearest_def by blast
    then have "?rows \<noteq> []" by auto
    then have "sort_key ?f ?rows \<noteq> []" by (metis set_empty set_sort)
    then obtain q i where "nearest_grant d gs n = Some (q, i)"
      by (cases "sort_key ?f ?rows") (auto simp: nearest_grant_def)
    with fwd uniq \<open>nearest d gs n p k\<close> show "nearest_grant d gs n = Some (p, k)" by blast
  qed (rule fwd)
qed

text \<open>What the unique keys of the grant tables give.\<close>

definition grants_ok :: "db \<Rightarrow> bool" where
  "grants_ok d \<longleftrightarrow> distinct (map (\<lambda>g. (guser g, gnode g)) (user_paths d)) \<and>
     distinct (map (\<lambda>g. (guser g, gnode g)) (user_files d)) \<and>
     distinct (map stoken (perm_shares d)) \<and> (\<forall>s \<in> set (perm_shares d). sperm s = Read)"

lemma distinct_grants_of:
  assumes "distinct (map (\<lambda>g. (guser g, gnode g)) gs)"
  shows "distinct (map fst (grants_of gs u))"
proof -
  have "distinct (map (\<lambda>g. (guser g, gnode g)) (filter (\<lambda>g. guser g = u) gs))"
    using assms by (rule distinct_map_filter)
  then have "distinct (map gnode (filter (\<lambda>g. guser g = u) gs))"
    by (simp add: distinct_map inj_on_def)
  then show ?thesis by (simp add: grants_of_def comp_def)
qed

text \<open>The specification of an access decision.\<close>

definition folder_allows :: "db \<Rightarrow> nat \<Rightarrow> nat \<Rightarrow> permission \<Rightarrow> bool" where
  "folder_allows d u n q \<longleftrightarrow> (\<exists>p k. nearest d (grants_of (user_paths d) u) n p k \<and> q \<le> p)"

definition allowed :: "db \<Rightarrow> nat \<Rightarrow> nat \<Rightarrow> bool \<Rightarrow> permission \<Rightarrow> bool" where
  "allowed d u n isDirectory q \<longleftrightarrow>
     (\<exists>x. findById d u = Some x \<and>
       (is_admin x \<or>
        (case (if isDirectory then None else findFilePermission d u n) of
           Some p \<Rightarrow> q \<le> p | None \<Rightarrow> folder_allows d u n q)))"

lemma checkPathPermission_iff:
  assumes "closure_ok d" "grants_ok d"
  shows "checkPathPermission d u n (perm_name q) \<longleftrightarrow> folder_allows d u n q"
proof -
  note iff = nearest_grant_iff [OF assms(1) distinct_grants_of, of "user_paths d" u n]
  have iff': "findPathPermissionForNode d u n = Some (p, k) \<longleftrightarrow> nearest d (grants_of (user_paths d) u) n p k"
    for p k using iff assms(2) by (simp add: findPathPermissionForNode_def grants_ok_def)
  show ?thesis
  proof (cases "findPathPermissionForNode d u n")
    case None
    then show ?thesis using iff' by (auto simp: checkPathPermission_def folder_allows_def)
  next
    case (Some pk)
    then obtain p k where pk: "findPathPermissionForNode d u n = Some (p, k)" by (cases pk) auto
    have "q' = p" if "nearest d (grants_of (user_paths d) u) n q' k'" for q' k'
      using that pk iff' by (metis option.inject prod.inject)
    moreover have "nearest d (grants_of (user_paths d) u) n p k" using pk iff' by blast
    ultimately have "folder_allows d u n q \<longleftrightarrow> q \<le> p" unfolding folder_allows_def by blast
    then show ?thesis by (simp add: checkPathPermission_def pk meetsRank_names)
  qed
qed

section \<open>The caches\<close>

text \<open>The source a user's cache entry mirrors; only present users are cached.\<close>

definition users_fresh :: "perm_state \<Rightarrow> bool" where
  "users_fresh s \<longleftrightarrow> (\<forall>t u x. emap_get t u (ucache s) = Some x \<longrightarrow> findById (pdb s) u = Some x)"

lemma getCachedUser_fresh:
  assumes "users_fresh s"
  shows "fst (getCachedUser u s) = findById (pdb s) u" and "pdb (snd (getCachedUser u s)) = pdb s"
    and "users_fresh (snd (getCachedUser u s))"
proof -
  have only: "emap_get t j (emap_set now u x ttl (ucache s)) = Some y \<Longrightarrow>
      j = u \<and> y = x \<or> emap_get t j (ucache s) = Some y" for t j now x ttl y
    using em.only_stored [of t u now x ttl "ucache s" y] em.store_other [of j u t now x ttl "ucache s"]
    by (cases "j = u") auto
  show "fst (getCachedUser u s) = findById (pdb s) u"
    using assms by (auto simp: getCachedUser_def users_fresh_def Let_def split: option.splits)
  show "pdb (snd (getCachedUser u s)) = pdb s"
    by (auto simp: getCachedUser_def Let_def split: option.splits)
  consider "snd (getCachedUser u s) = s"
    | x where "findById (pdb s) u = Some x"
        "snd (getCachedUser u s) = s\<lparr>ucache := emap_set (clock (pdb s)) u x (user_ttl s) (ucache s)\<rparr>"
    by (cases "emap_get (clock (pdb s)) u (ucache s)"; cases "findById (pdb s) u"; cases "user_ttl s > 0")
       (auto simp: getCachedUser_def Let_def)
  then show "users_fresh (snd (getCachedUser u s))"
  proof cases
    case 2
    show ?thesis
      unfolding users_fresh_def 2(2)
    proof (intro allI impI)
      fix t j y
      assume "emap_get t j (ucache (s\<lparr>ucache := emap_set (clock (pdb s)) u x (user_ttl s) (ucache s)\<rparr>)) = Some y"
      then have "j = u \<and> y = x \<or> emap_get t j (ucache s) = Some y" using only by simp
      then show "findById (pdb (s\<lparr>ucache := emap_set (clock (pdb s)) u x (user_ttl s) (ucache s)\<rparr>)) j = Some y"
        using 2(1) assms by (auto simp: users_fresh_def)
    qed
  qed (use assms in simp)
qed

definition rows_fresh :: "perm_state \<Rightarrow> bool" where
  "rows_fresh s \<longleftrightarrow> em.coherent (listPathAndFilePermissions (pdb s)) (pcache s)"

lemma getUserPermissions_fresh:
  assumes "rows_fresh s"
  shows "fst (getUserPermissions u s) = listPathAndFilePermissions (pdb s) u"
    and "rows_fresh (snd (getUserPermissions u s))"
proof -
  show "fst (getUserPermissions u s) = listPathAndFilePermissions (pdb s) u"
    using assms by (auto simp: getUserPermissions_def rows_fresh_def em.coherent_def Let_def split: option.splits)
  show "rows_fresh (snd (getUserPermissions u s))"
    using assms em.coherent_store em.coherent_evict [of "listPathAndFilePermissions (pdb s)"]
    by (auto simp: getUserPermissions_def rows_fresh_def Let_def split: option.splits)
qed

lemma rows_fresh_drop:
  assumes "rows_fresh s" "\<And>v. v \<noteq> u \<Longrightarrow> listPathAndFilePermissions d v = listPathAndFilePermissions (pdb s) v"
  shows "rows_fresh (drop_user u (s\<lparr>pdb := d\<rparr>))"
  using em.coherent_evict [of "listPathAndFilePermissions (pdb s)" "pcache s" u "listPathAndFilePermissions d"]
    assms by (simp add: rows_fresh_def drop_user_def)

lemma rows_fresh_invalidate [simp]: "rows_fresh (invalidate t s) = rows_fresh s"
  by (simp add: rows_fresh_def invalidate_def)

lemma grants_of_upsert:
  "v \<noteq> u \<Longrightarrow> grants_of (upsert_grant u n p gs) v = grants_of gs v"
proof -
  assume v: "v \<noteq> u"
  have "filter (\<lambda>g. guser g = v) (update_where (\<lambda>g. guser g = u \<and> gnode g = n) (\<lambda>g. g\<lparr>gperm := p\<rparr>) gs)
      = filter (\<lambda>g. guser g = v) gs"
    using v by (induction gs) (auto simp: update_where_def)
  then show ?thesis using v by (simp add: upsert_grant_def grants_of_def)
qed

lemma grants_of_delete:
  assumes "\<And>g. P g \<Longrightarrow> guser g = u" "v \<noteq> u"
  shows "grants_of (delete_where P gs) v = grants_of gs v"
proof -
  have "filter (\<lambda>g. guser g = v) (delete_where P gs) = filter (\<lambda>g. guser g = v) gs"
    unfolding delete_where_def filter_filter using assms by (intro filter_cong) auto
  then show ?thesis by (simp add: grants_of_def)
qed

lemma grants_of_delete_user:
  "v \<noteq> u \<Longrightarrow> grants_of (delete_where (\<lambda>g. guser g = u) gs) v = grants_of gs v"
  "v \<noteq> u \<Longrightarrow> grants_of (delete_where (\<lambda>g. guser g = u \<and> Q g) gs) v = grants_of gs v"
  by (rule grants_of_delete; simp)+

text \<open>Every service of the store, other changes of the database that leave the grants alone, and time.\<close>

inductive store_step :: "perm_state \<Rightarrow> perm_state \<Rightarrow> bool" where
  path_granted: "store_step s (snd (grant_path u n p s))"
| path_revoked: "store_step s (snd (revoke_path u n s))"
| all_revoked: "store_step s (snd (revokeAllUserPermissions u s))"
| file_granted: "store_step s (snd (grantFilePermission u n q s))"
| file_revoked: "store_step s (snd (revokeFilePermission u n s))"
| own_removed: "store_step s (snd (removeOwnSubtreePermissions u n s))"
| subtree_revoked: "store_step s (snd (revokeUserSubtreePermissions u n s))"
| listed: "store_step s (snd (getUserPermissions u s))"
| checked: "store_step s (snd (checkPermission n pr act dir s))"
| elsewhere: "user_paths d = user_paths (pdb s) \<Longrightarrow> user_files d = user_files (pdb s) \<Longrightarrow>
    store_step s (s\<lparr>pdb := d\<rparr>)"

lemma list_cong:
  "user_paths d = user_paths e \<Longrightarrow> user_files d = user_files e \<Longrightarrow>
   listPathAndFilePermissions d = listPathAndFilePermissions e"
  by (auto simp: listPathAndFilePermissions_def)

lemmas store_defs = grant_path_def revoke_path_def revokeAllUserPermissions_def grantFilePermission_def
  revokeFilePermission_def removeOwnSubtreePermissions_def revokeUserSubtreePermissions_def
  seqs_def lift_db_def updates_def ret_def throw_def

lemmas repo_write_defs = upsertPathPermission_def deletePathPermission_def deleteAllUserPermissions_def
  upsertFilePermission_def deleteFilePermission_def deleteOwnSubtreePermissions_def
  deleteUserSubtreePermissions_def

lemma rows_fresh_write:
  assumes "rows_fresh s"
  shows "rows_fresh (snd (grant_path u n p s))" "rows_fresh (snd (revoke_path u n s))"
    "rows_fresh (snd (revokeAllUserPermissions u s))" "rows_fresh (snd (grantFilePermission u n q s))"
    "rows_fresh (snd (revokeFilePermission u n s))" "rows_fresh (snd (removeOwnSubtreePermissions u n s))"
    "rows_fresh (snd (revokeUserSubtreePermissions u n s))"
  using assms
  by (auto simp: store_defs repo_write_defs Let_def listPathAndFilePermissions_def grants_of_upsert
      grants_of_delete_user intro!: rows_fresh_drop split: option.splits)

lemma acl_check_state:
  "pdb (snd (checkPermission n pr act dir s)) = pdb s \<and> pcache (snd (checkPermission n pr act dir s)) = pcache s"
  by (auto simp: checkPermission_def checkFolderPermission_def checkFilePermission_def getCachedUser_def
      Let_def split: principal.splits option.splits prod.splits)

lemma store_step_fresh: "store_step s t \<Longrightarrow> rows_fresh s \<Longrightarrow> rows_fresh t"
proof (induction rule: store_step.induct)
  case (checked s n pr act dir)
  then show ?case using acl_check_state [of n pr act dir s] by (simp add: rows_fresh_def)
next
  case (elsewhere d s)
  then show ?case using list_cong [of d "pdb s"] by (simp add: rows_fresh_def)
qed (simp_all add: rows_fresh_write getUserPermissions_fresh(2))

lemma reachable_fresh: "store_step\<^sup>*\<^sup>* s t \<Longrightarrow> pcache s = [] \<Longrightarrow> rows_fresh t"
proof (induction rule: rtranclp_induct)
  case base
  then show ?case by (simp add: rows_fresh_def em.coherent_empty)
next
  case (step y z)
  then show ?case using store_step_fresh by blast
qed

section \<open>Decisions\<close>

lemma checkPermission_allowed:
  assumes cl: "closure_ok (pdb s)" and g: "grants_ok (pdb s)" and u: "users_fresh s"
  shows "fst (checkPermission n (User_id v) (perm_name q) isDir s) = allowed (pdb s) v n isDir q"
proof -
  obtain usr t where c: "getCachedUser v s = (usr, t)" by (cases "getCachedUser v s")
  have t: "usr = findById (pdb s) v" "pdb t = pdb s" "users_fresh t"
    using getCachedUser_fresh [OF u, of v] c by simp_all
  obtain usr2 t2 where c2: "getCachedUser v t = (usr2, t2)" by (cases "getCachedUser v t")
  have t2: "usr2 = findById (pdb s) v" "pdb t2 = pdb s"
    using getCachedUser_fresh [OF t(3), of v] c2 t(2) by simp_all
  note path = checkPathPermission_iff [OF cl g, of v n q]
  show ?thesis
    by (auto simp: checkPermission_def checkFolderPermission_def checkFilePermission_def allowed_def
        isSharePrincipal_def c c2 t t2 path meetsRank_names split: option.splits)
qed

lemma allowed_mono:
  assumes "allowed d u n isDir q" "q' \<le> q"
  shows "allowed d u n isDir q'"
proof -
  have "folder_allows d u n q \<Longrightarrow> folder_allows d u n q'"
    using assms(2) by (auto simp: folder_allows_def intro: order_trans)
  then show ?thesis
    using assms
    by (cases isDir; cases "findFilePermission d u n") (auto simp: allowed_def intro: order_trans)
qed

lemma share_nearest:
  assumes cl: "closure_ok d" and g: "grants_ok d"
  shows "findSharePermissionForNode d tok n = Some (p, k) \<longleftrightarrow>
    p = Read \<and> (\<exists>r \<in> set (perm_shares d). stoken r = tok \<and> up d k n = Some (snode r))"
proof -
  let ?gs = "share_grants_of d tok"
  have d: "distinct (map stoken (perm_shares d))" using g by (simp add: grants_ok_def)
  have one: "r = r'" if "r \<in> set (perm_shares d)" "r' \<in> set (perm_shares d)" "stoken r = tok" "stoken r' = tok" for r r'
    using distinct_map_unique [OF d that(1,2)] that(3,4) by simp
  have "length (filter (\<lambda>s. stoken s = tok) (perm_shares d)) \<le> 1"
    using d by (rule filter_key_le_1)
  then have "length ?gs \<le> 1" by (simp add: share_grants_of_def)
  then have dg: "distinct (map fst ?gs)" by (cases ?gs) auto
  have mem: "(a, q) \<in> set ?gs \<longleftrightarrow> (\<exists>r \<in> set (perm_shares d). stoken r = tok \<and> snode r = a \<and> q = Read)" for a q
    using g by (auto simp: share_grants_of_def grants_ok_def)
  have "nearest d ?gs n p k \<longleftrightarrow> p = Read \<and> (\<exists>r \<in> set (perm_shares d). stoken r = tok \<and> up d k n = Some (snode r))"
  proof
    assume "nearest d ?gs n p k"
    then show "p = Read \<and> (\<exists>r \<in> set (perm_shares d). stoken r = tok \<and> up d k n = Some (snode r))"
      using mem by (auto simp: nearest_def)
  next
    assume r: "p = Read \<and> (\<exists>r \<in> set (perm_shares d). stoken r = tok \<and> up d k n = Some (snode r))"
    then obtain r where r: "r \<in> set (perm_shares d)" "stoken r = tok" "up d k n = Some (snode r)" "p = Read"
      by blast
    have "b \<notin> fst ` set ?gs" if j: "j < k" "up d j n = Some b" for j b
    proof
      assume "b \<in> fst ` set ?gs"
      then obtain r' where "r' \<in> set (perm_shares d)" "stoken r' = tok" "snode r' = b" using mem by auto
      then have "b = snode r" using one r by blast
      then have "j = k" using up_inj [OF closure_acyclic [OF cl] j(2)] r(3) by blast
      then show False using j(1) by simp
    qed
    then show "nearest d ?gs n p k" using r mem unfolding nearest_def by blast
  qed
  then show ?thesis using nearest_grant_iff [OF cl dg] by (simp add: findSharePermissionForNode_def)
qed

lemma nearest_cong:
  assumes "\<And>k c. up d k c = up d' k c"
    and "\<And>k a p. up d k n = Some a \<Longrightarrow> (a, p) \<in> set gs \<longleftrightarrow> (a, p) \<in> set gs'"
  shows "nearest d gs n p k = nearest d' gs' n p k"
proof -
  have "a \<in> fst ` set gs \<longleftrightarrow> a \<in> fst ` set gs'" if "up d j n = Some a" for j a
    using assms(2) [OF that] by (force simp: image_iff)
  then show ?thesis using assms unfolding nearest_def by metis
qed

lemma set_upsert:
  assumes "distinct (map (\<lambda>g. (guser g, gnode g)) gs)"
  shows "set (upsert_grant u n p gs)
    = insert \<lparr>guser = u, gnode = n, gperm = p\<rparr> {g \<in> set gs. \<not> (guser g = u \<and> gnode g = n)}"
  by (auto simp: upsert_grant_def set_update_where image_iff)

lemma distinct_upsert:
  assumes "distinct (map (\<lambda>g. (guser g, gnode g)) gs)"
  shows "distinct (map (\<lambda>g. (guser g, gnode g)) (upsert_grant u n p gs))"
  using assms by (auto simp: upsert_grant_def map_update_where)

lemma grants_of_set: "(a, p) \<in> set (grants_of gs u) \<longleftrightarrow> (\<exists>g \<in> set gs. guser g = u \<and> gnode g = a \<and> gperm g = p)"
  by (auto simp: grants_of_def)

lemma effective_iff:
  assumes "closure_ok d" "grants_ok d"
  shows "getPathEffectivePermission d u n = Some p \<longleftrightarrow> (\<exists>k. nearest d (grants_of (user_paths d) u) n p k)"
proof -
  have iff: "findPathPermissionForNode d u n = Some (p, k) \<longleftrightarrow> nearest d (grants_of (user_paths d) u) n p k" for p k
    using nearest_grant_iff [OF assms(1) distinct_grants_of] assms(2)
    by (simp add: findPathPermissionForNode_def grants_ok_def)
  show ?thesis
    unfolding getPathEffectivePermission_def iff [symmetric] by auto
qed

lemma grant_path_effect:
  assumes "tree_ok (pdb s)" "grants_ok (pdb s)" "has_user (pdb s) u" "has_node (pdb s) n"
  shows "fst (grant_path u n p s) = Inr () \<and> grants_ok (pdb (snd (grant_path u n p s))) \<and>
    getPathEffectivePermission (pdb (snd (grant_path u n p s))) u n = Some p \<and>
    (v \<noteq> u \<or> c \<notin> desc_of (pdb s) n \<longrightarrow>
       getPathEffectivePermission (pdb (snd (grant_path u n p s))) v c = getPathEffectivePermission (pdb s) v c)"
proof -
  let ?d = "pdb s"
  define d' where "d' = ?d\<lparr>user_paths := upsert_grant u n p (user_paths ?d)\<rparr>"
  have res: "fst (grant_path u n p s) = Inr ()" "pdb (snd (grant_path u n p s)) = d'"
    using assms(3,4) by (simp_all add: store_defs upsertPathPermission_def d'_def drop_user_def invalidate_def)
  have dp: "distinct (map (\<lambda>g. (guser g, gnode g)) (user_paths ?d))" using assms(2) by (simp add: grants_ok_def)
  have g': "grants_ok d'" using assms(2) distinct_upsert [OF dp] by (simp add: grants_ok_def d'_def)
  have up: "up d' k c = up ?d k c" for k c by (rule up_cong) (simp add: d'_def)
  have cl': "closure_ok d'"
    using tree_okD(2) [OF assms(1)] by (simp add: closure_ok_def anc_set_def up) (simp add: d'_def)
  have up': "user_paths d' = upsert_grant u n p (user_paths ?d)" by (simp add: d'_def)
  have "nearest d' (grants_of (user_paths d') u) n p 0"
    using assms(4) unfolding nearest_def up up' grants_of_set set_upsert [OF dp] by auto
  then have own: "getPathEffectivePermission d' u n = Some p" using effective_iff [OF cl' g'] by blast
  have "getPathEffectivePermission d' v c = getPathEffectivePermission ?d v c"
    if "v \<noteq> u \<or> c \<notin> desc_of ?d n"
  proof -
    have "nearest d' (grants_of (user_paths d') v) c q k = nearest ?d (grants_of (user_paths ?d) v) c q k" for q k
    proof (rule nearest_cong [OF up])
      fix k a r assume "up d' k c = Some a"
      then have "v \<noteq> u \<or> a \<noteq> n" using that by (auto simp: up desc_of_def)
      then show "(a, r) \<in> set (grants_of (user_paths d') v) \<longleftrightarrow> (a, r) \<in> set (grants_of (user_paths ?d) v)"
        unfolding up' grants_of_set set_upsert [OF dp] by auto
    qed
    then have "getPathEffectivePermission d' v c = Some r \<longleftrightarrow> getPathEffectivePermission ?d v c = Some r" for r
      using effective_iff [OF cl' g'] effective_iff [OF tree_okD(2) [OF assms(1)] assms(2)] by simp
    then show ?thesis by (metis not_None_eq)
  qed
  then show ?thesis using res g' own by simp
qed

section \<open>Properties\<close>


definition demo_exist :: exist_index where
  "demo_exist = \<lparr>ex_entries = [], ex_queue = [], ex_version = 0\<rparr>"

definition demo_user :: "nat \<Rightarrow> string \<Rightarrow> bool \<Rightarrow> user" where
  "demo_user i nm adm = \<lparr>uid = i, username = nm, email = nm @ ''@x.y'', password = ''h'',
     ustatus = User_approved, is_admin = adm, token_version = 0,
     ucreated = 0, uupdated = 0\<rparr>"

definition demo_acl :: perm_state where
  "demo_acl = \<lparr>pdb = demo_tree\<lparr>users := [demo_user 7 ''ann'' False, demo_user 8 ''root'' True],
       user_paths := [\<lparr>guser = 7, gnode = 1, gperm = Write\<rparr>, \<lparr>guser = 7, gnode = 2, gperm = Read\<rparr>],
       perm_shares := [\<lparr>stoken = ''tok'', snode = 2, sperm = Read\<rparr>]\<rparr>,
     pcache = [], ucache = [], pexist = demo_exist, cfg_perm_ttl = 5000, cfg_user_ttl = 3000\<rparr>"

lemma demo_acl_ok: "tree_ok (pdb demo_acl)"
proof -
  have "file_nodes (pdb demo_acl) = file_nodes demo_tree" "next_node (pdb demo_acl) = next_node demo_tree"
    "node_ancestors (pdb demo_acl) = node_ancestors demo_tree" by (simp_all add: demo_acl_def)
  then show ?thesis
    using demo_tree_ok nodes_ok_cong [of "pdb demo_acl" demo_tree] up_cong [of "pdb demo_acl" demo_tree]
    by (simp add: tree_ok_def closure_ok_def anc_set_def)
qed

lemma demo_acl_fresh: "grants_ok (pdb demo_acl)" "users_fresh demo_acl"
proof -
  show "grants_ok (pdb demo_acl)" by code_simp
  show "users_fresh demo_acl" by (simp add: users_fresh_def demo_acl_def emap_get_def)
qed


text \<open>
  C2: The decision of \<open>checkPermission\<close> for a user: administrators pass; else, for a file, a grant on the
  file itself decides alone; else the nearest folder grant on the way up decides alone, so a nearer
  weaker grant hides a farther stronger one. An unknown user is refused, and a permitted action
  permits every weaker one.
\<close>

theorem access_decision:
  assumes "tree_ok (pdb s)" "grants_ok (pdb s)" "users_fresh s"
  shows "fst (checkPermission n (User_id v) (perm_name q) isDir s) = allowed (pdb s) v n isDir q \<and>
    (fst (checkPermission n (User_id v) (perm_name q) isDir s) \<longrightarrow> q' \<le> q \<longrightarrow>
     fst (checkPermission n (User_id v) (perm_name q') isDir s))"
  using checkPermission_allowed [OF tree_okD(2) [OF assms(1)] assms(2,3)] allowed_mono by metis

theorem access_decision_witness:
  "fst (checkPermission 1 (User_id 7) ''write'' True demo_acl) \<and>
   \<not> fst (checkPermission 3 (User_id 7) ''write'' False demo_acl) \<and>
   \<not> allowed (pdb demo_acl) 7 3 False Write"
proof -
  have "fst (checkPermission 1 (User_id 7) ''write'' True demo_acl)"
    "\<not> fst (checkPermission 3 (User_id 7) ''write'' False demo_acl)" by code_simp+
  then show ?thesis
    using access_decision [OF demo_acl_ok demo_acl_fresh, of 3 7 Write False Read] by simp
qed

text \<open>
  A share link gives access to the shared node and what lies below it, and nothing else; it never
  gives write or admin access.
\<close>

theorem share_scope:
  assumes "tree_ok (pdb s)" "grants_ok (pdb s)"
  shows "fst (checkPermission n (Principal_string (''share:'' @ tok)) (perm_name q) isDir s) \<longleftrightarrow>
    q = Read \<and> tok \<noteq> [] \<and> (\<exists>r \<in> set (perm_shares (pdb s)). stoken r = tok \<and> n \<in> desc_of (pdb s) (snode r))"
proof -
  have ext: "extractShareToken (Principal_string (''share:'' @ tok)) = Some tok"
    "isSharePrincipal (Principal_string (''share:'' @ tok))"
    by (simp_all add: extractShareToken_def isSharePrincipal_def)
  note sn = share_nearest [OF tree_okD(2) [OF assms(1)] assms(2), of tok n]
  have "checkSharePermission (pdb s) tok n (perm_name q) \<longleftrightarrow>
      q = Read \<and> (\<exists>r \<in> set (perm_shares (pdb s)). stoken r = tok \<and> n \<in> desc_of (pdb s) (snode r))"
  proof (cases "findSharePermissionForNode (pdb s) tok n")
    case None
    then show ?thesis using sn by (auto simp: checkSharePermission_def desc_of_def)
  next
    case (Some pk)
    then obtain k where k: "findSharePermissionForNode (pdb s) tok n = Some (Read, k)"
      using sn by (cases pk) auto
    then have "\<exists>r \<in> set (perm_shares (pdb s)). stoken r = tok \<and> n \<in> desc_of (pdb s) (snode r)"
      using sn by (auto simp: desc_of_def)
    moreover have "q \<le> Read \<longleftrightarrow> q = Read" by (cases q) (auto simp: less_eq_permission_def)
    ultimately show ?thesis
      using k meetsRank_names [of Read q] by (simp add: checkSharePermission_def)
  qed
  then show ?thesis using ext by (auto simp: checkPermission_def check_share_def)
qed

theorem share_scope_witness:
  "fst (checkPermission 3 (Principal_string ''share:tok'') ''read'' False demo_acl) \<and>
   \<not> fst (checkPermission 3 (Principal_string ''share:tok'') ''write'' False demo_acl)"
proof -
  have r: "fst (checkPermission 3 (Principal_string (''share:'' @ ''tok'')) ''read'' False demo_acl)"
    by code_simp
  show ?thesis
    using share_scope [OF demo_acl_ok demo_acl_fresh(1), of 3 "''tok''" Write False] r by simp
qed

text \<open>
  A grant on a folder takes effect at once and only below it: the grantee's effective permission on
  the folder becomes the granted one (even if that is weaker than before), and no other user and no
  node outside the subtree is affected.
\<close>

theorem grant_effect:
  assumes "tree_ok (pdb s)" "grants_ok (pdb s)" "has_user (pdb s) u" "has_node (pdb s) n"
  shows "fst (grant_path u n p s) = Inr () \<and> grants_ok (pdb (snd (grant_path u n p s))) \<and>
    getPathEffectivePermission (pdb (snd (grant_path u n p s))) u n = Some p \<and>
    (v \<noteq> u \<or> c \<notin> desc_of (pdb s) n \<longrightarrow>
       getPathEffectivePermission (pdb (snd (grant_path u n p s))) v c = getPathEffectivePermission (pdb s) v c)"
  by (rule grant_path_effect [OF assms])

theorem grant_effect_witness:
  "getPathEffectivePermission (pdb (snd (grant_path 7 1 Read demo_acl))) 7 1 = Some Read"
proof -
  have "has_user (pdb demo_acl) 7" "has_node (pdb demo_acl) 1" by code_simp+
  then show ?thesis using grant_effect [OF demo_acl_ok demo_acl_fresh(1), of 7 1 Read] by blast
qed

text \<open>
  Who may grant on a node: a user that exists and is an administrator, or whose home folder the node
  lies in, or whose nearest folder grant is admin. Revoking is open to the same users and to the
  grantee.
\<close>

theorem grant_authority:
  assumes "tree_ok d" "grants_ok d"
  shows "(canGrantPermissionNode d u n \<longleftrightarrow> (\<exists>x. findById d u = Some x \<and>
      (is_admin x \<or> (\<exists>r. getUserRootNode d u = Some r \<and> n \<in> desc_of d (v_id r)) \<or> folder_allows d u n Admin))) \<and>
    (canRevokePermissionNode d u n w \<longleftrightarrow>
      canGrantPermissionNode d u n \<or> (u = w \<and> findById d u \<noteq> None)) \<and>
    (canViewPermissionsNode d u n \<longleftrightarrow> canGrantPermissionNode d u n)"
proof -
  have anc: "isAncestor d a n \<longleftrightarrow> n \<in> desc_of d a" for a
    using descendants_closure [OF tree_okD(2) [OF assms(1)], of a]
    by (auto simp: isAncestor_iff set_getDescendantIds)
  have root: "has_node d (v_id r)" if "getUserRootNode d u = Some r" for r
    using that by (auto simp: getUserRootNode_def has_node_def split: option.splits if_splits dest!: first_row_in)
  have own: "isOwnerNode d u n \<longleftrightarrow> (\<exists>x. findById d u = Some x \<and> is_admin x) \<or>
      (\<exists>r. getUserRootNode d u = Some r \<and> n \<in> desc_of d (v_id r))"
    using root desc_of_self by (auto simp: isOwnerNode_def anc split: option.splits)
  have "checkPathPermission d u n ''admin'' \<longleftrightarrow> folder_allows d u n Admin"
    using checkPathPermission_iff [OF tree_okD(2) [OF assms(1)] assms(2), of u n Admin] by simp
  then show ?thesis
    by (cases "findById d u")
       (auto simp: canGrantPermissionNode_def canRevokePermissionNode_def canViewPermissionsNode_def own)
qed

theorem grant_authority_witness:
  "\<not> canGrantPermissionNode (pdb demo_acl) 7 2 \<and> canGrantPermissionNode (pdb demo_acl) 8 2"
proof -
  have "\<not> canGrantPermissionNode (pdb demo_acl) 7 2" by code_simp
  moreover have "findById (pdb demo_acl) 8 = Some (demo_user 8 ''root'' True)"
    "is_admin (demo_user 8 ''root'' True)" by code_simp+
  ultimately show ?thesis using grant_authority [OF demo_acl_ok demo_acl_fresh(1), of 8 2 8] by blast
qed

end
