(* ===== verification/Requests.thy ===== *)
theory Requests
  imports AclLaws
begin

text \<open>
  Permission requests: \<open>PermissionRequestRepository.sqlite.js\<close>, \<open>permissionRequestStore.js\<close> and the
  handlers of \<open>routes/permissionRequests.js\<close>. A request is pending until its owner approves or
  rejects it or its requester cancels it; an approval grants the requested permission.
\<close>

section \<open>Repository and store\<close>

definition pending_key :: "request \<Rightarrow> nat \<times> nat \<times> permission \<times> nat" where
  "pending_key r = (rrequester r, rowner r, rperm r, rnode r)"

definition insertPendingRequest ::
  "nat \<Rightarrow> string \<Rightarrow> nat \<Rightarrow> string \<Rightarrow> nat \<Rightarrow> permission \<Rightarrow> string \<Rightarrow> (db, request) service" where
  "insertPendingRequest requester requesterName owner ownerName n p message d =
     (let row = \<lparr>rid = next_request d, rrequester = requester, rrequester_name = requesterName,
                 rowner = owner, rowner_name = ownerName, rnode = n, rperm = p, rstatus = Req_pending,
                 rmessage = message, rcreated = datetime_now d, rresolved_at = None, rresolved_by = None\<rparr>
      in case first_row (sort_key (\<lambda>r. - rcreated r)
                (filter (\<lambda>r. pending_key r = (requester, owner, p, n) \<and> rstatus r = Req_pending) (requests d))) of
           Some r \<Rightarrow> (Inr r, d)
         | None \<Rightarrow>
             (if \<not> has_user d requester \<or> \<not> has_user d owner \<or> \<not> has_node d n
              then (Inl (mapDatabaseError fk_failed), d)
              else (Inr row, d\<lparr>requests := requests d @ [row], next_request := Suc (next_request d)\<rparr>)))"

text \<open>The join with \<open>file_nodes\<close> adds the type of the target.\<close>

definition with_target :: "db \<Rightarrow> request list \<Rightarrow> (request \<times> node_type) list" where
  "with_target d rs = List.map_filter (\<lambda>r. map_option (\<lambda>n. (r, ntype n)) (node_row d (rnode r))) rs"

definition request_getById :: "db \<Rightarrow> nat \<Rightarrow> (request \<times> node_type) option" where
  "request_getById d i = first_row (with_target d (filter (\<lambda>r. rid r = i) (requests d)))"

definition listByOwner :: "db \<Rightarrow> nat \<Rightarrow> request_status option \<Rightarrow> (request \<times> node_type) list" where
  "listByOwner d u st = with_target d (sort_key (\<lambda>r. - rcreated r)
     (filter (\<lambda>r. rowner r = u \<and> (st = None \<or> st = Some (rstatus r))) (requests d)))"

definition listByRequester :: "db \<Rightarrow> nat \<Rightarrow> request_status option \<Rightarrow> (request \<times> node_type) list" where
  "listByRequester d u st = with_target d (sort_key (\<lambda>r. - rcreated r)
     (filter (\<lambda>r. rrequester r = u \<and> (st = None \<or> st = Some (rstatus r))) (requests d)))"

definition request_error :: "string \<Rightarrow> nat \<Rightarrow> err" where
  "request_error key st = Err (''serverErrors.permissionRequests.'' @ key) st"

definition set_status :: "request_status \<Rightarrow> nat option \<Rightarrow> int \<Rightarrow> request \<Rightarrow> request" where
  "set_status st by now r =
     r\<lparr>rstatus := st,
       rresolved_at := (if st = Req_pending then None else Some now),
       rresolved_by := (if st = Req_pending then None else by)\<rparr>"

definition updateStatusRow :: "nat \<Rightarrow> request_status \<Rightarrow> nat option \<Rightarrow> (db, request) service" where
  "updateStatusRow i st by d =
     (case first_row (filter (\<lambda>r. rid r = i) (requests d)) of
        None \<Rightarrow> (Inl (request_error ''requestNotFound'' 404), d)
      | Some r \<Rightarrow> (Inr (set_status st by (datetime_now d) r),
                  d\<lparr>requests := update_where (\<lambda>r. rid r = i) (set_status st by (datetime_now d)) (requests d)\<rparr>))"

definition deleteByRequesterId :: "nat \<Rightarrow> (db, nat) service" where
  "deleteByRequesterId u d =
     (Inr (count_where (\<lambda>r. rrequester r = u) (requests d)),
      d\<lparr>requests := delete_where (\<lambda>r. rrequester r = u) (requests d)\<rparr>)"

definition rejectPendingByOwnerId :: "nat \<Rightarrow> nat option \<Rightarrow> (db, nat) service" where
  "rejectPendingByOwnerId u by d =
     (Inr (count_where (\<lambda>r. rowner r = u \<and> rstatus r = Req_pending) (requests d)),
      d\<lparr>requests := update_where (\<lambda>r. rowner r = u \<and> rstatus r = Req_pending)
           (set_status Req_rejected by (datetime_now d)) (requests d)\<rparr>)"

fun normalizePermission :: "string \<Rightarrow> permission option" where
  "normalizePermission p = (if p = ''read'' then Some Read else if p = ''write'' then Some Write else None)"

text \<open>\<open>createRequest\<close>: a node id of 0 counts as missing.\<close>

definition createRequest ::
  "nat \<Rightarrow> string \<Rightarrow> nat \<Rightarrow> string \<Rightarrow> nat \<Rightarrow> string \<Rightarrow> string \<Rightarrow> (db, request) service" where
  "createRequest requester requesterName owner ownerName n p message =
     (case normalizePermission p of
        None \<Rightarrow> throw (request_error ''invalidPermission'' 400)
      | Some q \<Rightarrow>
          (if n = 0 then throw (request_error ''folderOrFileRequired'' 400)
           else insertPendingRequest requester requesterName owner ownerName n q message))"

section \<open>Routes\<close>

definition findByUsername :: "db \<Rightarrow> string \<Rightarrow> user option" where
  "findByUsername d nm = first_row (filter (\<lambda>x. username x = nm) (users d))"

text \<open>From the farthest ancestor on: the first live top-level folder decides.\<close>

fun owner_walk :: "db \<Rightarrow> (nat \<times> nat) list \<Rightarrow> user option" where
  "owner_walk d [] = None"
| "owner_walk d ((a, k) # rest) =
     (case getNode d a of
        None \<Rightarrow> owner_walk d rest
      | Some v \<Rightarrow> (if v_parentId v = None then findByUsername d (v_name v) else owner_walk d rest))"

definition resolveNodeOwner :: "db \<Rightarrow> nat \<Rightarrow> user option" where
  "resolveNodeOwner d n = owner_walk d (getAncestorChain d n)"

definition node_not_found :: err where
  "node_not_found = Err ''serverErrors.webdav.fileOrFolderNotFound'' 404"

text \<open>\<open>POST /\<close>: \<open>target\<close> is \<open>nodeId || fileNodeId\<close>.\<close>

definition post_request :: "nat \<Rightarrow> nat option \<Rightarrow> string \<Rightarrow> string \<Rightarrow> (perm_state, request) service" where
  "post_request caller target permission message =
     seqs (guard (target \<noteq> None) (request_error ''folderOrFileRequired'' 400)) (\<lambda>_.
     (let n = the target in
     (case normalizePermission permission of
        None \<Rightarrow> throw (request_error ''invalidPermission'' 400)
      | Some p \<Rightarrow>
     seqs (reads (\<lambda>s. getNode (pdb s) n)) (\<lambda>node.
     seqs (guard (node \<noteq> None) node_not_found) (\<lambda>_.
     seqs (reads (\<lambda>s. findById (pdb s) caller)) (\<lambda>requester.
     seqs (guard (requester \<noteq> None) (request_error ''userNotFound'' 403)) (\<lambda>_.
     seqs (reads (\<lambda>s. resolveNodeOwner (pdb s) n)) (\<lambda>owner.
     seqs (guard (owner \<noteq> None) (request_error ''invalidPathOwner'' 400)) (\<lambda>_.
     seqs (guard (uid (the owner) \<noteq> uid (the requester)) (request_error ''ownPath'' 400)) (\<lambda>_.
       lift_db (createRequest (uid (the requester)) (username (the requester))
         (uid (the owner)) (username (the owner)) n permission message)))))))))))"

definition post_approve :: "nat \<Rightarrow> nat \<Rightarrow> (perm_state, request) service" where
  "post_approve caller i =
     seqs (reads (\<lambda>s. request_getById (pdb s) i)) (\<lambda>found.
     seqs (guard (found \<noteq> None) (request_error ''requestNotFound'' 404)) (\<lambda>_.
     (let pr = fst (the found) in
     seqs (guard (rowner pr = caller) (request_error ''accessDenied'' 403)) (\<lambda>_.
     seqs (guard (rstatus pr = Req_pending) (request_error ''onlyPendingApprove'' 400)) (\<lambda>_.
     seqs (reads (\<lambda>s. getNode (pdb s) (rnode pr))) (\<lambda>node.
     seqs (guard (node \<noteq> None) node_not_found) (\<lambda>_.
     seqs (if v_type (the node) = File then grantFilePermission (rrequester pr) (rnode pr) (perm_name (rperm pr))
           else grant_path (rrequester pr) (rnode pr) (rperm pr)) (\<lambda>_.
       lift_db (updateStatusRow i Req_approved (Some caller))))))))))"

definition post_reject :: "nat \<Rightarrow> nat \<Rightarrow> (perm_state, request) service" where
  "post_reject caller i =
     seqs (reads (\<lambda>s. request_getById (pdb s) i)) (\<lambda>found.
     seqs (guard (found \<noteq> None) (request_error ''requestNotFound'' 404)) (\<lambda>_.
     (let pr = fst (the found) in
     seqs (guard (rowner pr = caller) (request_error ''accessDenied'' 403)) (\<lambda>_.
     seqs (guard (rstatus pr = Req_pending) (request_error ''onlyPendingApprove'' 400)) (\<lambda>_.
       lift_db (updateStatusRow i Req_rejected (Some caller)))))))"

definition post_cancel :: "nat \<Rightarrow> nat \<Rightarrow> (perm_state, request) service" where
  "post_cancel caller i =
     seqs (reads (\<lambda>s. request_getById (pdb s) i)) (\<lambda>found.
     seqs (guard (found \<noteq> None) (request_error ''requestNotFound'' 404)) (\<lambda>_.
     (let pr = fst (the found) in
     seqs (guard (rrequester pr = caller) (request_error ''accessDenied'' 403)) (\<lambda>_.
     seqs (guard (rstatus pr = Req_pending) (request_error ''onlyPendingApprove'' 400)) (\<lambda>_.
       lift_db (updateStatusRow i Req_cancelled (Some caller)))))))"

definition get_check_owner :: "db \<Rightarrow> nat \<Rightarrow> string option" where
  "get_check_owner d n =
     (case getNode d n of None \<Rightarrow> None | Some v \<Rightarrow> map_option username (resolveNodeOwner d n))"

section \<open>Laws\<close>

definition requests_ok :: "db \<Rightarrow> bool" where
  "requests_ok d \<longleftrightarrow> distinct (map rid (requests d)) \<and>
     distinct (map pending_key (filter (\<lambda>r. rstatus r = Req_pending) (requests d))) \<and>
     (\<forall>r \<in> set (requests d). rid r < next_request d \<and> rperm r \<noteq> Admin)"

text \<open>One step of the request life cycle, with the state it starts from.\<close>

inductive request_step :: "perm_state \<Rightarrow> perm_state \<Rightarrow> bool" where
  posted: "request_step s (snd (post_request caller target p msg s))"
| approved: "request_step s (snd (post_approve caller i s))"
| rejected: "request_step s (snd (post_reject caller i s))"
| cancelled: "request_step s (snd (post_cancel caller i s))"
| owner_left: "request_step s (snd (lift_db (rejectPendingByOwnerId u by) s))"

lemma first_row_with_target:
  assumes "first_row (with_target d xs) = Some (r, t)"
  shows "r \<in> set xs"
  using first_row_in [OF assms] by (auto simp: with_target_def List.map_filter_def)

lemma request_getById_in: "request_getById d i = Some (r, t) \<Longrightarrow> r \<in> set (requests d) \<and> rid r = i"
  unfolding request_getById_def by (auto dest: first_row_with_target)

lemma grant_path_requests: "requests (pdb (snd (grant_path u n p s))) = requests (pdb s)"
  "requests (pdb (snd (grantFilePermission u n q s))) = requests (pdb s)"
  by (auto simp: store_defs repo_write_defs drop_user_def invalidate_def split: option.splits)

text \<open>The three resolving routes: nothing happens, or one pending row is resolved.\<close>

definition resolves :: "db \<Rightarrow> db \<Rightarrow> nat \<Rightarrow> request_status \<Rightarrow> nat \<Rightarrow> bool" where
  "resolves d d' i st caller \<longleftrightarrow> requests d' = requests d \<or>
     (\<exists>r t now. request_getById d i = Some (r, t) \<and> rstatus r = Req_pending \<and>
        requests d' = update_where (\<lambda>r. rid r = i) (set_status st (Some caller) now) (requests d))"

lemmas route_defs = seqs_def reads_def guard_def throw_def ret_def Let_def

lemma updateStatusRow_requests:
  "requests (snd (updateStatusRow i st by d)) = requests d \<or>
   requests (snd (updateStatusRow i st by d))
     = update_where (\<lambda>r. rid r = i) (set_status st by (datetime_now d)) (requests d)"
  by (auto simp: updateStatusRow_def split: option.splits)

lemma reject_resolves: "resolves (pdb s) (pdb (snd (post_reject caller i s))) i Req_rejected caller"
  using updateStatusRow_requests [of i Req_rejected "Some caller" "pdb s"]
  by (cases "request_getById (pdb s) i")
     (auto simp: post_reject_def route_defs resolves_def lift_db_def split: prod.splits)

lemma cancel_resolves: "resolves (pdb s) (pdb (snd (post_cancel caller i s))) i Req_cancelled caller"
  using updateStatusRow_requests [of i Req_cancelled "Some caller" "pdb s"]
  by (cases "request_getById (pdb s) i")
     (auto simp: post_cancel_def route_defs resolves_def lift_db_def split: prod.splits)

lemma approve_success:
  assumes "post_approve caller i s = (Inr r', s')"
  obtains r t v where "request_getById (pdb s) i = Some (r, t)" "rowner r = caller"
    "rstatus r = Req_pending" "getNode (pdb s) (rnode r) = Some v"
    "fst (if v_type v = File then grantFilePermission (rrequester r) (rnode r) (perm_name (rperm r)) s
          else grant_path (rrequester r) (rnode r) (rperm r) s) = Inr ()"
    "(Inr r', pdb s') = updateStatusRow i Req_approved (Some caller)
       (pdb (snd (if v_type v = File then grantFilePermission (rrequester r) (rnode r) (perm_name (rperm r)) s
                  else grant_path (rrequester r) (rnode r) (rperm r) s)))"
  using assms that
  by (auto simp: post_approve_def route_defs lift_db_def split: option.splits if_splits prod.splits sum.splits)

lemma approve_failure:
  assumes "fst (post_approve caller i s) = Inl e"
  shows "requests (pdb (snd (post_approve caller i s))) = requests (pdb s)"
  using assms grant_path_requests
  by (auto simp: post_approve_def route_defs lift_db_def updateStatusRow_def
      split: option.splits if_splits prod.splits sum.splits)
     (metis snd_conv)+

lemma approve_resolves: "resolves (pdb s) (pdb (snd (post_approve caller i s))) i Req_approved caller"
proof (cases "post_approve caller i s")
  case (Pair res s')
  show ?thesis
  proof (cases res)
    case (Inl e)
    then show ?thesis using approve_failure [of caller i s e] Pair by (simp add: resolves_def)
  next
    case (Inr r')
    with Pair have "post_approve caller i s = (Inr r', s')" by simp
    then show ?thesis
    proof (rule approve_success)
      fix r :: request and t :: node_type and v :: node_view
      let ?g = "if v_type v = File then grantFilePermission (rrequester r) (rnode r) (perm_name (rperm r)) s
          else grant_path (rrequester r) (rnode r) (rperm r) s"
      assume "request_getById (pdb s) i = Some (r, t)" "rstatus r = Req_pending"
        and u: "(Inr r', pdb s') = updateStatusRow i Req_approved (Some caller) (pdb (snd ?g))"
      moreover have "requests (pdb (snd ?g)) = requests (pdb s)" by (simp add: grant_path_requests)
      ultimately show ?thesis
        using updateStatusRow_requests [of i Req_approved "Some caller" "pdb (snd ?g)"] Pair
        unfolding resolves_def by (metis snd_conv)
    qed
  qed
qed

lemma requests_ok_resolve:
  assumes "requests_ok d" "next_request d' = next_request d"
    and "requests d' = update_where (\<lambda>r. rid r = i) (set_status st by now) (requests d)" and st: "st \<noteq> Req_pending"
  shows "requests_ok d'"
proof -
  have ids: "map rid (requests d') = map rid (requests d)"
    using assms(3) by (simp add: map_update_where set_status_def)
  have pend: "filter (\<lambda>r. rstatus r = Req_pending) (update_where (\<lambda>r. rid r = i) (set_status st by now) rs)
      = filter (\<lambda>r. rid r \<noteq> i) (filter (\<lambda>r. rstatus r = Req_pending) rs)" for rs
    using st by (induction rs) (auto simp: update_where_def set_status_def)
  have "distinct (map pending_key (filter (\<lambda>r. rstatus r = Req_pending) (requests d')))"
    unfolding assms(3) pend
    by (rule distinct_map_filter) (use assms(1) in \<open>simp add: requests_ok_def\<close>)
  moreover have "\<forall>r \<in> set (requests d'). rid r < next_request d' \<and> rperm r \<noteq> Admin"
    using assms(1,2) unfolding assms(3) requests_ok_def by (auto simp: set_update_where set_status_def)
  ultimately show ?thesis using assms(1) ids by (simp add: requests_ok_def)
qed

lemma requests_ok_insert:
  assumes "requests_ok d" "p \<noteq> Admin"
  shows "requests_ok (snd (insertPendingRequest u un w wn n p msg d)) \<and>
    set (requests d) \<subseteq> set (requests (snd (insertPendingRequest u un w wn n p msg d)))"
proof -
  let ?pend = "filter (\<lambda>r. pending_key r = (u, w, p, n) \<and> rstatus r = Req_pending) (requests d)"
  show ?thesis
  proof (cases "first_row (sort_key (\<lambda>r. - rcreated r) ?pend)")
    case (Some r)
    then show ?thesis using assms(1) by (simp add: insertPendingRequest_def)
  next
    case None
    then have "?pend = []" by (simp only: first_row_None sort_key_empty)
    then have fresh: "(u, w, p, n) \<notin> pending_key ` set (filter (\<lambda>r. rstatus r = Req_pending) (requests d))"
      by (auto simp: filter_empty_conv)
    have "next_request d \<notin> rid ` set (requests d)" using assms(1) by (auto simp: requests_ok_def)
    then have "requests_ok (d\<lparr>requests := requests d @ [row], next_request := Suc (next_request d)\<rparr>)"
      if "rid row = next_request d" "pending_key row = (u, w, p, n)" "rperm row \<noteq> Admin" for row
      using assms(1) fresh that by (simp add: requests_ok_def) (auto simp: less_Suc_eq)
    from this [of "\<lparr>rid = next_request d, rrequester = u, rrequester_name = un, rowner = w,
        rowner_name = wn, rnode = n, rperm = p, rstatus = Req_pending, rmessage = msg,
        rcreated = datetime_now d, rresolved_at = None, rresolved_by = None\<rparr>"]
    show ?thesis
      using assms None by (simp add: insertPendingRequest_def pending_key_def Let_def) auto
  qed
qed

lemma lift_db_pdb: "pdb (snd (lift_db m s)) = snd (m (pdb s))"
  by (simp add: lift_db_def split: prod.splits)

lemma createRequest_state:
  "snd (createRequest u un w wn n p msg d) = d \<or>
   (\<exists>q. q \<noteq> Admin \<and> snd (createRequest u un w wn n p msg d) = snd (insertPendingRequest u un w wn n q msg d))"
proof (cases "normalizePermission p")
  case None
  then show ?thesis by (simp add: createRequest_def throw_def del: normalizePermission.simps)
next
  case (Some q)
  then have "q \<noteq> Admin" by (auto split: if_splits)
  then show ?thesis
    using Some by (auto simp: createRequest_def throw_def simp del: normalizePermission.simps)
qed

lemma post_request_calls:
  "snd (post_request caller target p msg s) = s \<or>
   (\<exists>u un w wn n. snd (post_request caller target p msg s) = snd (lift_db (createRequest u un w wn n p msg) s))"
proof (cases "target = None \<or> normalizePermission p = None")
  case True
  then show ?thesis
    by (auto simp: post_request_def service_simps throw_def Let_def simp del: normalizePermission.simps)
next
  case False
  then obtain n q where "target = Some n" "normalizePermission p = Some q" by auto
  then show ?thesis
    by (simp add: post_request_def service_simps Let_def del: normalizePermission.simps) blast
qed

lemma post_request_state:
  "pdb (snd (post_request caller target p msg s)) = pdb s \<or>
   (\<exists>u un w wn n q. q \<noteq> Admin \<and>
      pdb (snd (post_request caller target p msg s)) = snd (insertPendingRequest u un w wn n q msg (pdb s)))"
proof -
  consider "snd (post_request caller target p msg s) = s"
    | u un w wn n where "snd (post_request caller target p msg s) = snd (lift_db (createRequest u un w wn n p msg) s)"
    using post_request_calls [of caller target p msg s] by blast
  then show ?thesis
  proof cases
    case 2
    then show ?thesis
      using createRequest_state [of u un w wn n p msg "pdb s"] by (simp add: lift_db_pdb) blast
  qed simp
qed

lemma effective_cong:
  assumes "user_paths d = user_paths e" "node_ancestors d = node_ancestors e"
  shows "getPathEffectivePermission d = getPathEffectivePermission e"
  using assms
  by (intro ext) (simp add: getPathEffectivePermission_def findPathPermissionForNode_def nearest_grant_def
      ancestor_grants_def)

lemma resolves_next: "next_request (snd (updateStatusRow i st by d)) = next_request d"
  by (auto simp: updateStatusRow_def split: option.splits)

lemma grant_next: "next_request (pdb (snd (grant_path u n p s))) = next_request (pdb s)"
  "next_request (pdb (snd (grantFilePermission u n q s))) = next_request (pdb s)"
  by (auto simp: store_defs repo_write_defs drop_user_def invalidate_def split: option.splits)

lemma route_next:
  "next_request (pdb (snd (post_approve caller i s))) = next_request (pdb s)"
  "next_request (pdb (snd (post_reject caller i s))) = next_request (pdb s)"
  "next_request (pdb (snd (post_cancel caller i s))) = next_request (pdb s)"
proof -
  show "next_request (pdb (snd (post_reject caller i s))) = next_request (pdb s)"
    "next_request (pdb (snd (post_cancel caller i s))) = next_request (pdb s)"
    using resolves_next
    by (auto simp: post_reject_def post_cancel_def route_defs lift_db_def split: option.splits prod.splits)
       (metis snd_conv)+
  show "next_request (pdb (snd (post_approve caller i s))) = next_request (pdb s)"
    using resolves_next grant_next
    by (auto simp: post_approve_def route_defs lift_db_def split: option.splits prod.splits sum.splits)
       (metis snd_conv)+
qed

text \<open>A resolution touches the one pending row with that id.\<close>

lemma resolves_keeps:
  assumes ok: "requests_ok d" and r: "resolves d d' i st caller" and nx: "next_request d' = next_request d"
    and st: "st \<noteq> Req_pending"
  shows "requests_ok d'" and "x \<in> set (requests d) \<Longrightarrow> rstatus x \<noteq> Req_pending \<Longrightarrow> x \<in> set (requests d')"
proof -
  consider "requests d' = requests d"
    | q t now where "request_getById d i = Some (q, t)" "rstatus q = Req_pending"
        "requests d' = update_where (\<lambda>r. rid r = i) (set_status st (Some caller) now) (requests d)"
    using r unfolding resolves_def by blast
  note cs = this
  show "requests_ok d'"
    using cs
  proof cases
    case 1
    then show ?thesis using ok nx by (simp add: requests_ok_def)
  next
    case 2
    then show ?thesis using requests_ok_resolve [OF ok nx _ st] by blast
  qed
  show "x \<in> set (requests d')" if x: "x \<in> set (requests d)" "rstatus x \<noteq> Req_pending"
    using cs
  proof cases
    case 1
    then show ?thesis using x by simp
  next
    case 2
    have "q \<in> set (requests d)" "rid q = i" using request_getById_in [OF 2(1)] by auto
    then have "rid x \<noteq> i"
      using distinct_map_unique [of rid "requests d" x q] ok x 2(2) by (auto simp: requests_ok_def)
    then show ?thesis using x 2(3) by (auto simp: set_update_where image_iff intro!: bexI [of _ x])
  qed
qed

lemma request_step_keeps:
  assumes "request_step s t" "requests_ok (pdb s)"
  shows "requests_ok (pdb t) \<and> (\<forall>x \<in> set (requests (pdb s)). rstatus x \<noteq> Req_pending \<longrightarrow> x \<in> set (requests (pdb t)))"
  using assms
proof (induction rule: request_step.induct)
  case (posted s caller target p msg)
  consider "pdb (snd (post_request caller target p msg s)) = pdb s"
    | u un w wn n q where "q \<noteq> Admin"
        "pdb (snd (post_request caller target p msg s)) = snd (insertPendingRequest u un w wn n q msg (pdb s))"
    using post_request_state [of caller target p msg s] by blast
  then show ?case
  proof cases
    case 1
    then show ?thesis using posted by simp
  next
    case 2
    then show ?thesis using requests_ok_insert [OF posted 2(1), of u un w wn n msg] by auto
  qed
next
  case (approved s caller i)
  then show ?case
    using resolves_keeps [OF _ approve_resolves route_next(1)] by blast
next
  case (rejected s caller i)
  then show ?case
    using resolves_keeps [OF _ reject_resolves route_next(2)] by blast
next
  case (cancelled s caller i)
  then show ?case
    using resolves_keeps [OF _ cancel_resolves route_next(3)] by blast
next
  case (owner_left s u who)
  let ?d = "pdb s" and ?d' = "snd (rejectPendingByOwnerId u who (pdb s))"
  have eq: "pdb (snd (lift_db (rejectPendingByOwnerId u who) s)) = ?d'"
    by (simp add: lift_db_def split: prod.splits)
  have pend: "filter (\<lambda>r. rstatus r = Req_pending) (requests ?d')
      = filter (\<lambda>r. rowner r \<noteq> u) (filter (\<lambda>r. rstatus r = Req_pending) (requests ?d))"
  proof -
    have "filter (\<lambda>r. rstatus r = Req_pending)
        (update_where (\<lambda>r. rowner r = u \<and> rstatus r = Req_pending) (set_status Req_rejected who now) rs)
      = filter (\<lambda>r. rowner r \<noteq> u) (filter (\<lambda>r. rstatus r = Req_pending) rs)" for rs now
      by (induction rs) (auto simp: update_where_def set_status_def)
    then show ?thesis by (simp add: rejectPendingByOwnerId_def)
  qed
  have "map rid (requests ?d') = map rid (requests ?d)"
    by (simp add: rejectPendingByOwnerId_def map_update_where set_status_def)
  moreover have "distinct (map pending_key (filter (\<lambda>r. rstatus r = Req_pending) (requests ?d')))"
    unfolding pend
    by (rule distinct_map_filter) (use owner_left in \<open>simp add: requests_ok_def\<close>)
  moreover have "\<forall>r \<in> set (requests ?d'). rid r < next_request ?d' \<and> rperm r \<noteq> Admin"
    using owner_left by (auto simp: requests_ok_def rejectPendingByOwnerId_def set_update_where set_status_def)
  moreover have "x \<in> set (requests ?d')" if "x \<in> set (requests ?d)" "rstatus x \<noteq> Req_pending" for x
    using that by (auto simp: rejectPendingByOwnerId_def set_update_where image_iff intro!: bexI [of _ x])
  ultimately show ?case using owner_left unfolding eq by (auto simp: requests_ok_def)
qed

section \<open>Properties\<close>


definition demo_requests :: perm_state where
  "demo_requests = demo_acl\<lparr>pdb := (pdb demo_acl)\<lparr>users := users (pdb demo_acl) @ [demo_user 9 ''a'' False],
     user_files := [\<lparr>guser = 7, gnode = 3, gperm = Admin\<rparr>]\<rparr>\<rparr>"


text \<open>
  Only the owner of a pending request can approve it, and a successful approval resolves the request
  and sets the requester's grant on the node to the requested permission. It sets it also where the
  requester already held more: approving a read request takes an earlier write or admin grant away.
\<close>

theorem approve_effect:
  assumes "tree_ok (pdb s)" "grants_ok (pdb s)" "post_approve caller i s = (Inr r', s')"
  shows "\<exists>r t v. request_getById (pdb s) i = Some (r, t) \<and> rowner r = caller \<and> rstatus r = Req_pending \<and>
    rstatus r' = Req_approved \<and> rresolved_by r' = Some caller \<and> getNode (pdb s) (rnode r) = Some v \<and>
    (if v_type v = File then findFilePermission (pdb s') (rrequester r) (rnode r) = Some (rperm r)
     else getPathEffectivePermission (pdb s') (rrequester r) (rnode r) = Some (rperm r))"
proof (rule approve_success [OF assms(3)])
  fix r :: request and t :: node_type and v :: node_view
  let ?g = "if v_type v = File then grantFilePermission (rrequester r) (rnode r) (perm_name (rperm r)) s
          else grant_path (rrequester r) (rnode r) (rperm r) s"
  assume r: "request_getById (pdb s) i = Some (r, t)" "rowner r = caller" "rstatus r = Req_pending"
    "getNode (pdb s) (rnode r) = Some v" "fst ?g = Inr ()"
    and u: "(Inr r', pdb s') = updateStatusRow i Req_approved (Some caller) (pdb (snd ?g))"
  have st: "rstatus r' = Req_approved" "rresolved_by r' = Some caller"
    using u by (auto simp: updateStatusRow_def set_status_def split: option.splits)
  have same: "user_files (pdb s') = user_files (pdb (snd ?g))" "user_paths (pdb s') = user_paths (pdb (snd ?g))"
    "node_ancestors (pdb s') = node_ancestors (pdb (snd ?g))"
    using u by (auto simp: updateStatusRow_def split: option.splits)
  have perm: "perm_of (perm_name p) = Some p" for p by (cases p) simp_all
  have "if v_type v = File then findFilePermission (pdb s') (rrequester r) (rnode r) = Some (rperm r)
     else getPathEffectivePermission (pdb s') (rrequester r) (rnode r) = Some (rperm r)"
  proof (cases "v_type v = File")
    case True
    have "user_files (pdb (snd ?g)) = upsert_grant (rrequester r) (rnode r) (rperm r) (user_files (pdb s))"
      using r(5) True by (auto simp: grantFilePermission_def perm store_defs upsertFilePermission_def
          drop_user_def invalidate_def simp del: perm_of.simps split: if_splits)
    moreover have d: "distinct (map (\<lambda>g. (guser g, gnode g)) (user_files (pdb s)))"
      using assms(2) by (simp add: grants_ok_def)
    moreover have "first_row (filter (\<lambda>g. guser g = rrequester r \<and> gnode g = rnode r)
        (upsert_grant (rrequester r) (rnode r) (rperm r) (user_files (pdb s))))
        = Some \<lparr>guser = rrequester r, gnode = rnode r, gperm = rperm r\<rparr>"
      by (rule first_row_filter_unique [where g = "\<lambda>g. (guser g, gnode g)", OF distinct_upsert [OF d]])
         (auto simp: set_upsert [OF d])
    ultimately show ?thesis using True same(1) by (simp add: findFilePermission_def)
  next
    case False
    have "has_user (pdb s) (rrequester r) \<and> has_node (pdb s) (rnode r)"
      using r(5) False by (auto simp: store_defs upsertPathPermission_def split: if_splits)
    then have "getPathEffectivePermission (pdb (snd ?g)) (rrequester r) (rnode r) = Some (rperm r)"
      using grant_path_effect [OF assms(1,2), of "rrequester r" "rnode r" "rperm r"] False by simp
    moreover have "getPathEffectivePermission (pdb s') = getPathEffectivePermission (pdb (snd ?g))"
      using effective_cong [OF same(2,3)] .
    ultimately show ?thesis using False by simp
  qed
  then show ?thesis using r st by blast
qed

theorem approve_effect_witness:
  "findFilePermission (pdb demo_requests) 7 3 = Some Admin \<and>
   findFilePermission (pdb (snd (post_approve 9 1 (snd (post_request 7 (Some 3) ''read'' ''please'' demo_requests))))) 7 3
     = Some Read"
proof -
  let ?s = "snd (post_request 7 (Some 3) ''read'' ''please'' demo_requests)"
  have same: "file_nodes (pdb ?s) = file_nodes demo_tree" "next_node (pdb ?s) = next_node demo_tree"
    "node_ancestors (pdb ?s) = node_ancestors demo_tree" by code_simp+
  have t: "tree_ok (pdb ?s)"
    using demo_tree_ok nodes_ok_cong [OF same(1,2)] up_cong [OF same(1)] same(3)
    by (simp add: tree_ok_def closure_ok_def anc_set_def)
  have g: "grants_ok (pdb ?s)" by code_simp
  have ok: "isl (fst (post_approve 9 1 ?s)) = False" by code_simp
  have row: "map_option (\<lambda>(r, t). (rrequester r, rnode r, rperm r)) (request_getById (pdb ?s) 1) = Some (7, 3, Read)"
    by code_simp
  have ty: "map_option v_type (getNode (pdb ?s) 3) = Some File" by code_simp
  have before: "findFilePermission (pdb demo_requests) 7 3 = Some Admin" by code_simp
  obtain r' where "post_approve 9 1 ?s = (Inr r', snd (post_approve 9 1 ?s))"
    using ok by (cases "post_approve 9 1 ?s"; cases "fst (post_approve 9 1 ?s)") auto
  from approve_effect [OF t g this] show ?thesis using row ty before by auto
qed

end
