(* ===== verification/Validation.thy ===== *)
theory Validation
  imports PathUtils
begin

text \<open>
  \<open>shared/validation.js\<close> and \<open>shared/fileTypes.js\<close>: the form validators, one definition per function,
  and the file type and content type of a name. A validator returns the key of the first rule
  that fails, \<open>None\<close> for JavaScript's \<open>null\<close>.
\<close>

section \<open>validation.js\<close>

datatype message = Key string | Key_num string string nat | Key_field string string

text \<open>The character class \<open>[<>:"/\|?*\x00-\x1f]\<close>.\<close>

definition invalid_char :: "char \<Rightarrow> bool" where
  "invalid_char c \<longleftrightarrow> c \<in> set ''<>:/|?*'' \<or> c = CHR 0x22 \<or> c = backslash \<or> (of_char c :: nat) < 32"

definition reservedNames :: "string list" where
  "reservedNames =
     [''CON'', ''PRN'', ''AUX'', ''NUL'', ''COM1'', ''COM2'', ''COM3'', ''COM4'', ''COM5'', ''COM6'',
      ''COM7'', ''COM8'', ''COM9'', ''LPT1'', ''LPT2'', ''LPT3'', ''LPT4'', ''LPT5'', ''LPT6'', ''LPT7'',
      ''LPT8'', ''LPT9'']"

definition validateFileName :: "string \<Rightarrow> message option" where
  "validateFileName name =
     (if name = [] \<or> trim name = [] then Some (Key ''validation.fileNameRequired'')
      else if \<exists>c \<in> set name. invalid_char c then Some (Key ''validation.fileNameInvalidChars'')
      else if starts_with (to_lower (trim name)) ''.wea-'' then Some (Key ''validation.fileNameReserved'')
      else if trim (to_upper name) \<in> set reservedNames then Some (Key ''validation.fileNameReserved'')
      else if ends_with name '' '' \<or> ends_with name ''.'' then Some (Key ''validation.fileNameNoTrailing'')
      else if length name > 255 then Some (Key ''validation.fileNameTooLong'')
      else None)"

text \<open>
  \<open>/^[^\s@]+@[^\s@]+\.[^\s@]+$/\<close>: one at-sign, no white space, and a dot inside the domain with
  something on both sides.
\<close>

definition email_matches :: "string \<Rightarrow> bool" where
  "email_matches e \<longleftrightarrow>
     (case split_on (CHR ''@'') e of
        [l, d] \<Rightarrow> l \<noteq> [] \<and> \<not> (\<exists>c \<in> set l. is_space c) \<and> \<not> (\<exists>c \<in> set d. is_space c) \<and>
                 (\<exists>i \<in> set [1..<length d - 1]. d ! i = CHR ''.'')
      | _ \<Rightarrow> False)"

definition validateEmail :: "string \<Rightarrow> message option" where
  "validateEmail email =
     (if email = [] \<or> trim email = [] then Some (Key ''validation.emailRequired'')
      else if \<not> email_matches email then Some (Key ''validation.emailInvalid'')
      else if length email > 254 then Some (Key ''validation.emailTooLong'')
      else None)"

definition validatePassword :: "string \<Rightarrow> nat \<Rightarrow> nat \<Rightarrow> message option" where
  "validatePassword password minLength maxLength =
     (if password = [] then Some (Key ''validation.passwordRequired'')
      else if length password < minLength then Some (Key_num ''validation.passwordMinLength'' ''minLength'' minLength)
      else if length password > maxLength then Some (Key_num ''validation.passwordMaxLength'' ''maxLength'' maxLength)
      else None)"

definition username_char :: "char \<Rightarrow> bool" where
  "username_char c \<longleftrightarrow>
     (let n = of_char c :: nat
      in 97 \<le> n \<and> n \<le> 122 \<or> 65 \<le> n \<and> n \<le> 90 \<or> 48 \<le> n \<and> n \<le> 57) \<or> c = CHR ''_'' \<or> c = CHR ''-''"

definition validateUsername :: "string \<Rightarrow> message option" where
  "validateUsername username =
     (if username = [] \<or> trim username = [] then Some (Key ''validation.usernameRequired'')
      else
        (let trimmed = trim username
         in if length trimmed < 3 then Some (Key ''validation.usernameMinLength'')
            else if length trimmed > 50 then Some (Key ''validation.usernameMaxLength'')
            else if \<not> (trimmed \<noteq> [] \<and> (\<forall>c \<in> set trimmed. username_char c))
              then Some (Key ''validation.usernameInvalidChars'')
            else if to_lower trimmed \<in> set [''admin'', ''root'', ''system'', ''user'', ''users'', ''api'']
              then Some (Key ''validation.usernameReserved'')
            else None))"

definition validateMatch :: "string \<Rightarrow> string \<Rightarrow> string \<Rightarrow> message option" where
  "validateMatch value1 value2 fieldName =
     (if value1 \<noteq> value2 then Some (Key_field ''validation.match'' fieldName) else None)"

text \<open>\<open>None\<close> is \<open>null\<close> or \<open>undefined\<close>.\<close>

definition validateRequired :: "string option \<Rightarrow> string \<Rightarrow> message option" where
  "validateRequired value fieldName =
     (case value of
        None \<Rightarrow> Some (Key_field ''validation.required'' fieldName)
      | Some v \<Rightarrow> (if v = [] then Some (Key_field ''validation.required'' fieldName)
          else if trim v = [] then Some (Key_field ''validation.required'' fieldName) else None))"

section \<open>fileTypes.js\<close>

definition IMAGE_EXTENSIONS :: "string list" where
  "IMAGE_EXTENSIONS = [''jpg'', ''jpeg'', ''png'', ''gif'', ''bmp'', ''webp'', ''svg'']"

definition VIDEO_EXTENSIONS :: "string list" where
  "VIDEO_EXTENSIONS = [''mp4'', ''webm'', ''ogg'', ''mov'', ''avi'', ''mkv'']"

definition AUDIO_EXTENSIONS :: "string list" where
  "AUDIO_EXTENSIONS = [''mp3'', ''wav'', ''ogg'', ''aac'', ''m4a'', ''flac'']"

definition TEXT_EXTENSIONS :: "string list" where
  "TEXT_EXTENSIONS = [''txt'', ''md'', ''json'', ''xml'', ''csv'', ''log'', ''js'', ''jsx'', ''ts'', ''tsx'',
     ''css'', ''html'', ''py'', ''java'', ''c'', ''cpp'', ''h'', ''sh'']"

definition extension :: "string \<Rightarrow> string" where
  "extension filename = to_lower (last (split_on (CHR ''.'') filename))"

datatype file_type = Image | Video | Audio | Pdf | Text | Unknown

definition getFileType :: "string \<Rightarrow> file_type" where
  "getFileType filename =
     (let ext = extension filename
      in if ext \<in> set IMAGE_EXTENSIONS then Image
         else if ext \<in> set VIDEO_EXTENSIONS then Video
         else if ext \<in> set AUDIO_EXTENSIONS then Audio
         else if ext = ''pdf'' then Pdf
         else if ext \<in> set TEXT_EXTENSIONS then Text
         else Unknown)"

definition CONTENT_TYPES :: "(string \<times> string) list" where
  "CONTENT_TYPES =
     [(''jpg'', ''image/jpeg''), (''jpeg'', ''image/jpeg''), (''png'', ''image/png''), (''gif'', ''image/gif''),
      (''bmp'', ''image/bmp''), (''webp'', ''image/webp''), (''svg'', ''image/svg+xml''),
      (''mp4'', ''video/mp4''), (''webm'', ''video/webm''), (''ogg'', ''video/ogg''),
      (''mov'', ''video/quicktime''), (''avi'', ''video/x-msvideo''), (''mkv'', ''video/x-matroska''),
      (''mp3'', ''audio/mpeg''), (''wav'', ''audio/wav''), (''aac'', ''audio/aac''), (''m4a'', ''audio/mp4''),
      (''flac'', ''audio/flac''), (''pdf'', ''application/pdf''), (''txt'', ''text/plain''),
      (''md'', ''text/markdown''), (''json'', ''application/json''), (''xml'', ''application/xml''),
      (''csv'', ''text/csv''), (''html'', ''text/html''), (''css'', ''text/css''),
      (''js'', ''text/javascript''), (''jsx'', ''text/javascript''), (''ts'', ''text/typescript''),
      (''tsx'', ''text/typescript'')]"

definition getContentType :: "string \<Rightarrow> string" where
  "getContentType filename =
     (case map_of CONTENT_TYPES (extension filename) of
        None \<Rightarrow> ''application/octet-stream'' | Some t \<Rightarrow> t)"

section \<open>Laws\<close>

lemma squeeze_append:
  "t \<noteq> [] \<Longrightarrow> hd t \<noteq> slash \<Longrightarrow> squeeze (s @ slash # t) = squeeze (s @ [slash]) @ squeeze t"
proof (induction s rule: squeeze.induct)
  case (1 a b s)
  then show ?case by simp
qed (cases t; auto)+

lemma no_slash_squeeze: "slash \<notin> set s \<Longrightarrow> squeeze s = s"
  by (induction s rule: squeeze.induct) auto

lemma validateFileNameD:
  assumes "validateFileName name = None"
  shows "name \<noteq> []" "trim name \<noteq> []" "\<forall>c \<in> set name. \<not> invalid_char c"
    "\<not> starts_with (to_lower (trim name)) ''.wea-''" "last name \<noteq> CHR '' ''" "last name \<noteq> CHR ''.''"
    "length name \<le> 255"
  using assms by (auto simp: validateFileName_def ends_with_last split: if_splits)

lemma accepted_last_not_space:
  assumes "validateFileName name = None"
  shows "\<not> is_space (last name)"
proof
  assume sp: "is_space (last name)"
  have "last name \<in> set name" using validateFileNameD(1) [OF assms] by simp
  then have "\<not> (of_char (last name) :: nat) < 32"
    using validateFileNameD(3) [OF assms] by (auto simp: invalid_char_def)
  then have "(of_char (last name) :: nat) = 32" using sp by (auto simp: is_space_def)
  then have "last name = char_of (32 :: nat)" by (metis char_of_char)
  also have "\<dots> = CHR '' ''" by code_simp
  finally have "last name = CHR '' ''" .
  then show False using validateFileNameD(5) [OF assms] by simp
qed

lemma trim_keeps_name:
  assumes "validateFileName name = None"
  shows "\<exists>e. trim (d @ slash # name) = e @ slash # name"
proof -
  obtain e where e: "dropWhile is_space (d @ slash # name) = e @ slash # name"
  proof (cases "\<forall>c \<in> set d. is_space c")
    case True
    then have "dropWhile is_space (d @ slash # name) = [] @ slash # name"
      by (simp add: is_space_def slash_def)
    then show thesis by (rule that)
  next
    case False
    then have "dropWhile is_space (d @ slash # name) = dropWhile is_space d @ slash # name"
      by (auto simp: dropWhile_append)
    then show thesis by (rule that)
  qed
  have "\<not> is_space (last (slash # name))"
    using accepted_last_not_space [OF assms] validateFileNameD(1) [OF assms] by simp
  then have "dropWhile is_space (rev (e @ slash # name)) = rev (e @ slash # name)"
    by (simp add: dropWhile_eq_self_iff hd_rev hd_append last_append split: if_splits)
  then show ?thesis using e by (auto simp: trim_def)
qed

lemma accepted_chars:
  assumes "validateFileName name = None"
  shows "slash \<notin> set name" "backslash \<notin> set name"
  using validateFileNameD(3) [OF assms] by (auto simp: invalid_char_def slash_def)

lemma normalize_below:
  assumes "validateFileName name = None"
  shows "\<exists>p. normalizePath (d @ slash # name) False = p @ slash # name"
proof -
  let ?f = "\<lambda>c. if c = backslash then slash else c"
  note ok = validateFileNameD(1) [OF assms] accepted_chars [OF assms]
  have hd: "hd name \<noteq> slash" using ok by (cases name) auto
  obtain e where e: "trim (d @ slash # name) = e @ slash # name" using trim_keeps_name [OF assms] by blast
  have "map ?f name = name" using ok(3) by (auto intro: map_idI)
  then have n1: "map ?f (trim (d @ slash # name)) = map ?f e @ slash # name" by (simp add: e)
  define e2 where "e2 = (if starts_with (map ?f e @ slash # name) [slash] then map ?f e else slash # map ?f e)"
  define q where "q = squeeze (e2 @ [slash])"
  have "squeeze (e2 @ slash # name) = q @ name"
    using squeeze_append [OF ok(1) hd] no_slash_squeeze [OF ok(2)] by (simp add: q_def)
  moreover have "q \<noteq> []" "last q = slash"
  proof -
    show "q \<noteq> []" using squeeze_hd [of "e2 @ [slash]"] by (simp add: q_def)
    show "last q = slash"
      unfolding q_def by (induction e2 rule: squeeze.induct) (auto simp: squeeze_hd)
  qed
  ultimately obtain p where p: "squeeze (e2 @ slash # name) = p @ slash # name"
    by (metis append_butlast_last_id append.assoc append_Cons append_Nil)
  have "last name \<noteq> slash" using ok by (metis last_in_set)
  then have "\<not> ends_with (p @ slash # name) [slash]" using ok(1) by (simp add: ends_with_last)
  moreover have "(if starts_with (map ?f e @ slash # name) [slash] then map ?f e @ slash # name
      else slash # (map ?f e @ slash # name)) = e2 @ slash # name" by (simp add: e2_def)
  ultimately show ?thesis
    using p n1 by (simp add: normalizePath_def Let_def)
qed

section \<open>Properties\<close>

text \<open>
  A name the validator accepts is one path segment: below any folder it is the base name of the
  joined path; it is not empty, not \<open>.\<close> or \<open>..\<close>, holds no separator and no control character, is at
  most 255 long, and is not in the \<open>.wea-\<close> namespace the trash keeps its folders in.
\<close>

theorem accepted_name_safe:
  assumes "validateFileName name = None"
  shows "getBasename (d @ slash # name) = name \<and> name \<notin> {[], ''.'', ''..''} \<and>
    slash \<notin> set name \<and> backslash \<notin> set name \<and> (\<forall>c \<in> set name. (of_char c :: nat) \<ge> 32) \<and>
    length name \<le> 255 \<and> \<not> starts_with (to_lower (trim name)) ''.wea-''"
proof -
  note D = validateFileNameD [OF assms] and ch = accepted_chars [OF assms]
  obtain p where p: "normalizePath (d @ slash # name) False = p @ slash # name"
    using normalize_below [OF assms] by blast
  have "getBasename (d @ slash # name) = name"
  proof -
    have "p @ slash # name \<noteq> [slash]" using D(1) by (cases p) auto
    then show ?thesis
      using lastIndexOf_split [OF ch(1), of p] by (simp add: getBasename_def p nat_add_distrib Let_def)
  qed
  moreover have "name \<notin> {[], ''.'', ''..''}" using D(1,6) by auto
  moreover have "(of_char c :: nat) \<ge> 32" if "c \<in> set name" for c
    using D(3) that by (auto simp: invalid_char_def not_less)
  ultimately show ?thesis using D ch by blast
qed

theorem accepted_name_safe_witness:
  "getBasename (''/docs'' @ slash # ''a b.txt'') = ''a b.txt'' \<and> validateFileName ''.WEA-x'' \<noteq> None"
proof -
  have "validateFileName ''a b.txt'' = None" "validateFileName ''.WEA-x'' \<noteq> None" by code_simp+
  then show ?thesis using accepted_name_safe [of "''a b.txt''" "''/docs''"] by blast
qed

lemma content_type_images:
  "\<forall>e \<in> set IMAGE_EXTENSIONS. case map_of CONTENT_TYPES e of None \<Rightarrow> False | Some t \<Rightarrow> starts_with t ''image/''"
  "\<forall>e \<in> set VIDEO_EXTENSIONS. case map_of CONTENT_TYPES e of None \<Rightarrow> False | Some t \<Rightarrow> starts_with t ''video/''"
  "\<forall>e \<in> set AUDIO_EXTENSIONS. e \<in> set VIDEO_EXTENSIONS \<or>
     (case map_of CONTENT_TYPES e of None \<Rightarrow> False | Some t \<Rightarrow> starts_with t ''audio/'')"
  by code_simp+

text \<open>
  The file type decides the top-level content type: every image, video, audio or pdf name has
  a registered content type of the same family.
\<close>

theorem content_type_family:
  "(getFileType f = Image \<longrightarrow> starts_with (getContentType f) ''image/'') \<and>
   (getFileType f = Video \<longrightarrow> starts_with (getContentType f) ''video/'') \<and>
   (getFileType f = Audio \<longrightarrow> starts_with (getContentType f) ''audio/'') \<and>
   (getFileType f = Pdf \<longrightarrow> getContentType f = ''application/pdf'')"
proof -
  have pdf: "map_of CONTENT_TYPES ''pdf'' = Some ''application/pdf''" by code_simp
  have ext: "getFileType f = Image \<Longrightarrow> extension f \<in> set IMAGE_EXTENSIONS"
    "getFileType f = Video \<Longrightarrow> extension f \<in> set VIDEO_EXTENSIONS"
    "getFileType f = Audio \<Longrightarrow> extension f \<in> set AUDIO_EXTENSIONS \<and> extension f \<notin> set VIDEO_EXTENSIONS"
    "getFileType f = Pdf \<Longrightarrow> extension f = ''pdf''"
    by (simp_all add: getFileType_def Let_def split: if_splits)
  show ?thesis
    using ext bspec [OF content_type_images(1), of "extension f"]
      bspec [OF content_type_images(2), of "extension f"]
      bspec [OF content_type_images(3), of "extension f"] pdf
    by (cases "map_of CONTENT_TYPES (extension f)"; cases "getFileType f")
       (simp_all add: getContentType_def)
qed

theorem content_type_family_witness:
  "getContentType ''holiday.JPG'' = ''image/jpeg'' \<and> starts_with (getContentType ''holiday.JPG'') ''image/''"
proof -
  have "getFileType ''holiday.JPG'' = Image" "getContentType ''holiday.JPG'' = ''image/jpeg''" by code_simp+
  then show ?thesis using content_type_family [of "''holiday.JPG''"] by blast
qed

end
