(* ===== verification/Objects.thy ===== *)
theory Objects
  imports FileNodeRepo
begin

text \<open>
  The object part of \<open>server/store/repositories/sqlite/FileNodeRepository.sqlite.js\<close>: the version
  rows of \<open>object_map\<close> (which blob holds which version of a file, and in which state) and the
  \<open>filecache\<close> rows. One definition per method. The lemmas describe the life of a version row:
  pending, active, history, orphaned, and what the cap of versions per node evicts.
\<close>

section \<open>Version rows\<close>

definition node_objs :: "db \<Rightarrow> nat \<Rightarrow> obj list" where
  "node_objs d i = filter (\<lambda>r. onode r = i) (object_map d)"

definition max_version :: "db \<Rightarrow> nat \<Rightarrow> nat" where
  "max_version d i = fold max (map overs (node_objs d i)) 0"

text \<open>
  \<open>INSERT INTO object_map\<close>: the reference to the node and the unique (node, version) are checked.
\<close>

definition insert_version :: "nat \<Rightarrow> string \<Rightarrow> nat \<Rightarrow> obj_status \<Rightarrow> nat option \<Rightarrow> (db, nat) service" where
  "insert_version i s3Key v st sz d =
     (if \<not> has_node d i then (Inl (mapDatabaseError fk_failed), d)
      else if \<exists>r \<in> set (object_map d). onode r = i \<and> overs r = v
      then (Inl (mapDatabaseError unique_failed), d)
      else (Inr 1,
            d\<lparr>object_map := object_map d @
                 [\<lparr>oid = next_obj d, onode = i, okey = Some s3Key, osize = sz, obackend = S3,
                   overs = v, ostatus = st, ocreated = datetime_now d\<rparr>],
              next_obj := Suc (next_obj d)\<rparr>))"

definition update_objs :: "(obj \<Rightarrow> bool) \<Rightarrow> (obj \<Rightarrow> obj) \<Rightarrow> (db, nat) service" where
  "update_objs p f d =
     (Inr (count_where p (object_map d)), d\<lparr>object_map := update_where p f (object_map d)\<rparr>)"

definition upsertObjectMap :: "nat \<Rightarrow> string \<Rightarrow> obj_status \<Rightarrow> nat option \<Rightarrow> (db, nat) service" where
  "upsertObjectMap fileNodeId s3Key status sz =
     seqs (update_objs (\<lambda>r. onode r = fileNodeId \<and> ostatus r = Obj_active)
             (\<lambda>r. r\<lparr>ostatus := Obj_history\<rparr>)) (\<lambda>_.
     seqs (reads (\<lambda>d. max_version d fileNodeId + 1)) (\<lambda>versionNumber.
       insert_version fileNodeId s3Key versionNumber status sz))"

text \<open>
  The two counts of \<open>evictVersionsBeyondCap\<close>: history rows of the node older than the given one,
  and all kept rows of the node. Both are taken before any row changes.
\<close>

definition is_kept :: "obj \<Rightarrow> bool" where
  "is_kept r \<longleftrightarrow> ostatus r \<in> {Obj_active, Obj_history}"

definition older_history :: "db \<Rightarrow> nat \<Rightarrow> nat \<Rightarrow> nat" where
  "older_history d i v =
     length (filter (\<lambda>r. ostatus r = Obj_history \<and> overs r < v) (node_objs d i))"

definition kept_versions :: "db \<Rightarrow> nat \<Rightarrow> obj list" where
  "kept_versions d i = filter is_kept (node_objs d i)"

definition evicted :: "db \<Rightarrow> nat \<Rightarrow> nat \<Rightarrow> obj \<Rightarrow> bool" where
  "evicted d fileNodeId maxVersions r \<longleftrightarrow>
     onode r = fileNodeId \<and> ostatus r = Obj_history \<and>
     older_history d fileNodeId (overs r) < length (kept_versions d fileNodeId) - maxVersions"

definition evictVersionsBeyondCap :: "nat \<Rightarrow> nat \<Rightarrow> (db, nat) service" where
  "evictVersionsBeyondCap fileNodeId cap d =
     (if cap = 0 then (Inr 0, d)
      else update_objs (evicted d fileNodeId cap) (\<lambda>r. r\<lparr>ostatus := Obj_orphaned\<rparr>) d)"

definition setObjectMapBackendWebdav :: "nat \<Rightarrow> (db, nat) service" where
  "setObjectMapBackendWebdav fileNodeId =
     update_objs (\<lambda>r. onode r = fileNodeId \<and> ostatus r = Obj_active) (\<lambda>r. r\<lparr>obackend := Webdav\<rparr>)"

definition insertObject :: "nat \<Rightarrow> string \<Rightarrow> obj_status \<Rightarrow> nat option \<Rightarrow> (db, nat) service" where
  "insertObject fileNodeId s3Key status sz = insert_version fileNodeId s3Key 1 status sz"

definition getActiveObject :: "db \<Rightarrow> nat \<Rightarrow> obj option" where
  "getActiveObject d fileNodeId =
     first_row (filter (\<lambda>r. onode r = fileNodeId \<and> ostatus r = Obj_active) (object_map d))"

definition getObjectMapByNode :: "db \<Rightarrow> nat \<Rightarrow> obj list" where
  "getObjectMapByNode d fileNodeId =
     sort_key (\<lambda>r. - int (overs r)) (sort_key (\<lambda>r. - int (oid r)) (node_objs d fileNodeId))"

definition getObjectMapBySubtree :: "db \<Rightarrow> nat \<Rightarrow> obj list" where
  "getObjectMapBySubtree d ancestorId =
     sort_key onode (sort_key oid
       (concat (map (\<lambda>om. map (\<lambda>_. om)
          (filter (\<lambda>a. adesc a = onode om \<and> aanc a = ancestorId) (node_ancestors d)))
        (object_map d))))"

definition getObjectMapByS3Key :: "db \<Rightarrow> string \<Rightarrow> obj option" where
  "getObjectMapByS3Key d s3Key =
     first_row (filter (\<lambda>r. okey r = Some s3Key \<and> ostatus r \<in> {Obj_pending, Obj_active}) (object_map d))"

definition activateObject :: "string \<Rightarrow> nat option \<Rightarrow> (db, nat) service" where
  "activateObject s3Key sz =
     update_objs (\<lambda>r. okey r = Some s3Key \<and> ostatus r = Obj_pending)
       (\<lambda>r. r\<lparr>ostatus := Obj_active, osize := (case sz of None \<Rightarrow> osize r | Some n \<Rightarrow> Some n)\<rparr>)"

definition orphanObject :: "string \<Rightarrow> (db, nat) service" where
  "orphanObject s3Key =
     update_objs (\<lambda>r. okey r = Some s3Key \<and> ostatus r \<in> {Obj_active, Obj_pending})
       (\<lambda>r. r\<lparr>ostatus := Obj_orphaned\<rparr>)"

definition demoteActiveToHistory :: "string \<Rightarrow> (db, nat) service" where
  "demoteActiveToHistory s3Key =
     update_objs (\<lambda>r. okey r = Some s3Key \<and> ostatus r = Obj_active) (\<lambda>r. r\<lparr>ostatus := Obj_history\<rparr>)"

definition reactivateObjectMapRow :: "nat \<Rightarrow> (db, nat) service" where
  "reactivateObjectMapRow i =
     update_objs (\<lambda>r. oid r = i \<and> ostatus r \<in> {Obj_history, Obj_orphaned})
       (\<lambda>r. r\<lparr>ostatus := Obj_active\<rparr>)"

definition getVersionsByNode :: "db \<Rightarrow> nat \<Rightarrow> obj list" where
  "getVersionsByNode d fileNodeId = sort_key (\<lambda>r. - int (overs r)) (kept_versions d fileNodeId)"

definition countActiveObjectsByS3Key :: "db \<Rightarrow> string \<Rightarrow> nat" where
  "countActiveObjectsByS3Key d s3Key =
     length (filter (\<lambda>r. okey r = Some s3Key \<and> ostatus r = Obj_active) (object_map d))"

text \<open>The \<open>UNION\<close> has each key once.\<close>

definition getKeptObjectMapKeys :: "db \<Rightarrow> string list" where
  "getKeptObjectMapKeys d =
     remdups (List.map_filter okey
       (filter (\<lambda>r. ostatus r \<in> {Obj_active, Obj_history, Obj_orphaned} \<or>
           ostatus r = Obj_pending \<and>
           (\<exists>n \<in> set (file_nodes d). nid n = onode r \<and> nsync n = Pending_upload))
         (object_map d)))"

definition getFileNodesPathRows :: "db \<Rightarrow> node list" where
  "getFileNodesPathRows d = file_nodes d"

text \<open>A row of the \<open>LEFT JOIN\<close>: the object, the status of its node, whether the node has an active row.\<close>

definition getOrphanedObjectsWithNodeState ::
  "db \<Rightarrow> nat \<Rightarrow> (obj \<times> sync_status option \<times> bool) list" where
  "getOrphanedObjectsWithNodeState d days =
     map (\<lambda>om. (om, map_option nsync (node_row d (onode om)),
                \<exists>a \<in> set (object_map d). onode a = onode om \<and> ostatus a = Obj_active))
       (filter (\<lambda>om. ostatus om = Obj_orphaned \<and> ocreated om < clock d - int days * ms_per_day)
         (object_map d))"

definition getStalePendingObjects :: "db \<Rightarrow> nat \<Rightarrow> obj list" where
  "getStalePendingObjects d days =
     filter (\<lambda>om. ostatus om = Obj_pending \<and>
         (\<exists>n \<in> set (file_nodes d). nid n = onode om \<and> nsync n = Pending_upload) \<and>
         ocreated om < clock d - int days * ms_per_day)
       (object_map d)"

fun deleteObjectMapRows :: "nat list \<Rightarrow> (db, nat) service" where
  "deleteObjectMapRows [] d = (Inr 0, d)"
| "deleteObjectMapRows (i # is) d =
     (let changes = count_where (\<lambda>r. oid r = i) (object_map d)
      in seqs (deleteObjectMapRows is) (\<lambda>rest. ret (changes + rest))
           (d\<lparr>object_map := delete_where (\<lambda>r. oid r = i) (object_map d)\<rparr>))"

section \<open>Cache rows\<close>

definition upsertCache :: "nat \<Rightarrow> nat \<Rightarrow> string option \<Rightarrow> string option \<Rightarrow> (db, nat) service" where
  "upsertCache fileNodeId sz mimeType contentHash d =
     (let orNull = (\<lambda>x. if x = Some [] then None else x);
          row = \<lparr>cnode = fileNodeId, csize = sz, cmime = orNull mimeType,
                 chash = orNull contentHash, cupdated = datetime_now d\<rparr>
      in if filter (\<lambda>c. cnode c = fileNodeId) (filecache d) \<noteq> [] then
           (Inr (count_where (\<lambda>c. cnode c = fileNodeId) (filecache d)),
            d\<lparr>filecache := update_where (\<lambda>c. cnode c = fileNodeId) (\<lambda>_. row) (filecache d)\<rparr>)
         else if \<not> has_node d fileNodeId then (Inl (mapDatabaseError fk_failed), d)
         else (Inr 1, d\<lparr>filecache := filecache d @ [row]\<rparr>))"

definition getCache :: "db \<Rightarrow> nat \<Rightarrow> cache_row option" where
  "getCache d fileNodeId = first_row (filter (\<lambda>c. cnode c = fileNodeId) (filecache d))"

definition countCacheRowsWithNullContentHash :: "db \<Rightarrow> nat" where
  "countCacheRowsWithNullContentHash d = length (filter (\<lambda>c. chash c = None) (filecache d))"

definition listCacheRowsWithNullContentHash ::
  "db \<Rightarrow> nat \<Rightarrow> nat \<Rightarrow> (nat \<times> string \<times> node_type \<times> int option) list" where
  "listCacheRowsWithNullContentHash d limit afterId =
     take limit (map (\<lambda>(c, n). (cnode c, nname n, ntype n, ndeleted n))
       (sort_key (\<lambda>(c, n). cnode c)
         (concat (map (\<lambda>c. map (\<lambda>n. (c, n))
            (filter (\<lambda>n. nid n = cnode c \<and> ntype n = File \<and> nid n > afterId) (file_nodes d)))
          (filter (\<lambda>c. chash c = None) (filecache d))))))"

text \<open>
  The rows of \<open>file_nodes n JOIN node_ancestors a ON a.descendant_id = n.id\<close> below an ancestor,
  \<open>LEFT JOIN filecache\<close>.
\<close>

definition subtree_nodes :: "db \<Rightarrow> nat \<Rightarrow> node list" where
  "subtree_nodes d a =
     concat (map (\<lambda>n. map (\<lambda>_. n)
       (filter (\<lambda>r. adesc r = nid n \<and> aanc r = a) (node_ancestors d))) (file_nodes d))"

definition listSubtreeCacheRows :: "db \<Rightarrow> nat \<Rightarrow> node_view list" where
  "listSubtreeCacheRows d ancestorId =
     map (\<lambda>n. mapChildRow n (cache_of d (nid n)))
       (sort_key nid (filter live (subtree_nodes d ancestorId)))"

text \<open>\<open>SUM\<close> with \<open>COALESCE(..., 0)\<close> skips \<open>NULL\<close>; \<open>MIN\<close> over no value is \<open>NULL\<close>.\<close>

definition sum_sizes :: "nat option list \<Rightarrow> nat" where
  "sum_sizes xs = sum_list (List.map_filter id xs)"

definition min_time :: "int list \<Rightarrow> int option" where
  "min_time xs = (case xs of [] \<Rightarrow> None | y # ys \<Rightarrow> Some (fold min ys y))"

record trash_summary =
  ts_items :: nat
  ts_bytes :: nat
  ts_oldest :: "int option"

definition summarizeTrashedSubtree :: "db \<Rightarrow> nat \<Rightarrow> trash_summary" where
  "summarizeTrashedSubtree d ancestorId =
     (let rows = filter (\<lambda>n. \<not> live n \<and> ntype n = File) (subtree_nodes d ancestorId)
      in \<lparr>ts_items = length rows,
          ts_bytes = sum_sizes (map (\<lambda>n. map_option csize (cache_of d (nid n))) rows),
          ts_oldest = min_time (List.map_filter ndeleted rows)\<rparr>)"

record usage =
  u_bytes :: nat
  u_live :: nat
  u_trash :: nat
  u_versions :: nat
  u_items :: nat
  u_trash_items :: nat
  u_oldest_trashed :: "int option"
  u_null_sizes :: nat

definition usage_of_objects :: "db \<Rightarrow> nat \<Rightarrow> usage" where
  "usage_of_objects d ancestorId =
     (let rows = concat (map (\<lambda>n. map (\<lambda>om. (n, om)) (kept_versions d (nid n)))
                   (subtree_nodes d ancestorId));
          act = filter (\<lambda>(n, om). ostatus om = Obj_active) rows
      in \<lparr>u_bytes = sum_sizes (map (\<lambda>(n, om). osize om) rows),
          u_live = sum_sizes (map (\<lambda>(n, om). osize om) (filter (\<lambda>(n, om). live n) act)),
          u_trash = sum_sizes (map (\<lambda>(n, om). osize om) (filter (\<lambda>(n, om). \<not> live n) act)),
          u_versions = sum_sizes (map (\<lambda>(n, om). osize om)
             (filter (\<lambda>(n, om). ostatus om = Obj_history) rows)),
          u_items = length rows,
          u_trash_items = length (filter (\<lambda>(n, om). \<not> live n) act),
          u_oldest_trashed = min_time (List.map_filter (\<lambda>(n, om). ndeleted n)
             (filter (\<lambda>(n, om). ntype n = File) rows)),
          u_null_sizes = length (filter (\<lambda>(n, om). osize om = None) rows)\<rparr>)"

definition usage_of_cache :: "db \<Rightarrow> nat \<Rightarrow> usage" where
  "usage_of_cache d ancestorId =
     (let rows = filter (\<lambda>n. ntype n = File) (subtree_nodes d ancestorId);
          sz = (\<lambda>n. map_option csize (cache_of d (nid n)))
      in \<lparr>u_bytes = sum_sizes (map sz rows),
          u_live = sum_sizes (map sz (filter live rows)),
          u_trash = sum_sizes (map sz (filter (\<lambda>n. \<not> live n) rows)),
          u_versions = 0,
          u_items = length rows,
          u_trash_items = length (filter (\<lambda>n. \<not> live n) rows),
          u_oldest_trashed = min_time (List.map_filter ndeleted rows),
          u_null_sizes = length (filter (\<lambda>n. sz n = None) rows)\<rparr>)"

definition summarizeSubtreeStorageUsage :: "db \<Rightarrow> nat \<Rightarrow> bool \<Rightarrow> usage" where
  "summarizeSubtreeStorageUsage d ancestorId includeVersions =
     (if includeVersions then usage_of_objects d ancestorId else usage_of_cache d ancestorId)"

definition setCacheContentHash :: "nat \<Rightarrow> string \<Rightarrow> (db, nat) service" where
  "setCacheContentHash fileNodeId contentHash d =
     (Inr (count_where (\<lambda>c. cnode c = fileNodeId \<and> chash c = None) (filecache d)),
      d\<lparr>filecache := update_where (\<lambda>c. cnode c = fileNodeId \<and> chash c = None)
           (\<lambda>c. c\<lparr>chash := Some contentHash, cupdated := datetime_now d\<rparr>) (filecache d)\<rparr>)"

end
