(* ===== verification/Blobs.thy ===== *)
theory Blobs
  imports Objects Closure "HOL-Library.Word"
begin

text \<open>
  \<open>server/infrastructure/adapters/blobstore/S3BlobStore.js\<close>, \<open>WebdavBlobStore.js\<close> and
  \<open>server/service/blobStorageService.js\<close>: the two blob stores over their clients, and the
  life cycle of blobs on top of one of them.

  The AWS client and the WebDAV client are not part of the repository's logic; they are records of
  operations on a state \<open>'c\<close>, parameters of everything below. So are the random number generator
  behind \<open>crypto.randomUUID()\<close> (the n-th draw is \<open>uuid n\<close>) and SHA-256. The health reports of the
  adapters are not modelled.
\<close>

type_synonym buffer = "8 word list"

section \<open>The S3 store\<close>

record 'c s3_client =
  send_put :: "string \<Rightarrow> buffer \<Rightarrow> ('c, unit) service"
  send_get :: "string \<Rightarrow> ('c, buffer) service"
  send_delete :: "string \<Rightarrow> ('c, unit) service"
  send_head :: "string \<Rightarrow> ('c, nat \<times> string option) service"
  send_copy :: "string \<Rightarrow> string \<Rightarrow> ('c, unit) service"
  send_list :: "string option \<Rightarrow> ('c, (string \<times> int) list \<times> string option) service"

text \<open>The \<open>name\<close> and \<open>message\<close> of a thrown value.\<close>

fun err_name :: "err \<Rightarrow> string" where
  "err_name (Driver n m) = n"
| "err_name _ = ''Error''"

definition no_such_key :: "err \<Rightarrow> bool" where
  "no_such_key e \<longleftrightarrow> err_name e = ''NoSuchKey'' \<or> has_infix (err_message e) ''NoSuchKey''"

definition s3_uploadBlob :: "'c s3_client \<Rightarrow> string \<Rightarrow> buffer \<Rightarrow> ('c, unit) service" where
  "s3_uploadBlob client key buf =
     seqs (guard (key \<noteq> []) (Plain ''S3 key is required'')) (\<lambda>_. send_put client key buf)"

definition s3_downloadBlob :: "'c s3_client \<Rightarrow> string \<Rightarrow> ('c, buffer option) service" where
  "s3_downloadBlob client key = seqs (send_get client key) (\<lambda>b. ret (Some b))"

definition s3_deleteBlob :: "'c s3_client \<Rightarrow> string \<Rightarrow> ('c, unit) service" where
  "s3_deleteBlob client key =
     catching (send_delete client key) (\<lambda>e. if no_such_key e then ret () else throw e)"

definition s3_headBlob :: "'c s3_client \<Rightarrow> string \<Rightarrow> ('c, (nat \<times> string option) option) service" where
  "s3_headBlob client key = seqs (send_head client key) (\<lambda>h. ret (Some h))"

definition s3_copyBlob :: "'c s3_client \<Rightarrow> string \<Rightarrow> string \<Rightarrow> ('c, unit) service" where
  "s3_copyBlob client sourceKey destKey =
     catching (send_copy client sourceKey destKey)
       (\<lambda>e. if no_such_key e then throw (Plain (''Source key not found for copy: '' @ sourceKey))
            else throw e)"

text \<open>The paging loop ends when a page has no continuation token, which the client decides.\<close>

partial_function (option) list_pages ::
  "'c s3_client \<Rightarrow> int \<Rightarrow> string option \<Rightarrow> string list \<Rightarrow> 'c \<Rightarrow>
   ((err + string list) \<times> 'c) option" where
  "list_pages client olderThan token keys s =
     (case send_list client token s of
        (Inl e, t) \<Rightarrow> Some (Inl e, t)
      | (Inr (items, next_token), t) \<Rightarrow>
          (let keys' = keys @ map fst (filter (\<lambda>(k, m). m < olderThan) items)
           in if next_token = None \<or> next_token = Some [] then Some (Inr keys', t)
              else list_pages client olderThan next_token keys' t))"

declare list_pages.simps [code]

definition s3_listOrphanedKeys :: "'c s3_client \<Rightarrow> int \<Rightarrow> ('c, string list) service" where
  "s3_listOrphanedKeys client olderThan s =
     (case list_pages client olderThan None [] s of None \<Rightarrow> (Inl No_return, s) | Some r \<Rightarrow> r)"

section \<open>The blob store the services see\<close>

record 'c blob_store =
  uploadBlob :: "string \<Rightarrow> buffer \<Rightarrow> ('c, unit) service"
  downloadBlob :: "string \<Rightarrow> ('c, buffer option) service"
  deleteBlob :: "string \<Rightarrow> ('c, unit) service"
  headBlob :: "string \<Rightarrow> ('c, (nat \<times> string option) option) service"
  copyBlob :: "string \<Rightarrow> string \<Rightarrow> ('c, unit) service"
  moveBlob :: "string \<Rightarrow> string \<Rightarrow> bool \<Rightarrow> ('c, unit) service"
  makeDirectory :: "string \<Rightarrow> ('c, unit) service"
  ensureDirectoryExists :: "string \<Rightarrow> ('c, unit) service"
  listOrphanedKeys :: "int \<Rightarrow> ('c, string list) service"

definition not_a_function :: "string \<Rightarrow> err" where
  "not_a_function name = Plain (''blobStore.'' @ name @ '' is not a function'')"

definition s3_store :: "'c s3_client \<Rightarrow> 'c blob_store" where
  "s3_store client =
     \<lparr>uploadBlob = s3_uploadBlob client, downloadBlob = s3_downloadBlob client,
      deleteBlob = s3_deleteBlob client, headBlob = s3_headBlob client,
      copyBlob = s3_copyBlob client,
      moveBlob = (\<lambda>_ _ _. throw (not_a_function ''moveBlob'')),
      makeDirectory = (\<lambda>_. throw (not_a_function ''createDirectory'')),
      ensureDirectoryExists = (\<lambda>_. throw (not_a_function ''ensureDirectoryExists'')),
      listOrphanedKeys = s3_listOrphanedKeys client\<rparr>"

section \<open>The WebDAV store\<close>

record 'c dav_client =
  putFileContents :: "string \<Rightarrow> buffer \<Rightarrow> ('c, unit) service"
  getFileContents :: "string \<Rightarrow> ('c, buffer) service"
  deleteFile :: "string \<Rightarrow> ('c, unit) service"
  getFileMetadata :: "string \<Rightarrow> ('c, nat \<times> string option) service"
  copyFile :: "string \<Rightarrow> string \<Rightarrow> bool \<Rightarrow> ('c, unit) service"
  moveFile :: "string \<Rightarrow> string \<Rightarrow> bool \<Rightarrow> ('c, unit) service"
  dav_createDirectory :: "string \<Rightarrow> ('c, unit) service"
  dav_ensureDirectoryExists :: "string \<Rightarrow> ('c, unit) service"
  listAllEntriesRecursive :: "string \<Rightarrow> ('c, (string \<times> int option) list) service"

definition is_dav_not_found :: "err \<Rightarrow> bool" where
  "is_dav_not_found e \<longleftrightarrow>
     err_status e = Some 404 \<or> has_infix (to_lower (err_name e)) ''notfound'' \<or>
     has_infix (err_message e) ''404''"

definition dav_uploadBlob :: "'c dav_client \<Rightarrow> string \<Rightarrow> buffer \<Rightarrow> ('c, unit) service" where
  "dav_uploadBlob client filepath buf =
     seqs (guard (filepath \<noteq> []) (Plain ''WebDAV filepath is required'')) (\<lambda>_.
       putFileContents client filepath buf)"

definition dav_makeDirectory :: "'c dav_client \<Rightarrow> string \<Rightarrow> ('c, unit) service" where
  "dav_makeDirectory client filepath =
     seqs (guard (filepath \<noteq> []) (Plain ''WebDAV filepath is required'')) (\<lambda>_.
       dav_createDirectory client filepath)"

definition dav_downloadBlob :: "'c dav_client \<Rightarrow> string \<Rightarrow> ('c, buffer option) service" where
  "dav_downloadBlob client filepath =
     catching (seqs (getFileContents client filepath) (\<lambda>b. ret (Some b)))
       (\<lambda>e. if is_dav_not_found e then ret None else throw e)"

definition dav_deleteBlob :: "'c dav_client \<Rightarrow> string \<Rightarrow> ('c, unit) service" where
  "dav_deleteBlob client filepath =
     catching (deleteFile client filepath) (\<lambda>e. if is_dav_not_found e then ret () else throw e)"

definition dav_moveBlob :: "'c dav_client \<Rightarrow> string \<Rightarrow> string \<Rightarrow> bool \<Rightarrow> ('c, unit) service" where
  "dav_moveBlob client src dst overwrite =
     seqs (guard (src \<noteq> [] \<and> dst \<noteq> []) (Plain ''WebDAV source and destination paths are required''))
       (\<lambda>_. moveFile client src dst overwrite)"

definition dav_copyBlob :: "'c dav_client \<Rightarrow> string \<Rightarrow> string \<Rightarrow> ('c, unit) service" where
  "dav_copyBlob client src dst =
     seqs (guard (src \<noteq> [] \<and> dst \<noteq> []) (Plain ''WebDAV source and destination paths are required''))
       (\<lambda>_. copyFile client src dst False)"

definition dav_ensureDirectory :: "'c dav_client \<Rightarrow> string \<Rightarrow> ('c, unit) service" where
  "dav_ensureDirectory client filepath =
     seqs (guard (filepath \<noteq> []) (Plain ''WebDAV directory path is required'')) (\<lambda>_.
       dav_ensureDirectoryExists client filepath)"

definition dav_headBlob :: "'c dav_client \<Rightarrow> string \<Rightarrow> ('c, (nat \<times> string option) option) service" where
  "dav_headBlob client filepath =
     catching (seqs (getFileMetadata client filepath) (\<lambda>m. ret (Some m)))
       (\<lambda>e. if is_dav_not_found e then ret None else throw e)"

text \<open>An entry whose date does not parse (\<open>None\<close>) is never a candidate.\<close>

definition dav_listOrphanedKeys :: "'c dav_client \<Rightarrow> int \<Rightarrow> ('c, string list) service" where
  "dav_listOrphanedKeys client olderThan =
     seqs (listAllEntriesRecursive client ''/'') (\<lambda>entries.
       ret (map fst (filter (\<lambda>(p, seen). case seen of None \<Rightarrow> False | Some t \<Rightarrow> t < olderThan) entries)))"

definition dav_store :: "'c dav_client \<Rightarrow> 'c blob_store" where
  "dav_store client =
     \<lparr>uploadBlob = dav_uploadBlob client, downloadBlob = dav_downloadBlob client,
      deleteBlob = dav_deleteBlob client, headBlob = dav_headBlob client,
      copyBlob = dav_copyBlob client, moveBlob = dav_moveBlob client,
      makeDirectory = dav_makeDirectory client,
      ensureDirectoryExists = dav_ensureDirectory client,
      listOrphanedKeys = dav_listOrphanedKeys client\<rparr>"

section \<open>Services over both stores\<close>

text \<open>
  The state a file operation works on: the database, the blob store's own state, and how many
  random identifiers were drawn. A site is the composition the process is started with.
\<close>

record 'c vault =
  vdb :: db
  vstore :: 'c
  draws :: nat

record 'c site =
  blobs :: "'c blob_store"
  isWebdavMode :: bool
  uuid :: "nat \<Rightarrow> string"
  sha256 :: "buffer \<Rightarrow> string"
  maxPerNode :: "int option"
  configuredCap :: "int option"

definition on_db :: "(db, 'a) service \<Rightarrow> ('c vault, 'a) service" where
  "on_db m v = (case m (vdb v) of (r, d) \<Rightarrow> (r, v\<lparr>vdb := d\<rparr>))"

definition on_store :: "('c, 'a) service \<Rightarrow> ('c vault, 'a) service" where
  "on_store m v = (case m (vstore v) of (r, s) \<Rightarrow> (r, v\<lparr>vstore := s\<rparr>))"

definition randomUUID :: "'c site \<Rightarrow> ('c vault, string) service" where
  "randomUUID site v = (Inr (uuid site (draws v)), v\<lparr>draws := Suc (draws v)\<rparr>)"

text \<open>A transaction rolls the database back; what reached the blob store stays there.\<close>

definition vault_tx :: "('c vault, 'a) service \<Rightarrow> ('c vault, 'a) service" where
  "vault_tx m v = (case m v of (Inl e, w) \<Rightarrow> (Inl (mapDatabaseError e), w\<lparr>vdb := vdb v\<rparr>)
     | (Inr x, w) \<Rightarrow> (Inr x, w))"

definition resolveVersionCapPerNode :: "'c site \<Rightarrow> nat" where
  "resolveVersionCapPerNode site =
     (case maxPerNode site of Some n \<Rightarrow> if n \<ge> 0 then nat n else
        (case configuredCap site of Some m \<Rightarrow> if m \<ge> 0 then nat m else 10 | None \<Rightarrow> 10)
      | None \<Rightarrow> (case configuredCap site of Some m \<Rightarrow> if m \<ge> 0 then nat m else 10 | None \<Rightarrow> 10))"

text \<open>The key is \<open>null\<close> in WebDAV mode.\<close>

definition prepareUpload :: "'c site \<Rightarrow> nat \<Rightarrow> ('c vault, string option) service" where
  "prepareUpload site fileNodeId =
     (if isWebdavMode site then ret None
      else seqs (randomUUID site) (\<lambda>s3Key.
           seqs (on_db (upsertObjectMap fileNodeId s3Key Obj_pending None)) (\<lambda>_.
           seqs (on_db (evictVersionsBeyondCap fileNodeId (resolveVersionCapPerNode site))) (\<lambda>_.
           ret (Some s3Key)))))"

definition completeUpload ::
  "'c site \<Rightarrow> string \<Rightarrow> nat \<Rightarrow> string option \<Rightarrow> ('c vault, unit) service" where
  "completeUpload site s3Key len mimeType =
     seqs (guard (\<not> isWebdavMode site) (Plain ''completeUpload is not applicable in WebDAV mode'')) (\<lambda>_.
     seqs (reads (\<lambda>v. getObjectMapByS3Key (vdb v) s3Key)) (\<lambda>row.
       case row of
         None \<Rightarrow> throw (Plain (''No object_map entry found for s3Key: '' @ s3Key))
       | Some r \<Rightarrow>
           seqs (on_db (activateObject s3Key (Some len))) (\<lambda>_.
           seqs (on_db (upsertCache (onode r) len mimeType None)) (\<lambda>_. ret ()))))"

text \<open>\<open>resolveWebdavPathOrNull\<close>, and \<open>downloadBlobWebdav\<close>, \<open>uploadToWebdav\<close> over it.\<close>

definition resolveWebdavPathOrNull :: "db \<Rightarrow> nat \<Rightarrow> string option" where
  "resolveWebdavPathOrNull d fileNodeId =
     (case getNode d fileNodeId of None \<Rightarrow> None | Some _ \<Rightarrow> Some (getNodePath d fileNodeId))"

definition downloadBlobWebdav :: "'c site \<Rightarrow> nat \<Rightarrow> ('c vault, buffer option) service" where
  "downloadBlobWebdav site fileNodeId =
     seqs (reads (\<lambda>v. resolveWebdavPathOrNull (vdb v) fileNodeId)) (\<lambda>nodePath.
       case nodePath of None \<Rightarrow> ret None | Some p \<Rightarrow> on_store (downloadBlob (blobs site) p))"

definition cannot_resolve :: err where
  "cannot_resolve = Plain ''Cannot resolve path for fileNodeId''"

definition uploadToWebdav ::
  "'c site \<Rightarrow> nat \<Rightarrow> buffer \<Rightarrow> string option \<Rightarrow> ('c vault, unit) service" where
  "uploadToWebdav site fileNodeId buf mimeType =
     seqs (reads (\<lambda>v. resolveWebdavPathOrNull (vdb v) fileNodeId)) (\<lambda>nodePath.
       case nodePath of
         None \<Rightarrow> throw cannot_resolve
       | Some p \<Rightarrow>
           seqs (on_store (uploadBlob (blobs site) p buf)) (\<lambda>_.
           seqs (on_db (upsertCache fileNodeId (length buf)
                   (if mimeType = None \<or> mimeType = Some [] then Some ''application/octet-stream''
                    else mimeType) None)) (\<lambda>_. ret ())))"

definition downloadNode :: "'c site \<Rightarrow> nat \<Rightarrow> ('c vault, buffer option) service" where
  "downloadNode site fileNodeId =
     (if isWebdavMode site then downloadBlobWebdav site fileNodeId
      else seqs (reads (\<lambda>v. getActiveObject (vdb v) fileNodeId)) (\<lambda>row.
        case row of
          None \<Rightarrow> ret None
        | Some r \<Rightarrow> (case okey r of None \<Rightarrow> ret None
            | Some k \<Rightarrow> if k = [] then ret None else on_store (downloadBlob (blobs site) k))))"

definition overwriteBlob :: "'c site \<Rightarrow> nat \<Rightarrow> buffer \<Rightarrow> ('c vault, string option) service" where
  "overwriteBlob site fileNodeId buf =
     (if isWebdavMode site then seqs (uploadToWebdav site fileNodeId buf None) (\<lambda>_. ret None)
      else seqs (randomUUID site) (\<lambda>newS3Key.
           seqs (on_store (uploadBlob (blobs site) newS3Key buf)) (\<lambda>_.
           seqs (on_db (upsertObjectMap fileNodeId newS3Key Obj_active (Some (length buf)))) (\<lambda>_.
           ret (Some newS3Key)))))"

definition getActiveS3Key :: "'c site \<Rightarrow> nat \<Rightarrow> ('c vault, string option) service" where
  "getActiveS3Key site fileNodeId =
     (if isWebdavMode site then ret None
      else reads (\<lambda>v. Option.bind (getActiveObject (vdb v) fileNodeId) okey))"

definition countActiveByKey :: "'c site \<Rightarrow> string \<Rightarrow> ('c vault, nat) service" where
  "countActiveByKey site s3Key =
     (if isWebdavMode site then ret 0 else reads (\<lambda>v. countActiveObjectsByS3Key (vdb v) s3Key))"

definition duplicateBlob :: "'c site \<Rightarrow> string \<Rightarrow> ('c vault, string) service" where
  "duplicateBlob site sourceS3Key =
     seqs (guard (\<not> isWebdavMode site) (Plain ''duplicateBlob is not applicable in WebDAV mode'')) (\<lambda>_.
     seqs (randomUUID site) (\<lambda>newS3Key.
     seqs (on_store (copyBlob (blobs site) sourceS3Key newS3Key)) (\<lambda>_. ret newS3Key)))"

definition linkObject :: "'c site \<Rightarrow> nat \<Rightarrow> string \<Rightarrow> nat option \<Rightarrow> ('c vault, unit) service" where
  "linkObject site fileNodeId s3Key len =
     seqs (guard (\<not> isWebdavMode site) (Plain ''linkObject is not applicable in WebDAV mode'')) (\<lambda>_.
     seqs (on_db (insertObject fileNodeId s3Key Obj_active len)) (\<lambda>_. ret ()))"

definition ensureExclusiveBlob :: "'c site \<Rightarrow> nat \<Rightarrow> ('c vault, string option) service" where
  "ensureExclusiveBlob site fileNodeId =
     (if isWebdavMode site then ret None
      else seqs (reads (\<lambda>v. getActiveObject (vdb v) fileNodeId)) (\<lambda>row.
        case row of
          None \<Rightarrow> ret None
        | Some r \<Rightarrow> (case okey r of None \<Rightarrow> ret None
            | Some k \<Rightarrow> if k = [] then ret None else
                seqs (reads (\<lambda>v. countActiveObjectsByS3Key (vdb v) k)) (\<lambda>count.
                if count > 1 then
                  seqs (duplicateBlob site k) (\<lambda>newS3Key.
                  seqs (on_db (upsertObjectMap fileNodeId newS3Key Obj_active (osize r))) (\<lambda>_.
                  ret (Some newS3Key)))
                else ret (Some k)))))"

definition createDirectoryWebdav :: "'c site \<Rightarrow> nat \<Rightarrow> ('c vault, string option) service" where
  "createDirectoryWebdav site nodeId =
     (if \<not> isWebdavMode site then ret None
      else seqs (reads (\<lambda>v. resolveWebdavPathOrNull (vdb v) nodeId)) (\<lambda>nodePath.
        case nodePath of
          None \<Rightarrow> throw cannot_resolve
        | Some p \<Rightarrow>
            seqs (catching (on_store (makeDirectory (blobs site) p))
                   (\<lambda>e. seqs (on_db (updateSyncStatus nodeId Orphaned_node)) (\<lambda>_. throw e)))
              (\<lambda>_. ret (Some p))))"

end
