(* ===== verification/Upload.thy ===== *)
theory Upload
  imports Blobs
begin

text \<open>
  \<open>server/service/uploadService.js\<close>: creating a file with its content and overwriting the content
  of an existing one, in the phases database transaction, blob upload, database transaction, with
  the recovery of each. The cached thumbnail and the enrichment hook, which never throws, leave no
  modelled state.
\<close>

section \<open>Phases\<close>

record upload_result =
  ur_node :: nat
  ur_key :: "string option"
  ur_size :: nat
  ur_mime :: "string option"
  ur_hash :: string

text \<open>The stores test \<open>!key\<close>: the \<open>null\<close> key of WebDAV mode is as falsy as the empty one.\<close>

definition key_arg :: "string option \<Rightarrow> string" where
  "key_arg k = (case k of None \<Rightarrow> [] | Some s \<Rightarrow> s)"

definition put_content :: "'c site \<Rightarrow> string option \<Rightarrow> buffer \<Rightarrow> ('c vault, unit) service" where
  "put_content site s3Key buf = on_store (uploadBlob (blobs site) (key_arg s3Key) buf)"

definition finish_upload ::
  "'c site \<Rightarrow> nat \<Rightarrow> string option \<Rightarrow> nat \<Rightarrow> string option \<Rightarrow> ('c vault, unit) service" where
  "finish_upload site nodeId s3Key len mimeType =
     vault_tx (seqs (completeUpload site (key_arg s3Key) len mimeType) (\<lambda>_.
               on_db (updateSyncStatus nodeId Active)))"

text \<open>\<open>try { ... } catch { ignore }\<close>.\<close>

definition best_effort :: "('s, 'a) service \<Rightarrow> ('s, unit) service" where
  "best_effort m = catching (seqs m (\<lambda>_. ret ())) (\<lambda>_. ret ())"

definition record_hash ::
  "'c site \<Rightarrow> nat \<Rightarrow> string option \<Rightarrow> buffer \<Rightarrow> string option \<Rightarrow> ('c vault, upload_result) service" where
  "record_hash site nodeId s3Key buf mimeType =
     seqs (best_effort (on_db (upsertCache nodeId (length buf) mimeType (Some (sha256 site buf))))) (\<lambda>_.
       ret \<lparr>ur_node = nodeId, ur_key = s3Key, ur_size = length buf, ur_mime = mimeType,
            ur_hash = sha256 site buf\<rparr>)"

section \<open>A new file\<close>

definition uploadFile ::
  "'c site \<Rightarrow> nat option \<Rightarrow> string \<Rightarrow> buffer \<Rightarrow> string option \<Rightarrow> ('c vault, upload_result) service" where
  "uploadFile site parentNodeId name buf mimeType =
     seqs (on_db (createFile parentNodeId name)) (\<lambda>node.
     seqs (prepareUpload site (v_id node)) (\<lambda>s3Key.
     seqs (catching
            (seqs (put_content site s3Key buf) (\<lambda>_.
              finish_upload site (v_id node) s3Key (length buf) mimeType))
            (\<lambda>error. seqs (best_effort (on_db (deleteNode (v_id node)))) (\<lambda>_. throw error)))
       (\<lambda>_. record_hash site (v_id node) s3Key buf mimeType)))"

section \<open>A new version\<close>

definition rollbackOverwrite ::
  "'c site \<Rightarrow> nat \<Rightarrow> obj option \<Rightarrow> cache_row option \<Rightarrow> string option \<Rightarrow> ('c vault, unit) service" where
  "rollbackOverwrite site fileNodeId previousActive previousCache newS3Key =
     seqs (best_effort (vault_tx (on_db
       (seqs (case previousActive of None \<Rightarrow> ret 0 | Some r \<Rightarrow> reactivateObjectMapRow (oid r)) (\<lambda>_.
        seqs (updateSyncStatus fileNodeId Active) (\<lambda>_.
        seqs (reads (\<lambda>d. getObjectMapByS3Key d (key_arg newS3Key))) (\<lambda>pendingRow.
          case pendingRow of None \<Rightarrow> ret 0 | Some r \<Rightarrow> deleteObjectMapRows [oid r]))))))) (\<lambda>_.
     seqs (best_effort (on_store (deleteBlob (blobs site) (key_arg newS3Key)))) (\<lambda>_.
     best_effort (on_db (case previousCache of None \<Rightarrow> ret 0
       | Some c \<Rightarrow> upsertCache fileNodeId (csize c) (cmime c) (chash c)))))"

definition begin_overwrite :: "'c site \<Rightarrow> nat \<Rightarrow> ('c vault, string option) service" where
  "begin_overwrite site fileNodeId =
     vault_tx (seqs (prepareUpload site fileNodeId) (\<lambda>s3Key.
               seqs (on_db (updateSyncStatus fileNodeId Pending_upload)) (\<lambda>_. ret s3Key)))"

definition overwriteFile ::
  "'c site \<Rightarrow> nat \<Rightarrow> buffer \<Rightarrow> string option \<Rightarrow> ('c vault, upload_result) service" where
  "overwriteFile site fileNodeId buf mimeType =
     seqs (reads (\<lambda>v. getActiveObject (vdb v) fileNodeId)) (\<lambda>previousActive.
     seqs (reads (\<lambda>v. getCache (vdb v) fileNodeId)) (\<lambda>previousCache.
     seqs (begin_overwrite site fileNodeId) (\<lambda>s3Key.
     seqs (catching
            (seqs (put_content site s3Key buf) (\<lambda>_.
              finish_upload site fileNodeId s3Key (length buf) mimeType))
            (\<lambda>error. seqs (rollbackOverwrite site fileNodeId previousActive previousCache s3Key)
               (\<lambda>_. throw error)))
       (\<lambda>_. record_hash site fileNodeId s3Key buf mimeType))))"

end
