(* ===== verification/ObjectLaws.thy ===== *)
theory ObjectLaws
  imports Objects TreeProps
begin

text \<open>
  What the object and cache tables keep, and the laws of the version rows: a new version takes the
  next number and leaves at most one active row, and the cap evicts exactly the oldest history rows.
\<close>

section \<open>Well-formed object and cache tables\<close>

definition objs_ok :: "db \<Rightarrow> bool" where
  "objs_ok d \<longleftrightarrow> distinct (map oid (object_map d)) \<and>
     distinct (map (\<lambda>r. (onode r, overs r)) (object_map d)) \<and>
     (\<forall>r \<in> set (object_map d). oid r < next_obj d \<and> has_node d (onode r))"

definition cache_ok :: "db \<Rightarrow> bool" where
  "cache_ok d \<longleftrightarrow> distinct (map cnode (filecache d)) \<and> (\<forall>c \<in> set (filecache d). has_node d (cnode c))"

text \<open>The other tables that reference a node.\<close>

definition refs_ok :: "db \<Rightarrow> bool" where
  "refs_ok d \<longleftrightarrow>
     (\<forall>g \<in> set (user_paths d) \<union> set (user_files d). has_node d (gnode g)) \<and>
     (\<forall>g \<in> set (perm_shares d). has_node d (snode g)) \<and>
     (\<forall>l \<in> set (share_links d). has_node d (lnode l)) \<and>
     (\<forall>r \<in> set (requests d). has_node d (rnode r))"

definition meta_ok :: "db \<Rightarrow> bool" where
  "meta_ok d \<longleftrightarrow> tree_ok d \<and> objs_ok d \<and> cache_ok d \<and> refs_ok d"

lemma meta_okD:
  assumes "meta_ok d"
  shows "tree_ok d" "objs_ok d" "cache_ok d" "refs_ok d"
  using assms by (simp_all add: meta_ok_def)

lemma objs_okD:
  assumes "objs_ok d"
  shows "distinct (map oid (object_map d))"
    and "distinct (map (\<lambda>r. (onode r, overs r)) (object_map d))"
    and "r \<in> set (object_map d) \<Longrightarrow> oid r < next_obj d"
    and "r \<in> set (object_map d) \<Longrightarrow> has_node d (onode r)"
  using assms by (auto simp: objs_ok_def)

section \<open>Ranks\<close>

text \<open>In a set of numbers, those with fewer than \<open>n\<close> smaller ones are the \<open>n\<close> smallest.\<close>

lemma card_low_ranks:
  fixes S :: "nat set"
  assumes "finite S"
  shows "card {x \<in> S. card {y \<in> S. y < x} < n} = min n (card S)"
  using assms
proof (induction "card S" arbitrary: S)
  case 0
  then show ?case by auto
next
  case (Suc k)
  define m where "m = Max S"
  define T where "T = S - {m}"
  have "S \<noteq> {}" using Suc.hyps(2) by auto
  then have m: "m \<in> S" "\<And>y. y \<in> S \<Longrightarrow> y \<le> m"
    using Suc.prems Max_in Max_ge unfolding m_def by auto
  have T: "finite T" "card T = k" "S = insert m T" "m \<notin> T"
    using Suc m by (auto simp: T_def)
  have IH: "card {x \<in> T. card {y \<in> T. y < x} < n} = min n k"
    using Suc.hyps(1) [of T] T by simp
  have low: "{y \<in> S. y < x} = {y \<in> T. y < x}" if "x \<in> S" for x
    using m(2) [OF that] T(3) by auto
  have top: "{y \<in> S. y < m} = T" using m T le_neq_trans by fastforce
  have "{x \<in> S. card {y \<in> S. y < x} < n} = {x \<in> S. card {y \<in> T. y < x} < n}"
    using low by (intro Collect_cong conj_cong refl) simp
  also have "\<dots> = {x \<in> T. card {y \<in> T. y < x} < n} \<union> {x. x = m \<and> card {y \<in> T. y < m} < n}"
    unfolding T(3) by (simp add: set_eq_iff) metis
  also have "{y \<in> T. y < m} = T" using low [OF m(1)] top by simp
  finally have split: "{x \<in> S. card {y \<in> S. y < x} < n}
      = {x \<in> T. card {y \<in> T. y < x} < n} \<union> (if k < n then {m} else {})"
    using T(2) by simp
  show ?case
    using IH T(1,2,4) Suc.hyps(2) unfolding split by (auto simp: card_insert_disjoint)
qed

lemma card_filter_image:
  assumes "distinct (map f xs)"
  shows "length (filter p xs) = card (f ` {x \<in> set xs. p x})"
proof -
  have "distinct (map f (filter p xs))" using assms by (rule distinct_map_filter)
  then have "card (f ` set (filter p xs)) = length (filter p xs)"
    by (metis distinct_card length_map set_map)
  then show ?thesis by simp
qed

text \<open>The list form: rows with distinct keys, \<open>p\<close> the ranked ones.\<close>

lemma count_low_ranks:
  fixes f :: "'a \<Rightarrow> nat"
  assumes "distinct (map f xs)"
  shows "length (filter (\<lambda>x. p x \<and> length (filter (\<lambda>y. p y \<and> f y < f x) xs) < n) xs)
           = min n (length (filter p xs))"
proof -
  let ?S = "f ` {x \<in> set xs. p x}"
  have rank: "length (filter (\<lambda>y. p y \<and> f y < v) xs) = card {u \<in> ?S. u < v}" for v
  proof -
    have "f ` {x \<in> set xs. p x \<and> f x < v} = {u \<in> ?S. u < v}" by auto
    then show ?thesis using card_filter_image [OF assms] by metis
  qed
  have "f ` {x \<in> set xs. p x \<and> card {u \<in> ?S. u < f x} < n}
      = {u \<in> ?S. card {w \<in> ?S. w < u} < n}" by auto
  then show ?thesis
    unfolding rank card_filter_image [OF assms] using card_low_ranks [of ?S n] by simp
qed

section \<open>The cap of versions per node\<close>

lemma filter_update_where_drop:
  assumes "\<And>x. p x \<Longrightarrow> \<not> q (f x)"
  shows "filter q (update_where p f xs) = filter (\<lambda>x. \<not> p x \<and> q x) xs"
  using assms by (induction xs) (auto simp: update_where_def)

lemma filter_update_where:
  assumes "\<And>x. q (f x) = q x"
  shows "filter q (update_where p f xs) = update_where p f (filter q xs)"
  using assms by (induction xs) (auto simp: update_where_def)

lemma length_filter_mono: "(\<And>x. p x \<Longrightarrow> q x) \<Longrightarrow> length (filter p xs) \<le> length (filter q xs)"
  by (induction xs) (auto simp: le_SucI)

lemma node_objs_versions: "objs_ok d \<Longrightarrow> distinct (map overs (node_objs d i))"
proof -
  assume "objs_ok d"
  then have "distinct (map (\<lambda>r. (onode r, overs r)) (node_objs d i))"
    unfolding node_objs_def by (intro distinct_map_filter) (simp add: objs_ok_def)
  then show ?thesis by (auto simp: distinct_map inj_on_def node_objs_def)
qed

definition orphan :: "obj \<Rightarrow> obj" where
  "orphan r = r\<lparr>ostatus := Obj_orphaned\<rparr>"

lemma orphan_simps [simp]:
  "ostatus (orphan r) = Obj_orphaned" "onode (orphan r) = onode r" "oid (orphan r) = oid r"
  "overs (orphan r) = overs r" "okey (orphan r) = okey r"
  by (simp_all add: orphan_def)

lemma evict_eq:
  "cap > 0 \<Longrightarrow> evictVersionsBeyondCap i cap d =
     (Inr (count_where (evicted d i cap) (object_map d)),
      d\<lparr>object_map := update_where (evicted d i cap) orphan (object_map d)\<rparr>)"
  by (simp add: evictVersionsBeyondCap_def update_objs_def orphan_def [abs_def])

definition status_count :: "db \<Rightarrow> nat \<Rightarrow> obj_status \<Rightarrow> nat" where
  "status_count d i st = length (filter (\<lambda>r. ostatus r = st) (node_objs d i))"

lemma length_filter_disj:
  "(\<And>x. \<not> (p x \<and> q x)) \<Longrightarrow>
     length (filter (\<lambda>x. p x \<or> q x) xs) = length (filter p xs) + length (filter q xs)"
  by (induction xs) auto

lemma kept_versions_count:
  "length (kept_versions d i) = status_count d i Obj_active + status_count d i Obj_history"
  unfolding kept_versions_def status_count_def is_kept_def insert_iff empty_iff simp_thms
  by (rule length_filter_disj) simp

text \<open>
  What the cap evicts: the oldest history rows, as many as bring the kept rows down to the cap,
  and no active row.
\<close>

lemma evicted_count:
  assumes "objs_ok d"
  shows "length (filter (evicted d i cap) (node_objs d i))
           = min (length (kept_versions d i) - cap) (status_count d i Obj_history)"
proof -
  have "filter (evicted d i cap) (node_objs d i)
      = filter (\<lambda>r. ostatus r = Obj_history \<and> length (filter (\<lambda>x. ostatus x = Obj_history \<and> overs x < overs r)
          (node_objs d i)) < length (kept_versions d i) - cap) (node_objs d i)"
    unfolding evicted_def older_history_def by (rule filter_cong) (auto simp: node_objs_def)
  then show ?thesis
    using count_low_ranks [OF node_objs_versions [OF assms], of "\<lambda>r. ostatus r = Obj_history"]
    by (simp add: status_count_def)
qed

lemma evict_status_count:
  assumes "objs_ok d" and d': "object_map d' = update_where (evicted d i cap) orphan (object_map d)"
  shows "status_count d' i Obj_active = status_count d i Obj_active"
    and "status_count d' i Obj_history
           = status_count d i Obj_history - (length (kept_versions d i) - cap)"
proof -
  have no: "node_objs d' i = update_where (evicted d i cap) orphan (node_objs d i)"
    unfolding node_objs_def d' by (rule filter_update_where) simp
  have "filter (\<lambda>r. ostatus r = Obj_active) (node_objs d' i)
      = filter (\<lambda>r. \<not> evicted d i cap r \<and> ostatus r = Obj_active) (node_objs d i)"
    unfolding no by (rule filter_update_where_drop) simp
  also have "\<dots> = filter (\<lambda>r. ostatus r = Obj_active) (node_objs d i)"
    by (rule filter_cong) (auto simp: evicted_def)
  finally show "status_count d' i Obj_active = status_count d i Obj_active"
    by (simp add: status_count_def)
  have h: "filter (\<lambda>r. ostatus r = Obj_history) (node_objs d' i)
      = filter (\<lambda>r. \<not> evicted d i cap r \<and> ostatus r = Obj_history) (node_objs d i)"
    unfolding no by (rule filter_update_where_drop) simp
  have "length (filter (\<lambda>r. evicted d i cap r \<or> (\<not> evicted d i cap r \<and> ostatus r = Obj_history)) (node_objs d i))
      = length (filter (evicted d i cap) (node_objs d i))
        + length (filter (\<lambda>r. \<not> evicted d i cap r \<and> ostatus r = Obj_history) (node_objs d i))"
    by (rule length_filter_disj) simp
  moreover have "filter (\<lambda>r. evicted d i cap r \<or> (\<not> evicted d i cap r \<and> ostatus r = Obj_history)) (node_objs d i)
      = filter (\<lambda>r. ostatus r = Obj_history) (node_objs d i)"
    by (rule filter_cong) (auto simp: evicted_def)
  ultimately show "status_count d' i Obj_history
      = status_count d i Obj_history - (length (kept_versions d i) - cap)"
    using evicted_count [OF assms(1), of i cap] h by (simp add: status_count_def)
qed

text \<open>An evicted row is older than every history row that stays.\<close>

lemma evicted_oldest:
  assumes "evicted d i cap r" "r' \<in> set (node_objs d i)" "ostatus r' = Obj_history"
    "\<not> evicted d i cap r'"
  shows "overs r < overs r'"
proof (rule ccontr)
  assume "\<not> overs r < overs r'"
  then have "older_history d i (overs r') \<le> older_history d i (overs r)"
    unfolding older_history_def by (intro length_filter_mono) auto
  with assms show False by (auto simp: evicted_def node_objs_def)
qed

section \<open>New versions\<close>

definition to_history :: "obj \<Rightarrow> obj" where
  "to_history r = r\<lparr>ostatus := Obj_history\<rparr>"

definition is_active :: "nat \<Rightarrow> obj \<Rightarrow> bool" where
  "is_active i r \<longleftrightarrow> onode r = i \<and> ostatus r = Obj_active"

definition new_version :: "db \<Rightarrow> nat \<Rightarrow> string \<Rightarrow> obj_status \<Rightarrow> nat option \<Rightarrow> obj" where
  "new_version d i key st len =
     \<lparr>oid = next_obj d, onode = i, okey = Some key, osize = len, obackend = S3,
      overs = max_version d i + 1, ostatus = st, ocreated = datetime_now d\<rparr>"

lemma to_history_simps [simp]:
  "ostatus (to_history r) = Obj_history" "onode (to_history r) = onode r" "oid (to_history r) = oid r"
  "overs (to_history r) = overs r" "okey (to_history r) = okey r"
  by (simp_all add: to_history_def)

lemma new_version_simps [simp]:
  "ostatus (new_version d i k st l) = st" "onode (new_version d i k st l) = i"
  "oid (new_version d i k st l) = next_obj d" "okey (new_version d i k st l) = Some k"
  "overs (new_version d i k st l) = Suc (max_version d i)" "osize (new_version d i k st l) = l"
  by (simp_all add: new_version_def)

lemma fold_max_ge: "a \<le> fold max xs (a :: nat)" "x \<in> set xs \<Longrightarrow> x \<le> fold max xs a"
proof (induction xs arbitrary: a)
  case (Cons y ys)
  { case 1 show ?case using Cons.IH(1) [of "max y a"] by simp }
  { case 2
    then consider "x = y" | "x \<in> set ys" by auto
    then show ?case
    proof cases
      assume "x = y"
      then have "x \<le> max y a" by simp
      also have "\<dots> \<le> fold max ys (max y a)" by (rule Cons.IH(1))
      finally show ?thesis by simp
    qed (simp add: Cons.IH(2)) }
qed simp_all

lemma max_version_ge: "r \<in> set (object_map d) \<Longrightarrow> onode r = i \<Longrightarrow> overs r \<le> max_version d i"
  unfolding max_version_def by (rule fold_max_ge(2)) (auto simp: node_objs_def)

lemma max_version_update:
  assumes "\<And>r. onode (f r) = onode r" "\<And>r. overs (f r) = overs r"
  shows "max_version (d\<lparr>object_map := update_where p f (object_map d)\<rparr>) i = max_version d i"
proof -
  have "map overs (filter (\<lambda>r. onode r = i) (update_where p f xs))
      = map overs (filter (\<lambda>r. onode r = i) xs)" for xs
    using assms by (induction xs) (auto simp: update_where_def)
  then show ?thesis by (simp add: max_version_def node_objs_def)
qed

lemma has_node_objs [simp]:
  "has_node (d\<lparr>object_map := xs\<rparr>) i = has_node d i" "has_node (d\<lparr>filecache := ys\<rparr>) i = has_node d i"
  "has_node (d\<lparr>next_obj := k\<rparr>) i = has_node d i"
  by (simp_all add: has_node_def)

definition with_version :: "db \<Rightarrow> nat \<Rightarrow> string \<Rightarrow> obj_status \<Rightarrow> nat option \<Rightarrow> db" where
  "with_version d i key st len =
     d\<lparr>object_map := update_where (is_active i) to_history (object_map d) @ [new_version d i key st len],
       next_obj := Suc (next_obj d)\<rparr>"

lemma is_active_eq: "(\<lambda>r. onode r = i \<and> ostatus r = Obj_active) = is_active i"
  by (simp add: is_active_def fun_eq_iff)

lemma upsert_eq:
  assumes "has_node d i"
  shows "upsertObjectMap i key st len d = (Inr 1, with_version d i key st len)"
proof -
  let ?d = "d\<lparr>object_map := update_where (is_active i) to_history (object_map d)\<rparr>"
  have mv: "max_version ?d i = max_version d i" by (rule max_version_update) simp_all
  have fresh: "\<not> (\<exists>r \<in> set (object_map ?d). onode r = i \<and> overs r = max_version ?d i + 1)"
    using max_version_ge [of _ ?d i] by fastforce
  show ?thesis
    using assms fresh mv
    by (simp add: upsertObjectMap_def service_simps seqs_def update_objs_def reads_def
        is_active_eq to_history_def [abs_def, symmetric] insert_version_def
        with_version_def new_version_def datetime_now_def)
qed

lemma upsert_missing: "\<not> has_node d i \<Longrightarrow> \<exists>t. upsertObjectMap i key st len d = (Inl db_failed, t)"
  by (simp add: upsertObjectMap_def service_simps seqs_def update_objs_def reads_def insert_version_def)

lemma objs_ok_update:
  assumes "objs_ok d" "\<And>r. onode (f r) = onode r" "\<And>r. overs (f r) = overs r" "\<And>r. oid (f r) = oid r"
  shows "objs_ok (d\<lparr>object_map := update_where p f (object_map d)\<rparr>)"
  using assms by (auto simp: objs_ok_def map_update_where set_update_where)

lemma objs_ok_snoc:
  assumes "objs_ok d" "oid r = next_obj d" "has_node d (onode r)"
    "\<And>q. q \<in> set (object_map d) \<Longrightarrow> onode q = onode r \<Longrightarrow> overs q \<noteq> overs r"
  shows "objs_ok (d\<lparr>object_map := object_map d @ [r], next_obj := Suc (next_obj d)\<rparr>)"
  using assms unfolding objs_ok_def by (auto simp: less_Suc_eq) metis

lemma with_version_ok:
  assumes "objs_ok d" "has_node d i"
  shows "objs_ok (with_version d i key st len)"
proof -
  let ?d = "d\<lparr>object_map := update_where (is_active i) to_history (object_map d)\<rparr>"
  have "objs_ok ?d" by (rule objs_ok_update [OF assms(1)]) simp_all
  moreover have "overs q < overs (new_version d i key st len)"
    if "q \<in> set (object_map ?d)" "onode q = i" for q
  proof -
    have "max_version ?d i = max_version d i" by (rule max_version_update) simp_all
    then show ?thesis using max_version_ge [OF that] by simp
  qed
  ultimately have "objs_ok (?d\<lparr>object_map := object_map ?d @ [new_version d i key st len],
      next_obj := Suc (next_obj ?d)\<rparr>)"
    using assms(2) by (intro objs_ok_snoc) fastforce+
  then show ?thesis by (simp add: with_version_def)
qed

lemma objs_ok_delete: "objs_ok d \<Longrightarrow> objs_ok (d\<lparr>object_map := delete_where p (object_map d)\<rparr>)"
  by (auto simp: objs_ok_def distinct_map_delete)

lemma deleteObjectMapRows_eq:
  "\<exists>n. deleteObjectMapRows ids d =
     (Inr n, d\<lparr>object_map := delete_where (\<lambda>r. oid r \<in> set ids) (object_map d)\<rparr>)"
proof (induction ids arbitrary: d)
  case (Cons i ids)
  let ?d = "d\<lparr>object_map := delete_where (\<lambda>r. oid r = i) (object_map d)\<rparr>"
  obtain n where "deleteObjectMapRows ids ?d =
      (Inr n, ?d\<lparr>object_map := delete_where (\<lambda>r. oid r \<in> set ids) (object_map ?d)\<rparr>)"
    using Cons by blast
  moreover have "delete_where (\<lambda>r. oid r \<in> set ids) (delete_where (\<lambda>r. oid r = i) (object_map d))
      = delete_where (\<lambda>r. oid r \<in> set (i # ids)) (object_map d)"
    unfolding delete_where_def filter_filter by (rule filter_cong) auto
  ultimately show ?case by (simp add: Let_def seqs_def ret_def)
qed (simp add: delete_where_id)

section \<open>Cache rows\<close>

lemma upsertCache_ok:
  assumes "has_node d i"
  shows "\<exists>n fc. upsertCache i len mime hash d = (Inr n, d\<lparr>filecache := fc\<rparr>) \<and>
    (cache_ok d \<longrightarrow> cache_ok (d\<lparr>filecache := fc\<rparr>)) \<and>
    (\<forall>j. j \<noteq> i \<longrightarrow> getCache (d\<lparr>filecache := fc\<rparr>) j = getCache d j) \<and>
    (\<exists>c. getCache (d\<lparr>filecache := fc\<rparr>) i = Some c \<and> csize c = len \<and>
      cmime c = (if mime = Some [] then None else mime) \<and>
      chash c = (if hash = Some [] then None else hash))"
proof -
  define row where "row = \<lparr>cnode = i, csize = len, cmime = (if mime = Some [] then None else mime),
    chash = (if hash = Some [] then None else hash), cupdated = datetime_now d\<rparr>"
  show ?thesis
  proof (cases "filter (\<lambda>c. cnode c = i) (filecache d) = []")
    case True
    then have eq: "upsertCache i len mime hash d = (Inr 1, d\<lparr>filecache := filecache d @ [row]\<rparr>)"
      using assms by (simp add: upsertCache_def row_def Let_def)
    show ?thesis
      unfolding eq by (rule exI [of _ 1], rule exI [of _ "filecache d @ [row]"])
        (use True assms in \<open>auto simp: row_def getCache_def cache_ok_def filter_empty_conv\<close>)
  next
    case False
    let ?fc = "update_where (\<lambda>c. cnode c = i) (\<lambda>_. row) (filecache d)"
    have eq: "upsertCache i len mime hash d
        = (Inr (count_where (\<lambda>c. cnode c = i) (filecache d)), d\<lparr>filecache := ?fc\<rparr>)"
      using False by (simp add: upsertCache_def row_def Let_def)
    have rn: "cnode row = i" by (simp add: row_def)
    have ids: "map cnode (update_where (\<lambda>c. cnode c = i) (\<lambda>_. row) xs) = map cnode xs" for xs
      by (induction xs) (auto simp: update_where_def rn)
    have other: "filter (\<lambda>c. cnode c = j) (update_where (\<lambda>c. cnode c = i) (\<lambda>_. row) xs)
        = filter (\<lambda>c. cnode c = j) xs" if "j \<noteq> i" for j xs
      using that by (induction xs) (auto simp: update_where_def rn)
    have own: "filter (\<lambda>c. cnode c = i) xs \<noteq> [] \<Longrightarrow>
        first_row (filter (\<lambda>c. cnode c = i) (update_where (\<lambda>c. cnode c = i) (\<lambda>_. row) xs)) = Some row" for xs
      by (induction xs) (auto simp: update_where_def rn)
    have "cnode ` set ?fc = cnode ` set (filecache d)" using ids by (metis set_map)
    then have "cache_ok d \<Longrightarrow> cache_ok (d\<lparr>filecache := ?fc\<rparr>)"
      using ids unfolding cache_ok_def by simp (metis image_iff)
    then show ?thesis
      unfolding eq using False other own by (auto simp: getCache_def row_def)
  qed
qed

end
