(* ===== verification/UploadLaws.thy ===== *)
theory UploadLaws
  imports Upload ObjectLaws
begin

text \<open>
  What the phases of an upload do to the database and the blob store, and the properties of
  \<open>uploadFile\<close> and \<open>overwriteFile\<close>: all or nothing for a new file, the exact outcome of a new
  version and of its rollback, the number of versions that stay, and two interleaved overwrites.

  The S3 client is a parameter; \<open>s3_laws\<close> states the documented behaviour that is used: an object
  written is the object read, a failed request changes no other key, and every request is answered.
\<close>

section \<open>The documented behaviour of the S3 client\<close>

definition put_law :: "'c s3_client \<Rightarrow> ('c \<Rightarrow> string \<Rightarrow> buffer option) \<Rightarrow> bool" where
  "put_law client content \<longleftrightarrow> (\<forall>k b s. case send_put client k b s of
      (Inr _, t) \<Rightarrow> content t = (content s)(k \<mapsto> b)
    | (Inl e, t) \<Rightarrow> e \<noteq> No_return \<and> (\<forall>j. j \<noteq> k \<longrightarrow> content t j = content s j))"

definition get_law :: "'c s3_client \<Rightarrow> ('c \<Rightarrow> string \<Rightarrow> buffer option) \<Rightarrow> bool" where
  "get_law client content \<longleftrightarrow> (\<forall>k s. case send_get client k s of
      (Inr b, t) \<Rightarrow> content t = content s \<and> content s k = Some b
    | (Inl e, t) \<Rightarrow> e \<noteq> No_return \<and> content t = content s)"

definition delete_law :: "'c s3_client \<Rightarrow> ('c \<Rightarrow> string \<Rightarrow> buffer option) \<Rightarrow> bool" where
  "delete_law client content \<longleftrightarrow> (\<forall>k s. case send_delete client k s of
      (Inr _, t) \<Rightarrow> content t = (content s)(k := None)
    | (Inl e, t) \<Rightarrow> e \<noteq> No_return \<and> (\<forall>j. j \<noteq> k \<longrightarrow> content t j = content s j) \<and>
        (no_such_key e \<longrightarrow> content t k = None))"

definition copy_law :: "'c s3_client \<Rightarrow> ('c \<Rightarrow> string \<Rightarrow> buffer option) \<Rightarrow> bool" where
  "copy_law client content \<longleftrightarrow> (\<forall>k k' s. case send_copy client k k' s of
      (Inr _, t) \<Rightarrow> content s k \<noteq> None \<and> content t = (content s)(k' := content s k)
    | (Inl e, t) \<Rightarrow> e \<noteq> No_return \<and> (\<forall>j. j \<noteq> k' \<longrightarrow> content t j = content s j))"

definition s3_laws :: "'c s3_client \<Rightarrow> ('c \<Rightarrow> string \<Rightarrow> buffer option) \<Rightarrow> bool" where
  "s3_laws client content \<longleftrightarrow> put_law client content \<and> get_law client content \<and>
     delete_law client content \<and> copy_law client content"

definition s3_site :: "'c site \<Rightarrow> ('c \<Rightarrow> string \<Rightarrow> buffer option) \<Rightarrow> bool" where
  "s3_site site content \<longleftrightarrow>
     \<not> isWebdavMode site \<and> (\<exists>client. blobs site = s3_store client \<and> s3_laws client content)"

lemma upload_blob_cases:
  assumes "s3_site site content" "k \<noteq> []"
  shows "(\<exists>t. uploadBlob (blobs site) k b s = (Inr (), t) \<and> content t = (content s)(k \<mapsto> b)) \<or>
    (\<exists>e t. uploadBlob (blobs site) k b s = (Inl e, t) \<and> e \<noteq> No_return \<and>
       (\<forall>j. j \<noteq> k \<longrightarrow> content t j = content s j))"
proof -
  obtain client where c: "blobs site = s3_store client" "s3_laws client content"
    using assms(1) by (auto simp: s3_site_def)
  then have law: "case send_put client k b s of (Inr _, t) \<Rightarrow> content t = (content s)(k \<mapsto> b)
      | (Inl e, t) \<Rightarrow> e \<noteq> No_return \<and> (\<forall>j. j \<noteq> k \<longrightarrow> content t j = content s j)"
    by (simp add: s3_laws_def put_law_def)
  show ?thesis
    using assms(2) law by (auto simp: c(1) s3_store_def s3_uploadBlob_def service_simps split: prod.splits sum.splits)
qed

lemma delete_blob_cases:
  assumes "s3_site site content"
  shows "(\<exists>t. deleteBlob (blobs site) k s = (Inr (), t) \<and> content t = (content s)(k := None)) \<or>
    (\<exists>e t. deleteBlob (blobs site) k s = (Inl e, t) \<and> e \<noteq> No_return \<and>
       (\<forall>j. j \<noteq> k \<longrightarrow> content t j = content s j))"
proof -
  obtain client where c: "blobs site = s3_store client" "s3_laws client content"
    using assms(1) by (auto simp: s3_site_def)
  then have law: "case send_delete client k s of (Inr _, t) \<Rightarrow> content t = (content s)(k := None)
      | (Inl e, t) \<Rightarrow> e \<noteq> No_return \<and> (\<forall>j. j \<noteq> k \<longrightarrow> content t j = content s j) \<and>
        (no_such_key e \<longrightarrow> content t k = None)"
    by (simp add: s3_laws_def delete_law_def)
  show ?thesis
    using law by (auto simp: c(1) s3_store_def s3_deleteBlob_def catching_def throw_def ret_def fun_eq_iff
        split: prod.splits sum.splits)
qed

lemma download_blob_cases:
  assumes "s3_site site content"
  shows "case downloadBlob (blobs site) k s of
      (Inr b, t) \<Rightarrow> content t = content s \<and> b = content s k \<and> b \<noteq> None
    | (Inl e, t) \<Rightarrow> content t = content s"
proof -
  obtain client where c: "blobs site = s3_store client" "s3_laws client content"
    using assms(1) by (auto simp: s3_site_def)
  then have law: "case send_get client k s of (Inr b, t) \<Rightarrow> content t = content s \<and> content s k = Some b
      | (Inl e, t) \<Rightarrow> e \<noteq> No_return \<and> content t = content s"
    by (simp add: s3_laws_def get_law_def)
  show ?thesis
    using law by (auto simp: c(1) s3_store_def s3_downloadBlob_def seqs_def ret_def split: prod.splits sum.splits)
qed

section \<open>Preparing a version\<close>

definition older_kept :: "db \<Rightarrow> nat \<Rightarrow> nat \<Rightarrow> nat" where
  "older_kept d i v = length (filter (\<lambda>q. is_kept q \<and> overs q < v) (node_objs d i))"

text \<open>The kept rows that fall out of the cap when all of them are history.\<close>

definition falls_out :: "db \<Rightarrow> nat \<Rightarrow> nat \<Rightarrow> obj \<Rightarrow> bool" where
  "falls_out d i cap r \<longleftrightarrow> cap > 0 \<and> onode r = i \<and> is_kept r \<and>
     older_kept d i (overs r) < length (kept_versions d i) - cap"

definition age_row :: "db \<Rightarrow> nat \<Rightarrow> nat \<Rightarrow> obj \<Rightarrow> obj" where
  "age_row d i cap r =
     (if falls_out d i cap r then orphan r else if is_active i r then to_history r else r)"

definition prepared :: "db \<Rightarrow> nat \<Rightarrow> string \<Rightarrow> nat \<Rightarrow> db" where
  "prepared d i key cap =
     d\<lparr>object_map := map (age_row d i cap) (object_map d) @ [new_version d i key Obj_pending None],
       next_obj := Suc (next_obj d)\<rparr>"

lemma age_row_simps [simp]:
  "onode (age_row d i cap r) = onode r" "oid (age_row d i cap r) = oid r"
  "overs (age_row d i cap r) = overs r" "okey (age_row d i cap r) = okey r"
  by (simp_all add: age_row_def)

lemma node_objs_with_version:
  "node_objs (with_version d i key Obj_pending None) i
     = update_where (is_active i) to_history (node_objs d i) @ [new_version d i key Obj_pending None]"
  by (simp add: node_objs_def with_version_def filter_update_where)

lemma demoted_filter:
  "length (filter (\<lambda>q. ostatus q = Obj_history \<and> p (overs q)) (update_where (is_active i) to_history
       (filter (\<lambda>r. onode r = i) xs)))
     = length (filter (\<lambda>q. is_kept q \<and> p (overs q)) (filter (\<lambda>r. onode r = i) xs))"
  by (induction xs) (auto simp: update_where_def is_active_def is_kept_def)

lemma older_history_prepared:
  "older_history (with_version d i key Obj_pending None) i v = older_kept d i v"
  using demoted_filter [of "\<lambda>u. u < v"]
  by (simp add: older_history_def older_kept_def node_objs_with_version) (simp add: node_objs_def)

lemma kept_prepared:
  "length (kept_versions (with_version d i key Obj_pending None) i) = length (kept_versions d i)"
proof -
  have "filter is_kept (update_where (is_active i) to_history xs)
      = update_where (is_active i) to_history (filter is_kept xs)" for xs
    by (induction xs) (auto simp: update_where_def is_active_def is_kept_def)
  then show ?thesis
    by (simp add: kept_versions_def node_objs_with_version is_kept_def update_where_def)
qed

lemma evict_prepared:
  assumes "cap > 0"
  shows "update_where (evicted (with_version d i key Obj_pending None) i cap) orphan
           (object_map (with_version d i key Obj_pending None))
         = map (age_row d i cap) (object_map d) @ [new_version d i key Obj_pending None]"
proof -
  have "(if evicted (with_version d i key Obj_pending None) i cap (if is_active i r then to_history r else r)
         then orphan (if is_active i r then to_history r else r)
         else (if is_active i r then to_history r else r)) = age_row d i cap r" for r
    using assms unfolding evicted_def older_history_prepared kept_prepared
    by (auto simp: age_row_def falls_out_def is_active_def is_kept_def orphan_def to_history_def)
  then show ?thesis
    by (simp add: with_version_def update_where_def evicted_def)
qed

lemma prepareUpload_eq:
  assumes "\<not> isWebdavMode site" "has_node (vdb v) i"
  shows "prepareUpload site i v = (Inr (Some (uuid site (draws v))),
    v\<lparr>vdb := prepared (vdb v) i (uuid site (draws v)) (resolveVersionCapPerNode site),
      draws := Suc (draws v)\<rparr>)"
proof (cases "resolveVersionCapPerNode site = 0")
  case True
  have "age_row d i 0 r = (if is_active i r then to_history r else r)" for d r
    by (simp add: age_row_def falls_out_def)
  then show ?thesis
    using assms True
    by (simp add: prepareUpload_def randomUUID_def seqs_def on_db_def upsert_eq ret_def
        evictVersionsBeyondCap_def prepared_def with_version_def update_where_def)
next
  case False
  then show ?thesis
    using assms
    by (simp add: prepareUpload_def randomUUID_def seqs_def on_db_def upsert_eq ret_def evict_eq
        evict_prepared prepared_def) (simp add: with_version_def)
qed

section \<open>Content and completion\<close>

definition sync_set :: "db \<Rightarrow> nat \<Rightarrow> sync_status \<Rightarrow> db" where
  "sync_set d i st =
     d\<lparr>file_nodes := update_where (\<lambda>n. nid n = i) (\<lambda>n. n\<lparr>nsync := st, nupdated := datetime_now d\<rparr>)
         (file_nodes d)\<rparr>"

lemma updateSyncStatus_eq: "updateSyncStatus i st d = (Inr (), sync_set d i st)"
  by (simp add: updateSyncStatus_def repo_updateSyncStatus_def seqs_def ret_def sync_set_def)

lemma sync_set_has [simp]: "has_node (sync_set d i st) j = has_node d j"
proof -
  have "map nid (file_nodes (sync_set d i st)) = map nid (file_nodes d)"
    by (simp add: sync_set_def map_update_where)
  then have "set (map nid (file_nodes (sync_set d i st))) = set (map nid (file_nodes d))" by simp
  then show ?thesis by (auto simp: has_node_iff node_ids_def)
qed

lemma sync_set_simps [simp]:
  "object_map (sync_set d i st) = object_map d" "filecache (sync_set d i st) = filecache d"
  "node_ancestors (sync_set d i st) = node_ancestors d" "next_obj (sync_set d i st) = next_obj d"
  "next_node (sync_set d i st) = next_node d" "requests (sync_set d i st) = requests d"
  "user_paths (sync_set d i st) = user_paths d" "user_files (sync_set d i st) = user_files d"
  "perm_shares (sync_set d i st) = perm_shares d" "share_links (sync_set d i st) = share_links d"
  "clock (sync_set d i st) = clock d"
  by (simp_all add: sync_set_def)

definition activate :: "nat \<Rightarrow> obj \<Rightarrow> obj" where
  "activate len r = r\<lparr>ostatus := Obj_active, osize := Some len\<rparr>"

definition activated :: "string \<Rightarrow> nat \<Rightarrow> obj list \<Rightarrow> obj list" where
  "activated key len =
     update_where (\<lambda>r. okey r = Some key \<and> ostatus r = Obj_pending) (activate len)"

definition stored :: "db \<Rightarrow> nat \<Rightarrow> string \<Rightarrow> nat \<Rightarrow> cache_row list \<Rightarrow> db" where
  "stored d i key len fc =
     sync_set (d\<lparr>object_map := activated key len (object_map d), filecache := fc\<rparr>) i Active"

definition cache_kept :: "db \<Rightarrow> nat \<Rightarrow> cache_row list \<Rightarrow> bool" where
  "cache_kept d i fc \<longleftrightarrow> (cache_ok d \<longrightarrow> cache_ok (d\<lparr>filecache := fc\<rparr>)) \<and>
     (\<forall>j. j \<noteq> i \<longrightarrow> getCache (d\<lparr>filecache := fc\<rparr>) j = getCache d j)"

lemma getCache_cong: "filecache d = filecache d' \<Longrightarrow> getCache d j = getCache d' j"
  by (simp add: getCache_def)

lemma cache_ok_cong:
  "filecache d = filecache d' \<Longrightarrow> (\<And>j. has_node d j = has_node d' j) \<Longrightarrow> cache_ok d = cache_ok d'"
  by (simp add: cache_ok_def)

lemma finish_upload_ok:
  assumes "\<not> isWebdavMode site" "has_node (vdb v) i" "getObjectMapByS3Key (vdb v) key = Some r" "onode r = i"
  shows "\<exists>fc. finish_upload site i (Some key) len mime v = (Inr (), v\<lparr>vdb := stored (vdb v) i key len fc\<rparr>) \<and>
    cache_kept (vdb v) i fc"
proof -
  let ?d = "(vdb v)\<lparr>object_map := activated key len (object_map (vdb v))\<rparr>"
  have a: "activateObject key (Some len) (vdb v)
      = (Inr (count_where (\<lambda>r. okey r = Some key \<and> ostatus r = Obj_pending) (object_map (vdb v))), ?d)"
    by (simp add: activateObject_def update_objs_def activated_def activate_def [abs_def])
  obtain n fc where c: "upsertCache i len mime None ?d = (Inr n, ?d\<lparr>filecache := fc\<rparr>)"
    "cache_ok ?d \<longrightarrow> cache_ok (?d\<lparr>filecache := fc\<rparr>)"
    "\<forall>j. j \<noteq> i \<longrightarrow> getCache (?d\<lparr>filecache := fc\<rparr>) j = getCache ?d j"
    using upsertCache_ok [of ?d i len mime None] assms(2) by auto
  have "cache_kept (vdb v) i fc"
    using c(2,3) by (simp add: cache_kept_def cache_ok_def getCache_def)
  moreover have "finish_upload site i (Some key) len mime v = (Inr (), v\<lparr>vdb := stored (vdb v) i key len fc\<rparr>)"
    using assms a c(1)
    by (simp add: finish_upload_def vault_tx_def completeUpload_def service_simps seqs_def on_db_def
        key_arg_def guard_def reads_def ret_def updateSyncStatus_eq stored_def)
  ultimately show ?thesis by blast
qed

lemma record_hash_ok:
  assumes "has_node (vdb v) i"
  shows "\<exists>fc. record_hash site i key buf mime v = (Inr \<lparr>ur_node = i, ur_key = key, ur_size = length buf,
      ur_mime = mime, ur_hash = sha256 site buf\<rparr>, v\<lparr>vdb := (vdb v)\<lparr>filecache := fc\<rparr>\<rparr>) \<and>
    cache_kept (vdb v) i fc \<and>
    (\<exists>c. getCache ((vdb v)\<lparr>filecache := fc\<rparr>) i = Some c \<and> csize c = length buf \<and>
       (sha256 site buf \<noteq> [] \<longrightarrow> chash c = Some (sha256 site buf)))"
proof -
  obtain n fc where c:
    "upsertCache i (length buf) mime (Some (sha256 site buf)) (vdb v) = (Inr n, (vdb v)\<lparr>filecache := fc\<rparr>)"
    "cache_kept (vdb v) i fc"
    "\<exists>c. getCache ((vdb v)\<lparr>filecache := fc\<rparr>) i = Some c \<and> csize c = length buf \<and>
       (sha256 site buf \<noteq> [] \<longrightarrow> chash c = Some (sha256 site buf))"
    using upsertCache_ok [OF assms, of "length buf" mime "Some (sha256 site buf)"]
    unfolding cache_kept_def by fastforce
  then show ?thesis
    by (auto simp: record_hash_def best_effort_def catching_def seqs_def ret_def on_db_def)
qed

text \<open>
  Upload and completion together, around any recovery \<open>h\<close> that does not throw: either the object is
  stored, the version active and the cache row written, or the error of the store comes out and \<open>h\<close>
  ran in the state with the database as it was.
\<close>

lemma store_phase:
  fixes buf :: buffer and mime :: "string option"
  assumes site: "s3_site site content" and key: "key \<noteq> []" and i: "has_node (vdb v) i"
    and row: "getObjectMapByS3Key (vdb v) key = Some r" "onode r = i"
    and h: "\<And>s. fst (h (v\<lparr>vstore := s\<rparr>)) = Inr ()"
  defines "m \<equiv> seqs (catching
      (seqs (put_content site (Some key) buf) (\<lambda>_. finish_upload site i (Some key) (length buf) mime))
      (\<lambda>error. seqs h (\<lambda>_. throw error))) (\<lambda>_. record_hash site i (Some key) buf mime)"
  shows "(\<exists>s fc. m v = (Inr \<lparr>ur_node = i, ur_key = Some key, ur_size = length buf, ur_mime = mime,
        ur_hash = sha256 site buf\<rparr>, v\<lparr>vdb := stored (vdb v) i key (length buf) fc, vstore := s\<rparr>) \<and>
      content s = (content (vstore v))(key \<mapsto> buf) \<and> cache_kept (vdb v) i fc \<and>
      (\<exists>c. getCache ((vdb v)\<lparr>filecache := fc\<rparr>) i = Some c \<and> csize c = length buf \<and>
         (sha256 site buf \<noteq> [] \<longrightarrow> chash c = Some (sha256 site buf)))) \<or>
    (\<exists>e s. m v = (Inl e, snd (h (v\<lparr>vstore := s\<rparr>))) \<and>
      (\<forall>j. j \<noteq> key \<longrightarrow> content s j = content (vstore v) j))"
  using upload_blob_cases [OF site key, of buf "vstore v"]
proof (elim disjE exE conjE)
  fix s assume u: "uploadBlob (blobs site) key buf (vstore v) = (Inr (), s)"
    "content s = (content (vstore v))(key \<mapsto> buf)"
  let ?v = "v\<lparr>vstore := s\<rparr>"
  obtain fc where f: "finish_upload site i (Some key) (length buf) mime ?v
      = (Inr (), ?v\<lparr>vdb := stored (vdb v) i key (length buf) fc\<rparr>)" "cache_kept (vdb v) i fc"
    using finish_upload_ok [of site ?v i key r "length buf" mime] site i row by (auto simp: s3_site_def)
  let ?w = "?v\<lparr>vdb := stored (vdb v) i key (length buf) fc\<rparr>"
  have hw: "has_node (vdb ?w) i" using i by (simp add: stored_def)
  obtain fc' where g: "record_hash site i (Some key) buf mime ?w
      = (Inr \<lparr>ur_node = i, ur_key = Some key, ur_size = length buf, ur_mime = mime,
           ur_hash = sha256 site buf\<rparr>, ?w\<lparr>vdb := (vdb ?w)\<lparr>filecache := fc'\<rparr>\<rparr>)"
    "cache_kept (vdb ?w) i fc'"
    "\<exists>c. getCache ((vdb ?w)\<lparr>filecache := fc'\<rparr>) i = Some c \<and> csize c = length buf \<and>
       (sha256 site buf \<noteq> [] \<longrightarrow> chash c = Some (sha256 site buf))"
    using record_hash_ok [OF hw, of site "Some key" buf mime] by blast
  have st: "(stored (vdb v) i key (length buf) fc)\<lparr>filecache := fc'\<rparr>
      = stored (vdb v) i key (length buf) fc'"
    by (simp add: stored_def sync_set_def datetime_now_def)
  have "cache_ok ((vdb v)\<lparr>filecache := fc\<rparr>) = cache_ok (vdb ?w)"
    by (rule cache_ok_cong) (simp_all add: stored_def)
  moreover have "cache_ok ((vdb v)\<lparr>filecache := fc'\<rparr>) = cache_ok ((vdb ?w)\<lparr>filecache := fc'\<rparr>)"
    by (rule cache_ok_cong) (simp_all add: stored_def)
  ultimately have "cache_kept (vdb v) i fc'"
    using f(2) g(2) unfolding cache_kept_def by (simp add: getCache_def stored_def)
  moreover have "m v = (Inr \<lparr>ur_node = i, ur_key = Some key, ur_size = length buf, ur_mime = mime,
        ur_hash = sha256 site buf\<rparr>, v\<lparr>vdb := stored (vdb v) i key (length buf) fc', vstore := s\<rparr>)"
    using u(1) f(1) g(1) st
    by (simp add: m_def put_content_def on_store_def key_arg_def seqs_def catching_def)
  ultimately show ?thesis using u(2) g(3) by (intro disjI1) (auto simp: getCache_def)
next
  fix e s assume u: "uploadBlob (blobs site) key buf (vstore v) = (Inl e, s)" "e \<noteq> No_return"
    "\<forall>j. j \<noteq> key \<longrightarrow> content s j = content (vstore v) j"
  have "m v = (Inl e, snd (h (v\<lparr>vstore := s\<rparr>)))"
    using u(1,2) h [of s]
    by (cases "h (v\<lparr>vstore := s\<rparr>)")
      (simp add: m_def put_content_def on_store_def key_arg_def seqs_def catching_def throw_def)
  then show ?thesis using u(3) by blast
qed



section \<open>A new file and its removal\<close>

definition added :: "db \<Rightarrow> node \<Rightarrow> db" where
  "added d row =
     d\<lparr>file_nodes := file_nodes d @ [row], next_node := Suc (next_node d),
       node_ancestors := node_ancestors d @ rows_for (next_node d) (chain_of d (nparent row))\<rparr>"

lemma createFile_cases:
  assumes ok: "tree_ok d"
  obtains "createFile p nm d = (Inl db_failed, d)"
  | row where "nid row = next_node d" "nparent row = p" "parent_exists d p"
      "createFile p nm d = (Inr (mapNodeRow row None), added d row)" "tree_ok (added d row)"
      "resolvePathSegment (added d row) p nm = Some (next_node d)"
proof (cases "createNode p nm File d")
  case (Pair r t)
  show thesis
  proof (cases r)
    case (Inl e)
    then have "createFile p nm d = (Inl db_failed, d)"
      using createNode_fail [of p nm File d e t] Pair
      by (simp add: createFile_def withTx_def seqs_def)
    then show thesis by (rule that(1))
  next
    case (Inr v)
    then have c: "createNode p nm File d = (Inr v, t)" using Pair by simp
    then obtain row where row: "nid row = next_node d" "nparent row = p" "nname row = nm" "live row"
      "v = mapNodeRow row None" "parent_exists d p"
      "t = d\<lparr>file_nodes := file_nodes d @ [row], next_node := Suc (next_node d)\<rparr>"
      by (rule createNode_ok)
    note cc = create_closure [OF tree_okD [OF ok] c]
    have a: "t\<lparr>node_ancestors := node_ancestors d @ rows_for (v_id v) (chain_of d p)\<rparr> = added d row"
      using row by (simp add: added_def)
    have t: "tree_ok (added d row)" using cc(2,3) unfolding a by (simp add: tree_ok_def)
    have "row \<in> set (file_nodes (added d row))" by (simp add: added_def)
    then have res: "resolvePathSegment (added d row) p nm = Some (next_node d)"
      using resolve_segment_live [OF tree_okD(1) [OF t], of row] row by simp
    have "createFile p nm d = (Inr (mapNodeRow row None), added d row)"
      using cc(1) row(5) a by (simp add: createFile_def)
    then show thesis using row t res by (intro that(2)) auto
  qed
qed

lemma delete_where_snoc:
  "(\<And>x. x \<in> set xs \<Longrightarrow> \<not> p x) \<Longrightarrow> p y \<Longrightarrow> delete_where p (xs @ [y]) = xs"
  by (simp add: delete_where_def)

lemma delete_where_append:
  "(\<And>x. x \<in> set xs \<Longrightarrow> \<not> p x) \<Longrightarrow> (\<And>y. y \<in> set ys \<Longrightarrow> p y) \<Longrightarrow> delete_where p (xs @ ys) = xs"
  by (simp add: delete_where_def)

lemma fresh_node: "nodes_ok d \<Longrightarrow> \<not> has_node d (next_node d)"
  using nodes_okD(3) by (fastforce simp: has_node_def)

text \<open>Deleting the node just added, with its version row, gives back every table.\<close>

lemma delete_added:
  assumes ok: "meta_ok d" and row: "nid row = next_node d" "parent_exists d (nparent row)"
    and x: "onode x = next_node d"
  shows "deleteNode (next_node d) ((added d row)\<lparr>object_map := object_map d @ [x], next_obj := k\<rparr>)
           = (Inr (), d\<lparr>next_node := Suc (next_node d), next_obj := k\<rparr>)"
proof -
  let ?n = "next_node d" and ?d = "(added d row)\<lparr>object_map := object_map d @ [x], next_obj := k\<rparr>"
  note tree = tree_okD [OF meta_okD(1) [OF ok]]
  have fresh: "\<not> has_node d ?n" by (rule fresh_node [OF tree(1)])
  have par: "nparent row \<noteq> Some ?n" using row(2) fresh by (auto simp: parent_exists_def)
  have chain: "a \<noteq> ?n" if "(a, j) \<in> set (chain_of d (nparent row))" for a j
  proof -
    have "has_node d a"
      using that ancestors_closure [OF tree(2)] up_has by (auto simp: chain_of_def split: option.splits)
    then show ?thesis using fresh by blast
  qed
  have old: "aanc r \<noteq> ?n \<and> adesc r \<noteq> ?n" if "r \<in> set (node_ancestors d)" for r
    using up_has [OF closure_row [OF tree(2) that]] fresh by metis
  have desc: "getDescendantIds ?d ?n = [?n]"
  proof -
    have "filter (\<lambda>r. aanc r = ?n) (node_ancestors d) = []" using old by (auto simp: filter_empty_conv)
    moreover have "filter (\<lambda>r. aanc r = ?n) (rows_for ?n (chain_of d (nparent row)))
        = [\<lparr>aanc = ?n, adesc = ?n, adepth = 0\<rparr>]"
      using chain by (auto simp: rows_for_def filter_empty_conv)
    ultimately show ?thesis by (simp add: getDescendantIds_def added_def)
  qed
  have "nparent n \<noteq> Some ?n" if "n \<in> set (file_nodes d)" for n
    using nodes_okD(2) [OF tree(1) that] fresh by (auto simp: parent_exists_def)
  then have cas: "cascade (file_nodes ?d) [?n] = [?n]"
    using par by (intro cascade_fixpoint) (auto simp: added_def)
  have nn: "nid n \<noteq> ?n" if "n \<in> set (file_nodes d)" for n
    using that fresh by (auto simp: has_node_def)
  have on: "onode r \<noteq> ?n" if "r \<in> set (object_map d)" for r
    using objs_okD(4) [OF meta_okD(2) [OF ok] that] fresh by metis
  have others: "delete_where (\<lambda>c. cnode c = ?n) (filecache d) = filecache d"
    "delete_where (\<lambda>g. gnode g = ?n) (user_paths d) = user_paths d"
    "delete_where (\<lambda>g. gnode g = ?n) (user_files d) = user_files d"
    "delete_where (\<lambda>g. snode g = ?n) (perm_shares d) = perm_shares d"
    "delete_where (\<lambda>l. lnode l = ?n) (share_links d) = share_links d"
    "delete_where (\<lambda>q. rnode q = ?n) (requests d) = requests d"
    using meta_okD(3,4) [OF ok] fresh unfolding cache_ok_def refs_ok_def ball_Un
    by (auto intro!: delete_where_id)
  have tables: "delete_where (\<lambda>n. nid n = ?n) (file_nodes d @ [row]) = file_nodes d"
    "delete_where (\<lambda>r. onode r = ?n) (object_map d @ [x]) = object_map d"
    "delete_where (\<lambda>r. aanc r = ?n \<or> adesc r = ?n)
       (node_ancestors d @ rows_for ?n (chain_of d (nparent row))) = node_ancestors d"
    using nn on old row(1) x by (auto intro!: delete_where_snoc delete_where_append dest: adesc_rows_for)
  show ?thesis
    unfolding deleteNode_eq desc unfolding delete_nodes_def cas
    using others tables by (simp add: added_def Let_def)
qed

section \<open>What stays well formed\<close>

lemma tree_ok_cong:
  assumes "file_nodes d = file_nodes d'" "next_node d = next_node d'" "node_ancestors d = node_ancestors d'"
  shows "tree_ok d = tree_ok d'"
proof -
  have "closure_ok d = closure_ok d'"
    unfolding closure_ok_def anc_set_def assms(3) using up_cong [OF assms(1)] by simp
  then show ?thesis using nodes_ok_cong [OF assms(1,2)] by (simp add: tree_ok_def)
qed

lemma meta_ok_with:
  assumes "meta_ok d" "file_nodes d' = file_nodes d" "next_node d' = next_node d"
    "node_ancestors d' = node_ancestors d" "user_paths d' = user_paths d" "user_files d' = user_files d"
    "perm_shares d' = perm_shares d" "share_links d' = share_links d" "requests d' = requests d"
    "objs_ok d'" "cache_ok d'"
  shows "meta_ok d'"
proof -
  have "has_node d' j = has_node d j" for j using has_node_cong [OF assms(2)] .
  then show ?thesis
    using assms tree_ok_cong [OF assms(2-4)] by (simp add: meta_ok_def refs_ok_def)
qed

lemma meta_ok_sync: "meta_ok d \<Longrightarrow> meta_ok (sync_set d i st)"
  using sync_tree_ok [of d i st]
  by (simp add: meta_ok_def updateSyncStatus_eq objs_ok_def cache_ok_def refs_ok_def)

lemma has_node_added: "has_node (added d row) j \<longleftrightarrow> has_node d j \<or> j = nid row"
  by (auto simp: added_def has_node_def)

lemma meta_ok_added:
  assumes "meta_ok d" "tree_ok (added d row)"
  shows "meta_ok (added d row)"
  using assms has_node_added [of d row] unfolding meta_ok_def objs_ok_def cache_ok_def refs_ok_def ball_Un
  by (simp add: added_def)

definition fresh_key :: "db \<Rightarrow> string \<Rightarrow> bool" where
  "fresh_key d key \<longleftrightarrow> key \<noteq> [] \<and> (\<forall>r \<in> set (object_map d). okey r \<noteq> Some key)"

lemma prepared_simps [simp]:
  "file_nodes (prepared d i key cap) = file_nodes d" "next_node (prepared d i key cap) = next_node d"
  "node_ancestors (prepared d i key cap) = node_ancestors d" "filecache (prepared d i key cap) = filecache d"
  "user_paths (prepared d i key cap) = user_paths d" "user_files (prepared d i key cap) = user_files d"
  "perm_shares (prepared d i key cap) = perm_shares d" "share_links (prepared d i key cap) = share_links d"
  "requests (prepared d i key cap) = requests d" "has_node (prepared d i key cap) j = has_node d j"
  by (simp_all add: prepared_def has_node_def)

lemma objs_ok_prepared:
  assumes "objs_ok d" "has_node d i"
  shows "objs_ok (prepared d i key cap)"
proof (cases "cap = 0")
  case True
  have "map (age_row d i 0) (object_map d) = update_where (is_active i) to_history (object_map d)"
    by (simp add: age_row_def falls_out_def update_where_def)
  then have "prepared d i key cap = with_version d i key Obj_pending None"
    using True by (simp add: prepared_def with_version_def)
  then show ?thesis using with_version_ok [OF assms] by simp
next
  case False
  then have "prepared d i key cap = (with_version d i key Obj_pending None)\<lparr>object_map := update_where
      (evicted (with_version d i key Obj_pending None) i cap) orphan
      (object_map (with_version d i key Obj_pending None))\<rparr>"
    using evict_prepared [of cap d i key] by (simp add: prepared_def) (simp add: with_version_def)
  then show ?thesis using objs_ok_update [OF with_version_ok [OF assms]] by simp
qed

lemma meta_ok_prepared: "meta_ok d \<Longrightarrow> has_node d i \<Longrightarrow> meta_ok (prepared d i key cap)"
  by (rule meta_ok_with) (auto simp: meta_ok_def cache_ok_def objs_ok_prepared)

lemma meta_ok_stored:
  assumes "meta_ok d" "cache_kept d i fc"
  shows "meta_ok (stored d i key len fc)"
proof -
  have "objs_ok (d\<lparr>object_map := activated key len (object_map d)\<rparr>)"
    unfolding activated_def
    by (rule objs_ok_update) (use assms(1) in \<open>simp_all add: meta_ok_def activate_def\<close>)
  then have "objs_ok (d\<lparr>object_map := activated key len (object_map d), filecache := fc\<rparr>)"
    by (simp add: objs_ok_def)
  moreover have "cache_ok (d\<lparr>object_map := activated key len (object_map d), filecache := fc\<rparr>)"
    using assms by (simp add: cache_kept_def meta_ok_def cache_ok_def)
  ultimately show ?thesis
    unfolding stored_def by (intro meta_ok_sync meta_ok_with [OF assms(1)]) simp_all
qed

lemma pending_lookup:
  "fresh_key d key \<Longrightarrow>
     getObjectMapByS3Key (prepared d i key cap) key = Some (new_version d i key Obj_pending None)"
  by (simp add: getObjectMapByS3Key_def prepared_def fresh_key_def filter_empty_conv)

lemma activated_prepared:
  "fresh_key d key \<Longrightarrow> activated key len (object_map (prepared d i key cap))
     = map (age_row d i cap) (object_map d) @ [activate len (new_version d i key Obj_pending None)]"
  by (auto simp: activated_def prepared_def fresh_key_def update_where_def)

lemma activate_simps [simp]:
  "onode (activate len r) = onode r" "oid (activate len r) = oid r" "overs (activate len r) = overs r"
  "okey (activate len r) = okey r" "ostatus (activate len r) = Obj_active" "osize (activate len r) = Some len"
  by (simp_all add: activate_def)

lemma age_row_inactive: "\<not> is_active i (age_row d i cap r)"
  by (simp add: age_row_def is_active_def)

lemma active_after:
  assumes "object_map d' = map (age_row d i cap) (object_map d) @ [x]" "is_active i x"
  shows "getActiveObject d' i = Some x" "status_count d' i Obj_active = 1"
proof -
  have f: "filter (is_active i) (map (age_row d i cap) xs) = []" for xs
    using age_row_inactive by (auto simp: filter_empty_conv)
  then show "getActiveObject d' i = Some x"
    using assms unfolding getActiveObject_def is_active_eq by simp
  have "filter (\<lambda>r. ostatus r = Obj_active) (node_objs d' i) = filter (is_active i) (object_map d')"
    unfolding node_objs_def filter_filter by (rule filter_cong) (auto simp: is_active_def)
  then show "status_count d' i Obj_active = 1" using f assms by (simp add: status_count_def)
qed

lemma resolve_sync: "resolvePathSegment (sync_set d i st) p nm = resolvePathSegment d p nm"
proof -
  have "map nid (filter (\<lambda>n. nparent n = p \<and> nname n = nm \<and> live n)
        (update_where (\<lambda>n. nid n = i) (\<lambda>n. n\<lparr>nsync := st, nupdated := datetime_now d\<rparr>) xs))
      = map nid (filter (\<lambda>n. nparent n = p \<and> nname n = nm \<and> live n) xs)" for xs
    by (induction xs) (auto simp: update_where_def live_def)
  moreover have "map_option nid (first_row ys) = first_row (map nid ys)" for ys :: "node list"
    by (cases ys) auto
  ultimately show ?thesis by (simp add: resolvePathSegment_def sync_set_def)
qed

section \<open>Uploading a new file\<close>

lemma download_active:
  assumes "s3_site site content" "getActiveObject (vdb w) i = Some r" "okey r = Some k" "k \<noteq> []"
    "downloadNode site i w = (Inr b, w')"
  shows "b = content (vstore w) k"
  using assms download_blob_cases [OF assms(1), where k = k and s = "vstore w"]
  by (auto simp: downloadNode_def service_simps s3_site_def on_store_def split: prod.splits sum.splits)

definition upload_done ::
  "'c site \<Rightarrow> ('c \<Rightarrow> string \<Rightarrow> buffer option) \<Rightarrow> nat option \<Rightarrow> string \<Rightarrow> buffer \<Rightarrow> 'c vault \<Rightarrow>
   upload_result \<Rightarrow> 'c vault \<Rightarrow> bool" where
  "upload_done site content p nm buf v r w \<longleftrightarrow>
     meta_ok (vdb w) \<and> ur_key r = Some (uuid site (draws v)) \<and>
     resolvePathSegment (vdb w) p nm = Some (ur_node r) \<and>
     status_count (vdb w) (ur_node r) Obj_active = 1 \<and>
     (\<exists>a. getActiveObject (vdb w) (ur_node r) = Some a \<and> okey a = ur_key r \<and> osize a = Some (length buf)) \<and>
     (\<exists>c. getCache (vdb w) (ur_node r) = Some c \<and> csize c = length buf \<and>
        (sha256 site buf \<noteq> [] \<longrightarrow> chash c = Some (sha256 site buf))) \<and>
     content (vstore w) = (content (vstore v))(uuid site (draws v) \<mapsto> buf)"

definition upload_undone :: "'c site \<Rightarrow> ('c \<Rightarrow> string \<Rightarrow> buffer option) \<Rightarrow> 'c vault \<Rightarrow> 'c vault \<Rightarrow> bool" where
  "upload_undone site content v w \<longleftrightarrow>
     vdb w = (vdb v)\<lparr>next_node := next_node (vdb w), next_obj := next_obj (vdb w)\<rparr> \<and>
     (\<forall>k. k \<noteq> uuid site (draws v) \<longrightarrow> content (vstore w) k = content (vstore v) k)"

lemma upload_cases:
  fixes site :: "'c site"
  assumes site: "s3_site site content" and ok: "meta_ok (vdb v)"
    and key: "fresh_key (vdb v) (uuid site (draws v))"
  shows "case uploadFile site p nm buf mime v of
      (Inr r, w) \<Rightarrow> upload_done site content p nm buf v r w
    | (Inl e, w) \<Rightarrow> upload_undone site content v w"
proof -
  let ?d = "vdb v" and ?n = "next_node (vdb v)" and ?key = "uuid site (draws v)"
    and ?cap = "resolveVersionCapPerNode site"
  show ?thesis
  proof (rule createFile_cases [OF meta_okD(1) [OF ok], of p nm])
    assume "createFile p nm ?d = (Inl db_failed, ?d)"
    then have "uploadFile site p nm buf mime v = (Inl db_failed, v)"
      by (simp add: uploadFile_def seqs_def on_db_def)
    then show ?thesis by (simp add: upload_undone_def)
  next
    fix row assume row: "nid row = ?n" "nparent row = p" "parent_exists ?d p"
      "createFile p nm ?d = (Inr (mapNodeRow row None), added ?d row)" "tree_ok (added ?d row)"
      "resolvePathSegment (added ?d row) p nm = Some ?n"
    define x where "x = new_version (added ?d row) ?n ?key Obj_pending None"
    define d2 where "d2 = prepared (added ?d row) ?n ?key ?cap"
    define v2 where "v2 = v\<lparr>vdb := d2, draws := Suc (draws v)\<rparr>"
    have fresh: "\<not> has_node ?d ?n" by (rule fresh_node [OF tree_okD(1) [OF meta_okD(1) [OF ok]]])
    have on: "onode q \<noteq> ?n" if "q \<in> set (object_map ?d)" for q
      using objs_okD(4) [OF meta_okD(2) [OF ok] that] fresh by metis
    have has: "has_node (added ?d row) ?n" by (simp add: has_node_added row(1))
    have key1: "fresh_key (added ?d row) ?key" using key by (simp add: fresh_key_def added_def)
    have mok: "meta_ok d2"
      unfolding d2_def by (intro meta_ok_prepared meta_ok_added ok row(5) has)
    have "map (age_row (added ?d row) ?n ?cap) (object_map ?d) = object_map ?d"
      using on by (intro map_idI) (simp add: age_row_def falls_out_def is_active_def)
    then have d2: "d2 = (added ?d row)\<lparr>object_map := object_map ?d @ [x], next_obj := Suc (next_obj ?d)\<rparr>"
      by (simp add: d2_def prepared_def x_def added_def)
    have prep: "prepareUpload site ?n (v\<lparr>vdb := added ?d row\<rparr>) = (Inr (Some ?key), v2)"
      using prepareUpload_eq [of site "v\<lparr>vdb := added ?d row\<rparr>" ?n] site has
      by (simp add: s3_site_def v2_def d2_def)
    define h :: "('c vault, unit) service" where "h = best_effort (on_db (deleteNode ?n))"
    have del: "h w = (Inr (), w\<lparr>vdb := ?d\<lparr>next_node := Suc ?n, next_obj := Suc (next_obj ?d)\<rparr>\<rparr>)"
      if "vdb w = d2" for w
      using delete_added [OF ok row(1), of x "Suc (next_obj ?d)"] row(2,3) that
      by (simp add: h_def best_effort_def catching_def seqs_def on_db_def ret_def d2 x_def)
    have h_ok: "fst (h (v2\<lparr>vstore := s\<rparr>)) = Inr ()" for s
      using del by (simp add: v2_def)
    have run: "uploadFile site p nm buf mime v = seqs (catching
        (seqs (put_content site (Some ?key) buf)
          (\<lambda>_. finish_upload site ?n (Some ?key) (length buf) mime))
        (\<lambda>error. seqs h (\<lambda>_. throw error))) (\<lambda>_. record_hash site ?n (Some ?key) buf mime) v2"
      using row(1,4) prep by (simp add: uploadFile_def seqs_def on_db_def h_def)
    have lookup: "getObjectMapByS3Key (vdb v2) ?key = Some x" "onode x = ?n"
      using pending_lookup [OF key1] by (simp_all add: v2_def d2_def x_def)
    have k0: "?key \<noteq> []" using key by (simp add: fresh_key_def)
    have h2: "has_node (vdb v2) ?n" using has by (simp add: v2_def d2_def)
    show ?thesis
      using store_phase [where h = h and buf = buf and mime = mime, OF site k0 h2 lookup h_ok]
      unfolding run [symmetric]
    proof (elim disjE exE conjE)
      fix s fc c
      assume w: "uploadFile site p nm buf mime v = (Inr \<lparr>ur_node = ?n, ur_key = Some ?key,
          ur_size = length buf, ur_mime = mime, ur_hash = sha256 site buf\<rparr>,
          v2\<lparr>vdb := stored (vdb v2) ?n ?key (length buf) fc, vstore := s\<rparr>)"
        and s: "content s = (content (vstore v2))(?key \<mapsto> buf)" and fc: "cache_kept (vdb v2) ?n fc"
        and c: "getCache ((vdb v2)\<lparr>filecache := fc\<rparr>) ?n = Some c" "csize c = length buf"
          "sha256 site buf \<noteq> [] \<longrightarrow> chash c = Some (sha256 site buf)"
      let ?d3 = "stored (vdb v2) ?n ?key (length buf) fc"
      have om: "object_map ?d3 = map (age_row (added ?d row) ?n ?cap) (object_map (added ?d row))
          @ [activate (length buf) x]"
        using activated_prepared [OF key1] by (simp add: stored_def v2_def d2_def x_def)
      have "is_active ?n (activate (length buf) x)" by (simp add: is_active_def x_def)
      note act = active_after [OF om this]
      have "meta_ok ?d3" using meta_ok_stored [OF _ fc] mok by (simp add: v2_def)
      moreover have "resolvePathSegment ?d3 p nm = Some ?n"
        using row(6) unfolding stored_def resolve_sync
        by (simp add: resolvePathSegment_def v2_def d2_def)
      moreover have "getCache ?d3 ?n = Some c"
        using c(1) by (simp add: getCache_def stored_def)
      ultimately show ?thesis
        unfolding w using act s c(2,3) by (simp add: upload_done_def v2_def x_def)
    next
      fix e s
      assume w: "uploadFile site p nm buf mime v = (Inl e, snd (h (v2\<lparr>vstore := s\<rparr>)))"
        and s: "\<forall>j. j \<noteq> ?key \<longrightarrow> content s j = content (vstore v2) j"
      show ?thesis unfolding w using del [of "v2\<lparr>vstore := s\<rparr>"] s
        by (simp add: upload_undone_def v2_def)
    qed
  qed
qed

section \<open>A new version and its rollback\<close>

lemma begin_overwrite_eq:
  assumes "\<not> isWebdavMode site" "has_node (vdb v) i"
  shows "begin_overwrite site i v = (Inr (Some (uuid site (draws v))),
    v\<lparr>vdb := sync_set (prepared (vdb v) i (uuid site (draws v)) (resolveVersionCapPerNode site)) i Pending_upload,
      draws := Suc (draws v)\<rparr>)"
  by (simp add: begin_overwrite_def vault_tx_def seqs_def prepareUpload_eq [OF assms] on_db_def
      updateSyncStatus_eq ret_def)

lemma sync_set_twice: "sync_set (sync_set d i st) i st' = sync_set d i st'"
  by (simp add: sync_set_def update_where_def datetime_now_def)

lemma sync_set_objs: "sync_set (d\<lparr>object_map := xs\<rparr>) i st = (sync_set d i st)\<lparr>object_map := xs\<rparr>"
  by (simp add: sync_set_def datetime_now_def)

text \<open>The version rows after a rollback: what fell out of the cap stays orphaned.\<close>

definition restored :: "db \<Rightarrow> nat \<Rightarrow> nat \<Rightarrow> obj \<Rightarrow> obj list" where
  "restored d i cap r0 = update_where (\<lambda>r. falls_out d i cap r \<and> r \<noteq> r0) orphan (object_map d)"

lemma only_active:
  assumes "getActiveObject d i = Some r0" "status_count d i Obj_active = 1"
  shows "r0 \<in> set (object_map d)" "is_active i r0"
    and "r \<in> set (object_map d) \<Longrightarrow> is_active i r \<Longrightarrow> r = r0"
proof -
  have f: "filter (\<lambda>r. ostatus r = Obj_active) (node_objs d i) = filter (is_active i) (object_map d)"
    unfolding node_objs_def filter_filter by (rule filter_cong) (auto simp: is_active_def)
  then obtain a where a: "filter (is_active i) (object_map d) = [a]"
    using assms(2) by (auto simp: status_count_def length_Suc_conv)
  then have "a = r0" using assms(1) by (simp add: getActiveObject_def is_active_eq)
  with a have "set (filter (is_active i) (object_map d)) = {r0}" by simp
  then have "r \<in> set (object_map d) \<and> is_active i r \<longleftrightarrow> r = r0" for r
    unfolding set_filter by blast
  then show "r0 \<in> set (object_map d)" "is_active i r0"
    "r \<in> set (object_map d) \<Longrightarrow> is_active i r \<Longrightarrow> r = r0" by blast+
qed

lemma rollback_rows:
  assumes ok: "objs_ok d" and act: "getActiveObject d i = Some r0" "status_count d i Obj_active = 1"
  shows "delete_where (\<lambda>r. oid r \<in> set [next_obj d])
      (update_where (\<lambda>r. oid r = oid r0 \<and> ostatus r \<in> {Obj_history, Obj_orphaned})
        (\<lambda>r. r\<lparr>ostatus := Obj_active\<rparr>)
        (map (age_row d i cap) (object_map d) @ [new_version d i key Obj_pending None]))
    = restored d i cap r0"
proof -
  have "(if oid r = oid r0 \<and> ostatus (age_row d i cap r) \<in> {Obj_history, Obj_orphaned}
        then (age_row d i cap r)\<lparr>ostatus := Obj_active\<rparr> else age_row d i cap r)
      = (if falls_out d i cap r \<and> r \<noteq> r0 then orphan r else r)" if r: "r \<in> set (object_map d)" for r
  proof (cases "r = r0")
    case True
    then show ?thesis
      using only_active(2) [OF act] by (auto simp: age_row_def orphan_def to_history_def is_active_def)
  next
    case False
    then have "oid r \<noteq> oid r0"
      using distinct_map_unique [OF objs_okD(1) [OF ok] r only_active(1) [OF act]] by blast
    then show ?thesis
      using False only_active(3) [OF act r] by (auto simp: age_row_def)
  qed
  then have u: "update_where (\<lambda>r. oid r = oid r0 \<and> ostatus r \<in> {Obj_history, Obj_orphaned})
        (\<lambda>r. r\<lparr>ostatus := Obj_active\<rparr>) (map (age_row d i cap) (object_map d)) = restored d i cap r0"
    by (simp add: update_where_def restored_def)
  have "oid r < next_obj d" if "r \<in> set (restored d i cap r0)" for r
    using that objs_okD(3) [OF ok] by (auto simp: restored_def set_update_where)
  then have "delete_where (\<lambda>r. oid r \<in> set [next_obj d]) (restored d i cap r0) = restored d i cap r0"
    by (intro delete_where_id) fastforce
  moreover have "oid r0 < next_obj d" using objs_okD(3) [OF ok only_active(1) [OF act]] .
  ultimately show ?thesis
    using u by (simp add: update_where_def delete_where_def)
qed

definition cache_same :: "db \<Rightarrow> db \<Rightarrow> nat \<Rightarrow> bool" where
  "cache_same d d' i \<longleftrightarrow>
     map_option (\<lambda>c. (csize c, cmime c, chash c)) (getCache d' i)
       = map_option (\<lambda>c. (csize c, cmime c, chash c)) (getCache d i)"

text \<open>An empty string is never stored in the two nullable columns.\<close>

definition cache_clean :: "db \<Rightarrow> nat \<Rightarrow> bool" where
  "cache_clean d i \<longleftrightarrow> (\<forall>c. getCache d i = Some c \<longrightarrow> cmime c \<noteq> Some [] \<and> chash c \<noteq> Some [])"

lemma rollback_ok:
  assumes site: "s3_site site content" and ok: "objs_ok d"
    and act: "getActiveObject d i = Some r0" "status_count d i Obj_active = 1"
    and key: "fresh_key d key" and i: "has_node d i" and clean: "cache_clean d i"
    and w: "vdb w = sync_set (prepared d i key cap) i Pending_upload"
  shows "\<exists>fc s. rollbackOverwrite site i (Some r0) (getCache d i) (Some key) w
      = (Inr (), w\<lparr>vdb := (sync_set d i Active)\<lparr>object_map := restored d i cap r0, filecache := fc,
           next_obj := Suc (next_obj d)\<rparr>, vstore := s\<rparr>) \<and>
    cache_kept d i fc \<and> cache_same d (d\<lparr>filecache := fc\<rparr>) i \<and>
    (\<forall>j. j \<noteq> key \<longrightarrow> content s j = content (vstore w) j)"
proof -
  let ?x = "new_version d i key Obj_pending None"
  let ?up = "update_where (\<lambda>r. oid r = oid r0 \<and> ostatus r \<in> {Obj_history, Obj_orphaned})
        (\<lambda>r. r\<lparr>ostatus := Obj_active\<rparr>) (map (age_row d i cap) (object_map d) @ [?x])"
  define d1 where "d1 = (sync_set d i Active)\<lparr>object_map := ?up, next_obj := Suc (next_obj d)\<rparr>"
  define d2 where "d2 = d1\<lparr>object_map := restored d i cap r0\<rparr>"
  have r0: "oid r0 < next_obj d" using objs_okD(3) [OF ok only_active(1) [OF act]] .
  define da where "da = (sync_set (prepared d i key cap) i Pending_upload)\<lparr>object_map := ?up\<rparr>"
  obtain k where re: "reactivateObjectMapRow (oid r0) (vdb w) = (Inr k, da)"
    by (simp add: reactivateObjectMapRow_def update_objs_def w prepared_def da_def)
  have sy: "sync_set da i Active = d1"
    unfolding sync_set_objs sync_set_twice d1_def da_def
    by (simp add: prepared_def sync_set_def datetime_now_def)
  have "filter (\<lambda>r. okey r = Some key \<and> ostatus r \<in> {Obj_pending, Obj_active}) ?up = [?x]"
    using key r0 by (auto simp: update_where_def filter_empty_conv fresh_key_def)
  then have lookup: "getObjectMapByS3Key d1 key = Some ?x"
    by (simp add: getObjectMapByS3Key_def d1_def)
  obtain m where del: "deleteObjectMapRows [next_obj d] d1 = (Inr m, d2)"
    using deleteObjectMapRows_eq [of "[next_obj d]" d1] rollback_rows [OF ok act, of cap key]
    by (auto simp: d1_def d2_def)
  have tx: "fst (best_effort (vault_tx (on_db
       (seqs (reactivateObjectMapRow (oid r0)) (\<lambda>_.
        seqs (updateSyncStatus i Active) (\<lambda>_.
        seqs (reads (\<lambda>d. getObjectMapByS3Key d key)) (\<lambda>pendingRow.
          case pendingRow of None \<Rightarrow> ret 0 | Some r \<Rightarrow> deleteObjectMapRows [oid r])))))) w) = Inr () \<and>
     snd (best_effort (vault_tx (on_db
       (seqs (reactivateObjectMapRow (oid r0)) (\<lambda>_.
        seqs (updateSyncStatus i Active) (\<lambda>_.
        seqs (reads (\<lambda>d. getObjectMapByS3Key d key)) (\<lambda>pendingRow.
          case pendingRow of None \<Rightarrow> ret 0 | Some r \<Rightarrow> deleteObjectMapRows [oid r])))))) w) = w\<lparr>vdb := d2\<rparr>"
    using del lookup
    by (simp add: best_effort_def catching_def seqs_def vault_tx_def on_db_def re updateSyncStatus_eq sy
        reads_def ret_def del: deleteObjectMapRows.simps)
  obtain s where s: "best_effort (on_store (deleteBlob (blobs site) key)) (w\<lparr>vdb := d2\<rparr>)
      = (Inr (), w\<lparr>vdb := d2, vstore := s\<rparr>)" "\<forall>j. j \<noteq> key \<longrightarrow> content s j = content (vstore w) j"
    using delete_blob_cases [OF site, of key "vstore w"]
    by (auto simp: best_effort_def catching_def seqs_def on_store_def ret_def)
  have h2: "has_node d2 i" using i by (simp add: d2_def d1_def)
  obtain fc where fc: "best_effort (on_db (case getCache d i of None \<Rightarrow> ret 0
       | Some c \<Rightarrow> upsertCache i (csize c) (cmime c) (chash c))) (w\<lparr>vdb := d2, vstore := s\<rparr>)
      = (Inr (), w\<lparr>vdb := d2\<lparr>filecache := fc\<rparr>, vstore := s\<rparr>)"
    "cache_kept d i fc" "cache_same d (d\<lparr>filecache := fc\<rparr>) i"
  proof (cases "getCache d i")
    case None
    then show thesis
      by (intro that [of "filecache d"])
        (simp_all add: best_effort_def catching_def seqs_def on_db_def ret_def cache_kept_def cache_same_def
          getCache_def d2_def d1_def cache_ok_def)
  next
    case (Some c)
    obtain n fc c' where u: "upsertCache i (csize c) (cmime c) (chash c) d2 = (Inr n, d2\<lparr>filecache := fc\<rparr>)"
      "cache_ok d2 \<longrightarrow> cache_ok (d2\<lparr>filecache := fc\<rparr>)"
      "\<forall>j. j \<noteq> i \<longrightarrow> getCache (d2\<lparr>filecache := fc\<rparr>) j = getCache d2 j"
      "getCache (d2\<lparr>filecache := fc\<rparr>) i = Some c'" "csize c' = csize c"
      "cmime c' = (if cmime c = Some [] then None else cmime c)"
      "chash c' = (if chash c = Some [] then None else chash c)"
      using upsertCache_ok [OF h2, of "csize c" "cmime c" "chash c"] by blast
    have "cache_kept d i fc"
      using u(2,3) by (simp add: cache_kept_def cache_ok_def getCache_def d2_def d1_def)
    moreover have "cache_same d (d\<lparr>filecache := fc\<rparr>) i"
      using u(4-7) Some clean by (auto simp: cache_same_def cache_clean_def getCache_def)
    ultimately show thesis
      using u(1) Some by (intro that) (simp_all add: best_effort_def catching_def seqs_def on_db_def ret_def)
  qed
  have "rollbackOverwrite site i (Some r0) (getCache d i) (Some key) w
      = (Inr (), w\<lparr>vdb := d2\<lparr>filecache := fc\<rparr>, vstore := s\<rparr>)"
    using tx s(1) fc(1) unfolding rollbackOverwrite_def key_arg_def
    by (auto simp: seqs_def split: prod.splits)
  moreover have "d2\<lparr>filecache := fc\<rparr> = (sync_set d i Active)\<lparr>object_map := restored d i cap r0,
      filecache := fc, next_obj := Suc (next_obj d)\<rparr>"
    by (simp add: d2_def d1_def)
  ultimately show ?thesis using fc(2,3) s(2) by (intro exI [of _ fc] exI [of _ s]) simp
qed

definition overwrite_done ::
  "'c site \<Rightarrow> ('c \<Rightarrow> string \<Rightarrow> buffer option) \<Rightarrow> nat \<Rightarrow> buffer \<Rightarrow> 'c vault \<Rightarrow> upload_result \<Rightarrow> 'c vault \<Rightarrow> bool" where
  "overwrite_done site content i buf v r w \<longleftrightarrow>
     (let d = vdb v; key = uuid site (draws v); cap = resolveVersionCapPerNode site;
          new = activate (length buf) (new_version d i key Obj_pending None)
      in meta_ok (vdb w) \<and> ur_node r = i \<and> ur_key r = Some key \<and>
         object_map (vdb w) = map (age_row d i cap) (object_map d) @ [new] \<and>
         getActiveObject (vdb w) i = Some new \<and> status_count (vdb w) i Obj_active = 1 \<and>
         file_nodes (vdb w) = file_nodes (sync_set d i Active) \<and>
         (\<exists>c. getCache (vdb w) i = Some c \<and> csize c = length buf \<and>
            (sha256 site buf \<noteq> [] \<longrightarrow> chash c = Some (sha256 site buf))) \<and>
         (\<forall>j. j \<noteq> i \<longrightarrow> getCache (vdb w) j = getCache d j) \<and>
         content (vstore w) = (content (vstore v))(key \<mapsto> buf))"

definition overwrite_undone ::
  "'c site \<Rightarrow> ('c \<Rightarrow> string \<Rightarrow> buffer option) \<Rightarrow> nat \<Rightarrow> obj \<Rightarrow> 'c vault \<Rightarrow> 'c vault \<Rightarrow> bool" where
  "overwrite_undone site content i r0 v w \<longleftrightarrow>
     (let d = vdb v; key = uuid site (draws v); cap = resolveVersionCapPerNode site
      in meta_ok (vdb w) \<and> object_map (vdb w) = restored d i cap r0 \<and>
         getActiveObject (vdb w) i = Some r0 \<and>
         file_nodes (vdb w) = file_nodes (sync_set d i Active) \<and>
         cache_same d (vdb w) i \<and> (\<forall>j. j \<noteq> i \<longrightarrow> getCache (vdb w) j = getCache d j) \<and>
         (\<forall>j. j \<noteq> key \<longrightarrow> content (vstore w) j = content (vstore v) j))"

lemma restored_active:
  assumes act: "getActiveObject d i = Some r0" "status_count d i Obj_active = 1"
    and om: "object_map d' = restored d i cap r0"
  shows "getActiveObject d' i = Some r0"
proof -
  have "filter (is_active i) (restored d i cap r0)
      = filter (\<lambda>r. \<not> (falls_out d i cap r \<and> r \<noteq> r0) \<and> is_active i r) (object_map d)"
    unfolding restored_def by (rule filter_update_where_drop) (simp add: is_active_def)
  also have "\<dots> = filter (is_active i) (object_map d)"
    using only_active(3) [OF act] by (intro filter_cong) auto
  finally show ?thesis using act(1) om by (simp add: getActiveObject_def is_active_eq)
qed

lemma overwrite_cases:
  fixes site :: "'c site"
  assumes site: "s3_site site content" and ok: "meta_ok (vdb v)"
    and key: "fresh_key (vdb v) (uuid site (draws v))" and i: "has_node (vdb v) i"
    and act: "getActiveObject (vdb v) i = Some r0" "status_count (vdb v) i Obj_active = 1"
    and clean: "cache_clean (vdb v) i"
  shows "case overwriteFile site i buf mime v of
      (Inr r, w) \<Rightarrow> overwrite_done site content i buf v r w
    | (Inl e, w) \<Rightarrow> overwrite_undone site content i r0 v w"
proof -
  let ?d = "vdb v" and ?key = "uuid site (draws v)" and ?cap = "resolveVersionCapPerNode site"
  let ?x = "new_version ?d i ?key Obj_pending None"
  define d2 where "d2 = sync_set (prepared ?d i ?key ?cap) i Pending_upload"
  define v2 where "v2 = v\<lparr>vdb := d2, draws := Suc (draws v)\<rparr>"
  define h where "h = rollbackOverwrite site i (Some r0) (getCache ?d i) (Some ?key)"
  have mok: "meta_ok d2" unfolding d2_def by (intro meta_ok_sync meta_ok_prepared ok i)

  have run: "overwriteFile site i buf mime v = seqs (catching
      (seqs (put_content site (Some ?key) buf)
        (\<lambda>_. finish_upload site i (Some ?key) (length buf) mime))
      (\<lambda>error. seqs h (\<lambda>_. throw error))) (\<lambda>_. record_hash site i (Some ?key) buf mime) v2"
    using begin_overwrite_eq [of site v i] site i act(1)
    by (simp add: overwriteFile_def service_simps seqs_def reads_def s3_site_def v2_def d2_def h_def)
  have roll: "\<exists>fc s'. h (v2\<lparr>vstore := s\<rparr>) = (Inr (), v2\<lparr>vdb := (sync_set ?d i Active)\<lparr>object_map :=
        restored ?d i ?cap r0, filecache := fc, next_obj := Suc (next_obj ?d)\<rparr>, vstore := s'\<rparr>) \<and>
      cache_kept ?d i fc \<and> cache_same ?d (?d\<lparr>filecache := fc\<rparr>) i \<and>
      (\<forall>j. j \<noteq> ?key \<longrightarrow> content s' j = content s j)" for s
    using rollback_ok [OF site meta_okD(2) [OF ok] act key i clean, of "v2\<lparr>vstore := s\<rparr>" ?cap]
    by (simp add: v2_def d2_def h_def)
  have lookup: "getObjectMapByS3Key (vdb v2) ?key = Some ?x" "onode ?x = i"
    using pending_lookup [OF key] by (simp_all add: v2_def d2_def getObjectMapByS3Key_def)
  have k0: "?key \<noteq> []" using key by (simp add: fresh_key_def)
  have h2: "has_node (vdb v2) i" using i by (simp add: v2_def d2_def)
  have h_ok: "fst (h (v2\<lparr>vstore := s\<rparr>)) = Inr ()" for s
    using roll [of s] by auto
  show ?thesis
    using store_phase [where h = h and buf = buf and mime = mime, OF site k0 h2 lookup h_ok]
    unfolding run [symmetric]
  proof (elim disjE exE conjE)
    fix s fc c
    assume w: "overwriteFile site i buf mime v = (Inr \<lparr>ur_node = i, ur_key = Some ?key,
        ur_size = length buf, ur_mime = mime, ur_hash = sha256 site buf\<rparr>,
        v2\<lparr>vdb := stored (vdb v2) i ?key (length buf) fc, vstore := s\<rparr>)"
      and s: "content s = (content (vstore v2))(?key \<mapsto> buf)" and fc: "cache_kept (vdb v2) i fc"
      and c: "getCache ((vdb v2)\<lparr>filecache := fc\<rparr>) i = Some c" "csize c = length buf"
        "sha256 site buf \<noteq> [] \<longrightarrow> chash c = Some (sha256 site buf)"
    let ?d3 = "stored (vdb v2) i ?key (length buf) fc"
    have om: "object_map ?d3 = map (age_row ?d i ?cap) (object_map ?d) @ [activate (length buf) ?x]"
      using activated_prepared [OF key] by (simp add: stored_def v2_def d2_def)
    have "is_active i (activate (length buf) ?x)" by (simp add: is_active_def)
    note act' = active_after [OF om this]
    have "meta_ok ?d3" using meta_ok_stored [OF _ fc] mok by (simp add: v2_def)
    moreover have "file_nodes ?d3 = file_nodes (sync_set ?d i Active)"
      by (simp add: stored_def v2_def d2_def sync_set_def update_where_def datetime_now_def prepared_def)
    moreover have "getCache ?d3 i = Some c" "\<forall>j. j \<noteq> i \<longrightarrow> getCache ?d3 j = getCache ?d j"
      using c(1) fc by (simp_all add: getCache_def stored_def cache_kept_def v2_def d2_def)
    ultimately show ?thesis
      unfolding w using act' om s c(2,3) by (simp add: overwrite_done_def Let_def v2_def)
  next
    fix e s
    assume w: "overwriteFile site i buf mime v = (Inl e, snd (h (v2\<lparr>vstore := s\<rparr>)))"
      and s: "\<forall>j. j \<noteq> ?key \<longrightarrow> content s j = content (vstore v2) j"
    obtain fc s' where r: "h (v2\<lparr>vstore := s\<rparr>) = (Inr (), v2\<lparr>vdb := (sync_set ?d i Active)\<lparr>object_map :=
        restored ?d i ?cap r0, filecache := fc, next_obj := Suc (next_obj ?d)\<rparr>, vstore := s'\<rparr>)"
      "cache_kept ?d i fc" "cache_same ?d (?d\<lparr>filecache := fc\<rparr>) i"
      "\<forall>j. j \<noteq> ?key \<longrightarrow> content s' j = content s j"
      using roll [of s] by blast
    let ?d3 = "(sync_set ?d i Active)\<lparr>object_map := restored ?d i ?cap r0, filecache := fc,
      next_obj := Suc (next_obj ?d)\<rparr>"
    have "objs_ok (?d\<lparr>object_map := restored ?d i ?cap r0\<rparr>)"
      unfolding restored_def by (rule objs_ok_update [OF meta_okD(2) [OF ok]]) simp_all
    then have "objs_ok ?d3" unfolding objs_ok_def by (auto simp: less_Suc_eq)
    moreover have "cache_ok ?d3"
      using meta_okD(3) [OF ok] r(2) by (simp add: cache_kept_def cache_ok_def)
    ultimately have "meta_ok ?d3"
      by (intro meta_ok_with [OF meta_ok_sync [OF ok, of i Active]]) simp_all
    moreover have "getActiveObject ?d3 i = Some r0"
      by (rule restored_active [OF act]) simp
    moreover have "cache_same ?d ?d3 i" "\<forall>j. j \<noteq> i \<longrightarrow> getCache ?d3 j = getCache ?d j"
      using r(2,3) by (simp_all add: cache_same_def cache_kept_def getCache_def)
    ultimately show ?thesis
      unfolding w using r(1,4) s by (simp add: overwrite_undone_def Let_def v2_def)
  qed
qed

end
