(* ===== verification/UploadProps.thy ===== *)
theory UploadProps
  imports UploadLaws
begin

text \<open>
  The properties of uploads and overwrites, with an in-memory object store on which their hypotheses
  are shown to hold.
\<close>

section \<open>An object store in memory\<close>

type_synonym mem = "(string \<times> buffer) list"

definition mem_put :: "string \<Rightarrow> buffer \<Rightarrow> mem \<Rightarrow> mem" where
  "mem_put k b s = (k, b) # filter (\<lambda>p. fst p \<noteq> k) s"

definition no_key :: err where
  "no_key = Driver ''NoSuchKey'' ''The specified key does not exist.''"

definition mem_client :: "mem s3_client" where
  "mem_client =
     \<lparr>send_put = (\<lambda>k b s. (Inr (), mem_put k b s)),
      send_get = (\<lambda>k s. case map_of s k of None \<Rightarrow> (Inl no_key, s) | Some b \<Rightarrow> (Inr b, s)),
      send_delete = (\<lambda>k s. (Inr (), filter (\<lambda>p. fst p \<noteq> k) s)),
      send_head = (\<lambda>k s. case map_of s k of None \<Rightarrow> (Inl no_key, s) | Some b \<Rightarrow> (Inr (length b, None), s)),
      send_copy = (\<lambda>k k' s. case map_of s k of None \<Rightarrow> (Inl no_key, s) | Some b \<Rightarrow> (Inr (), mem_put k' b s)),
      send_list = (\<lambda>tok s. (Inr (map (\<lambda>p. (fst p, 0)) s, None), s))\<rparr>"

definition timeout :: err where
  "timeout = Driver ''TimeoutError'' ''connect timed out''"

text \<open>The same store while writes time out.\<close>

definition stuck_client :: "mem s3_client" where
  "stuck_client = mem_client\<lparr>send_put := (\<lambda>k b s. (Inl timeout, s))\<rparr>"

lemma map_of_filter_key: "map_of (filter (\<lambda>p. fst p \<noteq> k) s) = (map_of s)(k := None)"
  by (induction s) (auto simp: fun_eq_iff)

lemma mem_laws: "s3_laws mem_client map_of"
  by (auto simp: s3_laws_def put_law_def get_law_def delete_law_def copy_law_def mem_client_def
      mem_put_def no_key_def map_of_filter_key fun_eq_iff split: option.splits)

lemma stuck_laws: "s3_laws stuck_client map_of"
  using mem_laws by (auto simp: s3_laws_def put_law_def get_law_def delete_law_def copy_law_def
      stuck_client_def timeout_def)

definition number_key :: "nat \<Rightarrow> string" where
  "number_key n = ''k'' @ replicate n (CHR ''0'')"

definition mem_site :: "mem s3_client \<Rightarrow> mem site" where
  "mem_site client =
     \<lparr>blobs = s3_store client, isWebdavMode = False, uuid = number_key,
      sha256 = (\<lambda>b. ''h''), maxPerNode = Some 2, configuredCap = None\<rparr>"

lemma mem_site_ok: "s3_site (mem_site mem_client) map_of" "s3_site (mem_site stuck_client) map_of"
  using mem_laws stuck_laws by (auto simp: s3_site_def mem_site_def)

definition demo_vault :: "mem vault" where
  "demo_vault = \<lparr>vdb = demo_tree, vstore = [], draws = 0\<rparr>"

lemma meta_ok_start: "tree_ok d \<Longrightarrow> object_map d = [] \<Longrightarrow> filecache d = [] \<Longrightarrow> user_paths d = [] \<Longrightarrow>
    user_files d = [] \<Longrightarrow> perm_shares d = [] \<Longrightarrow> share_links d = [] \<Longrightarrow> requests d = [] \<Longrightarrow> meta_ok d"
  by (simp add: meta_ok_def objs_ok_def cache_ok_def refs_ok_def)

lemma demo_vault_ok: "meta_ok (vdb demo_vault)"
proof -
  have "object_map demo_tree = []" "filecache demo_tree = []" "user_paths demo_tree = []"
    "user_files demo_tree = []" "perm_shares demo_tree = []" "share_links demo_tree = []"
    "requests demo_tree = []" by code_simp+
  then show ?thesis using meta_ok_start [OF demo_tree_ok] by (simp add: demo_vault_def)
qed

text \<open>The vault after \<open>/a/b/g\<close> was uploaded, and after it was overwritten twice.\<close>

definition uploaded :: "mem vault" where
  "uploaded = snd (uploadFile (mem_site mem_client) (Some 2) ''g'' [1, 2] None demo_vault)"

definition overwritten :: "mem vault" where
  "overwritten = snd (overwriteFile (mem_site mem_client) 5 [4, 5]  None
     (snd (overwriteFile (mem_site mem_client) 5 [3] None uploaded)))"

section \<open>Properties\<close>

text \<open>
  C3: A new file is uploaded completely or not at all. On success the name resolves to the new node,
  which has exactly one active version of the right size, its cache row, and its content under the
  new key, and a download that is answered returns exactly the uploaded bytes. On any error the
  database is the one before, the sequences of its keys apart, and no other object changed.
\<close>

theorem upload_atomic:
  assumes "s3_site site content" "meta_ok (vdb v)" "fresh_key (vdb v) (uuid site (draws v))"
  shows "case uploadFile site p nm buf mime v of
      (Inr r, w) \<Rightarrow> upload_done site content p nm buf v r w \<and>
        (\<forall>b w'. downloadNode site (ur_node r) w = (Inr b, w') \<longrightarrow> b = Some buf)
    | (Inl e, w) \<Rightarrow> upload_undone site content v w"
proof -
  have "b = Some buf"
    if r: "upload_done site content p nm buf v r w" "downloadNode site (ur_node r) w = (Inr b, w')" for r w b w'
  proof -
    obtain a where "getActiveObject (vdb w) (ur_node r) = Some a" "okey a = Some (uuid site (draws v))"
      using r(1) by (auto simp: upload_done_def)
    then have "b = content (vstore w) (uuid site (draws v))"
      using assms(3) by (intro download_active [OF assms(1) _ _ _ r(2)]) (auto simp: fresh_key_def)
    then show ?thesis using r(1) by (simp add: upload_done_def)
  qed
  then show ?thesis
    using upload_cases [OF assms, of p nm buf mime] by (auto split: prod.splits sum.splits)
qed

lemma demo_fresh: "fresh_key (vdb demo_vault) (uuid (mem_site c) (draws demo_vault))"
proof -
  have "object_map demo_tree = []" by code_simp
  then show ?thesis by (simp add: fresh_key_def demo_vault_def mem_site_def number_key_def)
qed

theorem upload_atomic_witness:
  "upload_done (mem_site mem_client) map_of (Some 2) ''g'' [1, 2] demo_vault
     (projr (fst (uploadFile (mem_site mem_client) (Some 2) ''g'' [1, 2] None demo_vault))) uploaded \<and>
   upload_undone (mem_site stuck_client) map_of demo_vault
     (snd (uploadFile (mem_site stuck_client) (Some 2) ''g'' [1, 2] None demo_vault))"
proof -
  have "isl (fst (uploadFile (mem_site stuck_client) (Some 2) ''g'' [1, 2] None demo_vault))"
    "\<not> isl (fst (uploadFile (mem_site mem_client) (Some 2) ''g'' [1, 2] None demo_vault))"
    by code_simp+
  then show ?thesis
    using upload_atomic [OF mem_site_ok(1) demo_vault_ok demo_fresh, of "Some 2" "''g''" "[1, 2]" None]
      upload_atomic [OF mem_site_ok(2) demo_vault_ok demo_fresh, of "Some 2" "''g''" "[1, 2]" None]
    by (auto simp: uploaded_def split: prod.splits sum.splits)
qed

text \<open>
  C4: Overwriting a file. On success the new bytes are the one active version under the next version
  number, the previous active version is history or, beyond the cap, orphaned, no other row of the
  node or of any other node changes state, and a download that is answered returns the new bytes. On
  failure the previous version is the active one again, its content and every other object are as
  before, the node and its cache row have their values, and of the version rows exactly those that
  fall out of the cap are lost.
\<close>

theorem overwrite_outcome:
  assumes "s3_site site content" "meta_ok (vdb v)" "fresh_key (vdb v) (uuid site (draws v))"
    and "has_node (vdb v) i" "getActiveObject (vdb v) i = Some r0" "status_count (vdb v) i Obj_active = 1"
    and "cache_clean (vdb v) i" and "okey r0 = Some k" "k \<noteq> []"
  shows "case overwriteFile site i buf mime v of
      (Inr r, w) \<Rightarrow> overwrite_done site content i buf v r w \<and>
        (\<forall>b w'. downloadNode site i w = (Inr b, w') \<longrightarrow> b = Some buf)
    | (Inl e, w) \<Rightarrow> overwrite_undone site content i r0 v w \<and>
        (\<forall>b w'. downloadNode site i w = (Inr b, w') \<longrightarrow> b = content (vstore v) k)"
proof -
  have r0: "k \<noteq> uuid site (draws v)"
    using assms(3,8) only_active(1) [OF assms(5,6)] by (auto simp: fresh_key_def)
  have "b = Some buf"
    if r: "overwrite_done site content i buf v r w" "downloadNode site i w = (Inr b, w')" for r w b w'
  proof -
    have "b = content (vstore w) (uuid site (draws v))"
      using r(1) assms(3)
      by (intro download_active [OF assms(1) _ _ _ r(2)]) (auto simp: overwrite_done_def Let_def fresh_key_def)
    then show ?thesis using r(1) by (simp add: overwrite_done_def Let_def)
  qed
  moreover have "b = content (vstore v) k"
    if r: "overwrite_undone site content i r0 v w" "downloadNode site i w = (Inr b, w')" for w b w'
  proof -
    have "b = content (vstore w) k"
      using r(1) assms(8,9)
      by (intro download_active [OF assms(1) _ _ _ r(2)]) (auto simp: overwrite_undone_def Let_def)
    then show ?thesis using r(1) r0 by (simp add: overwrite_undone_def Let_def)
  qed
  ultimately show ?thesis
    using overwrite_cases [OF assms(1-7), of buf mime] by (auto split: prod.splits sum.splits)
qed

lemma uploaded_eval:
  "object_map (vdb uploaded) = [\<lparr>oid = 1, onode = 5, okey = Some ''k'', osize = Some 2, obackend = S3,
     overs = 1, ostatus = Obj_active, ocreated = 0\<rparr>]"
  "filecache (vdb uploaded) = [\<lparr>cnode = 5, csize = 2, cmime = None, chash = Some ''h'', cupdated = 0\<rparr>]"
  "draws uploaded = 1" "has_node (vdb uploaded) 5"
  by code_simp+

lemma uploaded_ok: "meta_ok (vdb uploaded)"
proof -
  have "\<not> isl (fst (uploadFile (mem_site mem_client) (Some 2) ''g'' [1, 2] None demo_vault))"
    by code_simp
  then have "upload_done (mem_site mem_client) map_of (Some 2) ''g'' [1, 2] demo_vault
      (projr (fst (uploadFile (mem_site mem_client) (Some 2) ''g'' [1, 2] None demo_vault))) uploaded"
    using upload_cases [OF mem_site_ok(1) demo_vault_ok demo_fresh, of "Some 2" "''g''" "[1, 2]" None]
    by (auto simp: uploaded_def split: prod.splits sum.splits)
  then show ?thesis by (simp add: upload_done_def)
qed

lemma uploaded_facts:
  "fresh_key (vdb uploaded) (uuid (mem_site c) (draws uploaded))"
  "getActiveObject (vdb uploaded) 5 = Some (hd (object_map (vdb uploaded)))"
  "status_count (vdb uploaded) 5 Obj_active = 1" "cache_clean (vdb uploaded) 5"
  "okey (hd (object_map (vdb uploaded))) = Some ''k''"
  by (simp_all add: fresh_key_def uploaded_eval mem_site_def number_key_def getActiveObject_def
      status_count_def node_objs_def cache_clean_def getCache_def)

theorem overwrite_outcome_witness:
  "\<exists>r. overwrite_done (mem_site mem_client) map_of 5 [3] uploaded r
     (snd (overwriteFile (mem_site mem_client) 5 [3] None uploaded))"
proof -
  have "\<not> isl (fst (overwriteFile (mem_site mem_client) 5 [3] None uploaded))" by code_simp
  then show ?thesis
    using overwrite_outcome [OF mem_site_ok(1) uploaded_ok uploaded_facts(1) uploaded_eval(4)
        uploaded_facts(2-5), of "[3]" None]
    by (auto split: prod.splits sum.splits)
qed

section \<open>How many versions stay\<close>

lemma falls_out_count:
  assumes "objs_ok d" "cap > 0"
  shows "length (filter (falls_out d i cap) (node_objs d i)) = length (kept_versions d i) - cap"
proof -
  have "filter (falls_out d i cap) (node_objs d i)
      = filter (\<lambda>r. is_kept r \<and> length (filter (\<lambda>q. is_kept q \<and> overs q < overs r) (node_objs d i))
          < length (kept_versions d i) - cap) (node_objs d i)"
    unfolding falls_out_def older_kept_def using assms(2) by (intro filter_cong) (auto simp: node_objs_def)
  then show ?thesis
    using count_low_ranks [OF node_objs_versions [OF assms(1)], of is_kept]
    by (simp add: kept_versions_def)
qed

lemma not_fallen_count:
  assumes "objs_ok d" "cap > 0"
  shows "length (filter (\<lambda>r. is_kept r \<and> \<not> falls_out d i cap r) (node_objs d i))
           = min (length (kept_versions d i)) cap"
proof -
  have "kept_versions d i = filter (\<lambda>r. falls_out d i cap r \<or> (is_kept r \<and> \<not> falls_out d i cap r)) (node_objs d i)"
    unfolding kept_versions_def by (rule filter_cong) (auto simp: falls_out_def)
  then have "length (kept_versions d i) = length (filter (falls_out d i cap) (node_objs d i))
      + length (filter (\<lambda>r. is_kept r \<and> \<not> falls_out d i cap r) (node_objs d i))"
    using length_filter_disj [of "falls_out d i cap" "\<lambda>r. is_kept r \<and> \<not> falls_out d i cap r"] by simp
  then show ?thesis using falls_out_count [OF assms] by simp
qed

lemma kept_aged:
  assumes "object_map d' = map (age_row d i cap) (object_map d) @ [x]" "onode x = i" "is_kept x"
  shows "length (kept_versions d' i)
    = Suc (length (filter (\<lambda>r. is_kept r \<and> \<not> falls_out d i cap r) (node_objs d i)))"
proof -
  have "length (filter is_kept (filter (\<lambda>r. onode r = i) (map (age_row d i cap) xs)))
      = length (filter (\<lambda>r. is_kept r \<and> \<not> falls_out d i cap r) (filter (\<lambda>r. onode r = i) xs))" for xs
    by (induction xs) (auto simp: age_row_def is_kept_def is_active_def falls_out_def)
  then show ?thesis using assms by (simp add: kept_versions_def node_objs_def)
qed

text \<open>
  The cap of versions per node. One eviction leaves the larger of the active rows and the cap's
  share of the kept rows, orphans history rows of that node only, and every row it orphans is older
  than every history row that stays; with the cap 0 it does nothing.
\<close>

theorem version_cap:
  assumes "objs_ok d"
  shows "let d' = snd (evictVersionsBeyondCap i cap d) in
    (if cap = 0 then d' = d
     else length (kept_versions d' i)
       = max (status_count d i Obj_active) (min (length (kept_versions d i)) cap)) \<and>
    (\<forall>r \<in> set (object_map d). r \<notin> set (object_map d') \<longrightarrow>
       onode r = i \<and> ostatus r = Obj_history \<and> orphan r \<in> set (object_map d') \<and>
       (\<forall>q \<in> set (getVersionsByNode d' i). ostatus q = Obj_history \<longrightarrow> overs r < overs q))"
proof (cases "cap = 0")
  case True
  then show ?thesis by (simp add: evictVersionsBeyondCap_def)
next
  case False
  let ?d' = "d\<lparr>object_map := update_where (evicted d i cap) orphan (object_map d)\<rparr>"
  have d': "snd (evictVersionsBeyondCap i cap d) = ?d'" using False by (simp add: evict_eq)
  note counts = evict_status_count [OF assms, of ?d' i cap]
  have "length (kept_versions ?d' i) = max (status_count d i Obj_active) (min (length (kept_versions d i)) cap)"
    using counts kept_versions_count [of d i] kept_versions_count [of ?d' i] by simp
  moreover have "onode r = i \<and> ostatus r = Obj_history \<and> orphan r \<in> set (object_map ?d') \<and>
      (\<forall>q \<in> set (getVersionsByNode ?d' i). ostatus q = Obj_history \<longrightarrow> overs r < overs q)"
    if r: "r \<in> set (object_map d)" "r \<notin> set (object_map ?d')" for r
  proof -
    have e: "evicted d i cap r" "orphan r \<in> set (object_map ?d')"
      using r by (auto simp: set_update_where)
    moreover have "overs r < overs q"
      if q: "q \<in> set (getVersionsByNode ?d' i)" "ostatus q = Obj_history" for q
    proof -
      have "q \<in> set (node_objs ?d' i)" using q(1) by (simp add: getVersionsByNode_def kept_versions_def)
      then have "q \<in> set (node_objs d i)" "\<not> evicted d i cap q"
        using q(2) by (auto simp: node_objs_def set_update_where split: if_splits)
      then show ?thesis using evicted_oldest [OF e(1) _ q(2)] by blast
    qed
    ultimately show ?thesis by (simp add: evicted_def)
  qed
  ultimately show ?thesis using False unfolding Let_def d' by simp
qed

lemma overwritten_ok: "objs_ok (vdb uploaded)"
  using uploaded_ok by (simp add: meta_ok_def)

theorem version_cap_witness:
  "length (kept_versions (snd (evictVersionsBeyondCap 5 1 (vdb uploaded))) 5) = 1"
  using version_cap [OF overwritten_ok, of 5 1]
  by (simp add: Let_def kept_versions_def node_objs_def uploaded_eval status_count_def is_kept_def)

text \<open>
  The number of kept versions of a node after a successful overwrite is one more than the cap's
  share of those before. The eviction runs while the new version is still pending, so a node that
  is overwritten often keeps one version more than the cap.
\<close>

theorem versions_after_overwrite:
  assumes "s3_site site content" "meta_ok (vdb v)" "fresh_key (vdb v) (uuid site (draws v))"
    and "has_node (vdb v) i" "getActiveObject (vdb v) i = Some r0" "status_count (vdb v) i Obj_active = 1"
    and "cache_clean (vdb v) i" "overwriteFile site i buf mime v = (Inr r, w)"
    and "resolveVersionCapPerNode site > 0"
  shows "length (kept_versions (vdb w) i)
    = Suc (min (length (kept_versions (vdb v) i)) (resolveVersionCapPerNode site))"
proof -
  have "overwrite_done site content i buf v r w"
    using overwrite_cases [OF assms(1-7), of buf mime] assms(8) by simp
  then have om: "object_map (vdb w) = map (age_row (vdb v) i (resolveVersionCapPerNode site)) (object_map (vdb v))
      @ [activate (length buf) (new_version (vdb v) i (uuid site (draws v)) Obj_pending None)]"
    by (simp add: overwrite_done_def Let_def)
  show ?thesis
    using kept_aged [OF om] not_fallen_count [OF meta_okD(2) [OF assms(2)] assms(9)]
    by (simp add: is_kept_def)
qed

lemma mem_cap [simp]: "resolveVersionCapPerNode (mem_site c) = 2"
  by (simp add: resolveVersionCapPerNode_def mem_site_def)

theorem versions_after_overwrite_witness:
  "length (kept_versions (vdb (snd (overwriteFile (mem_site mem_client) 5 [3] None uploaded))) 5) = 2"
proof -
  have "\<not> isl (fst (overwriteFile (mem_site mem_client) 5 [3] None uploaded))" by code_simp
  note r = result_Inr [OF this]
  have "length (kept_versions (vdb uploaded) 5) = 1"
    by (simp add: kept_versions_def node_objs_def uploaded_eval is_kept_def)
  then show ?thesis
    using versions_after_overwrite [OF mem_site_ok(1) uploaded_ok uploaded_facts(1) uploaded_eval(4)
        uploaded_facts(2-4) r] by simp
qed

lemma kept_restored:
  assumes om: "object_map d' = restored d i cap r0" and r0: "\<not> falls_out d i cap r0"
  shows "length (kept_versions d' i)
    = length (filter (\<lambda>r. is_kept r \<and> \<not> falls_out d i cap r) (node_objs d i))"
proof -
  have "length (filter is_kept (filter (\<lambda>r. onode r = i) (update_where (\<lambda>r. falls_out d i cap r \<and> r \<noteq> r0) orphan xs)))
      = length (filter (\<lambda>r. is_kept r \<and> \<not> falls_out d i cap r) (filter (\<lambda>r. onode r = i) xs))" for xs
    using r0 by (induction xs) (auto simp: update_where_def is_kept_def)
  then show ?thesis using om by (simp add: kept_versions_def node_objs_def restored_def)
qed

lemma newest_stays:
  assumes "objs_ok d" "r0 \<in> set (object_map d)" "is_active i r0" "cap > 0"
    and newest: "\<And>r. r \<in> set (node_objs d i) \<Longrightarrow> is_kept r \<Longrightarrow> overs r \<le> overs r0"
  shows "\<not> falls_out d i cap r0"
proof -
  have r0: "r0 \<in> set (node_objs d i)" "is_kept r0"
    using assms(2,3) by (auto simp: node_objs_def is_active_def is_kept_def)
  have "overs r < overs r0" if "r \<in> set (node_objs d i)" "is_kept r" "r \<noteq> r0" for r
    using newest [OF that(1,2)] distinct_map_unique [OF node_objs_versions [OF assms(1)] that(1) r0(1)] that(3)
    by (cases "overs r = overs r0") auto
  then have "filter is_kept (node_objs d i) = filter (\<lambda>r. is_kept r \<and> overs r < overs r0 \<or> r = r0) (node_objs d i)"
    using r0(2) by (intro filter_cong) auto
  then have "length (kept_versions d i)
      = older_kept d i (overs r0) + length (filter (\<lambda>r. r = r0) (node_objs d i))"
    using length_filter_disj [of "\<lambda>r. is_kept r \<and> overs r < overs r0" "\<lambda>r. r = r0" "node_objs d i"]
    by (auto simp: kept_versions_def older_kept_def)
  moreover have "length (filter (\<lambda>r. r = r0) (node_objs d i)) \<le> 1"
    using node_objs_versions [OF assms(1), of i] filter_key_le_1 [of id "node_objs d i" r0]
    by (simp add: distinct_map)
  ultimately have "length (kept_versions d i) - cap \<le> older_kept d i (overs r0)" using assms(4) by linarith
  then show ?thesis by (simp add: falls_out_def)
qed

text \<open>
  A failed overwrite is not free of effects: when the active version is the newest and the node
  keeps more versions than the cap, which successful overwrites lead to, the kept versions shrink to
  the cap. The oldest history versions are orphaned by the first transaction and the rollback
  does not bring them back.
\<close>

theorem failed_overwrite_loses_versions:
  assumes "s3_site site content" "meta_ok (vdb v)" "fresh_key (vdb v) (uuid site (draws v))"
    and "has_node (vdb v) i" "getActiveObject (vdb v) i = Some r0" "status_count (vdb v) i Obj_active = 1"
    and "cache_clean (vdb v) i" "overwriteFile site i buf mime v = (Inl e, w)"
    and "0 < resolveVersionCapPerNode site" "resolveVersionCapPerNode site < length (kept_versions (vdb v) i)"
    and "\<And>r. r \<in> set (node_objs (vdb v) i) \<Longrightarrow> is_kept r \<Longrightarrow> overs r \<le> overs r0"
  shows "length (kept_versions (vdb w) i) = resolveVersionCapPerNode site"
proof -
  let ?cap = "resolveVersionCapPerNode site"
  have "overwrite_undone site content i r0 v w"
    using overwrite_cases [OF assms(1-7), of buf mime] assms(8) by simp
  then have om: "object_map (vdb w) = restored (vdb v) i ?cap r0" by (simp add: overwrite_undone_def Let_def)
  note act = only_active [OF assms(5,6)] and ok = meta_okD(2) [OF assms(2)]
  have "\<not> falls_out (vdb v) i ?cap r0" by (rule newest_stays [OF ok act(1,2) assms(9,11)])
  then show ?thesis using kept_restored [OF om] not_fallen_count [OF ok assms(9)] assms(10) by simp
qed

lemma overwritten_eval:
  "map (\<lambda>c. (cnode c, cmime c, chash c)) (filecache (vdb overwritten)) = [(5, None, Some ''h'')]"
  "draws overwritten = 3" "has_node (vdb overwritten) 5"
  by code_simp+

lemma overwritten_meta_ok: "meta_ok (vdb overwritten)"
proof -
  define once where "once = snd (overwriteFile (mem_site mem_client) 5 [3] None uploaded)"
  have ran: "\<not> isl (fst (overwriteFile (mem_site mem_client) 5 [3] None uploaded))"
    "\<not> isl (fst (overwriteFile (mem_site mem_client) 5 [4, 5] None once))"
    unfolding once_def by code_simp+
  have once: "meta_ok (vdb once)"
    using overwrite_cases [OF mem_site_ok(1) uploaded_ok uploaded_facts(1) uploaded_eval(4)
        uploaded_facts(2-4), of "[3]" None] ran(1)
    by (auto simp: overwrite_done_def Let_def once_def split: prod.splits sum.splits)
  have e: "list_all (\<lambda>r. okey r \<noteq> Some ''k00'') (object_map (vdb once))" "draws once = 2"
    "has_node (vdb once) 5" "status_count (vdb once) 5 Obj_active = 1"
    "map (\<lambda>c. (cnode c, cmime c, chash c)) (filecache (vdb once)) = [(5, None, Some ''h'')]"
    "map_option oid (getActiveObject (vdb once) 5) = Some 2"
    unfolding once_def by code_simp+
  then have f: "fresh_key (vdb once) (uuid (mem_site mem_client) (draws once))"
    by (simp add: fresh_key_def mem_site_def number_key_def numeral_2_eq_2 list_all_iff)
  obtain r0 where r0: "getActiveObject (vdb once) 5 = Some r0" using e(6) by auto
  obtain c where c: "filecache (vdb once) = [c]" "cmime c = None" "chash c = Some ''h''"
    using e(5) by auto
  have "cache_clean (vdb once) 5" using c by (simp add: cache_clean_def getCache_def)
  then show ?thesis
    using overwrite_cases [OF mem_site_ok(1) once f e(3) r0 e(4), of "[4, 5]" None] ran(2)
    by (auto simp: overwrite_done_def Let_def overwritten_def once_def split: prod.splits sum.splits)
qed

lemma overwritten_facts:
  "fresh_key (vdb overwritten) (uuid (mem_site c) (draws overwritten))"
  "\<exists>r0. getActiveObject (vdb overwritten) 5 = Some r0 \<and> overs r0 = 3"
  "status_count (vdb overwritten) 5 Obj_active = 1" "cache_clean (vdb overwritten) 5"
  "length (kept_versions (vdb overwritten) 5) = 3"
proof -
  have "list_all (\<lambda>r. okey r \<noteq> Some ''k000'') (object_map (vdb overwritten))"
    "map_option overs (getActiveObject (vdb overwritten) 5) = Some 3"
    "status_count (vdb overwritten) 5 Obj_active = 1" "length (kept_versions (vdb overwritten) 5) = 3"
    by code_simp+
  then show "fresh_key (vdb overwritten) (uuid (mem_site c) (draws overwritten))"
    "\<exists>r0. getActiveObject (vdb overwritten) 5 = Some r0 \<and> overs r0 = 3"
    "status_count (vdb overwritten) 5 Obj_active = 1" "length (kept_versions (vdb overwritten) 5) = 3"
    by (simp_all add: fresh_key_def mem_site_def number_key_def overwritten_eval numeral_3_eq_3 list_all_iff)
  show "cache_clean (vdb overwritten) 5"
    using overwritten_eval(1) by (auto simp: cache_clean_def getCache_def)
qed

theorem failed_overwrite_loses_versions_witness:
  "length (kept_versions (vdb (snd (overwriteFile (mem_site stuck_client) 5 [9] None overwritten))) 5) = 2"
proof -
  have "isl (fst (overwriteFile (mem_site stuck_client) 5 [9] None overwritten))" by code_simp
  note r = result_Inl [OF this]
  obtain r0 where r0: "getActiveObject (vdb overwritten) 5 = Some r0" "overs r0 = 3"
    using overwritten_facts(2) by blast
  have "list_all (\<lambda>r. overs r \<le> 3) (node_objs (vdb overwritten) 5)" by code_simp
  then have newest: "overs r \<le> overs r0" if "r \<in> set (node_objs (vdb overwritten) 5)" "is_kept r" for r
    using that(1) r0(2) by (simp add: list_all_iff)
  show ?thesis
    using failed_overwrite_loses_versions [OF mem_site_ok(2) overwritten_meta_ok overwritten_facts(1)
        overwritten_eval(3) r0(1) overwritten_facts(3,4) r _ _ newest] overwritten_facts(5)
    by simp
qed

end
