(* ===== verification/UploadRaces.thy ===== *)
theory UploadRaces
  imports UploadProps
begin

text \<open>
  Two overwrites of one file whose phases interleave. Nothing serialises \<open>overwriteFile\<close>: every
  transaction is atomic, the object upload runs between two of them, and no lock is taken. The
  schedule below starts both before either finishes.
\<close>

definition two_overwrites ::
  "'c site \<Rightarrow> nat \<Rightarrow> buffer \<Rightarrow> buffer \<Rightarrow> string option \<Rightarrow> ('c vault, string option \<times> string option) service" where
  "two_overwrites site i bufA bufB mime =
     seqs (begin_overwrite site i) (\<lambda>keyA.
     seqs (begin_overwrite site i) (\<lambda>keyB.
     seqs (put_content site keyA bufA) (\<lambda>_.
     seqs (put_content site keyB bufB) (\<lambda>_.
     seqs (finish_upload site i keyA (length bufA) mime) (\<lambda>_.
     seqs (finish_upload site i keyB (length bufB) mime) (\<lambda>_. ret (keyA, keyB)))))))"

definition pending_with :: "db \<Rightarrow> nat \<Rightarrow> string \<Rightarrow> nat" where
  "pending_with d i key =
     length (filter (\<lambda>r. okey r = Some key \<and> ostatus r = Obj_pending) (node_objs d i))"

lemma activated_count:
  assumes "object_map d' = activated key len (object_map d)"
  shows "status_count d' i Obj_active = status_count d i Obj_active + pending_with d i key"
proof -
  have "length (filter (\<lambda>r. ostatus r = Obj_active) (filter (\<lambda>r. onode r = i) (activated key len xs)))
      = length (filter (\<lambda>r. ostatus r = Obj_active) (filter (\<lambda>r. onode r = i) xs))
        + length (filter (\<lambda>r. okey r = Some key \<and> ostatus r = Obj_pending) (filter (\<lambda>r. onode r = i) xs))" for xs
    by (induction xs) (auto simp: activated_def update_where_def)
  then show ?thesis using assms by (simp add: status_count_def pending_with_def node_objs_def)
qed

lemma activated_other:
  assumes "object_map d' = activated key len (object_map d)" "key' \<noteq> key"
  shows "pending_with d' i key' = pending_with d i key'"
    and "getObjectMapByS3Key d key' = Some r \<Longrightarrow> \<exists>r'. getObjectMapByS3Key d' key' = Some r' \<and> onode r' = onode r"
proof -
  have f: "filter (\<lambda>r. okey r = Some key' \<and> ostatus r \<in> S) (activated key len xs)
      = filter (\<lambda>r. okey r = Some key' \<and> ostatus r \<in> S) xs" for xs S
    using assms(2) by (induction xs) (auto simp: activated_def update_where_def)
  then show "getObjectMapByS3Key d key' = Some r \<Longrightarrow> \<exists>r'. getObjectMapByS3Key d' key' = Some r' \<and> onode r' = onode r"
    using assms(1) f [of "{Obj_pending, Obj_active}" "object_map d"] by (simp add: getObjectMapByS3Key_def)
  have "filter (\<lambda>r. okey r = Some key' \<and> ostatus r = Obj_pending) (filter (\<lambda>r. onode r = i) (activated key len xs))
      = filter (\<lambda>r. okey r = Some key' \<and> ostatus r = Obj_pending) (filter (\<lambda>r. onode r = i) xs)" for xs
    using assms(2) by (induction xs) (auto simp: activated_def update_where_def)
  then show "pending_with d' i key' = pending_with d i key'"
    using assms(1) by (simp add: pending_with_def node_objs_def)
qed

text \<open>After both started: no active row, one pending row under each key.\<close>

lemma both_started:
  fixes cap :: nat
  assumes "fresh_key d keyA" "fresh_key d keyB" "keyA \<noteq> keyB" "has_node d i"
  defines "d2 \<equiv> sync_set (prepared (sync_set (prepared d i keyA cap) i Pending_upload) i keyB cap) i Pending_upload"
  shows "status_count d2 i Obj_active = 0" "pending_with d2 i keyA = 1" "pending_with d2 i keyB = 1"
    and "\<exists>r. getObjectMapByS3Key d2 keyA = Some r \<and> onode r = i"
    and "\<exists>r. getObjectMapByS3Key d2 keyB = Some r \<and> onode r = i"
proof -
  define d1 where "d1 = sync_set (prepared d i keyA cap) i Pending_upload"
  define xa where "xa = new_version d i keyA Obj_pending None"
  define xb where "xb = new_version d1 i keyB Obj_pending None"
  have xa: "age_row d1 i cap xa = xa"
    by (simp add: age_row_def falls_out_def is_active_def is_kept_def xa_def)
  define old where "old = map (\<lambda>r. age_row d1 i cap (age_row d i cap r)) (object_map d)"
  have om: "object_map d2 = old @ [xa, xb]"
    using xa by (simp add: d2_def d1_def [symmetric] prepared_def xb_def old_def)
      (simp add: d1_def prepared_def xa_def)
  have no: "okey r \<noteq> Some keyA \<and> okey r \<noteq> Some keyB \<and> \<not> is_active i r" if "r \<in> set old" for r
    using that assms(1,2) age_row_inactive [of i d1 cap] by (auto simp: old_def fresh_key_def)
  have parts: "onode xa = i" "onode xb = i" "okey xa = Some keyA" "okey xb = Some keyB"
    "ostatus xa = Obj_pending" "ostatus xb = Obj_pending" by (simp_all add: xa_def xb_def)
  have "filter (\<lambda>r. ostatus r = Obj_active) (filter (\<lambda>r. onode r = i) old) = []"
    "filter (\<lambda>r. okey r = Some keyA \<and> ostatus r = Obj_pending) (filter (\<lambda>r. onode r = i) old) = []"
    "filter (\<lambda>r. okey r = Some keyB \<and> ostatus r = Obj_pending) (filter (\<lambda>r. onode r = i) old) = []"
    "filter (\<lambda>r. okey r = Some keyA \<and> ostatus r \<in> {Obj_pending, Obj_active}) old = []"
    "filter (\<lambda>r. okey r = Some keyB \<and> ostatus r \<in> {Obj_pending, Obj_active}) old = []"
    using no unfolding filter_empty_conv by (auto simp: is_active_def)
  then show "status_count d2 i Obj_active = 0" "pending_with d2 i keyA = 1" "pending_with d2 i keyB = 1"
    "\<exists>r. getObjectMapByS3Key d2 keyA = Some r \<and> onode r = i"
    "\<exists>r. getObjectMapByS3Key d2 keyB = Some r \<and> onode r = i"
    using parts assms(3)
    by (simp_all add: status_count_def pending_with_def node_objs_def getObjectMapByS3Key_def om)
qed

text \<open>
  Interleaved overwrites break the rule of one active version: when two overwrites of a file both
  start before either finishes, and all their requests succeed, the file ends with two active
  versions, one per overwrite.
\<close>

theorem interleaved_overwrites:
  assumes "s3_site site content" "has_node (vdb v) i"
    and "fresh_key (vdb v) (uuid site (draws v))" "fresh_key (vdb v) (uuid site (Suc (draws v)))"
    and "uuid site (draws v) \<noteq> uuid site (Suc (draws v))"
    and "two_overwrites site i bufA bufB mime v = (Inr keys, w)"
  shows "status_count (vdb w) i Obj_active = 2"
proof -
  let ?a = "uuid site (draws v)" and ?b = "uuid site (Suc (draws v))" and ?cap = "resolveVersionCapPerNode site"
  define d1 where "d1 = sync_set (prepared (vdb v) i ?a ?cap) i Pending_upload"
  define d2 where "d2 = sync_set (prepared d1 i ?b ?cap) i Pending_upload"
  define v2 where "v2 = v\<lparr>vdb := d2, draws := Suc (Suc (draws v))\<rparr>"
  have dav: "\<not> isWebdavMode site" using assms(1) by (simp add: s3_site_def)
  have has: "has_node d1 i" "has_node d2 i" using assms(2) by (simp_all add: d1_def d2_def)
  note start = both_started [OF assms(3,4,5,2), of ?cap, folded d1_def, folded d2_def]
  have b: "begin_overwrite site i v = (Inr (Some ?a), v\<lparr>vdb := d1, draws := Suc (draws v)\<rparr>)"
    "begin_overwrite site i (v\<lparr>vdb := d1, draws := Suc (draws v)\<rparr>) = (Inr (Some ?b), v2)"
    using begin_overwrite_eq [OF dav, of v i] assms(2) begin_overwrite_eq [OF dav, of "v\<lparr>vdb := d1, draws := Suc (draws v)\<rparr>" i] has(1)
    by (simp_all add: d1_def d2_def v2_def)
  have put: "vdb u' = vdb u" if "put_content site k buf u = (r, u')" for k buf u r u'
    using that by (auto simp: put_content_def on_store_def split: prod.splits)
  obtain r3 u3 r4 u4 where p: "put_content site (Some ?a) bufA v2 = (r3, u3)"
    "put_content site (Some ?b) bufB u3 = (r4, u4)" by (metis surj_pair)
  have u: "vdb u4 = d2"
    "seqs (finish_upload site i (Some ?a) (length bufA) mime) (\<lambda>_.
       seqs (finish_upload site i (Some ?b) (length bufB) mime) (\<lambda>_. ret (Some ?a, Some ?b))) u4 = (Inr keys, w)"
    using assms(6) b p put [OF p(1)] put [OF p(2)]
    by (auto simp: two_overwrites_def seqs_def v2_def split: sum.splits)
  obtain r where r: "getObjectMapByS3Key (vdb u4) ?a = Some r" "onode r = i" using start(4) u(1) by auto
  obtain fc where fa: "finish_upload site i (Some ?a) (length bufA) mime u4
      = (Inr (), u4\<lparr>vdb := stored d2 i ?a (length bufA) fc\<rparr>)"
    using finish_upload_ok [OF dav _ r, of "length bufA" mime] has(2) u(1) by auto
  let ?d3 = "stored d2 i ?a (length bufA) fc" and ?u5 = "u4\<lparr>vdb := stored d2 i ?a (length bufA) fc\<rparr>"
  have om3: "object_map ?d3 = activated ?a (length bufA) (object_map d2)" by (simp add: stored_def)
  obtain q where q: "getObjectMapByS3Key (vdb ?u5) ?b = Some q" "onode q = i"
    using activated_other(2) [OF om3 assms(5) [symmetric]] start(5) by auto
  have "has_node (vdb ?u5) i" using has(2) by (simp add: stored_def)
  then obtain fc' where fb: "finish_upload site i (Some ?b) (length bufB) mime ?u5
      = (Inr (), ?u5\<lparr>vdb := stored ?d3 i ?b (length bufB) fc'\<rparr>)"
    using finish_upload_ok [OF dav _ q, of "length bufB" mime] by auto
  have w: "vdb w = stored ?d3 i ?b (length bufB) fc'"
    using u(2) fa fb by (auto simp: seqs_def ret_def)
  have om4: "object_map (vdb w) = activated ?b (length bufB) (object_map ?d3)"
    by (simp add: w stored_def)
  show ?thesis
    using activated_count [OF om4, of i] activated_count [OF om3, of i]
      activated_other(1) [OF om3 assms(5) [symmetric], of i] start(1-3) by simp
qed

theorem interleaved_overwrites_witness:
  "status_count (vdb (snd (two_overwrites (mem_site mem_client) 5 [3] [4] None uploaded))) 5 Obj_active = 2"
proof -
  have "\<not> isl (fst (two_overwrites (mem_site mem_client) 5 [3] [4] None uploaded))" by code_simp
  note r = result_Inr [OF this]
  have "fresh_key (vdb uploaded) (uuid (mem_site mem_client) (Suc (draws uploaded)))"
    "uuid (mem_site mem_client) (draws uploaded) \<noteq> uuid (mem_site mem_client) (Suc (draws uploaded))"
    by (simp_all add: fresh_key_def uploaded_eval mem_site_def number_key_def)
  then show ?thesis
    using interleaved_overwrites [OF mem_site_ok(1) uploaded_eval(4) uploaded_facts(1) _ _ r] by simp
qed

end
