(* ===== verification/Trash.thy ===== *)
theory Trash
  imports Blobs Acl
begin

text \<open>
  \<open>server/service/webdavRemoteOps.js\<close> and \<open>server/service/trashService.js\<close>: restoring a trashed
  subtree with its trashed ancestors, and purging one. Purging works on the vault (database, blob
  store); restoring and the route-facing purge also check permissions, so they work on a drive, the
  vault together with the state of the access control. The thumbnail cache is not modelled.
\<close>

section \<open>The drive\<close>

record 'c drive =
  dperm :: perm_state
  dstore :: 'c
  ddraws :: nat

definition vault_of :: "'c drive \<Rightarrow> 'c vault" where
  "vault_of s = \<lparr>vdb = pdb (dperm s), vstore = dstore s, draws = ddraws s\<rparr>"

definition on_vault :: "('c vault, 'a) service \<Rightarrow> ('c drive, 'a) service" where
  "on_vault m s = (case m (vault_of s) of (r, v) \<Rightarrow>
     (r, s\<lparr>dperm := (dperm s)\<lparr>pdb := vdb v\<rparr>, dstore := vstore v, ddraws := draws v\<rparr>))"

text \<open>A permission check reads the database and may fill the caches.\<close>

definition on_acl :: "(perm_state \<Rightarrow> 'a \<times> perm_state) \<Rightarrow> ('c drive, 'a) service" where
  "on_acl f s = (case f (dperm s) of (x, p) \<Rightarrow> (Inr x, s\<lparr>dperm := p\<rparr>))"

section \<open>Names\<close>

text \<open>\<open>path.extname\<close> of a name without a slash.\<close>

definition extname :: "string \<Rightarrow> string" where
  "extname s =
     (let post = takeWhile (\<lambda>c. c \<noteq> CHR ''.'') (rev s);
          pre = take (length s - length post - 1) s
      in if CHR ''.'' \<notin> set s \<or> pre = [] \<or> s = ''..'' then [] else CHR ''.'' # rev post)"

definition TRASH_ROOT :: string where
  "TRASH_ROOT = ''/.wea-trash''"

definition buildTrashPath :: "nat \<Rightarrow> string" where
  "buildTrashPath nodeId = TRASH_ROOT @ CHR ''/'' # decimal nodeId"

section \<open>webdavRemoteOps.js\<close>

text \<open>\<open>try { ... } catch { ignore }\<close> around each deletion.\<close>

definition quietly :: "('s, 'a) service \<Rightarrow> ('s, bool) service" where
  "quietly m = catching (seqs m (\<lambda>_. ret True)) (\<lambda>_. ret False)"

fun delete_paths :: "'c site \<Rightarrow> nat list \<Rightarrow> ('c vault, unit) service" where
  "delete_paths site [] = ret ()"
| "delete_paths site (i # is) =
     seqs (reads (\<lambda>v. getNodePath (vdb v) i)) (\<lambda>nodePath.
     seqs (quietly (on_store (deleteBlob (blobs site) nodePath))) (\<lambda>_. delete_paths site is))"

definition deleteRemoteSubtreeBestEffort :: "'c site \<Rightarrow> nat \<Rightarrow> ('c vault, unit) service" where
  "deleteRemoteSubtreeBestEffort site nodeId =
     (if \<not> isWebdavMode site then ret ()
      else seqs (reads (\<lambda>v. getDescendantIds (vdb v) nodeId)) (\<lambda>descendantIds.
           delete_paths site (rev descendantIds @ [nodeId])))"

definition ensureTrashRoot :: "'c site \<Rightarrow> ('c vault, unit) service" where
  "ensureTrashRoot site =
     (if \<not> isWebdavMode site then ret ()
      else on_store (ensureDirectoryExists (blobs site) TRASH_ROOT))"

section \<open>Restoring\<close>

definition not_found_text :: "string \<Rightarrow> bool" where
  "not_found_text s \<longleftrightarrow> (let t = to_lower s in
     has_infix t ''404'' \<or> has_infix t ''not found'' \<or> has_infix t ''notfound'' \<or> has_infix t ''nosuchkey'')"

definition isNotFoundError :: "err \<Rightarrow> bool" where
  "isNotFoundError e \<longleftrightarrow>
     err_status e = Some 404 \<or> not_found_text (err_name e @ CHR '' '' # err_message e)"

definition headTrashEntryOrNull :: "'c site \<Rightarrow> string \<Rightarrow> ('c vault, (nat \<times> string option) option) service" where
  "headTrashEntryOrNull site trashPath =
     catching (on_store (headBlob (blobs site) trashPath))
       (\<lambda>e. if isNotFoundError e then ret None else throw e)"

definition suffixed :: "string \<Rightarrow> string \<Rightarrow> nat \<Rightarrow> string" where
  "suffixed base ext i = base @ '' ('' @ decimal i @ '')'' @ ext"

text \<open>The loop over the suffixes has no bound of its own.\<close>

partial_function (option) first_free :: "string set \<Rightarrow> string \<Rightarrow> string \<Rightarrow> nat \<Rightarrow> string option" where
  "first_free taken base ext i =
     (if suffixed base ext i \<notin> taken then Some (suffixed base ext i)
      else first_free taken base ext (Suc i))"

definition resolveRestoreName :: "db \<Rightarrow> nat option \<Rightarrow> string \<Rightarrow> string list \<Rightarrow> string option" where
  "resolveRestoreName d parentId name claimedNames =
     (let taken = set (map v_name (getChildren d parentId) @ claimedNames); ext = extname name;
          base = take (length name - length ext) name
      in if name \<notin> taken then Some name else first_free taken base ext 2)"

text \<open>The trashed ancestors above a trashed node, nearest first, and its trashed subtree.\<close>

partial_function (option) trashed_above :: "db \<Rightarrow> node_view \<Rightarrow> node_view list \<Rightarrow> node_view list option" where
  "trashed_above d cursor chain =
     (case v_parentId cursor of
        None \<Rightarrow> Some chain
      | Some p \<Rightarrow> (case getNodeIncludingTrashed d p of
            None \<Rightarrow> Some chain
          | Some parent \<Rightarrow> (if v_deleted parent = None then Some chain
              else trashed_above d parent (chain @ [parent]))))"

partial_function (option) trashed_below :: "db \<Rightarrow> node_view list \<Rightarrow> node_view list \<Rightarrow> node_view list option" where
  "trashed_below d queue rows =
     (case queue of
        [] \<Rightarrow> Some rows
      | node # rest \<Rightarrow>
          (let children = getTrashChildren d (Some (v_id node))
           in trashed_below d (rest @ children) (rows @ children)))"

declare first_free.simps [code] trashed_above.simps [code] trashed_below.simps [code]

text \<open>
  The state of the loop over the rows to restore: the renames to apply, the path each restored node
  will have, the names claimed under each parent.
\<close>

record plan =
  p_renames :: "(nat \<times> string) list"
  p_paths :: "(nat \<times> string) list"
  p_claims :: "(nat option \<times> string) list"

definition claimed :: "plan \<Rightarrow> nat option \<Rightarrow> string list" where
  "claimed p parent = map snd (filter (\<lambda>c. fst c = parent) (p_claims p))"

definition parent_path :: "db \<Rightarrow> plan \<Rightarrow> node_view \<Rightarrow> string option" where
  "parent_path d p row =
     (case v_parentId row of
        None \<Rightarrow> None
      | Some q \<Rightarrow> (case map_of (p_paths p) q of Some s \<Rightarrow> Some s | None \<Rightarrow> Some (getNodePath d q)))"

definition under_path :: "string option \<Rightarrow> string \<Rightarrow> string" where
  "under_path parent name =
     (case parent of Some s \<Rightarrow> if s = [] then CHR ''/'' # name else s @ CHR ''/'' # name
      | None \<Rightarrow> CHR ''/'' # name)"

definition move_back :: "'c site \<Rightarrow> node_view \<Rightarrow> string option \<Rightarrow> string \<Rightarrow> ('c vault, unit) service" where
  "move_back site row parentPath finalName =
     (if \<not> isWebdavMode site then ret ()
      else seqs (ensureTrashRoot site) (\<lambda>_.
           seqs (headTrashEntryOrNull site (buildTrashPath (v_id row))) (\<lambda>trashEntry.
           if trashEntry \<noteq> None then
             on_store (moveBlob (blobs site) (buildTrashPath (v_id row)) (under_path parentPath finalName) False)
           else if finalName \<noteq> v_name row \<and>
                   under_path parentPath (v_name row) \<noteq> under_path parentPath finalName then
             on_store (moveBlob (blobs site) (under_path parentPath (v_name row))
               (under_path parentPath finalName) False)
           else ret ())))"

definition plan_row :: "'c site \<Rightarrow> plan \<Rightarrow> node_view \<Rightarrow> ('c vault, plan) service" where
  "plan_row site p row =
     seqs (reads (\<lambda>v. (parent_path (vdb v) p row,
       resolveRestoreName (vdb v) (v_parentId row) (v_name row) (claimed p (v_parentId row))))) (\<lambda>(pp, nm).
       case nm of
         None \<Rightarrow> throw No_return
       | Some finalName \<Rightarrow>
           seqs (move_back site row pp finalName) (\<lambda>_.
           ret \<lparr>p_renames = p_renames p @ (if finalName \<noteq> v_name row then [(v_id row, finalName)] else []),
                p_paths = (v_id row, under_path pp finalName) # p_paths p,
                p_claims = p_claims p @ [(v_parentId row, finalName)]\<rparr>))"

fun plan_rows :: "'c site \<Rightarrow> plan \<Rightarrow> node_view list \<Rightarrow> ('c vault, plan) service" where
  "plan_rows site p [] = ret p"
| "plan_rows site p (row # rows) = seqs (plan_row site p row) (\<lambda>q. plan_rows site q rows)"

fun apply_renames :: "(nat \<times> string) list \<Rightarrow> (db, unit) service" where
  "apply_renames [] = ret ()"
| "apply_renames ((i, nm) # rs) = seqs (repo_renameNode i nm) (\<lambda>_. apply_renames rs)"

record restore_result =
  rr_node :: nat
  rr_restored :: "nat list"
  rr_path :: string

definition files_not_found :: err where
  "files_not_found = Err ''serverErrors.files.notFound'' 404"

definition not_trashed :: err where
  "not_trashed = Err ''serverErrors.files.notTrashed'' 409"

definition permission_denied :: err where
  "permission_denied = Err ''serverErrors.files.permissionDenied'' 403"

text \<open>The rows to restore, topmost trashed ancestor first: the chain, then the subtree below the target.\<close>

definition rows_to_restore :: "db \<Rightarrow> node_view \<Rightarrow> node_view list option" where
  "rows_to_restore d target =
     Option.bind (trashed_above d target [target]) (\<lambda>chain.
     Option.bind (trashed_below d [target] []) (\<lambda>below. Some (rev chain @ below)))"

definition restore_rows :: "'c site \<Rightarrow> nat \<Rightarrow> node_view list \<Rightarrow> ('c vault, restore_result) service" where
  "restore_rows site nodeId orderedRows =
     seqs (plan_rows site \<lparr>p_renames = [], p_paths = [], p_claims = []\<rparr> orderedRows) (\<lambda>p.
     seqs (vault_tx (on_db (seqs (apply_renames (p_renames p)) (\<lambda>_.
             untrashSubtree (map v_id orderedRows))))) (\<lambda>_.
     seqs (reads (\<lambda>v. getNodePath (vdb v) nodeId)) (\<lambda>finalPath.
     ret \<lparr>rr_node = nodeId, rr_restored = map v_id orderedRows, rr_path = finalPath\<rparr>)))"

text \<open>\<open>isAdmin\<close> is \<open>userIsAdmin(user)\<close> of the user record the route passes.\<close>

definition restore_gates :: "principal \<Rightarrow> nat \<Rightarrow> bool \<Rightarrow> node_view \<Rightarrow> ('c drive, unit) service" where
  "restore_gates userId nodeId isAdmin topmost =
     (if isAdmin then ret ()
      else seqs (on_acl (checkFilePermission userId nodeId ''write'')) (\<lambda>nodeAllowed.
           seqs (guard nodeAllowed permission_denied) (\<lambda>_.
           case v_parentId topmost of
             None \<Rightarrow> ret ()
           | Some p \<Rightarrow>
               seqs (on_acl (checkFolderPermission userId p ''write'')) (\<lambda>parentAllowed.
               guard parentAllowed permission_denied))))"

definition restoreNode ::
  "'c site \<Rightarrow> principal \<Rightarrow> nat \<Rightarrow> bool \<Rightarrow> ('c drive, restore_result) service" where
  "restoreNode site userId nodeId isAdmin =
     seqs (reads (\<lambda>s. getNodeIncludingTrashed (pdb (dperm s)) nodeId)) (\<lambda>found.
       case found of
         None \<Rightarrow> throw files_not_found
       | Some target \<Rightarrow>
           seqs (guard (v_deleted target \<noteq> None) not_trashed) (\<lambda>_.
           seqs (reads (\<lambda>s. trashed_above (pdb (dperm s)) target [target])) (\<lambda>chain.
           case chain of
             None \<Rightarrow> throw No_return
           | Some c \<Rightarrow>
               seqs (restore_gates userId nodeId isAdmin (last c)) (\<lambda>_.
               seqs (reads (\<lambda>s. rows_to_restore (pdb (dperm s)) target)) (\<lambda>rows.
               case rows of
                 None \<Rightarrow> throw No_return
               | Some orderedRows \<Rightarrow> on_vault (restore_rows site nodeId orderedRows))))))"

section \<open>Purging\<close>

record purge_result =
  pr_nodes :: nat
  pr_blobs :: nat
  pr_errors :: "string list"

definition count_if :: "bool \<Rightarrow> nat" where
  "count_if b = (if b then 1 else 0)"

definition covered_path :: "db \<Rightarrow> nat \<Rightarrow> node_view \<Rightarrow> string option" where
  "covered_path d nodeId trashRoot =
     (let nodePath = getNodePath d nodeId; rootPath = getNodePath d (v_id trashRoot);
          relative = (if starts_with nodePath rootPath then drop (length rootPath) nodePath else [])
      in if v_id trashRoot = nodeId \<or> relative = [] then None
         else Some (buildTrashPath (v_id trashRoot) @ relative))"

definition purge_remote :: "'c site \<Rightarrow> nat \<Rightarrow> node_view \<Rightarrow> ('c vault, nat) service" where
  "purge_remote site nodeId node =
     (if v_deleted node = None then seqs (deleteRemoteSubtreeBestEffort site nodeId) (\<lambda>_. ret 0)
      else seqs (quietly (on_store (deleteBlob (blobs site) (buildTrashPath nodeId)))) (\<lambda>a.
           seqs (reads (\<lambda>v. trashed_above (vdb v) node [node])) (\<lambda>chain.
           case chain of
             None \<Rightarrow> throw No_return
           | Some c \<Rightarrow>
               seqs (reads (\<lambda>v. covered_path (vdb v) nodeId (last c))) (\<lambda>covered.
               case covered of
                 None \<Rightarrow> ret (count_if a)
               | Some p \<Rightarrow> seqs (quietly (on_store (deleteBlob (blobs site) p)))
                   (\<lambda>b. ret (count_if a + count_if b))))))"

text \<open>S3: every version row of the subtree, whatever its state; a failure is recorded.\<close>

fun purge_objects :: "'c site \<Rightarrow> obj list \<Rightarrow> nat \<Rightarrow> string list \<Rightarrow> ('c vault, nat \<times> string list) service" where
  "purge_objects site [] n errs = ret (n, errs)"
| "purge_objects site (r # rs) n errs =
     (case okey r of
        None \<Rightarrow> purge_objects site rs n errs
      | Some k \<Rightarrow>
          (if k = [] then purge_objects site rs n errs
           else seqs (catching (seqs (on_store (deleteBlob (blobs site) k)) (\<lambda>_. ret None))
                  (\<lambda>e. ret (Some (''Failed to delete S3 blob '' @ k @ '': '' @ err_message e))))
             (\<lambda>failed. case failed of
                   None \<Rightarrow> purge_objects site rs (Suc n) errs
                 | Some msg \<Rightarrow> purge_objects site rs n (errs @ [msg]))))"

definition purge_content :: "'c site \<Rightarrow> nat \<Rightarrow> node_view \<Rightarrow> ('c vault, nat \<times> string list) service" where
  "purge_content site nodeId node =
     (if isWebdavMode site then seqs (purge_remote site nodeId node) (\<lambda>n. ret (n, []))
      else seqs (reads (\<lambda>v. getObjectMapBySubtree (vdb v) nodeId)) (\<lambda>objectRows.
           purge_objects site objectRows 0 []))"

definition purgeNode :: "'c site \<Rightarrow> nat \<Rightarrow> ('c vault, purge_result) service" where
  "purgeNode site nodeId =
     seqs (reads (\<lambda>v. (getNodeIncludingTrashed (vdb v) nodeId, getDescendants (vdb v) nodeId))) (\<lambda>(found, subtreeRows).
       case found of
         None \<Rightarrow> throw files_not_found
       | Some node \<Rightarrow>
           seqs (purge_content site nodeId node) (\<lambda>(deletedBlobs, errors).
           seqs (on_db (deleteNode nodeId)) (\<lambda>_.
           ret \<lparr>pr_nodes = length subtreeRows, pr_blobs = deletedBlobs, pr_errors = errors\<rparr>)))"

definition purgeTrashedNode :: "'c site \<Rightarrow> principal \<Rightarrow> nat \<Rightarrow> bool \<Rightarrow> ('c drive, nat \<times> nat) service" where
  "purgeTrashedNode site userId nodeId isAdmin =
     seqs (reads (\<lambda>s. getNodeIncludingTrashed (pdb (dperm s)) nodeId)) (\<lambda>found.
       case found of
         None \<Rightarrow> throw files_not_found
       | Some node \<Rightarrow>
           seqs (guard (v_deleted node \<noteq> None) not_trashed) (\<lambda>_.
           seqs (if isAdmin then ret True else on_acl (checkFilePermission userId nodeId ''write'')) (\<lambda>allowed.
           seqs (guard allowed permission_denied) (\<lambda>_.
           seqs (on_vault (purgeNode site nodeId)) (\<lambda>r. ret (pr_nodes r, pr_blobs r))))))"

text \<open>Both sweeps purge one root after the other and collect the failures.\<close>

fun purge_each :: "'c site \<Rightarrow> nat list \<Rightarrow> purge_result \<Rightarrow> ('c vault, purge_result) service" where
  "purge_each site [] acc = ret acc"
| "purge_each site (i # is) acc =
     seqs (catching (seqs (purgeNode site i) (\<lambda>r. ret (Inr r)))
             (\<lambda>e. ret (Inl (''Failed to purge trashed node '' @ decimal i @ '': '' @ err_message e)))) (\<lambda>out.
       case out of
         Inr r \<Rightarrow> purge_each site is (acc\<lparr>pr_nodes := pr_nodes acc + pr_nodes r,
                    pr_blobs := pr_blobs acc + pr_blobs r\<rparr>)
       | Inl msg \<Rightarrow> purge_each site is (acc\<lparr>pr_errors := pr_errors acc @ [msg]\<rparr>))"

definition emptyTrash :: "'c site \<Rightarrow> ('c vault, purge_result) service" where
  "emptyTrash site =
     seqs (reads (\<lambda>v. getTopmostTrashedNodes (vdb v) None)) (\<lambda>topmost.
       purge_each site (map v_id topmost) \<lparr>pr_nodes = 0, pr_blobs = 0, pr_errors = []\<rparr>)"

end
