(* ===== verification/TrashLaws.thy ===== *)
theory TrashLaws
  imports Trash UploadLaws
begin

text \<open>
  The walks of a restore end and list distinct trashed nodes, the plan it makes gives every node a
  name that is free, and the transaction it runs cannot hit the unique indexes.
\<close>

section \<open>Names\<close>

lemma decimal_digits: "set (decimal n) \<subseteq> {c. 48 \<le> (of_char c :: nat) \<and> (of_char c :: nat) \<le> 57}"
proof (induction n rule: decimal.induct)
  case (1 n)
  have d: "(of_char (char_of (48 + k) :: char) :: nat) = 48 + k" if "k < 10" for k :: nat
    using that by (simp add: of_char_of)
  show ?case
  proof (cases "n < 10")
    case True
    then show ?thesis by (subst decimal.simps) (simp add: d)
  next
    case False
    then show ?thesis using 1 d [of "n mod 10"] by (subst decimal.simps) simp
  qed
qed

definition value_of :: "string \<Rightarrow> nat" where
  "value_of s = foldl (\<lambda>v c. 10 * v + (of_char c - 48)) 0 s"

lemma value_of_decimal: "value_of (decimal n) = n"
proof (induction n rule: decimal.induct)
  case (1 n)
  have d: "(of_char (char_of (48 + k) :: char) :: nat) - 48 = k" if "k < 10" for k :: nat
    using that by (simp add: of_char_of)
  show ?case
  proof (cases "n < 10")
    case True
    then show ?thesis by (subst decimal.simps) (simp add: value_of_def d)
  next
    case False
    then have "value_of (decimal (n div 10)) = n div 10" using 1 by simp
    then show ?thesis using False d [of "n mod 10"] by (subst decimal.simps) (simp add: value_of_def)
  qed
qed

lemma decimal_inj: "decimal m = decimal n \<Longrightarrow> m = n"
  by (metis value_of_decimal)

lemma suffixed_inj: "suffixed base ext i = suffixed base ext j \<Longrightarrow> i = j"
  by (simp add: suffixed_def decimal_inj)

text \<open>The loop over the suffixes ends: only finitely many names are taken.\<close>

lemma first_free_ends:
  assumes "finite taken"
  shows "\<exists>nm. first_free taken base ext i = Some nm \<and> nm \<notin> taken"
proof -
  have "\<exists>j \<ge> i. suffixed base ext j \<notin> taken"
  proof (rule ccontr)
    assume "\<not> ?thesis"
    then have "suffixed base ext ` {i..} \<subseteq> taken" by auto
    then have "finite (suffixed base ext ` {i..})" using assms finite_subset by blast
    moreover have "inj_on (suffixed base ext) {i..}" by (rule inj_onI) (rule suffixed_inj)
    ultimately have "finite {i..}" by (simp add: finite_image_iff)
    then show False using infinite_Ici by blast
  qed
  then obtain j where j: "j \<ge> i" "suffixed base ext j \<notin> taken" by blast
  then show ?thesis
  proof (induction "j - i" arbitrary: i)
    case 0
    then show ?case by (subst first_free.simps) simp
  next
    case (Suc n)
    then have "\<exists>nm. first_free taken base ext (Suc i) = Some nm \<and> nm \<notin> taken" by simp
    then show ?case by (subst first_free.simps) auto
  qed
qed

lemma resolveRestoreName_ends:
  "\<exists>nm. resolveRestoreName d p name cl = Some nm \<and> nm \<notin> v_name ` set (getChildren d p) \<and> nm \<notin> set cl"
proof -
  let ?taken = "set (map v_name (getChildren d p) @ cl)"
  have "\<exists>nm. first_free ?taken base ext i = Some nm \<and> nm \<notin> ?taken" for base ext i
    by (rule first_free_ends) simp
  then have "\<exists>nm. resolveRestoreName d p name cl = Some nm \<and> nm \<notin> ?taken"
    by (auto simp: resolveRestoreName_def Let_def)
  then show ?thesis by auto
qed

lemma resolveRestoreName_free:
  "name \<notin> v_name ` set (getChildren d p) \<Longrightarrow> name \<notin> set cl \<Longrightarrow> resolveRestoreName d p name cl = Some name"
  by (simp add: resolveRestoreName_def Let_def)

section \<open>The chain of trashed ancestors\<close>

definition row_view :: "db \<Rightarrow> node_view \<Rightarrow> bool" where
  "row_view d v \<longleftrightarrow> (\<exists>n. node_row d (v_id v) = Some n \<and> v_parentId v = nparent n \<and> v_name v = nname n \<and>
     v_deleted v = ndeleted n)"

lemma row_view_including: "getNodeIncludingTrashed d i = Some v \<Longrightarrow> row_view d v \<and> v_id v = i"
  by (auto simp: getNodeIncludingTrashed_def row_view_def dest: node_row_in) (metis node_row_in)

lemma row_view_parent: "row_view d v \<Longrightarrow> parent_of d (v_id v) = v_parentId v"
  by (auto simp: row_view_def parent_of_def)

definition above_set :: "db \<Rightarrow> nat \<Rightarrow> nat set" where
  "above_set d c = {a. \<exists>k. up d k c = Some a}"

lemma finite_above: "closure_ok d \<Longrightarrow> finite (above_set d c)"
proof -
  assume "closure_ok d"
  then have "above_set d c = fst ` set (getAncestorChain d c)"
    by (force simp: above_set_def ancestors_closure)
  then show ?thesis by simp
qed

lemma above_parent:
  assumes "nodes_ok d" "closure_ok d" "parent_of d c = Some p"
  shows "above_set d p \<subset> above_set d c"
proof -
  have "above_set d p \<subseteq> above_set d c"
    using assms(3) unfolding above_set_def by (auto intro: exI [of _ "Suc k" for k])
  moreover have "c \<in> above_set d c"
    using parent_of_has_child [OF assms(3)] unfolding above_set_def by (auto intro: exI [of _ 0])
  moreover have "c \<notin> above_set d p"
  proof
    assume "c \<in> above_set d p"
    then obtain k where "up d k p = Some c" by (auto simp: above_set_def)
    then have "up d (Suc k) c = Some c" using assms(3) by simp
    then show False using closure_acyclic [OF assms(2)] unfolding acyclic_nodes_def by fastforce
  qed
  ultimately show ?thesis by blast
qed

lemma trashed_above_ends:
  assumes ok: "nodes_ok d" "closure_ok d" and "row_view d cur"
  shows "\<exists>more. trashed_above d cur chain = Some (chain @ more) \<and>
    (\<forall>v \<in> set more. row_view d v \<and> v_deleted v \<noteq> None \<and> v_id v \<in> above_set d (v_id cur)) \<and>
    distinct (map v_id (cur # more))"
  using assms(3)
proof (induction "card (above_set d (v_id cur))" arbitrary: cur chain rule: less_induct)
  case less
  note stop = exI [of _ "[]"]
  show ?case
  proof (cases "v_parentId cur")
    case None
    then show ?thesis by (subst trashed_above.simps) (simp add: stop)
  next
    case (Some p)
    show ?thesis
    proof (cases "getNodeIncludingTrashed d p")
      case None
      with Some show ?thesis by (subst trashed_above.simps) (simp add: stop)
    next
      case (Some parent)
      show ?thesis
      proof (cases "v_deleted parent = None")
        case True
        with Some \<open>v_parentId cur = Some p\<close> show ?thesis by (subst trashed_above.simps) (simp add: stop)
      next
        case False
        have par: "row_view d parent" "v_id parent = p" using row_view_including [OF Some] by auto
        have sub: "above_set d p \<subset> above_set d (v_id cur)"
          using row_view_parent [OF less.prems] \<open>v_parentId cur = Some p\<close> by (intro above_parent ok) simp
        then have "card (above_set d (v_id parent)) < card (above_set d (v_id cur))"
          using finite_above [OF ok(2)] psubset_card_mono par(2) by metis
        from less.hyps [OF this par(1), of "chain @ [parent]"] obtain more where m:
          "trashed_above d parent (chain @ [parent]) = Some ((chain @ [parent]) @ more)"
          "\<forall>v \<in> set more. row_view d v \<and> v_deleted v \<noteq> None \<and> v_id v \<in> above_set d p"
          "distinct (map v_id (parent # more))" unfolding par(2) by blast
        have "trashed_above d cur chain = Some (chain @ parent # more)"
          using Some False m(1) \<open>v_parentId cur = Some p\<close> by (subst trashed_above.simps) simp
        moreover have "p \<in> above_set d p"
          using par unfolding above_set_def row_view_def
          by (auto intro!: exI [of _ 0] simp: has_node_def dest!: node_row_in)
        moreover have "v_id cur \<notin> above_set d p"
        proof
          assume "v_id cur \<in> above_set d p"
          then obtain k where "up d k p = Some (v_id cur)" by (auto simp: above_set_def)
          then have "up d (Suc k) (v_id cur) = Some (v_id cur)"
            using row_view_parent [OF less.prems] \<open>v_parentId cur = Some p\<close> by simp
          then show False using closure_acyclic [OF ok(2)] unfolding acyclic_nodes_def by fastforce
        qed
        ultimately show ?thesis
          using m(2,3) par sub False by (intro exI [of _ "parent # more"]) auto
      qed
    qed
  qed
qed

section \<open>The trashed subtree\<close>

lemma trash_child:
  assumes "nodes_ok d" "v \<in> set (getTrashChildren d (Some p))"
  shows "row_view d v" "v_deleted v \<noteq> None" "parent_of d (v_id v) = Some p"
proof -
  obtain n where n: "n \<in> set (file_nodes d)" "nparent n = Some p" "\<not> live n"
    "v = mapNodeRow n (cache_of d (nid n))"
    using assms(2) by (auto simp: getTrashChildren_def)
  have r: "node_row d (nid n) = Some n" using node_row_some [OF assms(1) n(1)] .
  then show "row_view d v" "v_deleted v \<noteq> None" "parent_of d (v_id v) = Some p"
    using n by (auto simp: row_view_def live_def parent_of_def)
qed

lemma distinct_trash_children: "nodes_ok d \<Longrightarrow> distinct (map v_id (getTrashChildren d p))"
  using nodes_okD(1) by (simp add: getTrashChildren_def comp_def distinct_map inj_on_def)

lemma finite_desc: "finite (desc_of d m)"
proof (rule finite_subset)
  show "desc_of d m \<subseteq> node_ids d" unfolding desc_of_def using up_has has_node_iff by blast
  show "finite (node_ids d)" by (simp add: node_ids_def)
qed

lemma desc_siblings:
  assumes "acyclic_nodes d" "parent_of d x = Some n" "parent_of d y = Some n" "has_node d n" "x \<noteq> y"
  shows "desc_of d x \<inter> desc_of d y = {}"
proof (rule ccontr)
  assume "desc_of d x \<inter> desc_of d y \<noteq> {}"
  then obtain c i j where c: "up d i c = Some x" "up d j c = Some y" by (auto simp: desc_of_def)
  then have "up d (Suc i) c = Some n" "up d (Suc j) c = Some n"
    using up_Suc_some [OF c(1)] up_Suc_some [OF c(2)] assms(2-4) by simp_all
  then have "i = j" using up_inj assms(1) by blast
  with c assms(5) show False by simp
qed

lemma desc_child:
  assumes "acyclic_nodes d" "parent_of d x = Some n" "has_node d n"
  shows "desc_of d x \<subseteq> desc_of d n - {n}"
proof
  fix c assume "c \<in> desc_of d x"
  then obtain i where i: "up d i c = Some x" by (auto simp: desc_of_def)
  then have s: "up d (Suc i) c = Some n" using up_Suc_some [OF i] assms(2,3) by simp
  then have "c \<noteq> n" using assms(1) unfolding acyclic_nodes_def by fastforce
  then show "c \<in> desc_of d n - {n}" using s unfolding desc_of_def by blast
qed

definition subtree_sizes :: "db \<Rightarrow> node_view list \<Rightarrow> nat" where
  "subtree_sizes d queue = sum_list (map (\<lambda>v. card (desc_of d (v_id v))) queue)"

lemma children_smaller:
  assumes ok: "nodes_ok d" "acyclic_nodes d" and n: "has_node d n"
  shows "subtree_sizes d (getTrashChildren d (Some n)) < card (desc_of d n)"
proof -
  let ?ids = "v_id ` set (getTrashChildren d (Some n))"
  have par: "parent_of d c = Some n" if "c \<in> ?ids" for c using trash_child(3) [OF ok(1)] that by blast
  have "subtree_sizes d (getTrashChildren d (Some n))
      = sum_list (map (\<lambda>i. card (desc_of d i)) (map v_id (getTrashChildren d (Some n))))"
    by (simp add: subtree_sizes_def comp_def)
  also have "\<dots> = (\<Sum>i \<in> ?ids. card (desc_of d i))"
    using distinct_trash_children [OF ok(1)] by (subst sum_list_distinct_conv_sum_set) simp_all
  also have "\<dots> = card (\<Union>i \<in> ?ids. desc_of d i)"
    using desc_siblings [OF ok(2) par par n] finite_desc by (subst card_UN_disjoint) auto
  also have "\<dots> < card (desc_of d n)"
  proof (rule psubset_card_mono [OF finite_desc])
    have "(\<Union>i \<in> ?ids. desc_of d i) \<subseteq> desc_of d n - {n}" using desc_child [OF ok(2) par n] by blast
    then show "(\<Union>i \<in> ?ids. desc_of d i) \<subset> desc_of d n" using desc_of_self [OF n] by blast
  qed
  finally show ?thesis .
qed

text \<open>The queue of the walk: distinct nodes already listed, with nothing below them listed yet.\<close>

definition walk_ok :: "db \<Rightarrow> nat \<Rightarrow> node_view list \<Rightarrow> node_view list \<Rightarrow> bool" where
  "walk_ok d t queue rows \<longleftrightarrow>
     (\<forall>v \<in> set queue. row_view d v) \<and> (\<forall>v \<in> set rows. row_view d v \<and> v_deleted v \<noteq> None \<and> v_id v \<in> desc_of d t) \<and>
     distinct (t # map v_id rows) \<and> v_id ` set queue \<subseteq> insert t (v_id ` set rows) \<and>
     distinct (map v_id queue) \<and>
     (\<forall>q \<in> set queue. (desc_of d (v_id q) - {v_id q}) \<inter> insert t (v_id ` set rows) = {})"

lemma row_view_has: "row_view d v \<Longrightarrow> has_node d (v_id v)"
  by (auto simp: row_view_def has_node_def dest!: node_row_in)

lemma walk_step:
  assumes ok: "nodes_ok d" "acyclic_nodes d" and w: "walk_ok d t (node # rest) rows"
  defines "cs \<equiv> getTrashChildren d (Some (v_id node))"
  shows "walk_ok d t (rest @ cs) (rows @ cs)"
proof -
  let ?n = "v_id node" and ?old = "insert t (v_id ` set rows)"
  have W: "row_view d node" "?n \<in> ?old" "?n \<notin> v_id ` set rest" "v_id ` set rest \<subseteq> ?old"
    "(desc_of d ?n - {?n}) \<inter> ?old = {}" "\<forall>q \<in> set rest. (desc_of d (v_id q) - {v_id q}) \<inter> ?old = {}"
    "\<forall>v \<in> set rows. v_id v \<in> desc_of d t" "has_node d ?n"
    using w row_view_has unfolding walk_ok_def by simp_all
  note n = W(8)
  have par: "parent_of d (v_id c) = Some ?n" if "c \<in> set cs" for c
    using trash_child(3) [OF ok(1)] that by (simp add: cs_def)
  have low: "v_id c \<in> desc_of d ?n - {?n}" if "c \<in> set cs" for c
    using desc_child [OF ok(2) par [OF that] n] desc_of_self parent_of_has_child [OF par [OF that]] by blast
  have new: "v_id c \<notin> ?old" if "c \<in> set cs" for c
    using low [OF that] W(5) by blast
  have dn: "?n \<in> desc_of d t"
    using W(2,7) desc_of_self [OF n] by auto
  have ct: "v_id c \<in> desc_of d t" if "c \<in> set cs" for c
    using desc_of_parent [OF par [OF that] dn] .
  have key: "(desc_of d (v_id q) - {v_id q}) \<inter> insert t (v_id ` set (rows @ cs)) = {}" if q: "q \<in> set (rest @ cs)" for q
  proof -
    consider "q \<in> set rest" | "q \<in> set cs" using q by auto
    then show ?thesis
    proof cases
      case 1
      have "v_id q \<noteq> ?n" using 1 W(3) by (metis image_eqI)
      have old: "(desc_of d (v_id q) - {v_id q}) \<inter> ?old = {}" using 1 W(6) by blast
      have nq: "?n \<notin> desc_of d (v_id q)"
      proof
        assume "?n \<in> desc_of d (v_id q)"
        then have "?n \<in> (desc_of d (v_id q) - {v_id q}) \<inter> ?old" using W(2) \<open>v_id q \<noteq> ?n\<close> by simp
        then show False using old by simp
      qed
      have "v_id c \<notin> desc_of d (v_id q) - {v_id q}" if c: "c \<in> set cs" for c
      proof
        assume a: "v_id c \<in> desc_of d (v_id q) - {v_id q}"
        then obtain k where k: "up d k (v_id c) = Some (v_id q)" by (auto simp: desc_of_def)
        with a have "k \<noteq> 0" by (cases k) (auto split: if_splits)
        then obtain j where "k = Suc j" using not0_implies_Suc by blast
        with k have "up d j ?n = Some (v_id q)" using par [OF c] by simp
        then show False using nq by (auto simp: desc_of_def)
      qed
      then show ?thesis using old by auto
    next
      case 2
      then have sub: "desc_of d (v_id q) \<subseteq> desc_of d ?n - {?n}" using desc_child [OF ok(2) par n] by blast
      have "v_id c \<notin> desc_of d (v_id q) - {v_id q}" if c: "c \<in> set cs" for c
      proof (cases "v_id c = v_id q")
        case False
        then have "desc_of d (v_id c) \<inter> desc_of d (v_id q) = {}"
          using desc_siblings [OF ok(2) par [OF c] par [OF 2] n] by blast
        then show ?thesis using desc_of_self parent_of_has_child [OF par [OF c]] by blast
      qed simp
      then show ?thesis using sub W(5) by auto
    qed
  qed
  have dcs: "distinct (map v_id cs)" unfolding cs_def by (rule distinct_trash_children [OF ok(1)])
  have rcs: "row_view d c" "v_deleted c \<noteq> None" if "c \<in> set cs" for c
    using trash_child(1,2) [OF ok(1)] that unfolding cs_def by blast+
  have dw: "distinct (map v_id rest)" "distinct (map v_id rows)" "t \<notin> v_id ` set rows"
    "\<forall>v \<in> set rest. row_view d v"
    "\<forall>v \<in> set rows. row_view d v \<and> v_deleted v \<noteq> None \<and> v_id v \<in> desc_of d t"
    using w unfolding walk_ok_def by simp_all
  have old: "?old \<inter> v_id ` set cs = {}"
  proof (rule Int_emptyI)
    fix x assume "x \<in> ?old" "x \<in> v_id ` set cs"
    then show False using new by (elim imageE) simp
  qed
  have "v_id ` set rest \<inter> v_id ` set cs \<subseteq> ?old \<inter> v_id ` set cs"
    using W(4) by (intro Int_mono order_refl)
  with old have "v_id ` set rest \<inter> v_id ` set cs = {}" "v_id ` set rows \<inter> v_id ` set cs = {}" "t \<notin> v_id ` set cs"
    by (simp_all add: Int_insert_left split: if_splits)
  then have "distinct (map v_id (rest @ cs))" "distinct (t # map v_id (rows @ cs))"
    using dw(1-3) dcs by (simp_all add: image_Un)
  moreover have "\<forall>v \<in> set (rest @ cs). row_view d v" using dw(4) rcs(1) by (simp add: ball_Un)
  moreover have "\<forall>v \<in> set (rows @ cs). row_view d v \<and> v_deleted v \<noteq> None \<and> v_id v \<in> desc_of d t"
    using dw(5) rcs ct by (simp add: ball_Un)
  moreover have "v_id ` set (rest @ cs) \<subseteq> insert t (v_id ` set (rows @ cs))" using W(4) by auto
  ultimately show ?thesis using key unfolding walk_ok_def by blast
qed

lemma trashed_below_ends:
  assumes ok: "nodes_ok d" "acyclic_nodes d" and "walk_ok d t queue rows"
  shows "\<exists>out. trashed_below d queue rows = Some out \<and> walk_ok d t [] out \<and> set rows \<subseteq> set out"
  using assms(3)
proof (induction "subtree_sizes d queue" arbitrary: queue rows rule: less_induct)
  case less
  show ?case
  proof (cases queue)
    case Nil
    then show ?thesis using less.prems by (subst trashed_below.simps) simp
  next
    case (Cons node rest)
    let ?cs = "getTrashChildren d (Some (v_id node))"
    have n: "has_node d (v_id node)" using less.prems row_view_has Cons by (auto simp: walk_ok_def)
    have "subtree_sizes d (rest @ ?cs) < subtree_sizes d queue"
      using children_smaller [OF ok n] by (simp add: subtree_sizes_def Cons)
    from less.hyps [OF this walk_step [OF ok less.prems [unfolded Cons]]] show ?thesis
      unfolding Cons by (subst trashed_below.simps) (auto simp: Let_def)
  qed
qed

section \<open>The plan\<close>

definition final_name :: "plan \<Rightarrow> node_view \<Rightarrow> string" where
  "final_name p row = (case map_of (p_renames p) (v_id row) of Some nm \<Rightarrow> nm | None \<Rightarrow> v_name row)"

definition plan_ok :: "db \<Rightarrow> node_view list \<Rightarrow> plan \<Rightarrow> bool" where
  "plan_ok d rows p \<longleftrightarrow>
     fst ` set (p_renames p) \<subseteq> v_id ` set rows \<and> distinct (map fst (p_renames p)) \<and>
     p_claims p = map (\<lambda>r. (v_parentId r, final_name p r)) rows \<and> distinct (p_claims p) \<and>
     (\<forall>r \<in> set rows. final_name p r \<notin> v_name ` set (getChildren d (v_parentId r)))"

lemma plan_row_ok:
  assumes site: "\<not> isWebdavMode site" and p: "plan_ok (vdb v) rows p" and new: "v_id row \<notin> v_id ` set rows"
  shows "\<exists>q. plan_row site p row v = (Inr q, v) \<and> plan_ok (vdb v) (rows @ [row]) q"
proof -
  obtain nm where nm: "resolveRestoreName (vdb v) (v_parentId row) (v_name row) (claimed p (v_parentId row)) = Some nm"
    "nm \<notin> v_name ` set (getChildren (vdb v) (v_parentId row))" "nm \<notin> set (claimed p (v_parentId row))"
    using resolveRestoreName_ends by blast
  define rs where "rs = (if nm \<noteq> v_name row then [(v_id row, nm)] else [])"
  define q where "q = \<lparr>p_renames = p_renames p @ rs,
    p_paths = (v_id row, under_path (parent_path (vdb v) p row) nm) # p_paths p,
    p_claims = p_claims p @ [(v_parentId row, nm)]\<rparr>"
  have run: "plan_row site p row v = (Inr q, v)"
    using site nm(1) by (simp add: plan_row_def seqs_def reads_def move_back_def ret_def q_def rs_def)
  have no: "map_of (p_renames p) (v_id row) = None"
    using p new unfolding plan_ok_def map_of_eq_None_iff by blast
  have fn: "final_name q row = nm" using no by (simp add: final_name_def q_def rs_def map_add_def)
  have old: "final_name q r = final_name p r" if "r \<in> set rows" for r
  proof -
    have "v_id r \<noteq> v_id row" using that new by (metis image_eqI)
    then show ?thesis by (simp add: final_name_def q_def rs_def map_add_def split: option.splits)
  qed
  have cl: "p_claims p = map (\<lambda>r. (v_parentId r, final_name p r)) rows" using p by (simp add: plan_ok_def)
  have "map (\<lambda>r. (v_parentId r, final_name p r)) rows = map (\<lambda>r. (v_parentId r, final_name q r)) rows"
    using old by simp
  then have "p_claims q = map (\<lambda>r. (v_parentId r, final_name q r)) (rows @ [row])"
    using fn by (simp add: q_def cl)
  moreover have "(v_parentId row, nm) \<notin> set (p_claims p)"
    using nm(3) by (force simp: claimed_def)
  moreover have "v_id row \<notin> fst ` set (p_renames p)" using p new by (auto simp: plan_ok_def)
  ultimately have "plan_ok (vdb v) (rows @ [row]) q"
    using p nm(2) fn old unfolding plan_ok_def by (auto simp: q_def rs_def)
  with run show ?thesis by blast
qed

lemma plan_rows_ok:
  assumes "\<not> isWebdavMode site" "plan_ok (vdb v) rows p" "distinct (map v_id (rows @ later))"
  shows "\<exists>q. plan_rows site p later v = (Inr q, v) \<and> plan_ok (vdb v) (rows @ later) q"
  using assms(2,3)
proof (induction later arbitrary: rows p)
  case (Cons row later)
  then have "v_id row \<notin> v_id ` set rows" by auto
  from plan_row_ok [OF assms(1) Cons.prems(1) this] obtain q where
    q: "plan_row site p row v = (Inr q, v)" "plan_ok (vdb v) (rows @ [row]) q" by blast
  then show ?case using Cons.IH [OF q(2)] Cons.prems(2) by (simp add: seqs_def)
qed (simp add: ret_def)

section \<open>The transaction\<close>

definition renamed :: "(nat \<times> string) list \<Rightarrow> int \<Rightarrow> node \<Rightarrow> node" where
  "renamed rs t n = (case map_of rs (nid n) of None \<Rightarrow> n | Some nm \<Rightarrow> n\<lparr>nname := nm, nupdated := t\<rparr>)"

lemma renamed_simps [simp]:
  "nid (renamed rs t n) = nid n" "nparent (renamed rs t n) = nparent n"
  "ndeleted (renamed rs t n) = ndeleted n" "live (renamed rs t n) = live n"
  by (simp_all add: renamed_def live_def split: option.splits)

lemma live_filter_renamed:
  "(\<And>n. n \<in> set ns \<Longrightarrow> p n \<Longrightarrow> \<not> live n) \<Longrightarrow> (\<And>n. live (f n) = live n) \<Longrightarrow>
     filter live (update_where p f ns) = filter live ns"
  by (induction ns) (auto simp: update_where_def)

lemma apply_renames_eq:
  assumes "live_unique (file_nodes d)" "distinct (map fst rs)"
    "\<And>n. n \<in> set (file_nodes d) \<Longrightarrow> nid n \<in> fst ` set rs \<Longrightarrow> \<not> live n"
  shows "apply_renames rs d = (Inr (), d\<lparr>file_nodes := map (renamed rs (datetime_now d)) (file_nodes d)\<rparr>)"
  using assms
proof (induction rs arbitrary: d)
  case Nil
  then show ?case by (simp add: ret_def renamed_def)
next
  case (Cons x rs)
  obtain i nm where x: "x = (i, nm)" by (cases x)
  define f :: "node \<Rightarrow> node" where "f = (\<lambda>n. n\<lparr>nname := nm, nupdated := datetime_now d\<rparr>)"
  let ?d = "d\<lparr>file_nodes := update_where (\<lambda>n. nid n = i) f (file_nodes d)\<rparr>"
  have f: "nid (f n) = nid n" "live (f n) = live n" for n by (simp_all add: f_def live_def)
  have "filter live (update_where (\<lambda>n. nid n = i) f (file_nodes d)) = filter live (file_nodes d)"
    using Cons.prems(3) f by (intro live_filter_renamed) (auto simp: x)
  then have u: "live_unique (update_where (\<lambda>n. nid n = i) f (file_nodes d))"
    using Cons.prems(1) by (simp add: live_unique_def)
  have step: "repo_renameNode i nm d = (Inr (count_where (\<lambda>n. nid n = i) (file_nodes d)), ?d)"
    using u by (simp add: repo_renameNode_def write_nodes_def f_def)
  have tr: "\<not> live n" if "n \<in> set (file_nodes ?d)" "nid n \<in> fst ` set rs" for n
    using that Cons.prems(3) f by (auto simp: set_update_where x split: if_splits)
  have "apply_renames rs ?d = (Inr (), ?d\<lparr>file_nodes := map (renamed rs (datetime_now ?d)) (file_nodes ?d)\<rparr>)"
    using Cons.IH [of ?d] u tr Cons.prems(2) by simp
  moreover have "map (renamed rs (datetime_now ?d)) (file_nodes ?d) = map (renamed (x # rs) (datetime_now d)) (file_nodes d)"
  proof -
    have "map_of rs i = None" using Cons.prems(2) by (simp add: x map_of_eq_None_iff)
    then show ?thesis by (auto simp: update_where_def renamed_def x f_def datetime_now_def split: option.splits)
  qed
  ultimately show ?case using step by (simp add: x seqs_def)
qed

definition restored_node :: "(nat \<times> string) list \<Rightarrow> nat list \<Rightarrow> int \<Rightarrow> node \<Rightarrow> node" where
  "restored_node rs ids t n = (if nid n \<in> set ids then (renamed rs t n)\<lparr>ndeleted := None\<rparr> else n)"

definition with_restored :: "db \<Rightarrow> (nat \<times> string) list \<Rightarrow> nat list \<Rightarrow> db" where
  "with_restored d rs ids = d\<lparr>file_nodes := map (restored_node rs ids (datetime_now d)) (file_nodes d)\<rparr>"

lemma restored_node_simps [simp]:
  "nid (restored_node rs ids t n) = nid n" "nparent (restored_node rs ids t n) = nparent n"
  "live (restored_node rs ids t n) \<longleftrightarrow> live n \<or> nid n \<in> set ids"
  by (auto simp: restored_node_def live_def)

lemma live_uniqueI:
  assumes "distinct (map nid ns)"
    "\<And>x y. x \<in> set ns \<Longrightarrow> y \<in> set ns \<Longrightarrow> live x \<Longrightarrow> live y \<Longrightarrow> nparent x = nparent y \<Longrightarrow> nname x = nname y \<Longrightarrow>
       nid x = nid y"
  shows "live_unique ns"
proof -
  have "distinct ns" using assms(1) by (simp add: distinct_map)
  moreover have "inj_on (\<lambda>n. (nparent n, nname n)) {n \<in> set ns. live n}"
    by (rule inj_onI) (use assms distinct_map_unique [of nid ns] in auto)
  ultimately show ?thesis by (simp add: live_unique_def distinct_map)
qed

lemma live_uniqueD:
  assumes "live_unique ns" "x \<in> set ns" "y \<in> set ns" "live x" "live y" "nparent x = nparent y" "nname x = nname y"
  shows "x = y"
  using assms distinct_map_unique [of "\<lambda>n. (nparent n, nname n)" "filter live ns" x y]
  by (simp add: live_unique_def)

text \<open>The planned names keep the live rows unique.\<close>

lemma plan_unique:
  assumes ok: "nodes_ok d" and rows: "\<And>v. v \<in> set rows \<Longrightarrow> row_view d v"
    and p: "plan_ok d rows p"
  shows "live_unique (map (restored_node (p_renames p) (map v_id rows) t) (file_nodes d))"
proof (rule live_uniqueI)
  show "distinct (map nid (map (restored_node (p_renames p) (map v_id rows) t) (file_nodes d)))"
    using nodes_okD(1) [OF ok] by (simp add: comp_def)
next
  let ?g = "restored_node (p_renames p) (map v_id rows) t"
  fix x' y' assume xy: "x' \<in> set (map ?g (file_nodes d))" "y' \<in> set (map ?g (file_nodes d))"
    "live x'" "live y'" "nparent x' = nparent y'" "nname x' = nname y'"
  have named: "nname (?g n) = final_name p r" if "n \<in> set (file_nodes d)" "r \<in> set rows" "v_id r = nid n" for n r
  proof -
    have "node_row d (v_id r) = Some n" using node_row_some [OF ok that(1)] that(3) by simp
    then have "v_name r = nname n" using rows [OF that(2)] by (auto simp: row_view_def)
    then show ?thesis
      using that(2,3) by (auto simp: restored_node_def renamed_def final_name_def image_iff split: option.splits)
  qed
  have par: "v_parentId r = nparent n" if "n \<in> set (file_nodes d)" "r \<in> set rows" "v_id r = nid n" for n r
  proof -
    have "node_row d (v_id r) = Some n" using node_row_some [OF ok that(1)] that(3) by simp
    then show ?thesis using rows [OF that(2)] by (auto simp: row_view_def)
  qed
  have mixed: False if "m \<in> set (file_nodes d)" "n \<in> set (file_nodes d)" "nid m \<in> v_id ` set rows"
    "nid n \<notin> v_id ` set rows" "live (?g n)" "nparent m = nparent n" "nname (?g m) = nname (?g n)" for m n
  proof -
    from that(3) obtain r where r: "r \<in> set rows" "v_id r = nid m" by auto
    have "live n" "nname (?g n) = nname n" using that(4,5) by (auto simp: restored_node_def)
    then have "nname n \<in> v_name ` set (getChildren d (nparent n))"
      using that(2) by (force simp: getChildren_def)
    moreover have "final_name p r \<notin> v_name ` set (getChildren d (v_parentId r))"
      using p r(1) by (simp add: plan_ok_def)
    ultimately show False
      using named [OF that(1) r] par [OF that(1) r] that(6,7) \<open>nname (?g n) = nname n\<close> by simp
  qed
  obtain m n where mn: "x' = ?g m" "m \<in> set (file_nodes d)" "y' = ?g n" "n \<in> set (file_nodes d)"
    using xy(1,2) by auto
  show "nid x' = nid y'"
  proof (cases "nid m \<in> v_id ` set rows"; cases "nid n \<in> v_id ` set rows")
    assume "nid m \<in> v_id ` set rows" "nid n \<in> v_id ` set rows"
    then obtain r q where rq: "r \<in> set rows" "v_id r = nid m" "q \<in> set rows" "v_id q = nid n" by auto
    have "distinct (map (\<lambda>r. (v_parentId r, final_name p r)) rows)" using p unfolding plan_ok_def by metis
    then have "r = q"
      using distinct_map_unique [of "\<lambda>r. (v_parentId r, final_name p r)" rows r q] rq
        named [OF mn(2) rq(1,2)] named [OF mn(4) rq(3,4)]
        par [OF mn(2) rq(1,2)] par [OF mn(4) rq(3,4)] xy(5,6) mn by simp
    then show ?thesis using rq mn by simp
  next
    assume a: "nid m \<in> v_id ` set rows" "nid n \<notin> v_id ` set rows"
    then show ?thesis using mixed [OF mn(2,4) a] xy(4-6) mn by simp
  next
    assume a: "nid m \<notin> v_id ` set rows" "nid n \<in> v_id ` set rows"
    then show ?thesis using mixed [OF mn(4,2) a(2,1)] xy(3,5,6) mn by simp
  next
    assume a: "nid m \<notin> v_id ` set rows" "nid n \<notin> v_id ` set rows"
    then have "?g m = m" "?g n = n" by (simp_all add: restored_node_def)
    then show ?thesis using live_uniqueD [OF nodes_okD(4) [OF ok] mn(2,4)] xy mn by simp
  qed
qed

section \<open>Restoring\<close>

lemma untrash_renamed:
  assumes "distinct (map nid ns)" "fst ` set rs \<subseteq> set ids"
  shows "update_where (\<lambda>n. nid n \<in> set ids) (\<lambda>n. n\<lparr>ndeleted := None\<rparr>) (map (renamed rs t) ns)
    = map (restored_node rs ids t) ns"
proof -
  have "renamed rs t n = n" if "nid n \<notin> set ids" for n
  proof -
    have "nid n \<notin> fst ` set rs" using that assms(2) by blast
    then show ?thesis by (simp add: renamed_def map_of_eq_None_iff [THEN iffD2])
  qed
  then show ?thesis by (simp add: update_where_def restored_node_def)
qed

definition restorable :: "db \<Rightarrow> node_view list \<Rightarrow> bool" where
  "restorable d rows \<longleftrightarrow> rows \<noteq> [] \<and> distinct (map v_id rows) \<and>
     (\<forall>v \<in> set rows. row_view d v \<and> v_deleted v \<noteq> None)"

lemma row_view_trashed:
  assumes "nodes_ok d" "row_view d v" "v_deleted v \<noteq> None" "n \<in> set (file_nodes d)" "nid n = v_id v"
  shows "\<not> live n"
proof -
  have "node_row d (v_id v) = Some n" using node_row_some [OF assms(1,4)] assms(5) by simp
  then show ?thesis using assms(2,3) by (auto simp: row_view_def live_def)
qed

lemma restore_transaction:
  assumes ok: "nodes_ok d" and rows: "restorable d rows" and p: "plan_ok d rows p"
  shows "seqs (apply_renames (p_renames p)) (\<lambda>_. untrashSubtree (map v_id rows)) d
    = (Inr (count_where (\<lambda>n. nid n \<in> set (map v_id rows)) (file_nodes d)),
       with_restored d (p_renames p) (map v_id rows))"
proof -
  let ?rs = "p_renames p" and ?ids = "map v_id rows" and ?t = "datetime_now d"
  have sub: "fst ` set ?rs \<subseteq> set ?ids" and dr: "distinct (map fst ?rs)"
    using p by (simp_all add: plan_ok_def)
  have dead: "\<not> live n" if "n \<in> set (file_nodes d)" "nid n \<in> fst ` set ?rs" for n
  proof -
    have "nid n \<in> v_id ` set rows" using that(2) sub by auto
    then obtain v where v: "v \<in> set rows" "nid n = v_id v" by blast
    then show ?thesis using row_view_trashed [OF ok _ _ that(1) v(2)] rows unfolding restorable_def by blast
  qed
  have ren: "apply_renames ?rs d = (Inr (), d\<lparr>file_nodes := map (renamed ?rs ?t) (file_nodes d)\<rparr>)"
    by (rule apply_renames_eq [OF nodes_okD(4) [OF ok] dr dead])
  have rv: "row_view d v" if "v \<in> set rows" for v using rows that by (simp add: restorable_def)
  have u: "live_unique (map (restored_node ?rs ?ids ?t) (file_nodes d))"
    by (rule plan_unique [OF ok rv p])
  have "?ids \<noteq> []" using rows by (simp add: restorable_def)
  moreover have "count_where (\<lambda>n. nid n \<in> set ?ids) (map (renamed ?rs ?t) (file_nodes d))
      = count_where (\<lambda>n. nid n \<in> set ?ids) (file_nodes d)"
    by (simp add: count_where_def filter_map comp_def)
  ultimately show ?thesis
    using u untrash_renamed [OF nodes_okD(1) [OF ok] sub, of ?t]
    by (simp add: seqs_def [of "apply_renames (p_renames p)"] ren untrashSubtree_def write_nodes_def with_restored_def)
qed

definition empty_plan :: plan where
  "empty_plan = \<lparr>p_renames = [], p_paths = [], p_claims = []\<rparr>"

lemma restore_rows_ok:
  assumes site: "\<not> isWebdavMode site" and ok: "nodes_ok (vdb v)" and rows: "restorable (vdb v) rows"
  shows "\<exists>p. plan_ok (vdb v) rows p \<and> plan_rows site empty_plan rows v = (Inr p, v) \<and>
    restore_rows site i rows v
      = (Inr \<lparr>rr_node = i, rr_restored = map v_id rows,
              rr_path = getNodePath (with_restored (vdb v) (p_renames p) (map v_id rows)) i\<rparr>,
         v\<lparr>vdb := with_restored (vdb v) (p_renames p) (map v_id rows)\<rparr>)"
proof -
  have "plan_ok (vdb v) [] empty_plan" by (simp add: plan_ok_def empty_plan_def)
  from plan_rows_ok [OF site this, of rows] rows obtain p where
    p: "plan_rows site empty_plan rows v = (Inr p, v)" "plan_ok (vdb v) rows p"
    by (auto simp: restorable_def)
  note run = p(1) [unfolded empty_plan_def] restore_transaction [OF ok rows p(2)]
  show ?thesis
    using p run by (intro exI [of _ p] conjI)
      (simp_all add: restore_rows_def vault_tx_def on_db_def seqs_def [of "plan_rows site \<lparr>p_renames = [], p_paths = [], p_claims = []\<rparr> rows"]
        seqs_def [of "vault_tx m" for m] service_simps ret_def)
qed

lemma restored_tree_ok:
  assumes ok: "tree_ok d" and rows: "restorable d rows" and p: "plan_ok d rows p"
  shows "tree_ok (with_restored d (p_renames p) (map v_id rows))"
proof -
  let ?d = "with_restored d (p_renames p) (map v_id rows)"
  have rv: "row_view d v" if "v \<in> set rows" for v using rows that by (simp add: restorable_def)
  have sh: "shape ?d = shape d" by (simp add: shape_def with_restored_def comp_def)
  have "live_unique (file_nodes ?d)"
    using plan_unique [OF tree_okD(1) [OF ok] rv p] by (simp add: with_restored_def)
  moreover have "next_node ?d = next_node d" "node_ancestors ?d = node_ancestors d"
    by (simp_all add: with_restored_def)
  ultimately show ?thesis
    using ok shape_nodes_ok [OF sh [symmetric]] shape_closure_ok [OF sh]
    by (simp add: tree_ok_def)
qed

text \<open>The rows a restore takes up: the target, its trashed ancestors, its trashed subtree.\<close>

lemma rows_to_restore_ok:
  assumes ok: "nodes_ok d" "closure_ok d" and t: "row_view d target" "v_deleted target \<noteq> None"
  shows "\<exists>rows. rows_to_restore d target = Some rows \<and> restorable d rows \<and> target \<in> set rows \<and>
    (\<forall>v \<in> set rows. v_id v \<in> above_set d (v_id target) \<union> desc_of d (v_id target))"
proof -
  let ?t = "v_id target"
  obtain above where a: "trashed_above d target [target] = Some (target # above)"
    "\<forall>v \<in> set above. row_view d v \<and> v_deleted v \<noteq> None \<and> v_id v \<in> above_set d ?t"
    "distinct (map v_id (target # above))"
    using trashed_above_ends [OF ok t(1), of "[target]"] by auto
  have ac: "acyclic_nodes d" using closure_acyclic [OF ok(2)] .
  have h: "has_node d ?t" using row_view_has [OF t(1)] .
  have "walk_ok d ?t [target] []" using t(1) by (simp add: walk_ok_def)
  from trashed_below_ends [OF ok(1) ac this] obtain low where
    b: "trashed_below d [target] [] = Some low" "walk_ok d ?t [] low" by blast
  have low: "\<forall>v \<in> set low. row_view d v \<and> v_deleted v \<noteq> None \<and> v_id v \<in> desc_of d ?t"
    "distinct (?t # map v_id low)"
    using b(2) by (simp_all add: walk_ok_def)
  have apart: "v_id v \<noteq> v_id w" if "v \<in> set above" "w \<in> set low" for v w
  proof
    assume e: "v_id v = v_id w"
    have "v_id v \<in> above_set d ?t" "v_id w \<in> desc_of d ?t" using a(2) low(1) that by blast+
    then obtain j k where j: "up d j ?t = Some (v_id v)" and k: "up d k (v_id w) = Some ?t"
      by (auto simp: above_set_def desc_of_def)
    have "up d (k + j) (v_id w) = Some (v_id w)" using up_add [OF k] j e by simp
    then have "k + j = 0" using ac unfolding acyclic_nodes_def by blast
    then have "?t = v_id w" using k by (auto split: if_splits)
    then show False using low(2) that(2) by auto
  qed
  have self: "?t \<in> desc_of d ?t" using desc_of_self [OF h] .
  let ?rows = "rev (target # above) @ low"
  have "distinct (map v_id ?rows)"
    using a(3) low(2) apart by (auto simp: rev_map [symmetric])
  then have "restorable d ?rows" using a(2) low(1) t by (auto simp: restorable_def)
  moreover have "\<forall>v \<in> set ?rows. v_id v \<in> above_set d ?t \<union> desc_of d ?t"
    using a(2) low(1) self by auto
  ultimately show ?thesis by (simp add: rows_to_restore_def a(1) b(1))
qed

end
