(* ===== verification/Gc.thy ===== *)
theory Gc
  imports Trash
begin

text \<open>
  \<open>server/service/gcService.js\<close> and the keep set of \<open>server/store/fileNodesStore.js\<close>: the three tiers of
  the garbage collector. Tier 1 works from the object rows, tier 2 from the keys in the blob store,
  tier 3 from the trashed nodes. A cycle runs them one after the other; each collects its failures.
\<close>

section \<open>Retention periods\<close>

text \<open>
  A period comes from the options of the service (\<open>Some\<close> when finite), then from the configuration
  (\<open>Some\<close> when finite), then from a default. In two of the four, 0 is a value and only a negative
  number falls through. Periods are whole days here.
\<close>

record gc_config =
  orphanTtlDays :: "int option \<times> int option"
  versionTtlDays :: "int option \<times> int option"
  pendingStaleDays :: "int option \<times> int option"
  trashRetentionDays :: "int option \<times> int option"

definition pick_days :: "(int \<Rightarrow> bool) \<Rightarrow> int option \<times> int option \<Rightarrow> nat \<Rightarrow> nat" where
  "pick_days ok v dflt =
     (case fst v of
        Some d \<Rightarrow> if ok d then nat d
                  else (case snd v of Some e \<Rightarrow> if ok e then nat e else dflt | None \<Rightarrow> dflt)
      | None \<Rightarrow> (case snd v of Some e \<Rightarrow> if ok e then nat e else dflt | None \<Rightarrow> dflt))"

definition resolveOrphanTtlDays :: "gc_config \<Rightarrow> nat" where
  "resolveOrphanTtlDays c = pick_days (\<lambda>d. d > 0) (orphanTtlDays c) 1"

definition resolveVersionTtlDays :: "gc_config \<Rightarrow> nat" where
  "resolveVersionTtlDays c = pick_days (\<lambda>d. d > 0) (versionTtlDays c) 1"

definition resolvePendingStaleDays :: "gc_config \<Rightarrow> nat" where
  "resolvePendingStaleDays c = pick_days (\<lambda>d. d \<ge> 0) (pendingStaleDays c) 3"

definition resolveTrashRetentionDays :: "gc_config \<Rightarrow> nat" where
  "resolveTrashRetentionDays c = pick_days (\<lambda>d. d \<ge> 0) (trashRetentionDays c) 30"

definition toDateCutoff :: "db \<Rightarrow> nat \<Rightarrow> int" where
  "toDateCutoff d days = clock d - int days * ms_per_day"

section \<open>Tier 1\<close>

record tier1 =
  t1_orphaned :: nat
  t1_guarded :: nat
  t1_blobs :: nat
  t1_rows :: nat
  t1_pending :: nat
  t1_errors :: "string list"

definition mode_backend :: "'c site \<Rightarrow> backend" where
  "mode_backend site = (if isWebdavMode site then Webdav else S3)"

fun deleteBlobsForRows :: "'c site \<Rightarrow> obj list \<Rightarrow> tier1 \<Rightarrow> ('c vault, tier1) service" where
  "deleteBlobsForRows site [] res = ret res"
| "deleteBlobsForRows site (row # rows) res =
     (case okey row of
        None \<Rightarrow> deleteBlobsForRows site rows res
      | Some k \<Rightarrow>
          (if k = [] \<or> obackend row \<noteq> mode_backend site then deleteBlobsForRows site rows res
           else seqs (catching (seqs (on_store (deleteBlob (blobs site) k)) (\<lambda>_. ret None))
                  (\<lambda>e. ret (Some (''Failed to delete blob '' @ k @ '': '' @ err_message e))))
             (\<lambda>failed. case failed of
                None \<Rightarrow> deleteBlobsForRows site rows (res\<lparr>t1_blobs := Suc (t1_blobs res)\<rparr>)
              | Some msg \<Rightarrow> deleteBlobsForRows site rows (res\<lparr>t1_errors := t1_errors res @ [msg]\<rparr>))))"

text \<open>The row deletion of the model does not fail; \<open>deleteObjectMapRowsAndCount\<close> is its count.\<close>

definition deleteObjectMapRowsAndCount :: "nat list \<Rightarrow> string \<Rightarrow> tier1 \<Rightarrow> ('c vault, nat \<times> tier1) service" where
  "deleteObjectMapRowsAndCount ids label res =
     catching (seqs (on_db (deleteObjectMapRows ids)) (\<lambda>n. ret (n, res)))
       (\<lambda>e. ret (0, res\<lparr>t1_errors := t1_errors res @ [label @ '': '' @ err_message e]\<rparr>))"

text \<open>The three retention categories: garbage, guarded, version.\<close>

datatype retention = Garbage | Guarded | Version_expired | Version_young

definition classify :: "int \<Rightarrow> obj \<times> sync_status option \<times> bool \<Rightarrow> retention" where
  "classify versionCutoff x =
     (case x of (row, nodeStatus, hasActive) \<Rightarrow>
        if nodeStatus = None then Garbage
        else if nodeStatus = Some Pending_upload \<and> \<not> hasActive then Guarded
        else if ocreated row < versionCutoff then Version_expired
        else Version_young)"

definition deletable_rows :: "int \<Rightarrow> (obj \<times> sync_status option \<times> bool) list \<Rightarrow> obj list" where
  "deletable_rows cutoff rows =
     map fst (filter (\<lambda>x. classify cutoff x \<in> {Garbage, Version_expired}) rows)"

definition runTier1 :: "'c site \<Rightarrow> gc_config \<Rightarrow> nat \<Rightarrow> int option \<Rightarrow> ('c vault, tier1) service" where
  "runTier1 site cfg orphanDays explicitOlderThanDays =
     seqs (reads (\<lambda>v. getOrphanedObjectsWithNodeState (vdb v) orphanDays)) (\<lambda>rows.
     seqs (reads (\<lambda>v. toDateCutoff (vdb v)
       (case explicitOlderThanDays of
          Some d \<Rightarrow> if d > 0 then nat d else resolveVersionTtlDays cfg
        | None \<Rightarrow> resolveVersionTtlDays cfg))) (\<lambda>versionCutoff.
     let deletable = deletable_rows versionCutoff rows;
         res = \<lparr>t1_orphaned = length rows,
                t1_guarded = length (filter (\<lambda>x. classify versionCutoff x = Guarded) rows),
                t1_blobs = 0, t1_rows = 0, t1_pending = 0, t1_errors = []\<rparr>
     in seqs (deleteBlobsForRows site deletable res) (\<lambda>res1.
        seqs (deleteObjectMapRowsAndCount (map oid deletable)
                ''Failed to delete orphaned object_map rows'' res1) (\<lambda>(n, res2).
        let res3 = res2\<lparr>t1_rows := n\<rparr>; stale = resolvePendingStaleDays cfg
        in if stale = 0 then ret res3
           else seqs (reads (\<lambda>v. getStalePendingObjects (vdb v) stale)) (\<lambda>staleRows.
                seqs (deleteBlobsForRows site staleRows res3) (\<lambda>res4.
                seqs (deleteObjectMapRowsAndCount (map oid staleRows)
                        ''Failed to delete stale pending object_map rows'' res4) (\<lambda>(m, res5).
                ret (res5\<lparr>t1_pending := m, t1_rows := t1_rows res5 + m\<rparr>))))))))"

section \<open>The keep set\<close>

text \<open>
  \<open>displayPath\<close> of the WebDAV keep set: up the parent references of the row list, stopping at a row
  already seen. The last argument bounds the walk by the number of rows, which it never exceeds.
\<close>

fun display_segments :: "node list \<Rightarrow> node \<Rightarrow> nat list \<Rightarrow> nat \<Rightarrow> string list" where
  "display_segments rows cur seen 0 = []"
| "display_segments rows cur seen (Suc k) =
     (if nid cur \<in> set seen then []
      else (case nparent cur of
              None \<Rightarrow> [nname cur]
            | Some p \<Rightarrow> (case first_row (filter (\<lambda>r. nid r = p) rows) of
                None \<Rightarrow> [nname cur]
              | Some q \<Rightarrow> display_segments rows q (nid cur # seen) k @ [nname cur])))"

definition displayPath :: "node list \<Rightarrow> node \<Rightarrow> string" where
  "displayPath rows row = CHR ''/'' # join_with (CHR ''/'') (display_segments rows row [] (length rows))"

text \<open>The prefixes of a path that end in a slash, the leading one apart.\<close>

definition ancestor_dirs :: "string \<Rightarrow> string list" where
  "ancestor_dirs path =
     map (\<lambda>i. take (Suc i) path) (filter (\<lambda>i. i > 0 \<and> path ! i = CHR ''/'') [0..<length path])"

definition STRUCTURAL_DIRS :: "string list" where
  "STRUCTURAL_DIRS = [''/'', ''/.wea-trash/'', ''/.wea-tmp/'']"

definition kept_for_row :: "node list \<Rightarrow> node \<Rightarrow> string list" where
  "kept_for_row rows row =
     (let trashed = \<not> live row; path = displayPath rows row; trash = buildTrashPath (nid row);
          tmp = ''/.wea-tmp/'' @ decimal (nid row)
      in (if trashed then [trash, trash @ ''/'']
          else (if ntype row = Directory then path @ ''/'' else path) # ancestor_dirs path) @
         (if trashed \<or> nsync row = Orphaned_node then [tmp, tmp @ ''/''] else []))"

definition getKeptKeys :: "db \<Rightarrow> bool \<Rightarrow> string list" where
  "getKeptKeys d webdav =
     (if \<not> webdav then getKeptObjectMapKeys d
      else STRUCTURAL_DIRS @ concat (map (kept_for_row (getFileNodesPathRows d)) (getFileNodesPathRows d)))"

section \<open>Tier 2\<close>

record tier2 =
  t2_scanned :: nat
  t2_untracked :: nat
  t2_deleted :: nat
  t2_skipped :: bool
  t2_errors :: "string list"

definition isUnderKeptDirectory :: "string list \<Rightarrow> string \<Rightarrow> bool" where
  "isUnderKeptDirectory kept key \<longleftrightarrow>
     (\<exists>dir \<in> set (ancestor_dirs key). dir \<in> set kept \<and> dir \<notin> set STRUCTURAL_DIRS)"

definition depthOf :: "string \<Rightarrow> nat" where
  "depthOf key = length (split_on (CHR ''/'') (rev (dropWhile (\<lambda>c. c = CHR ''/'') (rev key))))"

fun delete_keys :: "'c site \<Rightarrow> string list \<Rightarrow> tier2 \<Rightarrow> ('c vault, tier2) service" where
  "delete_keys site [] res = ret res"
| "delete_keys site (k # ks) res =
     seqs (catching (seqs (on_store (deleteBlob (blobs site) k)) (\<lambda>_. ret None))
            (\<lambda>e. ret (Some (''Failed to delete untracked blob '' @ k @ '': '' @ err_message e)))) (\<lambda>failed.
       case failed of
         None \<Rightarrow> delete_keys site ks (res\<lparr>t2_deleted := Suc (t2_deleted res)\<rparr>)
       | Some msg \<Rightarrow> delete_keys site ks (res\<lparr>t2_errors := t2_errors res @ [msg]\<rparr>))"

text \<open>Both stores have \<open>listOrphanedKeys\<close>, so the tier is never skipped.\<close>

definition runTier2 :: "'c site \<Rightarrow> nat \<Rightarrow> ('c vault, tier2) service" where
  "runTier2 site olderThanDays =
     (let res = \<lparr>t2_scanned = 0, t2_untracked = 0, t2_deleted = 0, t2_skipped = False, t2_errors = []\<rparr>
      in seqs (reads (\<lambda>v. toDateCutoff (vdb v) olderThanDays)) (\<lambda>cutoff.
         seqs (catching (seqs (on_store (listOrphanedKeys (blobs site) cutoff)) (\<lambda>ks. ret (Inr ks)))
                (\<lambda>e. ret (Inl (''Failed to list orphaned storage keys: '' @ err_message e)))) (\<lambda>listed.
         case listed of
           Inl msg \<Rightarrow> ret (res\<lparr>t2_errors := [msg]\<rparr>)
         | Inr candidateKeys \<Rightarrow>
             if candidateKeys = [] then ret res
             else seqs (reads (\<lambda>v. getKeptKeys (vdb v) (isWebdavMode site))) (\<lambda>kept.
               let untracked = filter (\<lambda>k. k \<notin> set kept) candidateKeys;
                   deletable = (if isWebdavMode site
                     then filter (\<lambda>k. \<not> isUnderKeptDirectory kept k) untracked else untracked);
                   ordered = sort_key (\<lambda>k. - int (depthOf k)) deletable
               in delete_keys site ordered
                    (res\<lparr>t2_scanned := length candidateKeys, t2_untracked := length untracked\<rparr>)))))"

section \<open>Tier 3 and the cycle\<close>

record tier3 =
  t3_purged :: nat
  t3_blobs :: nat
  t3_rows :: nat
  t3_skipped :: bool
  t3_errors :: "string list"

fun purge_expired :: "'c site \<Rightarrow> nat list \<Rightarrow> tier3 \<Rightarrow> ('c vault, tier3) service" where
  "purge_expired site [] res = ret res"
| "purge_expired site (i # is) res =
     seqs (catching (seqs (purgeNode site i) (\<lambda>r. ret (Inr r)))
             (\<lambda>e. ret (Inl (''Failed to purge trashed node '' @ decimal i @ '': '' @ err_message e)))) (\<lambda>out.
       case out of
         Inr r \<Rightarrow> purge_expired site is (res\<lparr>t3_purged := Suc (t3_purged res), t3_blobs := t3_blobs res + pr_blobs r,
                    t3_rows := t3_rows res + pr_nodes r, t3_errors := t3_errors res @ pr_errors r\<rparr>)
       | Inl msg \<Rightarrow> purge_expired site is (res\<lparr>t3_errors := t3_errors res @ [msg]\<rparr>))"

definition runTier3 :: "'c site \<Rightarrow> gc_config \<Rightarrow> ('c vault, tier3) service" where
  "runTier3 site cfg =
     (let retentionDays = resolveTrashRetentionDays cfg;
          res = \<lparr>t3_purged = 0, t3_blobs = 0, t3_rows = 0, t3_skipped = False, t3_errors = []\<rparr>
      in if retentionDays = 0 then ret (res\<lparr>t3_skipped := True\<rparr>)
         else seqs (reads (\<lambda>v. getTopmostTrashedNodes (vdb v) (Some retentionDays))) (\<lambda>roots.
              purge_expired site (map v_id roots) res))"

definition runGcCycle ::
  "'c site \<Rightarrow> gc_config \<Rightarrow> int option \<Rightarrow> ('c vault, tier1 \<times> tier2 \<times> tier3) service" where
  "runGcCycle site cfg olderThanDays =
     (let days = (case olderThanDays of
                    Some d \<Rightarrow> if d > 0 then nat d else resolveOrphanTtlDays cfg
                  | None \<Rightarrow> resolveOrphanTtlDays cfg)
      in seqs (runTier1 site cfg days olderThanDays) (\<lambda>t1.
         seqs (runTier2 site days) (\<lambda>t2.
         seqs (runTier3 site cfg) (\<lambda>t3. ret (t1, t2, t3)))))"

end
