(* ===== verification/PurgeLaws.thy ===== *)
theory PurgeLaws
  imports TrashLaws Gc
begin

text \<open>
  The deletion loops of the trash and of the garbage collector are all the same walk over a list of
  keys that records the failures; here is that walk, what it does to the blob store, and what one
  purge does.
\<close>

section \<open>Deleting a list of keys\<close>

fun sweep :: "'c site \<Rightarrow> string list \<Rightarrow> ('c vault, (string \<times> err) list) service" where
  "sweep site [] = ret []"
| "sweep site (k # ks) =
     seqs (catching (seqs (on_store (deleteBlob (blobs site) k)) (\<lambda>_. ret []))
            (\<lambda>e. ret [(k, e)])) (\<lambda>f.
     seqs (sweep site ks) (\<lambda>fs. ret (f @ fs)))"

definition real_keys :: "obj list \<Rightarrow> string list" where
  "real_keys rows = filter (\<lambda>k. k \<noteq> []) (List.map_filter okey rows)"

lemma real_keys_simps [simp]:
  "real_keys [] = []"
  "okey r = None \<Longrightarrow> real_keys (r # rows) = real_keys rows"
  "okey r = Some k \<Longrightarrow> real_keys (r # rows) = (if k = [] then real_keys rows else k # real_keys rows)"
  by (simp_all add: real_keys_def List.map_filter_def)

lemma set_real_keys: "set (real_keys rows) = {k. k \<noteq> [] \<and> (\<exists>r \<in> set rows. okey r = Some k)}"
  by (force simp: real_keys_def List.map_filter_def)

text \<open>What the walk leaves: other keys as they were, no content under the keys that did not fail.\<close>

definition swept_keys ::
  "('c \<Rightarrow> string \<Rightarrow> buffer option) \<Rightarrow> string list \<Rightarrow> 'c \<Rightarrow> (string \<times> err) list \<Rightarrow> 'c \<Rightarrow> bool" where
  "swept_keys content ks s fs t \<longleftrightarrow> fst ` set fs \<subseteq> set ks \<and> length fs \<le> length ks \<and>
     (\<forall>j. j \<notin> set ks \<longrightarrow> content t j = content s j) \<and> (\<forall>k \<in> set ks - fst ` set fs. content t k = None)"

lemma sweep_ok:
  assumes "s3_site site content"
  shows "\<exists>fs t. sweep site ks v = (Inr fs, v\<lparr>vstore := t\<rparr>) \<and> swept_keys content ks (vstore v) fs t"
proof (induction ks arbitrary: v)
  case Nil
  then show ?case by (auto simp: ret_def swept_keys_def intro!: exI [of _ "vstore v"])
next
  case (Cons k ks)
  show ?case
    using delete_blob_cases [OF assms, of k "vstore v"]
  proof (elim disjE exE conjE)
    fix s assume d: "deleteBlob (blobs site) k (vstore v) = (Inr (), s)" "content s = (content (vstore v))(k := None)"
    obtain fs t where f: "sweep site ks (v\<lparr>vstore := s\<rparr>) = (Inr fs, v\<lparr>vstore := t\<rparr>)" "swept_keys content ks s fs t"
      using Cons.IH [of "v\<lparr>vstore := s\<rparr>"] by auto
    have "sweep site (k # ks) v = (Inr fs, v\<lparr>vstore := t\<rparr>)"
      using d(1) f(1) by (simp add: seqs_def catching_def on_store_def ret_def)
    moreover have "swept_keys content (k # ks) (vstore v) fs t"
      using f(2) d(2) unfolding swept_keys_def by (auto split: if_splits)
    ultimately show ?thesis by blast
  next
    fix e s assume d: "deleteBlob (blobs site) k (vstore v) = (Inl e, s)" "e \<noteq> No_return"
      "\<forall>j. j \<noteq> k \<longrightarrow> content s j = content (vstore v) j"
    obtain fs t where f: "sweep site ks (v\<lparr>vstore := s\<rparr>) = (Inr fs, v\<lparr>vstore := t\<rparr>)" "swept_keys content ks s fs t"
      using Cons.IH [of "v\<lparr>vstore := s\<rparr>"] by auto
    have "sweep site (k # ks) v = (Inr ((k, e) # fs), v\<lparr>vstore := t\<rparr>)"
      using d(1,2) f(1) by (simp add: seqs_def catching_def on_store_def ret_def)
    moreover have "swept_keys content (k # ks) (vstore v) ((k, e) # fs) t"
      using f(2) d(3) unfolding swept_keys_def by auto
    ultimately show ?thesis by blast
  qed
qed

section \<open>The loops are that walk\<close>

text \<open>One step of the walk: the key went, or its error is recorded.\<close>

lemma sweep_step:
  assumes "sweep site (k # ks) v = (Inr fs, w)"
  obtains s where "deleteBlob (blobs site) k (vstore v) = (Inr (), s)" "sweep site ks (v\<lparr>vstore := s\<rparr>) = (Inr fs, w)"
  | e s gs where "deleteBlob (blobs site) k (vstore v) = (Inl e, s)" "e \<noteq> No_return" "fs = (k, e) # gs"
      "sweep site ks (v\<lparr>vstore := s\<rparr>) = (Inr gs, w)"
  using assms by (auto simp: seqs_def catching_def on_store_def ret_def split: prod.splits sum.splits if_splits)

lemma length_sweep: "sweep site ks v = (Inr fs, w) \<Longrightarrow> length fs \<le> length ks"
proof (induction ks arbitrary: v fs)
  case Nil
  then show ?case by (simp add: ret_def)
next
  case (Cons k ks)
  from Cons.prems show ?case
  proof (cases rule: sweep_step)
    case (1 s)
    then show ?thesis using Cons.IH [OF 1(2)] by simp
  next
    case (2 e s gs)
    then show ?thesis using Cons.IH [OF 2(4)] by simp
  qed
qed

definition failures :: "string \<Rightarrow> (string \<times> err) list \<Rightarrow> string list" where
  "failures label fs = map (\<lambda>(k, e). label @ k @ '': '' @ err_message e) fs"

lemma failures_simps [simp]:
  "failures l [] = []" "failures l ((k, e) # fs) = (l @ k @ '': '' @ err_message e) # failures l fs"
  "length (failures l fs) = length fs"
  by (simp_all add: failures_def)

lemmas loop_simps = seqs_def catching_def on_store_def ret_def

lemma purge_objects_sweep:
  "sweep site (real_keys rows) v = (Inr fs, w) \<Longrightarrow>
   purge_objects site rows n errs v =
     (Inr (n + (length (real_keys rows) - length fs), errs @ failures ''Failed to delete S3 blob '' fs), w)"
proof (induction rows arbitrary: n errs v fs)
  case Nil
  then show ?case by (simp add: ret_def)
next
  case (Cons r rows)
  consider "okey r = None \<or> okey r = Some []" | k where "okey r = Some k" "k \<noteq> []" by (metis option.exhaust)
  then show ?case
  proof cases
    case 1
    then show ?thesis using Cons by auto
  next
    case 2
    then have "sweep site (k # real_keys rows) v = (Inr fs, w)" using Cons.prems by simp
    then show ?thesis
    proof (cases rule: sweep_step)
      case (1 s)
      then show ?thesis using 2 Cons.IH [OF 1(2)] length_sweep [OF 1(2)] by (simp add: loop_simps)
    next
      case (2 e s gs)
      then show ?thesis using \<open>okey r = Some k\<close> \<open>k \<noteq> []\<close> Cons.IH [OF 2(4)] by (simp add: loop_simps)
    qed
  qed
qed

lemma deleteBlobsForRows_sweep:
  "\<forall>r \<in> set rows. obackend r = mode_backend site \<Longrightarrow> sweep site (real_keys rows) v = (Inr fs, w) \<Longrightarrow>
   deleteBlobsForRows site rows res v =
     (Inr (res\<lparr>t1_blobs := t1_blobs res + (length (real_keys rows) - length fs),
               t1_errors := t1_errors res @ failures ''Failed to delete blob '' fs\<rparr>), w)"
proof (induction rows arbitrary: res v fs)
  case Nil
  then show ?case by (simp add: ret_def)
next
  case (Cons r rows)
  consider "okey r = None \<or> okey r = Some []" | k where "okey r = Some k" "k \<noteq> []" by (metis option.exhaust)
  then show ?case
  proof cases
    case 1
    then show ?thesis using Cons by auto
  next
    case 2
    then have "sweep site (k # real_keys rows) v = (Inr fs, w)" using Cons.prems by simp
    then show ?thesis
    proof (cases rule: sweep_step)
      case (1 s)
      then show ?thesis using 2 Cons.prems(1) Cons.IH [OF _ 1(2)] length_sweep [OF 1(2)] by (simp add: loop_simps)
    next
      case (2 e s gs)
      then show ?thesis using \<open>okey r = Some k\<close> \<open>k \<noteq> []\<close> Cons.prems(1) Cons.IH [OF _ 2(4)] by (simp add: loop_simps)
    qed
  qed
qed

lemma delete_keys_sweep:
  "sweep site ks v = (Inr fs, w) \<Longrightarrow>
   delete_keys site ks res v =
     (Inr (res\<lparr>t2_deleted := t2_deleted res + (length ks - length fs),
               t2_errors := t2_errors res @ failures ''Failed to delete untracked blob '' fs\<rparr>), w)"
proof (induction ks arbitrary: res v fs)
  case Nil
  then show ?case by (simp add: ret_def)
next
  case (Cons k ks)
  from Cons.prems show ?case
  proof (cases rule: sweep_step)
    case (1 s)
    then show ?thesis using Cons.IH [OF 1(2)] length_sweep [OF 1(2)] by (simp add: loop_simps)
  next
    case (2 e s gs)
    then show ?thesis using Cons.IH [OF 2(4)] by (simp add: loop_simps)
  qed
qed

section \<open>One purge\<close>

lemma length_getDescendants:
  assumes ok: "tree_ok d"
  shows "length (getDescendants d i) = card (desc_of d i)"
proof -
  note N = tree_okD [OF ok]
  have one: "length (filter (\<lambda>n. nid n = adesc r) (file_nodes d)) = 1"
    if r: "r \<in> set (filter (\<lambda>r. aanc r = i) (node_ancestors d))" for r
  proof -
    have "has_node d (adesc r)" using r closure_row [OF N(2)] up_has by fastforce
    then obtain n where "n \<in> set (file_nodes d)" "nid n = adesc r" by (auto simp: has_node_def)
    then have "filter (\<lambda>n. nid n = adesc r) (file_nodes d) \<noteq> []" by (auto simp: filter_empty_conv)
    then show ?thesis using filter_key_le_1 [OF nodes_okD(1) [OF N(1)], of "adesc r"]
      by (simp add: le_Suc_eq)
  qed
  have "length (getDescendants d i) = sum_list (map (\<lambda>r. length (filter (\<lambda>n. nid n = adesc r) (file_nodes d)))
      (filter (\<lambda>r. aanc r = i) (node_ancestors d)))"
    by (simp add: getDescendants_def length_concat comp_def)
  also have "\<dots> = sum_list (map (\<lambda>r. 1) (filter (\<lambda>r. aanc r = i) (node_ancestors d)))"
    using one by (intro arg_cong [where f = sum_list] map_cong) auto
  also have "\<dots> = length (getDescendantIds d i)" by (simp add: getDescendantIds_def sum_list_triv)
  also have "\<dots> = card (set (getDescendantIds d i))"
  proof (rule distinct_card [symmetric])
    have "pk_distinct (node_ancestors d)" using N(2) by (simp add: closure_ok_def)
    then have D: "distinct (node_ancestors d)" "inj_on (\<lambda>r. (aanc r, adesc r)) (set (node_ancestors d))"
      by (simp_all add: pk_distinct_def distinct_map)
    have "inj_on adesc (set (filter (\<lambda>r. aanc r = i) (node_ancestors d)))"
      by (rule inj_onI) (use inj_onD [OF D(2)] in simp)
    then show "distinct (getDescendantIds d i)"
      using D(1) by (simp add: getDescendantIds_def distinct_map)
  qed
  finally show ?thesis by (simp add: descendants_closure [OF N(2)])
qed

lemma set_subtree_objects:
  assumes "closure_ok d"
  shows "set (getObjectMapBySubtree d i) = {r \<in> set (object_map d). onode r \<in> desc_of d i}"
proof -
  have "onode r \<in> desc_of d i \<longleftrightarrow> (\<exists>a \<in> set (node_ancestors d). adesc a = onode r \<and> aanc a = i)" for r
    unfolding descendants_closure [OF assms, symmetric] set_getDescendantIds by blast
  note closure = this
  have each: "set (concat (map (\<lambda>om. map (\<lambda>_. om) (f om)) xs)) = {om \<in> set xs. f om \<noteq> []}"
    for f :: "obj \<Rightarrow> anc list" and xs
    by (auto simp: image_constant_conv split: if_splits)
  show ?thesis
    unfolding getObjectMapBySubtree_def set_sort each closure by (auto simp: filter_empty_conv)
qed

definition subtree_keys :: "db \<Rightarrow> nat \<Rightarrow> string set" where
  "subtree_keys d i = {k. k \<noteq> [] \<and> (\<exists>r \<in> set (object_map d). onode r \<in> desc_of d i \<and> okey r = Some k)}"

definition purged :: "db \<Rightarrow> nat \<Rightarrow> db" where
  "purged d i = delete_nodes (getDescendantIds d i) d"

lemma purgeNode_ok:
  assumes site: "s3_site site content" and ok: "tree_ok (vdb v)" and i: "has_node (vdb v) i"
  shows "\<exists>r fs t. purgeNode site i v = (Inr r, v\<lparr>vdb := purged (vdb v) i, vstore := t\<rparr>) \<and>
    pr_nodes r = card (desc_of (vdb v) i) \<and>
    pr_blobs r + length fs = length (real_keys (getObjectMapBySubtree (vdb v) i)) \<and>
    pr_errors r = failures ''Failed to delete S3 blob '' fs \<and>
    swept_keys content (real_keys (getObjectMapBySubtree (vdb v) i)) (vstore v) fs t"
proof -
  let ?rows = "getObjectMapBySubtree (vdb v) i"
  obtain n where n: "node_row (vdb v) i = Some n" using i node_row_None by (cases "node_row (vdb v) i") auto
  obtain fs t where f: "sweep site (real_keys ?rows) v = (Inr fs, v\<lparr>vstore := t\<rparr>)"
    "swept_keys content (real_keys ?rows) (vstore v) fs t" using sweep_ok [OF site] by blast
  have w: "\<not> isWebdavMode site" using site by (simp add: s3_site_def)
  have "purge_content site i (mapNodeRow n None) v = (Inr (length (real_keys ?rows) - length fs,
      failures ''Failed to delete S3 blob '' fs), v\<lparr>vstore := t\<rparr>)"
    using purge_objects_sweep [OF f(1), of 0 "[]"] w by (simp add: purge_content_def service_simps)
  then have "purgeNode site i v = (Inr \<lparr>pr_nodes = card (desc_of (vdb v) i),
      pr_blobs = length (real_keys ?rows) - length fs, pr_errors = failures ''Failed to delete S3 blob '' fs\<rparr>,
      v\<lparr>vdb := purged (vdb v) i, vstore := t\<rparr>)"
    by (simp add: purgeNode_def getNodeIncludingTrashed_def n seqs_def reads_def on_db_def deleteNode_eq
        purged_def ret_def length_getDescendants [OF ok])
  then show ?thesis
    using f(2) length_sweep [OF f(1)] by (intro exI conjI) (assumption, simp_all)
qed

section \<open>A list of purges\<close>

lemma purged_tree_ok: "tree_ok d \<Longrightarrow> tree_ok (purged d i)"
  using delete_tree_ok [of d i] by (simp add: deleteNode_eq purged_def)

lemma purged_gone: "tree_ok d \<Longrightarrow> set (cascade (file_nodes d) (getDescendantIds d i)) = desc_of d i"
  using cascade_descendants [OF tree_okD] descendants_closure [OF tree_okD(2)] by metis

lemma purged_has: "tree_ok d \<Longrightarrow> has_node (purged d i) j \<longleftrightarrow> has_node d j \<and> j \<notin> desc_of d i"
  by (simp add: purged_def has_node_delete purged_gone)

lemma purged_row: "tree_ok d \<Longrightarrow> has_node (purged d i) j \<Longrightarrow> node_row (purged d i) j = node_row d j"
  by (simp add: purged_has) (simp add: purged_def node_row_delete purged_gone)

lemma purged_desc:
  assumes ok: "tree_ok d"
  shows "desc_of (purged d i) x = desc_of d x - desc_of d i"
proof -
  have "up (purged d i) k c = (if c \<in> desc_of d i then None else up d k c)" for k c
    using up_delete [OF tree_okD(1) [OF ok]] by (simp add: purged_def purged_gone [OF ok])
  then show ?thesis by (auto simp: desc_of_def)
qed

lemma purged_objs:
  "tree_ok d \<Longrightarrow> object_map (purged d i) = filter (\<lambda>r. onode r \<notin> desc_of d i) (object_map d)"
  by (simp add: purged_def delete_nodes_def purged_gone delete_where_def)

lemma purged_missing:
  assumes ok: "tree_ok d" and "\<not> has_node d i"
  shows "purged d i = d"
proof -
  have "desc_of d i = {}" using assms(2) by (auto simp: desc_of_def dest: up_has)
  then have "getDescendantIds d i = []" using descendants_closure [OF tree_okD(2) [OF ok], of i] by simp
  then show ?thesis by (simp add: purged_def delete_nodes_Nil)
qed

text \<open>The nodes a list of purges leaves, and the content it leaves alone.\<close>

definition purged_all :: "db \<Rightarrow> nat list \<Rightarrow> db \<Rightarrow> bool" where
  "purged_all d ids d' \<longleftrightarrow> tree_ok d' \<and>
     (\<forall>j. has_node d' j \<longleftrightarrow> has_node d j \<and> (\<forall>i \<in> set ids. j \<notin> desc_of d i)) \<and>
     (\<forall>j. has_node d' j \<longrightarrow> node_row d' j = node_row d j) \<and>
     object_map d' = filter (\<lambda>r. \<forall>i \<in> set ids. onode r \<notin> desc_of d i) (object_map d)"

definition subtrees_keys :: "db \<Rightarrow> nat list \<Rightarrow> string set" where
  "subtrees_keys d ids = {k. k \<noteq> [] \<and> (\<exists>i \<in> set ids. k \<in> subtree_keys d i)}"

lemma purged_all_Nil: "tree_ok d \<Longrightarrow> purged_all d [] d"
  by (simp add: purged_all_def)

lemma purged_all_Cons:
  assumes ok: "tree_ok d" and "purged_all (purged d i) ids d'"
  shows "purged_all d (i # ids) d'"
proof -
  have "(\<forall>x \<in> set ids. j \<notin> desc_of (purged d i) x) \<and> j \<notin> desc_of d i \<longleftrightarrow>
      (\<forall>x \<in> set (i # ids). j \<notin> desc_of d x)" for j
    by (auto simp: purged_desc [OF ok])
  then have keep: "j \<notin> desc_of d i \<and> (\<forall>x \<in> set ids. j \<notin> desc_of (purged d i) x) \<longleftrightarrow>
      (\<forall>x \<in> set (i # ids). j \<notin> desc_of d x)" for j by blast
  have h: "has_node d' j \<longleftrightarrow> has_node d j \<and> (\<forall>x \<in> set (i # ids). j \<notin> desc_of d x)" for j
    using assms(2) purged_has [OF ok, of i j] keep [of j] unfolding purged_all_def by blast
  have "node_row d' j = node_row d j" if "has_node d' j" for j
  proof -
    have "node_row d' j = node_row (purged d i) j" "has_node (purged d i) j"
      using assms(2) that unfolding purged_all_def by blast+
    then show ?thesis using purged_row [OF ok] by simp
  qed
  moreover have "object_map d' = filter (\<lambda>r. onode r \<notin> desc_of d i \<and>
      (\<forall>x \<in> set ids. onode r \<notin> desc_of (purged d i) x)) (object_map d)"
    using assms(2) by (simp add: purged_all_def purged_objs [OF ok] conj_commute)
  then have "object_map d' = filter (\<lambda>r. \<forall>x \<in> set (i # ids). onode r \<notin> desc_of d x) (object_map d)"
    unfolding keep .
  ultimately show ?thesis using h assms(2) unfolding purged_all_def by blast
qed

lemma purged_subtree_keys: "tree_ok d \<Longrightarrow> subtree_keys (purged d i) x \<subseteq> subtree_keys d x"
  by (auto simp: subtree_keys_def purged_objs purged_desc)

text \<open>Whether or not the node is still there, a purge leaves the purged database.\<close>

lemma purge_step:
  assumes site: "s3_site site content" and ok: "tree_ok (vdb v)"
  shows "(\<exists>r t. purgeNode site i v = (Inr r, v\<lparr>vdb := purged (vdb v) i, vstore := t\<rparr>) \<and>
      (\<forall>k. k \<notin> subtree_keys (vdb v) i \<longrightarrow> content t k = content (vstore v) k)) \<or>
    (\<exists>e. purgeNode site i v = (Inl e, v\<lparr>vdb := purged (vdb v) i\<rparr>) \<and> e \<noteq> No_return)"
proof (cases "has_node (vdb v) i")
  case True
  have "set (real_keys (getObjectMapBySubtree (vdb v) i)) = subtree_keys (vdb v) i"
    unfolding set_real_keys subtree_keys_def set_subtree_objects [OF tree_okD(2) [OF ok]] by blast
  then show ?thesis using purgeNode_ok [OF site ok True] unfolding swept_keys_def by metis
next
  case False
  then have "purgeNode site i v = (Inl files_not_found, v)"
    by (simp add: purgeNode_def getNodeIncludingTrashed_def node_row_None [THEN iffD2] service_simps)
      (simp add: throw_def)
  then show ?thesis by (simp add: purged_missing [OF ok False] files_not_found_def)
qed

lemma purge_each_ok:
  assumes site: "s3_site site content" and "tree_ok (vdb v)"
  shows "\<exists>r d' t. purge_each site ids acc v = (Inr r, v\<lparr>vdb := d', vstore := t\<rparr>) \<and> purged_all (vdb v) ids d' \<and>
    (\<forall>k. k \<notin> subtrees_keys (vdb v) ids \<longrightarrow> content t k = content (vstore v) k)"
  using assms(2)
proof (induction ids arbitrary: v acc)
  case Nil
  then show ?case
    by (intro exI [of _ acc] exI [of _ "vdb v"] exI [of _ "vstore v"]) (simp add: ret_def purged_all_Nil)
next
  case (Cons i ids)
  note ok = Cons.prems
  have chain: "\<exists>r d' t. purge_each site ids acc' w = (Inr r, v\<lparr>vdb := d', vstore := t\<rparr>) \<and>
      purged_all (vdb v) (i # ids) d' \<and>
      (\<forall>k. k \<notin> subtrees_keys (vdb v) (i # ids) \<longrightarrow> content t k = content (vstore v) k)"
    if w: "w = v\<lparr>vdb := purged (vdb v) i, vstore := s\<rparr>"
      "\<And>k. k \<notin> subtree_keys (vdb v) i \<Longrightarrow> content s k = content (vstore v) k" for acc' w s
  proof -
    have "tree_ok (vdb w)" using w(1) purged_tree_ok [OF ok] by simp
    from Cons.IH [OF this, of acc'] obtain r d' t where
      r: "purge_each site ids acc' w = (Inr r, w\<lparr>vdb := d', vstore := t\<rparr>)" "purged_all (vdb w) ids d'"
      "\<forall>k. k \<notin> subtrees_keys (vdb w) ids \<longrightarrow> content t k = content (vstore w) k" by blast
    have "content t k = content (vstore v) k" if k: "k \<notin> subtrees_keys (vdb v) (i # ids)" for k
    proof -
      have "k \<notin> subtree_keys (vdb v) i"
        using k by (auto simp: subtrees_keys_def subtree_keys_def)
      moreover have "k \<notin> subtrees_keys (vdb w) ids"
        using k purged_subtree_keys [OF ok] w(1) by (auto simp: subtrees_keys_def)
      ultimately show ?thesis using r(3) w by simp
    qed
    moreover have "purged_all (vdb v) (i # ids) d'" using r(2) w(1) by (intro purged_all_Cons [OF ok]) simp
    ultimately show ?thesis
      using r(1) w(1) by (intro exI [of _ r] exI [of _ d'] exI [of _ t]) simp
  qed
  show ?case
    using purge_step [OF site ok, of i]
  proof (elim disjE exE conjE)
    fix r s assume "purgeNode site i v = (Inr r, v\<lparr>vdb := purged (vdb v) i, vstore := s\<rparr>)"
      "\<forall>k. k \<notin> subtree_keys (vdb v) i \<longrightarrow> content s k = content (vstore v) k"
    then show ?thesis using chain [OF refl, of s] by (simp add: seqs_def catching_def ret_def)
  next
    fix e assume "purgeNode site i v = (Inl e, v\<lparr>vdb := purged (vdb v) i\<rparr>)" "e \<noteq> No_return"
    then show ?thesis using chain [OF refl, of "vstore v"] by (simp add: seqs_def catching_def ret_def)
  qed
qed

section \<open>The topmost trashed nodes\<close>

lemma topmost_ids:
  "v_id ` set (getTopmostTrashedNodes d None) = {nid n | n. n \<in> set (file_nodes d) \<and> topmost_trashed d n}"
  by (auto simp: getTopmostTrashedNodes_def image_iff)

lemma topmost_above:
  assumes ok: "tree_ok d" and "up d k j = Some a" "\<not> live_id d a"
  shows "\<exists>i \<in> v_id ` set (getTopmostTrashedNodes d None). j \<in> desc_of d i"
  using assms(2,3)
proof (induction "card (above_set d a)" arbitrary: k a rule: less_induct)
  case less
  note N = tree_okD [OF ok]
  obtain n where n: "node_row d a = Some n" "n \<in> set (file_nodes d)" "nid n = a"
    using less.prems(1) up_has node_row_None node_row_in by (metis option.exhaust)
  then have dead: "\<not> live n" using less.prems(2) by (simp add: live_id_def)
  show ?case
  proof (cases "topmost_trashed d n")
    case True
    then have "a \<in> v_id ` set (getTopmostTrashedNodes d None)" using n unfolding topmost_ids by blast
    then show ?thesis using less.prems(1) unfolding desc_of_def by blast
  next
    case False
    then obtain p q where p: "nparent n = Some p" "node_row d p = Some q" "\<not> live q"
      using dead by (auto simp: topmost_trashed_def split: option.splits)
    have par: "parent_of d a = Some p" using n(1) p(1) by (simp add: parent_of_def)
    have "card (above_set d p) < card (above_set d a)"
      using above_parent [OF N par] finite_above [OF N(2)] psubset_card_mono by blast
    moreover have "up d (Suc k) j = Some p"
      using up_Suc_some [OF less.prems(1)] par parent_of_has [OF N(1) par] by simp
    moreover have "\<not> live_id d p" using p(2,3) by (simp add: live_id_def)
    ultimately show ?thesis using less.hyps by blast
  qed
qed

end
