(* ===== verification/Files.thy ===== *)
theory Files
  imports Trash Upload PathUtils
begin

text \<open>
  \<open>server/domains/files/services/fileService.js\<close>: the operations behind the file routes. Each checks
  the caller's permission, then works on the node tree, the object map and the blob store. They run
  on a drive: the state of the access control, the blob store, the random draws.

  A caller is the principal, whether the route passed a user record, and \<open>isAdminUser\<close> of it. The
  thumbnail address of a listed file and the enrichment hook, which never throws, are not modelled.
\<close>

record caller =
  who :: principal
  hasUser :: bool
  adminUser :: bool

definition is_admin_caller :: "caller \<Rightarrow> bool" where
  "is_admin_caller c \<longleftrightarrow> hasUser c \<and> adminUser c"

definition on_drive_db :: "(db, 'a) service \<Rightarrow> ('c drive, 'a) service" where
  "on_drive_db m s = (case m (pdb (dperm s)) of (r, d) \<Rightarrow> (r, s\<lparr>dperm := (dperm s)\<lparr>pdb := d\<rparr>\<rparr>))"

definition on_perm :: "(perm_state, 'a) service \<Rightarrow> ('c drive, 'a) service" where
  "on_perm m s = (case m (dperm s) of (r, p) \<Rightarrow> (r, s\<lparr>dperm := p\<rparr>))"

definition reads_db :: "(db \<Rightarrow> 'a) \<Rightarrow> ('c drive, 'a) service" where
  "reads_db f = reads (\<lambda>s. f (pdb (dperm s)))"

definition on_blobs :: "('c, 'a) service \<Rightarrow> ('c drive, 'a) service" where
  "on_blobs m = on_vault (on_store m)"

section \<open>Permission checks\<close>

text \<open>A folder check with the id \<open>null\<close>: no grant row has it.\<close>

definition check_folder_opt :: "principal \<Rightarrow> nat option \<Rightarrow> string \<Rightarrow> perm_state \<Rightarrow> bool \<times> perm_state" where
  "check_folder_opt p n required s =
     (case n of
        Some i \<Rightarrow> checkFolderPermission p i required s
      | None \<Rightarrow>
          (if isSharePrincipal p then (False, s)
           else (case p of
                   Principal_string _ \<Rightarrow> (False, s)
                 | User_id u \<Rightarrow> (case getCachedUser u s of
                       (None, t) \<Rightarrow> (False, t) | (Some x, t) \<Rightarrow> (is_admin x, t)))))"

definition need_node :: "caller \<Rightarrow> nat \<Rightarrow> string \<Rightarrow> err \<Rightarrow> ('c drive, unit) service" where
  "need_node c nodeId required e =
     (if is_admin_caller c then ret ()
      else seqs (on_acl (checkFilePermission (who c) nodeId required)) (\<lambda>allowed. guard allowed e))"

definition need_folder :: "caller \<Rightarrow> nat option \<Rightarrow> ('c drive, unit) service" where
  "need_folder c nodeId =
     (if is_admin_caller c then ret ()
      else seqs (on_acl (check_folder_opt (who c) nodeId ''write'')) (\<lambda>allowed. guard allowed permission_denied))"

definition resolveNodePermissionFlags :: "principal \<Rightarrow> node_view \<Rightarrow> bool \<Rightarrow> ('c drive, bool \<times> bool) service" where
  "resolveNodePermissionFlags userId node isAdmin =
     (if isAdmin then ret (True, True)
      else let check = (\<lambda>required. on_acl (if v_type node = Directory then checkFolderPermission userId (v_id node) required
                          else checkFilePermission userId (v_id node) required))
           in seqs (check ''read'') (\<lambda>r. seqs (check ''write'') (\<lambda>w. ret (r, w))))"

fun flags_of :: "principal \<Rightarrow> node_view list \<Rightarrow> bool \<Rightarrow> ('c drive, (nat \<times> bool \<times> bool) list) service" where
  "flags_of userId [] isAdmin = ret []"
| "flags_of userId (n # ns) isAdmin =
     seqs (resolveNodePermissionFlags userId n isAdmin) (\<lambda>f.
     seqs (flags_of userId ns isAdmin) (\<lambda>fs. ret ((v_id n, f) # fs)))"

definition resolvePermissionsForNodes :: "caller \<Rightarrow> node_view list \<Rightarrow> ('c drive, (nat \<times> bool \<times> bool) list) service" where
  "resolvePermissionsForNodes c nodes = flags_of (who c) nodes (is_admin_caller c)"

section \<open>Listing\<close>

record listed =
  l_node :: node_view
  l_path :: string
  l_read :: bool
  l_write :: bool
  l_admin :: bool
  l_hidden :: bool

definition owner_principal :: "db \<Rightarrow> principal \<Rightarrow> nat \<Rightarrow> bool" where
  "owner_principal d p n = (case p of User_id u \<Rightarrow> isOwnerNode d u n | Principal_string _ \<Rightarrow> False)"

definition grants_of_principal :: "principal \<Rightarrow> perm_state \<Rightarrow> (nat \<times> permission \<times> node_type) list \<times> perm_state" where
  "grants_of_principal p s = (case p of User_id u \<Rightarrow> getUserPermissions u s | Principal_string _ \<Rightarrow> ([], s))"

fun list_rows :: "principal \<Rightarrow> bool \<Rightarrow> bool \<Rightarrow> nat list \<Rightarrow> node_view list \<Rightarrow> ('c drive, listed list) service" where
  "list_rows userId isAdmin parentOwned adminGrants [] = ret []"
| "list_rows userId isAdmin parentOwned adminGrants (child # cs) =
     seqs (resolveNodePermissionFlags userId child isAdmin) (\<lambda>(r, w).
       if isSharePrincipal userId \<and> \<not> r then list_rows userId isAdmin parentOwned adminGrants cs
       else seqs (reads_db (\<lambda>d. getNodePath d (v_id child))) (\<lambda>path.
            seqs (list_rows userId isAdmin parentOwned adminGrants cs) (\<lambda>ls.
            ret (\<lparr>l_node = child, l_path = path, l_read = r, l_write = w,
                  l_admin = (isAdmin \<or> parentOwned \<or> v_id child \<in> set adminGrants),
                  l_hidden = starts_with (v_name child) ''.''\<rparr> # ls))))"

definition listDirectoryWithPermissions :: "caller \<Rightarrow> nat option \<Rightarrow> ('c drive, listed list) service" where
  "listDirectoryWithPermissions c parentNodeId =
     seqs (reads_db (\<lambda>d. listDirectory d parentNodeId)) (\<lambda>children.
       if children = [] then ret []
       else if is_admin_caller c \<or> isSharePrincipal (who c)
       then list_rows (who c) (is_admin_caller c) False [] children
       else seqs (reads_db (\<lambda>d. case parentNodeId of None \<Rightarrow> False | Some p \<Rightarrow> owner_principal d (who c) p)) (\<lambda>parentOwned.
            seqs (on_acl (grants_of_principal (who c))) (\<lambda>grants.
            list_rows (who c) False parentOwned
              (map fst (filter (\<lambda>(n, p, t). p = Admin) grants)) children)))"

section \<open>Upload and download\<close>

datatype file_upload = Skipped nat | Uploaded upload_result

definition duplicate_file :: err where
  "duplicate_file = Err ''serverErrors.files.duplicateFile'' 409"

definition invalid_name :: err where
  "invalid_name = Err ''serverErrors.files.invalidName'' 409"

definition source_not_found :: "err \<Rightarrow> bool" where
  "source_not_found e = (case e of Err code s \<Rightarrow> code = ''serverErrors.webdav.sourceNotFound'' | _ \<Rightarrow> False)"

definition tmp_path :: "nat \<Rightarrow> string" where
  "tmp_path nodeId = ''/.wea-tmp/'' @ decimal nodeId"

definition set_orphaned :: "nat \<Rightarrow> ('c drive, unit) service" where
  "set_orphaned nodeId = on_drive_db (updateSyncStatus nodeId Orphaned_node)"

text \<open>The copy of the previous bytes; no copy when there is nothing at the path.\<close>

definition snapshot :: "'c site \<Rightarrow> nat \<Rightarrow> string \<Rightarrow> ('c drive, string option) service" where
  "snapshot site nodeId displayPath =
     catching (seqs (on_blobs (ensureDirectoryExists (blobs site) ''/.wea-tmp'')) (\<lambda>_.
               seqs (on_blobs (copyBlob (blobs site) displayPath (tmp_path nodeId))) (\<lambda>_.
               ret (Some (tmp_path nodeId)))))
       (\<lambda>e. if source_not_found e then ret None else throw e)"

definition recover_upload :: "'c site \<Rightarrow> nat \<Rightarrow> bool \<Rightarrow> string option \<Rightarrow> string \<Rightarrow> ('c drive, unit) service" where
  "recover_upload site nodeId isOverwrite tmpPath displayPath =
     (if \<not> isOverwrite then best_effort (on_drive_db (deleteNode nodeId))
      else (case tmpPath of
              Some t \<Rightarrow> catching (on_blobs (moveBlob (blobs site) t displayPath True))
                          (\<lambda>_. best_effort (set_orphaned nodeId))
            | None \<Rightarrow> set_orphaned nodeId))"

definition put_webdav ::
  "'c site \<Rightarrow> nat \<Rightarrow> bool \<Rightarrow> string option \<Rightarrow> string \<Rightarrow> buffer \<Rightarrow> string option \<Rightarrow> ('c drive, file_upload) service" where
  "put_webdav site nodeId isOverwrite tmpPath displayPath buf mimeType =
     seqs (catching (on_vault (uploadToWebdav site nodeId buf None))
            (\<lambda>e. seqs (recover_upload site nodeId isOverwrite tmpPath displayPath) (\<lambda>_. throw e))) (\<lambda>_.
     seqs (case tmpPath of Some t \<Rightarrow> best_effort (on_blobs (deleteBlob (blobs site) t)) | None \<Rightarrow> ret ()) (\<lambda>_.
     seqs (best_effort (on_drive_db (upsertCache nodeId (length buf) mimeType (Some (sha256 site buf))))) (\<lambda>_.
     ret (Uploaded \<lparr>ur_node = nodeId, ur_key = None, ur_size = length buf, ur_mime = mimeType,
                     ur_hash = sha256 site buf\<rparr>))))"

definition upload_webdav ::
  "'c site \<Rightarrow> nat option \<Rightarrow> string \<Rightarrow> buffer \<Rightarrow> string option \<Rightarrow> node_view option \<Rightarrow> ('c drive, file_upload) service" where
  "upload_webdav site parentNodeId name buf mimeType existingFile =
     (case existingFile of
        None \<Rightarrow> seqs (on_drive_db (createFile parentNodeId name)) (\<lambda>node.
                put_webdav site (v_id node) False None [] buf mimeType)
      | Some f \<Rightarrow>
          seqs (reads_db (\<lambda>d. getNodePath d (v_id f))) (\<lambda>displayPath.
          seqs (snapshot site (v_id f) displayPath) (\<lambda>tmpPath.
          put_webdav site (v_id f) True tmpPath displayPath buf mimeType)))"

definition upload_s3 ::
  "'c site \<Rightarrow> nat option \<Rightarrow> string \<Rightarrow> buffer \<Rightarrow> string option \<Rightarrow> node_view option \<Rightarrow> ('c drive, file_upload) service" where
  "upload_s3 site parentNodeId name buf mimeType existingFile =
     (case existingFile of
        Some f \<Rightarrow> seqs (on_vault (ensureExclusiveBlob site (v_id f))) (\<lambda>_.
                  seqs (on_vault (overwriteFile site (v_id f) buf mimeType)) (\<lambda>r. ret (Uploaded r)))
      | None \<Rightarrow> seqs (on_vault (uploadFile site parentNodeId name buf mimeType)) (\<lambda>r. ret (Uploaded r)))"

definition existing_file :: "db \<Rightarrow> nat option \<Rightarrow> string \<Rightarrow> node_view option" where
  "existing_file d parentNodeId name =
     first_row (filter (\<lambda>c. v_name c = name \<and> v_type c = File) (listDirectory d parentNodeId))"

definition fs_uploadFile ::
  "'c site \<Rightarrow> caller \<Rightarrow> nat option \<Rightarrow> string \<Rightarrow> buffer \<Rightarrow> string option \<Rightarrow> string option \<Rightarrow> ('c drive, file_upload) service" where
  "fs_uploadFile site c parentNodeId name buf mimeType onConflict =
     seqs (need_folder c parentNodeId) (\<lambda>_.
     seqs (reads_db (\<lambda>d. existing_file d parentNodeId name)) (\<lambda>existingFile.
       case existingFile of
         Some f \<Rightarrow>
           if onConflict = Some ''skip'' then ret (Skipped (v_id f))
           else if onConflict \<noteq> Some ''overwrite'' then throw duplicate_file
           else if isWebdavMode site then upload_webdav site parentNodeId name buf mimeType (Some f)
           else upload_s3 site parentNodeId name buf mimeType (Some f)
       | None \<Rightarrow>
           if isWebdavMode site then upload_webdav site parentNodeId name buf mimeType None
           else upload_s3 site parentNodeId name buf mimeType None))"

definition fs_downloadFile :: "'c site \<Rightarrow> caller \<Rightarrow> nat \<Rightarrow> ('c drive, buffer) service" where
  "fs_downloadFile site c fileNodeId =
     seqs (need_node c fileNodeId ''read'' files_not_found) (\<lambda>_.
     seqs (on_vault (downloadNode site fileNodeId)) (\<lambda>b.
       case b of None \<Rightarrow> throw files_not_found | Some x \<Rightarrow> ret x))"

section \<open>Renaming\<close>

text \<open>\<open>node.parent_id\<close> of a node the mapper built, whose field is \<open>parentId\<close>, is \<open>undefined\<close>, and of \<open>null\<close> a
  \<open>TypeError\<close>; the listing of the parent \<open>undefined\<close> is the listing of the root.\<close>

definition null_property :: "string \<Rightarrow> err" where
  "null_property p = Plain (''Cannot read properties of null (reading '' @ p @ '')'')"

definition rename_conflict :: "db \<Rightarrow> nat \<Rightarrow> string \<Rightarrow> bool" where
  "rename_conflict d nodeId newName =
     list_ex (\<lambda>s. v_name s = newName \<and> v_id s \<noteq> nodeId) (listDirectory d None)"

text \<open>
  The native move after the database has changed. When it fails the change is undone with \<open>undo\<close>,
  except when nothing was there to move; a failed undo marks the node.
\<close>

definition sync_move :: "'c site \<Rightarrow> nat \<Rightarrow> string \<Rightarrow> (db, unit) service \<Rightarrow> ('c drive, unit) service" where
  "sync_move site nodeId oldPath undo =
     seqs (reads_db (\<lambda>d. getNodePath d nodeId)) (\<lambda>newPath.
     catching (on_blobs (moveBlob (blobs site) oldPath newPath False))
       (\<lambda>e. if source_not_found e then seqs (set_orphaned nodeId) (\<lambda>_. throw e)
            else seqs (catching (on_drive_db undo) (\<lambda>_. set_orphaned nodeId)) (\<lambda>_. throw e)))"

definition bad_new_name :: "string \<Rightarrow> bool" where
  "bad_new_name newName \<longleftrightarrow> newName = [] \<or> trim newName = [] \<or> CHR ''/'' \<in> set newName \<or> CHR 0x5C \<in> set newName"

definition fs_renameNode :: "'c site \<Rightarrow> caller \<Rightarrow> nat \<Rightarrow> string \<Rightarrow> ('c drive, unit) service" where
  "fs_renameNode site c nodeId newName =
     seqs (guard (\<not> bad_new_name newName) invalid_name) (\<lambda>_.
     seqs (need_node c nodeId ''write'' permission_denied) (\<lambda>_.
     seqs (reads_db (\<lambda>d. getNode d nodeId)) (\<lambda>found.
       case found of
         None \<Rightarrow> throw (null_property ''parent_id'')
       | Some node \<Rightarrow>
           seqs (reads_db (\<lambda>d. rename_conflict d nodeId newName)) (\<lambda>conflict.
           seqs (guard (\<not> conflict) duplicate_file) (\<lambda>_.
           seqs (reads_db (\<lambda>d. getNodePath d nodeId)) (\<lambda>oldPath.
           seqs (on_drive_db (renameNode nodeId newName)) (\<lambda>_.
           if isWebdavMode site then sync_move site nodeId oldPath (renameNode nodeId (v_name node))
           else ret ())))))))"

section \<open>Moving\<close>

text \<open>The mover owns the node and the destination lies outside its home.\<close>

definition ownership_transfer :: "db \<Rightarrow> caller \<Rightarrow> nat \<Rightarrow> nat option \<Rightarrow> bool" where
  "ownership_transfer d c nodeId dest \<longleftrightarrow>
     hasUser c \<and> \<not> is_admin_caller c \<and> owner_principal d (who c) nodeId \<and>
     (case dest of None \<Rightarrow> True | Some p \<Rightarrow> \<not> owner_principal d (who c) p)"

text \<open>\<open>parent_id\<close> again: the undo of a failed remote move puts the node under the root.\<close>

definition revoke_moved :: "principal \<Rightarrow> nat \<Rightarrow> ('c drive, unit) service" where
  "revoke_moved p nodeId =
     (case p of User_id u \<Rightarrow> seqs (on_perm (revokeUserSubtreePermissions u nodeId)) (\<lambda>_. ret ())
      | Principal_string _ \<Rightarrow> ret ())"

definition fs_moveNode :: "'c site \<Rightarrow> caller \<Rightarrow> nat \<Rightarrow> nat option \<Rightarrow> ('c drive, unit) service" where
  "fs_moveNode site c nodeId newParent =
     seqs (need_node c nodeId ''write'' permission_denied) (\<lambda>_.
     seqs (need_folder c newParent) (\<lambda>_.
     seqs (reads_db (\<lambda>d. ownership_transfer d c nodeId newParent)) (\<lambda>transfer.
     seqs (reads_db (\<lambda>d. getNodePath d nodeId)) (\<lambda>oldPath.
     seqs (on_drive_db (moveNode nodeId newParent)) (\<lambda>_.
     seqs (if isWebdavMode site then sync_move site nodeId oldPath (moveNode nodeId None) else ret ()) (\<lambda>_.
     if transfer then revoke_moved (who c) nodeId else ret ()))))))"

section \<open>Trashing\<close>

definition trash_target_exists :: err where
  "trash_target_exists = Err ''serverErrors.files.trashTargetExists'' 409"

definition to_trash :: "'c site \<Rightarrow> nat \<Rightarrow> ('c drive, unit) service" where
  "to_trash site nodeId =
     (if \<not> isWebdavMode site then ret ()
      else seqs (on_vault (ensureTrashRoot site)) (\<lambda>_.
           seqs (reads_db (\<lambda>d. getNodePath d nodeId)) (\<lambda>displayPath.
           seqs (catching (seqs (on_blobs (headBlob (blobs site) (buildTrashPath nodeId))) (\<lambda>h. ret (h = None)))
                  (\<lambda>_. ret True)) (\<lambda>free.
           seqs (guard free trash_target_exists) (\<lambda>_.
           catching (on_blobs (moveBlob (blobs site) displayPath (buildTrashPath nodeId) False))
             (\<lambda>e. seqs (set_orphaned nodeId) (\<lambda>_. throw e)))))))"

definition fs_deleteNode :: "'c site \<Rightarrow> caller \<Rightarrow> nat \<Rightarrow> ('c drive, nat) service" where
  "fs_deleteNode site c nodeId =
     seqs (need_node c nodeId ''write'' permission_denied) (\<lambda>_.
     seqs (reads_db (\<lambda>d. getNode d nodeId)) (\<lambda>found.
     seqs (guard (found \<noteq> None) files_not_found) (\<lambda>_.
     seqs (reads_db (\<lambda>d. getDescendantIds d nodeId)) (\<lambda>descendantIds.
     seqs (to_trash site nodeId) (\<lambda>_.
     seqs (on_drive_db (markSubtreeDeleted (nodeId # descendantIds))) (\<lambda>_.
     ret (length descendantIds + 1)))))))"

section \<open>Copying\<close>

text \<open>A missing key goes into the copy request as the text \<open>null\<close>.\<close>

definition key_text :: "string option \<Rightarrow> string" where
  "key_text k = (case k of None \<Rightarrow> ''null'' | Some s \<Rightarrow> s)"

text \<open>The key the copy refers to: the same one when the source alone has it, else a duplicate.\<close>

definition copy_key :: "'c site \<Rightarrow> nat \<Rightarrow> ('c drive, string) service" where
  "copy_key site nodeId =
     seqs (on_vault (getActiveS3Key site nodeId)) (\<lambda>activeS3Key.
     seqs (case activeS3Key of None \<Rightarrow> ret 0 | Some k \<Rightarrow> on_vault (countActiveByKey site k)) (\<lambda>activeCount.
     if activeCount = 1 then ret (key_text activeS3Key)
     else on_vault (duplicateBlob site (key_text activeS3Key))))"

definition copy_s3 :: "'c site \<Rightarrow> nat \<Rightarrow> nat option \<Rightarrow> string \<Rightarrow> ('c drive, nat) service" where
  "copy_s3 site nodeId dest targetName =
     seqs (copy_key site nodeId) (\<lambda>effectiveS3Key.
     seqs (reads_db (\<lambda>d. getCache d nodeId)) (\<lambda>sourceCache.
     seqs (on_drive_db (createFile dest targetName)) (\<lambda>newFile.
     seqs (on_vault (linkObject site (v_id newFile) effectiveS3Key (map_option csize sourceCache))) (\<lambda>_.
     seqs (on_drive_db (updateSyncStatus (v_id newFile) Active)) (\<lambda>_.
     seqs (case sourceCache of None \<Rightarrow> ret ()
           | Some r \<Rightarrow> seqs (on_drive_db (upsertCache (v_id newFile) (csize r) (cmime r) (chash r))) (\<lambda>_. ret ())) (\<lambda>_.
     ret (v_id newFile)))))))"

definition mirror_webdav_cache :: "'c site \<Rightarrow> node_view \<Rightarrow> nat \<Rightarrow> string \<Rightarrow> ('c drive, unit) service" where
  "mirror_webdav_cache site sourceNode copied copyPath =
     (if v_type sourceNode \<noteq> File then ret ()
      else seqs (on_blobs (headBlob (blobs site) copyPath)) (\<lambda>head.
        case head of None \<Rightarrow> ret ()
        | Some (len, ty) \<Rightarrow>
            seqs (reads_db (\<lambda>d. getCache d (v_id sourceNode))) (\<lambda>sourceCache.
            seqs (on_drive_db (upsertCache copied len
                    (if ty = None \<or> ty = Some [] then Some ''application/octet-stream'' else ty)
                    (Option.bind sourceCache chash))) (\<lambda>_. ret ()))))"

definition copy_webdav :: "'c site \<Rightarrow> node_view \<Rightarrow> nat option \<Rightarrow> string \<Rightarrow> ('c drive, nat) service" where
  "copy_webdav site sourceNode dest targetName =
     seqs (reads_db (\<lambda>d. getNodePath d (v_id sourceNode))) (\<lambda>sourcePath.
     seqs (on_drive_db (createFile dest targetName)) (\<lambda>newFile.
     seqs (reads_db (\<lambda>d. getNodePath d (v_id newFile))) (\<lambda>copyPath.
     seqs (catching (on_blobs (copyBlob (blobs site) sourcePath copyPath))
            (\<lambda>e. seqs (best_effort (on_drive_db (deleteNode (v_id newFile)))) (\<lambda>_. throw e))) (\<lambda>_.
     seqs (mirror_webdav_cache site sourceNode (v_id newFile) copyPath) (\<lambda>_.
     ret (v_id newFile))))))"

definition fs_copyFile :: "'c site \<Rightarrow> caller \<Rightarrow> nat \<Rightarrow> nat option \<Rightarrow> string option \<Rightarrow> ('c drive, nat) service" where
  "fs_copyFile site c nodeId dest newName =
     seqs (need_node c nodeId ''read'' permission_denied) (\<lambda>_.
     seqs (need_folder c dest) (\<lambda>_.
     seqs (reads_db (\<lambda>d. getNode d nodeId)) (\<lambda>found.
       case found of
         None \<Rightarrow> throw files_not_found
       | Some sourceNode \<Rightarrow>
           (let targetName = (if newName = None \<or> newName = Some [] then v_name sourceNode else the newName)
            in if isWebdavMode site then copy_webdav site sourceNode dest targetName
               else copy_s3 site nodeId dest targetName))))"

end
