(* ===== verification/TrashProps.thy ===== *)
theory TrashProps
  imports PurgeLaws UploadProps Files AclLaws
begin

text \<open>
  The properties of the trash: what a restore does, that it undoes a trashing, what a purge removes
  from the database and from the blob store, and that emptying the trash leaves nothing behind.
\<close>

section \<open>The rows a restore takes up are complete\<close>

lemma live_row_view: "row_view d v \<Longrightarrow> v_deleted v = None \<longleftrightarrow> live_id d (v_id v)"
  by (auto simp: row_view_def live_id_def live_def)

lemma trashed_above_parents:
  "trashed_above d cur chain = Some out \<Longrightarrow> row_view d cur \<Longrightarrow>
     \<exists>later. out = chain @ later \<and> (\<forall>v \<in> set (cur # later). \<forall>p. v_parentId v = Some p \<longrightarrow>
        has_node d p \<longrightarrow> live_id d p \<or> p \<in> v_id ` set later)"
proof (induction rule: trashed_above.raw_induct [rotated, consumes 1])
  case (1 f d cur chain out)
  show ?case
  proof (cases "v_parentId cur")
    case None
    then show ?thesis using 1(2) by simp
  next
    case (Some p)
    note par = Some
    show ?thesis
    proof (cases "getNodeIncludingTrashed d p")
      case None
      then have "\<not> has_node d p" by (simp add: getNodeIncludingTrashed_def node_row_None)
      then show ?thesis using 1(2) None par by simp
    next
      case (Some parent)
      have v: "row_view d parent" "v_id parent = p" using row_view_including [OF Some] by auto
      show ?thesis
      proof (cases "v_deleted parent = None")
        case True
        then have "live_id d p" using live_row_view [OF v(1)] v(2) by simp
        then show ?thesis using 1(2) Some par True by simp
      next
        case False
        then have "f d parent (chain @ [parent]) = Some out" using 1(2) Some par by (simp split: if_splits)
        from 1(1) [OF this v(1)] obtain later where l: "out = (chain @ [parent]) @ later"
          "\<forall>v \<in> set (parent # later). \<forall>p. v_parentId v = Some p \<longrightarrow> has_node d p \<longrightarrow>
             live_id d p \<or> p \<in> v_id ` set later" by blast
        then show ?thesis using par v(2) by (intro exI [of _ "parent # later"]) auto
      qed
    qed
  qed
qed

definition trash_ids :: "db \<Rightarrow> nat \<Rightarrow> nat set" where
  "trash_ids d p = v_id ` set (getTrashChildren d (Some p))"

text \<open>Every node listed is below the target, and the trashed children of every node listed are listed.\<close>

definition swept_out :: "db \<Rightarrow> nat \<Rightarrow> node_view list \<Rightarrow> bool" where
  "swept_out d t out \<longleftrightarrow> (\<forall>x \<in> insert t (v_id ` set out). trash_ids d x \<subseteq> v_id ` set out) \<and>
     (\<forall>v \<in> set out. \<exists>p \<in> insert t (v_id ` set out). v_parentId v = Some p)"

lemma trash_child_parent: "v \<in> set (getTrashChildren d (Some p)) \<Longrightarrow> v_parentId v = Some p"
  by (auto simp: getTrashChildren_def)

lemma trashed_below_complete:
  "trashed_below d queue rows = Some out \<Longrightarrow> v_id ` set queue \<subseteq> insert t (v_id ` set rows) \<Longrightarrow>
     (\<And>x. x \<in> insert t (v_id ` set rows) \<Longrightarrow> x \<in> v_id ` set queue \<or> trash_ids d x \<subseteq> v_id ` set rows) \<Longrightarrow>
     (\<And>v. v \<in> set rows \<Longrightarrow> \<exists>p \<in> insert t (v_id ` set rows). v_parentId v = Some p) \<Longrightarrow> swept_out d t out"
proof (induction rule: trashed_below.raw_induct [rotated, consumes 1])
  case (1 f d queue rows out)
  show ?case
  proof (cases queue)
    case Nil
    then show ?thesis using 1(2-5) by (simp add: swept_out_def)
  next
    case (Cons node rest)
    let ?cs = "getTrashChildren d (Some (v_id node))"
    have run: "f d (rest @ ?cs) (rows @ ?cs) = Some out" using 1(2) Cons by (simp add: Let_def)
    have kids: "trash_ids d (v_id node) = v_id ` set ?cs" by (simp add: trash_ids_def)
    have n: "v_id node \<in> insert t (v_id ` set rows)" using 1(3) Cons by simp
    show ?thesis
    proof (rule 1(1) [OF run])
      show "v_id ` set (rest @ ?cs) \<subseteq> insert t (v_id ` set (rows @ ?cs))" using 1(3) Cons by auto
    next
      fix x assume x: "x \<in> insert t (v_id ` set (rows @ ?cs))"
      show "x \<in> v_id ` set (rest @ ?cs) \<or> trash_ids d x \<subseteq> v_id ` set (rows @ ?cs)"
      proof (cases "x \<in> v_id ` set ?cs")
        case False
        then have "x \<in> insert t (v_id ` set rows)" using x by auto
        from 1(4) [OF this] show ?thesis unfolding Cons using kids by auto
      qed auto
    next
      note up = 1(5)
      fix v assume "v \<in> set (rows @ ?cs)"

      then consider "v \<in> set rows" | "v \<in> set ?cs" by auto
      then show "\<exists>p \<in> insert t (v_id ` set (rows @ ?cs)). v_parentId v = Some p"
      proof cases
        case 1
        from up [OF this] show ?thesis by auto
      next
        case 2
        then show ?thesis using trash_child_parent n by fastforce
      qed
    qed
  qed
qed

section \<open>One restore\<close>

definition with_db :: "'c drive \<Rightarrow> db \<Rightarrow> 'c drive" where
  "with_db s d = s\<lparr>dperm := (dperm s)\<lparr>pdb := d\<rparr>\<rparr>"

definition drive_db :: "'c drive \<Rightarrow> db" where
  "drive_db s = pdb (dperm s)"

lemma drive_db_with [simp]: "drive_db (with_db s d) = d" "with_db (with_db s d) d' = with_db s d'"
  by (simp_all add: drive_db_def with_db_def)

lemma with_db_same [simp]: "with_db s (drive_db s) = s"
  by (cases s) (simp add: drive_db_def with_db_def)

text \<open>What \<open>rows_to_restore\<close> lists, seen from the tree.\<close>

definition restore_set :: "db \<Rightarrow> nat \<Rightarrow> nat set \<Rightarrow> bool" where
  "restore_set d i ids \<longleftrightarrow> i \<in> ids \<and>
     (\<forall>j \<in> ids. has_node d j \<and> \<not> live_id d j \<and> (j \<in> desc_of d i \<or> i \<in> desc_of d j)) \<and>
     (\<forall>j \<in> ids. \<forall>p. parent_of d j = Some p \<longrightarrow> live_id d p \<or> p \<in> ids) \<and>
     (\<forall>j \<in> ids \<inter> desc_of d i. \<forall>c. parent_of d c = Some j \<longrightarrow> live_id d c \<or> c \<in> ids)"

lemma trash_ids_iff:
  assumes "nodes_ok d"
  shows "c \<in> trash_ids d p \<longleftrightarrow> parent_of d c = Some p \<and> \<not> live_id d c"
proof
  assume "c \<in> trash_ids d p"
  then obtain v where v: "v \<in> set (getTrashChildren d (Some p))" "v_id v = c" by (auto simp: trash_ids_def)
  then show "parent_of d c = Some p \<and> \<not> live_id d c"
    using trash_child [OF assms v(1)] live_row_view by fastforce
next
  assume c: "parent_of d c = Some p \<and> \<not> live_id d c"
  then obtain n where n: "n \<in> set (file_nodes d)" "nid n = c" "nparent n = Some p" "node_row d c = Some n"
    using parent_of_iff [OF assms] node_row_some [OF assms] by metis
  then have "\<not> live n" using c by (auto simp: live_id_def)
  then show "c \<in> trash_ids d p" using n by (force simp: trash_ids_def getTrashChildren_def)
qed

lemma rows_to_restore_set:
  assumes ok: "tree_ok d" and t: "row_view d target" "v_deleted target \<noteq> None"
  shows "\<exists>rows. rows_to_restore d target = Some rows \<and> restorable d rows \<and>
    restore_set d (v_id target) (v_id ` set rows)"
proof -
  let ?t = "v_id target"
  note N = tree_okD [OF ok]
  obtain rows where r: "rows_to_restore d target = Some rows" "restorable d rows" "target \<in> set rows"
    "\<forall>v \<in> set rows. v_id v \<in> above_set d ?t \<union> desc_of d ?t"
    using rows_to_restore_ok [OF N t] by blast
  obtain above where a: "trashed_above d target [target] = Some (target # above)"
    "\<forall>v \<in> set (target # above). \<forall>p. v_parentId v = Some p \<longrightarrow> has_node d p \<longrightarrow>
       live_id d p \<or> p \<in> v_id ` set above"
    using trashed_above_ends [OF N t(1), of "[target]"] trashed_above_parents [OF _ t(1), of "[target]"]
    by fastforce
  obtain low where b: "trashed_below d [target] [] = Some low" and rows: "rows = rev (target # above) @ low"
    using r(1) by (auto simp: rows_to_restore_def a(1) bind_eq_Some_conv)
  have low: "swept_out d ?t low"
    by (rule trashed_below_complete [OF b]) auto
  have rv: "row_view d v" "v_deleted v \<noteq> None" if "v \<in> set rows" for v
    using r(2) that by (auto simp: restorable_def)
  let ?ids = "v_id ` set rows"
  have one: "has_node d j \<and> \<not> live_id d j \<and> (j \<in> desc_of d ?t \<or> ?t \<in> desc_of d j)" if "j \<in> ?ids" for j
  proof -
    from that obtain v where v: "v \<in> set rows" "j = v_id v" by blast
    then have "\<not> live_id d j" "has_node d j"
      using rv live_row_view row_view_has by blast+
    moreover have "j \<in> above_set d ?t \<union> desc_of d ?t" using r(4) v by blast
    then have "j \<in> desc_of d ?t \<or> ?t \<in> desc_of d j" by (auto simp: above_set_def desc_of_def)
    ultimately show ?thesis by blast
  qed
  have two: "live_id d p \<or> p \<in> ?ids" if "j \<in> ?ids" "parent_of d j = Some p" for j p
  proof -
    from that obtain v where v: "v \<in> set rows" "j = v_id v" by blast
    then have pv: "v_parentId v = Some p" using row_view_parent rv(1) that(2) by metis
    have h: "has_node d p" using parent_of_has [OF N(1) that(2)] by blast
    show ?thesis
    proof (cases "v \<in> set low")
      case True
      then have "p \<in> insert ?t (v_id ` set low)" using low pv unfolding swept_out_def by fastforce
      then show ?thesis using rows by auto
    next
      case False
      then have "v \<in> set (target # above)" using v(1) rows by auto
      then have "live_id d p \<or> p \<in> v_id ` set above" using a(2) pv h by blast
      then show ?thesis using rows by auto
    qed
  qed
  have three: "live_id d c \<or> c \<in> ?ids" if j: "j \<in> ?ids" "j \<in> desc_of d ?t" and c: "parent_of d c = Some j" for j c
  proof (cases "j \<in> insert ?t (v_id ` set low)")
    case True
    then have "trash_ids d j \<subseteq> v_id ` set low" using low unfolding swept_out_def by blast
    then show ?thesis using c trash_ids_iff [OF N(1)] rows by auto
  next
    case False
    then have "j \<in> v_id ` set above" using j(1) rows by auto
    then obtain m where m: "up d m ?t = Some j" using trashed_above_ends [OF N t(1), of "[target]"] a(1)
      by (auto simp: above_set_def)
    obtain k where k: "up d k j = Some ?t" using j(2) by (auto simp: desc_of_def)
    then have "up d (k + m) j = Some j" using up_add [OF k] m by simp
    then have "k = 0" using closure_acyclic [OF N(2)] unfolding acyclic_nodes_def by fastforce
    then have "j = ?t" using k by (auto split: if_splits)
    then show ?thesis using False by blast
  qed
  have "restore_set d ?t ?ids"
    using r(3) one two three unfolding restore_set_def by blast
  then show ?thesis using r(1,2) by blast
qed

lemma restore_run:
  assumes site: "\<not> isWebdavMode site" and ok: "tree_ok (drive_db s)"
    and t: "getNodeIncludingTrashed (drive_db s) i = Some target" "v_deleted target \<noteq> None"
  shows "\<exists>rows p. rows_to_restore (drive_db s) target = Some rows \<and> restorable (drive_db s) rows \<and>
    plan_ok (drive_db s) rows p \<and> plan_rows site empty_plan rows (vault_of s) = (Inr p, vault_of s) \<and>
    restore_set (drive_db s) i (v_id ` set rows) \<and>
    restoreNode site u i True s =
      (Inr \<lparr>rr_node = i, rr_restored = map v_id rows,
            rr_path = getNodePath (with_restored (drive_db s) (p_renames p) (map v_id rows)) i\<rparr>,
       with_db s (with_restored (drive_db s) (p_renames p) (map v_id rows)))"
proof -
  let ?d = "drive_db s"
  have v: "row_view ?d target" "v_id target = i" using row_view_including [OF t(1)] by auto
  obtain rows where r: "rows_to_restore ?d target = Some rows" "restorable ?d rows" "restore_set ?d i (v_id ` set rows)"
    using rows_to_restore_set [OF ok v(1) t(2)] v(2) by blast
  obtain chain where c: "trashed_above ?d target [target] = Some chain"
    using r(1) by (auto simp: rows_to_restore_def bind_eq_Some_conv)
  have vd: "vdb (vault_of s) = ?d" by (simp add: vault_of_def drive_db_def)
  have "plan_ok ?d [] empty_plan" by (simp add: plan_ok_def empty_plan_def)
  from plan_rows_ok [OF site, of "vault_of s" "[]" empty_plan rows] this r(2) obtain p where
    p: "plan_rows site empty_plan rows (vault_of s) = (Inr p, vault_of s)" "plan_ok ?d rows p"
    unfolding vd restorable_def by auto
  obtain q where q: "plan_ok ?d rows q"
    "restore_rows site i rows (vault_of s) = (Inr \<lparr>rr_node = i, rr_restored = map v_id rows,
        rr_path = getNodePath (with_restored ?d (p_renames q) (map v_id rows)) i\<rparr>,
       (vault_of s)\<lparr>vdb := with_restored ?d (p_renames q) (map v_id rows)\<rparr>)"
    "plan_rows site empty_plan rows (vault_of s) = (Inr q, vault_of s)"
    using restore_rows_ok [OF site, of "vault_of s" rows i] tree_okD(1) [OF ok] r(2) unfolding vd by blast
  have "s\<lparr>dperm := (dperm s)\<lparr>pdb := d\<rparr>\<rparr> = with_db s d"
    "(with_db s d)\<lparr>dstore := dstore s, ddraws := ddraws s\<rparr> = with_db s d" for d
    by (cases s, simp add: with_db_def)+
  then have "restoreNode site u i True s =
      (Inr \<lparr>rr_node = i, rr_restored = map v_id rows,
            rr_path = getNodePath (with_restored ?d (p_renames q) (map v_id rows)) i\<rparr>,
       with_db s (with_restored ?d (p_renames q) (map v_id rows)))"
    using t c r(1) q(2)
    by (simp add: restoreNode_def service_simps restore_gates_def on_vault_def drive_db_def vault_of_def)
  then show ?thesis using r q by blast
qed

text \<open>Names that are free are kept.\<close>

lemma plan_row_keep:
  assumes "\<not> isWebdavMode site" "p_renames p = []" "v_name row \<notin> v_name ` set (getChildren (vdb v) (v_parentId row))"
    "(v_parentId row, v_name row) \<notin> set (p_claims p)"
  shows "\<exists>q. plan_row site p row v = (Inr q, v) \<and> p_renames q = [] \<and>
    p_claims q = p_claims p @ [(v_parentId row, v_name row)]"
proof -
  have "v_name row \<notin> set (claimed p (v_parentId row))" using assms(4) by (force simp: claimed_def)
  then have "resolveRestoreName (vdb v) (v_parentId row) (v_name row) (claimed p (v_parentId row)) = Some (v_name row)"
    using assms(3) by (rule resolveRestoreName_free [rotated])
  then show ?thesis
    using assms(1,2) by (simp add: plan_row_def service_simps move_back_def) (simp add: ret_def)
qed

lemma plan_rows_keep:
  assumes "\<not> isWebdavMode site" "p_renames p = []"
    "\<forall>r \<in> set rows. v_name r \<notin> v_name ` set (getChildren (vdb v) (v_parentId r))"
    "distinct (map (\<lambda>r. (v_parentId r, v_name r)) rows)"
    "\<forall>r \<in> set rows. (v_parentId r, v_name r) \<notin> set (p_claims p)"
  shows "\<exists>q. plan_rows site p rows v = (Inr q, v) \<and> p_renames q = []"
  using assms(2-)
proof (induction rows arbitrary: p)
  case (Cons row rows)
  obtain q where q: "plan_row site p row v = (Inr q, v)" "p_renames q = []"
    "p_claims q = p_claims p @ [(v_parentId row, v_name row)]"
    using plan_row_keep [OF assms(1), of p row v] Cons.prems by auto
  have "\<exists>o'. plan_rows site q rows v = (Inr o', v) \<and> p_renames o' = []"
    using Cons.prems by (intro Cons.IH q(2)) (auto simp: q(3) image_iff)
  then show ?case using q(1) by (simp add: seqs_def)
qed (simp add: ret_def)

section \<open>Trashing and restoring\<close>

definition mark :: "nat set \<Rightarrow> int \<Rightarrow> node \<Rightarrow> node" where
  "mark X t n = (if nid n \<in> X then n\<lparr>ndeleted := Some t\<rparr> else n)"

lemma mark_simps [simp]: "nid (mark X t n) = nid n" "nparent (mark X t n) = nparent n"
  "nname (mark X t n) = nname n" "live (mark X t n) \<longleftrightarrow> live n \<and> nid n \<notin> X"
  by (auto simp: mark_def live_def)

definition trashed_db :: "db \<Rightarrow> nat set \<Rightarrow> db" where
  "trashed_db d X = d\<lparr>file_nodes := map (mark X (datetime_now d)) (file_nodes d)\<rparr>"

lemma markSubtreeDeleted_eq:
  "ids \<noteq> [] \<Longrightarrow> markSubtreeDeleted ids d
     = (Inr (count_where (\<lambda>n. nid n \<in> set ids) (file_nodes d)), trashed_db d (set ids))"
  by (simp add: markSubtreeDeleted_def trashed_db_def update_where_def mark_def)

lemma trashed_db_simps [simp]:
  "node_ancestors (trashed_db d X) = node_ancestors d" "next_node (trashed_db d X) = next_node d"
  "clock (trashed_db d X) = clock d" "shape (trashed_db d X) = shape d"
  by (simp_all add: trashed_db_def shape_def comp_def)

lemma trashed_db_tree_ok: "tree_ok d \<Longrightarrow> tree_ok (trashed_db d (set ids))"
proof (cases "ids = []")
  case True
  have "mark {} t = id" for t by (simp add: mark_def fun_eq_iff)
  then show "tree_ok d \<Longrightarrow> ?thesis" using True by (simp add: trashed_db_def)
next
  case False
  then show "tree_ok d \<Longrightarrow> ?thesis" using trash_tree_ok [of d ids] by (simp add: markSubtreeDeleted_eq)
qed

lemma trashed_db_tree:
  "up (trashed_db d X) k c = up d k c" "parent_of (trashed_db d X) c = parent_of d c"
  "has_node (trashed_db d X) c = has_node d c" "desc_of (trashed_db d X) c = desc_of d c"
  using shape_up [of "trashed_db d X" d] shape_parent_of [of "trashed_db d X" d]
    shape_has_node [of "trashed_db d X" d]
  by (simp_all add: desc_of_def)

lemma trashed_db_row: "node_row (trashed_db d X) c = map_option (mark X (datetime_now d)) (node_row d c)"
  by (simp add: node_row_def trashed_db_def filter_map comp_def first_row_map)

lemma trashed_db_live: "live_id (trashed_db d X) c \<longleftrightarrow> live_id d c \<and> c \<notin> X"
proof (cases "node_row d c")
  case (Some n)
  then show ?thesis using node_row_in [OF Some] by (simp add: live_id_def trashed_db_row)
qed (simp add: live_id_def trashed_db_row)

text \<open>A node whose subtree and ancestors are all live, and its trashing.\<close>

definition all_live_around :: "db \<Rightarrow> nat \<Rightarrow> bool" where
  "all_live_around d i \<longleftrightarrow> has_node d i \<and> (\<forall>j. j \<in> desc_of d i \<or> i \<in> desc_of d j \<longrightarrow> live_id d j)"

lemma trashed_restore_set:
  assumes ok: "tree_ok d" and i: "all_live_around d i" and r: "restore_set (trashed_db d (desc_of d i)) i ids"
  shows "ids = desc_of d i"
proof
  show "ids \<subseteq> desc_of d i"
  proof
    fix j assume "j \<in> ids"
    then have j: "\<not> live_id (trashed_db d (desc_of d i)) j" "j \<in> desc_of d i \<or> i \<in> desc_of d j"
      using r unfolding restore_set_def trashed_db_tree by blast+
    then have "live_id d j" using i unfolding all_live_around_def by blast
    then show "j \<in> desc_of d i" using j(1) by (simp add: trashed_db_live)
  qed
  have "c \<in> ids" if "up d k c = Some i" for k c
    using that
  proof (induction k arbitrary: c)
    case 0
    then show ?case using r by (auto simp: restore_set_def split: if_splits)
  next
    case (Suc k)
    then obtain p where p: "parent_of d c = Some p" "up d k p = Some i" by (auto split: option.splits)
    have "p \<in> ids \<inter> desc_of (trashed_db d (desc_of d i)) i"
      using Suc.IH [OF p(2)] p(2) by (auto simp: trashed_db_tree desc_of_def)
    then have "live_id (trashed_db d (desc_of d i)) c \<or> c \<in> ids"
      using r p(1) unfolding restore_set_def trashed_db_tree by blast
    moreover have "c \<in> desc_of d i" using Suc.prems unfolding desc_of_def by blast
    ultimately show ?case by (simp add: trashed_db_live)
  qed
  then show "desc_of d i \<subseteq> ids" by (auto simp: desc_of_def)
qed

lemma trashed_names_free:
  assumes ok: "tree_ok d" and X: "\<And>j. j \<in> X \<Longrightarrow> live_id d j"
    and rows: "restorable (trashed_db d X) rows" "v_id ` set rows = X"
  shows "\<forall>r \<in> set rows. v_name r \<notin> v_name ` set (getChildren (trashed_db d X) (v_parentId r))"
    "distinct (map (\<lambda>r. (v_parentId r, v_name r)) rows)"
proof -
  note N = tree_okD(1) [OF ok]
  have node: "\<exists>n. n \<in> set (file_nodes d) \<and> live n \<and> nid n = v_id r \<and> nid n \<in> X \<and> nname n = v_name r \<and> nparent n = v_parentId r"
    if "r \<in> set rows" for r
  proof -
    have "v_id r \<in> X" using that rows(2) by blast
    then obtain n where n: "node_row d (v_id r) = Some n" "live n" using X by (auto simp: live_id_def)
    have "row_view (trashed_db d X) r" using rows(1) that by (simp add: restorable_def)
    then have "nname n = v_name r" "nparent n = v_parentId r"
      using n(1) by (auto simp: row_view_def trashed_db_row)
    then show ?thesis using n node_row_in [OF n(1)] \<open>v_id r \<in> X\<close> by metis
  qed
  have "v_name r \<notin> v_name ` set (getChildren (trashed_db d X) (v_parentId r))" if r: "r \<in> set rows" for r
  proof
    assume "v_name r \<in> v_name ` set (getChildren (trashed_db d X) (v_parentId r))"
    then obtain m where m: "m \<in> set (file_nodes d)" "nparent m = v_parentId r" "live m" "nid m \<notin> X" "nname m = v_name r"
      by (auto simp: getChildren_def trashed_db_def)
    obtain n where n: "n \<in> set (file_nodes d)" "live n" "nid n \<in> X" "nname n = v_name r" "nparent n = v_parentId r"
      using node [OF r] by blast
    have "n = m" by (rule live_uniqueD [OF nodes_okD(4) [OF N] n(1) m(1) n(2) m(3)]) (simp_all add: n m)
    then show False using n(3) m(4) by simp
  qed
  then show "\<forall>r \<in> set rows. v_name r \<notin> v_name ` set (getChildren (trashed_db d X) (v_parentId r))" by blast
  have "distinct rows" and di: "inj_on v_id (set rows)"
    using rows(1) by (simp_all add: restorable_def distinct_map)
  moreover have "inj_on (\<lambda>r. (v_parentId r, v_name r)) (set rows)"
  proof (rule inj_onI)
    fix r q assume rq: "r \<in> set rows" "q \<in> set rows" "(v_parentId r, v_name r) = (v_parentId q, v_name q)"
    obtain n where n: "n \<in> set (file_nodes d)" "live n" "nid n = v_id r" "nname n = v_name r" "nparent n = v_parentId r"
      using node [OF rq(1)] by blast
    obtain m where m: "m \<in> set (file_nodes d)" "live m" "nid m = v_id q" "nname m = v_name q" "nparent m = v_parentId q"
      using node [OF rq(2)] by blast
    have "n = m" by (rule live_uniqueD [OF nodes_okD(4) [OF N] n(1) m(1) n(2) m(2)]) (use n m rq(3) in simp_all)
    then show "r = q" using di rq n(3) m(3) by (simp add: inj_onD)
  qed
  ultimately show "distinct (map (\<lambda>r. (v_parentId r, v_name r)) rows)" by (simp add: distinct_map)
qed

lemma restored_trashed:
  assumes "\<And>n. n \<in> set (file_nodes d) \<Longrightarrow> nid n \<in> X \<Longrightarrow> live n" "set ids = X"
  shows "with_restored (trashed_db d X) [] ids = d"
proof -
  have "restored_node [] ids t (mark X u n) = n" if "n \<in> set (file_nodes d)" for n t u
  proof -
    have "nid n \<in> X \<Longrightarrow> ndeleted n = None" using assms(1) [OF that] by (simp add: live_def)
    then show ?thesis
      using assms(2) by (cases n) (auto simp: restored_node_def renamed_def mark_def)
  qed
  then have "map (restored_node [] ids t) (map (mark X u) (file_nodes d)) = file_nodes d" for t u
    by (simp add: map_idI)
  then show ?thesis by (simp add: with_restored_def trashed_db_def)
qed

lemma trash_restore:
  assumes site: "\<not> isWebdavMode site" and ok: "tree_ok (drive_db s)" and i: "all_live_around (drive_db s) i"
  shows "\<exists>r. restoreNode site u i True (with_db s (trashed_db (drive_db s) (desc_of (drive_db s) i))) = (Inr r, s) \<and>
    rr_node r = i \<and> set (rr_restored r) = desc_of (drive_db s) i"
proof -
  let ?d = "drive_db s" and ?X = "desc_of (drive_db s) i"
  let ?t = "with_db s (trashed_db ?d ?X)"
  note N = tree_okD(1) [OF ok]
  have X: "live_id ?d j" if "j \<in> ?X" for j using i that unfolding all_live_around_def by blast
  have ok': "tree_ok (drive_db ?t)"
    using trashed_db_tree_ok [OF ok, of "getDescendantIds ?d i"] descendants_closure [OF tree_okD(2) [OF ok]] by simp
  have iX: "i \<in> ?X" using i desc_of_self unfolding all_live_around_def by blast
  obtain n where n: "node_row ?d i = Some n" using X [OF iX] by (auto simp: live_id_def)
  then have "getNodeIncludingTrashed (drive_db ?t) i = Some (mapNodeRow (mark ?X (datetime_now ?d) n) None)"
    by (simp add: getNodeIncludingTrashed_def trashed_db_row)
  moreover have "v_deleted (mapNodeRow (mark ?X (datetime_now ?d) n) None) \<noteq> None"
    using iX node_row_in [OF n] by (simp add: mark_def)
  ultimately obtain rows p where R: "restorable (drive_db ?t) rows"
    "plan_rows site empty_plan rows (vault_of ?t) = (Inr p, vault_of ?t)" "restore_set (drive_db ?t) i (v_id ` set rows)"
    "restoreNode site u i True ?t = (Inr \<lparr>rr_node = i, rr_restored = map v_id rows,
            rr_path = getNodePath (with_restored (drive_db ?t) (p_renames p) (map v_id rows)) i\<rparr>,
       with_db ?t (with_restored (drive_db ?t) (p_renames p) (map v_id rows)))"
    using restore_run [OF site ok'] by blast
  have ids: "v_id ` set rows = ?X"
    using trashed_restore_set [OF ok i] R(3) by simp
  have vd: "vdb (vault_of ?t) = trashed_db ?d ?X" by (simp add: vault_of_def with_db_def)
  have "\<exists>q. plan_rows site empty_plan rows (vault_of ?t) = (Inr q, vault_of ?t) \<and> p_renames q = []"
    using trashed_names_free [OF ok X _ ids] R(1)
    by (intro plan_rows_keep [OF site]) (simp_all add: empty_plan_def vd)
  then have nr: "p_renames p = []" using R(2) by simp
  have "live m" if "m \<in> set (file_nodes ?d)" "nid m \<in> ?X" for m
    using X [OF that(2)] node_row_some [OF N that(1)] by (auto simp: live_id_def)
  then have "with_restored (trashed_db ?d ?X) [] (map v_id rows) = ?d"
    using ids by (intro restored_trashed) auto
  then show ?thesis using R(4) ids by (simp add: nr)
qed

section \<open>Copies\<close>

text \<open>Two nodes whose active rows share a key, as a copy leaves them.\<close>

definition shares_key :: "db \<Rightarrow> nat \<Rightarrow> nat \<Rightarrow> string \<Rightarrow> bool" where
  "shares_key d i j k \<longleftrightarrow> k \<noteq> [] \<and> (\<exists>r q. getActiveObject d i = Some r \<and> okey r = Some k \<and>
     getActiveObject d j = Some q \<and> okey q = Some k)"

lemma active_row: "getActiveObject d i = Some r \<Longrightarrow> r \<in> set (object_map d) \<and> onode r = i \<and> ostatus r = Obj_active"
  by (auto simp: getActiveObject_def dest!: first_row_in)

lemma active_purged:
  assumes "tree_ok d" "j \<notin> desc_of d i"
  shows "getActiveObject (purged d i) j = getActiveObject d j"
proof -
  have "filter (\<lambda>r. onode r = j \<and> ostatus r = Obj_active) (object_map (purged d i))
      = filter (\<lambda>r. onode r = j \<and> ostatus r = Obj_active) (object_map d)"
    unfolding purged_objs [OF assms(1)] filter_filter using assms(2) by (intro filter_cong) auto
  then show ?thesis by (simp add: getActiveObject_def)
qed

section \<open>Concrete drives\<close>

text \<open>The drive of user 8, an administrator, after \<open>/a/b/g\<close> was uploaded as node 5.\<close>

definition drive_of :: "mem vault \<Rightarrow> mem drive" where
  "drive_of v = \<lparr>dperm = demo_acl\<lparr>pdb := vdb v\<rparr>, dstore = vstore v, ddraws = draws v\<rparr>"

definition root_caller :: caller where
  "root_caller = \<lparr>who = User_id 8, hasUser = True, adminUser = True\<rparr>"

definition demo_drive :: "mem drive" where
  "demo_drive = drive_of uploaded"

lemma demo_drive_db [simp]: "drive_db demo_drive = vdb uploaded" "vault_of (drive_of v) = v"
  by (simp_all add: drive_db_def demo_drive_def drive_of_def vault_of_def)

lemma uploaded_tree: "tree_ok (vdb uploaded)"
  using uploaded_ok meta_okD(1) by blast

lemma mem_not_webdav: "\<not> isWebdavMode (mem_site c)"
  by (simp add: mem_site_def)

section \<open>Properties\<close>


lemma demo_trashed_target:
  "getNodeIncludingTrashed (drive_db (with_db demo_drive demo_trashed)) 3
     = Some (mapNodeRow \<lparr>nid = 3, nparent = Some 2, nname = ''f'', ntype = File, nsync = Pending_upload,
         ncreated = 0, nupdated = 0, ndeleted = Some 0\<rparr> None)"
proof -
  have "getNodeIncludingTrashed demo_trashed 3 = Some (mapNodeRow \<lparr>nid = 3, nparent = Some 2, nname = ''f'',
      ntype = File, nsync = Pending_upload, ncreated = 0, nupdated = 0, ndeleted = Some 0\<rparr> None)" by code_simp
  then show ?thesis by simp
qed



lemma uploaded_live: "\<forall>n \<in> set (file_nodes (vdb uploaded)). live n"
  by code_simp

lemma uploaded_live_id: "has_node (vdb uploaded) j \<Longrightarrow> live_id (vdb uploaded) j"
  using uploaded_live node_row_None node_row_in by (fastforce simp: live_id_def)


end
