(* ===== verification/CopyProps.thy ===== *)
theory CopyProps
  imports TrashProps
begin

text \<open>
  Copies in S3 mode and what a purge does to them: a copy refers to the blob of its source, a purge
  deletes blobs without looking for other references. Emptying the trash.
\<close>

section \<open>The rows of a copy\<close>

definition link_row :: "db \<Rightarrow> nat \<Rightarrow> string \<Rightarrow> nat option \<Rightarrow> obj" where
  "link_row d n k len = \<lparr>oid = next_obj d, onode = n, okey = Some k, osize = len, obackend = S3,
     overs = 1, ostatus = Obj_active, ocreated = datetime_now d\<rparr>"

definition linked :: "db \<Rightarrow> nat \<Rightarrow> string \<Rightarrow> nat option \<Rightarrow> db" where
  "linked d n k len = d\<lparr>object_map := object_map d @ [link_row d n k len], next_obj := Suc (next_obj d)\<rparr>"

lemma linkObject_eq:
  assumes "\<not> isWebdavMode site" "has_node (vdb v) n" "\<forall>r \<in> set (object_map (vdb v)). onode r \<noteq> n"
  shows "linkObject site n k len v = (Inr (), v\<lparr>vdb := linked (vdb v) n k len\<rparr>)"
  using assms by (simp add: linkObject_def service_simps seqs_def on_db_def insertObject_def insert_version_def
      linked_def link_row_def ret_def guard_def)

lemma linked_meta_ok:
  assumes "meta_ok d" "has_node d n" "\<forall>r \<in> set (object_map d). onode r \<noteq> n"
  shows "meta_ok (linked d n k len)"
proof -
  have "objs_ok (linked d n k len)"
    unfolding linked_def using assms
    by (intro objs_ok_snoc) (auto simp: link_row_def meta_ok_def)
  then show ?thesis
    using assms(1) by (intro meta_ok_with [OF assms(1)]) (simp_all add: linked_def meta_ok_def cache_ok_def)
qed

lemma linked_active:
  assumes "\<forall>r \<in> set (object_map d). onode r \<noteq> n"
  shows "getActiveObject (linked d n k len) n = Some (link_row d n k len)"
    "j \<noteq> n \<Longrightarrow> getActiveObject (linked d n k len) j = getActiveObject d j"
proof -
  have none: "filter (\<lambda>r. onode r = n \<and> ostatus r = Obj_active) (object_map d) = []"
    using assms by (simp add: filter_empty_conv)
  then show "getActiveObject (linked d n k len) n = Some (link_row d n k len)"
    unfolding getActiveObject_def linked_def filter_append by (simp add: link_row_def)
  show "j \<noteq> n \<Longrightarrow> getActiveObject (linked d n k len) j = getActiveObject d j"
    by (simp add: getActiveObject_def linked_def link_row_def)
qed

lemma getActive_cong: "object_map d = object_map d' \<Longrightarrow> getActiveObject d j = getActiveObject d' j"
  by (simp add: getActiveObject_def)

lemma resolve_cong: "file_nodes d = file_nodes d' \<Longrightarrow> resolvePathSegment d p nm = resolvePathSegment d' p nm"
  by (simp add: resolvePathSegment_def)

definition copied :: "db \<Rightarrow> nat \<Rightarrow> nat option \<Rightarrow> string \<Rightarrow> string \<Rightarrow> nat \<Rightarrow> db \<Rightarrow> bool" where
  "copied d i dest nm k n d' \<longleftrightarrow> meta_ok d' \<and> shares_key d' i n k \<and> \<not> has_node d n \<and>
     resolvePathSegment d' dest nm = Some n \<and>
     (\<forall>j. has_node d j \<longrightarrow> getActiveObject d' j = getActiveObject d j \<and> getCache d' j = getCache d j) \<and>
     map_option csize (getCache d' n) = map_option csize (getCache d i)"

lemma with_db_vault [simp]:
  "vault_of (with_db s d) = (vault_of s)\<lparr>vdb := d\<rparr>"
  by (simp add: vault_of_def with_db_def)

lemma on_vault_db:
  "m (vault_of s) = (r, (vault_of s)\<lparr>vdb := d\<rparr>) \<Longrightarrow> on_vault m s = (r, with_db s d)"
  by (cases s) (simp add: on_vault_def vault_of_def with_db_def)

lemma on_vault_same: "m (vault_of s) = (r, vault_of s) \<Longrightarrow> on_vault m s = (r, s)"
  by (cases s) (simp add: on_vault_def vault_of_def)

lemma on_drive_db_eq: "on_drive_db m s = (case m (drive_db s) of (r, d) \<Rightarrow> (r, with_db s d))"
  by (simp add: on_drive_db_def drive_db_def with_db_def)

lemma reads_db_eq: "seqs (reads_db f) g s = g (f (drive_db s)) s"
  by (simp add: reads_db_def service_simps drive_db_def)

lemma copy_s3_cases:
  assumes site: "\<not> isWebdavMode site" and ok: "meta_ok (drive_db s)"
    and act: "getActiveObject (drive_db s) i = Some r" "okey r = Some k" "k \<noteq> []"
    and one: "countActiveObjectsByS3Key (drive_db s) k = 1"
  shows "copy_s3 site i dest nm s = (Inl db_failed, s) \<or>
    (\<exists>n d'. copy_s3 site i dest nm s = (Inr n, with_db s d') \<and> copied (drive_db s) i dest nm k n d')"
proof -
  let ?d = "drive_db s" and ?n = "next_node (drive_db s)" and ?c = "getCache (drive_db s) i"
  have vd: "vdb (vault_of s) = ?d" by (simp add: vault_of_def drive_db_def)
  have key: "copy_key site i s = (Inr k, s)"
  proof -
    have "on_vault (getActiveS3Key site i) s = (Inr (Some k), s)"
      using site act vd by (intro on_vault_same) (simp add: getActiveS3Key_def reads_def)
    moreover have "on_vault (countActiveByKey site k) s = (Inr 1, s)"
      using site one vd by (intro on_vault_same) (simp add: countActiveByKey_def reads_def)
    ultimately show ?thesis by (simp add: copy_key_def seqs_def ret_def key_text_def)
  qed
  show ?thesis
  proof (rule createFile_cases [OF meta_okD(1) [OF ok], of dest nm])
    assume "createFile dest nm ?d = (Inl db_failed, ?d)"
    then show ?thesis
      using key by (simp add: copy_s3_def seqs_Inr [where m = "copy_key site i", OF key] reads_db_eq) (simp add: seqs_def on_drive_db_eq)
  next
    fix row assume row: "nid row = ?n" "nparent row = dest" "parent_exists ?d dest"
      "createFile dest nm ?d = (Inr (mapNodeRow row None), added ?d row)" "tree_ok (added ?d row)"
      "resolvePathSegment (added ?d row) dest nm = Some ?n"
    let ?d1 = "added ?d row"
    let ?d2 = "linked ?d1 ?n k (map_option csize ?c)"
    let ?d3 = "sync_set ?d2 ?n Active"
    have fresh: "\<not> has_node ?d ?n" by (rule fresh_node [OF tree_okD(1) [OF meta_okD(1) [OF ok]]])
    have om: "object_map ?d1 = object_map ?d" "filecache ?d1 = filecache ?d" by (simp_all add: added_def)
    have on: "\<forall>q \<in> set (object_map ?d1). onode q \<noteq> ?n"
      using objs_okD(4) [OF meta_okD(2) [OF ok]] fresh om by metis
    have has: "has_node ?d1 ?n" by (simp add: has_node_added row(1))
    have m1: "meta_ok ?d1" by (rule meta_ok_added [OF ok row(5)])
    have m3: "meta_ok ?d3" by (intro meta_ok_sync linked_meta_ok m1 has on)
    have h3: "has_node ?d3 ?n" using has by (simp add: linked_def)
    have fc3: "filecache ?d3 = filecache ?d" using om by (simp add: linked_def)
    have "ostatus r = Obj_active" "i \<noteq> ?n"
      using active_row [OF act(1)] on om by auto
    have act3: "getActiveObject ?d3 j = getActiveObject ?d j" if "j \<noteq> ?n" for j
      using linked_active(2) [OF on that] getActive_cong [of ?d3 ?d2 j] getActive_cong [of ?d1 ?d j] om by simp
    have new3: "getActiveObject ?d3 ?n = Some (link_row ?d1 ?n k (map_option csize ?c))"
      using linked_active(1) [OF on] getActive_cong [of ?d3 ?d2 ?n] by simp
    have res3: "resolvePathSegment ?d3 dest nm = Some ?n"
      using row(6) resolve_cong [of ?d2 ?d1] unfolding resolve_sync by (simp add: linked_def)
    have lnk: "on_vault (linkObject site ?n k (map_option csize ?c)) (with_db s ?d1) = (Inr (), with_db s ?d2)"
      using on_vault_db [of "linkObject site ?n k (map_option csize ?c)" "with_db s ?d1" "Inr ()" ?d2]
        linkObject_eq [OF site, of "(vault_of s)\<lparr>vdb := ?d1\<rparr>" ?n k "map_option csize ?c"] has on by simp
    have run: "copy_s3 site i dest nm s = seqs (case ?c of None \<Rightarrow> ret ()
        | Some c \<Rightarrow> seqs (on_drive_db (upsertCache ?n (csize c) (cmime c) (chash c))) (\<lambda>_. ret ())) (\<lambda>_. ret ?n)
        (with_db s ?d3)"
      using row(1,4) lnk
      by (simp add: copy_s3_def seqs_Inr [where m = "copy_key site i", OF key] reads_db_eq)
        (cases ?c, simp_all add: seqs_def on_drive_db_eq updateSyncStatus_eq)
    have shares: "shares_key d' i ?n k" if "object_map d' = object_map ?d3" for d'
      using act act3 [OF \<open>i \<noteq> ?n\<close>] new3 getActive_cong [OF that]
      unfolding shares_key_def by (auto simp: link_row_def)
    show ?thesis
    proof (cases ?c)
      case None
      have "getCache ?d3 j = getCache ?d j" for j by (rule getCache_cong [OF fc3])
      moreover have "getCache ?d ?n = None"
      proof -
        have "filter (\<lambda>c. cnode c = ?n) (filecache ?d) = []"
          using meta_okD(3) [OF ok] fresh by (auto simp: cache_ok_def filter_empty_conv)
        then show ?thesis by (simp add: getCache_def)
      qed
      ultimately have "copied ?d i dest nm k ?n ?d3"
        using m3 shares [OF refl] fresh res3 act3 None unfolding copied_def by metis
      moreover have "copy_s3 site i dest nm s = (Inr ?n, with_db s ?d3)"
        using run None by (simp add: service_simps) (simp add: ret_def)
      ultimately show ?thesis by blast
    next
      case (Some c)
      obtain m fc where u: "upsertCache ?n (csize c) (cmime c) (chash c) ?d3 = (Inr m, ?d3\<lparr>filecache := fc\<rparr>)"
        "cache_ok ?d3 \<longrightarrow> cache_ok (?d3\<lparr>filecache := fc\<rparr>)"
        "\<forall>j. j \<noteq> ?n \<longrightarrow> getCache (?d3\<lparr>filecache := fc\<rparr>) j = getCache ?d3 j"
        "\<exists>x. getCache (?d3\<lparr>filecache := fc\<rparr>) ?n = Some x \<and> csize x = csize c"
        using upsertCache_ok [OF h3, of "csize c" "cmime c" "chash c"] by fastforce
      let ?d4 = "?d3\<lparr>filecache := fc\<rparr>"
      have "objs_ok ?d4" using meta_okD(2) [OF m3] by (simp add: objs_ok_def)
      then have "meta_ok ?d4"
        using u(2) meta_okD(3) [OF m3] by (intro meta_ok_with [OF m3]) simp_all
      moreover have "shares_key ?d4 i ?n k" by (rule shares) simp
      moreover have "resolvePathSegment ?d4 dest nm = Some ?n" using res3 by (simp add: resolvePathSegment_def)
      moreover have "getActiveObject ?d4 j = getActiveObject ?d j \<and> getCache ?d4 j = getCache ?d j" if "has_node ?d j" for j
      proof -
        have "j \<noteq> ?n" using that fresh by blast
        then show ?thesis
          using act3 getActive_cong [of ?d4 ?d3 j] u(3) getCache_cong [OF fc3] by simp
      qed
      ultimately have "copied ?d i dest nm k ?n ?d4" using u(4) fresh Some unfolding copied_def by auto
      moreover have "copy_s3 site i dest nm s = (Inr ?n, with_db s ?d4)"
        using run Some u(1) by (simp add: seqs_def on_drive_db_eq ret_def)
      ultimately show ?thesis by blast
    qed
  qed
qed

section \<open>Emptying the trash\<close>

definition all_above_live :: "db \<Rightarrow> nat \<Rightarrow> bool" where
  "all_above_live d j \<longleftrightarrow> (\<forall>k a. up d k j = Some a \<longrightarrow> live_id d a)"

lemma kept_iff:
  assumes ok: "tree_ok d"
  shows "(\<forall>i \<in> v_id ` set (getTopmostTrashedNodes d None). j \<notin> desc_of d i) \<longleftrightarrow> all_above_live d j"
proof
  show "\<forall>i \<in> v_id ` set (getTopmostTrashedNodes d None). j \<notin> desc_of d i \<Longrightarrow> all_above_live d j"
    unfolding all_above_live_def using topmost_above [OF ok] by blast
next
  assume L: "all_above_live d j"
  have "\<not> live_id d i" if "i \<in> v_id ` set (getTopmostTrashedNodes d None)" for i
  proof -
    from that [unfolded topmost_ids] obtain n where
      n: "n \<in> set (file_nodes d)" "topmost_trashed d n" "nid n = i" by blast
    then show ?thesis
      using node_row_some [OF tree_okD(1) [OF ok] n(1)] by (auto simp: live_id_def topmost_trashed_def)
  qed
  then show "\<forall>i \<in> v_id ` set (getTopmostTrashedNodes d None). j \<notin> desc_of d i"
    using L unfolding all_above_live_def desc_of_def by blast
qed

section \<open>Properties\<close>

text \<open>
  A copy in S3 mode of a file whose blob no other active version uses either fails with the
  database error and changes nothing, or adds one node that resolves under the new name, has the size
  of the source, and whose active version refers to the very key of the source. The blob store is not
  touched, no other node's active version or cache row changes, and the tables stay well formed.
\<close>

theorem copy_shares_blob:
  assumes "\<not> isWebdavMode site" "meta_ok (drive_db s)" "is_admin_caller c"
    and "getNode (drive_db s) i = Some node" "getActiveObject (drive_db s) i = Some r" "okey r = Some k" "k \<noteq> []"
    and "countActiveObjectsByS3Key (drive_db s) k = 1"
  shows "fs_copyFile site c i dest None s = (Inl db_failed, s) \<or>
    (\<exists>n d'. fs_copyFile site c i dest None s = (Inr n, with_db s d') \<and>
       copied (drive_db s) i dest (v_name node) k n d')"
proof -
  have "fs_copyFile site c i dest None s = copy_s3 site i dest (v_name node) s"
    using assms(1,3,4) by (simp add: fs_copyFile_def need_node_def need_folder_def service_simps reads_db_eq)
  then show ?thesis using copy_s3_cases [OF assms(1,2,5-8)] by simp
qed

definition copied_drive :: "mem drive" where
  "copied_drive = snd (fs_copyFile (mem_site mem_client) root_caller 5 (Some 4) None demo_drive)"

lemma uploaded_node: "\<exists>node. getNode (vdb uploaded) 5 = Some node \<and> v_name node = ''g''"
proof -
  have "map_option v_name (getNode (vdb uploaded) 5) = Some ''g''" by code_simp
  then show ?thesis by (cases "getNode (vdb uploaded) 5") auto
qed

lemma uploaded_count: "countActiveObjectsByS3Key (vdb uploaded) ''k'' = 1"
  by (simp add: countActiveObjectsByS3Key_def uploaded_eval)

theorem copy_shares_blob_witness:
  "\<exists>d'. copied_drive = with_db demo_drive d' \<and> copied (vdb uploaded) 5 (Some 4) ''g'' ''k'' 6 d'"
proof -
  obtain node where n: "getNode (drive_db demo_drive) 5 = Some node" "v_name node = ''g''"
    using uploaded_node by auto
  have m: "meta_ok (drive_db demo_drive)" using uploaded_ok by simp
  have a: "getActiveObject (drive_db demo_drive) 5 = Some (hd (object_map (vdb uploaded)))"
    using uploaded_facts(2) by simp
  have c: "countActiveObjectsByS3Key (drive_db demo_drive) ''k'' = 1" using uploaded_count by simp
  have adm: "is_admin_caller root_caller" by (simp add: is_admin_caller_def root_caller_def)
  have "fst (fs_copyFile (mem_site mem_client) root_caller 5 (Some 4) None demo_drive) = Inr 6" by code_simp
  then show ?thesis
    using copy_shares_blob [OF mem_not_webdav m adm n(1) a uploaded_facts(5) _ c, of mem_client "Some 4"] n(2)
    by (auto simp: copied_drive_def)
qed



text \<open>
  C40: A purge destroys the content of copies. When a node of the purged subtree and a node outside it
  share a key, as a copy leaves them, a purge that records no error leaves the other node and its
  active version in place and its content gone: every download of it fails.
\<close>

theorem purge_destroys_copy:
  assumes "s3_site site content" "tree_ok (vdb v)" "has_node (vdb v) i"
    and "shares_key (vdb v) x j k" "x \<in> desc_of (vdb v) i" "j \<notin> desc_of (vdb v) i"
    and "purgeNode site i v = (Inr r, w)" "pr_errors r = []"
  shows "getActiveObject (vdb w) j = getActiveObject (vdb v) j \<and> getActiveObject (vdb w) j \<noteq> None \<and>
    content (vstore w) k = None \<and> isl (fst (downloadNode site j w))"
proof -
  let ?ks = "real_keys (getObjectMapBySubtree (vdb v) i)"
  have ks: "set ?ks = subtree_keys (vdb v) i"
    unfolding set_real_keys subtree_keys_def set_subtree_objects [OF tree_okD(2) [OF assms(2)]] by blast
  obtain fs t where r: "w = v\<lparr>vdb := purged (vdb v) i, vstore := t\<rparr>"
    "pr_errors r = failures ''Failed to delete S3 blob '' fs" "swept_keys content ?ks (vstore v) fs t"
    using purgeNode_ok [OF assms(1-3)] assms(7) by auto
  have "fs = []" using r(2) assms(8) failures_simps(3) by (metis length_0_conv)
  obtain a b where ab: "getActiveObject (vdb v) x = Some a" "okey a = Some k" "k \<noteq> []"
    "getActiveObject (vdb v) j = Some b" "okey b = Some k"
    using assms(4) by (auto simp: shares_key_def)
  have "k \<in> subtree_keys (vdb v) i"
    using active_row [OF ab(1)] ab(2,3) assms(5) by (auto simp: subtree_keys_def)
  then have gone: "content (vstore w) k = None"
    using r(1,3) ks \<open>fs = []\<close> unfolding swept_keys_def by simp
  have act: "getActiveObject (vdb w) j = Some b"
    using active_purged [OF assms(2,6)] ab(4) r(1) by simp
  obtain y u where y: "downloadBlob (blobs site) k (vstore w) = (y, u)" by fastforce
  then have "isl y"
    using download_blob_cases [OF assms(1), where k = k and s = "vstore w"] gone
    by (auto split: sum.splits)
  then have "isl (fst (downloadNode site j w))"
    using act ab(3,5) assms(1) y by (simp add: downloadNode_def service_simps s3_site_def on_store_def)
  then show ?thesis using act ab(4) gone by simp
qed

lemma copied_drive_facts:
  "tree_ok (drive_db copied_drive)" "shares_key (drive_db copied_drive) 5 6 ''k''"
proof -
  obtain node where n: "getNode (drive_db demo_drive) 5 = Some node" "v_name node = ''g''"
    using uploaded_node by auto
  have m: "meta_ok (drive_db demo_drive)" using uploaded_ok by simp
  have a: "getActiveObject (drive_db demo_drive) 5 = Some (hd (object_map (vdb uploaded)))"
    using uploaded_facts(2) by simp
  have c: "countActiveObjectsByS3Key (drive_db demo_drive) ''k'' = 1" using uploaded_count by simp
  have "fs_copyFile (mem_site mem_client) root_caller 5 (Some 4) None demo_drive
      = copy_s3 (mem_site mem_client) 5 (Some 4) (v_name node) demo_drive"
    using n(1) by (simp add: fs_copyFile_def need_node_def need_folder_def service_simps reads_db_eq
        is_admin_caller_def root_caller_def mem_not_webdav)
  moreover have "fst (fs_copyFile (mem_site mem_client) root_caller 5 (Some 4) None demo_drive) = Inr 6" by code_simp
  ultimately obtain d' where d': "copied_drive = with_db demo_drive d'"
    "copied (drive_db demo_drive) 5 (Some 4) ''g'' ''k'' 6 d'"
    using copy_s3_cases [OF mem_not_webdav m a uploaded_facts(5) _ c, of mem_client "Some 4" "''g''"] n(2)
    by (auto simp: copied_drive_def)
  have "drive_db copied_drive = d'" unfolding d'(1) by simp
  then show "tree_ok (drive_db copied_drive)" "shares_key (drive_db copied_drive) 5 6 ''k''"
    using meta_okD(1) d'(2) by (auto simp: copied_def)
qed

theorem purge_destroys_copy_witness:
  "getActiveObject (vdb (snd (purgeNode (mem_site mem_client) 5 (vault_of copied_drive)))) 6 \<noteq> None \<and>
   isl (fst (downloadNode (mem_site mem_client) 6 (snd (purgeNode (mem_site mem_client) 5 (vault_of copied_drive)))))"
proof -
  let ?v = "vault_of copied_drive"
  have vd: "vdb ?v = drive_db copied_drive" by (simp add: vault_of_def drive_db_def)
  have h: "has_node (vdb ?v) 5" by code_simp
  have "set (getDescendantIds (vdb ?v) 5) = {5}" by code_simp
  then have d: "5 \<in> desc_of (vdb ?v) 5" "6 \<notin> desc_of (vdb ?v) 5"
    using descendants_closure [OF tree_okD(2)] copied_drive_facts(1) vd by auto
  have "fst (purgeNode (mem_site mem_client) 5 ?v) = Inr \<lparr>pr_nodes = 1, pr_blobs = 1, pr_errors = []\<rparr>" by code_simp
  then have "purgeNode (mem_site mem_client) 5 ?v
      = (Inr \<lparr>pr_nodes = 1, pr_blobs = 1, pr_errors = []\<rparr>, snd (purgeNode (mem_site mem_client) 5 ?v))"
    by (simp add: prod_eq_iff)
  moreover have "pr_errors \<lparr>pr_nodes = 1, pr_blobs = 1, pr_errors = []\<rparr> = []" by simp
  ultimately show ?thesis
    using purge_destroys_copy [OF mem_site_ok(1) _ h _ d, unfolded vd, OF copied_drive_facts] by blast
qed

text \<open>
  Emptying the trash in S3 mode leaves no trashed node: it always returns, the nodes that stay are
  exactly those with no trashed node on their way to the root, themselves included, their rows
  unchanged, their version rows kept, and no object of the store changes whose key belongs to no
  purged node.
\<close>

theorem empty_trash_complete:
  assumes "s3_site site content" "tree_ok (vdb v)"
  shows "\<exists>r d' t. emptyTrash site v = (Inr r, v\<lparr>vdb := d', vstore := t\<rparr>) \<and> tree_ok d' \<and>
    (\<forall>j. has_node d' j \<longleftrightarrow> has_node (vdb v) j \<and> all_above_live (vdb v) j) \<and>
    (\<forall>j. has_node d' j \<longrightarrow> node_row d' j = node_row (vdb v) j) \<and> (\<forall>n \<in> set (file_nodes d'). live n) \<and>
    object_map d' = filter (\<lambda>r. all_above_live (vdb v) (onode r)) (object_map (vdb v)) \<and>
    (\<forall>k. (\<forall>r \<in> set (object_map (vdb v)). okey r = Some k \<longrightarrow> all_above_live (vdb v) (onode r)) \<longrightarrow>
       content t k = content (vstore v) k)"
proof -
  let ?d = "vdb v" and ?ids = "map v_id (getTopmostTrashedNodes (vdb v) None)"
  have kept: "(\<forall>i \<in> set ?ids. j \<notin> desc_of ?d i) \<longleftrightarrow> all_above_live ?d j" for j
    using kept_iff [OF assms(2), of j] by simp
  obtain r d' t where r: "purge_each site ?ids \<lparr>pr_nodes = 0, pr_blobs = 0, pr_errors = []\<rparr> v
      = (Inr r, v\<lparr>vdb := d', vstore := t\<rparr>)" "purged_all ?d ?ids d'"
    "\<forall>k. k \<notin> subtrees_keys ?d ?ids \<longrightarrow> content t k = content (vstore v) k"
    using purge_each_ok [OF assms] by blast
  have run: "emptyTrash site v = (Inr r, v\<lparr>vdb := d', vstore := t\<rparr>)"
    using r(1) by (simp add: emptyTrash_def service_simps)
  have P: "tree_ok d'" "\<And>j. has_node d' j \<longleftrightarrow> has_node ?d j \<and> all_above_live ?d j"
    "\<And>j. has_node d' j \<Longrightarrow> node_row d' j = node_row ?d j"
    "object_map d' = filter (\<lambda>r. all_above_live ?d (onode r)) (object_map ?d)"
    using r(2) unfolding purged_all_def kept by auto
  have "live n" if n: "n \<in> set (file_nodes d')" for n
  proof -
    have h: "has_node d' (nid n)" using n by (auto simp: has_node_def)
    then have "up ?d 0 (nid n) = Some (nid n)" "all_above_live ?d (nid n)" using P(2) by auto
    then have "live_id ?d (nid n)" unfolding all_above_live_def by blast
    moreover have "node_row ?d (nid n) = Some n"
      using P(3) [OF h] node_row_some [OF tree_okD(1) [OF P(1)] n] by simp
    ultimately show ?thesis by (simp add: live_id_def)
  qed
  moreover have "content t k = content (vstore v) k"
    if k: "\<forall>r \<in> set (object_map ?d). okey r = Some k \<longrightarrow> all_above_live ?d (onode r)" for k
  proof -
    have "k \<notin> subtrees_keys ?d ?ids"
    proof
      assume "k \<in> subtrees_keys ?d ?ids"
      then obtain i q where q: "i \<in> set ?ids" "q \<in> set (object_map ?d)" "onode q \<in> desc_of ?d i" "okey q = Some k"
        by (auto simp: subtrees_keys_def subtree_keys_def)
      then have "all_above_live ?d (onode q)" using k by blast
      then have "onode q \<notin> desc_of ?d i" using q(1) kept [of "onode q"] by blast
      then show False using q(3) by blast
    qed
    then show ?thesis using r(3) by blast
  qed
  ultimately show ?thesis using run P by (intro exI [of _ r] exI [of _ d'] exI [of _ t] conjI) auto
qed

theorem empty_trash_complete_witness:
  "\<exists>r d' t. emptyTrash (mem_site mem_client) (uploaded\<lparr>vdb := demo_trashed\<rparr>)
     = (Inr r, uploaded\<lparr>vdb := d', vstore := t\<rparr>) \<and> list_all live (file_nodes d')"
  using empty_trash_complete [OF mem_site_ok(1), of "uploaded\<lparr>vdb := demo_trashed\<rparr>"] demo_trashed_ok
  by (auto simp: list_all_iff)

end
