(* ===== verification/GcProps.thy ===== *)
theory GcProps
  imports CopyProps
begin

text \<open>
  The properties of the garbage collector in S3 mode: which rows and which objects its first two tiers
  remove, and that the first one removes objects that an active version of another file still uses.
\<close>

section \<open>Listing\<close>

text \<open>Documented behaviour of the client: a listing request changes no object.\<close>

definition list_law :: "'c s3_client \<Rightarrow> ('c \<Rightarrow> string \<Rightarrow> buffer option) \<Rightarrow> bool" where
  "list_law client content \<longleftrightarrow> (\<forall>tok s. content (snd (send_list client tok s)) = content s)"

definition s3_lister :: "'c site \<Rightarrow> ('c \<Rightarrow> string \<Rightarrow> buffer option) \<Rightarrow> bool" where
  "s3_lister site content \<longleftrightarrow> (\<exists>client. blobs site = s3_store client \<and> list_law client content)"

lemma list_pages_content:
  "list_pages client olderThan token keys s = Some out \<Longrightarrow> list_law client content \<Longrightarrow> content (snd out) = content s"
proof (induction rule: list_pages.raw_induct [rotated, consumes 1])
  case (1 f client olderThan token keys s out)
  have l: "content (snd (send_list client token s)) = content s" using 1(3) by (simp add: list_law_def)
  show ?case
  proof (cases "send_list client token s")
    case (Pair x t)
    show ?thesis
    proof (cases x)
      case (Inl e)
      then show ?thesis using 1(2) Pair l by auto
    next
      case (Inr y)
      obtain items tok where y: "y = (items, tok)" by (cases y)
      show ?thesis
      proof (cases "tok = None \<or> tok = Some []")
        case True
        then show ?thesis using 1(2) Pair Inr y l by (auto simp: Let_def)
      next
        case False
        then have "f client olderThan tok (keys @ map fst (filter (\<lambda>(k, m). m < olderThan) items)) t = Some out"
          using 1(2) Pair Inr y by (simp add: Let_def split: if_splits)
        from 1(1) [OF this 1(3)] show ?thesis using Pair l by simp
      qed
    qed
  qed
qed

lemma listing_content:
  assumes "s3_lister site content"
  shows "content (snd (listOrphanedKeys (blobs site) olderThan s)) = content s"
proof -
  obtain client where c: "blobs site = s3_store client" "list_law client content"
    using assms by (auto simp: s3_lister_def)
  show ?thesis
    using list_pages_content [OF _ c(2)]
    by (auto simp: c(1) s3_store_def s3_listOrphanedKeys_def split: option.splits)
qed

section \<open>Tier 1\<close>

definition own_rows :: "'c site \<Rightarrow> obj list \<Rightarrow> obj list" where
  "own_rows site rows = filter (\<lambda>r. obackend r = mode_backend site) rows"

lemma deleteBlobsForRows_own:
  "deleteBlobsForRows site (own_rows site rows) res v = deleteBlobsForRows site rows res v"
proof (induction rows arbitrary: res v)
  case (Cons r rows)
  then show ?case by (auto simp: own_rows_def seqs_def split: option.splits prod.splits sum.splits)
qed (simp add: own_rows_def)

lemma deleteBlobsForRows_ok:
  assumes site: "s3_site site content"
  shows "\<exists>res' fs t. deleteBlobsForRows site rows res v = (Inr res', v\<lparr>vstore := t\<rparr>) \<and>
    t1_errors res' = t1_errors res @ failures ''Failed to delete blob '' fs \<and>
    t1_orphaned res' = t1_orphaned res \<and> t1_guarded res' = t1_guarded res \<and>
    swept_keys content (real_keys (own_rows site rows)) (vstore v) fs t"
proof -
  obtain fs t where f: "sweep site (real_keys (own_rows site rows)) v = (Inr fs, v\<lparr>vstore := t\<rparr>)"
    "swept_keys content (real_keys (own_rows site rows)) (vstore v) fs t"
    using sweep_ok [OF site] by blast
  have "\<forall>r \<in> set (own_rows site rows). obackend r = mode_backend site" by (simp add: own_rows_def)
  from deleteBlobsForRows_sweep [OF this f(1), of res] f(2) show ?thesis
    unfolding deleteBlobsForRows_own by fastforce
qed

definition without_rows :: "obj set \<Rightarrow> db \<Rightarrow> db" where
  "without_rows gone d = d\<lparr>object_map := filter (\<lambda>r. r \<notin> gone) (object_map d)\<rparr>"

lemma deleteRows_gone:
  assumes "objs_ok d" "set rows \<subseteq> set (object_map d)"
  shows "\<exists>n. deleteObjectMapRows (map oid rows) d = (Inr n, without_rows (set rows) d)"
proof -
  obtain n where n: "deleteObjectMapRows (map oid rows) d
      = (Inr n, d\<lparr>object_map := delete_where (\<lambda>r. oid r \<in> set (map oid rows)) (object_map d)\<rparr>)"
    using deleteObjectMapRows_eq by blast
  have "oid r \<in> oid ` set rows \<longleftrightarrow> r \<in> set rows" if "r \<in> set (object_map d)" for r
  proof
    assume "oid r \<in> oid ` set rows"
    then obtain q where q: "q \<in> set rows" "oid q = oid r" by auto
    then have "q = r" using distinct_map_unique [OF objs_okD(1) [OF assms(1)]] assms(2) that by blast
    then show "r \<in> set rows" using q(1) by simp
  qed simp
  then have "delete_where (\<lambda>r. oid r \<in> set (map oid rows)) (object_map d) = filter (\<lambda>r. r \<notin> set rows) (object_map d)"
    unfolding delete_where_def by (intro filter_cong) auto
  then show ?thesis using n by (simp add: without_rows_def)
qed

lemma set_deletable: "set (deletable_rows cutoff xs) \<subseteq> fst ` set xs"
  by (auto simp: deletable_rows_def)

lemma orphaned_rows:
  "x \<in> set (getOrphanedObjectsWithNodeState d days) \<Longrightarrow> fst x \<in> set (object_map d) \<and>
     ostatus (fst x) = Obj_orphaned \<and> ocreated (fst x) < clock d - int days * ms_per_day"
  by (auto simp: getOrphanedObjectsWithNodeState_def)

lemma stale_rows:
  "r \<in> set (getStalePendingObjects d days) \<Longrightarrow> r \<in> set (object_map d) \<and>
     ostatus r = Obj_pending \<and> ocreated r < clock d - int days * ms_per_day"
  by (auto simp: getStalePendingObjects_def)

text \<open>
  The rows tier 1 removes. An orphaned row that is old enough goes when its node is gone, or when it is
  older than the version retention and is not the content of a file whose first upload is under way. A
  pending row goes when its node waits for an upload and the pending period, if not 0, is over.
\<close>

definition version_cutoff :: "gc_config \<Rightarrow> int option \<Rightarrow> db \<Rightarrow> int" where
  "version_cutoff cfg ex d = toDateCutoff d (case ex of
      Some x \<Rightarrow> if x > 0 then nat x else resolveVersionTtlDays cfg | None \<Rightarrow> resolveVersionTtlDays cfg)"

definition older_than_days :: "db \<Rightarrow> nat \<Rightarrow> obj \<Rightarrow> bool" where
  "older_than_days d days r \<longleftrightarrow> ocreated r < clock d - int days * ms_per_day"

definition first_upload :: "db \<Rightarrow> obj \<Rightarrow> bool" where
  "first_upload d r \<longleftrightarrow> map_option nsync (node_row d (onode r)) = Some Pending_upload \<and>
     (\<forall>a \<in> set (object_map d). onode a = onode r \<longrightarrow> ostatus a \<noteq> Obj_active)"

definition orphan_due :: "gc_config \<Rightarrow> nat \<Rightarrow> int option \<Rightarrow> db \<Rightarrow> obj \<Rightarrow> bool" where
  "orphan_due cfg days ex d r \<longleftrightarrow> ostatus r = Obj_orphaned \<and> older_than_days d days r \<and>
     (node_row d (onode r) = None \<or> \<not> first_upload d r \<and> ocreated r < version_cutoff cfg ex d)"

definition pending_due :: "gc_config \<Rightarrow> db \<Rightarrow> obj \<Rightarrow> bool" where
  "pending_due cfg d r \<longleftrightarrow> ostatus r = Obj_pending \<and> resolvePendingStaleDays cfg > 0 \<and>
     older_than_days d (resolvePendingStaleDays cfg) r \<and>
     (\<exists>n \<in> set (file_nodes d). nid n = onode r \<and> nsync n = Pending_upload)"

definition collectable :: "gc_config \<Rightarrow> nat \<Rightarrow> int option \<Rightarrow> db \<Rightarrow> obj \<Rightarrow> bool" where
  "collectable cfg days ex d r \<longleftrightarrow> orphan_due cfg days ex d r \<or> pending_due cfg d r"

lemma set_deletable_rows:
  "set (deletable_rows (version_cutoff cfg ex d) (getOrphanedObjectsWithNodeState d days))
    = {r \<in> set (object_map d). orphan_due cfg days ex d r}"
  unfolding deletable_rows_def getOrphanedObjectsWithNodeState_def
  by (auto simp: classify_def orphan_due_def first_upload_def older_than_days_def image_iff split: if_splits)

lemma set_stale_pending:
  "resolvePendingStaleDays cfg > 0 \<Longrightarrow>
   set (getStalePendingObjects d (resolvePendingStaleDays cfg)) = {r \<in> set (object_map d). pending_due cfg d r}"
  by (auto simp: getStalePendingObjects_def pending_due_def older_than_days_def)

text \<open>One round: delete the blobs of the rows, then the rows.\<close>

lemma blob_round:
  assumes site: "s3_site site content" and ok: "objs_ok (vdb v)" and rows: "set rows \<subseteq> set (object_map (vdb v))"
  shows "\<exists>res' n t fs. deleteBlobsForRows site rows res v = (Inr res', v\<lparr>vstore := t\<rparr>) \<and>
    deleteObjectMapRowsAndCount (map oid rows) label res' (v\<lparr>vstore := t\<rparr>)
      = (Inr (n, res'), v\<lparr>vdb := without_rows (set rows) (vdb v), vstore := t\<rparr>) \<and>
    t1_errors res' = t1_errors res @ failures ''Failed to delete blob '' fs \<and>
    swept_keys content (real_keys (own_rows site rows)) (vstore v) fs t"
proof -
  obtain res' fs t where a: "deleteBlobsForRows site rows res v = (Inr res', v\<lparr>vstore := t\<rparr>)"
    "t1_errors res' = t1_errors res @ failures ''Failed to delete blob '' fs"
    "swept_keys content (real_keys (own_rows site rows)) (vstore v) fs t"
    using deleteBlobsForRows_ok [OF site] by blast
  obtain n where "deleteObjectMapRows (map oid rows) (vdb v) = (Inr n, without_rows (set rows) (vdb v))"
    using deleteRows_gone [OF ok rows] by blast
  then have "deleteObjectMapRowsAndCount (map oid rows) label res' (v\<lparr>vstore := t\<rparr>)
      = (Inr (n, res'), v\<lparr>vdb := without_rows (set rows) (vdb v), vstore := t\<rparr>)"
    by (simp add: deleteObjectMapRowsAndCount_def catching_def seqs_def on_db_def ret_def)
  then show ?thesis using a by blast
qed

lemma swept_other:
  assumes "swept_keys content (real_keys (own_rows site rows)) s fs t" "\<forall>q \<in> set rows. okey q \<noteq> Some k"
  shows "content t k = content s k"
proof -
  have "k \<notin> set (real_keys (own_rows site rows))"
    using assms(2) unfolding set_real_keys own_rows_def by auto
  then show ?thesis using assms(1) by (simp add: swept_keys_def)
qed

lemma objs_ok_without: "objs_ok d \<Longrightarrow> objs_ok (without_rows gone d)"
  using objs_ok_delete [of d "\<lambda>r. r \<in> gone"] by (simp add: without_rows_def delete_where_def)

lemma without_rows_simps [simp]:
  "clock (without_rows gone d) = clock d" "file_nodes (without_rows gone d) = file_nodes d"
  "object_map (without_rows gone d) = filter (\<lambda>r. r \<notin> gone) (object_map d)"
  "without_rows b (without_rows a d) = without_rows (a \<union> b) d"
  by (simp_all add: without_rows_def conj_commute)

definition tier1_done ::
  "('c \<Rightarrow> string \<Rightarrow> buffer option) \<Rightarrow> gc_config \<Rightarrow> nat \<Rightarrow> int option \<Rightarrow> 'c vault \<Rightarrow> obj set \<Rightarrow> 'c \<Rightarrow> bool" where
  "tier1_done content cfg days ex v gone t \<longleftrightarrow>
     gone = {q \<in> set (object_map (vdb v)). collectable cfg days ex (vdb v) q} \<and>
     (\<forall>k. (\<forall>q \<in> gone. okey q \<noteq> Some k) \<longrightarrow> content t k = content (vstore v) k)"

definition tier1_start :: "int \<Rightarrow> (obj \<times> sync_status option \<times> bool) list \<Rightarrow> tier1" where
  "tier1_start olderThan xs = \<lparr>t1_orphaned = length xs,
     t1_guarded = length (filter (\<lambda>x. classify olderThan x = Guarded) xs),
     t1_blobs = 0, t1_rows = 0, t1_pending = 0, t1_errors = []\<rparr>"

lemma runTier1_unfold:
  fixes v :: "'c vault"
  assumes "xs = getOrphanedObjectsWithNodeState (vdb v) days" "rows = deletable_rows (version_cutoff cfg ex (vdb v)) xs"
  shows "runTier1 site cfg days ex v =
    seqs (deleteBlobsForRows site rows (tier1_start (version_cutoff cfg ex (vdb v)) xs)) (\<lambda>res1.
    seqs (deleteObjectMapRowsAndCount (map oid rows) ''Failed to delete orphaned object_map rows'' res1) (\<lambda>(n, res2).
      let res3 = res2\<lparr>t1_rows := n\<rparr>; stale = resolvePendingStaleDays cfg
      in if stale = 0 then ret res3
         else seqs (reads (\<lambda>v. getStalePendingObjects (vdb v) stale)) (\<lambda>staleRows.
              seqs (deleteBlobsForRows site staleRows res3) (\<lambda>res4.
              seqs (deleteObjectMapRowsAndCount (map oid staleRows)
                      ''Failed to delete stale pending object_map rows'' res4) (\<lambda>(m, res5).
              ret (res5\<lparr>t1_pending := m, t1_rows := t1_rows res5 + m\<rparr>)))))) v"
  unfolding assms version_cutoff_def tier1_start_def
  by (simp only: runTier1_def seqs_reads Let_def)

definition rows_gone ::
  "('c \<Rightarrow> string \<Rightarrow> buffer option) \<Rightarrow> obj list \<Rightarrow> obj set \<Rightarrow> string list \<Rightarrow> 'c \<Rightarrow> bool" where
  "rows_gone content rows gone errs t \<longleftrightarrow> (\<forall>q \<in> set rows. q \<in> gone \<and>
     (errs = [] \<longrightarrow> obackend q = S3 \<longrightarrow> (\<forall>k. okey q = Some k \<longrightarrow> k \<noteq> [] \<longrightarrow> content t k = None)))"

lemma runTier1_ok:
  assumes site: "s3_site site content" and ok: "objs_ok (vdb v)"
  shows "\<exists>r gone t. runTier1 site cfg days ex v = (Inr r, v\<lparr>vdb := without_rows gone (vdb v), vstore := t\<rparr>) \<and>
    tier1_done content cfg days ex v gone t \<and>
    rows_gone content (deletable_rows (version_cutoff cfg ex (vdb v)) (getOrphanedObjectsWithNodeState (vdb v) days))
      gone (t1_errors r) t"
proof -
  let ?d = "vdb v" and ?stale = "resolvePendingStaleDays cfg"
  let ?xs = "getOrphanedObjectsWithNodeState ?d days"
  let ?cut = "version_cutoff cfg ex ?d"
  let ?rows = "deletable_rows ?cut ?xs"
  define res where "res = tier1_start ?cut ?xs"
  note run = runTier1_unfold [OF refl refl, of site cfg days ex v, folded res_def]
  note due = set_deletable_rows [of cfg ex ?d days]
  then have rows: "set ?rows \<subseteq> set (object_map ?d)" by blast
  obtain res1 n t1 fs1 where a: "deleteBlobsForRows site ?rows res v = (Inr res1, v\<lparr>vstore := t1\<rparr>)"
    "deleteObjectMapRowsAndCount (map oid ?rows) ''Failed to delete orphaned object_map rows'' res1 (v\<lparr>vstore := t1\<rparr>)
      = (Inr (n, res1), v\<lparr>vdb := without_rows (set ?rows) ?d, vstore := t1\<rparr>)"
    "t1_errors res1 = t1_errors res @ failures ''Failed to delete blob '' fs1"
    "swept_keys content (real_keys (own_rows site ?rows)) (vstore v) fs1 t1"
    using blob_round [OF site ok rows, where res = res and label = "''Failed to delete orphaned object_map rows''"] by blast
  let ?w = "v\<lparr>vdb := without_rows (set ?rows) ?d, vstore := t1\<rparr>"
  have dead: "content t1 k = None"
    if "fs1 = []" "q \<in> set ?rows" "obackend q = S3" "okey q = Some k" "k \<noteq> []" for q k
  proof -
    have "q \<in> set (own_rows site ?rows)" using that(2,3) site by (simp add: own_rows_def mode_backend_def s3_site_def)
    then have "k \<in> set (real_keys (own_rows site ?rows))" using that(4,5) unfolding set_real_keys by blast
    then show ?thesis using a(4) that(1) by (simp add: swept_keys_def)
  qed
  show ?thesis
  proof (cases "?stale = 0")
    case True
    have "runTier1 site cfg days ex v = (Inr (res1\<lparr>t1_rows := n\<rparr>), ?w)"
      unfolding run using a(1,2) True by (simp add: seqs_def ret_def)
    moreover have "set ?rows = {q \<in> set (object_map ?d). collectable cfg days ex ?d q}"
      using due True by (auto simp: collectable_def pending_due_def)
    then have "tier1_done content cfg days ex v (set ?rows) t1"
      using swept_other [OF a(4)] unfolding tier1_done_def by blast
    moreover have "rows_gone content ?rows (set ?rows) (t1_errors (res1\<lparr>t1_rows := n\<rparr>)) t1"
      unfolding rows_gone_def
    proof (intro ballI conjI impI allI)
      fix q k assume q: "q \<in> set ?rows" "t1_errors (res1\<lparr>t1_rows := n\<rparr>) = []" "obackend q = S3" "okey q = Some k" "k \<noteq> []"
      have "failures ''Failed to delete blob '' fs1 = []" using a(3) q(2) by simp
      then have "fs1 = []" by (simp add: failures_def)
      then show "content t1 k = None" by (rule dead [OF _ q(1,3-5)])
    qed simp
    ultimately show ?thesis by blast
  next
    case False
    let ?ss = "getStalePendingObjects (vdb ?w) ?stale"
    have ss_due: "set ?ss = {r \<in> set (object_map (vdb ?w)). pending_due cfg (vdb ?w) r}"
      by (rule set_stale_pending) (use False in simp)
    then have ss: "set ?ss \<subseteq> set (object_map (vdb ?w))" by blast
    have okw: "objs_ok (vdb ?w)" using objs_ok_without [OF ok] by simp
    let ?res3 = "res1\<lparr>t1_rows := n\<rparr>"
    obtain res4 m t2 fs2 where b: "deleteBlobsForRows site ?ss ?res3 ?w = (Inr res4, ?w\<lparr>vstore := t2\<rparr>)"
      "deleteObjectMapRowsAndCount (map oid ?ss) ''Failed to delete stale pending object_map rows'' res4 (?w\<lparr>vstore := t2\<rparr>)
        = (Inr (m, res4), ?w\<lparr>vdb := without_rows (set ?ss) (vdb ?w), vstore := t2\<rparr>)"
      "t1_errors res4 = t1_errors ?res3 @ failures ''Failed to delete blob '' fs2"
      "swept_keys content (real_keys (own_rows site ?ss)) (vstore ?w) fs2 t2"
      using blob_round [OF site okw ss, where res = ?res3 and label = "''Failed to delete stale pending object_map rows''"]
      by blast
    let ?gone = "set ?rows \<union> set ?ss"
    have run2: "runTier1 site cfg days ex v = (Inr (res4\<lparr>t1_pending := m, t1_rows := t1_rows res4 + m\<rparr>),
        v\<lparr>vdb := without_rows ?gone ?d, vstore := t2\<rparr>)"
      unfolding run using a(1,2) b(1,2) False by (simp add: seqs_def ret_def reads_def)
    have other: "content t2 k = content (vstore v) k" if "\<forall>q \<in> ?gone. okey q \<noteq> Some k" for k
    proof -
      have "content t2 k = content t1 k" using swept_other [OF b(4), of k] that by simp
      moreover have "content t1 k = content (vstore v) k" using swept_other [OF a(4), of k] that by simp
      ultimately show ?thesis by simp
    qed
    have "?gone = {q \<in> set (object_map ?d). collectable cfg days ex ?d q}"
    proof (rule set_eqI)
      fix q
      have "q \<in> set ?ss \<longleftrightarrow> q \<in> set (object_map ?d) \<and> q \<notin> set ?rows \<and> pending_due cfg ?d q"
        unfolding ss_due by (simp add: pending_due_def older_than_days_def)
      moreover have "pending_due cfg ?d q \<Longrightarrow> \<not> orphan_due cfg days ex ?d q"
        by (simp add: pending_due_def orphan_due_def)
      ultimately show "q \<in> ?gone \<longleftrightarrow> q \<in> {q \<in> set (object_map ?d). collectable cfg days ex ?d q}"
        using due by (auto simp only: collectable_def Un_iff mem_Collect_eq)
    qed
    then have "tier1_done content cfg days ex v ?gone t2" using other unfolding tier1_done_def by blast
    moreover have "rows_gone content ?rows ?gone (t1_errors (res4\<lparr>t1_pending := m, t1_rows := t1_rows res4 + m\<rparr>)) t2"
      unfolding rows_gone_def
    proof (intro ballI conjI impI allI)
      fix q k assume q: "q \<in> set ?rows" "t1_errors (res4\<lparr>t1_pending := m, t1_rows := t1_rows res4 + m\<rparr>) = []"
        "obackend q = S3" "okey q = Some k" "k \<noteq> []"
      have "failures ''Failed to delete blob '' fs1 = []" "failures ''Failed to delete blob '' fs2 = []"
        using a(3) b(3) q(2) by simp_all
      then have f: "fs1 = []" "fs2 = []" by (simp_all add: failures_def)
      then have "content t1 k = None" by (intro dead [OF _ q(1,3-5)])
      then show "content t2 k = None"
        using b(4) f(2) unfolding swept_keys_def by (cases "k \<in> set (real_keys (own_rows site ?ss))") simp_all
    qed simp
    ultimately show ?thesis using run2 by blast
  qed
qed

section \<open>Tier 2\<close>

lemma runTier2_s3:
  assumes site: "s3_site site content" and lister: "s3_lister site content"
  shows "case runTier2 site days v of
      (Inl e, w) \<Rightarrow> e = No_return \<and> vdb w = vdb v \<and> content (vstore w) = content (vstore v)
    | (Inr r, w) \<Rightarrow> vdb w = vdb v \<and> draws w = draws v \<and>
        (\<forall>k \<in> set (getKeptObjectMapKeys (vdb v)). content (vstore w) k = content (vstore v) k) \<and>
        (\<forall>ks. fst (listOrphanedKeys (blobs site) (toDateCutoff (vdb v) days) (vstore v)) = Inr ks \<longrightarrow>
           t2_errors r = [] \<longrightarrow>
           (\<forall>k \<in> set ks - set (getKeptObjectMapKeys (vdb v)). content (vstore w) k = None))"
proof -
  let ?cut = "toDateCutoff (vdb v) days" and ?kept = "getKeptObjectMapKeys (vdb v)"
  obtain x s where l: "listOrphanedKeys (blobs site) ?cut (vstore v) = (x, s)" by fastforce
  have cs: "content s = content (vstore v)" using listing_content [OF lister, of ?cut "vstore v"] l by simp
  have web: "\<not> isWebdavMode site" using site by (simp add: s3_site_def)
  let ?res = "\<lparr>t2_scanned = 0, t2_untracked = 0, t2_deleted = 0, t2_skipped = False, t2_errors = []\<rparr>"
  show ?thesis
  proof (cases x)
    case (Inl e)
    then show ?thesis
      using l cs by (simp add: runTier2_def service_simps Let_def) (simp add: seqs_def catching_def on_store_def ret_def)
  next
    case (Inr ks)
    show ?thesis
    proof (cases "ks = []")
      case True
      then show ?thesis
        using l cs Inr by (simp add: runTier2_def service_simps Let_def) (simp add: seqs_def catching_def on_store_def ret_def)
    next
      case False
      let ?un = "filter (\<lambda>k. k \<notin> set ?kept) ks"
      let ?ord = "sort_key (\<lambda>k. - int (depthOf k)) ?un"
      obtain fs t where f: "sweep site ?ord (v\<lparr>vstore := s\<rparr>) = (Inr fs, v\<lparr>vstore := t\<rparr>)"
        "swept_keys content ?ord s fs t"
        using sweep_ok [OF site, of ?ord "v\<lparr>vstore := s\<rparr>"] by auto
      let ?r = "?res\<lparr>t2_scanned := length ks, t2_untracked := length ?un\<rparr>"
      note del = delete_keys_sweep [OF f(1), of ?r]
      have run: "runTier2 site days v = delete_keys site ?ord ?r (v\<lparr>vstore := s\<rparr>)"
        using l Inr False web
        by (simp add: runTier2_def service_simps Let_def getKeptKeys_def)
          (simp add: seqs_def catching_def on_store_def ret_def reads_def getKeptKeys_def Let_def)
      have "content t k = content (vstore v) k" if "k \<in> set ?kept" for k
        using f(2) cs that by (simp add: swept_keys_def)
      moreover have "content t k = None" if "k \<in> set ks - set ?kept" "failures ''Failed to delete untracked blob '' fs = []" for k
      proof -
        have "fs = []" using that(2) by (simp add: failures_def)
        then show ?thesis using f(2) that(1) by (simp add: swept_keys_def)
      qed
      ultimately show ?thesis unfolding run del using l Inr by simp
    qed
  qed
qed

section \<open>Properties\<close>

text \<open>
  C23: What the first tier of a collection removes, in S3 mode: it always returns; the rows that go are
  exactly the orphaned rows that are old enough (all of them when their node is gone; otherwise those
  past the version retention that no first upload of a file guards) and the pending rows past the
  pending period, never an active or a history row; no other table changes; and an object changes only
  when its key belongs to a removed row.
\<close>

theorem gc_tier1_exact:
  assumes "s3_site site content" "objs_ok (vdb v)"
  shows "\<exists>r gone t. runTier1 site cfg days ex v = (Inr r, v\<lparr>vdb := without_rows gone (vdb v), vstore := t\<rparr>) \<and>
    gone = {q \<in> set (object_map (vdb v)). collectable cfg days ex (vdb v) q} \<and>
    (\<forall>k. (\<forall>q \<in> gone. okey q \<noteq> Some k) \<longrightarrow> content t k = content (vstore v) k)"
proof -
  obtain r gone t where r: "runTier1 site cfg days ex v = (Inr r, v\<lparr>vdb := without_rows gone (vdb v), vstore := t\<rparr>)"
    "tier1_done content cfg days ex v gone t"
    using runTier1_ok [OF assms] by blast
  have "gone = {q \<in> set (object_map (vdb v)). collectable cfg days ex (vdb v) q}"
    "\<forall>k. (\<forall>q \<in> gone. okey q \<noteq> Some k) \<longrightarrow> content t k = content (vstore v) k"
    using r(2) unfolding tier1_done_def by blast+
  then show ?thesis using r(1) by blast
qed

definition default_gc :: gc_config where
  "default_gc = \<lparr>orphanTtlDays = (None, None), versionTtlDays = (None, None),
     pendingStaleDays = (None, None), trashRetentionDays = (None, None)\<rparr>"

theorem gc_tier1_exact_witness:
  "\<exists>r gone t. runTier1 (mem_site mem_client) default_gc 1 None overwritten
     = (Inr r, overwritten\<lparr>vdb := without_rows gone (vdb overwritten), vstore := t\<rparr>) \<and>
     gone = {q \<in> set (object_map (vdb overwritten)). collectable default_gc 1 None (vdb overwritten) q}"
proof -
  have "objs_ok (vdb overwritten)" by code_simp
  from gc_tier1_exact [OF mem_site_ok(1) this] show ?thesis by blast
qed

text \<open>
  The first tier destroys objects that are in use. When an orphaned row that it collects has the
  key of the active version of another file, as after a copy whose source has since been overwritten
  often enough, a run that records no error leaves that file and its active version in place and its
  content gone: every download of it fails.
\<close>

theorem gc_destroys_shared:
  assumes "s3_site site content" "objs_ok (vdb v)"
    and "q \<in> set (deletable_rows (version_cutoff cfg ex (vdb v)) (getOrphanedObjectsWithNodeState (vdb v) days))"
    and "okey q = Some k" "k \<noteq> []" "obackend q = S3"
    and "getActiveObject (vdb v) j = Some b" "okey b = Some k"
    and "runTier1 site cfg days ex v = (Inr r, w)" "t1_errors r = []"
  shows "getActiveObject (vdb w) j = Some b \<and> content (vstore w) k = None \<and> isl (fst (downloadNode site j w))"
proof -
  obtain gone t where g: "w = v\<lparr>vdb := without_rows gone (vdb v), vstore := t\<rparr>"
    "tier1_done content cfg days ex v gone t"
    "rows_gone content (deletable_rows (version_cutoff cfg ex (vdb v)) (getOrphanedObjectsWithNodeState (vdb v) days))
      gone (t1_errors r) t"
    using runTier1_ok [OF assms(1,2), of cfg days ex] assms(9) by auto
  have gone: "content (vstore w) k = None"
    using g(1,3) assms(3-6,10) unfolding rows_gone_def by simp
  have "r \<notin> gone" if "ostatus r = Obj_active" for r
    using g(2) that unfolding tier1_done_def collectable_def orphan_due_def pending_due_def by auto
  then have "filter (\<lambda>r. onode r = j \<and> ostatus r = Obj_active) (filter (\<lambda>r. r \<notin> gone) (object_map (vdb v)))
      = filter (\<lambda>r. onode r = j \<and> ostatus r = Obj_active) (object_map (vdb v))"
    unfolding filter_filter by (intro filter_cong) auto
  then have act: "getActiveObject (vdb w) j = Some b" using assms(7) g(1) by (simp add: getActiveObject_def)
  obtain y u where y: "downloadBlob (blobs site) k (vstore w) = (y, u)" by fastforce
  then have "isl y"
    using download_blob_cases [OF assms(1), where k = k and s = "vstore w"] gone by (auto split: sum.splits)
  then have "isl (fst (downloadNode site j w))"
    using act assms(1,5,8) y by (simp add: downloadNode_def service_simps s3_site_def on_store_def)
  then show ?thesis using act gone by simp
qed

text \<open>A file is uploaded, copied, and overwritten twice under a cap of two versions; three days pass.\<close>

definition overwrite_again :: "mem drive \<Rightarrow> mem drive" where
  "overwrite_again s =
     snd (fs_uploadFile (mem_site mem_client) root_caller (Some 2) ''g'' [7] None (Some ''overwrite'') s)"

definition days_later :: "mem vault" where
  "days_later = (let v = vault_of (overwrite_again (overwrite_again copied_drive))
     in v\<lparr>vdb := (vdb v)\<lparr>clock := 3 * ms_per_day\<rparr>\<rparr>)"

theorem gc_destroys_shared_witness:
  "map_option okey (getActiveObject (vdb (snd (runTier1 (mem_site mem_client) default_gc 1 None days_later))) 6)
     = Some (Some ''k'') \<and>
   isl (fst (downloadNode (mem_site mem_client) 6 (snd (runTier1 (mem_site mem_client) default_gc 1 None days_later))))"
proof -
  let ?run = "runTier1 (mem_site mem_client) default_gc 1 None days_later"
  have ok: "objs_ok (vdb days_later)" by code_simp
  have d: "map (\<lambda>q. (okey q, obackend q)) (deletable_rows (version_cutoff default_gc None (vdb days_later))
      (getOrphanedObjectsWithNodeState (vdb days_later) 1)) = [(Some ''k'', S3)]" by code_simp
  then obtain q where q: "q \<in> set (deletable_rows (version_cutoff default_gc None (vdb days_later))
      (getOrphanedObjectsWithNodeState (vdb days_later) 1))" "okey q = Some ''k''" "obackend q = S3"
    by (auto simp: map_eq_Cons_conv)
  have "map_option okey (getActiveObject (vdb days_later) 6) = Some (Some ''k'')" by code_simp
  then obtain b where b: "getActiveObject (vdb days_later) 6 = Some b" "okey b = Some ''k''" by auto
  have "map_sum id t1_errors (fst ?run) = Inr []" by code_simp
  then obtain r where r: "fst ?run = Inr r" "t1_errors r = []" by (cases "fst ?run") auto
  then have run: "?run = (Inr r, snd ?run)" by (simp add: prod_eq_iff)
  show ?thesis
    using gc_destroys_shared [OF mem_site_ok(1) ok q(1,2) _ q(3) b run r(2)] b(2) by simp
qed

text \<open>
  C22: The second tier never removes an object the keep set names. In S3 mode it changes no table and
  leaves the content of every kept key alone; when the listing succeeds and no error is recorded, every
  listed old key outside the keep set has no content left. It fails to return only when the listing does.
\<close>

theorem gc_tier2_keeps:
  assumes "s3_site site content" "s3_lister site content"
  shows "case runTier2 site days v of
      (Inl e, w) \<Rightarrow> e = No_return \<and> vdb w = vdb v \<and> content (vstore w) = content (vstore v)
    | (Inr r, w) \<Rightarrow> vdb w = vdb v \<and>
        (\<forall>k \<in> set (getKeptObjectMapKeys (vdb v)). content (vstore w) k = content (vstore v) k) \<and>
        (\<forall>ks. fst (listOrphanedKeys (blobs site) (toDateCutoff (vdb v) days) (vstore v)) = Inr ks \<longrightarrow>
           t2_errors r = [] \<longrightarrow>
           (\<forall>k \<in> set ks - set (getKeptObjectMapKeys (vdb v)). content (vstore w) k = None))"
  using runTier2_s3 [OF assms, where days = days and v = v] by (simp split: prod.splits sum.splits)

lemma mem_lister: "s3_lister (mem_site mem_client) map_of"
  by (simp add: s3_lister_def mem_site_def) (auto simp: list_law_def mem_client_def)

theorem gc_tier2_keeps_witness:
  "vdb (snd (runTier2 (mem_site mem_client) 1 days_later)) = vdb days_later"
  using gc_tier2_keeps [OF mem_site_ok(1) mem_lister, where days = 1 and v = days_later] by (auto split: prod.splits sum.splits)

end
