(* ===== verification/FileProps.thy ===== *)
theory FileProps
  imports CopyProps
begin

text \<open>
  The properties of the file service that its permission checks and its renames and moves give: no
  operation does anything for a caller without the permission, the exact outcome of a rename, and
  where a move ends when the remote move fails.
\<close>

section \<open>Permission checks\<close>

lemma checkFilePermission_allowed:
  assumes "closure_ok (pdb s)" "grants_ok (pdb s)" "users_fresh s"
  shows "fst (checkFilePermission (User_id v) n (perm_name q) s) = allowed (pdb s) v n False q"
    "pdb (snd (checkFilePermission (User_id v) n (perm_name q) s)) = pdb s"
proof -
  obtain usr t where c: "getCachedUser v s = (usr, t)" by (cases "getCachedUser v s")
  have t: "usr = findById (pdb s) v" "pdb t = pdb s"
    using getCachedUser_fresh [OF assms(3), of v] c by simp_all
  show "fst (checkFilePermission (User_id v) n (perm_name q) s) = allowed (pdb s) v n False q"
    using checkPathPermission_iff [OF assms(1,2), of v n q] t c meetsRank_names
    by (auto simp: checkFilePermission_def allowed_def isSharePrincipal_def split: option.splits)
  show "pdb (snd (checkFilePermission (User_id v) n (perm_name q) s)) = pdb s"
    using t c by (auto simp: checkFilePermission_def isSharePrincipal_def split: option.splits)
qed

text \<open>Tables, store and draws are as before; only the caches of the access control may differ.\<close>

definition untouched :: "'c drive \<Rightarrow> 'c drive \<Rightarrow> bool" where
  "untouched s t \<longleftrightarrow> drive_db t = drive_db s \<and> dstore t = dstore s \<and> ddraws t = ddraws s"

lemma untouched_refl [simp]: "untouched s s"
  by (simp add: untouched_def)

definition refused :: "('c drive, 'a) service \<Rightarrow> err \<Rightarrow> 'c drive \<Rightarrow> bool" where
  "refused m e s \<longleftrightarrow> fst (m s) = Inl e \<and> untouched s (snd (m s))"

lemma refused_seqs: "refused m e s \<Longrightarrow> refused (seqs m f) e s"
  by (cases "m s") (simp add: refused_def seqs_def)

lemma need_node_refused:
  assumes "tree_ok (drive_db s)" "grants_ok (drive_db s)" "users_fresh (dperm s)"
    and "who c = User_id u" "\<not> is_admin_caller c" "\<not> allowed (drive_db s) u i False q"
  shows "refused (need_node c i (perm_name q) e) e s"
proof -
  obtain b p where b: "checkFilePermission (User_id u) i (perm_name q) (dperm s) = (b, p)" by fastforce
  have "b = False" "pdb p = pdb (dperm s)"
    using checkFilePermission_allowed [OF tree_okD(2) [OF assms(1), unfolded drive_db_def]
        assms(2) [unfolded drive_db_def] assms(3), of u i q] assms(6) b
    by (simp_all add: drive_db_def)
  then show ?thesis
    using assms(4,5) b
    by (simp add: refused_def need_node_def on_acl_def seqs_def guard_def untouched_def drive_db_def)
qed

section \<open>Renaming\<close>

definition sibling_taken :: "db \<Rightarrow> nat \<Rightarrow> nat option \<Rightarrow> string \<Rightarrow> bool" where
  "sibling_taken d i p nm \<longleftrightarrow>
     list_ex (\<lambda>m. live m \<and> nid m \<noteq> i \<and> nparent m = p \<and> nname m = nm) (file_nodes d)"

definition with_name :: "db \<Rightarrow> nat \<Rightarrow> string \<Rightarrow> db" where
  "with_name d i nm = d\<lparr>file_nodes := update_where (\<lambda>n. nid n = i) (\<lambda>n. n\<lparr>nname := nm, nupdated := datetime_now d\<rparr>)
     (file_nodes d)\<rparr>"

lemma rename_unique:
  assumes ok: "nodes_ok d" and n: "n \<in> set (file_nodes d)" "nid n = i" "live n"
  shows "live_unique (file_nodes (with_name d i nm)) \<longleftrightarrow> \<not> sibling_taken d i (nparent n) nm"
proof -
  define f :: "node \<Rightarrow> node" where "f = (\<lambda>n. if nid n = i then n\<lparr>nname := nm, nupdated := datetime_now d\<rparr> else n)"
  have fs: "file_nodes (with_name d i nm) = map f (file_nodes d)"
    by (simp add: with_name_def update_where_def f_def)
  have f: "nid (f m) = nid m" "nparent (f m) = nparent m" "live (f m) = live m" for m
    by (simp_all add: f_def live_def)
  have ids: "distinct (map nid (file_nodes d))" by (rule nodes_okD(1) [OF ok])
  show ?thesis
  proof
    assume u: "live_unique (file_nodes (with_name d i nm))"
    show "\<not> sibling_taken d i (nparent n) nm"
    proof
      assume "sibling_taken d i (nparent n) nm"
      then obtain m where m: "m \<in> set (file_nodes d)" "live m" "nid m \<noteq> i" "nparent m = nparent n" "nname m = nm"
        by (auto simp: sibling_taken_def list_ex_iff)
      have nm: "nname (f m) = nm" "nname (f n) = nm" using m(3,5) n(2) by (simp_all add: f_def)
      have "f m = f n"
        by (rule live_uniqueD [OF u [unfolded fs]]) (simp_all add: f nm m n)
      then have "nid (f m) = nid (f n)" by simp
      then show False using f(1) m(3) n(2) by simp
    qed
  next
    assume free: "\<not> sibling_taken d i (nparent n) nm"
    have other: "nname m \<noteq> nm" if "m \<in> set (file_nodes d)" "live m" "nid m \<noteq> i" "nparent m = nparent n" for m
      using free that by (auto simp: sibling_taken_def list_ex_iff)
    have same: "m = n" if "m \<in> set (file_nodes d)" "nid m = i" for m
      using distinct_map_unique [OF ids that(1) n(1)] that(2) n(2) by simp
    show "live_unique (file_nodes (with_name d i nm))"
      unfolding fs
    proof (rule live_uniqueI)
      show "distinct (map nid (map f (file_nodes d)))" using ids f(1) by (simp add: comp_def)
      fix x y assume xy: "x \<in> set (map f (file_nodes d))" "y \<in> set (map f (file_nodes d))" "live x" "live y"
        "nparent x = nparent y" "nname x = nname y"
      then obtain a b where ab: "x = f a" "a \<in> set (file_nodes d)" "y = f b" "b \<in> set (file_nodes d)" by auto
      have l: "live a" "live b" "nparent a = nparent b" using xy ab f by simp_all
      show "nid x = nid y"
      proof (cases "nid a = i"; cases "nid b = i")
        assume a: "nid a = i" "nid b \<noteq> i"
        then have "nname b = nm" using xy(6) ab by (simp add: f_def)
        then show ?thesis using other [OF ab(4) l(2) a(2)] same [OF ab(2) a(1)] l(3) by simp
      next
        assume a: "nid a \<noteq> i" "nid b = i"
        then have "nname a = nm" using xy(6) ab by (simp add: f_def)
        then show ?thesis using other [OF ab(2) l(1) a(1)] same [OF ab(4) a(2)] l(3) by simp
      next
        assume a: "nid a \<noteq> i" "nid b \<noteq> i"
        then have "nname a = nname b" using xy(6) ab by (simp add: f_def)
        then have "a = b" using live_uniqueD [OF nodes_okD(4) [OF ok] ab(2,4) l] by simp
        then show ?thesis using ab by simp
      qed (simp add: ab f)
    qed
  qed
qed

lemma renameNode_eq:
  assumes ok: "nodes_ok d" and n: "getNode d i = Some v"
  shows "renameNode i nm d = (if sibling_taken d i (v_parentId v) nm then (Inl db_failed, d)
    else (Inr (), with_name d i nm))"
proof -
  obtain n where r: "node_row d i = Some n" "live n" "v = mapNodeRow n (cache_of d i)"
    using n by (auto simp: getNode_row [OF ok] split: option.splits if_splits)
  have i: "n \<in> set (file_nodes d)" "nid n = i" using node_row_in [OF r(1)] by auto
  have w: "update_where (\<lambda>n. nid n = i) (\<lambda>n. n\<lparr>nname := nm, nupdated := datetime_now d\<rparr>) (file_nodes d)
      = file_nodes (with_name d i nm)" by (simp add: with_name_def)
  have "v_parentId v = nparent n" using r(3) by simp
  then show ?thesis
    using rename_unique [OF ok i r(2), of nm]
    by (simp add: renameNode_def repo_renameNode_def write_nodes_def w seqs_def ret_def db_failed_def)
      (simp add: with_name_def)
qed

section \<open>The rollback of a move\<close>

lemma moveNode_parent:
  assumes "tree_ok d" "moveNode i p d = (Inr (), d')"
  shows "parent_of d' i = p" "has_node d' i"
proof -
  have c: "\<forall>q. p = Some q \<longrightarrow> q \<notin> desc_of d i" "\<not> move_refused d i p"
    using moveNode_cases [OF assms(1), of i p] assms(2) by auto
  obtain e where e: "moveNode i p d = (Inr (), e)" "file_nodes e = file_nodes (moved d i p)"
    using moveNode_result [OF tree_okD [OF assms(1)] c] by blast
  have "e = d'" using e(1) assms(2) by simp
  moreover have "parent_of e i = parent_of (moved d i p) i" "has_node e i = has_node (moved d i p) i"
    using e(2) by (simp_all add: parent_of_def node_row_def has_node_def)
  ultimately show "parent_of d' i = p" "has_node d' i"
    using c(2) by (auto simp: parent_of_moved move_refused_def)
qed

lemma sync_set_row: "node_row (sync_set d i st) j
    = map_option (\<lambda>n. if j = i then n\<lparr>nsync := st, nupdated := datetime_now d\<rparr> else n) (node_row d j)"
  by (simp add: node_row_def sync_set_def filter_update_key first_row_map)

lemma on_blobs_eq:
  "on_blobs m s = (case m (dstore s) of (r, t) \<Rightarrow> (r, s\<lparr>dstore := t\<rparr>))"
  by (cases s) (simp add: on_blobs_def on_vault_def on_store_def vault_of_def split: prod.splits)

lemma with_db_store [simp]:
  "dstore (with_db s d) = dstore s" "with_db (s\<lparr>dstore := t\<rparr>) d = (with_db s d)\<lparr>dstore := t\<rparr>"
  "drive_db (s\<lparr>dstore := t\<rparr>) = drive_db s"
  by (simp_all add: with_db_def drive_db_def)

definition move_undone :: "db \<Rightarrow> nat \<Rightarrow> nat option \<Rightarrow> bool" where
  "move_undone d i p \<longleftrightarrow> parent_of d i = None \<or>
     (parent_of d i = p \<and> map_option nsync (node_row d i) = Some Orphaned_node)"

lemma move_rollback:
  assumes ok: "tree_ok d1" and i: "parent_of d1 i = p" "has_node d1 i" and s: "drive_db s = d1"
  shows "\<exists>d'. catching (on_drive_db (moveNode i None)) (\<lambda>_. set_orphaned i) s = (Inr (), with_db s d') \<and>
    move_undone d' i p"
proof -
  consider d2 where "moveNode i None d1 = (Inr (), d2)" | "moveNode i None d1 = (Inl db_failed, d1)"
    | "moveNode i None d1 = (Inl own_descendant, d1)"
    using moveNode_cases [OF ok, of i None] by (metis prod.collapse)
  then show ?thesis
  proof cases
    case (1 d2)
    then have "move_undone d2 i p" using moveNode_parent(1) [OF ok 1] by (simp add: move_undone_def)
    then show ?thesis using 1 s by (auto simp: catching_def on_drive_db_eq)
  next
    case 2
    have "parent_of (sync_set d1 i Orphaned_node) i = p"
      using i(1) by (cases "node_row d1 i") (simp_all add: parent_of_def sync_set_row)
    moreover have "node_row d1 i \<noteq> None" using i(2) node_row_None by metis
    ultimately have "move_undone (sync_set d1 i Orphaned_node) i p"
      by (auto simp: move_undone_def sync_set_row)
    moreover have "db_failed \<noteq> No_return" by (simp add: db_failed_def)
    ultimately show ?thesis
      using 2 s by (auto simp: catching_def on_drive_db_eq set_orphaned_def updateSyncStatus_eq)
  next
    case 3
    have "False"
      using 3 moveNode_refused [OF tree_okD [OF ok] _ _ i(2), of None]
        moveNode_result [OF tree_okD [OF ok], of None i] by (auto simp: own_descendant_def db_failed_def)
    then show ?thesis ..
  qed
qed

section \<open>Properties\<close>


definition acl_drive :: "mem drive" where
  "acl_drive = \<lparr>dperm = demo_acl, dstore = [], ddraws = 0\<rparr>"

definition ann_caller :: caller where
  "ann_caller = \<lparr>who = User_id 7, hasUser = True, adminUser = False\<rparr>"


text \<open>
  What a rename does, in S3 mode and for an administrator: a malformed name is refused; a missing or
  trashed node is an internal error; a name that a live entry of the root has is refused as a duplicate,
  whatever folder the node is in; a name that a live sibling has, which is not looked for, ends as the
  database's error with status 500; otherwise the name of that node changes and nothing else but its time.
\<close>

theorem rename_outcome:
  assumes "\<not> isWebdavMode site" "nodes_ok (drive_db s)" "is_admin_caller c"
  shows "fs_renameNode site c i nm s =
    (if bad_new_name nm then (Inl invalid_name, s)
     else (case getNode (drive_db s) i of
             None \<Rightarrow> (Inl (null_property ''parent_id''), s)
           | Some v \<Rightarrow>
               (if rename_conflict (drive_db s) i nm then (Inl duplicate_file, s)
                else if sibling_taken (drive_db s) i (v_parentId v) nm then (Inl db_failed, s)
                else (Inr (), with_db s (with_name (drive_db s) i nm)))))"
proof (cases "getNode (drive_db s) i")
  case None
  then show ?thesis
    using assms(3) by (simp add: fs_renameNode_def need_node_def service_simps reads_db_eq) (simp add: throw_def)
next
  case (Some v)
  have "with_db s (drive_db s) = s" by simp
  then show ?thesis
    using assms renameNode_eq [OF assms(2) Some, of nm] Some
    by (simp add: fs_renameNode_def need_node_def service_simps reads_db_eq)
      (simp add: seqs_def on_drive_db_eq ret_def)
qed

theorem rename_outcome_witness:
  "fs_renameNode (mem_site mem_client) root_caller 3 ''c'' demo_drive = (Inl duplicate_file, demo_drive) \<and>
   fs_renameNode (mem_site mem_client) root_caller 5 ''f'' demo_drive = (Inl db_failed, demo_drive)"
proof -
  have n: "nodes_ok (drive_db demo_drive)" using tree_okD(1) [OF uploaded_tree] by simp
  have a: "is_admin_caller root_caller" by (simp add: is_admin_caller_def root_caller_def)
  have b: "\<not> bad_new_name ''c''" "\<not> bad_new_name ''f''" by code_simp+
  have c: "rename_conflict (vdb uploaded) 3 ''c''" "\<not> rename_conflict (vdb uploaded) 5 ''f''" by code_simp+
  have "getNode (vdb uploaded) 3 \<noteq> None" by code_simp
  moreover have "map_option (\<lambda>v. sibling_taken (vdb uploaded) 5 (v_parentId v) ''f'') (getNode (vdb uploaded) 5)
      = Some True" by code_simp
  ultimately show ?thesis
    using rename_outcome [OF mem_not_webdav n a, of mem_client 3 "''c''"]
      rename_outcome [OF mem_not_webdav n a, of mem_client 5 "''f''"] b c
    by auto
qed

text \<open>
  Where a move ends in WebDAV mode when the remote move fails for another reason than a missing
  source: the error comes out, and the node is not back under its old parent. It is under the root, or,
  when a name there is in the way, still under the new parent and marked as orphaned.
\<close>

theorem failed_move_ends_in_root:
  assumes "isWebdavMode site" "tree_ok (drive_db s)" "all_live_below (drive_db s) i" "is_admin_caller c"
    and "moveNode i p (drive_db s) = (Inr (), d1)"
    and "moveBlob (blobs site) (getNodePath (drive_db s) i) (getNodePath d1 i) False (dstore s) = (Inl e, t)"
    and "\<not> source_not_found e" "e \<noteq> No_return"
  shows "\<exists>d'. fs_moveNode site c i p s = (Inl e, (with_db s d')\<lparr>dstore := t\<rparr>) \<and> move_undone d' i p"
proof -
  have ok1: "tree_ok d1" using move_tree_ok [OF assms(2,3), of p] assms(5) by simp
  note par = moveNode_parent [OF assms(2,5)]
  let ?s1 = "(with_db s d1)\<lparr>dstore := t\<rparr>"
  obtain d' where d': "catching (on_drive_db (moveNode i None)) (\<lambda>_. set_orphaned i) ?s1 = (Inr (), with_db ?s1 d')"
    "move_undone d' i p"
    using move_rollback [OF ok1 par, of ?s1] by auto
  have sync: "sync_move site i (getNodePath (drive_db s) i) (moveNode i None) (with_db s d1)
      = (Inl e, (with_db s d')\<lparr>dstore := t\<rparr>)"
    unfolding sync_move_def reads_db_eq
    using assms(6-8) d'(1)
    by (simp add: catching_def [of "on_blobs m" for m] on_blobs_eq seqs_def [of "catching m h" for m h] throw_def)
  have "\<not> ownership_transfer (drive_db s) c i p" using assms(4) by (simp add: ownership_transfer_def)
  then have "fs_moveNode site c i p s = (Inl e, (with_db s d')\<lparr>dstore := t\<rparr>)"
    using assms(1,4,5) sync
    by (simp add: fs_moveNode_def need_node_def need_folder_def service_simps reads_db_eq)
      (simp add: seqs_def on_drive_db_eq)
  then show ?thesis using d'(2) by blast
qed

text \<open>A WebDAV store whose moves time out, \<open>/a/b\<close> moved into \<open>/c\<close>.\<close>

definition stuck_dav :: "unit dav_client" where
  "stuck_dav = \<lparr>putFileContents = (\<lambda>_ _ s. (Inl timeout, s)), getFileContents = (\<lambda>_ s. (Inl timeout, s)),
     deleteFile = (\<lambda>_ s. (Inl timeout, s)), getFileMetadata = (\<lambda>_ s. (Inl timeout, s)),
     copyFile = (\<lambda>_ _ _ s. (Inl timeout, s)), moveFile = (\<lambda>_ _ _ s. (Inl timeout, s)),
     dav_createDirectory = (\<lambda>_ s. (Inl timeout, s)), dav_ensureDirectoryExists = (\<lambda>_ s. (Inl timeout, s)),
     listAllEntriesRecursive = (\<lambda>_ s. (Inl timeout, s))\<rparr>"

definition dav_site :: "unit site" where
  "dav_site = \<lparr>blobs = dav_store stuck_dav, isWebdavMode = True, uuid = number_key, sha256 = (\<lambda>b. ''h''),
     maxPerNode = None, configuredCap = None\<rparr>"

definition dav_drive :: "unit drive" where
  "dav_drive = \<lparr>dperm = demo_acl\<lparr>pdb := demo_tree\<rparr>, dstore = (), ddraws = 0\<rparr>"

theorem failed_move_ends_in_root_witness:
  "\<exists>d'. fs_moveNode dav_site root_caller 2 (Some 4) dav_drive = (Inl timeout, with_db dav_drive d') \<and>
     move_undone d' 2 (Some 4) \<and> parent_of (drive_db dav_drive) 2 = Some 1"
proof -
  have d: "drive_db dav_drive = demo_tree" by (simp add: dav_drive_def drive_db_def)
  have a: "is_admin_caller root_caller" by (simp add: is_admin_caller_def root_caller_def)
  have "\<forall>c \<in> set (getDescendantIds demo_tree 2). c = 2 \<or> getNode demo_tree c \<noteq> None" by code_simp
  then have l: "all_live_below (drive_db dav_drive) 2" by (simp add: all_live_below_def d)
  have "fst (moveNode 2 (Some 4) demo_tree) = Inr ()" by code_simp
  then have m: "moveNode 2 (Some 4) (drive_db dav_drive) = (Inr (), snd (moveNode 2 (Some 4) demo_tree))"
    by (simp add: d prod_eq_iff)
  have p: "getNodePath demo_tree 2 = ''/a/b''" "getNodePath (snd (moveNode 2 (Some 4) demo_tree)) 2 = ''/c/b''"
    by code_simp+
  have b: "moveBlob (blobs dav_site) (getNodePath (drive_db dav_drive) 2)
      (getNodePath (snd (moveNode 2 (Some 4) demo_tree)) 2) False (dstore dav_drive) = (Inl timeout, ())"
    by (simp add: d p dav_site_def dav_store_def dav_moveBlob_def stuck_dav_def service_simps)
  have w: "isWebdavMode dav_site" by (simp add: dav_site_def)
  have t: "tree_ok (drive_db dav_drive)" using demo_tree_ok d by simp
  have e: "\<not> source_not_found timeout" "timeout \<noteq> No_return" by (simp_all add: timeout_def source_not_found_def)
  have "parent_of demo_tree 2 = Some 1" by code_simp
  moreover have same: "s\<lparr>dstore := ()\<rparr> = s" for s :: "unit drive" by (cases s) simp
  ultimately show ?thesis using failed_move_ends_in_root [OF w t l a m b e] by (simp add: same d)
qed

end
