(* ===== verification/Jobs.thy ===== *)
theory Jobs
  imports Tables
begin

text \<open>
  The persistent job queue: \<open>store/repositories/aiJobsShared.js\<close>, \<open>AiJobsRepository.sqlite.js\<close>, which
  \<open>aiJobsStore.js\<close> passes on one to one. The table \<open>ai_jobs\<close> refers to \<open>file_nodes\<close> only by a foreign key, so the state
  here holds the ids of the existing nodes. Instants are milliseconds; the code compares ISO strings
  of equal length, which is the same order.
\<close>

section \<open>The table\<close>

datatype job_status = Job_pending | Job_running | Job_done | Job_failed | Job_skipped | Job_cancelled

record job =
  jid :: nat
  jnode :: nat
  jkind :: string
  jgen :: nat
  jstatus :: job_status
  jattempt :: nat
  jretry :: "int option"
  jerror :: "string option"
  jhash :: "string option"
  jcreated :: int
  jstarted :: "int option"
  jfinished :: "int option"

record queue =
  qclock :: int
  qnodes :: "nat list"
  qjobs :: "job list"
  qnext :: nat

definition AI_JOB_KIND_ALL :: "string list" where
  "AI_JOB_KIND_ALL = [''embed'', ''features'', ''caption'', ''asr'', ''backfill'']"

section \<open>aiJobsShared.js\<close>

definition AI_JOB_RETRY_BASE_MS :: int where
  "AI_JOB_RETRY_BASE_MS = 30000"

definition AI_JOB_RETRY_MAX_MS :: int where
  "AI_JOB_RETRY_MAX_MS = 1800000"

definition backoffMs :: "int \<Rightarrow> int" where
  "backoffMs attempt =
     (if attempt < 1 then AI_JOB_RETRY_BASE_MS
      else min (AI_JOB_RETRY_BASE_MS * 2 ^ nat (min (attempt - 1) 30)) AI_JOB_RETRY_MAX_MS)"

definition truncateError :: "string option \<Rightarrow> string option" where
  "truncateError e = map_option (take 1024) e"

definition normalizeExcludeKinds :: "string list \<Rightarrow> string list" where
  "normalizeExcludeKinds ks = filter (\<lambda>k. k \<noteq> []) (map trim ks)"

definition claimable :: "int \<Rightarrow> string list \<Rightarrow> job \<Rightarrow> bool" where
  "claimable now excluded j \<longleftrightarrow>
     (jstatus j = Job_pending \<or> jstatus j = Job_failed \<and> (case jretry j of None \<Rightarrow> True | Some t \<Rightarrow> t \<le> now)) \<and>
     jkind j \<notin> set excluded"

section \<open>AiJobsRepository.sqlite.js\<close>

definition new_job :: "queue \<Rightarrow> nat \<Rightarrow> string \<Rightarrow> nat \<Rightarrow> string option \<Rightarrow> job" where
  "new_job q node kind gen h =
     \<lparr>jid = qnext q, jnode = node, jkind = kind, jgen = gen, jstatus = Job_pending, jattempt = 0,
      jretry = None, jerror = None, jhash = h, jcreated = (qclock q div 1000) * 1000,
      jstarted = None, jfinished = None\<rparr>"

definition job_key :: "job \<Rightarrow> nat \<times> string \<times> nat" where
  "job_key j = (jnode j, jkind j, jgen j)"

text \<open>\<open>INSERT\<close> of a row with a new key: the check on the kind, then the foreign key.\<close>

definition insert_job :: "nat \<Rightarrow> string \<Rightarrow> nat \<Rightarrow> string option \<Rightarrow> (queue, nat) service" where
  "insert_job node kind gen h q =
     (if kind \<notin> set AI_JOB_KIND_ALL \<or> node \<notin> set (qnodes q) then (Inl db_failed, q)
      else (Inr (qnext q), q\<lparr>qjobs := qjobs q @ [new_job q node kind gen h], qnext := Suc (qnext q)\<rparr>))"

definition rearmed :: "string option \<Rightarrow> job \<Rightarrow> job" where
  "rearmed h j = j\<lparr>jstatus := Job_pending, jattempt := 0, jretry := None, jstarted := None,
     jfinished := None, jerror := None, jhash := h\<rparr>"

definition enqueue :: "nat \<Rightarrow> string \<Rightarrow> nat \<Rightarrow> string option \<Rightarrow> (queue, nat option) service" where
  "enqueue node kind gen h =
     seqs (reads (\<lambda>q. first_row (filter (\<lambda>j. job_key j = (node, kind, gen)) (qjobs q)))) (\<lambda>old.
       case old of
         None \<Rightarrow> seqs (insert_job node kind gen h) (\<lambda>i. ret (Some i))
       | Some j \<Rightarrow>
           (if jhash j \<noteq> None \<and> h \<noteq> None \<and> jhash j \<noteq> h
            then seqs (updates (\<lambda>q. q\<lparr>qjobs := update_where (\<lambda>x. jid x = jid j) (rearmed h) (qjobs q)\<rparr>))
                   (\<lambda>_. ret (Some (jid j)))
            else ret None))"

text \<open>\<open>enqueueManyTx\<close> inside its transaction: one failing row undoes all of them.\<close>

fun enqueue_each :: "(nat \<times> string \<times> nat \<times> string option) list \<Rightarrow> nat list \<Rightarrow> (queue, nat list) service" where
  "enqueue_each [] ids = ret ids"
| "enqueue_each ((node, kind, gen, h) # rest) ids =
     seqs (reads (\<lambda>q. \<exists>j \<in> set (qjobs q). job_key j = (node, kind, gen))) (\<lambda>known.
       if known then enqueue_each rest ids
       else seqs (insert_job node kind gen h) (\<lambda>i. enqueue_each rest (ids @ [i])))"

definition enqueueMany :: "(nat \<times> string \<times> nat \<times> string option) list \<Rightarrow> (queue, nat list) service" where
  "enqueueMany items q =
     (case enqueue_each items [] q of
        (Inl e, _) \<Rightarrow> (Inl e, q)
      | (Inr ids, t) \<Rightarrow> (Inr ids, t))"

text \<open>
  \<open>UPDATE ai_jobs SET f WHERE p\<close>, with the number of changed rows. Every write below has this form.
\<close>

definition update_jobs :: "(job \<Rightarrow> bool) \<Rightarrow> (job \<Rightarrow> job) \<Rightarrow> (queue, nat) service" where
  "update_jobs p f q = (Inr (count_where p (qjobs q)), q\<lparr>qjobs := update_where p f (qjobs q)\<rparr>)"

definition cancelled_job :: "int \<Rightarrow> job \<Rightarrow> job" where
  "cancelled_job now j = j\<lparr>jstatus := Job_cancelled, jfinished := Some now\<rparr>"

fun cancel_each :: "nat list \<Rightarrow> nat list \<times> nat list \<Rightarrow> (queue, nat list \<times> nat list) service" where
  "cancel_each [] acc = ret acc"
| "cancel_each (i # is) (cancelled, skipped) =
     seqs (reads qclock) (\<lambda>now.
     seqs (update_jobs (\<lambda>j. jid j = i \<and> jstatus j = Job_pending) (cancelled_job now)) (\<lambda>changes.
       cancel_each is (if changes > 0 then (cancelled @ [i], skipped) else (cancelled, skipped @ [i]))))"

definition cancelPending :: "nat list \<Rightarrow> (queue, nat list \<times> nat list) service" where
  "cancelPending ids = cancel_each (rev (remdups (rev (filter (\<lambda>i. i > 0) ids)))) ([], [])"

definition start_job :: "int \<Rightarrow> job \<Rightarrow> job" where
  "start_job now j = j\<lparr>jstatus := Job_running, jstarted := Some now\<rparr>"

definition claimNext :: "string list \<Rightarrow> (queue, job option) service" where
  "claimNext exclude q =
     (case first_row (sort_key jid (filter (claimable (qclock q) (normalizeExcludeKinds exclude)) (qjobs q))) of
        None \<Rightarrow> (Inr None, q)
      | Some j \<Rightarrow> (Inr (Some (start_job (qclock q) j)),
          q\<lparr>qjobs := update_where (\<lambda>x. jid x = jid j) (start_job (qclock q)) (qjobs q)\<rparr>))"

definition running_with :: "nat \<Rightarrow> job \<Rightarrow> bool" where
  "running_with i j \<longleftrightarrow> jid j = i \<and> jstatus j = Job_running"

definition done_job :: "int \<Rightarrow> job \<Rightarrow> job" where
  "done_job now j = j\<lparr>jstatus := Job_done, jfinished := Some now\<rparr>"

definition markDone :: "nat \<Rightarrow> (queue, nat) service" where
  "markDone i = seqs (reads qclock) (\<lambda>now. update_jobs (running_with i) (done_job now))"

definition failed_job :: "int \<Rightarrow> int \<Rightarrow> string option \<Rightarrow> job \<Rightarrow> job" where
  "failed_job now retryAt e j = j\<lparr>jstatus := Job_failed, jattempt := jattempt j + 1,
     jerror := e, jretry := Some retryAt, jfinished := Some now\<rparr>"

definition getById :: "queue \<Rightarrow> nat \<Rightarrow> job option" where
  "getById q i = first_row (filter (\<lambda>j. jid j = i) (qjobs q))"

definition markFailed :: "nat \<Rightarrow> string option \<Rightarrow> (queue, nat) service" where
  "markFailed i e =
     seqs (reads (\<lambda>q. (qclock q, getById q i))) (\<lambda>(now, row).
       case row of
         None \<Rightarrow> ret 0
       | Some r \<Rightarrow> update_jobs (running_with i)
           (failed_job now (now + backoffMs (int (jattempt r) + 1)) (truncateError e)))"

definition skipped_job :: "int \<Rightarrow> string option \<Rightarrow> job \<Rightarrow> job" where
  "skipped_job now reason j = j\<lparr>jstatus := Job_skipped, jfinished := Some now, jerror := reason\<rparr>"

definition markSkipped :: "nat \<Rightarrow> string option \<Rightarrow> (queue, nat) service" where
  "markSkipped i reason =
     seqs (reads qclock) (\<lambda>now. update_jobs (running_with i) (skipped_job now (truncateError reason)))"

definition stale_running :: "int \<Rightarrow> job \<Rightarrow> bool" where
  "stale_running cutoff j \<longleftrightarrow> jstatus j = Job_running \<and>
     (case jstarted j of None \<Rightarrow> False | Some t \<Rightarrow> t < cutoff)"

definition reaped_job :: "int \<Rightarrow> job \<Rightarrow> job" where
  "reaped_job now j = j\<lparr>jstatus := Job_failed, jattempt := jattempt j + 1,
     jretry := Some now, jfinished := Some now\<rparr>"

definition recoverStaleRunning :: "int \<Rightarrow> (queue, nat) service" where
  "recoverStaleRunning staleMs =
     seqs (reads qclock) (\<lambda>now. update_jobs (stale_running (now - staleMs)) (reaped_job now))"

text \<open>Reads.\<close>

definition listByNode :: "queue \<Rightarrow> nat \<Rightarrow> nat option \<Rightarrow> job list" where
  "listByNode q node gen =
     sort_key jid (filter (\<lambda>j. jnode j = node \<and> (case gen of None \<Rightarrow> True | Some g \<Rightarrow> jgen j = g)) (qjobs q))"

definition countByStatus :: "queue \<Rightarrow> job_status \<Rightarrow> nat" where
  "countByStatus q st = count_where (\<lambda>j. jstatus j = st) (qjobs q)"

definition finished_since :: "int \<Rightarrow> job \<Rightarrow> bool" where
  "finished_since t j \<longleftrightarrow> (case jfinished j of None \<Rightarrow> False | Some f \<Rightarrow> f \<ge> t)"

definition countFailedSince :: "queue \<Rightarrow> int \<Rightarrow> nat" where
  "countFailedSince q t = count_where (\<lambda>j. jstatus j = Job_failed \<and> finished_since t j) (qjobs q)"

definition countFinishedSince :: "queue \<Rightarrow> int \<Rightarrow> nat" where
  "countFinishedSince q t = count_where (finished_since t) (qjobs q)"

text \<open>The ids go to the database in batches of 500, and the counts are added up.\<close>

fun count_batches :: "queue \<Rightarrow> nat list \<Rightarrow> nat \<Rightarrow> nat" where
  "count_batches q ids 0 = 0"
| "count_batches q ids (Suc k) =
     (if ids = [] then 0
      else count_where (\<lambda>j. jid j \<in> set (take 500 ids) \<and> jstatus j \<in> {Job_pending, Job_running}) (qjobs q)
         + count_batches q (drop 500 ids) k)"

definition countActiveByIds :: "queue \<Rightarrow> nat list \<Rightarrow> nat" where
  "countActiveByIds q jobIds =
     (let ids = rev (remdups (rev (filter (\<lambda>i. i > 0) jobIds))) in count_batches q ids (length ids))"

definition listFailed :: "queue \<Rightarrow> int \<Rightarrow> job list" where
  "listFailed q lim =
     take (if lim > 0 then nat lim else 50)
       (rev (sort_key jid (filter (\<lambda>j. jstatus j = Job_failed) (qjobs q))))"

text \<open>\<open>ON DELETE CASCADE\<close>: what the removal of nodes does to the table.\<close>

definition nodes_removed :: "nat list \<Rightarrow> queue \<Rightarrow> queue" where
  "nodes_removed ids q = q\<lparr>qnodes := filter (\<lambda>i. i \<notin> set ids) (qnodes q),
     qjobs := delete_where (\<lambda>j. jnode j \<in> set ids) (qjobs q)\<rparr>"

end
