(* ===== verification/Pipelines.thy ===== *)
theory Pipelines
  imports Jobs Validation
begin

text \<open>
  The worker of the job queue: the loop of \<open>domains/ai/pipelines/pipelineRunner.js\<close>, and the executors
  of the kinds \<open>backfill\<close>, \<open>asr\<close> and \<open>caption\<close> with their drains. What an executor asks of the model
  adapter, ffmpeg, the vector store and the other stores is a record of functions, each of which may
  fail; all they change in the queue is what the executors do.
\<close>

section \<open>pipelineRunner.js\<close>

text \<open>
  The executor of a kind is an argument. \<open>runWithTimeout\<close> races it against a timer: when the timer
  wins, the executor has the result \<open>Inl\<close> of the timeout error, and the late writes of the one that
  goes on running are steps of their own. The loop claims until nothing is claimable; nothing else
  bounds it.
\<close>

datatype outcome = Out_done | Out_skipped | Out_failed

definition run_claimed :: "(job \<Rightarrow> (queue, outcome) service) \<Rightarrow> job \<Rightarrow> (queue, nat) service" where
  "run_claimed execute j =
     catching (seqs (execute j) (\<lambda>out. ret (if out = Out_failed then 0 else 1)))
       (\<lambda>e. seqs (markFailed (jid j) (Some (err_message e))) (\<lambda>_. ret 0))"

partial_function (option) drain ::
  "string \<Rightarrow> string list \<Rightarrow> (job \<Rightarrow> (queue, outcome) service) \<Rightarrow> nat \<Rightarrow> queue \<Rightarrow> ((err + nat) \<times> queue) option" where
  "drain kind excludeKinds execute terminal q =
     (case claimNext excludeKinds q of
        (Inl e, t) \<Rightarrow> Some (Inl e, t)
      | (Inr None, t) \<Rightarrow> Some (Inr terminal, t)
      | (Inr (Some j), t) \<Rightarrow>
          (if jkind j \<noteq> kind then drain kind excludeKinds execute terminal t
           else (case run_claimed execute j t of
                   (Inl e, u) \<Rightarrow> Some (Inl e, u)
                 | (Inr n, u) \<Rightarrow> drain kind excludeKinds execute (terminal + n) u)))"

declare drain.simps [code]

definition drainKind ::
  "string \<Rightarrow> string list \<Rightarrow> (job \<Rightarrow> (queue, outcome) service) \<Rightarrow> (queue, nat) service" where
  "drainKind kind excludeKinds execute q =
     (case drain kind excludeKinds execute 0 q of None \<Rightarrow> (Inl No_return, q) | Some out \<Rightarrow> out)"

definition other_kinds :: "string \<Rightarrow> string list" where
  "other_kinds kind = filter (\<lambda>k. k \<noteq> kind) AI_JOB_KIND_ALL"

definition skip_with :: "job \<Rightarrow> string \<Rightarrow> (queue, outcome) service" where
  "skip_with j reason = seqs (markSkipped (jid j) (Some reason)) (\<lambda>_. ret Out_skipped)"

definition finish :: "job \<Rightarrow> (queue, outcome) service" where
  "finish j = seqs (markDone (jid j)) (\<lambda>_. ret Out_done)"

text \<open>A call that answers or throws the given message.\<close>

definition answer :: "string + 'a \<Rightarrow> (queue, 'a) service" where
  "answer r = (case r of Inl msg \<Rightarrow> throw (Plain msg) | Inr x \<Rightarrow> ret x)"

section \<open>backfill.js\<close>

definition backfill_execute :: "(job \<Rightarrow> string option) \<Rightarrow> job \<Rightarrow> (queue, outcome) service" where
  "backfill_execute rebuildShadow j =
     (case rebuildShadow j of Some msg \<Rightarrow> throw (Plain msg) | None \<Rightarrow> finish j)"

definition runPendingBackfillJobs :: "(job \<Rightarrow> string option) \<Rightarrow> (queue, nat) service" where
  "runPendingBackfillJobs rebuildShadow =
     drainKind ''backfill'' (other_kinds ''backfill'') (backfill_execute rebuildShadow)"

section \<open>asr.js\<close>

text \<open>\<open>detectMediaKind\<close> of \<open>mediaSampling.js\<close>, on the tags that ffprobe reported.\<close>

definition tag :: "(string \<times> string) list \<Rightarrow> string \<Rightarrow> string" where
  "tag tags k = (case map_of (rev (map (\<lambda>(a, v). (to_lower a, v)) tags)) k of None \<Rightarrow> [] | Some v \<Rightarrow> v)"

definition MUSIC_TAG_KEYS :: "string list" where
  "MUSIC_TAG_KEYS = [''artist'', ''album'', ''genre'', ''composer'', ''track'']"

definition spoken_genre :: "string \<Rightarrow> bool" where
  "spoken_genre g \<longleftrightarrow> (\<exists>w \<in> set [''speech'', ''spoken'', ''audiobook'', ''podcast'', ''lecture'', ''sermon'', ''interview''].
     has_infix (to_lower g) w)"

definition detectMediaKind :: "(string \<times> string) list \<Rightarrow> string option" where
  "detectMediaKind tags =
     (let explicit = to_lower (if tag tags ''media_kind'' \<noteq> [] then tag tags ''media_kind''
                               else tag tags ''media_kind_tag'')
      in if explicit = ''music'' then Some ''music''
         else if tag tags ''genre'' \<noteq> [] \<and> \<not> spoken_genre (tag tags ''genre'') then Some ''music''
         else if \<exists>k \<in> set MUSIC_TAG_KEYS. k \<noteq> ''genre'' \<and> tag tags k \<noteq> [] then Some ''music''
         else None)"

text \<open>\<open>replace(/\s+/g, ' ')\<close>, and the final \<open>replace(/[.!]+$/, '')\<close>.\<close>

fun one_space :: "string \<Rightarrow> string" where
  "one_space [] = []"
| "one_space [c] = [if is_space c then CHR '' '' else c]"
| "one_space (c # d # s) =
     (if is_space c \<and> is_space d then one_space (d # s)
      else (if is_space c then CHR '' '' else c) # one_space (d # s))"

definition isNoneTranscript :: "string \<Rightarrow> bool" where
  "isNoneTranscript t =
     (let n = rev (dropWhile (\<lambda>c. c \<in> {CHR ''.'', CHR ''!''}) (rev (to_lower (trim (one_space t)))))
      in n = [] \<or> n = ''none'')"

record asr_ctx =
  as_capable :: bool
  as_node :: "nat \<Rightarrow> string + string option"
  as_blob :: "nat \<Rightarrow> string + nat list option"
  as_probe :: "nat list \<Rightarrow> string \<Rightarrow> string + (string \<times> string) list"
  as_transcribe :: "nat list \<Rightarrow> string + string"
  as_model :: "string + nat option"
  as_upsert :: "nat \<Rightarrow> string \<Rightarrow> nat option \<Rightarrow> (string \<times> string) list \<Rightarrow> string option \<Rightarrow> string + unit"

definition chain_embed :: "job \<Rightarrow> (queue, unit) service" where
  "chain_embed j = catching (seqs (enqueue (jnode j) ''embed'' (jgen j) (jhash j)) (\<lambda>_. ret ())) (\<lambda>_. ret ())"

definition runAsrJob :: "asr_ctx \<Rightarrow> job \<Rightarrow> (queue, outcome) service" where
  "runAsrJob ctx j =
     (if \<not> as_capable ctx then skip_with j ''capability_absent''
      else seqs (answer (as_node ctx (jnode j))) (\<lambda>node. case node of
        None \<Rightarrow> skip_with j ''node_missing''
      | Some mimeType \<Rightarrow> seqs (answer (as_blob ctx (jnode j))) (\<lambda>buffer.
          if buffer = None \<or> buffer = Some [] then skip_with j ''missing_content''
          else seqs (answer (as_probe ctx (the buffer) mimeType)) (\<lambda>probe.
               seqs (answer (as_transcribe ctx (the buffer))) (\<lambda>result.
               let transcript = trim result
               in seqs (if isNoneTranscript transcript then ret ()
                        else seqs (answer (as_model ctx)) (\<lambda>asrModelId.
                          answer (as_upsert ctx (jnode j) transcript asrModelId probe (detectMediaKind probe)))) (\<lambda>_.
                  seqs (chain_embed j) (\<lambda>_. finish j)))))))"

text \<open>
  The gate of the role: there may be no adapter, an adapter without a gate, or a gate that answers or
  fails. A drain behind an open gate first reaps all running rows, whatever their age.
\<close>

datatype role_gate = No_adapter | No_gate | Gate bool | Gate_fails

fun gate_open :: "role_gate \<Rightarrow> bool" where
  "gate_open No_adapter = False"
| "gate_open No_gate = True"
| "gate_open (Gate b) = b"
| "gate_open Gate_fails = False"

definition runPendingAsrJobs :: "role_gate \<Rightarrow> asr_ctx \<Rightarrow> (queue, nat) service" where
  "runPendingAsrJobs gate ctx =
     (if \<not> gate_open gate then ret 0
      else seqs (recoverStaleRunning 0) (\<lambda>_. drainKind ''asr'' (other_kinds ''asr'') (runAsrJob ctx)))"

section \<open>caption.js\<close>

definition MAX_CAPTION_FRAMES :: nat where
  "MAX_CAPTION_FRAMES = 4"

text \<open>\<open>getFileType\<close> of the name first, then the MIME type.\<close>

definition visualKindOf :: "string \<Rightarrow> string \<Rightarrow> file_type option" where
  "visualKindOf name mimeType =
     (let mime = to_lower mimeType
      in if getFileType name = Image then Some Image
         else if getFileType name = Video then Some Video
         else if starts_with mime ''image/'' then Some Image
         else if starts_with mime ''video/'' then Some Video
         else None)"

record caption_ctx =
  ca_capable :: bool
  ca_node :: "nat \<Rightarrow> string + (string \<times> string) option"
  ca_blob :: "nat \<Rightarrow> string + nat list option"
  ca_frames :: "nat list \<Rightarrow> nat \<Rightarrow> string \<Rightarrow> string + nat list list"
  ca_caption :: "nat list list \<Rightarrow> string + string"
  ca_model :: "string + nat option"
  ca_upsert :: "nat \<Rightarrow> string \<Rightarrow> nat option \<Rightarrow> string + unit"

definition runCaptionJob :: "caption_ctx \<Rightarrow> job \<Rightarrow> (queue, outcome) service" where
  "runCaptionJob ctx j =
     (if \<not> ca_capable ctx then skip_with j ''capability_absent''
      else seqs (answer (ca_node ctx (jnode j))) (\<lambda>node. case node of
        None \<Rightarrow> skip_with j ''node_missing''
      | Some (name, mimeType) \<Rightarrow> (case visualKindOf name mimeType of
          None \<Rightarrow> skip_with j ''not_visual_media''
        | Some visualKind \<Rightarrow> seqs (answer (ca_blob ctx (jnode j))) (\<lambda>buffer.
            if buffer = None \<or> buffer = Some [] then skip_with j ''missing_content''
            else seqs (if visualKind = Image then ret [the buffer]
                       else answer (ca_frames ctx (the buffer) MAX_CAPTION_FRAMES mimeType)) (\<lambda>frames.
                 if frames = [] then skip_with j ''no_frames''
                 else seqs (answer (ca_caption ctx (take MAX_CAPTION_FRAMES frames))) (\<lambda>result.
                      let caption = trim result
                      in if caption = [] then throw (Plain ''vision role returned an empty caption'')
                         else seqs (answer (ca_model ctx)) (\<lambda>captionModelId.
                              seqs (answer (ca_upsert ctx (jnode j) caption captionModelId)) (\<lambda>_.
                              seqs (chain_embed j) (\<lambda>_. finish j)))))))))"

definition runPendingCaptionJobs :: "role_gate \<Rightarrow> caption_ctx \<Rightarrow> (queue, nat) service" where
  "runPendingCaptionJobs gate ctx =
     (if \<not> gate_open gate then ret 0
      else seqs (recoverStaleRunning 0) (\<lambda>_. drainKind ''caption'' (other_kinds ''caption'') (runCaptionJob ctx)))"

end
