(* ===== verification/JobLaws.thy ===== *)
theory JobLaws
  imports Pipelines
begin

text \<open>
  The laws of the job queue: the shape of its rows and their life cycle over every history, whom a
  claim serves, and what a drain of the worker leaves. A drain's lemmas are proved once for every
  executor that settles its job, in the locale \<open>settling\<close>, and interpreted for the three kinds.
\<close>

section \<open>Rows\<close>

definition settled_ok :: "job \<Rightarrow> bool" where
  "settled_ok j \<longleftrightarrow> jstarted j \<noteq> None \<and> jfinished j \<noteq> None"

definition fresh_job :: "job \<Rightarrow> bool" where
  "fresh_job j \<longleftrightarrow> jattempt j = 0 \<and> jretry j = None \<and> jstarted j = None"

text \<open>A failed row has a retry time, at most the longest back-off after its failure.\<close>

definition retry_ok :: "job \<Rightarrow> bool" where
  "retry_ok j \<longleftrightarrow> jattempt j \<ge> 1 \<and>
     (\<exists>f r. jfinished j = Some f \<and> jretry j = Some r \<and> f \<le> r \<and> r \<le> f + AI_JOB_RETRY_MAX_MS)"

definition status_ok :: "job \<Rightarrow> bool" where
  "status_ok j = (case jstatus j of
       Job_pending \<Rightarrow> fresh_job j \<and> jfinished j = None
     | Job_running \<Rightarrow> jstarted j \<noteq> None
     | Job_done \<Rightarrow> settled_ok j
     | Job_failed \<Rightarrow> retry_ok j
     | Job_skipped \<Rightarrow> settled_ok j
     | Job_cancelled \<Rightarrow> fresh_job j \<and> jfinished j \<noteq> None)"

definition job_ok :: "nat set \<Rightarrow> job \<Rightarrow> bool" where
  "job_ok nodes j \<longleftrightarrow> jnode j \<in> nodes \<and> jkind j \<in> set AI_JOB_KIND_ALL \<and> status_ok j \<and>
     (case jerror j of None \<Rightarrow> True | Some e \<Rightarrow> length e \<le> 1024)"

definition jobs_ok :: "queue \<Rightarrow> bool" where
  "jobs_ok q \<longleftrightarrow> distinct (map jid (qjobs q)) \<and> distinct (map job_key (qjobs q)) \<and>
     (\<forall>j \<in> set (qjobs q). jid j < qnext q \<and> job_ok (set (qnodes q)) j)"

lemmas job_status_defs = status_ok_def settled_ok_def fresh_job_def retry_ok_def

lemmas job_edits = start_job_def done_job_def failed_job_def skipped_job_def reaped_job_def rearmed_def
  cancelled_job_def

lemma jobs_okD:
  assumes "jobs_ok q"
  shows "distinct (map jid (qjobs q))" "distinct (map job_key (qjobs q))"
    "j \<in> set (qjobs q) \<Longrightarrow> jid j < qnext q" "j \<in> set (qjobs q) \<Longrightarrow> job_ok (set (qnodes q)) j"
  using assms by (auto simp: jobs_ok_def)

lemma same_id: "jobs_ok q \<Longrightarrow> j \<in> set (qjobs q) \<Longrightarrow> k \<in> set (qjobs q) \<Longrightarrow> jid j = jid k \<Longrightarrow> j = k"
  using distinct_map_unique [OF jobs_okD(1)] by blast

lemma getById_Some:
  assumes "jobs_ok q" "j \<in> set (qjobs q)"
  shows "getById q (jid j) = Some j"
  unfolding getById_def
  by (rule first_row_filter_unique [where g = jid]) (use assms jobs_okD(1) in auto)

lemma backoff_bounds: "0 \<le> backoffMs n" "backoffMs n \<le> AI_JOB_RETRY_MAX_MS"
  by (auto simp: backoffMs_def AI_JOB_RETRY_BASE_MS_def AI_JOB_RETRY_MAX_MS_def)

section \<open>The one form of a write\<close>

text \<open>An edit keeps the identity of a row.\<close>

definition keeps_id :: "(job \<Rightarrow> job) \<Rightarrow> bool" where
  "keeps_id f \<longleftrightarrow> (\<forall>j. jid (f j) = jid j \<and> job_key (f j) = job_key j \<and> jcreated (f j) = jcreated j)"

lemma edits_keep_id [simp]:
  "keeps_id (start_job now)" "keeps_id (done_job now)" "keeps_id (failed_job now r e)"
  "keeps_id (skipped_job now e)" "keeps_id (reaped_job now)" "keeps_id (rearmed h)"
  "keeps_id (cancelled_job now)"
  by (simp_all add: keeps_id_def job_edits job_key_def)

lemma jobs_ok_update:
  assumes "jobs_ok q" "keeps_id f"
    and "\<And>j. j \<in> set (qjobs q) \<Longrightarrow> p j \<Longrightarrow> job_ok (set (qnodes q)) (f j)"
  shows "jobs_ok (q\<lparr>qjobs := update_where p f (qjobs q)\<rparr>)"
  using assms by (auto simp: jobs_ok_def keeps_id_def map_update_where set_update_where)

lemma job_ok_edits:
  assumes "job_ok ns j"
  shows "job_ok ns (start_job now j)"
    "jstatus j = Job_running \<Longrightarrow> job_ok ns (done_job now j)"
    "now \<le> r \<Longrightarrow> r \<le> now + AI_JOB_RETRY_MAX_MS \<Longrightarrow> job_ok ns (failed_job now r (truncateError e) j)"
    "jstatus j = Job_running \<Longrightarrow> job_ok ns (skipped_job now (truncateError e) j)"
    "job_ok ns (reaped_job now j)"
    "job_ok ns (rearmed h j)"
    "jstatus j = Job_pending \<Longrightarrow> job_ok ns (cancelled_job now j)"
  using assms
  by (auto simp: job_ok_def job_status_defs job_edits truncateError_def AI_JOB_RETRY_MAX_MS_def split: option.splits)

section \<open>The life cycle\<close>

fun next_status :: "job_status \<Rightarrow> job_status list" where
  "next_status Job_pending = [Job_running, Job_cancelled, Job_pending]"
| "next_status Job_running = [Job_done, Job_failed, Job_skipped, Job_pending]"
| "next_status Job_failed = [Job_running, Job_pending]"
| "next_status Job_done = [Job_pending]"
| "next_status Job_skipped = [Job_pending]"
| "next_status Job_cancelled = [Job_pending]"

text \<open>
  One change of a row: it keeps its identity, follows an edge, counts an attempt exactly when it fails,
  and goes back to pending only for a new content hash, which starts its attempts again.
\<close>

definition job_edge :: "job \<Rightarrow> job \<Rightarrow> bool" where
  "job_edge j k \<longleftrightarrow> jid k = jid j \<and> job_key k = job_key j \<and> jcreated k = jcreated j \<and>
     (k = j \<or> jstatus k \<in> set (next_status (jstatus j)) \<and>
        (if jstatus k = Job_pending
         then jhash j \<noteq> None \<and> jhash k \<noteq> None \<and> jhash k \<noteq> jhash j \<and> jattempt k = 0
         else jhash k = jhash j \<and>
              jattempt k = jattempt j + (if jstatus k = Job_failed then 1 else 0)))"

lemma job_edge_refl [simp]: "job_edge j j"
  by (simp add: job_edge_def)

inductive job_step :: "queue \<Rightarrow> queue \<Rightarrow> bool" where
  tick: "0 \<le> ms \<Longrightarrow> job_step q (q\<lparr>qclock := qclock q + ms\<rparr>)"
| node_added: "job_step q (q\<lparr>qnodes := n # qnodes q\<rparr>)"
| nodes_deleted: "job_step q (nodes_removed ids q)"
| enqueued: "job_step q (snd (enqueue node kind gen h q))"
| enqueued_many: "job_step q (snd (enqueueMany items q))"
| cancelled: "job_step q (snd (cancelPending ids q))"
| claimed: "job_step q (snd (claimNext excluded q))"
| finished: "job_step q (snd (markDone i q))"
| failed: "job_step q (snd (markFailed i e q))"
| skipped: "job_step q (snd (markSkipped i e q))"
| reaped: "job_step q (snd (recoverStaleRunning ms q))"

text \<open>What a step does to the rows: they follow edges, and new ones are pending.\<close>

definition rows_follow :: "queue \<Rightarrow> queue \<Rightarrow> bool" where
  "rows_follow q t \<longleftrightarrow>
     (\<forall>j \<in> set (qjobs q). (\<exists>k \<in> set (qjobs t). job_edge j k) \<or> jnode j \<notin> set (qnodes t)) \<and>
     (\<forall>k \<in> set (qjobs t). (\<exists>j \<in> set (qjobs q). job_edge j k) \<or>
        qnext q \<le> jid k \<and> jstatus k = Job_pending \<and> fresh_job k)"

definition step_ok :: "queue \<Rightarrow> queue \<Rightarrow> bool" where
  "step_ok q t \<longleftrightarrow> jobs_ok t \<and> rows_follow q t"

lemma rows_follow_same: "qjobs t = qjobs q \<Longrightarrow> rows_follow q t"
  unfolding rows_follow_def using job_edge_refl by metis

lemma rows_follow_image:
  assumes "set (qjobs t) = g ` set (qjobs q)" "\<And>j. j \<in> set (qjobs q) \<Longrightarrow> job_edge j (g j)"
  shows "rows_follow q t"
  unfolding rows_follow_def assms(1) using assms(2) by blast

lemma step_ok_update:
  assumes "jobs_ok q" "keeps_id f"
    and "\<And>j. j \<in> set (qjobs q) \<Longrightarrow> p j \<Longrightarrow> job_ok (set (qnodes q)) (f j) \<and> job_edge j (f j)"
  shows "step_ok q (q\<lparr>qjobs := update_where p f (qjobs q)\<rparr>)"
proof -
  let ?g = "\<lambda>j. if p j then f j else j" and ?t = "q\<lparr>qjobs := update_where p f (qjobs q)\<rparr>"
  have "job_edge j (?g j)" if "j \<in> set (qjobs q)" for j
    using assms(3) [OF that] by simp
  moreover have "set (qjobs ?t) = ?g ` set (qjobs q)" by (simp add: set_update_where)
  ultimately have "rows_follow q ?t" by (intro rows_follow_image)
  moreover have "jobs_ok (q\<lparr>qjobs := update_where p f (qjobs q)\<rparr>)"
    using jobs_ok_update assms by blast
  ultimately show ?thesis by (simp add: step_ok_def)
qed

lemma update_jobs_snd: "snd (update_jobs p f q) = q\<lparr>qjobs := update_where p f (qjobs q)\<rparr>"
  by (simp add: update_jobs_def)

lemma edge_edits:
  "jstatus j \<in> {Job_pending, Job_failed} \<Longrightarrow> job_edge j (start_job now j)"
  "jstatus j = Job_running \<Longrightarrow> job_edge j (done_job now j)"
  "jstatus j = Job_running \<Longrightarrow> job_edge j (failed_job now r e j)"
  "jstatus j = Job_running \<Longrightarrow> job_edge j (skipped_job now e j)"
  "jstatus j = Job_running \<Longrightarrow> job_edge j (reaped_job now j)"
  "jhash j \<noteq> None \<Longrightarrow> h \<noteq> None \<Longrightarrow> jhash j \<noteq> h \<Longrightarrow> job_edge j (rearmed h j)"
  "jstatus j = Job_pending \<Longrightarrow> job_edge j (cancelled_job now j)"
  by (auto simp: job_edge_def job_edits job_key_def) (cases "jstatus j", simp_all)

lemma claimable_status: "claimable now ks j \<Longrightarrow> jstatus j \<in> {Job_pending, Job_failed}"
  by (auto simp: claimable_def)

lemma claimNext_cases:
  assumes "jobs_ok q"
  obtains (none) "claimNext ks q = (Inr None, q)"
      "\<And>j. j \<in> set (qjobs q) \<Longrightarrow> \<not> claimable (qclock q) (normalizeExcludeKinds ks) j"
    | (some) j where "claimNext ks q = (Inr (Some (start_job (qclock q) j)),
         q\<lparr>qjobs := update_where (\<lambda>x. jid x = jid j) (start_job (qclock q)) (qjobs q)\<rparr>)"
      "j \<in> set (qjobs q)" "claimable (qclock q) (normalizeExcludeKinds ks) j"
      "\<And>k. k \<in> set (qjobs q) \<Longrightarrow> claimable (qclock q) (normalizeExcludeKinds ks) k \<Longrightarrow> jid j \<le> jid k"
proof -
  let ?c = "claimable (qclock q) (normalizeExcludeKinds ks)"
  let ?s = "sort_key jid (filter ?c (qjobs q))"
  show ?thesis
  proof (cases ?s)
    case Nil
    then have "filter ?c (qjobs q) = []" by (simp only: sort_key_empty)
    then have "\<And>j. j \<in> set (qjobs q) \<Longrightarrow> \<not> ?c j" by (simp add: filter_empty_conv)
    with Nil show ?thesis by (intro none) (simp_all add: claimNext_def)
  next
    case (Cons j js)
    have set: "set ?s = {j \<in> set (qjobs q). ?c j}" by simp
    have "sorted (map jid ?s)" by simp
    then have "jid j \<le> jid k" if "k \<in> set (qjobs q)" "?c k" for k
      using that set unfolding Cons by auto
    moreover have "j \<in> set (qjobs q)" "?c j" using set unfolding Cons by auto
    ultimately show ?thesis using Cons by (intro some [of j]) (simp_all add: claimNext_def)
  qed
qed

lemma step_ok_refl: "jobs_ok q \<Longrightarrow> step_ok q q"
  by (simp add: step_ok_def rows_follow_same)

lemma claim_step:
  assumes ok: "jobs_ok q"
  shows "step_ok q (snd (claimNext ks q))"
proof (cases rule: claimNext_cases [OF ok, of ks])
  case (2 j)
  note some = 2
  have "step_ok q (q\<lparr>qjobs := update_where (\<lambda>x. jid x = jid j) (start_job (qclock q)) (qjobs q)\<rparr>)"
  proof (rule step_ok_update [OF ok])
    fix k assume "k \<in> set (qjobs q)" "jid k = jid j"
    then have "k = j" using same_id ok some(2) by blast
    then show "job_ok (set (qnodes q)) (start_job (qclock q) k) \<and> job_edge k (start_job (qclock q) k)"
      using jobs_okD(4) [OF ok some(2)] job_ok_edits(1) edge_edits(1) claimable_status [OF some(3)] by blast
  qed simp
  then show ?thesis using some(1) by simp
qed (simp add: step_ok_refl [OF ok])

lemma mark_steps:
  assumes ok: "jobs_ok q"
  shows "step_ok q (snd (markDone i q))" "step_ok q (snd (markFailed i e q))"
    "step_ok q (snd (markSkipped i e q))" "step_ok q (snd (recoverStaleRunning ms q))"
proof -
  show "step_ok q (snd (markDone i q))"
    unfolding markDone_def seqs_reads update_jobs_snd
    by (rule step_ok_update [OF ok])
      (use jobs_okD(4) [OF ok] job_ok_edits(2) edge_edits(2) in \<open>simp_all add: running_with_def\<close>)
  show "step_ok q (snd (markSkipped i e q))"
    unfolding markSkipped_def seqs_reads update_jobs_snd
    by (rule step_ok_update [OF ok])
      (use jobs_okD(4) [OF ok] job_ok_edits(4) edge_edits(4) in \<open>simp_all add: running_with_def\<close>)
  show "step_ok q (snd (recoverStaleRunning ms q))"
    unfolding recoverStaleRunning_def seqs_reads update_jobs_snd
    by (rule step_ok_update [OF ok])
      (use jobs_okD(4) [OF ok] job_ok_edits(5) edge_edits(5) in \<open>simp_all add: stale_running_def\<close>)
  show "step_ok q (snd (markFailed i e q))"
  proof (cases "getById q i")
    case None
    then show ?thesis using step_ok_refl [OF ok] by (simp add: markFailed_def seqs_reads ret_def)
  next
    case (Some r)
    let ?b = "backoffMs (int (jattempt r) + 1)"
    have "step_ok q (snd (update_jobs (running_with i)
        (failed_job (qclock q) (qclock q + ?b) (truncateError e)) q))"
      unfolding update_jobs_snd
      by (rule step_ok_update [OF ok])
        (use jobs_okD(4) [OF ok] job_ok_edits(3) edge_edits(3) backoff_bounds [of "int (jattempt r) + 1"]
          in \<open>simp_all add: running_with_def\<close>)
    then show ?thesis using Some by (simp add: markFailed_def seqs_reads)
  qed
qed


text \<open>Rows are only ever added at the end, pending and with a new id.\<close>

definition grown :: "queue \<Rightarrow> queue \<Rightarrow> bool" where
  "grown q t \<longleftrightarrow> jobs_ok t \<and> qnodes t = qnodes q \<and> qnext q \<le> qnext t \<and>
     (\<exists>new. qjobs t = qjobs q @ new \<and>
        (\<forall>k \<in> set new. qnext q \<le> jid k \<and> jstatus k = Job_pending \<and> fresh_job k))"

lemma grown_step:
  assumes "grown q t"
  shows "step_ok q t"
proof -
  obtain new where new: "qjobs t = qjobs q @ new"
    "\<forall>k \<in> set new. qnext q \<le> jid k \<and> jstatus k = Job_pending \<and> fresh_job k"
    using assms by (auto simp: grown_def)
  have "rows_follow q t" unfolding rows_follow_def new(1) set_append using new(2) job_edge_refl by blast
  then show ?thesis using assms by (simp add: step_ok_def grown_def)
qed

lemma insert_grown:
  assumes "grown q t" and new: "\<And>j. j \<in> set (qjobs t) \<Longrightarrow> job_key j \<noteq> (node, kind, gen)"
  shows "grown q (snd (insert_job node kind gen h t))"
proof (cases "kind \<notin> set AI_JOB_KIND_ALL \<or> node \<notin> set (qnodes t)")
  case True
  then show ?thesis using assms(1) by (auto simp: insert_job_def)
next
  case False
  let ?j = "new_job t node kind gen h"
  have ok: "jobs_ok t" using assms(1) by (simp add: grown_def)
  have "qnext t \<notin> jid ` set (qjobs t)" using jobs_okD(3) [OF ok] by fastforce
  moreover have "job_key ?j \<notin> job_key ` set (qjobs t)" using new by (auto simp: new_job_def job_key_def)
  moreover have "job_ok (set (qnodes t)) ?j" using False by (simp add: job_ok_def job_status_defs new_job_def)
  moreover have "\<forall>j \<in> set (qjobs t). jid j < Suc (qnext t)" using jobs_okD(3) [OF ok] less_SucI by blast
  ultimately have "jobs_ok (t\<lparr>qjobs := qjobs t @ [?j], qnext := Suc (qnext t)\<rparr>)"
    using ok by (simp add: jobs_ok_def) (simp add: new_job_def)
  moreover have "qnext t = jid ?j" "jstatus ?j = Job_pending" "fresh_job ?j"
    by (simp_all add: new_job_def fresh_job_def)
  ultimately show ?thesis
    using assms(1) False unfolding grown_def insert_job_def by auto
qed

lemma enqueue_step:
  assumes ok: "jobs_ok q"
  shows "step_ok q (snd (enqueue node kind gen h q))"
proof (cases "first_row (filter (\<lambda>j. job_key j = (node, kind, gen)) (qjobs q))")
  case None
  then have "\<And>j. j \<in> set (qjobs q) \<Longrightarrow> job_key j \<noteq> (node, kind, gen)"
    by (simp add: first_row_None filter_empty_conv)
  moreover have "grown q q" using ok by (simp add: grown_def)
  ultimately have "step_ok q (snd (insert_job node kind gen h q))" using insert_grown grown_step by blast
  moreover have "enqueue node kind gen h q = seqs (insert_job node kind gen h) (\<lambda>i. ret (Some i)) q"
    using None by (simp add: enqueue_def seqs_reads)
  ultimately show ?thesis
    by (cases "insert_job node kind gen h q"; cases "fst (insert_job node kind gen h q)")
      (simp_all add: seqs_def ret_def)
next
  case (Some j)
  then have j: "j \<in> set (qjobs q)" using first_row_in by fastforce
  show ?thesis
  proof (cases "jhash j \<noteq> None \<and> h \<noteq> None \<and> jhash j \<noteq> h")
    case True
    have "step_ok q (q\<lparr>qjobs := update_where (\<lambda>x. jid x = jid j) (rearmed h) (qjobs q)\<rparr>)"
    proof (rule step_ok_update [OF ok])
      fix k assume "k \<in> set (qjobs q)" "jid k = jid j"
      then have "k = j" using same_id ok j by blast
      then show "job_ok (set (qnodes q)) (rearmed h k) \<and> job_edge k (rearmed h k)"
        using True jobs_okD(4) [OF ok j] job_ok_edits(6) edge_edits(6) by blast
    qed simp
    then show ?thesis using Some True by (simp add: enqueue_def service_simps ret_def)
  next
    case False
    then have "snd (enqueue node kind gen h q) = q" using Some by (auto simp: enqueue_def service_simps ret_def)
    then show ?thesis using step_ok_refl [OF ok] by simp
  qed
qed

lemma enqueue_each_grown: "grown q t \<Longrightarrow> grown q (snd (enqueue_each items ids t))"
proof (induction items ids arbitrary: t rule: enqueue_each.induct)
  case (2 node kind gen h rest ids)
  show ?case
  proof (cases "\<exists>j \<in> set (qjobs t). job_key j = (node, kind, gen)")
    case True
    then show ?thesis using 2 by (simp add: seqs_reads)
  next
    case False
    then have "grown q (snd (insert_job node kind gen h t))" using insert_grown 2(3) by blast
    moreover have "grown q u \<Longrightarrow> grown q (snd (enqueue_each rest (ids @ [i]) u))" for i u
      using 2(2) [of False] by simp
    moreover have "enqueue_each ((node, kind, gen, h) # rest) ids t
        = seqs (insert_job node kind gen h) (\<lambda>i. enqueue_each rest (ids @ [i])) t"
      using False by (simp add: seqs_reads)
    ultimately show ?thesis
      by (cases "insert_job node kind gen h t"; cases "fst (insert_job node kind gen h t)")
        (simp_all del: enqueue_each.simps add: seqs_def)
  qed
qed (simp add: ret_def)

lemma enqueueMany_step:
  assumes "jobs_ok q"
  shows "step_ok q (snd (enqueueMany items q))"
proof -
  have "grown q q" using assms by (simp add: grown_def)
  then have "step_ok q (snd (enqueue_each items [] q))" using enqueue_each_grown grown_step by blast
  then show ?thesis using step_ok_refl [OF assms]
    by (cases "enqueue_each items [] q"; cases "fst (enqueue_each items [] q)") (simp_all add: enqueueMany_def)
qed

lemma cancel_again:
  "update_where (\<lambda>j. jid j \<in> A \<and> jstatus j = Job_pending) (cancelled_job now)
     (update_where (\<lambda>j. jid j = i \<and> jstatus j = Job_pending) (cancelled_job now) xs)
   = update_where (\<lambda>j. jid j \<in> insert i A \<and> jstatus j = Job_pending) (cancelled_job now) xs"
  by (induction xs) (auto simp: update_where_def cancelled_job_def)

lemma cancel_each_jobs:
  "snd (cancel_each ids acc q) = q\<lparr>qjobs := update_where
     (\<lambda>j. jid j \<in> set ids \<and> jstatus j = Job_pending) (cancelled_job (qclock q)) (qjobs q)\<rparr>"
proof (induction ids acc arbitrary: q rule: cancel_each.induct)
  case (2 i "is" cancelled skipped)
  show ?case
    unfolding cancel_each.simps seqs_reads
    by (subst seqs_def) (simp add: update_jobs_def 2 cancel_again [simplified])
qed (simp add: ret_def update_where_def)

lemma cancel_step:
  assumes ok: "jobs_ok q"
  shows "step_ok q (snd (cancelPending ids q))"
  unfolding cancelPending_def cancel_each_jobs
  by (rule step_ok_update [OF ok])
    (use jobs_okD(4) [OF ok] job_ok_edits(7) edge_edits(7) in simp_all)

lemma job_ok_more_nodes: "job_ok A j \<Longrightarrow> jnode j \<in> B \<Longrightarrow> job_ok B j"
  by (simp add: job_ok_def)

lemma nodes_step:
  assumes ok: "jobs_ok q"
  shows "step_ok q (nodes_removed ids q)"
proof -
  have "jobs_ok (nodes_removed ids q)"
    using ok by (auto simp: jobs_ok_def nodes_removed_def distinct_map_delete job_ok_def)
  moreover have "set (qjobs (nodes_removed ids q)) = {j \<in> set (qjobs q). jnode j \<notin> set ids}"
    "\<And>i. i \<in> set (qnodes (nodes_removed ids q)) \<Longrightarrow> i \<notin> set ids"
    by (simp_all add: nodes_removed_def)
  then have "rows_follow q (nodes_removed ids q)"
    unfolding rows_follow_def using job_edge_refl by blast
  ultimately show ?thesis by (simp add: step_ok_def)
qed

lemma job_step_ok:
  assumes "job_step q t" "jobs_ok q"
  shows "step_ok q t"
  using assms
proof cases
  case (tick ms)
  then show ?thesis using assms(2) by (simp add: step_ok_def jobs_ok_def rows_follow_same)
next
  case (node_added n)
  then show ?thesis using assms(2)
    by (auto simp: step_ok_def jobs_ok_def rows_follow_same intro: job_ok_more_nodes simp: job_ok_def)
qed (use assms(2) enqueue_step enqueueMany_step cancel_step claim_step mark_steps nodes_step in auto)

lemma jobs_reachable_ok: "job_step\<^sup>*\<^sup>* q t \<Longrightarrow> jobs_ok q \<Longrightarrow> jobs_ok t"
proof (induction rule: rtranclp_induct)
  case (step t u)
  then show ?case using job_step_ok by (simp add: step_ok_def)
qed


section \<open>Executors\<close>

lemma seqs_assoc: "seqs (seqs m f) g s = seqs m (\<lambda>x. seqs (f x) g) s"
  by (simp add: seqs_def split: prod.splits sum.splits)

lemma branches:
  "(if b then m else n) s = (if b then m s else n s)"
  "seqs (if b then m else n) f = (if b then seqs m f else seqs n f)"
  by simp_all

definition own :: "string \<Rightarrow> queue \<Rightarrow> job list" where
  "own kind q = filter (\<lambda>j. jkind j = kind) (qjobs q)"

definition settled :: "job \<Rightarrow> bool" where
  "settled j \<longleftrightarrow> jstatus j \<in> {Job_done, Job_skipped}"

definition replace_job :: "nat \<Rightarrow> job \<Rightarrow> job list \<Rightarrow> job list" where
  "replace_job i k js = update_where (\<lambda>x. jid x = i) (\<lambda>_. k) js"

text \<open>
  What the drain needs of an executor that runs job \<open>j\<close>: it throws and leaves the rows of its kind
  alone, or it settles the row of \<open>j\<close> and leaves the others of its kind alone.
\<close>

definition settles :: "string \<Rightarrow> job \<Rightarrow> queue \<Rightarrow> (err + outcome) \<times> queue \<Rightarrow> bool" where
  "settles kind j q out \<longleftrightarrow> jobs_ok (snd out) \<and> qclock (snd out) = qclock q \<and>
     (case fst out of
        Inl e \<Rightarrow> e \<noteq> No_return \<and> own kind (snd out) = own kind q
      | Inr res \<Rightarrow> res \<noteq> Out_failed \<and>
          (\<exists>k. own kind (snd out) = replace_job (jid j) k (own kind q) \<and> jid k = jid j \<and>
               jkind k = kind \<and> settled k))"

lemma settles_mono:
  "settles kind j t out \<Longrightarrow> qclock t = qclock q \<Longrightarrow> own kind t = own kind q \<Longrightarrow> settles kind j q out"
  by (cases "fst out") (simp_all add: settles_def)

lemma own_in: "j \<in> set (own kind q) \<longleftrightarrow> j \<in> set (qjobs q) \<and> jkind j = kind"
  by (simp add: own_def)

lemma own_ids: "jobs_ok q \<Longrightarrow> distinct (map jid (own kind q))"
  by (simp add: own_def distinct_map_filter jobs_okD(1))

lemma own_update:
  assumes "\<And>x. jkind (f x) = jkind x"
  shows "own kind (q\<lparr>qjobs := update_where p f (qjobs q)\<rparr>) = update_where p f (own kind q)"
proof -
  have "filter (\<lambda>j. jkind j = kind) (update_where p f js) = update_where p f (filter (\<lambda>j. jkind j = kind) js)" for js
    by (induction js) (auto simp: update_where_def assms)
  then show ?thesis by (simp add: own_def)
qed

text \<open>An edit of the row with the id of \<open>j\<close>.\<close>

lemma own_edit:
  assumes "jobs_ok q" "j \<in> set (own kind q)" "\<And>x. jkind (f x) = jkind x"
    and "\<And>x. x \<in> set (own kind q) \<Longrightarrow> p x \<longleftrightarrow> x = j"
  shows "own kind (q\<lparr>qjobs := update_where p f (qjobs q)\<rparr>) = replace_job (jid j) (f j) (own kind q)"
proof -
  have eq: "x = j \<longleftrightarrow> jid x = jid j" if "x \<in> set (own kind q)" for x
    using that assms(1,2) same_id by (auto simp: own_in)
  show ?thesis
    unfolding own_update [OF assms(3)]
    unfolding replace_job_def update_where_def
    by (rule map_cong [OF refl]) (use eq assms(4) in metis)
qed

lemma own_running:
  assumes "jobs_ok q" "j \<in> set (own kind q)" "jstatus j = Job_running" "x \<in> set (own kind q)"
  shows "running_with (jid j) x \<longleftrightarrow> x = j"
  using assms same_id by (auto simp: running_with_def own_in)

lemma settles_finish:
  assumes "jobs_ok q" "j \<in> set (own kind q)" "jstatus j = Job_running"
  shows "settles kind j q (finish j q)" "settles kind j q (skip_with j r q)"
proof -
  note own = own_edit [OF assms(1,2) _ own_running [OF assms]]
  have k: "jkind j = kind" using assms(2) by (simp add: own_in)
  have "own kind (q\<lparr>qjobs := update_where (running_with (jid j)) (done_job (qclock q)) (qjobs q)\<rparr>)
      = replace_job (jid j) (done_job (qclock q) j) (own kind q)"
    by (rule own) (simp_all add: done_job_def)
  moreover have "jid (done_job (qclock q) j) = jid j" "jkind (done_job (qclock q) j) = kind"
    "settled (done_job (qclock q) j)"
    by (simp_all add: settled_def done_job_def k)
  ultimately show "settles kind j q (finish j q)"
    using mark_steps(1) [OF assms(1), of "jid j"] unfolding settles_def step_ok_def
    by (auto simp: finish_def markDone_def seqs_def reads_def update_jobs_def ret_def)
  let ?f = "skipped_job (qclock q) (truncateError (Some r))"
  have "own kind (q\<lparr>qjobs := update_where (running_with (jid j)) ?f (qjobs q)\<rparr>)
      = replace_job (jid j) (?f j) (own kind q)"
    by (rule own) (simp_all add: skipped_job_def)
  moreover have "jid (?f j) = jid j" "jkind (?f j) = kind" "settled (?f j)"
    by (simp_all add: settled_def skipped_job_def k)
  ultimately show "settles kind j q (skip_with j r q)"
    using mark_steps(3) [OF assms(1), of "jid j" "Some r"] unfolding settles_def step_ok_def
    by (auto simp: skip_with_def markSkipped_def seqs_def reads_def update_jobs_def ret_def)
qed

lemma settles_throw: "jobs_ok q \<Longrightarrow> settles kind j q (throw (Plain m) q)"
  by (simp add: settles_def throw_def)

lemma settles_answer:
  "jobs_ok q \<Longrightarrow> (\<And>x. r = Inr x \<Longrightarrow> settles kind j q (f x q)) \<Longrightarrow> settles kind j q (seqs (answer r) f q)"
  by (cases r) (simp_all add: answer_def seqs_throw seqs_ret settles_def)

lemma enqueue_other:
  assumes ok: "jobs_ok q" and "kind \<noteq> ''embed''"
  shows "qclock (snd (enqueue node ''embed'' gen h q)) = qclock q \<and>
    own kind (snd (enqueue node ''embed'' gen h q)) = own kind q \<and> fst (enqueue node ''embed'' gen h q) \<noteq> Inl No_return"
proof (cases "first_row (filter (\<lambda>j. job_key j = (node, ''embed'', gen)) (qjobs q))")
  case None
  then show ?thesis using assms
    by (simp add: enqueue_def seqs_reads) (simp add: seqs_def insert_job_def ret_def own_def new_job_def db_failed_def)
next
  case (Some j)
  then have j: "jkind j = ''embed''" "j \<in> set (qjobs q)" using first_row_in [OF Some] by (simp_all add: job_key_def)
  have "jid x \<noteq> jid j" if "x \<in> set (own kind q)" for x
    using that j same_id [OF ok] assms(2) by (auto simp: own_in)
  then have "own kind (q\<lparr>qjobs := update_where (\<lambda>x. jid x = jid j) (rearmed h) (qjobs q)\<rparr>) = own kind q"
    by (subst own_update) (auto simp: rearmed_def intro: update_where_id)
  then show ?thesis using Some by (auto simp: enqueue_def service_simps ret_def)
qed

lemma settles_chain:
  assumes ok: "jobs_ok q" and "kind \<noteq> ''embed''"
    and next_ok: "\<And>t. jobs_ok t \<Longrightarrow> own kind t = own kind q \<Longrightarrow> settles kind j t (f () t)"
  shows "settles kind j q (seqs (chain_embed j) f q)"
proof -
  let ?e = "enqueue (jnode j) ''embed'' (jgen j) (jhash j) q"
  have ok1: "jobs_ok (snd ?e)" using enqueue_step [OF ok] by (simp add: step_ok_def)
  note other = enqueue_other [OF ok assms(2), of "jnode j" "jgen j" "jhash j"]
  have "chain_embed j q = (Inr (), snd ?e)"
    using other by (cases ?e; cases "fst ?e") (auto simp: chain_embed_def seqs_def catching_def ret_def)
  then have "seqs (chain_embed j) f q = f () (snd ?e)" by (simp add: seqs_def)
  then show ?thesis using next_ok [OF ok1] other settles_mono by simp
qed

text \<open>The three executors.\<close>

lemma backfill_settles:
  assumes "jobs_ok q" "j \<in> set (own kind q)" "jstatus j = Job_running"
  shows "settles kind j q (backfill_execute rebuild j q)"
  using settles_finish [OF assms] settles_throw [OF assms(1)]
  by (simp add: backfill_execute_def split: option.splits)

lemma asr_settles:
  assumes ok: "jobs_ok q" and "j \<in> set (own ''asr'' q)" "jstatus j = Job_running"
  shows "settles ''asr'' j q (runAsrJob ctx j q)"
proof -
  note f = settles_finish [OF assms] and a = settles_answer [OF ok]
  have chain: "settles ''asr'' j q (seqs (chain_embed j) (\<lambda>_. finish j) q)"
    by (rule settles_chain [OF ok]) (use assms settles_finish in auto)
  show ?thesis
    unfolding runAsrJob_def
    by (auto intro!: a f chain simp: Let_def seqs_ret seqs_assoc branches split: option.splits if_splits)
qed

lemma caption_settles:
  assumes ok: "jobs_ok q" and "j \<in> set (own ''caption'' q)" "jstatus j = Job_running"
  shows "settles ''caption'' j q (runCaptionJob ctx j q)"
proof -
  note f = settles_finish [OF assms] and a = settles_answer [OF ok]
  have chain: "settles ''caption'' j q (seqs (chain_embed j) (\<lambda>_. finish j) q)"
    by (rule settles_chain [OF ok]) (use assms settles_finish in auto)
  show ?thesis
    unfolding runCaptionJob_def
    by (auto intro!: a f chain settles_throw [OF ok] simp: Let_def seqs_ret seqs_assoc branches
        split: option.splits if_splits)
qed


section \<open>The drain\<close>

text \<open>A row of the drained kind that the drain runs, and what becomes of it.\<close>

definition due :: "int \<Rightarrow> job \<Rightarrow> bool" where
  "due now j \<longleftrightarrow> claimable now [] j"

definition drained :: "int \<Rightarrow> job \<Rightarrow> job \<Rightarrow> bool" where
  "drained now j k \<longleftrightarrow>
     (if due now j
      then jid k = jid j \<and> (settled k \<or>
        (\<exists>e. k = failed_job now (now + backoffMs (int (jattempt j) + 1)) e (start_job now j)))
      else k = j)"

lemma other_kinds_normal: "normalizeExcludeKinds (other_kinds kind) = other_kinds kind"
proof -
  have "\<forall>k \<in> set AI_JOB_KIND_ALL. trim k = k \<and> k \<noteq> []" by code_simp
  then show ?thesis
    unfolding normalizeExcludeKinds_def other_kinds_def by (auto intro: map_idI filter_True)
qed

lemma claimable_own:
  assumes "jobs_ok q" "j \<in> set (qjobs q)"
  shows "claimable now (normalizeExcludeKinds (other_kinds kind)) j \<longleftrightarrow> due now j \<and> jkind j = kind"
  using jobs_okD(4) [OF assms]
  unfolding other_kinds_normal by (auto simp: claimable_def due_def other_kinds_def job_ok_def)

lemma count_replace:
  assumes "distinct (map jid js)" "j \<in> set js"
  shows "count_where P (replace_job (jid j) k js) + (if P j then 1 else 0)
       = count_where P js + (if P k then 1 else 0)"
  using assms
proof (induction js)
  case (Cons x js)
  show ?case
  proof (cases "jid x = jid j")
    case True
    then have "x = j" using Cons.prems by (auto simp: image_iff)
    have "\<forall>y \<in> set js. jid y \<noteq> jid j" using Cons.prems(1) True by (auto simp: image_iff)
    then have "replace_job (jid j) k js = js" by (auto simp: replace_job_def intro: update_where_id)
    then show ?thesis using \<open>x = j\<close> by (simp add: replace_job_def update_where_def count_where_def)
  next
    case False
    then have "j \<in> set js" "distinct (map jid js)" using Cons.prems by auto
    from Cons.IH [OF this(2,1)] show ?thesis
      using False by (auto simp: replace_job_def update_where_def count_where_def)
  qed
qed simp

text \<open>A failed run is not due again at once: every back-off is positive.\<close>

lemma backoff_pos: "backoffMs n \<ge> AI_JOB_RETRY_BASE_MS"
proof -
  have "(1 :: int) \<le> 2 ^ m" for m :: nat by simp
  then have "AI_JOB_RETRY_BASE_MS * 1 \<le> AI_JOB_RETRY_BASE_MS * 2 ^ m" for m :: nat
    by (intro mult_left_mono) (simp_all add: AI_JOB_RETRY_BASE_MS_def)
  then show ?thesis by (simp add: backoffMs_def AI_JOB_RETRY_MAX_MS_def AI_JOB_RETRY_BASE_MS_def)
qed

lemma failed_not_due: "\<not> due now (failed_job now (now + backoffMs n) e j)"
  using backoff_pos [of n] by (simp add: due_def claimable_def failed_job_def AI_JOB_RETRY_BASE_MS_def)

lemma settled_not_due: "settled k \<Longrightarrow> \<not> due now k"
  by (auto simp: settled_def due_def claimable_def)

locale settling =
  fixes kind :: string
    and execute :: "job \<Rightarrow> (queue, outcome) service"
  assumes runs: "jobs_ok q \<Longrightarrow> j \<in> set (own kind q) \<Longrightarrow> jstatus j = Job_running \<Longrightarrow>
    settles kind j q (execute j q)"
begin

lemma run_claimed_ok:
  assumes ok: "jobs_ok q" and j: "j \<in> set (own kind q)" "jstatus j = Job_running"
  obtains n k t where "run_claimed execute j q = (Inr n, t)" "jobs_ok t" "qclock t = qclock q"
    "own kind t = replace_job (jid j) k (own kind q)" "jid k = jid j" "jkind k = kind"
    "n = 1 \<and> settled k \<or> n = 0 \<and> \<not> settled k \<and>
      (\<exists>e. k = failed_job (qclock q) (qclock q + backoffMs (int (jattempt j) + 1)) e j)"
proof -
  obtain r t where e: "execute j q = (r, t)" by (cases "execute j q")
  then have s: "settles kind j q (r, t)" using runs [OF ok j] by simp
  show ?thesis
  proof (cases r)
    case (Inr out)
    then obtain k where k: "own kind t = replace_job (jid j) k (own kind q)" "jid k = jid j"
      "jkind k = kind" "settled k" "out \<noteq> Out_failed" "jobs_ok t" "qclock t = qclock q"
      using s by (auto simp: settles_def)
    have "run_claimed execute j q = (Inr 1, t)"
      using e Inr k(5) by (simp add: run_claimed_def catching_def seqs_def ret_def)
    then show ?thesis using that k by blast
  next
    case (Inl err)
    then have t: "err \<noteq> No_return" "own kind t = own kind q" "jobs_ok t" "qclock t = qclock q"
      using s by (auto simp: settles_def)
    have jt: "j \<in> set (own kind t)" using j t(2) by simp
    then have get: "getById t (jid j) = Some j" using getById_Some [OF t(3)] by (simp add: own_in)
    let ?e = "truncateError (Some (err_message err))"
    let ?f = "failed_job (qclock t) (qclock t + backoffMs (int (jattempt j) + 1)) ?e"
    let ?u = "t\<lparr>qjobs := update_where (running_with (jid j)) ?f (qjobs t)\<rparr>"
    have m: "markFailed (jid j) (Some (err_message err)) t
        = (Inr (count_where (running_with (jid j)) (qjobs t)), ?u)"
      using get by (simp add: markFailed_def seqs_reads update_jobs_def)
    then have "jobs_ok ?u" using mark_steps(2) [OF t(3), of "jid j" "Some (err_message err)"] by (simp add: step_ok_def)
    moreover have "own kind ?u = replace_job (jid j) (?f j) (own kind q)"
      unfolding t(2) [symmetric]
      by (rule own_edit [OF t(3) jt _ own_running [OF t(3) jt j(2)]]) (simp_all add: failed_job_def)
    moreover have "run_claimed execute j q = (Inr 0, ?u)"
      using e Inl t(1) m by (simp add: run_claimed_def catching_def seqs_def ret_def)
    moreover have "jid (?f j) = jid j" "jkind (?f j) = kind" "\<not> settled (?f j)"
      using j(1) by (simp_all add: failed_job_def settled_def own_in)
    ultimately show ?thesis using that [of 0 ?u "?f j"] t(4) by auto
  qed
qed

text \<open>
  The loop ends after it has run every due row of its kind once. The induction is on their number: a
  run leaves its row settled, or failed with a retry time in the future.
\<close>

lemma drain_ok:
  assumes "jobs_ok q"
  shows "\<exists>m t. drain kind (other_kinds kind) execute n q = Some (Inr m, t) \<and> jobs_ok t \<and>
    qclock t = qclock q \<and> list_all2 (drained (qclock q)) (own kind q) (own kind t) \<and>
    m + count_where settled (own kind q) = n + count_where settled (own kind t)"
  using assms
proof (induction "count_where (due (qclock q)) (own kind q)" arbitrary: q n rule: less_induct)
  case less
  let ?now = "qclock q"
  note ok = less.prems
  show ?case
  proof (cases rule: claimNext_cases [OF ok, of "other_kinds kind"])
    case 1
    then have "\<not> due ?now j" if "j \<in> set (own kind q)" for j
      using that claimable_own [OF ok] by (auto simp: own_in)
    then have "list_all2 (drained ?now) (own kind q) (own kind q)"
      by (auto intro!: list.rel_refl_strong simp: drained_def)
    then show ?thesis using 1(1) ok by (subst drain.simps) simp
  next
    case (2 j)
    let ?s = "start_job ?now j"
    let ?q1 = "q\<lparr>qjobs := update_where (\<lambda>x. jid x = jid j) (start_job ?now) (qjobs q)\<rparr>"
    have due: "due ?now j" and kind: "jkind j = kind" using claimable_own [OF ok 2(2)] 2(3) by simp_all
    then have j: "j \<in> set (own kind q)" using 2(2) by (simp add: own_in)
    have ok1: "jobs_ok ?q1" using claim_step [OF ok, of "other_kinds kind"] 2(1) by (simp add: step_ok_def)
    have own1: "own kind ?q1 = replace_job (jid j) ?s (own kind q)"
      by (rule own_edit [OF ok j]) (use same_id [OF ok] j in \<open>auto simp: start_job_def own_in\<close>)
    have s: "jid ?s = jid j" "jkind ?s = kind" "jstatus ?s = Job_running" "jattempt ?s = jattempt j"
      using kind by (simp_all add: start_job_def)
    have clk: "qclock ?q1 = ?now" by simp
    have s0: "?s \<in> set (own kind ?q1)" unfolding own1 using j by (auto simp: replace_job_def set_update_where)
    obtain n' k t where t:
      "run_claimed execute ?s ?q1 = (Inr n', t)" "jobs_ok t" "qclock t = ?now"
      "own kind t = replace_job (jid j) k (own kind ?q1)" "jid k = jid j" "jkind k = kind"
      "n' = 1 \<and> settled k \<or> n' = 0 \<and> \<not> settled k \<and>
        (\<exists>e. k = failed_job ?now (?now + backoffMs (int (jattempt j) + 1)) e ?s)"
      by (rule run_claimed_ok [OF ok1 s0 s(3), unfolded s(1,4) clk]) (rule that, assumption+)
    have own: "own kind t = replace_job (jid j) k (own kind q)"
      unfolding t(4) own1 by (auto simp: replace_job_def update_where_def s(1))
    have nk: "\<not> due ?now k" using t(7) settled_not_due failed_not_due by blast
    have dist: "distinct (map jid (own kind q))" using own_ids [OF ok] .
    have "count_where (due (qclock t)) (own kind t) < count_where (due ?now) (own kind q)"
      using count_replace [OF dist j, of "due ?now" k] due nk own t(3) by simp
    from less.hyps [OF this t(2), of "n + n'"] obtain m u where u:
      "drain kind (other_kinds kind) execute (n + n') t = Some (Inr m, u)" "jobs_ok u" "qclock u = ?now"
      "list_all2 (drained ?now) (own kind t) (own kind u)"
      "m + count_where settled (own kind t) = n + n' + count_where settled (own kind u)"
      using t(3) by auto
    have "\<not> settled j" using settled_not_due due by blast
    then have "count_where settled (own kind t) = count_where settled (own kind q) + n'"
      using count_replace [OF dist j, of settled k] own t(7) by auto
    moreover have "drain kind (other_kinds kind) execute n q = Some (Inr m, u)"
      using 2(1) s(2) t(1) u(1) by (subst drain.simps) simp
    moreover have "list_all2 (drained ?now) (own kind q) (own kind u)"
    proof -
      let ?g = "\<lambda>x. if jid x = jid j then k else x"
      have "list_all2 (\<lambda>x y. drained ?now (?g x) y) (own kind q) (own kind u)"
        using u(4) own by (simp add: replace_job_def update_where_def list.rel_map)
      moreover have "drained ?now x y" if "x \<in> set (own kind q)" "drained ?now (?g x) y" for x y
      proof (cases "jid x = jid j")
        case True
        then have "x = j" using that(1) j same_id [OF ok] by (auto simp: own_in)
        moreover have "y = k" using that(2) True nk by (simp add: drained_def)
        ultimately show ?thesis using due t(5,7) by (auto simp: drained_def)
      qed (use that(2) in simp)
      ultimately show ?thesis by (rule list.rel_mono_strong)
    qed
    ultimately show ?thesis using u(2,3,5) by auto
  qed
qed

lemma drainKind_ok:
  assumes "jobs_ok q"
  shows "\<exists>m t. drainKind kind (other_kinds kind) execute q = (Inr m, t) \<and> jobs_ok t \<and>
    qclock t = qclock q \<and> list_all2 (drained (qclock q)) (own kind q) (own kind t) \<and>
    m + count_where settled (own kind q) = count_where settled (own kind t)"
proof -
  obtain m t where "drain kind (other_kinds kind) execute 0 q = Some (Inr m, t)" "jobs_ok t"
    "qclock t = qclock q" "list_all2 (drained (qclock q)) (own kind q) (own kind t)"
    "m + count_where settled (own kind q) = 0 + count_where settled (own kind t)"
    using drain_ok [OF assms, of 0] by blast
  then show ?thesis by (simp add: drainKind_def)
qed

end

interpretation backfill: settling "''backfill''" "backfill_execute rebuild" for rebuild
  by unfold_locales (rule backfill_settles)

interpretation asr: settling "''asr''" "runAsrJob ctx" for ctx
  by unfold_locales (rule asr_settles)

interpretation caption: settling "''caption''" "runCaptionJob ctx" for ctx
  by unfold_locales (rule caption_settles)

end
