(* ===== verification/JobProps.thy ===== *)
theory JobProps
  imports JobLaws
begin

text \<open>The properties of the job queue and of its worker.\<close>

section \<open>Auxiliary facts\<close>

definition empty_queue :: "int \<Rightarrow> queue" where
  "empty_queue now = \<lparr>qclock = now, qnodes = [], qjobs = [], qnext = 1\<rparr>"

lemma empty_queue_ok [simp]: "jobs_ok (empty_queue now)"
  by (simp add: jobs_ok_def empty_queue_def)

lemma started_not_claimable: "\<not> claimable now ks (start_job s j)"
  by (simp add: claimable_def start_job_def)

text \<open>What the drain of a kind promises about the rows of that kind.\<close>

definition drains :: "string \<Rightarrow> queue \<Rightarrow> (err + nat) \<times> queue \<Rightarrow> bool" where
  "drains kind q out \<longleftrightarrow> (\<exists>m t. out = (Inr m, t) \<and> jobs_ok t \<and> qclock t = qclock q \<and>
     list_all2 (drained (qclock q)) (own kind q) (own kind t) \<and>
     m + count_where settled (own kind q) = count_where settled (own kind t))"

lemma recover_eq:
  "recoverStaleRunning ms q = (Inr (count_where (stale_running (qclock q - ms)) (qjobs q)),
     q\<lparr>qjobs := update_where (stale_running (qclock q - ms)) (reaped_job (qclock q)) (qjobs q)\<rparr>)"
  by (simp add: recoverStaleRunning_def seqs_reads update_jobs_def)

lemma backoff_ladder:
  "n \<ge> 1 \<Longrightarrow> n \<le> 6 \<Longrightarrow> backoffMs n = 30000 * 2 ^ nat (n - 1)"
  "n \<ge> 7 \<Longrightarrow> backoffMs n = 1800000"
proof -
  assume "n \<ge> 1" "n \<le> 6"
  then have "n \<in> {1, 2, 3, 4, 5, 6}" by auto
  then show "backoffMs n = 30000 * 2 ^ nat (n - 1)"
    by (auto simp: backoffMs_def AI_JOB_RETRY_BASE_MS_def AI_JOB_RETRY_MAX_MS_def)
next
  assume n: "n \<ge> 7"
  then have "6 \<le> nat (min (n - 1) 30)" by simp
  then have "(2 :: int) ^ 6 \<le> 2 ^ nat (min (n - 1) 30)" by (intro power_increasing) simp_all
  then have "AI_JOB_RETRY_MAX_MS \<le> AI_JOB_RETRY_BASE_MS * 2 ^ nat (min (n - 1) 30)"
    by (simp add: AI_JOB_RETRY_BASE_MS_def AI_JOB_RETRY_MAX_MS_def)
  then show "backoffMs n = 1800000" using n by (simp add: backoffMs_def AI_JOB_RETRY_MAX_MS_def)
qed

text \<open>A queue with two jobs of which the first has been running since instant 1000.\<close>

definition demo_queue :: queue where
  "demo_queue = snd (claimNext [] (snd (enqueue 5 ''asr'' 1 (Some ''h'')
     (snd (enqueue 5 ''backfill'' 1 None \<lparr>qclock = 1000, qnodes = [5], qjobs = [], qnext = 1\<rparr>)))))"

lemma demo_queue_reachable: "job_step\<^sup>*\<^sup>* (empty_queue 1000) demo_queue"
proof -
  let ?a = "\<lparr>qclock = 1000, qnodes = [5], qjobs = [], qnext = 1\<rparr>"
  let ?b = "snd (enqueue 5 ''backfill'' 1 None ?a)"
  let ?c = "snd (enqueue 5 ''asr'' 1 (Some ''h'') ?b)"
  have "job_step (empty_queue 1000) ?a"
    using job_step.node_added [of "empty_queue 1000" 5] by (simp add: empty_queue_def)
  moreover have "job_step ?a ?b" "job_step ?b ?c" by (rule job_step.enqueued)+
  moreover have "job_step ?c demo_queue" unfolding demo_queue_def by (rule job_step.claimed)
  ultimately show ?thesis by (meson rtranclp.rtrancl_into_rtrancl rtranclp.rtrancl_refl)
qed

lemma demo_queue_ok: "jobs_ok demo_queue"
  using jobs_reachable_ok [OF demo_queue_reachable] by simp

definition later :: "int \<Rightarrow> queue \<Rightarrow> queue" where
  "later ms q = q\<lparr>qclock := qclock q + ms\<rparr>"

lemma later_ok: "0 \<le> ms \<Longrightarrow> jobs_ok q \<Longrightarrow> jobs_ok (later ms q)"
  by (simp add: later_def jobs_ok_def)

section \<open>Properties\<close>

text \<open>
  The shape of the rows of the job table, over every history of the queue's operations, of time and
  of created and deleted nodes: ids and (node, kind, generation) are unique, every row refers to an
  existing node and has a known kind, notes are at most 1024 characters long, and the columns fit the
  status. A pending row has no attempt, start or end; a running one has a start; a finished one has
  both; a failed one has counted an attempt and is due again at most 30 minutes after it failed.
\<close>

theorem job_rows_shape:
  assumes "job_step\<^sup>*\<^sup>* (empty_queue now) q"
  shows "distinct (map jid (qjobs q)) \<and> distinct (map job_key (qjobs q)) \<and>
    (\<forall>j \<in> set (qjobs q). job_ok (set (qnodes q)) j)"
proof -
  have "jobs_ok q" using jobs_reachable_ok [OF assms] by simp
  then show ?thesis by (simp add: jobs_ok_def)
qed

theorem job_rows_shape_witness:
  "distinct (map jid (qjobs demo_queue)) \<and> map jstatus (qjobs demo_queue) = [Job_running, Job_pending]"
proof -
  have "map jstatus (qjobs demo_queue) = [Job_running, Job_pending]" by code_simp
  then show ?thesis using job_rows_shape [OF demo_queue_reachable] by simp
qed

text \<open>
  C18: The life cycle of a job. In every step of the queue each row keeps its identity and follows an
  edge of the state machine (pending to running or cancelled, running to done, skipped or failed,
  failed to running), counting an attempt exactly when it fails; a row goes back to pending, with its
  attempts reset, only when its content hash changed, whatever its status; it disappears only with its
  node; and new rows are pending.
\<close>

theorem job_lifecycle:
  assumes "job_step\<^sup>*\<^sup>* (empty_queue now) q" "job_step q t"
  shows "(\<forall>j \<in> set (qjobs q). (\<exists>k \<in> set (qjobs t). job_edge j k) \<or> jnode j \<notin> set (qnodes t)) \<and>
    (\<forall>k \<in> set (qjobs t). (\<exists>j \<in> set (qjobs q). job_edge j k) \<or>
       qnext q \<le> jid k \<and> jstatus k = Job_pending \<and> fresh_job k)"
proof -
  have "jobs_ok q" using jobs_reachable_ok [OF assms(1)] by simp
  from job_step_ok [OF assms(2) this] show ?thesis by (simp add: step_ok_def rows_follow_def)
qed

theorem job_lifecycle_witness:
  "list_all (\<lambda>j. list_ex (job_edge j) (qjobs (snd (markDone 1 demo_queue)))) (qjobs demo_queue)"
proof -
  have "qnodes (snd (markDone 1 demo_queue)) = [5]" by code_simp
  moreover have "\<forall>j \<in> set (qjobs demo_queue). jnode j = 5" by code_simp
  ultimately show ?thesis
    using job_lifecycle [OF demo_queue_reachable job_step.finished [of demo_queue 1]]
    by (simp add: list_all_iff list_ex_iff)
qed

text \<open>
  Whom a claim serves. \<open>claimNext\<close> answers nothing, and changes nothing, exactly when no row is
  pending or due again among the kinds that are not excluded; otherwise it marks the one with the
  smallest id running and answers it, and no later claim answers that row again while it runs.
\<close>

theorem claim_serves_oldest:
  assumes "jobs_ok q"
  shows "case claimNext ks q of
      (Inr None, t) \<Rightarrow> t = q \<and> (\<forall>j \<in> set (qjobs q). \<not> claimable (qclock q) (normalizeExcludeKinds ks) j)
    | (Inr (Some k), t) \<Rightarrow> (\<exists>j \<in> set (qjobs q). k = start_job (qclock q) j \<and>
          claimable (qclock q) (normalizeExcludeKinds ks) j \<and>
          (\<forall>i \<in> set (qjobs q). claimable (qclock q) (normalizeExcludeKinds ks) i \<longrightarrow> jid j \<le> jid i)) \<and>
        getById t (jid k) = Some k \<and>
        (\<forall>ks' ms r u. claimNext ks' (later ms t) = (Inr (Some r), u) \<longrightarrow> jid r \<noteq> jid k)
    | (Inl e, t) \<Rightarrow> False"
proof (cases rule: claimNext_cases [OF assms, of ks])
  case 1
  then show ?thesis by simp
next
  case (2 j)
  let ?k = "start_job (qclock q) j"
  let ?t = "q\<lparr>qjobs := update_where (\<lambda>x. jid x = jid j) (start_job (qclock q)) (qjobs q)\<rparr>"
  have ok: "jobs_ok ?t" using claim_step [OF assms, of ks] 2(1) by (simp add: step_ok_def)
  have id: "jid ?k = jid j" by (simp add: start_job_def)
  have k: "?k \<in> set (qjobs ?t)" using 2(2) by (auto simp: set_update_where)
  have get: "getById ?t (jid j) = Some ?k" using getById_Some [OF ok k] id by simp
  have "jid r \<noteq> jid j" if c: "claimNext ks' (later ms ?t) = (Inr (Some r), u)" for ks' ms r u
  proof -
    have okl: "jobs_ok (later ms ?t)" using ok by (simp add: later_def jobs_ok_def)
    show ?thesis
    proof (cases rule: claimNext_cases [OF okl, of ks'])
      case 1
      then show ?thesis using c by simp
    next
      case other: (2 i)
      then have "i \<noteq> ?k" using started_not_claimable by blast
      moreover have "i \<in> set (qjobs ?t)" using other(2) by (simp add: later_def)
      ultimately have "jid i \<noteq> jid ?k" using same_id [OF ok] k by blast
      moreover have "jid r = jid i" using c other(1) by (auto simp: start_job_def)
      ultimately show ?thesis using id by simp
    qed
  qed
  then show ?thesis using 2 get id by auto
qed

theorem claim_serves_oldest_witness:
  "\<exists>k t. claimNext [] demo_queue = (Inr (Some k), t) \<and> jid k = 2 \<and> getById t 2 = Some k"
proof -
  have c: "map_sum id (map_option jid) (fst (claimNext [] demo_queue)) = Inr (Some 2)" by code_simp
  then obtain k where k: "fst (claimNext [] demo_queue) = Inr (Some k)" "jid k = 2"
    by (cases "fst (claimNext [] demo_queue)") auto
  obtain t where t: "claimNext [] demo_queue = (Inr (Some k), t)"
    using k(1) by (cases "claimNext [] demo_queue") auto
  show ?thesis using claim_serves_oldest [OF demo_queue_ok, of "[]"] t k(2) by simp
qed



text \<open>
  Retries go on, at bounded distances. The back-off doubles from 30 seconds and is 30 minutes from
  the seventh attempt on; a failed job is claimable again at the latest 30 minutes after it failed, so
  that from then on a claim that does not exclude its kind answers some job. There is no last attempt.
\<close>

theorem failed_job_due_again:
  assumes "jobs_ok q" "j \<in> set (qjobs q)" "jstatus j = Job_failed" "jfinished j = Some f"
    and "f + 1800000 \<le> qclock q" "jkind j \<notin> set (normalizeExcludeKinds ks)"
  shows "claimable (qclock q) (normalizeExcludeKinds ks) j \<and> (\<exists>k t. claimNext ks q = (Inr (Some k), t)) \<and>
    (\<forall>n. n \<ge> 1 \<longrightarrow> backoffMs n = (if n \<le> 6 then 30000 * 2 ^ nat (n - 1) else 1800000))"
proof -
  have "retry_ok j" using jobs_okD(4) [OF assms(1,2)] assms(3) by (simp add: job_ok_def status_ok_def)
  then have c: "claimable (qclock q) (normalizeExcludeKinds ks) j"
    using assms(3-6) by (auto simp: retry_ok_def claimable_def AI_JOB_RETRY_MAX_MS_def)
  moreover have "\<exists>k t. claimNext ks q = (Inr (Some k), t)"
  proof (cases rule: claimNext_cases [OF assms(1), of ks])
    case 1
    then show ?thesis using c assms(2) by blast
  qed auto
  ultimately show ?thesis using backoff_ladder by simp
qed

theorem failed_job_due_again_witness:
  "\<exists>k t. claimNext [] (later 1800000 (snd (markFailed 1 (Some ''timeout'') demo_queue))) = (Inr (Some k), t)"
proof -
  let ?q = "later 1800000 (snd (markFailed 1 (Some ''timeout'') demo_queue))"
  have ok: "jobs_ok ?q"
    using later_ok [of 1800000] mark_steps(2) [OF demo_queue_ok, of 1 "Some ''timeout''"] by (simp add: step_ok_def)
  have "\<exists>j \<in> set (qjobs ?q). jstatus j = Job_failed \<and> jfinished j = Some 1000" "qclock ?q = 1801000" by code_simp+
  moreover have "normalizeExcludeKinds [] = []" by code_simp
  ultimately show ?thesis using failed_job_due_again [OF ok, of _ 1000 "[]"] by auto
qed

text \<open>
  A late write ends another worker's run. When a running job is reaped and claimed again before its
  first worker reports, that worker's \<open>markDone\<close> is not dropped: it changes the row, which is done from
  then on although the run that holds it has not finished; the report of that run is the one dropped.
\<close>

theorem late_done_ends_other_run:
  assumes "jobs_ok q" "r \<in> set (qjobs q)" "stale_running (qclock q - ms) r"
    and "claimNext ks (later dt (snd (recoverStaleRunning ms q))) = (Inr (Some k), t)" "jid k = jid r"
  shows "\<exists>u. markDone (jid r) t = (Inr 1, u) \<and> map_option jstatus (getById u (jid r)) = Some Job_done \<and>
    fst (markDone (jid k) u) = Inr 0 \<and> fst (markFailed (jid k) e u) = Inr 0"
proof -
  let ?q = "later dt (snd (recoverStaleRunning ms q))"
  have "jobs_ok (snd (recoverStaleRunning ms q))" using mark_steps(4) [OF assms(1), of ms] by (simp add: step_ok_def)
  then have okq: "jobs_ok ?q" by (simp add: later_def jobs_ok_def)
  have okt: "jobs_ok t" using claim_step [OF okq, of ks] assms(4) by (simp add: step_ok_def)
  have k: "k \<in> set (qjobs t)" "jstatus k = Job_running"
    using assms(4) by (cases rule: claimNext_cases [OF okq, of ks]; auto simp: set_update_where start_job_def)+
  let ?u = "t\<lparr>qjobs := update_where (running_with (jid r)) (done_job (qclock t)) (qjobs t)\<rparr>"
  have run: "x \<in> set (qjobs t) \<Longrightarrow> running_with (jid r) x \<longleftrightarrow> x = k" for x
    using same_id [OF okt] k assms(5) by (auto simp: running_with_def)
  have "filter (running_with (jid r)) (qjobs t) = filter (\<lambda>x. jid x = jid k) (qjobs t)"
    by (rule filter_cong) (use run same_id [OF okt] k(1) in auto)
  moreover have "length (filter (\<lambda>x. jid x = jid k) (qjobs t)) \<le> 1"
    by (rule filter_key_le_1) (rule jobs_okD(1) [OF okt])
  moreover have "filter (\<lambda>x. jid x = jid k) (qjobs t) \<noteq> []" using k(1) by (auto simp: filter_empty_conv)
  ultimately have "count_where (running_with (jid r)) (qjobs t) = 1"
    unfolding count_where_def by (simp add: le_Suc_eq)
  then have m: "markDone (jid r) t = (Inr 1, ?u)" by (simp add: markDone_def seqs_reads update_jobs_def)
  have oku: "jobs_ok ?u" using mark_steps(1) [OF okt, of "jid r"] m by (simp add: step_ok_def)
  have d: "done_job (qclock t) k \<in> set (qjobs ?u)" using k(1) run by (auto simp: set_update_where)
  have g: "getById ?u (jid r) = Some (done_job (qclock t) k)"
    using getById_Some [OF oku d] assms(5) by (simp add: done_job_def)
  have none: "count_where (running_with (jid k)) (qjobs ?u) = 0"
    using same_id [OF oku] d assms(5)
    by (fastforce simp: count_where_def filter_empty_conv running_with_def done_job_def)
  then have "fst (markDone (jid k) ?u) = Inr 0" "fst (markFailed (jid k) e ?u) = Inr 0"
    using g assms(5) by (simp_all add: markDone_def markFailed_def seqs_reads update_jobs_def)
  then show ?thesis using m g by (auto simp: done_job_def)
qed

theorem late_done_ends_other_run_witness:
  "\<exists>k t u. claimNext [] (later 1 (snd (recoverStaleRunning 0 (later 1 demo_queue)))) = (Inr (Some k), t) \<and>
     markDone 1 t = (Inr 1, u) \<and> fst (markDone (jid k) u) = Inr 0"
proof -
  let ?q = "later 1 demo_queue"
  have ok: "jobs_ok ?q" using later_ok demo_queue_ok by simp
  let ?c = "claimNext [] (later 1 (snd (recoverStaleRunning 0 ?q)))"
  have "map_sum id (map_option jid) (fst ?c) = Inr (Some 1)" by code_simp
  then obtain k where k: "fst ?c = Inr (Some k)" "jid k = 1" by (cases "fst ?c") auto
  then obtain t where t: "?c = (Inr (Some k), t)" by (cases ?c) auto
  have "\<exists>r \<in> set (qjobs ?q). stale_running (qclock ?q - 0) r \<and> jid r = 1" by code_simp
  then obtain r where "r \<in> set (qjobs ?q)" "stale_running (qclock ?q - 0) r" "jid r = 1" by blast
  then show ?thesis using late_done_ends_other_run [OF ok _ _ t, of r] t k(2) by auto
qed

end
