(* ===== verification/Locks.thy ===== *)
theory Locks
  imports Tables
begin

text \<open>
  \<open>infrastructure/lockManager.js\<close>: the locks of the table \<open>locks\<close>, on both backends, and the loop that
  waits for one. The row keeps the instant of expiry; on sqlite the column is text, and the clean-up
  compares that text with the text of \<open>CURRENT_TIMESTAMP\<close>, so both texts are spelled out here. What
  happens while the loop sleeps (time, and the doings of other processes) is an argument.
\<close>

section \<open>Instants as text\<close>

definition pad :: "nat \<Rightarrow> int \<Rightarrow> string" where
  "pad k n = (let s = decimal (nat n) in replicate (k - length s) (CHR ''0'') @ s)"

text \<open>The civil date (proleptic Gregorian) of a day counted from 1970-01-01.\<close>

definition date_text :: "int \<Rightarrow> string" where
  "date_text day =
     (let z = day + 719468; era = z div 146097; doe = z mod 146097;
          yoe = (doe - doe div 1460 + doe div 36524 - doe div 146096) div 365;
          doy = doe - (365 * yoe + yoe div 4 - yoe div 100);
          mp = (5 * doy + 2) div 153; dd = doy - (153 * mp + 2) div 5 + 1;
          mm = (if mp < 10 then mp + 3 else mp - 9);
          yy = yoe + era * 400 + (if mm \<le> 2 then 1 else 0)
      in pad 4 yy @ ''-'' @ pad 2 mm @ ''-'' @ pad 2 dd)"

definition day_of :: "int \<Rightarrow> int" where
  "day_of ms = ms div ms_per_day"

definition time_text :: "int \<Rightarrow> string" where
  "time_text ms =
     (let t = ms mod ms_per_day
      in pad 2 (t div 3600000) @ '':'' @ pad 2 (t div 60000 mod 60) @ '':'' @ pad 2 (t div 1000 mod 60))"

text \<open>\<open>toISOString\<close>, as \<open>normalizeBindValue\<close> binds a date, and sqlite's \<open>CURRENT_TIMESTAMP\<close>.\<close>

definition toISOString :: "int \<Rightarrow> string" where
  "toISOString ms = date_text (day_of ms) @ ''T'' @ time_text ms @ ''.'' @ pad 3 (ms mod 1000) @ ''Z''"

definition current_timestamp :: "int \<Rightarrow> string" where
  "current_timestamp ms = date_text (day_of ms) @ '' '' @ time_text ms"

section \<open>The table and its operations\<close>

record lock =
  lk_key :: string
  lk_token :: string
  lk_owner :: string
  lk_created :: int
  lk_expires :: int

record locks =
  lclock :: int
  lrows :: "lock list"

datatype lock_backend = Sqlite | Postgresql

text \<open>The condition of the clean-up: \<open>expires_at < CURRENT_TIMESTAMP\<close>, and \<open>expires_at < NOW()\<close>.\<close>

fun stale :: "lock_backend \<Rightarrow> int \<Rightarrow> lock \<Rightarrow> bool" where
  "stale Sqlite now r = (toISOString (lk_expires r) < current_timestamp now)"
| "stale Postgresql now r = (lk_expires r < now)"

text \<open>
  One attempt. On sqlite the clean-up and the insertion are one transaction, which a key that is taken
  undoes; on PostgreSQL the insertion does nothing then.
\<close>

definition try_lock :: "lock_backend \<Rightarrow> string \<Rightarrow> string \<Rightarrow> string \<Rightarrow> int \<Rightarrow> locks \<Rightarrow> bool \<times> locks" where
  "try_lock b key token owner ttlMs s =
     (let rows = delete_where (\<lambda>r. lk_key r = key \<and> stale b (lclock s) r) (lrows s)
      in if \<exists>r \<in> set rows. lk_key r = key
         then (False, if b = Sqlite then s else s\<lparr>lrows := rows\<rparr>)
         else (True, s\<lparr>lrows := rows @ [\<lparr>lk_key = key, lk_token = token, lk_owner = owner,
                 lk_created = lclock s, lk_expires = lclock s + ttlMs\<rparr>]\<rparr>))"

definition release :: "string \<Rightarrow> string \<Rightarrow> locks \<Rightarrow> locks" where
  "release key token s = s\<lparr>lrows := delete_where (\<lambda>r. lk_key r = key \<and> lk_token r = token) (lrows s)\<rparr>"

definition makeTimeoutError :: "string \<Rightarrow> int \<Rightarrow> err" where
  "makeTimeoutError lockName waitMs = Driver ''LOCK_TIMEOUT''
     (''Failed to acquire lock \"'' @ lockName @ ''\" within '' @ decimal (nat waitMs) @ ''ms'')"

text \<open>The waiting loop: \<open>nap k\<close> is what its \<open>k\<close>-th sleep lets happen. Nothing else bounds it.\<close>

partial_function (option) acquire_loop ::
  "(locks \<Rightarrow> bool \<times> locks) \<Rightarrow> (nat \<Rightarrow> locks \<Rightarrow> locks) \<Rightarrow> int \<Rightarrow> nat \<Rightarrow> locks \<Rightarrow> (bool \<times> locks) option" where
  "acquire_loop attempt nap deadline k s =
     (case attempt s of (ok, t) \<Rightarrow>
        if ok then Some (True, t)
        else if lclock t \<ge> deadline then Some (False, t)
        else acquire_loop attempt nap deadline (Suc k) (nap k t))"

declare acquire_loop.simps [code]

record lock_options =
  ttl_ms :: int
  wait_ms :: int

definition acquireLock ::
  "lock_backend \<Rightarrow> (string \<Rightarrow> string) \<Rightarrow> (nat \<Rightarrow> locks \<Rightarrow> locks) \<Rightarrow> lock_options \<Rightarrow> string \<Rightarrow> string \<Rightarrow> string \<Rightarrow>
     (locks, unit) service" where
  "acquireLock b sha256 nap opts owner token lockName s =
     (case acquire_loop (try_lock b (sha256 lockName) token owner (ttl_ms opts)) nap
             (lclock s + wait_ms opts) 0 s of
        None \<Rightarrow> (Inl No_return, s)
      | Some (ok, t) \<Rightarrow> (if ok then Inr () else Inl (makeTimeoutError lockName (wait_ms opts)), t))"

section \<open>Laws\<close>

definition locks_ok :: "locks \<Rightarrow> bool" where
  "locks_ok s \<longleftrightarrow> distinct (map lk_key (lrows s))"

lemma append_less: "(p @ x < p @ y) = (x < (y :: string))"
  by (induction p) auto

text \<open>The letter T comes after the blank: on one day no text of an instant precedes the clock's.\<close>

lemma same_day_never_stale:
  "day_of (lk_expires r) = day_of now \<Longrightarrow> \<not> stale Sqlite now r"
  by (simp add: toISOString_def current_timestamp_def append_less less_char_def)

lemma try_lock_ok: "locks_ok s \<Longrightarrow> locks_ok (snd (try_lock b key token owner ttl s))"
  by (auto simp: locks_ok_def try_lock_def Let_def distinct_map_delete)

lemma try_lock_clock [simp]: "lclock (snd (try_lock b key token owner ttl s)) = lclock s"
  by (simp add: try_lock_def Let_def)

lemma release_ok: "locks_ok s \<Longrightarrow> locks_ok (release key token s)"
  by (simp add: locks_ok_def release_def distinct_map_delete)

text \<open>A row that is not stale keeps its key against every attempt.\<close>

lemma held_key:
  assumes "r \<in> set (lrows s)" "\<not> stale b (lclock s) r"
  shows "r \<in> set (lrows (snd (try_lock b key token owner ttl s)))"
    "lk_key r = key \<Longrightarrow> \<not> fst (try_lock b key token owner ttl s)"
proof -
  let ?rows = "delete_where (\<lambda>r. lk_key r = key \<and> stale b (lclock s) r) (lrows s)"
  have "r \<in> set ?rows" using assms by simp
  then show "r \<in> set (lrows (snd (try_lock b key token owner ttl s)))"
    using assms(1) by (simp add: try_lock_def Let_def)
  show "\<not> fst (try_lock b key token owner ttl s)" if "lk_key r = key"
  proof -
    have "\<exists>r \<in> set ?rows. lk_key r = key" using \<open>r \<in> set ?rows\<close> that by blast
    then show ?thesis by (simp add: try_lock_def Let_def)
  qed
qed

text \<open>The loop ends when every sleep takes some time.\<close>

lemma acquire_loop_returns:
  assumes "\<And>k s. lclock s + 1 \<le> lclock (nap k s)" "\<And>s. lclock (snd (attempt s)) = lclock s"
  shows "\<exists>out. acquire_loop attempt nap deadline k s = Some out"
proof (induction "nat (deadline - lclock s)" arbitrary: k s rule: less_induct)
  case less
  obtain ok t where t: "attempt s = (ok, t)" by (cases "attempt s")
  then have c: "lclock t = lclock s" using assms(2) [of s] by simp
  show ?case
  proof (cases "ok \<or> lclock t \<ge> deadline")
    case True
    then show ?thesis using t by (subst acquire_loop.simps) auto
  next
    case False
    then have "nat (deadline - lclock (nap k t)) < nat (deadline - lclock s)"
      using assms(1) [of t k] c by simp
    from less [OF this, of "Suc k"] show ?thesis using t False by (subst acquire_loop.simps) simp
  qed
qed


section \<open>Histories\<close>

text \<open>What processes do to the table: attempts, releases, and time that passes.\<close>

datatype lock_event = Attempt string string string int | Release string string | Wait nat

fun lock_act :: "lock_backend \<Rightarrow> lock_event \<Rightarrow> locks \<Rightarrow> bool \<times> locks" where
  "lock_act b (Attempt key token owner ttl) s = try_lock b key token owner ttl s"
| "lock_act b (Release key token) s = (False, release key token s)"
| "lock_act b (Wait ms) s = (False, s\<lparr>lclock := lclock s + int ms\<rparr>)"

text \<open>The acts that acquired a lock, and the state at the end.\<close>

fun lock_history :: "lock_backend \<Rightarrow> lock_event list \<Rightarrow> locks \<Rightarrow> lock_event list \<times> locks" where
  "lock_history b [] s = ([], s)"
| "lock_history b (a # as) s =
     (case lock_act b a s of (ok, t) \<Rightarrow> case lock_history b as t of (won, u) \<Rightarrow> (if ok then a # won else won, u))"

definition wants :: "string \<Rightarrow> lock_event \<Rightarrow> bool" where
  "wants key a \<longleftrightarrow> (case a of Attempt k t w ttl \<Rightarrow> k = key | _ \<Rightarrow> False)"

text \<open>How long a row is safe: until it expires, and on sqlite for the whole day on which it expires.\<close>

fun safe_until :: "lock_backend \<Rightarrow> lock \<Rightarrow> int \<Rightarrow> bool" where
  "safe_until Postgresql r now = (now \<le> lk_expires r)"
| "safe_until Sqlite r now = (day_of now = day_of (lk_expires r))"

lemma safe_not_stale: "safe_until b r now \<Longrightarrow> \<not> stale b now r"
  by (cases b) (simp_all add: same_day_never_stale del: stale.simps(1))

lemma safe_between:
  "safe_until b r x \<Longrightarrow> safe_until b r z \<Longrightarrow> x \<le> y \<Longrightarrow> y \<le> z \<Longrightarrow> safe_until b r y"
proof (cases b)
  case Sqlite
  assume "safe_until b r x" "safe_until b r z" "x \<le> y" "y \<le> z"
  moreover have "day_of x \<le> day_of y" "day_of y \<le> day_of z"
    using \<open>x \<le> y\<close> \<open>y \<le> z\<close> by (simp_all add: day_of_def ms_per_day_def zdiv_mono1)
  ultimately show ?thesis using Sqlite by simp
qed simp

lemma lock_act_clock: "lclock s \<le> lclock (snd (lock_act b a s))"
  by (cases a) (simp_all add: release_def)

lemma lock_history_clock: "lclock s \<le> lclock (snd (lock_history b as s))"
proof (induction "as" arbitrary: s)
  case (Cons a "as")
  have "lclock s \<le> lclock (snd (lock_act b a s))" by (rule lock_act_clock)
  also have "\<dots> \<le> lclock (snd (lock_history b as (snd (lock_act b a s))))" by (rule Cons)
  finally show ?case
    by (cases "lock_act b a s"; cases "lock_history b as (snd (lock_act b a s))") simp
qed simp

lemma lock_act_keeps:
  assumes "r \<in> set (lrows s)" "\<not> stale b (lclock s) r" "a \<noteq> Release (lk_key r) (lk_token r)"
  shows "r \<in> set (lrows (snd (lock_act b a s)))" "wants (lk_key r) a \<Longrightarrow> \<not> fst (lock_act b a s)"
  using assms held_key by (cases a; auto simp: release_def wants_def)+

section \<open>Properties\<close>


definition one_lock :: "int \<Rightarrow> int \<Rightarrow> locks" where
  "one_lock now expires = \<lparr>lclock = now,
     lrows = [\<lparr>lk_key = ''k'', lk_token = ''t1'', lk_owner = ''host'', lk_created = 0, lk_expires = expires\<rparr>]\<rparr>"

lemma one_lock_refuses:
  "now \<le> 30 \<Longrightarrow> try_lock Postgresql ''k'' token ''host'' 10 (one_lock now 30) = (False, one_lock now 30)"
  by (simp add: one_lock_def try_lock_def delete_where_def)

lemma one_lock_history:
  "lock_history Postgresql [Attempt ''k'' ''t2'' ''host'' 10, Wait 20, Attempt ''k'' ''t3'' ''host'' 10] (one_lock 0 30)
    = ([], one_lock 20 30)"
proof -
  have "lock_act Postgresql (Wait 20) (one_lock 0 30) = (False, one_lock 20 30)" by (simp add: one_lock_def)
  then show ?thesis by (simp add: one_lock_refuses del: lock_act.simps(3))
qed


text \<open>
  What an expired lock of a dead holder does. On PostgreSQL the next \<open>acquireLock\<close> takes it over at
  once. On sqlite the clean-up compares the texts of two formats, and for the rest of the UTC day of the
  expiry never finds the row: an \<open>acquireLock\<close> that waits within that day returns (each sleep takes
  time) with the error LOCK_TIMEOUT and leaves the row.
\<close>

theorem expired_lock:
  assumes "locks_ok s" "r \<in> set (lrows s)" "lk_key r = sha256 name" "lk_expires r < lclock s"
    and nap: "0 < delay" "\<And>k u. nap k u = u\<lparr>lclock := lclock u + delay\<rparr>"
    and "day_of (lclock s + wait_ms opts + delay) = day_of (lk_expires r)" "0 \<le> wait_ms opts"
  shows "(\<exists>t. acquireLock Postgresql sha256 nap opts owner token name s = (Inr (), t)) \<and>
    (\<exists>t. acquireLock Sqlite sha256 nap opts owner token name s = (Inl (makeTimeoutError name (wait_ms opts)), t) \<and>
       r \<in> set (lrows t))"
proof
  have "lk_key q = sha256 name \<Longrightarrow> q = r" if "q \<in> set (lrows s)" for q
    using distinct_map_unique [OF assms(1) [unfolded locks_ok_def] that assms(2)] assms(3) by simp
  then have "fst (try_lock Postgresql (sha256 name) token owner (ttl_ms opts) s)"
    using assms(4) by (auto simp: try_lock_def Let_def)
  then obtain t where "try_lock Postgresql (sha256 name) token owner (ttl_ms opts) s = (True, t)"
    by (cases "try_lock Postgresql (sha256 name) token owner (ttl_ms opts) s") auto
  then show "\<exists>t. acquireLock Postgresql sha256 nap opts owner token name s = (Inr (), t)"
    unfolding acquireLock_def by (subst acquire_loop.simps) simp
next
  let ?attempt = "try_lock Sqlite (sha256 name) token owner (ttl_ms opts)"
  let ?deadline = "lclock s + wait_ms opts"
  have day: "day_of x = day_of (lk_expires r)" if "lk_expires r \<le> x" "x \<le> ?deadline + delay" for x
    using that assms(7) zdiv_mono1 [of "lk_expires r" x ms_per_day] zdiv_mono1 [of x "?deadline + delay" ms_per_day]
    by (simp add: day_of_def ms_per_day_def)
  have loop: "\<exists>t. acquire_loop ?attempt nap ?deadline k u = Some (False, t) \<and> r \<in> set (lrows t)"
    if "r \<in> set (lrows u)" "lk_expires r \<le> lclock u" "lclock u \<le> ?deadline + delay" for k u
    using that
  proof (induction "nat (?deadline - lclock u)" arbitrary: k u rule: less_induct)
    case less
    have "day_of (lclock u) = day_of (lk_expires r)" using day less.prems(2,3) by blast
    note ns = same_day_never_stale [OF this [symmetric]]
    obtain t where t: "?attempt u = (False, t)" "r \<in> set (lrows t)" "lclock t = lclock u"
      using held_key(1) [OF less.prems(1) ns, of "sha256 name" token owner "ttl_ms opts"]
        held_key(2) [OF less.prems(1) ns assms(3), of token owner "ttl_ms opts"]
        try_lock_clock [of Sqlite "sha256 name" token owner "ttl_ms opts" u]
      by (cases "?attempt u") simp
    show ?case
    proof (cases "lclock t \<ge> ?deadline")
      case True
      then show ?thesis using t by (subst acquire_loop.simps) simp
    next
      case False
      have "nat (?deadline - lclock (nap k t)) < nat (?deadline - lclock u)"
        using nap False t(3) by simp
      moreover have "r \<in> set (lrows (nap k t))" "lk_expires r \<le> lclock (nap k t)"
        "lclock (nap k t) \<le> ?deadline + delay"
        using nap t(2,3) less.prems(2) False by simp_all
      ultimately show ?thesis using less.hyps [of "nap k t" "Suc k"] t(1) False by (subst acquire_loop.simps) simp
    qed
  qed
  have "lk_expires r \<le> lclock s" "lclock s \<le> ?deadline + delay" using assms(4,5,8) by simp_all
  from loop [OF assms(2) this, of 0] obtain t where
    "acquire_loop ?attempt nap ?deadline 0 s = Some (False, t)" "r \<in> set (lrows t)" by blast
  then show "\<exists>t. acquireLock Sqlite sha256 nap opts owner token name s = (Inl (makeTimeoutError name (wait_ms opts)), t) \<and>
       r \<in> set (lrows t)"
    by (simp add: acquireLock_def)
qed

theorem expired_lock_witness:
  "fst (acquireLock Postgresql id (\<lambda>k u. u\<lparr>lclock := lclock u + 250\<rparr>) \<lparr>ttl_ms = 30000, wait_ms = 30000\<rparr>
      ''host'' ''t2'' ''k'' (one_lock 3600000 30000)) = Inr () \<and>
   fst (acquireLock Sqlite id (\<lambda>k u. u\<lparr>lclock := lclock u + 250\<rparr>) \<lparr>ttl_ms = 30000, wait_ms = 30000\<rparr>
      ''host'' ''t2'' ''k'' (one_lock 3600000 30000)) = Inl (makeTimeoutError ''k'' 30000)"
proof -
  let ?s = "one_lock 3600000 30000" and ?o = "\<lparr>ttl_ms = 30000, wait_ms = 30000\<rparr>"
  have "locks_ok ?s" "hd (lrows ?s) \<in> set (lrows ?s)" "lk_key (hd (lrows ?s)) = id ''k''"
    "lk_expires (hd (lrows ?s)) < lclock ?s"
    by (simp_all add: one_lock_def locks_ok_def)
  moreover have "day_of (lclock ?s + wait_ms ?o + 250) = day_of (lk_expires (hd (lrows ?s)))" by code_simp
  ultimately show ?thesis
    using expired_lock [of ?s "hd (lrows ?s)" id "''k''" 250 "\<lambda>k u. u\<lparr>lclock := lclock u + 250\<rparr>" ?o "''host''" "''t2''"]
    by auto
qed

text \<open>The texts of two instants, an hour apart, of 2026-03-01.\<close>

lemma texts_example:
  "toISOString 1772359201500 = ''2026-03-01T10:00:01.500Z'' \<and> current_timestamp 1772362801500 = ''2026-03-01 11:00:01''"
  by code_simp

end
