(* ===== verification/Journal.thy ===== *)
theory Journal
  imports Locks JobLaws "HOL-Library.AList"
begin

text \<open>
  The undo journal: \<open>ActionJournalRepository.sqlite.js\<close>, \<open>store/actionJournalStore.js\<close>, and its user in
  the settings domain, \<open>admin/services/settingsJournalService.js\<close>. The journal knows neither what a
  change does nor what its inverse looks like: both are type parameters, \<open>'s\<close> the tables of the domain
  and \<open>'p\<close> the payload. A change and its journal row are one transaction under the lock of the subject.
\<close>

section \<open>The table\<close>

datatype action_status = Act_applied | Act_undone | Act_expired

record 'p action =
  a_id :: nat
  a_domain :: string
  a_subject :: string
  a_label :: "string option"
  a_actor :: string
  a_action :: string
  a_payload :: "'p option"
  a_seq :: nat
  a_status :: action_status
  a_created :: int
  a_undone :: "int option"
  a_expires :: int

record ('p, 's) journal =
  jlocks :: locks
  jrows :: "'p action list"
  jnext :: nat
  jdom :: 's
  jdraws :: nat

definition JOURNAL_DOMAIN_ALL :: "string list" where
  "JOURNAL_DOMAIN_ALL = [''collection'', ''batch'', ''settings'', ''permissions'', ''file'', ''sharing'']"

definition jclock :: "('p, 's) journal \<Rightarrow> int" where
  "jclock s = lclock (jlocks s)"

definition jnow :: "('p, 's) journal \<Rightarrow> int" where
  "jnow s = (jclock s div 1000) * 1000"

section \<open>ActionJournalRepository.sqlite.js\<close>

definition of_subject :: "string \<Rightarrow> string \<Rightarrow> 'p action \<Rightarrow> bool" where
  "of_subject domain subject r \<longleftrightarrow> a_domain r = domain \<and> a_subject r = subject"

definition getMaxChainSeq :: "('p, 's) journal \<Rightarrow> string \<Rightarrow> string \<Rightarrow> nat" where
  "getMaxChainSeq s domain subject = fold max (map a_seq (filter (of_subject domain subject) (jrows s))) 0"

text \<open>The check on the domain, the unique (domain, subject, chain_seq), and \<open>datetime('now', '+n days')\<close>.\<close>

definition insertAction ::
  "string \<Rightarrow> string \<Rightarrow> string option \<Rightarrow> string \<Rightarrow> string \<Rightarrow> 'p option \<Rightarrow> nat \<Rightarrow> nat \<Rightarrow> (('p, 's) journal, nat) service" where
  "insertAction domain subject label actor action payload chainSeq retentionDays s =
     (if domain \<notin> set JOURNAL_DOMAIN_ALL \<or>
         (\<exists>r \<in> set (jrows s). of_subject domain subject r \<and> a_seq r = chainSeq) then (Inl db_failed, s)
      else (Inr (jnext s), s\<lparr>jnext := Suc (jnext s), jrows := jrows s @
        [\<lparr>a_id = jnext s, a_domain = domain, a_subject = subject, a_label = label, a_actor = actor,
          a_action = action, a_payload = payload, a_seq = chainSeq, a_status = Act_applied,
          a_created = jnow s, a_undone = None, a_expires = jnow s + int retentionDays * ms_per_day\<rparr>]\<rparr>))"

definition getAction :: "('p, 's) journal \<Rightarrow> nat \<Rightarrow> 'p action option" where
  "getAction s i = first_row (filter (\<lambda>r. a_id r = i) (jrows s))"

definition applied_after :: "string \<Rightarrow> string \<Rightarrow> nat \<Rightarrow> 'p action \<Rightarrow> bool" where
  "applied_after domain subject n r \<longleftrightarrow> of_subject domain subject r \<and> a_status r = Act_applied \<and> a_seq r > n"

definition countLaterAppliedTx :: "('p, 's) journal \<Rightarrow> string \<Rightarrow> string \<Rightarrow> nat \<Rightarrow> nat" where
  "countLaterAppliedTx s domain subject n = count_where (applied_after domain subject n) (jrows s)"

definition listAppliedFromSeq :: "('p, 's) journal \<Rightarrow> string \<Rightarrow> string \<Rightarrow> nat \<Rightarrow> 'p action list" where
  "listAppliedFromSeq s domain subject n =
     rev (sort_key a_seq (filter (\<lambda>r. of_subject domain subject r \<and> a_status r = Act_applied \<and> a_seq r \<ge> n) (jrows s)))"

definition markUndone :: "nat list \<Rightarrow> (('p, 's) journal, nat) service" where
  "markUndone ids s =
     (let p = (\<lambda>r. a_id r \<in> set ids \<and> a_status r = Act_applied)
      in (Inr (count_where p (jrows s)), s\<lparr>jrows := update_where p
           (\<lambda>r. r\<lparr>a_status := Act_undone, a_undone := Some (jnow s)\<rparr>) (jrows s)\<rparr>))"

text \<open>An expired row stays in the feed for thirty days from its creation.\<close>

definition in_feed :: "int \<Rightarrow> string option \<Rightarrow> string option \<Rightarrow> 'p action \<Rightarrow> bool" where
  "in_feed now actor domain r \<longleftrightarrow> (a_status r \<noteq> Act_expired \<or> a_created r \<ge> now - 30 * ms_per_day) \<and>
     (case actor of None \<Rightarrow> True | Some a \<Rightarrow> a_actor r = a) \<and>
     (case domain of None \<Rightarrow> True | Some d \<Rightarrow> a_domain r = d)"

definition feed_cap :: "int option \<Rightarrow> nat" where
  "feed_cap l = (case l of None \<Rightarrow> 200 | Some n \<Rightarrow> if n > 0 then nat n else 200)"

definition listFeed :: "('p, 's) journal \<Rightarrow> string option \<Rightarrow> string option \<Rightarrow> int option \<Rightarrow> 'p action list" where
  "listFeed s actor domain lim =
     take (feed_cap lim) (sort_key (\<lambda>r. - a_created r) (sort_key (\<lambda>r. - int (a_id r))
       (filter (in_feed (jclock s) actor domain) (jrows s))))"

definition listBySubject :: "('p, 's) journal \<Rightarrow> string \<Rightarrow> string \<Rightarrow> int option \<Rightarrow> 'p action list" where
  "listBySubject s domain subject lim =
     take (feed_cap lim) (rev (sort_key a_seq (filter (of_subject domain subject) (jrows s))))"

definition purgeSubject :: "string \<Rightarrow> string \<Rightarrow> (('p, 's) journal, nat) service" where
  "purgeSubject domain subject s =
     (Inr (count_where (of_subject domain subject) (jrows s)),
      s\<lparr>jrows := delete_where (of_subject domain subject) (jrows s)\<rparr>)"

text \<open>
  \<open>expireRows\<close>. With a cutoff, two Julian days are compared. Without one, the Julian day of the expiry,
  a number, is compared with the text \<open>datetime('now')\<close>: in sqlite every number is below every text.
\<close>

definition past_retention :: "int option \<Rightarrow> 'p action \<Rightarrow> bool" where
  "past_retention cutoff r = (case cutoff of Some c \<Rightarrow> a_expires r < c | None \<Rightarrow> True)"

definition expireRows :: "int option \<Rightarrow> (('p, 's) journal, nat) service" where
  "expireRows cutoff s =
     (let p = (\<lambda>r. a_status r = Act_applied \<and> past_retention cutoff r)
      in (Inr (count_where p (jrows s)), s\<lparr>jrows := update_where p
           (\<lambda>r. r\<lparr>a_payload := None, a_status := Act_expired\<rparr>) (jrows s)\<rparr>))"

section \<open>actionJournalStore.js\<close>

definition JOURNAL_RETENTION_DAYS :: nat where
  "JOURNAL_RETENTION_DAYS = 30"

text \<open>
  What the store uses from outside: the backend of the locks, SHA-256, random tokens, the name of the
  host, and what happens while it waits for a lock.
\<close>

record journal_env =
  e_backend :: lock_backend
  e_sha :: "string \<Rightarrow> string"
  e_token :: "nat \<Rightarrow> string"
  e_owner :: string
  e_nap :: "nat \<Rightarrow> locks \<Rightarrow> locks"

definition default_lock :: lock_options where
  "default_lock = \<lparr>ttl_ms = 30000, wait_ms = 30000\<rparr>"

text \<open>\<open>acquireLock\<close>, the body, and \<open>release\<close> in a \<open>finally\<close>.\<close>

definition with_lock :: "journal_env \<Rightarrow> string \<Rightarrow> (('p, 's) journal, 'a) service \<Rightarrow> (('p, 's) journal, 'a) service" where
  "with_lock env lockName m s =
     (let token = e_token env (jdraws s)
      in case acquireLock (e_backend env) (e_sha env) (e_nap env) default_lock (e_owner env) token lockName (jlocks s) of
           (Inl e, l) \<Rightarrow> (Inl e, s\<lparr>jlocks := l, jdraws := Suc (jdraws s)\<rparr>)
         | (Inr _, l) \<Rightarrow>
             (case m (s\<lparr>jlocks := l, jdraws := Suc (jdraws s)\<rparr>) of
                (r, t) \<Rightarrow> (r, t\<lparr>jlocks := release (e_sha env lockName) token (jlocks t)\<rparr>)))"

text \<open>\<open>executor.transaction\<close>: an error undoes everything and is mapped.\<close>

definition in_tx :: "(('p, 's) journal, 'a) service \<Rightarrow> (('p, 's) journal, 'a) service" where
  "in_tx m s = (case m s of (Inl e, t) \<Rightarrow> (Inl (mapDatabaseError e), s) | (Inr x, t) \<Rightarrow> (Inr x, t))"

definition on_domain :: "('s, 'a) service \<Rightarrow> (('p, 's) journal, 'a) service" where
  "on_domain m s = (case m (jdom s) of (r, d) \<Rightarrow> (r, s\<lparr>jdom := d\<rparr>))"

datatype 'r subject = Subject string | Subject_of "'r \<Rightarrow> string"

definition lock_subject :: "'r subject \<Rightarrow> string" where
  "lock_subject sub = (case sub of Subject x \<Rightarrow> x | Subject_of f \<Rightarrow> ''new'')"

definition resolve_subject :: "'r subject \<Rightarrow> 'r \<Rightarrow> string" where
  "resolve_subject sub r = (case sub of Subject x \<Rightarrow> x | Subject_of f \<Rightarrow> f r)"

record act_meta =
  m_actor :: string
  m_action :: string
  m_label :: "string option"

definition journal_lock :: "string \<Rightarrow> string \<Rightarrow> string" where
  "journal_lock domain subject = ''journal:'' @ domain @ '':'' @ subject"

definition commit_body ::
  "string \<Rightarrow> 'r subject \<Rightarrow> act_meta \<Rightarrow> ('r \<Rightarrow> 'p) \<Rightarrow> ('s, 'r) service \<Rightarrow> (('p, 's) journal, nat \<times> nat \<times> 'r) service" where
  "commit_body domain subject meta inv_of mutation =
     seqs (on_domain mutation) (\<lambda>result.
     seqs (reads (\<lambda>s. getMaxChainSeq s domain (resolve_subject subject result))) (\<lambda>maxSeq.
     seqs (insertAction domain (resolve_subject subject result) (m_label meta) (m_actor meta) (m_action meta)
             (Some (inv_of result)) (maxSeq + 1) JOURNAL_RETENTION_DAYS) (\<lambda>i.
     ret (i, maxSeq + 1, result))))"

definition commitChange ::
  "journal_env \<Rightarrow> string \<Rightarrow> 'r subject \<Rightarrow> act_meta \<Rightarrow> ('r \<Rightarrow> 'p) \<Rightarrow> ('s, 'r) service \<Rightarrow>
     (('p, 's) journal, nat \<times> nat \<times> 'r) service" where
  "commitChange env domain subject meta inv_of mutation =
     with_lock env (journal_lock domain (lock_subject subject)) (in_tx (commit_body domain subject meta inv_of mutation))"

text \<open>An outcome is \<open>{ applied, reason }\<close>. A domain without an executor is an error.\<close>

type_synonym ('p, 's) undo_executor = "'p action \<Rightarrow> ('s, (bool \<times> string option) list) service"

datatype undo_result =
    Journal_not_found
  | Journal_already_undone
  | Journal_expired
  | Journal_cascade_required nat
  | Undone nat "string list" "nat list"

fun run_executor ::
  "('p, 's) undo_executor \<Rightarrow> 'p action list \<Rightarrow> nat \<Rightarrow> string list \<Rightarrow> (('p, 's) journal, nat \<times> string list) service" where
  "run_executor handler [] undone skipped = ret (undone, skipped)"
| "run_executor handler (target # rest) undone skipped =
     seqs (on_domain (handler target)) (\<lambda>outcomes.
       run_executor handler rest (undone + length (filter fst outcomes))
         (skipped @ map (\<lambda>out. case snd out of None \<Rightarrow> ''changed'' | Some r \<Rightarrow> r) (filter (\<lambda>out. \<not> fst out) outcomes)))"

definition undo_rows ::
  "(string \<Rightarrow> ('p, 's) undo_executor option) \<Rightarrow> string \<Rightarrow> 'p action list \<Rightarrow> (('p, 's) journal, undo_result) service" where
  "undo_rows executors domain rows =
     (case executors domain of
        None \<Rightarrow> throw (Plain (''No undo executor registered for domain: '' @ domain))
      | Some handler \<Rightarrow>
          seqs (run_executor handler rows 0 []) (\<lambda>(undone, skipped).
          seqs (markUndone (map a_id rows)) (\<lambda>_. ret (Undone undone skipped (map a_id rows)))))"

definition undo_body ::
  "(string \<Rightarrow> ('p, 's) undo_executor option) \<Rightarrow> nat \<Rightarrow> bool \<Rightarrow> (('p, 's) journal, undo_result) service" where
  "undo_body executors actionId withLater =
     seqs (reads (\<lambda>s. getAction s actionId)) (\<lambda>found. case found of
       None \<Rightarrow> ret Journal_not_found
     | Some row \<Rightarrow>
         if a_status row = Act_undone then ret Journal_already_undone
         else if a_status row = Act_expired then ret Journal_expired
         else seqs (reads (\<lambda>s. countLaterAppliedTx s (a_domain row) (a_subject row) (a_seq row))) (\<lambda>laterCount.
           if laterCount > 0 \<and> \<not> withLater then ret (Journal_cascade_required laterCount)
           else seqs (reads (\<lambda>s. if withLater then listAppliedFromSeq s (a_domain row) (a_subject row) (a_seq row) else [row]))
                  (\<lambda>rows. undo_rows executors (a_domain row) rows)))"

definition undoAction ::
  "journal_env \<Rightarrow> (string \<Rightarrow> ('p, 's) undo_executor option) \<Rightarrow> nat \<Rightarrow> bool \<Rightarrow> (('p, 's) journal, undo_result) service" where
  "undoAction env executors actionId withLater =
     seqs (reads (\<lambda>s. getAction s actionId)) (\<lambda>probe. case probe of
       None \<Rightarrow> ret Journal_not_found
     | Some row \<Rightarrow> with_lock env (journal_lock (a_domain row) (a_subject row)) (in_tx (undo_body executors actionId withLater)))"

section \<open>SettingsRepository.sqlite.js and settingsJournalService.js\<close>

text \<open>The tables of the settings domain: the settings, and the job queue that a re-embedding fills.\<close>

record settings_db =
  st_rows :: "(string \<times> string) list"
  st_queue :: queue

datatype setting_inverse = Set_setting string "string option" | Cancel_ai_jobs "nat list" | Other_inverse

definition settings_getTx :: "settings_db \<Rightarrow> string \<Rightarrow> string option" where
  "settings_getTx d key = map_of (st_rows d) key"

definition settings_setTx :: "string \<Rightarrow> string \<Rightarrow> (settings_db, unit) service" where
  "settings_setTx key v = updates (\<lambda>d. d\<lparr>st_rows := AList.update key v (st_rows d)\<rparr>)"

definition settings_deleteTx :: "string \<Rightarrow> (settings_db, unit) service" where
  "settings_deleteTx key = updates (\<lambda>d. d\<lparr>st_rows := AList.delete key (st_rows d)\<rparr>)"

definition CURATED_AI_KILL_SWITCH_KEYS :: "string list" where
  "CURATED_AI_KILL_SWITCH_KEYS =
     [''AI_SEMANTIC_SEARCH_ENABLED'', ''AI_NL_PARSE_ENABLED'', ''AI_EVOLUTION_ENABLED'',
      ''AI_EVOLUTION_NIGHTLY_ENABLED'', ''AI_EVOLUTION_CREATE_ENABLED'', ''AI_MERGE_SUGGESTIONS_ENABLED'',
      ''AI_MERGE_ARBITER_ENABLED'']"

definition CURATED_AI_GATE_KEYS :: "string list" where
  "CURATED_AI_GATE_KEYS =
     [''AI_EVOLUTION_INACTIVE_DAYS'', ''AI_EVOLUTION_MIN_AGE_DAYS'', ''AI_EVOLUTION_CREATE_RATE_DAYS'',
      ''AI_ACTIVITY_HALF_LIFE_DAYS'', ''AI_USAGE_EVENT_RETENTION_DAYS'', ''ARCHIVE_RETENTION_DAYS'',
      ''STORAGE_SUGGESTION_RETENTION_DAYS'']"

definition isCuratedSettingKey :: "string \<Rightarrow> bool" where
  "isCuratedSettingKey key \<longleftrightarrow> key \<in> set (CURATED_AI_KILL_SWITCH_KEYS @ CURATED_AI_GATE_KEYS)"

definition setting_change :: "string \<Rightarrow> string \<Rightarrow> (settings_db, string option) service" where
  "setting_change key v =
     seqs (reads (\<lambda>d. settings_getTx d key)) (\<lambda>previous.
     seqs (settings_setTx key v) (\<lambda>_. ret previous))"

definition commitSettingChange ::
  "journal_env \<Rightarrow> string \<Rightarrow> string \<Rightarrow> string \<Rightarrow>
     ((setting_inverse, settings_db) journal, nat \<times> nat \<times> string option) service" where
  "commitSettingChange env key v actor =
     (if \<not> isCuratedSettingKey key then throw (Plain (''setting key '' @ key @ '' is not journaled''))
      else commitChange env ''settings'' (Subject (''settings:'' @ key))
             \<lparr>m_actor = actor, m_action = ''config-update'', m_label = Some key\<rparr>
             (\<lambda>previous. Set_setting key previous) (setting_change key v))"

definition on_queue :: "(queue, 'a) service \<Rightarrow> (settings_db, 'a) service" where
  "on_queue m d = (case m (st_queue d) of (r, q) \<Rightarrow> (r, d\<lparr>st_queue := q\<rparr>))"

definition applySettingsInverse :: "(setting_inverse, settings_db) undo_executor" where
  "applySettingsInverse row =
     (case a_payload row of
        None \<Rightarrow> ret [(False, Some ''changed'')]
      | Some (Set_setting key v) \<Rightarrow>
          if key = [] then ret [(False, Some ''changed'')]
          else seqs (case v of None \<Rightarrow> settings_deleteTx key | Some x \<Rightarrow> settings_setTx key x) (\<lambda>_. ret [(True, None)])
      | Some (Cancel_ai_jobs jobIds) \<Rightarrow>
          if jobIds = [] then ret [(False, Some ''changed'')]
          else seqs (on_queue (cancelPending jobIds)) (\<lambda>(cancelledIds, skippedIds).
            ret (map (\<lambda>i. if i \<in> set cancelledIds then (True, None)
                         else (False, Some (if i \<in> set skippedIds then ''not_pending'' else ''changed'')))
                   (filter (\<lambda>i. i > 0) (rev (remdups (rev jobIds))))))
      | Some Other_inverse \<Rightarrow> ret [(False, Some ''changed'')])"

definition settings_executors :: "string \<Rightarrow> (setting_inverse, settings_db) undo_executor option" where
  "settings_executors domain = (if domain = ''settings'' then Some applySettingsInverse else None)"

end
