(* ===== verification/JournalLaws.thy ===== *)
theory JournalLaws
  imports Journal
begin

text \<open>
  The laws of the undo journal. What a commit and an undo leave is proved for every domain; that an undo
  with its cascade brings the tables of a domain back is proved once, in the locale \<open>reversible\<close>, for
  every domain whose executor inverts its changes, and interpreted for the settings.
\<close>

section \<open>The lock around a body\<close>

definition lock_answer :: "journal_env \<Rightarrow> string \<Rightarrow> ('p, 's) journal \<Rightarrow> err + unit" where
  "lock_answer env name s = fst (acquireLock (e_backend env) (e_sha env) (e_nap env) default_lock (e_owner env)
     (e_token env (jdraws s)) name (jlocks s))"

lemma with_lock_cases:
  obtains (refused) e l where "with_lock env n m s = (Inl e, s\<lparr>jlocks := l, jdraws := Suc (jdraws s)\<rparr>)"
        "lock_answer env n s = Inl e"
    | (held) l l' r t where "m (s\<lparr>jlocks := l, jdraws := Suc (jdraws s)\<rparr>) = (r, t)"
        "with_lock env n m s = (r, t\<lparr>jlocks := l'\<rparr>)"
proof -
  let ?a = "acquireLock (e_backend env) (e_sha env) (e_nap env) default_lock (e_owner env)
     (e_token env (jdraws s)) n (jlocks s)"
  obtain x l where a: "?a = (x, l)" by (cases ?a)
  show ?thesis
  proof (cases x)
    case (Inl e)
    then show ?thesis using a refused by (simp add: with_lock_def lock_answer_def)
  next
    case (Inr u)
    obtain r t where "m (s\<lparr>jlocks := l, jdraws := Suc (jdraws s)\<rparr>) = (r, t)" by fastforce
    then show ?thesis using a Inr held by (simp add: with_lock_def)
  qed
qed

text \<open>The part of the state that is not about locks.\<close>

definition same_core :: "('p, 's) journal \<Rightarrow> ('p, 's) journal \<Rightarrow> bool" where
  "same_core s t \<longleftrightarrow> jrows t = jrows s \<and> jnext t = jnext s \<and> jdom t = jdom s"

lemma same_core_simps [simp]:
  "same_core s s" "same_core s (t\<lparr>jdraws := n\<rparr>) = same_core s t"
  "same_core s (t\<lparr>jlocks := l\<rparr>) = same_core s t" "same_core (s\<lparr>jlocks := l, jdraws := n\<rparr>) t = same_core s t"
  by (simp_all add: same_core_def)

lemma locked_tx_error: "with_lock env n (in_tx m) s = (Inl e, t) \<Longrightarrow> same_core s t"
  by (cases rule: with_lock_cases [of env n "in_tx m" s]) (auto simp: in_tx_def split: prod.splits sum.splits)

lemma locked_tx_result:
  assumes "with_lock env n (in_tx m) s = (Inr x, t)"
  obtains l l' u where "m (s\<lparr>jlocks := l, jdraws := Suc (jdraws s)\<rparr>) = (Inr x, u)" "t = u\<lparr>jlocks := l'\<rparr>"
  using assms
  by (cases rule: with_lock_cases [of env n "in_tx m" s]) (auto simp: in_tx_def split: prod.splits sum.splits)

section \<open>Rows\<close>

definition chain_key :: "'p action \<Rightarrow> string \<times> string \<times> nat" where
  "chain_key r = (a_domain r, a_subject r, a_seq r)"

definition journal_ok :: "('p, 's) journal \<Rightarrow> bool" where
  "journal_ok s \<longleftrightarrow> distinct (map a_id (jrows s)) \<and> distinct (map chain_key (jrows s)) \<and>
     (\<forall>r \<in> set (jrows s). a_id r < jnext s \<and> 0 < a_seq r \<and> a_domain r \<in> set JOURNAL_DOMAIN_ALL \<and>
        (a_status r = Act_undone \<longleftrightarrow> a_undone r \<noteq> None) \<and> (a_payload r = None \<longleftrightarrow> a_status r = Act_expired))"

lemma journal_ok_cong: "same_core s t \<Longrightarrow> journal_ok t = journal_ok s"
  by (simp add: same_core_def journal_ok_def)

lemma getAction_Some:
  assumes "journal_ok s" "r \<in> set (jrows s)"
  shows "getAction s (a_id r) = Some r"
  unfolding getAction_def
  by (rule first_row_filter_unique [where g = a_id]) (use assms in \<open>auto simp: journal_ok_def\<close>)

lemma getAction_in: "getAction s i = Some r \<Longrightarrow> r \<in> set (jrows s) \<and> a_id r = i"
  using first_row_in [of "filter (\<lambda>r. a_id r = i) (jrows s)" r] by (simp add: getAction_def)

lemma fold_max_upper: "n \<le> fold max xs n \<and> (\<forall>x \<in> set xs. x \<le> fold max xs (n :: nat))"
  by (induction xs arbitrary: n) (auto intro: le_trans max.cobounded1 max.cobounded2, (meson max.bounded_iff le_trans)+)

lemma getMaxChainSeq_upper:
  "r \<in> set (jrows s) \<Longrightarrow> of_subject domain subject r \<Longrightarrow> a_seq r \<le> getMaxChainSeq s domain subject"
  using fold_max_upper [of 0 "map a_seq (filter (of_subject domain subject) (jrows s))"]
  by (auto simp: getMaxChainSeq_def)

section \<open>Commits\<close>

definition committed_row :: "'p action \<Rightarrow> nat \<Rightarrow> string \<Rightarrow> string \<Rightarrow> 'p \<Rightarrow> nat \<Rightarrow> bool" where
  "committed_row row i domain subject p n \<longleftrightarrow> a_id row = i \<and> a_domain row = domain \<and> a_subject row = subject \<and>
     a_payload row = Some p \<and> a_seq row = n \<and> a_status row = Act_applied \<and> a_undone row = None"

definition commit_done ::
  "string \<Rightarrow> string \<Rightarrow> 'p \<Rightarrow> ('p, 's) journal \<Rightarrow> nat \<Rightarrow> nat \<Rightarrow> ('p, 's) journal \<Rightarrow> bool" where
  "commit_done domain subject p s i n t \<longleftrightarrow>
     (\<exists>row. jrows t = jrows s @ [row] \<and> committed_row row i domain subject p n) \<and>
     i = jnext s \<and> n = getMaxChainSeq s domain subject + 1 \<and> jnext t = Suc (jnext s) \<and>
     domain \<in> set JOURNAL_DOMAIN_ALL"

lemma commit_success:
  assumes "commitChange env domain subject meta inv_of mutation s = (Inr (i, n, r), t)"
  shows "mutation (jdom s) = (Inr r, jdom t) \<and>
    commit_done domain (resolve_subject subject r) (inv_of r) s i n t"
proof -
  obtain l l' u where u: "commit_body domain subject meta inv_of mutation (s\<lparr>jlocks := l, jdraws := Suc (jdraws s)\<rparr>)
      = (Inr (i, n, r), u)" "t = u\<lparr>jlocks := l'\<rparr>"
    using locked_tx_result [OF assms [unfolded commitChange_def]] by blast
  let ?s = "s\<lparr>jlocks := l, jdraws := Suc (jdraws s)\<rparr>"
  obtain x d where m: "mutation (jdom s) = (x, d)" by fastforce
  then obtain r' where x: "x = Inr r'" using u(1)
    by (cases x) (auto simp: commit_body_def on_domain_def seqs_def)
  let ?w = "?s\<lparr>jdom := d\<rparr>" and ?sub = "resolve_subject subject r'"
  have max: "getMaxChainSeq ?w domain ?sub = getMaxChainSeq s domain ?sub" by (simp add: getMaxChainSeq_def)
  let ?ins = "insertAction domain ?sub (m_label meta) (m_actor meta) (m_action meta) (Some (inv_of r'))
      (getMaxChainSeq s domain ?sub + 1) JOURNAL_RETENTION_DAYS ?w"
  obtain y v where ins: "?ins = (y, v)" by (cases ?ins)
  have "seqs (insertAction domain ?sub (m_label meta) (m_actor meta) (m_action meta) (Some (inv_of r'))
      (getMaxChainSeq s domain ?sub + 1) JOURNAL_RETENTION_DAYS)
      (\<lambda>k. ret (k, getMaxChainSeq s domain ?sub + 1, r')) ?w = (Inr (i, n, r), u)"
    using u(1) m x unfolding commit_body_def seqs_def [of "on_domain mutation"] on_domain_def
    by (simp add: seqs_reads max)
  then have "y = Inr i" "v = u" "r' = r" "n = getMaxChainSeq s domain ?sub + 1"
    using ins by (cases y; simp add: seqs_def ret_def)+
  then have "r' = r" "jdom u = d" "commit_done domain ?sub (inv_of r') s i n u"
    using ins by (auto simp: insertAction_def commit_done_def committed_row_def split: if_splits)
  then show ?thesis using m x u(2) by (auto simp: commit_done_def)
qed

lemma commit_failure: "commitChange env domain subject meta inv_of mutation s = (Inl e, t) \<Longrightarrow> same_core s t"
  unfolding commitChange_def by (rule locked_tx_error)

lemma commit_done_ok:
  assumes "journal_ok s" "commit_done domain subject p s i n t"
  shows "journal_ok t"
proof -
  obtain row where row: "jrows t = jrows s @ [row]" "committed_row row i domain subject p n"
    using assms(2) by (auto simp: commit_done_def)
  have "i \<notin> a_id ` set (jrows s)" using assms by (fastforce simp: journal_ok_def commit_done_def)
  moreover have "(domain, subject, n) \<notin> chain_key ` set (jrows s)"
    using getMaxChainSeq_upper [of _ s domain subject] assms(2)
    by (fastforce simp: chain_key_def of_subject_def commit_done_def)
  moreover have "\<forall>r \<in> set (jrows s). a_id r < Suc (jnext s)"
    using assms(1) less_SucI by (auto simp: journal_ok_def)
  ultimately show ?thesis
    using assms row by (auto simp: journal_ok_def commit_done_def committed_row_def chain_key_def)
qed

section \<open>Undo\<close>

lemma run_executor_core:
  "run_executor handler rows n sk s = (x, t) \<Longrightarrow> jrows t = jrows s \<and> jnext t = jnext s \<and> jlocks t = jlocks s"
proof (induction rows arbitrary: n sk s)
  case (Cons row rows)
  obtain y d where "handler row (jdom s) = (y, d)" by fastforce
  then show ?case using Cons by (cases y) (auto simp: seqs_def on_domain_def)
qed (simp add: ret_def)

text \<open>The rows that an undo of the row processes.\<close>

definition undo_scope :: "('p, 's) journal \<Rightarrow> 'p action \<Rightarrow> bool \<Rightarrow> 'p action list" where
  "undo_scope s row withLater =
     (if withLater then listAppliedFromSeq s (a_domain row) (a_subject row) (a_seq row) else [row])"

definition undone_at :: "nat list \<Rightarrow> int \<Rightarrow> 'p action list \<Rightarrow> 'p action list" where
  "undone_at ids now rows = update_where (\<lambda>r. a_id r \<in> set ids \<and> a_status r = Act_applied)
     (\<lambda>r. r\<lparr>a_status := Act_undone, a_undone := Some now\<rparr>) rows"

definition undone_core ::
  "('p, 's) journal \<Rightarrow> 'p action \<Rightarrow> bool \<Rightarrow> nat list \<Rightarrow> ('p, 's) journal \<Rightarrow> bool" where
  "undone_core s row withLater ids t \<longleftrightarrow> a_status row = Act_applied \<and> ids = map a_id (undo_scope s row withLater) \<and>
     (withLater \<or> countLaterAppliedTx s (a_domain row) (a_subject row) (a_seq row) = 0) \<and>
     jnext t = jnext s \<and> (\<exists>now. jrows t = undone_at ids now (jrows s))"

lemma undo_rows_result:
  assumes "undo_rows execs domain rows s = (Inr res, t)"
  obtains handler n sk u where "execs domain = Some handler" "run_executor handler rows 0 [] s = (Inr (n, sk), u)"
    "res = Undone n sk (map a_id rows)" "t = u\<lparr>jrows := undone_at (map a_id rows) (jnow s) (jrows s)\<rparr>"
proof (cases "execs domain")
  case None
  then show ?thesis using assms by (simp add: undo_rows_def throw_def)
next
  case (Some handler)
  obtain x u where r: "run_executor handler rows 0 [] s = (x, u)" by fastforce
  then obtain n sk where x: "x = Inr (n, sk)"
    using assms Some by (cases x) (auto simp: undo_rows_def seqs_def)
  have "jnow u = jnow s" "jrows u = jrows s"
    using run_executor_core [OF r] by (simp_all add: jnow_def jclock_def)
  then show ?thesis using that [OF Some] r x assms Some
    by (simp add: undo_rows_def seqs_def markUndone_def ret_def undone_at_def Let_def)
qed

lemma undo_body_cases:
  assumes "undo_body execs i withLater s = (Inr res, t)"
  shows "case res of
      Journal_not_found \<Rightarrow> t = s \<and> getAction s i = None
    | Journal_already_undone \<Rightarrow> t = s \<and> (\<exists>r. getAction s i = Some r \<and> a_status r = Act_undone)
    | Journal_expired \<Rightarrow> t = s \<and> (\<exists>r. getAction s i = Some r \<and> a_status r = Act_expired)
    | Journal_cascade_required k \<Rightarrow> t = s \<and> \<not> withLater \<and> k > 0 \<and> (\<exists>r. getAction s i = Some r \<and>
        a_status r = Act_applied \<and> k = countLaterAppliedTx s (a_domain r) (a_subject r) (a_seq r))
    | Undone n sk ids \<Rightarrow> (\<exists>r. getAction s i = Some r \<and> undone_core s r withLater ids t)"
proof (cases "getAction s i")
  case None
  then show ?thesis using assms by (auto simp: undo_body_def seqs_reads ret_def)
next
  case (Some row)
  consider "a_status row \<noteq> Act_applied"
    | "a_status row = Act_applied" "countLaterAppliedTx s (a_domain row) (a_subject row) (a_seq row) > 0 \<and> \<not> withLater"
    | "a_status row = Act_applied" "\<not> (countLaterAppliedTx s (a_domain row) (a_subject row) (a_seq row) > 0 \<and> \<not> withLater)"
    by blast
  then show ?thesis
  proof cases
    case 1
    then show ?thesis using assms Some
      by (cases "a_status row") (auto simp: undo_body_def seqs_reads ret_def)
  next
    case 2
    then show ?thesis using assms Some by (auto simp: undo_body_def seqs_reads ret_def)
  next
    case 3
    then have "undo_rows execs (a_domain row) (undo_scope s row withLater) s = (Inr res, t)"
      using assms Some by (cases withLater) (simp_all add: undo_body_def seqs_reads undo_scope_def)
    then obtain handler n sk u where u: "run_executor handler (undo_scope s row withLater) 0 [] s = (Inr (n, sk), u)"
      "res = Undone n sk (map a_id (undo_scope s row withLater))"
      "t = u\<lparr>jrows := undone_at (map a_id (undo_scope s row withLater)) (jnow s) (jrows s)\<rparr>"
      by (rule undo_rows_result)
    then have "undone_core s row withLater (map a_id (undo_scope s row withLater)) t"
      using 3 run_executor_core [OF u(1)] by (auto simp: undone_core_def)
    then show ?thesis using Some u(2) by simp
  qed
qed


lemma reads_core:
  assumes "same_core s t"
  shows "getAction t = getAction s" "listAppliedFromSeq t = listAppliedFromSeq s"
    "countLaterAppliedTx t = countLaterAppliedTx s" "undo_scope t = undo_scope s"
proof -
  have rows: "jrows t = jrows s" using assms by (simp add: same_core_def)
  show "getAction t = getAction s" by (rule ext) (simp only: getAction_def rows)
  show "countLaterAppliedTx t = countLaterAppliedTx s" by (intro ext) (simp only: countLaterAppliedTx_def rows)
  show l: "listAppliedFromSeq t = listAppliedFromSeq s" by (intro ext) (simp only: listAppliedFromSeq_def rows)
  show "undo_scope t = undo_scope s" by (intro ext) (simp only: undo_scope_def l)
qed

lemma same_core_locks: "same_core s (s\<lparr>jlocks := l, jdraws := n\<rparr>)"
  by (simp add: same_core_def)

text \<open>An undo that returns, with the state it started from in the place of the locked one.\<close>

lemma undo_success:
  assumes "undoAction env execs i withLater s = (Inr res, t)"
  obtains (missing) "getAction s i = None" "res = Journal_not_found" "t = s"
    | (found) row s1 u where "getAction s i = Some row" "same_core s s1"
        "undo_body execs i withLater s1 = (Inr res, u)" "same_core u t"
proof (cases "getAction s i")
  case None
  then have "undoAction env execs i withLater s = (Inr Journal_not_found, s)"
    by (simp add: undoAction_def seqs_reads ret_def)
  then have "res = Journal_not_found" "t = s" using assms by simp_all
  then show ?thesis by (rule missing [OF None])
next
  case (Some row)
  then have "with_lock env (journal_lock (a_domain row) (a_subject row)) (in_tx (undo_body execs i withLater)) s = (Inr res, t)"
    using assms by (simp add: undoAction_def seqs_reads)
  then show ?thesis
  proof (rule locked_tx_result)
    fix l l' u
    assume "undo_body execs i withLater (s\<lparr>jlocks := l, jdraws := Suc (jdraws s)\<rparr>) = (Inr res, u)" "t = u\<lparr>jlocks := l'\<rparr>"
    then show ?thesis using found [OF Some same_core_locks] by simp
  qed
qed

section \<open>Chains of commits\<close>

fun commit_each ::
  "('x \<Rightarrow> (('p, 's) journal, nat \<times> nat \<times> 'r) service) \<Rightarrow> 'x list \<Rightarrow> ('p, 's) journal \<Rightarrow> (nat list \<times> ('p, 's) journal) option" where
  "commit_each f [] s = Some ([], s)"
| "commit_each f (x # xs) s =
     (case f x s of
        (Inl e, t) \<Rightarrow> None
      | (Inr (i, n, r), t) \<Rightarrow> map_option (\<lambda>(ids, u). (i # ids, u)) (commit_each f xs t))"

text \<open>The rows that commits on one subject have appended.\<close>

definition chain_rows :: "string \<Rightarrow> string \<Rightarrow> nat \<Rightarrow> 'p action list \<Rightarrow> bool" where
  "chain_rows domain subject n rows \<longleftrightarrow> sorted (map a_seq rows) \<and>
     (\<forall>r \<in> set rows. of_subject domain subject r \<and> a_status r = Act_applied \<and> n < a_seq r)"

lemma run_executor_append:
  "run_executor h (xs @ ys) n sk s = seqs (run_executor h xs n sk) (\<lambda>(m, sk'). run_executor h ys m sk') s"
proof (induction xs arbitrary: n sk s)
  case (Cons x xs)
  then show ?case by (simp add: seqs_def split: prod.splits sum.splits)
qed (simp add: seqs_ret)

lemma getMax_commit:
  assumes "commit_done domain subject p s i n t"
  shows "getMaxChainSeq t domain subject = n" "n > getMaxChainSeq s domain subject"
proof -
  obtain row where row: "jrows t = jrows s @ [row]" "committed_row row i domain subject p n"
    using assms by (auto simp: commit_done_def)
  have n: "n = getMaxChainSeq s domain subject + 1" using assms by (simp add: commit_done_def)
  have "getMaxChainSeq t domain subject = max (a_seq row) (getMaxChainSeq s domain subject)"
    using row by (simp add: getMaxChainSeq_def of_subject_def committed_row_def)
  then show "getMaxChainSeq t domain subject = n" "n > getMaxChainSeq s domain subject"
    using n row(2) by (simp_all add: committed_row_def)
qed

text \<open>The interface: an executor that inverts every change of the domain.\<close>

locale reversible =
  fixes change :: "'x \<Rightarrow> ('s, 'r) service"
    and inv_of :: "'x \<Rightarrow> 'r \<Rightarrow> 'p"
    and execute :: "('p, 's) undo_executor"
  assumes reverses: "change x d = (Inr r, d') \<Longrightarrow> a_payload row = Some (inv_of x r) \<Longrightarrow>
    \<exists>outs. execute row d' = (Inr outs, d)"
begin

lemma commit_chain:
  assumes "commit_each (\<lambda>x. commitChange env domain (Subject subject) (meta x) (inv_of x) (change x)) xs s = Some (ids, t)"
    and "journal_ok s"
  shows "\<exists>new. jrows t = jrows s @ new \<and> map a_id new = ids \<and> journal_ok t \<and> jnext t = jnext s + length xs \<and>
    chain_rows domain subject (getMaxChainSeq s domain subject) new \<and>
    (\<forall>w n sk. jdom w = jdom t \<longrightarrow> (\<exists>out u. run_executor execute (rev new) n sk w = (Inr out, u) \<and> jdom u = jdom s))"
  using assms
proof (induction xs arbitrary: s ids)
  case Nil
  then show ?case by (simp add: chain_rows_def ret_def)
next
  case (Cons x xs)
  let ?c = "commitChange env domain (Subject subject) (meta x) (inv_of x) (change x) s"
  obtain i n r s' ids' where c: "?c = (Inr (i, n, r), s')" "ids = i # ids'"
    "commit_each (\<lambda>x. commitChange env domain (Subject subject) (meta x) (inv_of x) (change x)) xs s' = Some (ids', t)"
    using Cons.prems(1) by (auto split: prod.splits sum.splits)
  have done1: "change x (jdom s) = (Inr r, jdom s')" "commit_done domain subject (inv_of x r) s i n s'"
    using commit_success [OF c(1)] by (simp_all add: resolve_subject_def)
  obtain row where row: "jrows s' = jrows s @ [row]" "committed_row row i domain subject (inv_of x r) n"
    using done1(2) by (auto simp: commit_done_def)
  have ok: "journal_ok s'" using commit_done_ok [OF Cons.prems(2) done1(2)] .
  from Cons.IH [OF c(3) ok] obtain new where new: "jrows t = jrows s' @ new" "map a_id new = ids'" "journal_ok t"
    "jnext t = jnext s' + length xs" "chain_rows domain subject (getMaxChainSeq s' domain subject) new"
    "\<And>w n sk. jdom w = jdom t \<Longrightarrow> \<exists>out u. run_executor execute (rev new) n sk w = (Inr out, u) \<and> jdom u = jdom s'"
    by blast
  have "chain_rows domain subject (getMaxChainSeq s domain subject) (row # new)"
    using new(5) getMax_commit [OF done1(2)] row(2)
    by (auto simp: chain_rows_def committed_row_def of_subject_def less_imp_le)
  moreover have "\<exists>out u. run_executor execute (rev (row # new)) n sk w = (Inr out, u) \<and> jdom u = jdom s"
    if w: "jdom w = jdom t" for w n sk
  proof -
    obtain m sk' u where u: "run_executor execute (rev new) n sk w = (Inr (m, sk'), u)" "jdom u = jdom s'"
      using new(6) [OF w, of n sk] by auto
    obtain outs where "execute row (jdom s') = (Inr outs, jdom s)"
      using reverses [OF done1(1), of row] row(2) by (auto simp: committed_row_def)
    then have "\<exists>out v. run_executor execute [row] m sk' u = (Inr out, v) \<and> jdom v = jdom s"
      using u(2) by (simp add: seqs_def on_domain_def ret_def)
    then show ?thesis using u(1) by (simp add: run_executor_append seqs_def)
  qed
  moreover have "jrows t = jrows s @ (row # new)" "map a_id (row # new) = ids" "jnext t = jnext s + length (x # xs)"
    using new(1,2,4) row c(2) done1(2) by (simp_all add: committed_row_def commit_done_def)
  ultimately show ?case using new(3) by blast
qed

lemma scope_of_chain:
  assumes "jrows t = jrows s @ new" "chain_rows domain subject (getMaxChainSeq s domain subject) new" "new = row # rest"
  shows "undo_scope t row True = rev new"
proof -
  have r: "a_domain row = domain" "a_subject row = subject" "a_seq row > getMaxChainSeq s domain subject"
    using assms(2,3) by (auto simp: chain_rows_def of_subject_def)
  let ?p = "\<lambda>q. of_subject domain subject q \<and> a_status q = Act_applied \<and> a_seq q \<ge> a_seq row"
  have "filter ?p (jrows s) = []"
    using getMaxChainSeq_upper [of _ s domain subject] r(3) by (fastforce simp: filter_empty_conv)
  moreover have "filter ?p new = new" using assms(2,3) by (auto simp: chain_rows_def intro: filter_True)
  moreover have "sort_key a_seq new = new" using assms(2) by (simp add: chain_rows_def sort_key_id_if_sorted)
  ultimately show ?thesis using r assms(1) by (simp add: undo_scope_def listAppliedFromSeq_def)
qed

lemma chain_undo_body:
  assumes "commit_each (\<lambda>x. commitChange env domain (Subject subject) (meta x) (inv_of x) (change x)) xs s = Some (ids, t)"
    and "journal_ok s" "xs \<noteq> []" "execs domain = Some execute" "same_core t t1"
  shows "\<exists>n sk u now. undo_body execs (hd ids) True t1 = (Inr (Undone n sk (rev ids)), u) \<and> jdom u = jdom s \<and>
    jrows u = jrows s @ undone_at ids now (drop (length (jrows s)) (jrows t))"
proof -
  obtain new where new: "jrows t = jrows s @ new" "map a_id new = ids" "journal_ok t"
    "jnext t = jnext s + length xs" "chain_rows domain subject (getMaxChainSeq s domain subject) new"
    "\<And>w n sk. jdom w = jdom t \<Longrightarrow> \<exists>out u. run_executor execute (rev new) n sk w = (Inr out, u) \<and> jdom u = jdom s"
    using commit_chain [OF assms(1,2)] by blast
  have "length ids = length xs" using assms(1)
    by (induction xs arbitrary: s ids) (auto split: prod.splits sum.splits)
  then have "new \<noteq> []" using new(2) assms(3) by auto
  then obtain row rest where row: "new = row # rest" by (cases new) auto
  then have hd: "hd ids = a_id row" using new(2) by auto
  have get: "getAction t (hd ids) = Some row"
    unfolding hd by (rule getAction_Some [OF new(3)]) (use new(1) row in simp)
  have ids_rev: "map a_id (rev new) = rev ids" using new(2) by (simp add: rev_map [symmetric])
  have r: "a_status row = Act_applied" "a_domain row = domain"
    using new(5) row by (auto simp: chain_rows_def of_subject_def)
  have core: "jdom t1 = jdom t" "jrows t1 = jrows s @ new" using assms(5) new(1) by (simp_all add: same_core_def)
  have scope: "undo_scope t1 row True = rev new"
    using reads_core(4) [OF assms(5)] scope_of_chain [OF new(1,5) row] by simp
  obtain n sk w where w: "run_executor execute (rev new) 0 [] t1 = (Inr (n, sk), w)" "jdom w = jdom s"
    using new(6) [OF core(1), of 0 "[]"] by auto
  have rows: "jrows w = jrows s @ new" using run_executor_core [OF w(1)] core(2) by simp
  have "undo_body execs (hd ids) True t1 = undo_rows execs domain (rev new) t1"
    using get r scope reads_core(1) [OF assms(5)] by (simp add: undo_body_def seqs_reads undo_scope_def)
  also have "\<dots> = (Inr (Undone n sk (rev ids)), w\<lparr>jrows := undone_at (rev ids) (jnow w) (jrows w)\<rparr>)"
    using w(1) assms(4) ids_rev
    by (simp add: undo_rows_def seqs_def markUndone_def ret_def undone_at_def Let_def)
  finally have body: "undo_body execs (hd ids) True t1 =
    (Inr (Undone n sk (rev ids)), w\<lparr>jrows := undone_at (rev ids) (jnow w) (jrows w)\<rparr>)" .
  have "a_id q \<notin> set ids" if "q \<in> set (jrows s)" for q
    using new(1-3) that by (auto simp: journal_ok_def)
  then have "undone_at (rev ids) (jnow w) (jrows s) = jrows s"
    by (auto simp: undone_at_def intro: update_where_id)
  then have "undone_at (rev ids) (jnow w) (jrows w) = jrows s @ undone_at ids (jnow w) new"
    by (simp add: rows undone_at_def update_where_def)
  then have "jrows (w\<lparr>jrows := undone_at (rev ids) (jnow w) (jrows w)\<rparr>)
      = jrows s @ undone_at ids (jnow w) (drop (length (jrows s)) (jrows t))"
    by (simp add: new(1))
  then show ?thesis using body w(2) by fastforce
qed

text \<open>The undo of the first of the commits, with the later ones: it fails only when the lock is refused.\<close>

lemma undo_restores:
  assumes "commit_each (\<lambda>x. commitChange env domain (Subject subject) (meta x) (inv_of x) (change x)) xs s = Some (ids, t)"
    and "journal_ok s" "xs \<noteq> []" "execs domain = Some execute"
    and "undoAction env' execs (hd ids) True t = (x, u)"
  shows "(\<exists>e name. x = Inl e \<and> lock_answer env' name t = Inl e \<and> same_core t u) \<or>
    (jdom u = jdom s \<and> (\<exists>n sk now. x = Inr (Undone n sk (rev ids)) \<and>
       jrows u = jrows s @ undone_at ids now (drop (length (jrows s)) (jrows t))))"
proof -
  note body = chain_undo_body [where meta = meta and domain = domain and execs = execs, OF assms(1-4)]
  obtain row where row: "getAction t (hd ids) = Some row"
    using body [of t] undo_body_cases [of execs "hd ids" True t] by fastforce
  then have "with_lock env' (journal_lock (a_domain row) (a_subject row)) (in_tx (undo_body execs (hd ids) True)) t = (x, u)"
    using assms(5) by (simp add: undoAction_def seqs_reads)
  then show ?thesis
  proof (cases rule: with_lock_cases [of env' "journal_lock (a_domain row) (a_subject row)"
        "in_tx (undo_body execs (hd ids) True)" t])
    case (refused e l)
    then show ?thesis
      using \<open>with_lock env' _ _ t = (x, u)\<close> by (auto intro!: exI [of _ "journal_lock (a_domain row) (a_subject row)"])
  next
    case (held l l' r w)
    obtain n sk v now where v: "undo_body execs (hd ids) True (t\<lparr>jlocks := l, jdraws := Suc (jdraws t)\<rparr>)
        = (Inr (Undone n sk (rev ids)), v)" "jdom v = jdom s"
      "jrows v = jrows s @ undone_at ids now (drop (length (jrows s)) (jrows t))"
      using body [OF same_core_locks] by blast
    then have "r = Inr (Undone n sk (rev ids))" "w = v" using held(1) by (simp_all add: in_tx_def)
    then have "x = Inr (Undone n sk (rev ids))" "u = v\<lparr>jlocks := l'\<rparr>"
      using held(2) \<open>with_lock env' _ _ t = (x, u)\<close> by simp_all
    moreover have "jrows (v\<lparr>jlocks := l'\<rparr>) = jrows v" "jdom (v\<lparr>jlocks := l'\<rparr>) = jdom v" by simp_all
    ultimately show ?thesis using v(2,3) by metis
  qed
qed

end

text \<open>The settings: the executor writes the previous value back, or deletes a key that was not set.\<close>

lemma update_back: "map_of al k = Some v \<Longrightarrow> AList.update k v al = al"
  by (induction al) auto

lemma delete_back: "map_of al k = None \<Longrightarrow> AList.delete k (AList.update k w al) = al"
proof (induction al)
  case (Cons p al)
  then show ?case by (cases p) (auto split: if_splits)
qed simp

definition curated_change :: "string \<Rightarrow> string \<Rightarrow> (settings_db, string option) service" where
  "curated_change key v =
     (if \<not> isCuratedSettingKey key then throw (Plain (''setting key '' @ key @ '' is not journaled''))
      else setting_change key v)"

lemma curated_nonempty: "isCuratedSettingKey key \<Longrightarrow> key \<noteq> []"
  by (auto simp: isCuratedSettingKey_def CURATED_AI_KILL_SWITCH_KEYS_def CURATED_AI_GATE_KEYS_def)

interpretation settings: reversible "curated_change key" "\<lambda>v previous. Set_setting key previous" applySettingsInverse
  for key
proof unfold_locales
  fix x d r d' and row :: "setting_inverse action"
  assume a: "curated_change key x d = (Inr r, d')" "a_payload row = Some (Set_setting key r)"
  then have "isCuratedSettingKey key" by (auto simp: curated_change_def throw_def split: if_splits)
  then have "key \<noteq> []" "setting_change key x d = (Inr r, d')"
    using a(1) curated_nonempty by (simp_all add: curated_change_def)
  then show "\<exists>outs. applySettingsInverse row d' = (Inr outs, d)"
    using a(2)
    by (cases "settings_getTx d key")
      (auto simp: setting_change_def service_simps settings_setTx_def settings_deleteTx_def settings_getTx_def
        applySettingsInverse_def ret_def update_back delete_back)
qed

end
