(* ===== verification/JournalProps.thy ===== *)
theory JournalProps
  imports JournalLaws
begin

text \<open>The properties of the undo journal and of its user, the settings.\<close>

section \<open>Histories of a journal\<close>

text \<open>
  One step: an operation of the store on some domain, with one of the mutations that the domains have, or anything else that happens to the locks, to the
  clock or to the tables of the domains.
\<close>

inductive journal_step ::
  "(string \<Rightarrow> ('p, 's) undo_executor option) \<Rightarrow> ('s, 'r) service set \<Rightarrow> ('p, 's) journal \<Rightarrow> ('p, 's) journal \<Rightarrow> bool"
  for execs mutations where
  committed: "mutation \<in> mutations \<Longrightarrow> journal_step execs mutations s (snd (commitChange env domain subject meta inv_of mutation s))"
| undo_asked: "journal_step execs mutations s (snd (undoAction env execs i withLater s))"
| expired: "journal_step execs mutations s (snd (expireRows cutoff s))"
| purged: "journal_step execs mutations s (snd (purgeSubject domain subject s))"
| elsewhere: "journal_step execs mutations s (s\<lparr>jlocks := l, jdom := d\<rparr>)"

text \<open>What may happen to a row: an applied row may be undone or expire, any other row stays as it is.\<close>

definition row_edge :: "'p action \<Rightarrow> 'p action \<Rightarrow> bool" where
  "row_edge r q \<longleftrightarrow> q = r \<or> (a_status r = Act_applied \<and>
     ((\<exists>now. q = r\<lparr>a_status := Act_undone, a_undone := Some now\<rparr>) \<or>
      q = r\<lparr>a_payload := None, a_status := Act_expired\<rparr>))"

definition journal_edge :: "('p, 's) journal \<Rightarrow> ('p, 's) journal \<Rightarrow> bool" where
  "journal_edge s t \<longleftrightarrow> jnext s \<le> jnext t \<and>
     (\<forall>q \<in> set (jrows t). (\<exists>r \<in> set (jrows s). row_edge r q) \<or> jnext s \<le> a_id q)"

lemma row_edge_refl [simp]: "row_edge r r"
  by (simp add: row_edge_def)

lemma row_edge_trans: "row_edge a b \<Longrightarrow> row_edge b c \<Longrightarrow> row_edge a c"
  by (auto simp: row_edge_def)

lemma row_edge_id: "row_edge r q \<Longrightarrow> a_id q = a_id r"
  by (auto simp: row_edge_def)

lemma journal_edge_refl [simp]: "journal_edge s s"
  by (auto simp: journal_edge_def intro!: bexI)

lemma journal_edge_trans:
  assumes "journal_edge s t" "journal_edge t u"
  shows "journal_edge s u"
proof -
  have "(\<exists>r \<in> set (jrows s). row_edge r q) \<or> jnext s \<le> a_id q" if q: "q \<in> set (jrows u)" for q
  proof -
    consider p where "p \<in> set (jrows t)" "row_edge p q" | "jnext t \<le> a_id q"
      using assms(2) q by (auto simp: journal_edge_def)
    then show ?thesis
    proof cases
      case 1
      then show ?thesis using assms(1) row_edge_trans row_edge_id [OF 1(2)] unfolding journal_edge_def by metis
    qed (use assms(1) in \<open>auto simp: journal_edge_def\<close>)
  qed
  then show ?thesis using assms by (auto simp: journal_edge_def)
qed

lemma same_core_edge: "same_core s t \<Longrightarrow> journal_edge s t"
  by (auto simp: journal_edge_def same_core_def intro!: bexI)

text \<open>An update of the rows along the edges keeps the journal well formed.\<close>

lemma updated_rows:
  assumes "journal_ok s" "jrows t = update_where p f (jrows s)" "jnext t = jnext s"
    and "\<And>r. p r \<Longrightarrow> a_status r = Act_applied \<and> row_edge r (f r) \<and> f r \<noteq> r"
  shows "journal_ok t \<and> journal_edge s t"
proof -
  obtain g where g: "g = (\<lambda>r. if p r then f r else r)" by blast
  have rows: "jrows t = map g (jrows s)" using assms(2) by (simp add: g update_where_def)
  have edge: "row_edge r (g r)" for r using assms(4) by (auto simp: g)
  have "a_id (g r) = a_id r \<and> chain_key (g r) = chain_key r" for r
    using edge [of r] by (auto simp: row_edge_def chain_key_def)
  then have keys: "map a_id (jrows t) = map a_id (jrows s)" "map chain_key (jrows t) = map chain_key (jrows s)"
    by (simp_all add: rows)
  have "a_id (g r) < jnext t \<and> 0 < a_seq (g r) \<and> a_domain (g r) \<in> set JOURNAL_DOMAIN_ALL \<and>
     (a_status (g r) = Act_undone \<longleftrightarrow> a_undone (g r) \<noteq> None) \<and> (a_payload (g r) = None \<longleftrightarrow> a_status (g r) = Act_expired)"
    if "r \<in> set (jrows s)" for r
    using assms(1,3) edge [of r] that by (auto simp: journal_ok_def row_edge_def)
  then have "\<forall>q \<in> set (jrows t). a_id q < jnext t \<and> 0 < a_seq q \<and> a_domain q \<in> set JOURNAL_DOMAIN_ALL \<and>
     (a_status q = Act_undone \<longleftrightarrow> a_undone q \<noteq> None) \<and> (a_payload q = None \<longleftrightarrow> a_status q = Act_expired)"
    by (simp add: rows)
  then have "journal_ok t" using assms(1) by (simp add: journal_ok_def keys)
  moreover have "\<exists>r \<in> set (jrows s). row_edge r q" if "q \<in> set (jrows t)" for q
    using that edge unfolding rows set_map by blast
  then have "journal_edge s t" using assms(3) unfolding journal_edge_def by simp
  ultimately show ?thesis by simp
qed

lemma undone_core_step:
  assumes "journal_ok s" "undone_core s row w ids t"
  shows "journal_ok t \<and> journal_edge s t"
proof -
  obtain now where "jrows t = undone_at ids now (jrows s)" "jnext t = jnext s"
    using assms(2) by (auto simp: undone_core_def)
  then show ?thesis
    by (intro updated_rows [OF assms(1), where p = "\<lambda>r. a_id r \<in> set ids \<and> a_status r = Act_applied"
        and f = "\<lambda>r. r\<lparr>a_status := Act_undone, a_undone := Some now\<rparr>"])
      (auto simp: undone_at_def row_edge_def dest: arg_cong [where f = a_status])
qed

lemma undo_step:
  assumes "journal_ok s" "undoAction env execs i withLater s = (x, t)"
  shows "journal_ok t \<and> journal_edge s t"
proof (cases x)
  case (Inl e)
  then have "same_core s t"
    using assms(2) locked_tx_error by (fastforce simp: undoAction_def seqs_reads ret_def split: option.splits)
  then show ?thesis using assms(1) journal_ok_cong same_core_edge by blast
next
  case (Inr res)
  from assms(2) [unfolded Inr] show ?thesis
  proof (cases rule: undo_success)
    case missing
    then show ?thesis using assms(1) by simp
  next
    case (found row s1 u)
    have ok: "journal_ok s1" using assms(1) found(2) journal_ok_cong by blast
    have "u = s1 \<or> (\<exists>r ids. undone_core s1 r withLater ids u)"
      using undo_body_cases [OF found(3)] by (auto split: undo_result.splits)
    then have "journal_ok u \<and> journal_edge s1 u" using undone_core_step [OF ok] ok by (elim disjE exE) simp_all
    then show ?thesis
      using found(2,4) journal_ok_cong same_core_edge journal_edge_trans by blast
  qed
qed

lemma commit_step:
  assumes "journal_ok s" "commitChange env domain subject meta inv_of mutation s = (x, t)"
  shows "journal_ok t \<and> journal_edge s t"
proof (cases x)
  case (Inl e)
  then show ?thesis using assms commit_failure journal_ok_cong same_core_edge by blast
next
  case (Inr y)
  obtain i n r where y: "y = (i, n, r)" by (cases y) auto
  have c: "commit_done domain (resolve_subject subject r) (inv_of r) s i n t"
    using commit_success [OF assms(2) [unfolded Inr y]] ..
  then obtain row where row: "jrows t = jrows s @ [row]" "a_id row = jnext s" "jnext t = Suc (jnext s)"
    by (auto simp: commit_done_def committed_row_def)
  have "(\<exists>p \<in> set (jrows s). row_edge p q) \<or> jnext s \<le> a_id q" if "q \<in> set (jrows t)" for q
    using that row row_edge_refl [of q] by (cases "q = row") (simp, fastforce)
  then have "journal_edge s t" using row(3) by (simp add: journal_edge_def)
  then show ?thesis using commit_done_ok [OF assms(1) c] by simp
qed

lemma expire_step: "journal_ok s \<Longrightarrow> journal_ok (snd (expireRows cutoff s)) \<and> journal_edge s (snd (expireRows cutoff s))"
  by (rule updated_rows [where p = "\<lambda>r. a_status r = Act_applied \<and> past_retention cutoff r"
      and f = "\<lambda>r. r\<lparr>a_payload := None, a_status := Act_expired\<rparr>"])
    (auto simp: expireRows_def Let_def row_edge_def dest: arg_cong [where f = a_status])

lemma journal_step_ok: "journal_step execs mutations s t \<Longrightarrow> journal_ok s \<Longrightarrow> journal_ok t \<and> journal_edge s t"
proof (induction rule: journal_step.induct)
  case (committed mutation s env domain subject meta inv_of)
  then show ?case using commit_step by (metis prod.collapse)
next
  case (undo_asked s env i withLater)
  then show ?case using undo_step by (metis prod.collapse)
next
  case (expired s cutoff)
  then show ?case by (rule expire_step)
next
  case (purged s domain subject)
  then show ?case
    by (auto simp: purgeSubject_def delete_where_def journal_ok_def journal_edge_def distinct_map_filter intro!: bexI)
next
  case (elsewhere s d l)
  have "jrows (s\<lparr>jlocks := l, jdom := d\<rparr>) = jrows s" "jnext (s\<lparr>jlocks := l, jdom := d\<rparr>) = jnext s" by simp_all
  then show ?case using elsewhere by (auto simp: journal_ok_def journal_edge_def intro!: bexI)
qed

lemma journal_steps_ok:
  "(journal_step execs mutations)\<^sup>*\<^sup>* s t \<Longrightarrow> journal_ok s \<Longrightarrow> journal_ok t \<and> journal_edge s t"
  by (induction rule: rtranclp_induct) (auto dest: journal_step_ok intro: journal_edge_trans)

section \<open>A journal to look at\<close>

definition demo_journal :: "(setting_inverse, settings_db) journal" where
  "demo_journal = \<lparr>jlocks = \<lparr>lclock = 0, lrows = []\<rparr>, jrows = [], jnext = 1,
     jdom = \<lparr>st_rows = [(''ARCHIVE_RETENTION_DAYS'', ''30'')], st_queue = \<lparr>qclock = 0, qnodes = [], qjobs = [], qnext = 1\<rparr>\<rparr>,
     jdraws = 0\<rparr>"

definition demo_env :: journal_env where
  "demo_env = \<lparr>e_backend = Postgresql, e_sha = (\<lambda>x. x), e_token = (\<lambda>n. ''token''), e_owner = ''host'',
     e_nap = (\<lambda>k l. l\<lparr>lclock := lclock l + 250\<rparr>)\<rparr>"

lemma demo_journal_ok: "journal_ok demo_journal"
  by (simp add: journal_ok_def demo_journal_def)

lemma free_lock:
  "acquire_loop (try_lock Postgresql key token owner ttl) nap d k \<lparr>lclock = c, lrows = []\<rparr> =
     Some (True, snd (try_lock Postgresql key token owner ttl \<lparr>lclock = c, lrows = []\<rparr>))"
  by (subst acquire_loop.simps) (simp add: try_lock_def)

lemma settings_chain:
  assumes "isCuratedSettingKey key"
  shows "commitSettingChange env key v actor = commitChange env ''settings'' (Subject (''settings:'' @ key))
     \<lparr>m_actor = actor, m_action = ''config-update'', m_label = Some key\<rparr> (\<lambda>previous. Set_setting key previous)
     (curated_change key v)"
  using assms by (simp add: commitSettingChange_def curated_change_def fun_eq_iff)

lemma expired_undo:
  assumes "getAction s i = Some r" "a_status r = Act_expired" "undoAction env execs i withLater s = (Inr res, t)"
  shows "res = Journal_expired \<and> same_core s t"
  using assms(3)
proof (cases rule: undo_success)
  case (found row s1 u)
  then have "getAction s1 i = Some r" using assms(1) reads_core(1) by metis
  then have "res = Journal_expired \<and> u = s1"
    using found(3) assms(2) by (auto simp: undo_body_def seqs_reads ret_def)
  then show ?thesis using found(2,4) by (simp add: same_core_def)
qed (use assms in simp)

section \<open>Properties\<close>

text \<open>
  C30: The journal over every history of commits of any domain, of undos, of expiry, of purges and of
  whatever else moves the locks, the clock and the tables. Ids and (domain, subject, sequence number) stay
  unique, the undo time is set exactly on undone rows and the payload is gone exactly from expired ones.
  A row that is in the journal at the end was in it at the start, or its id is new. A row that was applied
  is unchanged, undone or expired without its payload; a row that was undone or expired is unchanged: no
  undo is repeated, no expired change becomes undoable again, and no id is ever used twice.
\<close>

theorem journal_history:
  assumes "journal_ok s" "(journal_step execs mutations)\<^sup>*\<^sup>* s t"
  shows "journal_ok t \<and> jnext s \<le> jnext t \<and>
    (\<forall>q \<in> set (jrows t). jnext s \<le> a_id q \<or>
       (\<exists>r \<in> set (jrows s). q = r \<or> a_status r = Act_applied \<and>
          ((\<exists>now. q = r\<lparr>a_status := Act_undone, a_undone := Some now\<rparr>) \<or>
           q = r\<lparr>a_payload := None, a_status := Act_expired\<rparr>)))"
  using journal_steps_ok [OF assms(2,1)] unfolding journal_edge_def row_edge_def by blast

definition demo_chain :: "(setting_inverse, settings_db) journal" where
  "demo_chain = snd (commitSettingChange demo_env ''ARCHIVE_RETENTION_DAYS'' ''45'' ''admin'' demo_journal)"

lemma demo_commit:
  "commit_each (\<lambda>v. commitSettingChange demo_env ''ARCHIVE_RETENTION_DAYS'' v ''admin'') [''45''] demo_journal
     = Some ([1], demo_chain)"
  "commitSettingChange demo_env ''ARCHIVE_RETENTION_DAYS'' ''45'' ''admin'' demo_journal = (Inr (1, 1, Some ''30''), demo_chain)"
proof -
  have "fst (commitSettingChange demo_env ''ARCHIVE_RETENTION_DAYS'' ''45'' ''admin'' demo_journal) = Inr (1, 1, Some ''30'')"
    by code_simp
  then show "commitSettingChange demo_env ''ARCHIVE_RETENTION_DAYS'' ''45'' ''admin'' demo_journal = (Inr (1, 1, Some ''30''), demo_chain)"
    unfolding demo_chain_def by (metis prod.collapse)
  then show "commit_each (\<lambda>v. commitSettingChange demo_env ''ARCHIVE_RETENTION_DAYS'' v ''admin'') [''45''] demo_journal
     = Some ([1], demo_chain)" by simp
qed

lemma demo_curated: "isCuratedSettingKey ''ARCHIVE_RETENTION_DAYS''"
  by code_simp

theorem journal_history_witness:
  "list_all (\<lambda>q. 1 \<le> a_id q) (jrows demo_chain)"
proof -
  let ?all = "UNIV :: (settings_db, string option) service set"
  have "journal_step settings_executors ?all demo_journal demo_chain"
    unfolding demo_chain_def settings_chain [OF demo_curated] by (rule journal_step.committed) simp
  then have "(journal_step settings_executors ?all)\<^sup>*\<^sup>* demo_journal demo_chain" ..
  note history = journal_history [OF demo_journal_ok this]
  have "jrows demo_journal = []" "jnext demo_journal = 1" by (simp_all add: demo_journal_def)
  then show ?thesis using history by (simp add: list_all_iff)
qed

text \<open>
  C19: Undo of a chain of changes of a setting. After any number of journaled changes of one curated key,
  each a transaction with its journal row, an undo of the first change that takes the later ones along
  fails only when it does not get the lock of the key, and then changes no row. Otherwise the tables of
  the settings are exactly what they were before the first change, so a key that was not set is gone
  again. It reports every change of the chain, newest first, all of them are marked undone, and no other
  journal row is touched.
\<close>

theorem settings_undo_restores:
  assumes "commit_each (\<lambda>v. commitSettingChange env key v actor) vs s = Some (ids, t)" "journal_ok s" "vs \<noteq> []"
    and "undoAction env' settings_executors (hd ids) True t = (x, u)"
  shows "(\<exists>e name. x = Inl e \<and> lock_answer env' name t = Inl e \<and> same_core t u) \<or>
    (jdom u = jdom s \<and> (\<exists>n sk now. x = Inr (Undone n sk (rev ids)) \<and>
       jrows u = jrows s @ undone_at ids now (drop (length (jrows s)) (jrows t))))"
proof -
  obtain v vs' where "vs = v # vs'" using assms(3) by (cases vs) auto
  then have "isCuratedSettingKey key"
    using assms(1) by (auto simp: commitSettingChange_def throw_def split: if_splits)
  note chain = assms(1) [unfolded settings_chain [OF this]]
  have "settings_executors ''settings'' = Some applySettingsInverse" by (simp add: settings_executors_def)
  then show ?thesis by (rule settings.undo_restores [OF chain assms(2,3) _ assms(4)])
qed

lemma demo_undo: "fst (undoAction demo_env settings_executors 1 True demo_chain) = Inr (Undone 1 [] [1])"
  by code_simp

theorem settings_undo_restores_witness:
  "jdom (snd (undoAction demo_env settings_executors 1 True demo_chain)) = jdom demo_journal"
proof -
  obtain x u where u: "undoAction demo_env settings_executors 1 True demo_chain = (x, u)" by fastforce
  have "undoAction demo_env settings_executors (hd [1]) True demo_chain = (x, u)" using u by simp
  from settings_undo_restores [OF demo_commit(1) demo_journal_ok _ this] demo_undo u show ?thesis by auto
qed

text \<open>
  What an undo answers. An unknown id, a row that is undone and a row that is expired are answered as
  such; a row with later applied changes of its subject, when they are not to be taken along, is answered
  with their number. In all these cases and after any error, of the lock, of the executor of the domain or
  of a missing executor, neither the journal nor the tables of the domain have changed. Only an applied row
  is undone, with the later ones of its subject or when there are none, and exactly the rows reported are
  marked.
\<close>

theorem undo_outcome:
  "case undoAction env executors i withLater s of
     (Inl e, t) \<Rightarrow> same_core s t
   | (Inr Journal_not_found, t) \<Rightarrow> same_core s t \<and> getAction s i = None
   | (Inr Journal_already_undone, t) \<Rightarrow> same_core s t \<and> map_option a_status (getAction s i) = Some Act_undone
   | (Inr Journal_expired, t) \<Rightarrow> same_core s t \<and> map_option a_status (getAction s i) = Some Act_expired
   | (Inr (Journal_cascade_required k), t) \<Rightarrow> same_core s t \<and> withLater = False \<and> k > 0 \<and>
       map_option (\<lambda>r. (a_status r, countLaterAppliedTx s (a_domain r) (a_subject r) (a_seq r))) (getAction s i)
         = Some (Act_applied, k)
   | (Inr (Undone n skipped ids), t) \<Rightarrow>
       (\<exists>row. getAction s i = Some row \<and> undone_core s row withLater ids t)"
proof -
  obtain x t where u: "undoAction env executors i withLater s = (x, t)" by fastforce
  show ?thesis
  proof (cases x)
    case (Inl e)
    then have "same_core s t"
      using u locked_tx_error by (fastforce simp: undoAction_def seqs_reads ret_def split: option.splits)
    then show ?thesis using u Inl by simp
  next
    case (Inr res)
    from u [unfolded Inr] show ?thesis
    proof (cases rule: undo_success)
      case missing
      then show ?thesis using u Inr by simp
    next
      case (found row s1 v)
      have same: "getAction s1 = getAction s" "countLaterAppliedTx s1 = countLaterAppliedTx s" "undo_scope s1 = undo_scope s"
        using reads_core [OF found(2)] by simp_all
      have "undone_core s1 r withLater ids v = undone_core s r withLater ids t" for r ids
        using found(2,4) same by (simp add: undone_core_def same_core_def)
      then show ?thesis
        using undo_body_cases [OF found(3)] found(2,4) u Inr
        by (cases res) (auto simp: same same_core_def)
    qed
  qed
qed

text \<open>
  The nightly pass expires every change. It calls \<open>expireRows\<close> without a cutoff, which then compares
  the Julian day of the expiry with a text; for sqlite that is always true. So after the pass no row is
  applied, and a change committed just before it, which the journal promises to keep for thirty days, can
  no longer be undone: its inverse is gone and the undo answers that it is expired.
\<close>

theorem nightly_expires_all:
  assumes "journal_ok s" "commitSettingChange env key v actor s = (Inr (i, n, previous), t)"
    and "undoAction env' executors i withLater (snd (expireRows None t)) = (Inr res, u)"
  shows "res = Journal_expired \<and> jdom u = jdom t \<and> map_of (st_rows (jdom u)) key = Some v \<and>
    (\<forall>r \<in> set (jrows u). a_status r \<noteq> Act_applied)"
proof -
  have "isCuratedSettingKey key"
    using assms(2) by (auto simp: commitSettingChange_def throw_def split: if_splits)
  note c = commit_success [OF assms(2) [unfolded settings_chain [OF this]]]
  have set: "map_of (st_rows (jdom t)) key = Some v"
    using c \<open>isCuratedSettingKey key\<close>
    by (auto simp: curated_change_def setting_change_def service_simps settings_setTx_def ret_def update_conv'
      dest: sym [of _ "jdom t"])
  obtain row where "jrows t = jrows s @ [row]" and row: "a_id row = i" "a_status row = Act_applied"
    using c by (auto simp: commit_done_def committed_row_def)
  then have in_t: "row \<in> set (jrows t)" by simp
  obtain f :: "setting_inverse action \<Rightarrow> setting_inverse action" where f: "f = (\<lambda>r. if a_status r = Act_applied then r\<lparr>a_payload := None, a_status := Act_expired\<rparr> else r)"
    by blast
  let ?w = "snd (expireRows None t)"
  have w: "jrows ?w = map f (jrows t)" "jdom ?w = jdom t"
    by (simp_all add: expireRows_def Let_def update_where_def past_retention_def f)
  have "journal_ok t" using c commit_done_ok [OF assms(1)] by blast
  then have "journal_ok ?w" using expire_step by blast
  moreover have "f row \<in> set (jrows ?w)" using in_t unfolding w set_map by (rule imageI)
  moreover have "a_id (f row) = i" "a_status (f row) = Act_expired" using row by (simp_all add: f)
  ultimately have "getAction ?w i = Some (f row)" "a_status (f row) = Act_expired"
    using getAction_Some [of ?w "f row"] by simp_all
  from expired_undo [OF this assms(3)] have out: "res = Journal_expired" "same_core ?w u" by simp_all
  have "a_status (f r) \<noteq> Act_applied" for r by (simp add: f)
  then have "\<forall>r \<in> set (jrows u). a_status r \<noteq> Act_applied" using out(2) w by (auto simp: same_core_def)
  then show ?thesis using set w(2) out by (simp add: same_core_def)
qed

theorem nightly_expires_all_witness:
  "fst (undoAction demo_env settings_executors 1 True (snd (expireRows None demo_chain))) = Inr Journal_expired \<and>
   a_expires (hd (jrows demo_chain)) = 30 * ms_per_day"
proof -
  let ?u = "undoAction demo_env settings_executors 1 True (snd (expireRows None demo_chain))"
  have "\<not> isl (fst ?u)" by code_simp
  then obtain res where "?u = (Inr res, snd ?u)" by (cases ?u; cases "fst ?u") auto
  from nightly_expires_all [OF demo_journal_ok demo_commit(2) this]
  have "fst ?u = Inr Journal_expired" using \<open>?u = _\<close> by (metis fst_conv)
  moreover have "a_expires (hd (jrows demo_chain)) = 30 * ms_per_day" by code_simp
  ultimately show ?thesis by simp
qed

end
