(* ===== verification/Sharing.thy ===== *)
theory Sharing
  imports Files Validation
begin

text \<open>
  Share links: \<open>ShareLinkRepository.sqlite.js\<close>, \<open>isLinkExpired.js\<close>, \<open>models/ShareLink.js\<close>, the services
  \<open>shareLinkService.js\<close> and \<open>shareAccessService.js\<close>, and the middleware \<open>authenticateTokenOrShare\<close> of
  \<open>utils/auth.js\<close> that turns a token into a principal. The services run on a drive. Random tokens and the
  verification of a signed token are arguments. Days are added to an instant as 24 hours, as a server in
  UTC does.
\<close>

section \<open>ShareLinkRepository\<close>

text \<open>An instant outside the range of a date makes \<open>toISOString\<close> throw.\<close>

definition max_date :: int where
  "max_date = 8640000000000000"

definition expiry_after :: "int \<Rightarrow> int \<Rightarrow> err + int" where
  "expiry_after now days =
     (let e = now + days * ms_per_day
      in if \<bar>e\<bar> > max_date then Inl (Plain ''Invalid time value'') else Inr e)"

definition buildExpiresAt :: "int \<Rightarrow> int option \<Rightarrow> err + int option" where
  "buildExpiresAt now expiresInDays =
     (case expiresInDays of
        None \<Rightarrow> Inr None
      | Some n \<Rightarrow> (case expiry_after now n of Inl e \<Rightarrow> Inl e | Inr t \<Rightarrow> Inr (Some t)))"

definition from_result :: "err + 'a \<Rightarrow> ('s, 'a) service" where
  "from_result r s = (r, s)"

definition getShareLink :: "db \<Rightarrow> string \<Rightarrow> share_link option" where
  "getShareLink d token = first_row (filter (\<lambda>l. ltoken l = token) (share_links d))"

text \<open>\<open>INSERT INTO share_links\<close>; the node and the user are references.\<close>

definition insert_link :: "string \<Rightarrow> nat \<Rightarrow> nat \<Rightarrow> int option \<Rightarrow> (db, share_link) service" where
  "insert_link token n u expires d =
     (let l = \<lparr>ltoken = token, lnode = n, lcreated_by = u, lcreated = datetime_now d, lexpires = expires, lcount = 0\<rparr>
      in if has_node d n \<and> has_user d u then (Inr l, d\<lparr>share_links := share_links d @ [l]\<rparr>)
         else (Inl fk_failed, d))"

definition createShareLinkRow :: "string \<Rightarrow> nat \<Rightarrow> nat \<Rightarrow> int option \<Rightarrow> (db, share_link) service" where
  "createShareLinkRow token n u expiresInDays =
     seqs (reads clock) (\<lambda>now.
     seqs (from_result (buildExpiresAt now expiresInDays)) (\<lambda>expiresAt.
     withTx (seqs (reads (\<lambda>d. getShareLink d token)) (\<lambda>existing. case existing of
       Some l \<Rightarrow> ret l | None \<Rightarrow> insert_link token n u expiresAt))))"

definition getUserShareLinks :: "db \<Rightarrow> nat \<Rightarrow> share_link list" where
  "getUserShareLinks d u = sort_key (\<lambda>l. - lcreated l) (filter (\<lambda>l. lcreated_by l = u) (share_links d))"

definition link_not_found :: err where
  "link_not_found = Err ''serverErrors.share.shareLinkNotFound'' 404"

text \<open>An update names the expiry, which may be \<open>null\<close>, the count, both or neither.\<close>

definition updateShareLinkRow :: "string \<Rightarrow> int option option \<Rightarrow> nat option \<Rightarrow> (db, share_link) service" where
  "updateShareLinkRow token expiresAt downloadCount =
     withTx (seqs (reads (\<lambda>d. getShareLink d token)) (\<lambda>existing. case existing of
       None \<Rightarrow> throw link_not_found
     | Some l \<Rightarrow>
         if expiresAt = None \<and> downloadCount = None then ret l
         else seqs (updates (\<lambda>d. d\<lparr>share_links := update_where (\<lambda>l. ltoken l = token)
                (\<lambda>l. l\<lparr>lexpires := (case expiresAt of None \<Rightarrow> lexpires l | Some e \<Rightarrow> e),
                       lcount := (case downloadCount of None \<Rightarrow> lcount l | Some c \<Rightarrow> c)\<rparr>) (share_links d)\<rparr>)) (\<lambda>_.
              seqs (reads (\<lambda>d. getShareLink d token)) (\<lambda>updated. case updated of
                None \<Rightarrow> throw link_not_found | Some u \<Rightarrow> ret u))))"

definition deleteShareLinkRow :: "string \<Rightarrow> (db, unit) service" where
  "deleteShareLinkRow token =
     withTx (updates (\<lambda>d. d\<lparr>share_links := delete_where (\<lambda>l. ltoken l = token) (share_links d)\<rparr>))"

definition incrementDownloadCount :: "string \<Rightarrow> (db, share_link) service" where
  "incrementDownloadCount token =
     withTx (seqs (updates (\<lambda>d. d\<lparr>share_links := update_where (\<lambda>l. ltoken l = token)
              (\<lambda>l. l\<lparr>lcount := lcount l + 1\<rparr>) (share_links d)\<rparr>)) (\<lambda>_.
             seqs (reads (\<lambda>d. getShareLink d token)) (\<lambda>updated. case updated of
               None \<Rightarrow> throw link_not_found | Some l \<Rightarrow> ret l)))"

definition isLinkExpired :: "int \<Rightarrow> share_link \<Rightarrow> bool" where
  "isLinkExpired now l = (case lexpires l of None \<Rightarrow> False | Some e \<Rightarrow> now > e)"

section \<open>shareLinkService.js\<close>

text \<open>What \<open>parseInt\<close> makes of the body's \<open>expiresInDays\<close>.\<close>

datatype days_arg = Days_undefined | Days_null | Days_nan | Days int

definition bad_request :: "string \<Rightarrow> err" where
  "bad_request m = Err m 400"

definition validateExpiration :: "days_arg \<Rightarrow> err + int option" where
  "validateExpiration a =
     (case a of
        Days_undefined \<Rightarrow> Inr None
      | Days_null \<Rightarrow> Inr None
      | Days_nan \<Rightarrow> Inl (bad_request ''invalidExpiration'')
      | Days n \<Rightarrow> if n < 0 then Inl (bad_request ''invalidExpiration'') else Inr (Some n))"

text \<open>\<open>None\<close> is an id that is missing or not a number.\<close>

definition validateNodeId :: "nat option \<Rightarrow> err + nat" where
  "validateNodeId a = (case a of None \<Rightarrow> Inl (bad_request ''pathRequired'') | Some n \<Rightarrow> Inr n)"

record link_response =
  lr_token :: string
  lr_node :: nat
  lr_name :: "string option"
  lr_type :: "file_type option"
  lr_directory :: "bool option"
  lr_path :: "string option"
  lr_created :: int
  lr_expires :: "int option"
  lr_count :: nat
  lr_expired :: bool

definition toLinkResponse :: "int \<Rightarrow> share_link \<Rightarrow> node_view option \<Rightarrow> string option \<Rightarrow> link_response" where
  "toLinkResponse now l node path =
     \<lparr>lr_token = ltoken l, lr_node = lnode l, lr_name = map_option v_name node,
      lr_type = (case node of None \<Rightarrow> None | Some v \<Rightarrow> if v_name v = [] then None else Some (getFileType (v_name v))),
      lr_directory = map_option (\<lambda>v. v_type v = Directory) node, lr_path = path,
      lr_created = lcreated l, lr_expires = lexpires l, lr_count = lcount l, lr_expired = isLinkExpired now l\<rparr>"

definition link_view :: "db \<Rightarrow> share_link \<Rightarrow> link_response" where
  "link_view d l =
     (let node = getNode d (lnode l)
      in toLinkResponse (clock d) l node (map_option (\<lambda>v. getNodePath d (v_id v)) node))"

text \<open>\<open>ShareLink.create\<close>: a random token, and the default parameter for an undefined number of days.\<close>

definition default_days :: "int option \<Rightarrow> int" where
  "default_days expiresInDays = (case expiresInDays of None \<Rightarrow> 14 | Some n \<Rightarrow> n)"

definition draw_token :: "(nat \<Rightarrow> string) \<Rightarrow> ('c drive, string) service" where
  "draw_token mint s = (Inr (mint (ddraws s)), s\<lparr>ddraws := Suc (ddraws s)\<rparr>)"

definition ShareLink_create ::
  "(nat \<Rightarrow> string) \<Rightarrow> nat \<Rightarrow> nat \<Rightarrow> int option \<Rightarrow> ('c drive, share_link) service" where
  "ShareLink_create mint n u expiresInDays =
     seqs (draw_token mint) (\<lambda>token. on_drive_db (createShareLinkRow token n u (Some (default_days expiresInDays))))"

definition file_not_found :: err where
  "file_not_found = Err ''fileNotFound'' 404"

definition access_denied :: err where
  "access_denied = Err ''accessDenied'' 403"

definition createShareLink ::
  "(nat \<Rightarrow> string) \<Rightarrow> nat option \<Rightarrow> nat \<Rightarrow> days_arg \<Rightarrow> ('c drive, link_response) service" where
  "createShareLink mint fileNodeId userId expiresInDays =
     seqs (from_result (validateNodeId fileNodeId)) (\<lambda>nodeId.
     seqs (reads_db (\<lambda>d. getNode d nodeId)) (\<lambda>node. case node of
       None \<Rightarrow> throw file_not_found
     | Some v \<Rightarrow>
         seqs (on_acl (checkFilePermission (User_id userId) nodeId ''read'')) (\<lambda>canRead.
         seqs (guard canRead access_denied) (\<lambda>_.
         seqs (from_result (validateExpiration expiresInDays)) (\<lambda>days.
         seqs (ShareLink_create mint nodeId userId days) (\<lambda>link.
         seqs (on_perm (grantSharePermission (ltoken link) nodeId)) (\<lambda>_.
         reads_db (\<lambda>d. toLinkResponse (clock d) link (Some v) (Some (getNodePath d nodeId))))))))))"

definition listUserShareLinks :: "nat \<Rightarrow> ('c drive, link_response list) service" where
  "listUserShareLinks userId = reads_db (\<lambda>d. map (link_view d) (getUserShareLinks d userId))"

text \<open>The link of a token, for its creator only.\<close>

definition own_link :: "string \<Rightarrow> nat \<Rightarrow> ('c drive, share_link) service" where
  "own_link token userId =
     seqs (reads_db (\<lambda>d. getShareLink d token)) (\<lambda>link. case link of
       None \<Rightarrow> throw (Err ''shareLinkNotFound'' 404)
     | Some l \<Rightarrow> seqs (guard (lcreated_by l = userId) access_denied) (\<lambda>_. ret l))"

definition getShareLinkInfo :: "string \<Rightarrow> nat \<Rightarrow> ('c drive, link_response) service" where
  "getShareLinkInfo token userId = seqs (own_link token userId) (\<lambda>l. reads_db (\<lambda>d. link_view d l))"

definition new_expiry :: "int \<Rightarrow> days_arg \<Rightarrow> err + int option option" where
  "new_expiry now a =
     (case a of
        Days_undefined \<Rightarrow> Inr None
      | Days_null \<Rightarrow> Inr (Some None)
      | Days_nan \<Rightarrow> Inl (bad_request ''invalidExpiration'')
      | Days n \<Rightarrow>
          if n < 0 then Inl (bad_request ''invalidExpiration'')
          else (case expiry_after now n of Inl e \<Rightarrow> Inl e | Inr t \<Rightarrow> Inr (Some (Some t))))"

definition updateShareLink :: "string \<Rightarrow> days_arg \<Rightarrow> nat \<Rightarrow> ('c drive, link_response) service" where
  "updateShareLink token expiresInDays userId =
     seqs (own_link token userId) (\<lambda>l.
     seqs (reads_db clock) (\<lambda>now.
     seqs (from_result (new_expiry now expiresInDays)) (\<lambda>expiresAt.
     seqs (on_drive_db (updateShareLinkRow token expiresAt None)) (\<lambda>updatedLink.
     reads_db (\<lambda>d. link_view d updatedLink)))))"

definition deleteShareLink :: "string \<Rightarrow> nat \<Rightarrow> ('c drive, unit) service" where
  "deleteShareLink token userId =
     seqs (own_link token userId) (\<lambda>l.
     seqs (on_drive_db (deleteShareLinkRow token)) (\<lambda>_.
     on_perm (revokeSharePermission token)))"

section \<open>shareAccessService.js\<close>

text \<open>A service answers \<open>{ error, status, code }\<close> or \<open>{ data }\<close>; only the database throws.\<close>

datatype 'a access = Refused string nat string | Data 'a

abbreviation link_missing :: "'a access" where
  "link_missing \<equiv> Refused ''notFound'' 404 ''shareLinkNotFound''"

abbreviation link_expired :: "'a access" where
  "link_expired \<equiv> Refused ''expired'' 410 ''shareLinkExpired''"

abbreviation file_missing :: "'a access" where
  "file_missing \<equiv> Refused ''notFound'' 404 ''fileNotFound''"

abbreviation cannot_add :: "'a access" where
  "cannot_add \<equiv> Refused ''forbidden'' 403 ''cannotAddShare''"

definition resolveShareLink :: "string \<Rightarrow> ('c drive, share_link access) service" where
  "resolveShareLink token = reads_db (\<lambda>d. case getShareLink d token of
     None \<Rightarrow> link_missing
   | Some l \<Rightarrow> if isLinkExpired (clock d) l then link_expired else Data l)"

definition with_link :: "string \<Rightarrow> (share_link \<Rightarrow> ('c drive, 'a access) service) \<Rightarrow> ('c drive, 'a access) service" where
  "with_link token f =
     seqs (resolveShareLink token) (\<lambda>r. case r of Refused e st code \<Rightarrow> ret (Refused e st code) | Data l \<Rightarrow> f l)"

definition getShareLinkMetadata :: "string \<Rightarrow> ('c drive, link_response access) service" where
  "getShareLinkMetadata token = with_link token (\<lambda>l. reads_db (\<lambda>d. case getNode d (lnode l) of
     None \<Rightarrow> file_missing
   | Some v \<Rightarrow> Data ((toLinkResponse (clock d) l (Some v) (Some (getNodePath d (v_id v))))
       \<lparr>lr_type := Some (getFileType (v_name v))\<rparr>)))"

text \<open>The loop stops at the first node the user cannot read.\<close>

definition readable :: "db \<Rightarrow> nat \<Rightarrow> nat \<Rightarrow> bool" where
  "readable d u n = (case getEffectivePermission d u n of None \<Rightarrow> False | Some p \<Rightarrow> meetsRank (perm_name p) ''read'')"

definition first_missing :: "db \<Rightarrow> nat \<Rightarrow> nat list \<Rightarrow> nat option" where
  "first_missing d u ns = first_row (filter (\<lambda>n. \<not> readable d u n) ns)"

definition checkUserSharePermission :: "string \<Rightarrow> nat \<Rightarrow> ('c drive, nat option access) service" where
  "checkUserSharePermission token userId = with_link token (\<lambda>l. reads_db (\<lambda>d. case getNode d (lnode l) of
     None \<Rightarrow> file_missing
   | Some v \<Rightarrow> Data (first_missing d userId (v_id v # getDescendantIds d (v_id v)))))"

definition may_pass_on :: "db \<Rightarrow> nat \<Rightarrow> nat \<Rightarrow> bool" where
  "may_pass_on d createdBy n =
     (case findById d createdBy of
        None \<Rightarrow> False
      | Some x \<Rightarrow> is_admin x \<or> isOwnerNode d createdBy n \<or> checkPathPermission d createdBy n ''admin'')"

definition add_shared :: "nat \<Rightarrow> share_link \<Rightarrow> ('c drive, unit access) service" where
  "add_shared userId l =
     seqs (reads_db (\<lambda>d. getNode d (lnode l))) (\<lambda>node. case node of
       None \<Rightarrow> ret cannot_add
     | Some v \<Rightarrow>
         if lcreated_by l = 0 then ret cannot_add
         else seqs (reads_db (\<lambda>d. may_pass_on d (lcreated_by l) (v_id v))) (\<lambda>may.
           if \<not> may then ret cannot_add
           else seqs (reads_db (\<lambda>d. readable d userId (v_id v))) (\<lambda>has.
             if has then ret (Data ())
             else seqs (on_perm (if v_type v = File then grantFilePermission userId (v_id v) ''read''
                                 else grant_path userId (v_id v) Read)) (\<lambda>_. ret (Data ())))))"

definition addToMyPermissions :: "string \<Rightarrow> nat \<Rightarrow> ('c drive, unit access) service" where
  "addToMyPermissions token userId = with_link token (add_shared userId)"

text \<open>\<open>downloadBlob\<close> answers \<open>null\<close> when there is nothing to send; an error in the \<open>try\<close> is an answer too.\<close>

definition failing :: "string \<Rightarrow> 'a access" where
  "failing code = Refused code 500 code"

definition previewFile :: "'c site \<Rightarrow> string \<Rightarrow> ('c drive, (buffer \<times> string \<times> string) access) service" where
  "previewFile site token = with_link token (\<lambda>l.
     seqs (reads_db (\<lambda>d. getNode d (lnode l))) (\<lambda>node. case node of
       None \<Rightarrow> ret file_missing
     | Some v \<Rightarrow>
         catching (seqs (on_vault (downloadNode site (v_id v))) (\<lambda>b. case b of
             None \<Rightarrow> ret (failing ''previewFail'')
           | Some buf \<Rightarrow> ret (Data (buf, v_name v, getContentType (v_name v)))))
           (\<lambda>e. ret (failing ''previewFail''))))"

definition send_shared :: "'c site \<Rightarrow> string \<Rightarrow> share_link \<Rightarrow> ('c drive, (buffer \<times> string) access) service" where
  "send_shared site token l =
     seqs (reads_db (\<lambda>d. getNode d (lnode l))) (\<lambda>node. case node of
       None \<Rightarrow> ret file_missing
     | Some v \<Rightarrow>
         catching (seqs (on_vault (downloadNode site (v_id v))) (\<lambda>b. case b of
             None \<Rightarrow> ret (failing ''downloadFail'')
           | Some buf \<Rightarrow>
               seqs (on_drive_db (incrementDownloadCount token)) (\<lambda>_. ret (Data (buf, v_name v)))))
           (\<lambda>e. ret (failing ''downloadFail'')))"

definition downloadFile :: "'c site \<Rightarrow> string \<Rightarrow> ('c drive, (buffer \<times> string) access) service" where
  "downloadFile site token = with_link token (send_shared site token)"

section \<open>authenticateTokenOrShare\<close>

record jwt_claims =
  jc_id :: nat
  jc_username :: string
  jc_token_version :: nat
  jc_is_admin :: bool

datatype auth_result = Auth_failed nat string | Auth_share share_link principal | Auth_user jwt_claims principal

text \<open>\<open>authHeader && authHeader.split(' ')[1]\<close>; an empty token counts as none.\<close>

definition bearer :: "string option \<Rightarrow> string option" where
  "bearer h =
     (case h of
        None \<Rightarrow> None
      | Some x \<Rightarrow> (case split_on (CHR '' '') x of
            a # b # rest \<Rightarrow> if b = [] then None else Some b
          | _ \<Rightarrow> None))"

definition authenticateTokenOrShare ::
  "(string \<Rightarrow> jwt_claims option) \<Rightarrow> string option \<Rightarrow> string option \<Rightarrow> db \<Rightarrow> auth_result" where
  "authenticateTokenOrShare verifyToken shareToken authHeader d =
     (if shareToken \<noteq> None \<and> shareToken \<noteq> Some [] then
        (case getShareLink d (the shareToken) of
           None \<Rightarrow> Auth_failed 404 ''serverErrors.utilsAuth.shareLinkNotFound''
         | Some l \<Rightarrow>
             if isLinkExpired (clock d) l then Auth_failed 410 ''serverErrors.utilsAuth.shareLinkExpired''
             else Auth_share l (Principal_string (''share:'' @ the shareToken)))
      else (case Option.bind (bearer authHeader) verifyToken of
              None \<Rightarrow> Auth_failed 401 ''serverErrors.utilsAuth.tokenRequired''
            | Some claims \<Rightarrow> Auth_user claims (User_id (jc_id claims))))"

end
