(* ===== verification/SharingLaws.thy ===== *)
theory SharingLaws
  imports Sharing FileProps
begin

text \<open>
  The laws of share links: a link and the permission row of its token exist together, over every
  operation of the services, so a token opens the subtree of its link and nothing else.
\<close>

section \<open>Links and permission rows\<close>

definition link_keys :: "db \<Rightarrow> (string \<times> nat) set" where
  "link_keys d = (\<lambda>l. (ltoken l, lnode l)) ` set (share_links d)"

definition share_keys :: "db \<Rightarrow> (string \<times> nat) set" where
  "share_keys d = (\<lambda>r. (stoken r, snode r)) ` set (perm_shares d)"

definition in_sync :: "db \<Rightarrow> bool" where
  "in_sync d \<longleftrightarrow> distinct (map ltoken (share_links d)) \<and> distinct (map stoken (perm_shares d)) \<and>
     (\<forall>r \<in> set (perm_shares d). sperm r = Read) \<and> share_keys d = link_keys d"

definition same_shares :: "db \<Rightarrow> db \<Rightarrow> bool" where
  "same_shares d e \<longleftrightarrow> share_links e = share_links d \<and> perm_shares e = perm_shares d"

lemma in_sync_cong: "same_shares d e \<Longrightarrow> in_sync e = in_sync d"
  by (simp add: same_shares_def in_sync_def link_keys_def share_keys_def)

lemma same_shares_refl [simp]: "same_shares d d"
  by (simp add: same_shares_def)

lemma getShareLink_iff:
  assumes "distinct (map ltoken (share_links d))"
  shows "getShareLink d token = Some l \<longleftrightarrow> l \<in> set (share_links d) \<and> ltoken l = token"
proof
  assume "getShareLink d token = Some l"
  then show "l \<in> set (share_links d) \<and> ltoken l = token"
    using first_row_in [of "filter (\<lambda>l. ltoken l = token) (share_links d)" l] by (simp add: getShareLink_def)
next
  assume "l \<in> set (share_links d) \<and> ltoken l = token"
  then show "getShareLink d token = Some l"
    unfolding getShareLink_def by (intro first_row_filter_unique [OF assms]) auto
qed

lemma no_link_no_share:
  assumes "in_sync d" "getShareLink d token = None"
  shows "token \<notin> ltoken ` set (share_links d)" "token \<notin> stoken ` set (perm_shares d)"
proof -
  show links: "token \<notin> ltoken ` set (share_links d)"
    using assms getShareLink_iff [of d token] by (auto simp: in_sync_def)
  have "fst ` share_keys d = fst ` link_keys d" using assms(1) by (simp add: in_sync_def)
  then show "token \<notin> stoken ` set (perm_shares d)"
    using links by (simp add: share_keys_def link_keys_def image_image)
qed

definition shared_as :: "db \<Rightarrow> share_link \<Rightarrow> db" where
  "shared_as d l = d\<lparr>share_links := share_links d @ [l],
     perm_shares := perm_shares d @ [\<lparr>stoken = ltoken l, snode = lnode l, sperm = Read\<rparr>]\<rparr>"

lemma shared_as_in_sync:
  assumes "in_sync d" "getShareLink d (ltoken l) = None"
  shows "in_sync (shared_as d l)"
  using assms no_link_no_share [OF assms]
  by (auto simp: in_sync_def shared_as_def link_keys_def share_keys_def)

lemma updated_in_sync:
  assumes "in_sync d" "\<And>l. ltoken (f l) = ltoken l \<and> lnode (f l) = lnode l"
  shows "in_sync (d\<lparr>share_links := update_where p f (share_links d)\<rparr>)"
proof -
  have "map (\<lambda>l. (ltoken l, lnode l)) (update_where p f (share_links d)) = map (\<lambda>l. (ltoken l, lnode l)) (share_links d)"
    using assms(2) by (simp add: map_update_where)
  then have "(\<lambda>l. (ltoken l, lnode l)) ` set (update_where p f (share_links d)) = link_keys d"
    unfolding link_keys_def by (metis set_map)
  then show ?thesis
    using assms by (simp add: in_sync_def link_keys_def share_keys_def map_update_where)
qed

definition unlinked :: "db \<Rightarrow> string \<Rightarrow> db" where
  "unlinked d token = d\<lparr>share_links := delete_where (\<lambda>l. ltoken l = token) (share_links d),
     perm_shares := delete_where (\<lambda>r. stoken r = token) (perm_shares d)\<rparr>"

lemma deleted_in_sync:
  assumes "in_sync d"
  shows "in_sync (d\<lparr>share_links := delete_where (\<lambda>l. q (ltoken l, lnode l)) (share_links d),
     perm_shares := delete_where (\<lambda>r. q (stoken r, snode r)) (perm_shares d)\<rparr>)"
proof -
  have "(\<lambda>l. (ltoken l, lnode l)) ` {l \<in> set (share_links d). \<not> q (ltoken l, lnode l)} = {k \<in> link_keys d. \<not> q k}"
    "(\<lambda>r. (stoken r, snode r)) ` {r \<in> set (perm_shares d). \<not> q (stoken r, snode r)} = {k \<in> share_keys d. \<not> q k}"
    by (auto simp: link_keys_def share_keys_def)
  then show ?thesis
    using assms by (simp add: in_sync_def distinct_map_delete) (simp add: link_keys_def share_keys_def)
qed

lemma unlinked_in_sync: "in_sync d \<Longrightarrow> in_sync (unlinked d token)"
  using deleted_in_sync [of d "\<lambda>(t, n). t = token"] by (simp add: unlinked_def)

lemma cascade_in_sync: "in_sync d \<Longrightarrow> in_sync (delete_nodes ids d)"
  using deleted_in_sync [of d "\<lambda>(t, n). n \<in> set (cascade (file_nodes d) ids)"]
    in_sync_cong [of "d\<lparr>share_links := _, perm_shares := _\<rparr>" "delete_nodes ids d"]
  by (simp add: delete_nodes_def Let_def same_shares_def)

section \<open>What each operation leaves\<close>

definition links_only :: "db \<Rightarrow> db \<Rightarrow> bool" where
  "links_only d e \<longleftrightarrow> (\<exists>x y. e = d\<lparr>share_links := x, perm_shares := y\<rparr>)"

lemma createShareLinkRow_cases:
  obtains e where "createShareLinkRow token n u days d = (Inl e, d)"
        "\<not> (has_node d n \<and> has_user d u \<and> \<not> isl (buildExpiresAt (clock d) days))"
    | l where "createShareLinkRow token n u days d = (Inr l, d)" "getShareLink d token = Some l"
    | t where "getShareLink d token = None" "buildExpiresAt (clock d) days = Inr t" "has_node d n" "has_user d u"
        "createShareLinkRow token n u days d =
          (Inr \<lparr>ltoken = token, lnode = n, lcreated_by = u, lcreated = datetime_now d, lexpires = t, lcount = 0\<rparr>,
           d\<lparr>share_links := share_links d @ [\<lparr>ltoken = token, lnode = n, lcreated_by = u,
             lcreated = datetime_now d, lexpires = t, lcount = 0\<rparr>]\<rparr>)"
  by (cases "buildExpiresAt (clock d) days"; cases "getShareLink d token"; cases "has_node d n \<and> has_user d u")
    (auto simp: createShareLinkRow_def service_simps from_result_def seqs_def withTx_def insert_link_def
      reads_def ret_def Let_def)

lemma updateShareLinkRow_cases:
  obtains e where "updateShareLinkRow token x c d = (Inl e, d)"
    | l where "updateShareLinkRow token x c d = (Inr l, d)"
    | l f where "updateShareLinkRow token x c d = (Inr l, d\<lparr>share_links := update_where (\<lambda>l. ltoken l = token) f (share_links d)\<rparr>)"
        "\<And>l. ltoken (f l) = ltoken l \<and> lnode (f l) = lnode l"
proof -
  obtain f :: "share_link \<Rightarrow> share_link" where f: "f = (\<lambda>l. l\<lparr>lexpires := (case x of None \<Rightarrow> lexpires l | Some e \<Rightarrow> e),
     lcount := (case c of None \<Rightarrow> lcount l | Some k \<Rightarrow> k)\<rparr>)" by blast
  let ?d = "d\<lparr>share_links := update_where (\<lambda>l. ltoken l = token) f (share_links d)\<rparr>"
  obtain quiet where quiet: "quiet = (x = None \<and> c = None)" by blast
  have u: "updateShareLinkRow token x c = withTx (seqs (reads (\<lambda>d. getShareLink d token)) (\<lambda>existing. case existing of
       None \<Rightarrow> throw link_not_found
     | Some l \<Rightarrow>
         if quiet then ret l
         else seqs (updates (\<lambda>d. d\<lparr>share_links := update_where (\<lambda>l. ltoken l = token) f (share_links d)\<rparr>)) (\<lambda>_.
              seqs (reads (\<lambda>d. getShareLink d token)) (\<lambda>updated. case updated of
                None \<Rightarrow> throw link_not_found | Some u \<Rightarrow> ret u))))"
    unfolding updateShareLinkRow_def f quiet ..
  have keep: "ltoken (f l) = ltoken l \<and> lnode (f l) = lnode l" for l by (simp add: f)
  consider "getShareLink d token = None" | l where "getShareLink d token = Some l" "quiet"
    | l where "getShareLink d token = Some l" "\<not> quiet" "getShareLink ?d token = None"
    | l m where "getShareLink d token = Some l" "\<not> quiet" "getShareLink ?d token = Some m"
    by (cases "getShareLink d token"; cases "getShareLink ?d token"; cases quiet) auto
  then show ?thesis
  proof cases
    case 1
    then have "updateShareLinkRow token x c d = (Inl (mapDatabaseError link_not_found), d)"
      unfolding u by (simp add: withTx_def service_simps throw_def)
    then show ?thesis by (rule that(1))
  next
    case 2
    then have "updateShareLinkRow token x c d = (Inr l, d)"
      unfolding u by (simp add: withTx_def service_simps ret_def)
    then show ?thesis by (rule that(2))
  next
    case 3
    then have "updateShareLinkRow token x c d = (Inl (mapDatabaseError link_not_found), d)"
      unfolding u by (simp add: withTx_def service_simps throw_def)
    then show ?thesis by (rule that(1))
  next
    case 4
    then have "updateShareLinkRow token x c d = (Inr m, ?d)"
      unfolding u by (simp add: withTx_def service_simps ret_def)
    then show ?thesis using keep by (rule that(3))
  qed
qed

lemma incrementDownloadCount_cases:
  obtains e where "incrementDownloadCount token d = (Inl e, d)"
    | l where "incrementDownloadCount token d = (Inr l, d\<lparr>share_links := update_where (\<lambda>l. ltoken l = token)
        (\<lambda>l. l\<lparr>lcount := lcount l + 1\<rparr>) (share_links d)\<rparr>)"
proof -
  let ?d = "d\<lparr>share_links := update_where (\<lambda>l. ltoken l = token) (\<lambda>l. l\<lparr>lcount := lcount l + 1\<rparr>) (share_links d)\<rparr>"
  show ?thesis
    by (cases "getShareLink ?d token") (use that in \<open>auto simp: incrementDownloadCount_def withTx_def service_simps throw_def ret_def\<close>)
qed

section \<open>The services on a drive\<close>

lemma file_check_pdb: "pdb (snd (checkFilePermission p n act s)) = pdb s"
  by (auto simp: checkFilePermission_def getCachedUser_def Let_def split: principal.splits option.splits)

lemma drive_db_simps [simp]:
  "drive_db (with_db s d) = d" "drive_db (s\<lparr>ddraws := k\<rparr>) = drive_db s" "drive_db (s\<lparr>dstore := b\<rparr>) = drive_db s"
  by (simp_all add: drive_db_def with_db_def)

lemma on_acl_db: "\<exists>b p. on_acl (checkFilePermission pr n act) s = (Inr b, s\<lparr>dperm := p\<rparr>) \<and> pdb p = pdb (dperm s) \<and>
    b = fst (checkFilePermission pr n act (dperm s))"
  using file_check_pdb [of pr n act "dperm s"]
  by (cases "checkFilePermission pr n act (dperm s)") (simp add: on_acl_def, blast)

text \<open>The link a successful creation makes.\<close>

definition new_link :: "db \<Rightarrow> string \<Rightarrow> nat \<Rightarrow> nat \<Rightarrow> int option \<Rightarrow> share_link" where
  "new_link d token n u expiresInDays = \<lparr>ltoken = token, lnode = n, lcreated_by = u, lcreated = datetime_now d,
     lexpires = Some (clock d + default_days expiresInDays * ms_per_day), lcount = 0\<rparr>"

definition link_made ::
  "('c drive) \<Rightarrow> (nat \<Rightarrow> string) \<Rightarrow> nat option \<Rightarrow> nat \<Rightarrow> days_arg \<Rightarrow> link_response \<Rightarrow> 'c drive \<Rightarrow> bool" where
  "link_made s mint fid u a r t \<longleftrightarrow>
     (\<exists>n v days. fid = Some n \<and> getNode (drive_db s) n = Some v \<and> has_user (drive_db s) u \<and>
        fst (checkFilePermission (User_id u) n ''read'' (dperm s)) \<and> validateExpiration a = Inr days \<and>
        (let l = new_link (drive_db s) (mint (ddraws s)) n u days
         in drive_db t = shared_as (drive_db s) l \<and>
            r = toLinkResponse (clock (drive_db s)) l (Some v) (Some (getNodePath (drive_db s) n))))"

definition may_create :: "'c drive \<Rightarrow> nat option \<Rightarrow> nat \<Rightarrow> days_arg \<Rightarrow> bool" where
  "may_create s fid u a \<longleftrightarrow> (\<exists>n days. fid = Some n \<and> getNode (drive_db s) n \<noteq> None \<and> has_user (drive_db s) u \<and>
     fst (checkFilePermission (User_id u) n ''read'' (dperm s)) \<and> validateExpiration a = Inr days \<and>
     \<bar>clock (drive_db s) + default_days days * ms_per_day\<bar> \<le> max_date)"

lemma from_result_simps:
  "seqs (from_result (Inl e)) f s = (Inl e, s)" "seqs (from_result (Inr x)) f s = f x s"
  by (simp_all add: seqs_def from_result_def)

lemma getNode_has: "getNode d n = Some v \<Longrightarrow> has_node d n \<and> v_id v = n"
  by (auto simp: getNode_def has_node_def dest!: first_row_in)

lemma paths_shared_as [simp]: "getNodePath (shared_as d l) n = getNodePath d n" "clock (shared_as d l) = clock d"
proof -
  have "file_nodes (shared_as d l) = file_nodes d" "node_ancestors (shared_as d l) = node_ancestors d"
    by (simp_all add: shared_as_def)
  then show "getNodePath (shared_as d l) n = getNodePath d n"
    by (simp add: getNodePath_def getNodeIncludingTrashed_def node_row_def getAncestorChain_def)
qed (simp add: shared_as_def)

lemma share_create_cases:
  assumes "in_sync (drive_db s)" "getShareLink (drive_db s) (mint (ddraws s)) = None"
    and "createShareLink mint fid u a s = (x, t)"
  shows "(\<exists>e. x = Inl e \<and> drive_db t = drive_db s \<and> \<not> may_create s fid u a) \<or>
    (\<exists>r. x = Inr r \<and> may_create s fid u a \<and> link_made s mint fid u a r t)"
proof (cases "\<exists>n v. fid = Some n \<and> getNode (drive_db s) n = Some v")
  case False
  then have "isl x \<and> t = s \<and> \<not> may_create s fid u a" using assms(3)
    by (cases fid) (auto simp: may_create_def createShareLink_def validateNodeId_def from_result_simps reads_db_eq throw_def)
  then show ?thesis by (cases x) auto
next
  case True
  then obtain n v where n: "fid = Some n" "getNode (drive_db s) n = Some v" by blast
  let ?b = "fst (checkFilePermission (User_id u) n ''read'' (dperm s))"
  obtain p where p: "on_acl (checkFilePermission (User_id u) n ''read'') s = (Inr ?b, s\<lparr>dperm := p\<rparr>)" "pdb p = pdb (dperm s)"
    using on_acl_db by blast
  have acl: "seqs (on_acl (checkFilePermission (User_id u) n ''read'')) f s = f ?b (s\<lparr>dperm := p\<rparr>)" for f
    by (rule seqs_Inr) (rule p(1))
  let ?s = "s\<lparr>dperm := p\<rparr>" and ?d = "drive_db s" and ?tok = "mint (ddraws s)"
  have d: "drive_db ?s = ?d" using p(2) by (simp add: drive_db_def)
  show ?thesis
  proof (cases "?b \<and> (\<exists>days. validateExpiration a = Inr days)")
    case False
    then have "isl x \<and> drive_db t = ?d \<and> \<not> may_create s fid u a" using assms(3) n d
      by (cases "validateExpiration a")
        (auto simp: may_create_def createShareLink_def validateNodeId_def from_result_simps reads_db_eq acl seqs_guard
          split: if_splits)
    then show ?thesis by (cases x) auto
  next
    case True
    then obtain days where days: "validateExpiration a = Inr days" and b: ?b by blast
    let ?row = "createShareLinkRow ?tok n u (Some (default_days days)) ?d"
    have run: "seqs (ShareLink_create mint n u days) (\<lambda>link.
         seqs (on_perm (grantSharePermission (ltoken link) n)) (\<lambda>_.
         reads_db (\<lambda>d. toLinkResponse (clock d) link (Some v) (Some (getNodePath d n))))) ?s = (x, t)"
      using assms(3) n days b
      by (simp add: createShareLink_def validateNodeId_def from_result_simps reads_db_eq acl seqs_guard)
    have create: "ShareLink_create mint n u days ?s = (case ?row of (r, e) \<Rightarrow> (r, with_db (?s\<lparr>ddraws := Suc (ddraws s)\<rparr>) e))"
      by (simp add: ShareLink_create_def draw_token_def seqs_def on_drive_db_eq d)
    show ?thesis
    proof (cases rule: createShareLinkRow_cases [of ?tok n u "Some (default_days days)" ?d])
      case (1 e)
      have "\<not> may_create s fid u a"
        using 1(2) n days getNode_has [OF n(2)]
        by (auto simp: may_create_def buildExpiresAt_def expiry_after_def Let_def)
      then show ?thesis using 1(1) run create by (auto simp: seqs_def)
    next
      case (2 l)
      then show ?thesis using assms(2) by simp
    next
      case (3 e)
      have l: "e = Some (clock ?d + default_days days * ms_per_day)"
        using 3(2) by (auto simp: buildExpiresAt_def expiry_after_def Let_def split: sum.splits if_splits)
      have may: "may_create s fid u a"
        using 3(2,4) n b days
        by (auto simp: may_create_def buildExpiresAt_def expiry_after_def Let_def split: sum.splits if_splits)
      let ?l = "new_link ?d ?tok n u days"
      let ?e = "?d\<lparr>share_links := share_links ?d @ [?l]\<rparr>"
      have c: "ShareLink_create mint n u days ?s = (Inr ?l, with_db (?s\<lparr>ddraws := Suc (ddraws s)\<rparr>) ?e)"
        using 3(5) create l by (simp add: new_link_def)
      have no: "?tok \<notin> stoken ` set (perm_shares ?d)" using no_link_no_share [OF assms(1,2)] by simp
      then have no': "\<not> (\<exists>r \<in> set (perm_shares ?d). stoken r = ?tok)" by (auto simp: image_iff)
      have "upsertSharePermission ?tok n ?e = (Inr (), shared_as ?d ?l)"
        using no' getNode_has [OF n(2)]
        by (simp add: upsertSharePermission_def shared_as_def new_link_def has_node_def)
      then have g: "on_perm (grantSharePermission ?tok n) (with_db (?s\<lparr>ddraws := Suc (ddraws s)\<rparr>) ?e)
          = (Inr (), with_db (?s\<lparr>ddraws := Suc (ddraws s)\<rparr>) (shared_as ?d ?l))"
        by (simp add: on_perm_def grantSharePermission_def lift_db_def with_db_def)
      have cs: "seqs (ShareLink_create mint n u days) f ?s = f ?l (with_db (?s\<lparr>ddraws := Suc (ddraws s)\<rparr>) ?e)" for f
        by (rule seqs_Inr) (rule c)
      have gs: "seqs (on_perm (grantSharePermission ?tok n)) f (with_db (?s\<lparr>ddraws := Suc (ddraws s)\<rparr>) ?e)
          = f () (with_db (?s\<lparr>ddraws := Suc (ddraws s)\<rparr>) (shared_as ?d ?l))" for f
        by (rule seqs_Inr) (rule g)
      have tok: "ltoken ?l = ?tok" by (simp add: new_link_def)
      have "x = Inr (toLinkResponse (clock ?d) ?l (Some v) (Some (getNodePath ?d n)))"
        "drive_db t = shared_as ?d ?l"
        using run unfolding cs tok gs
        by (auto simp: reads_db_def reads_def drive_db_def with_db_def)
      then show ?thesis using may n 3(4) b days by (auto simp: link_made_def Let_def)
    qed
  qed
qed

lemma own_link_cases:
  obtains e where "own_link token u s = (Inl e, s)"
    | l where "own_link token u s = (Inr l, s)" "getShareLink (drive_db s) token = Some l" "lcreated_by l = u"
  by (cases "getShareLink (drive_db s) token"; cases "lcreated_by (the (getShareLink (drive_db s) token)) = u")
    (auto simp: own_link_def reads_db_eq throw_def seqs_guard ret_def)

lemma update_in_sync:
  assumes "in_sync (drive_db s)"
  shows "in_sync (drive_db (snd (updateShareLink token a u s)))"
proof (cases rule: own_link_cases [of token u s])
  case (2 l)
  show ?thesis
  proof (cases "new_expiry (clock (drive_db s)) a")
    case (Inr y)
    let ?run = "\<lambda>m. seqs m (\<lambda>updatedLink. reads_db (\<lambda>d. link_view d updatedLink))"
    have run: "updateShareLink token a u s = ?run (on_drive_db (updateShareLinkRow token y None)) s"
      using 2(1) Inr by (simp add: updateShareLink_def seqs_Inr reads_db_eq from_result_simps)
    show ?thesis
    proof (cases rule: updateShareLinkRow_cases [of token y None "drive_db s"])
      case (3 r f)
      then show ?thesis
        using updated_in_sync [OF assms, of f] by (simp add: run seqs_def on_drive_db_eq reads_db_def reads_def)
    qed (use assms in \<open>simp_all add: run seqs_def on_drive_db_eq reads_db_def reads_def\<close>)
  qed (use assms 2(1) in \<open>simp add: updateShareLink_def seqs_Inr reads_db_eq from_result_simps\<close>)
qed (use assms in \<open>simp add: updateShareLink_def seqs_def\<close>)

lemma delete_link_db:
  "drive_db (snd (deleteShareLink token u s)) =
     (if \<exists>l. getShareLink (drive_db s) token = Some l \<and> lcreated_by l = u then unlinked (drive_db s) token
      else drive_db s)"
  by (cases "getShareLink (drive_db s) token"; cases "lcreated_by (the (getShareLink (drive_db s) token)) = u")
    (auto simp: deleteShareLink_def own_link_def seqs_def reads_db_def reads_def throw_def guard_def ret_def
      on_drive_db_def deleteShareLinkRow_def withTx_def updates_def on_perm_def revokeSharePermission_def lift_db_def
      deleteSharePermission_def unlinked_def drive_db_def)

lemma downloadNode_db: "vdb (snd (downloadNode site n v)) = vdb v"
  by (auto simp: downloadNode_def downloadBlobWebdav_def seqs_def reads_def ret_def on_store_def
      split: prod.splits sum.splits option.splits)

lemma on_vault_download_db: "drive_db (snd (on_vault (downloadNode site n) s)) = drive_db s"
  using downloadNode_db [of site n "vault_of s"]
  by (auto simp: on_vault_def drive_db_def vault_of_def split: prod.splits)

lemma with_link_cases:
  obtains (refused) e st code where "with_link token f s = (Inr (Refused e st code), s)"
        "\<forall>l. getShareLink (drive_db s) token = Some l \<longrightarrow> isLinkExpired (clock (drive_db s)) l"
    | (opened) l where "with_link token f s = f l s" "getShareLink (drive_db s) token = Some l"
        "\<not> isLinkExpired (clock (drive_db s)) l"
proof (cases "getShareLink (drive_db s) token")
  case None
  then show ?thesis using refused
    by (simp add: with_link_def resolveShareLink_def reads_db_eq ret_def)
next
  case (Some l)
  show ?thesis
  proof (cases "isLinkExpired (clock (drive_db s)) l")
    case True
    then show ?thesis using refused Some
      by (simp add: with_link_def resolveShareLink_def reads_db_eq ret_def)
  next
    case False
    then show ?thesis using opened Some by (simp add: with_link_def resolveShareLink_def reads_db_eq)
  qed
qed

lemma grant_same_shares:
  "same_shares (drive_db s) (drive_db (snd (on_perm (grantFilePermission u n p) s)))"
  "same_shares (drive_db s) (drive_db (snd (on_perm (grant_path u n q) s)))"
  by (auto simp: same_shares_def drive_db_def on_perm_def store_defs repo_write_defs drop_user_def invalidate_def
      split: option.splits prod.splits sum.splits)

lemma add_shared_cases:
  obtains "add_shared u l s = (Inr cannot_add, s)"
    | v where "add_shared u l s = (Inr (Data ()), s)" "getNode (drive_db s) (lnode l) = Some v"
        "may_pass_on (drive_db s) (lcreated_by l) (v_id v)" "readable (drive_db s) u (v_id v)"
    | v where "getNode (drive_db s) (lnode l) = Some v" "may_pass_on (drive_db s) (lcreated_by l) (v_id v)"
        "\<not> readable (drive_db s) u (v_id v)"
        "add_shared u l s = seqs (on_perm (if v_type v = File then grantFilePermission u (v_id v) ''read''
           else grant_path u (v_id v) Read)) (\<lambda>_. ret (Data ())) s"
proof (cases "getNode (drive_db s) (lnode l)")
  case None
  then show ?thesis using that(1) by (simp add: add_shared_def reads_db_eq ret_def)
next
  case (Some v)
  show ?thesis
  proof (cases "lcreated_by l = 0 \<or> \<not> may_pass_on (drive_db s) (lcreated_by l) (v_id v)")
    case True
    then show ?thesis using that(1) Some by (auto simp: add_shared_def reads_db_eq ret_def)
  next
    case may: False
    show ?thesis
    proof (cases "readable (drive_db s) u (v_id v)")
      case True
      then have "add_shared u l s = (Inr (Data ()), s)" using Some may by (simp add: add_shared_def reads_db_eq ret_def)
      moreover have "may_pass_on (drive_db s) (lcreated_by l) (v_id v)" using may by simp
      ultimately show ?thesis using Some True that(2) by blast
    next
      case False
      then show ?thesis using that(3) Some may by (simp add: add_shared_def reads_db_eq)
    qed
  qed
qed

lemma add_same_shares: "same_shares (drive_db s) (drive_db (snd (addToMyPermissions token u s)))"
proof (cases rule: with_link_cases [of token "add_shared u" s])
  case (opened l)
  show ?thesis
  proof (cases rule: add_shared_cases [of u l s])
    case (3 v)
    let ?m = "on_perm (if v_type v = File then grantFilePermission u (v_id v) ''read'' else grant_path u (v_id v) Read)"
    have "same_shares (drive_db s) (drive_db (snd (?m s)))" using grant_same_shares [of s u "v_id v"] by simp
    then show ?thesis
      using opened(1) 3(4) by (cases "?m s"; cases "fst (?m s)") (simp_all add: addToMyPermissions_def seqs_def ret_def)
  qed (use opened(1) in \<open>simp_all add: addToMyPermissions_def\<close>)
qed (simp add: addToMyPermissions_def)

text \<open>A download answers with the content and counts one, or leaves the database alone.\<close>

lemma send_shared_cases:
  assumes "send_shared site token l s = (x, t)"
  obtains "drive_db t = drive_db s" "\<And>y. x \<noteq> Inr (Data y)"
    | buf v where "x = Inr (Data (buf, v_name v))" "getNode (drive_db s) (lnode l) = Some v"
        "drive_db t = (drive_db s)\<lparr>share_links := update_where (\<lambda>l. ltoken l = token)
           (\<lambda>l. l\<lparr>lcount := lcount l + 1\<rparr>) (share_links (drive_db s))\<rparr>"
        "fst (downloadNode site (v_id v) (vault_of s)) = Inr (Some buf)"
proof (cases "getNode (drive_db s) (lnode l)")
  case None
  then show ?thesis using assms that(1) by (auto simp: send_shared_def reads_db_eq ret_def)
next
  case (Some v)
  obtain r w where d: "on_vault (downloadNode site (v_id v)) s = (r, w)" by fastforce
  have db: "drive_db w = drive_db s" using on_vault_download_db [of site "v_id v" s] d by simp
  have r: "fst (downloadNode site (v_id v) (vault_of s)) = r"
    using d by (auto simp: on_vault_def split: prod.splits)
  have run: "catching (seqs (on_vault (downloadNode site (v_id v))) (\<lambda>b. case b of
             None \<Rightarrow> ret (failing ''downloadFail'')
           | Some buf \<Rightarrow>
               seqs (on_drive_db (incrementDownloadCount token)) (\<lambda>_. ret (Data (buf, v_name v)))))
           (\<lambda>e. ret (failing ''downloadFail'')) s = (x, t)"
    using assms Some by (simp add: send_shared_def reads_db_eq)
  show ?thesis
  proof (cases "\<exists>buf. r = Inr (Some buf)")
    case False
    then have "drive_db t = drive_db s \<and> (\<forall>y. x \<noteq> Inr (Data y))"
      using run d db
      by (cases r) (auto simp: catching_def seqs_def ret_def failing_def split: if_splits option.splits)
    then show ?thesis using that(1) by blast
  next
    case True
    then obtain buf where buf: "r = Inr (Some buf)" by blast
    show ?thesis
    proof (cases rule: incrementDownloadCount_cases [of token "drive_db w"])
      case (1 e)
      then have "drive_db t = drive_db s" "\<forall>y. x \<noteq> Inr (Data y)"
        using run d db buf
        by (auto simp: catching_def seqs_def ret_def failing_def on_drive_db_eq split: if_splits)
      then show ?thesis using that(1) by blast
    next
      case (2 m)
      then have "x = Inr (Data (buf, v_name v))" "drive_db t = (drive_db s)\<lparr>share_links := update_where (\<lambda>l. ltoken l = token)
           (\<lambda>l. l\<lparr>lcount := lcount l + 1\<rparr>) (share_links (drive_db s))\<rparr>"
        using run d db buf
        by (auto simp: catching_def seqs_def ret_def on_drive_db_eq)
      then show ?thesis using that(2) [OF _ Some] r buf by blast
    qed
  qed
qed

lemma download_in_sync:
  assumes "in_sync (drive_db s)"
  shows "in_sync (drive_db (snd (downloadFile site token s)))"
proof (cases rule: with_link_cases [of token "send_shared site token" s])
  case (opened l)
  obtain x t where t: "send_shared site token l s = (x, t)" by fastforce
  then show ?thesis
  proof (cases rule: send_shared_cases)
    case 1
    then show ?thesis using assms opened(1) t by (simp add: downloadFile_def)
  next
    case 2
    then show ?thesis
      using updated_in_sync [OF assms, of "\<lambda>l. l\<lparr>lcount := lcount l + 1\<rparr>"] opened(1) t by (simp add: downloadFile_def)
  qed
qed (use assms in \<open>simp add: downloadFile_def\<close>)

section \<open>Histories\<close>

text \<open>
  One step of the shares: an operation of the services with a token nobody has, the deletion of nodes with
  its cascade, or anything that leaves both tables alone.
\<close>

inductive share_step :: "'c site \<Rightarrow> (nat \<Rightarrow> string) \<Rightarrow> 'c drive \<Rightarrow> 'c drive \<Rightarrow> bool" for site mint where
  link_created: "getShareLink (drive_db s) (mint (ddraws s)) = None \<Longrightarrow>
     share_step site mint s (snd (createShareLink mint fid u a s))"
| link_changed: "share_step site mint s (snd (updateShareLink token a u s))"
| link_deleted: "share_step site mint s (snd (deleteShareLink token u s))"
| share_added: "share_step site mint s (snd (addToMyPermissions token u s))"
| downloaded: "share_step site mint s (snd (downloadFile site token s))"
| nodes_deleted: "share_step site mint s (with_db s (delete_nodes ids (drive_db s)))"
| elsewhere: "same_shares (drive_db s) (drive_db t) \<Longrightarrow> share_step site mint s t"

lemma share_step_in_sync: "share_step site mint s t \<Longrightarrow> in_sync (drive_db s) \<Longrightarrow> in_sync (drive_db t)"
proof (induction rule: share_step.induct)
  case (link_created s fid u a)
  obtain x t where t: "createShareLink mint fid u a s = (x, t)" by fastforce
  from share_create_cases [OF link_created(2,1) t] show ?case
    using link_created t shared_as_in_sync [OF link_created(2)]
    by (auto simp: link_made_def Let_def new_link_def)
next
  case (link_changed s token a u)
  then show ?case by (rule update_in_sync)
next
  case (link_deleted s token u)
  then show ?case by (simp add: delete_link_db unlinked_in_sync)
next
  case (share_added s token u)
  then show ?case using in_sync_cong add_same_shares by blast
next
  case (downloaded s token)
  then show ?case by (rule download_in_sync)
next
  case (nodes_deleted s ids)
  then show ?case by (simp add: cascade_in_sync)
next
  case (elsewhere s t)
  then show ?case using in_sync_cong by blast
qed

lemma share_steps_in_sync: "(share_step site mint)\<^sup>*\<^sup>* s t \<Longrightarrow> in_sync (drive_db s) \<Longrightarrow> in_sync (drive_db t)"
  by (induction rule: rtranclp_induct) (auto dest: share_step_in_sync)

section \<open>A share made one's own\<close>

lemma path_effective_None:
  assumes "closure_ok d" "getPathEffectivePermission d u n = None" "up d k n = Some a"
  shows "a \<notin> fst ` set (grants_of (user_paths d) u)"
proof
  assume "a \<in> fst ` set (grants_of (user_paths d) u)"
  then obtain p where "(a, p) \<in> set (grants_of (user_paths d) u)" by auto
  then have "(a, p, k) \<in> set (ancestor_grants d (grants_of (user_paths d) u) n)"
    using ancestor_grants_set [OF assms(1)] assms(3) by auto
  moreover have "ancestor_grants d (grants_of (user_paths d) u) n = []"
    using assms(2)
    by (cases "sort_key (\<lambda>(g, p, k). k) (ancestor_grants d (grants_of (user_paths d) u) n)")
      (auto simp: getPathEffectivePermission_def findPathPermissionForNode_def nearest_grant_def
        dest: arg_cong [where f = set])
  ultimately show False by simp
qed

text \<open>A first grant above a node takes nothing away below it.\<close>

lemma first_grant_keeps:
  assumes ok: "tree_ok (pdb s)" "grants_ok (pdb s)" "has_user (pdb s) u" "has_node (pdb s) n"
    and none: "getPathEffectivePermission (pdb s) u n = None"
    and eff: "getPathEffectivePermission (pdb s) u m = Some p"
  shows "getPathEffectivePermission (pdb (snd (grant_path u n q s))) u m = Some p"
proof -
  let ?d = "pdb s" and ?t = "pdb (snd (grant_path u n q s))"
  have cl: "closure_ok ?d" using tree_okD(2) [OF ok(1)] .
  have t: "?t = ?d\<lparr>user_paths := upsert_grant u n q (user_paths ?d)\<rparr>"
    using ok(3,4) by (simp add: store_defs upsertPathPermission_def drop_user_def invalidate_def)
  have g: "grants_ok ?t" using grant_path_effect [OF ok] by blast
  have up: "up ?t k c = up ?d k c" for k c by (rule up_cong) (simp add: t)
  have cl': "closure_ok ?t" using cl by (simp add: closure_ok_def anc_set_def up) (simp add: t)
  obtain k a where k: "up ?d k m = Some a" "(a, p) \<in> set (grants_of (user_paths ?d) u)"
    "\<forall>j < k. \<forall>b. up ?d j m = Some b \<longrightarrow> b \<notin> fst ` set (grants_of (user_paths ?d) u)"
    using eff effective_iff [OF cl ok(2)] by (auto simp: nearest_def)
  have away: "b \<noteq> n" if "j \<le> k" "up ?d j m = Some b" for j b
  proof
    assume "b = n"
    then have "up ?d (k - j) n = Some a" using that up_le [OF k(1) that(1)] by auto
    from path_effective_None [OF cl none this] k(2) show False by force
  qed
  have dp: "distinct (map (\<lambda>g. (guser g, gnode g)) (user_paths ?d))" using ok(2) by (simp add: grants_ok_def)
  have set: "set (user_paths ?t) = insert \<lparr>guser = u, gnode = n, gperm = q\<rparr> {g \<in> set (user_paths ?d). \<not> (guser g = u \<and> gnode g = n)}"
    using set_upsert [OF dp] by (simp add: t)
  have "(a, p) \<in> set (grants_of (user_paths ?t) u)"
    using k(2) away [of k a] k(1) by (auto simp: grants_of_set set)
  moreover have "b \<notin> fst ` set (grants_of (user_paths ?t) u)" if "j < k" "up ?d j m = Some b" for j b
  proof -
    have "b \<noteq> n" using away [of j b] that by simp
    moreover have "(b, r) \<notin> set (grants_of (user_paths ?d) u)" for r using k(3) that by force
    then have "\<not> (\<exists>g \<in> set (user_paths ?d). guser g = u \<and> gnode g = b)" by (auto simp: grants_of_set)
    ultimately show ?thesis by (auto simp: grants_of_set set)
  qed
  ultimately have "nearest ?t (grants_of (user_paths ?t) u) m p k" using k(1) up by (auto simp: nearest_def)
  then show ?thesis using effective_iff [OF cl' g] by blast
qed

text \<open>What the last step of \<open>addToMyPermissions\<close> does for a node the user cannot read yet.\<close>

definition first_grant :: "node_type \<Rightarrow> nat \<Rightarrow> nat \<Rightarrow> (perm_state, unit) service" where
  "first_grant ty u n = (if ty = File then grantFilePermission u n ''read'' else grant_path u n Read)"

lemma readable_iff: "readable d u n \<longleftrightarrow> getEffectivePermission d u n \<noteq> None"
proof (cases "getEffectivePermission d u n")
  case (Some p)
  then show ?thesis using meetsRank_names [of p Read] by (cases p) (simp_all add: readable_def less_eq_permission_def)
qed (simp add: readable_def)

lemma effective_split:
  "getEffectivePermission d v m =
     (case findFilePermission d v m of Some p \<Rightarrow> Some p | None \<Rightarrow> getPathEffectivePermission d v m)"
  unfolding getEffectivePermission_def getPathEffectivePermission_def ..

lemma first_grant_file:
  assumes "grants_ok (pdb s)" "has_user (pdb s) u" "has_node (pdb s) n" "getEffectivePermission (pdb s) u n = None"
  shows "fst (grantFilePermission u n ''read'' s) = Inr ()"
    and "getEffectivePermission (pdb (snd (grantFilePermission u n ''read'' s))) v m =
      (if v = u \<and> m = n then Some Read else getEffectivePermission (pdb s) v m)"
proof -
  let ?d = "pdb s" and ?t = "pdb (snd (grantFilePermission u n ''read'' s))"
  show "fst (grantFilePermission u n ''read'' s) = Inr ()"
    using assms(2,3) by (simp add: store_defs upsertFilePermission_def)
  have none: "\<not> (\<exists>g \<in> set (user_files ?d). guser g = u \<and> gnode g = n)"
    using assms(4)
    by (auto simp: getEffectivePermission_def findFilePermission_def first_row_None filter_empty_conv split: option.splits)
  have t: "?t = ?d\<lparr>user_files := user_files ?d @ [\<lparr>guser = u, gnode = n, gperm = Read\<rparr>]\<rparr>"
    using assms(2,3) unfolding store_defs upsertFilePermission_def upsert_grant_def
    by (simp add: drop_user_def invalidate_def if_not_P [OF none])
  have "findPathPermissionForNode ?t v m = findPathPermissionForNode ?d v m"
    by (simp add: t findPathPermissionForNode_def nearest_grant_def ancestor_grants_def)
  then have path: "getPathEffectivePermission ?t v m = getPathEffectivePermission ?d v m"
    by (simp add: getPathEffectivePermission_def)
  have "findFilePermission ?t v m = (if v = u \<and> m = n then Some Read else findFilePermission ?d v m)"
    using none by (auto simp: t findFilePermission_def filter_empty_conv)
  then show "getEffectivePermission ?t v m = (if v = u \<and> m = n then Some Read else getEffectivePermission ?d v m)"
    unfolding effective_split path by simp
qed

lemma first_grant_folder:
  assumes "tree_ok (pdb s)" "grants_ok (pdb s)" "has_user (pdb s) u" "has_node (pdb s) n"
    and none: "getEffectivePermission (pdb s) u n = None"
  shows "fst (grant_path u n Read s) = Inr ()"
    and "getEffectivePermission (pdb (snd (grant_path u n Read s))) u n = Some Read"
    and "v \<noteq> u \<Longrightarrow> getEffectivePermission (pdb (snd (grant_path u n Read s))) v m = getEffectivePermission (pdb s) v m"
    and "getEffectivePermission (pdb s) u m = Some p \<Longrightarrow>
      getEffectivePermission (pdb (snd (grant_path u n Read s))) u m = Some p"
proof -
  let ?d = "pdb s" and ?t = "pdb (snd (grant_path u n Read s))"
  have "?t = ?d\<lparr>user_paths := upsert_grant u n Read (user_paths ?d)\<rparr>"
    using assms(3,4) by (simp add: store_defs upsertPathPermission_def drop_user_def invalidate_def)
  then have files: "findFilePermission ?t v m = findFilePermission ?d v m" for v m
    by (simp add: findFilePermission_def)
  have eff: "getEffectivePermission ?t v m = (case findFilePermission ?d v m of
      Some p \<Rightarrow> Some p | None \<Rightarrow> getPathEffectivePermission ?t v m)" for v m
    unfolding effective_split files ..
  have eff': "getEffectivePermission ?d v m = (case findFilePermission ?d v m of
      Some p \<Rightarrow> Some p | None \<Rightarrow> getPathEffectivePermission ?d v m)" for v m
    by (rule effective_split)
  have no: "findFilePermission ?d u n = None" "getPathEffectivePermission ?d u n = None"
    using none by (auto simp: eff' split: option.splits)
  note effect = grant_path_effect [OF assms(1-4), of Read]
  show "fst (grant_path u n Read s) = Inr ()" using effect by blast
  show "getEffectivePermission ?t u n = Some Read" using effect no by (simp add: eff)
  show "v \<noteq> u \<Longrightarrow> getEffectivePermission ?t v m = getEffectivePermission ?d v m"
    using effect [of v m] by (simp add: eff eff' split: option.splits)
  show "getEffectivePermission ?d u m = Some p \<Longrightarrow> getEffectivePermission ?t u m = Some p"
    using first_grant_keeps [OF assms(1-4) no(2)] by (auto simp: eff eff' split: option.splits)
qed

text \<open>The outcome of \<open>addToMyPermissions\<close>: what the user may do now, and everybody else's permissions.\<close>

definition share_taken :: "db \<Rightarrow> string \<Rightarrow> nat \<Rightarrow> db \<Rightarrow> bool" where
  "share_taken d token u d' \<longleftrightarrow> (\<exists>l v. getShareLink d token = Some l \<and> \<not> isLinkExpired (clock d) l \<and>
     getNode d (lnode l) = Some v \<and> may_pass_on d (lcreated_by l) (v_id v) \<and>
     getEffectivePermission d' u (v_id v) \<noteq> None)"

definition others_kept :: "db \<Rightarrow> nat \<Rightarrow> db \<Rightarrow> bool" where
  "others_kept d u d' \<longleftrightarrow>
     (\<forall>v m. v \<noteq> u \<longrightarrow> getEffectivePermission d' v m = getEffectivePermission d v m) \<and>
     (\<forall>m p. getEffectivePermission d u m = Some p \<longrightarrow> getEffectivePermission d' u m = Some p)"

lemma add_outcome:
  assumes "tree_ok (drive_db s)" "grants_ok (drive_db s)" "addToMyPermissions token u s = (x, t)"
  shows "(x \<noteq> Inr (Data ()) \<longrightarrow> drive_db t = drive_db s) \<and> others_kept (drive_db s) u (drive_db t) \<and>
    (x = Inr (Data ()) \<longrightarrow> share_taken (drive_db s) token u (drive_db t))"
proof (cases rule: with_link_cases [of token "add_shared u" s])
  case (refused e st code)
  then show ?thesis using assms(3) by (auto simp: addToMyPermissions_def others_kept_def)
next
  case (opened l)
  have run: "add_shared u l s = (x, t)" using assms(3) opened(1) by (simp add: addToMyPermissions_def)
  show ?thesis
  proof (cases rule: add_shared_cases [of u l s])
    case 1
    then show ?thesis using run by (auto simp: others_kept_def)
  next
    case (2 v)
    then show ?thesis using run opened(2,3) by (auto simp: others_kept_def share_taken_def readable_iff)
  next
    case (3 v)
    let ?n = "v_id v" and ?s = "dperm s"
    let ?m = "if v_type v = File then grantFilePermission u ?n ''read'' else grant_path u ?n Read"
    have d: "pdb ?s = drive_db s" by (simp add: drive_db_def)
    have n: "has_node (pdb ?s) ?n" using getNode_has [OF 3(1)] d by auto
    have none: "getEffectivePermission (pdb ?s) u ?n = None" using 3(3) by (simp add: readable_iff d)
    obtain r q where q: "?m ?s = (r, q)" by fastforce
    have out: "(x, t) = (case r of Inl e \<Rightarrow> (Inl e, s\<lparr>dperm := q\<rparr>) | Inr _ \<Rightarrow> (Inr (Data ()), s\<lparr>dperm := q\<rparr>))"
      using run 3(4) q by (simp add: seqs_def on_perm_def ret_def split: sum.splits)
    show ?thesis
    proof (cases "has_user (pdb ?s) u")
      case False
      then have "isl r" "q = ?s"
        using q by (auto simp: store_defs upsertFilePermission_def upsertPathPermission_def split: if_splits)
      then show ?thesis using out by (cases r) (auto simp: others_kept_def)
    next
      case True
      note by_file = first_grant_file [OF assms(2) [folded d] True n none]
      note by_folder = first_grant_folder [OF assms(1) [folded d] assms(2) [folded d] True n none]
      have tdb: "drive_db t = pdb q" using out by (cases r) (auto simp: drive_db_def)
      have "r = Inr () \<and> getEffectivePermission (pdb q) u ?n = Some Read \<and> others_kept (pdb ?s) u (pdb q)"
      proof (cases "v_type v = File")
        case True
        then have "grantFilePermission u ?n ''read'' ?s = (r, q)" using q by simp
        then show ?thesis using by_file none by (auto simp: others_kept_def)
      next
        case False
        then have "grant_path u ?n Read ?s = (r, q)" using q by simp
        then show ?thesis using by_folder by (auto simp: others_kept_def)
      qed
      then show ?thesis using out tdb d opened(2,3) 3(1,2) by (auto simp: share_taken_def)
    qed
  qed
qed

end
