(* ===== verification/SharingProps.thy ===== *)
theory SharingProps
  imports SharingLaws
begin

text \<open>The properties of share links.\<close>

section \<open>A shared drive to look at\<close>

definition mint_demo :: "nat \<Rightarrow> string" where
  "mint_demo k = ''t'' @ decimal k"

definition share_drive :: "mem drive" where
  "share_drive = with_db (drive_of uploaded) ((vdb uploaded)
     \<lparr>users := [demo_user 7 ''ann'' False, demo_user 8 ''root'' True, demo_user 9 ''bob'' False],
      user_paths := [\<lparr>guser = 7, gnode = 1, gperm = Admin\<rparr>]\<rparr>)"

text \<open>Ann, admin of node 1, has shared the file 5 below it, without a number of days.\<close>

definition shared_drive :: "mem drive" where
  "shared_drive = snd (createShareLink mint_demo (Some 5) 7 Days_null share_drive)"

lemma share_drive_parts:
  "file_nodes (drive_db share_drive) = file_nodes (vdb uploaded)" "next_node (drive_db share_drive) = next_node (vdb uploaded)"
  "node_ancestors (drive_db share_drive) = node_ancestors (vdb uploaded)"
  by (simp_all add: share_drive_def)

lemma drive_tree_ok:
  assumes "file_nodes d = file_nodes e" "next_node d = next_node e" "node_ancestors d = node_ancestors e" "tree_ok e"
  shows "tree_ok d"
  using assms nodes_ok_cong [of d e] up_cong [of d e] by (simp add: tree_ok_def closure_ok_def anc_set_def)

lemma shared_parts:
  "fst (createShareLink mint_demo (Some 5) 7 Days_null share_drive) \<noteq> Inl e"
  "drive_db shared_drive = shared_as (drive_db share_drive) (new_link (drive_db share_drive) ''t1'' 5 7 None)"
  by code_simp+

lemma shared_ok:
  "tree_ok (drive_db share_drive)" "grants_ok (drive_db share_drive)" "in_sync (drive_db share_drive)"
  "tree_ok (drive_db shared_drive)" "grants_ok (drive_db shared_drive)" "mint_demo (ddraws share_drive) = ''t1''"
  "getShareLink (drive_db share_drive) ''t1'' = None"
proof -
  show tree: "tree_ok (drive_db share_drive)" by (rule drive_tree_ok [OF share_drive_parts uploaded_tree])
  show "in_sync (drive_db share_drive)" "grants_ok (drive_db share_drive)" "mint_demo (ddraws share_drive) = ''t1''"
    "getShareLink (drive_db share_drive) ''t1'' = None"
    by code_simp+
  show "tree_ok (drive_db shared_drive)"
    by (rule drive_tree_ok [OF _ _ _ tree]) (simp_all add: shared_parts(2) shared_as_def)
  show "grants_ok (drive_db shared_drive)" unfolding shared_parts(2) by code_simp
qed

section \<open>Properties\<close>

text \<open>
  C39: What a request with a share token may do. Start from a database in which every link has its
  permission row and every permission row its link, and run any history of creations with fresh tokens,
  changes of expiry, deletions of links, additions to own permissions, downloads, node deletions and of
  anything else that leaves the two tables alone. Then a request that carries a token is let through, by
  \<open>authenticateTokenOrShare\<close> and then by \<open>checkPermission\<close> for the principal it produces, exactly when the
  action is reading, the token's link still exists and has not expired, and the node lies in the subtree of
  the linked node. A deleted link, an expired link and a foreign node are refused at once, on every path.
\<close>

theorem share_request_exact:
  assumes "in_sync (drive_db s)" "(share_step site mint)\<^sup>*\<^sup>* s t"
    and "tree_ok (drive_db t)" "grants_ok (drive_db t)" "token \<noteq> []"
  shows "(case authenticateTokenOrShare verifyToken (Some token) authHeader (drive_db t) of
       Auth_share l p \<Rightarrow> fst (checkPermission n p (perm_name q) isDirectory (dperm t))
     | _ \<Rightarrow> False) \<longleftrightarrow>
    q = Read \<and> (\<exists>l \<in> set (share_links (drive_db t)). ltoken l = token \<and>
       \<not> isLinkExpired (clock (drive_db t)) l \<and> n \<in> desc_of (drive_db t) (lnode l))"
proof -
  have sync: "in_sync (drive_db t)" by (rule share_steps_in_sync [OF assms(2,1)])
  have d: "distinct (map ltoken (share_links (drive_db t)))" using sync by (simp add: in_sync_def)
  note link = getShareLink_iff [OF d, of token]
  have scope: "fst (checkPermission n (Principal_string (''share:'' @ token)) (perm_name q) isDirectory (dperm t)) \<longleftrightarrow>
    q = Read \<and> (\<exists>r \<in> set (perm_shares (drive_db t)). stoken r = token \<and> n \<in> desc_of (drive_db t) (snode r))"
    using share_scope [of "dperm t" n token q isDirectory] assms(3-5) by (simp add: drive_db_def)
  have rows: "(\<exists>r \<in> set (perm_shares (drive_db t)). stoken r = token \<and> n \<in> desc_of (drive_db t) (snode r)) \<longleftrightarrow>
    (\<exists>k \<in> share_keys (drive_db t). fst k = token \<and> n \<in> desc_of (drive_db t) (snd k))"
    by (auto simp: share_keys_def)
  have links: "(\<exists>k \<in> link_keys (drive_db t). fst k = token \<and> n \<in> desc_of (drive_db t) (snd k)) \<longleftrightarrow>
    (\<exists>l \<in> set (share_links (drive_db t)). ltoken l = token \<and> n \<in> desc_of (drive_db t) (lnode l))"
    by (auto simp: link_keys_def)
  have same: "share_keys (drive_db t) = link_keys (drive_db t)" using sync by (simp add: in_sync_def)
  show ?thesis
  proof (cases "getShareLink (drive_db t) token")
    case None
    then show ?thesis using link assms(5) by (auto simp: authenticateTokenOrShare_def)
  next
    case (Some l)
    then have l: "l \<in> set (share_links (drive_db t))" "ltoken l = token" using link by simp_all
    have only: "m = l" if "m \<in> set (share_links (drive_db t))" "ltoken m = token" for m
      using link [of m] that Some by simp
    show ?thesis
    proof (cases "isLinkExpired (clock (drive_db t)) l")
      case True
      then show ?thesis using Some only assms(5) by (auto simp: authenticateTokenOrShare_def)
    next
      case False
      have "(\<exists>m \<in> set (share_links (drive_db t)). ltoken m = token \<and> n \<in> desc_of (drive_db t) (lnode m)) \<longleftrightarrow>
          n \<in> desc_of (drive_db t) (lnode l)" using l only by blast
      then have "fst (checkPermission n (Principal_string (''share:'' @ token)) (perm_name q) isDirectory (dperm t)) \<longleftrightarrow>
          q = Read \<and> n \<in> desc_of (drive_db t) (lnode l)"
        unfolding scope rows same links by simp
      moreover have "(\<exists>m \<in> set (share_links (drive_db t)). ltoken m = token \<and>
          \<not> isLinkExpired (clock (drive_db t)) m \<and> n \<in> desc_of (drive_db t) (lnode m)) \<longleftrightarrow> n \<in> desc_of (drive_db t) (lnode l)"
        using l only False by blast
      moreover have "authenticateTokenOrShare verifyToken (Some token) authHeader (drive_db t)
          = Auth_share l (Principal_string (''share:'' @ token))"
        using Some False assms(5) by (simp add: authenticateTokenOrShare_def)
      ultimately show ?thesis by simp
    qed
  qed
qed

theorem share_request_exact_witness:
  "(case authenticateTokenOrShare (\<lambda>_. None) (Some ''t1'') None (drive_db shared_drive) of
      Auth_share l p \<Rightarrow> fst (checkPermission 5 p ''read'' False (dperm shared_drive)) | _ \<Rightarrow> False) \<and>
   \<not> (case authenticateTokenOrShare (\<lambda>_. None) (Some ''t1'') None (drive_db shared_drive) of
      Auth_share l p \<Rightarrow> fst (checkPermission 5 p ''write'' False (dperm shared_drive)) | _ \<Rightarrow> False)"
proof -
  have "share_step (mem_site mem_client) mint_demo share_drive shared_drive"
    unfolding shared_drive_def by (rule share_step.link_created) (simp add: shared_ok)
  then have steps: "(share_step (mem_site mem_client) mint_demo)\<^sup>*\<^sup>* share_drive shared_drive" ..
  have "new_link (drive_db share_drive) ''t1'' 5 7 None \<in> set (share_links (drive_db shared_drive))"
    by (simp add: shared_parts(2) shared_as_def)
  moreover have "\<not> isLinkExpired (clock (drive_db shared_drive)) (new_link (drive_db share_drive) ''t1'' 5 7 None)"
    by (simp add: shared_parts(2) isLinkExpired_def new_link_def default_days_def ms_per_day_def)
  moreover have "has_node (drive_db shared_drive) 5" unfolding shared_parts(2) by code_simp
  then have "5 \<in> desc_of (drive_db shared_drive) 5" by (rule desc_of_self)
  moreover have "ltoken (new_link d ''t1'' 5 7 None) = ''t1''" "lnode (new_link d ''t1'' 5 7 None) = 5" for d
    by (simp_all add: new_link_def)
  ultimately have "\<exists>l \<in> set (share_links (drive_db shared_drive)). ltoken l = ''t1'' \<and>
      \<not> isLinkExpired (clock (drive_db shared_drive)) l \<and> 5 \<in> desc_of (drive_db shared_drive) (lnode l)"
    by (intro bexI [of _ "new_link (drive_db share_drive) ''t1'' 5 7 None"]) simp_all
  then show ?thesis
    using share_request_exact [OF shared_ok(3) steps shared_ok(4,5),
        where token = "''t1''" and verifyToken = "\<lambda>_. None" and authHeader = None and n = 5 and q = Read and isDirectory = False, unfolded perm_name.simps]
      share_request_exact [OF shared_ok(3) steps shared_ok(4,5),
        where token = "''t1''" and verifyToken = "\<lambda>_. None" and authHeader = None and n = 5 and q = Write and isDirectory = False, unfolded perm_name.simps]
    by blast
qed

text \<open>
  Creating a link. It succeeds exactly when the id is a number that names a live node, the user exists
  and may read the node, and the number of days is missing, \<open>null\<close> or not negative and gives a date.
  Then one link with no downloads is added, with the permission row of its token, and no other table
  changes. Otherwise the database is untouched. Without a number of days, and also for \<open>null\<close>, which is
  documented as unlimited, the link expires after 14 days.
\<close>

theorem create_link_outcome:
  assumes "in_sync (drive_db s)" "getShareLink (drive_db s) (mint (ddraws s)) = None"
    and "createShareLink mint fid u a s = (x, t)"
  shows "(isl x \<longleftrightarrow> \<not> may_create s fid u a) \<and> (isl x \<longrightarrow> drive_db t = drive_db s) \<and>
    (\<not> isl x \<longrightarrow> (\<exists>n days. fid = Some n \<and> (a = Days days \<or> a \<in> {Days_undefined, Days_null} \<and> days = 14) \<and>
       drive_db t = (drive_db s)
         \<lparr>share_links := share_links (drive_db s) @ [\<lparr>ltoken = mint (ddraws s), lnode = n, lcreated_by = u,
            lcreated = datetime_now (drive_db s), lexpires = Some (clock (drive_db s) + days * ms_per_day), lcount = 0\<rparr>],
          perm_shares := perm_shares (drive_db s) @ [\<lparr>stoken = mint (ddraws s), snode = n, sperm = Read\<rparr>]\<rparr>))"
  using share_create_cases [OF assms]
proof (elim disjE exE conjE)
  fix e
  assume "x = Inl e" "drive_db t = drive_db s" "\<not> may_create s fid u a"
  then show ?thesis by simp
next
  fix r
  assume r: "x = Inr r" "may_create s fid u a" "link_made s mint fid u a r t"
  then obtain n days where n: "fid = Some n" "validateExpiration a = Inr days" "may_create s fid u a"
      "drive_db t = shared_as (drive_db s) (new_link (drive_db s) (mint (ddraws s)) n u days)"
    by (auto simp: link_made_def Let_def)
  have "a = Days (default_days days) \<or> a \<in> {Days_undefined, Days_null} \<and> default_days days = 14"
    using n(2) by (auto simp: validateExpiration_def default_days_def split: days_arg.splits if_splits)
  then show ?thesis using r(1) n(1,3,4) by (auto simp: shared_as_def new_link_def)
qed

theorem create_link_outcome_witness:
  "\<not> isl (fst (createShareLink mint_demo (Some 5) 7 Days_null share_drive)) \<and>
   map lexpires (share_links (drive_db shared_drive)) = [Some (14 * ms_per_day)]"
proof -
  obtain x t where x: "createShareLink mint_demo (Some 5) 7 Days_null share_drive = (x, t)" by fastforce
  have "getShareLink (drive_db share_drive) (mint_demo (ddraws share_drive)) = None" using shared_ok(6,7) by simp
  note out = create_link_outcome [OF shared_ok(3) this x]
  have "\<not> isl x" using shared_parts(1) x by (cases x) auto
  moreover have "drive_db t = drive_db shared_drive" using x by (simp add: shared_drive_def)
  moreover have "share_links (drive_db share_drive) = []" "clock (drive_db share_drive) = 0" by code_simp+
  ultimately show ?thesis using out x by auto
qed

text \<open>
  A download through a link. When it answers with content, the link exists and has not expired, the
  linked node is live, the answer is its name and what the blob store holds for it, and the count of that
  link has gone up by one and nothing else in the database has changed. Every other answer, and every error,
  leaves the database as it was.
\<close>

theorem shared_download:
  "case downloadFile site token s of
     (Inr (Data (buf, nm)), t) \<Rightarrow> (\<exists>l v. getShareLink (drive_db s) token = Some l \<and>
        \<not> isLinkExpired (clock (drive_db s)) l \<and> getNode (drive_db s) (lnode l) = Some v \<and> nm = v_name v \<and>
        fst (downloadNode site (v_id v) (vault_of s)) = Inr (Some buf) \<and>
        drive_db t = (drive_db s)\<lparr>share_links := update_where (\<lambda>l. ltoken l = token)
           (\<lambda>l. l\<lparr>lcount := lcount l + 1\<rparr>) (share_links (drive_db s))\<rparr>)
   | (_, t) \<Rightarrow> drive_db t = drive_db s"
proof (cases rule: with_link_cases [of token "send_shared site token" s])
  case (refused e st code)
  then show ?thesis by (simp add: downloadFile_def)
next
  case (opened l)
  obtain x t where t: "send_shared site token l s = (x, t)" by fastforce
  then show ?thesis
  proof (cases rule: send_shared_cases)
    case 1
    then show ?thesis using opened(1) t
      by (cases x; cases "projr x") (simp_all add: downloadFile_def)
  next
    case (2 buf v)
    then show ?thesis using opened t by (simp add: downloadFile_def)
  qed
qed

text \<open>
  Adding a share to one's own permissions. Whoever asks, no other user's effective permission on any node
  changes, and no permission the user had is lowered, not even below the linked folder. It succeeds only for
  a link that exists and has not expired, on a live node on which the creator of the link is still
  administrator, owner or admin grantee, and then the user can read the node. In every other case the
  database is untouched.
\<close>

theorem share_taken_outcome:
  assumes "tree_ok (drive_db s)" "grants_ok (drive_db s)" "addToMyPermissions token u s = (x, t)"
  shows "(x \<noteq> Inr (Data ()) \<longrightarrow> drive_db t = drive_db s) \<and>
    (\<forall>v m. v \<noteq> u \<longrightarrow> getEffectivePermission (drive_db t) v m = getEffectivePermission (drive_db s) v m) \<and>
    (\<forall>m p. getEffectivePermission (drive_db s) u m = Some p \<longrightarrow> getEffectivePermission (drive_db t) u m = Some p) \<and>
    (x = Inr (Data ()) \<longrightarrow> (\<exists>l v. getShareLink (drive_db s) token = Some l \<and>
       \<not> isLinkExpired (clock (drive_db s)) l \<and> getNode (drive_db s) (lnode l) = Some v \<and>
       may_pass_on (drive_db s) (lcreated_by l) (v_id v) \<and> getEffectivePermission (drive_db t) u (v_id v) \<noteq> None))"
  using add_outcome [OF assms] by (simp add: others_kept_def share_taken_def)

theorem share_taken_outcome_witness:
  "fst (addToMyPermissions ''t1'' 9 shared_drive) = Inr (Data ()) \<and>
   getEffectivePermission (drive_db (snd (addToMyPermissions ''t1'' 9 shared_drive))) 9 5 \<noteq> None \<and>
   getEffectivePermission (drive_db shared_drive) 9 5 = None"
proof -
  obtain x t where x: "addToMyPermissions ''t1'' 9 shared_drive = (x, t)" by fastforce
  note out = share_taken_outcome [OF shared_ok(4,5) x]
  have "fst (addToMyPermissions ''t1'' 9 shared_drive) = Inr (Data ())" by code_simp
  then have r: "x = Inr (Data ())" using x by simp
  have link: "getShareLink (drive_db shared_drive) ''t1'' = Some (new_link (drive_db share_drive) ''t1'' 5 7 None)"
    unfolding shared_parts(2) by code_simp
  obtain v where "getNode (drive_db shared_drive) 5 = Some v" "getEffectivePermission (drive_db t) 9 (v_id v) \<noteq> None"
    using out r link by (auto simp: new_link_def)
  then have "getEffectivePermission (drive_db t) 9 5 \<noteq> None" using getNode_has by metis
  moreover have "getEffectivePermission (drive_db shared_drive) 9 5 = None" unfolding shared_parts(2) by code_simp
  ultimately show ?thesis using x r by simp
qed

end
