(* ===== verification/Users.thy ===== *)
theory Users
  imports Requests
begin

text \<open>
  The user table: \<open>UserRepository.sqlite.js\<close> with \<open>userShared.js\<close>, which \<open>userStore.js\<close> and \<open>models/User.js\<close>
  pass on. A row's \<open>email_hash\<close> is always the hash of its e-mail address, written in the same statement,
  so a comparison of hashes is written over the address; \<open>sha\<close> is the hash. What a read strips from a
  row (the password, before it reaches a client) is kept here.
\<close>

definition admin_error :: "string \<Rightarrow> nat \<Rightarrow> err" where
  "admin_error key st = Err (''serverErrors.admin.'' @ key) st"

definition auth_error :: "string \<Rightarrow> nat \<Rightarrow> err" where
  "auth_error key st = Err (''serverErrors.auth.'' @ key) st"

definition normalizeEmail :: "string \<Rightarrow> string" where
  "normalizeEmail e = to_lower (trim e)"

definition same_mail :: "(string \<Rightarrow> string) \<Rightarrow> string \<Rightarrow> user \<Rightarrow> bool" where
  "same_mail sha e x \<longleftrightarrow> sha (email x) = sha e"

definition findByEmail :: "(string \<Rightarrow> string) \<Rightarrow> db \<Rightarrow> string \<Rightarrow> user option" where
  "findByEmail sha d e =
     (if normalizeEmail e = [] then None
      else first_row (filter (same_mail sha (normalizeEmail e)) (users d)))"

text \<open>The unique indexes on name, address and hash.\<close>

definition insert_user :: "(string \<Rightarrow> string) \<Rightarrow> user \<Rightarrow> (db, user) service" where
  "insert_user sha row d =
     (if list_ex (\<lambda>x. username x = username row \<or> email x = email row \<or> same_mail sha (email row) x) (users d)
      then (Inl unique_failed, d)
      else (Inr row, d\<lparr>users := users d @ [row], next_user := Suc (next_user d)\<rparr>))"

definition new_user :: "db \<Rightarrow> string \<Rightarrow> string \<Rightarrow> string \<Rightarrow> bool \<Rightarrow> user" where
  "new_user d nm em hash isAdmin =
     \<lparr>uid = next_user d, username = nm, email = normalizeEmail em, password = hash,
      ustatus = (if isAdmin then User_approved else User_pending), is_admin = isAdmin,
      token_version = 0, ucreated = clock d, uupdated = clock d\<rparr>"

definition createUser :: "(string \<Rightarrow> string) \<Rightarrow> string \<Rightarrow> string \<Rightarrow> string \<Rightarrow> bool \<Rightarrow> (db, user) service" where
  "createUser sha nm em hash isAdmin =
     seqs (guard (nm \<noteq> [] \<and> em \<noteq> [] \<and> hash \<noteq> []) (admin_error ''createUserRequiredFields'' 400)) (\<lambda>_.
     withTx (
       seqs (reads (\<lambda>d. findByUsername d nm)) (\<lambda>dup.
       seqs (guard (dup = None) (admin_error ''usernameTaken'' 409)) (\<lambda>_.
       seqs (reads (\<lambda>d. first_row (filter (same_mail sha (normalizeEmail em)) (users d)))) (\<lambda>dup.
       seqs (guard (dup = None) (auth_error ''emailTaken'' 409)) (\<lambda>_.
       seqs (reads (\<lambda>d. new_user d nm em hash isAdmin)) (insert_user sha)))))))"

definition update_user :: "nat \<Rightarrow> (user \<Rightarrow> user) \<Rightarrow> (db, unit) service" where
  "update_user u f d =
     (Inr (), d\<lparr>users := update_where (\<lambda>x. uid x = u) (\<lambda>x. (f x)\<lparr>uupdated := datetime_now d\<rparr>) (users d)\<rparr>)"

definition updateStatus :: "nat \<Rightarrow> user_status \<Rightarrow> (db, unit) service" where
  "updateStatus u st = withTx (update_user u (ustatus_update (\<lambda>_. st)))"

definition updateEmail :: "(string \<Rightarrow> string) \<Rightarrow> nat \<Rightarrow> string \<Rightarrow> (db, unit) service" where
  "updateEmail sha u newEmail =
     (let em = normalizeEmail newEmail in
      seqs (guard (em \<noteq> []) (Err ''serverErrors.users.emailRequired'' 400)) (\<lambda>_.
      withTx (
        seqs (reads (\<lambda>d. findById d u)) (\<lambda>current.
        seqs (guard (current \<noteq> None) (admin_error ''userNotFound'' 404)) (\<lambda>_.
        seqs (reads (\<lambda>d. first_row (filter (same_mail sha em) (users d)))) (\<lambda>dup.
        seqs (guard (dup = None \<or> uid (the dup) = u) (auth_error ''emailTaken'' 409)) (\<lambda>_.
          update_user u (email_update (\<lambda>_. em)))))))))"

definition updatePasswordHash :: "nat \<Rightarrow> string \<Rightarrow> (db, unit) service" where
  "updatePasswordHash u hash =
     withTx (update_user u (\<lambda>x. x\<lparr>password := hash, token_version := token_version x + 1\<rparr>))"

text \<open>
  \<open>DELETE FROM users\<close>. The tables that refer to a user cascade; \<open>permissions_shares\<close> refers to
  nodes only, so the grants of the links a user made stay.
\<close>

definition deleteUser :: "nat \<Rightarrow> (db, unit) service" where
  "deleteUser u = withTx (\<lambda>d. (Inr (),
     d\<lparr>users := delete_where (\<lambda>x. uid x = u) (users d),
       user_paths := delete_where (\<lambda>g. guser g = u) (user_paths d),
       user_files := delete_where (\<lambda>g. guser g = u) (user_files d),
       share_links := delete_where (\<lambda>l. lcreated_by l = u) (share_links d),
       requests := delete_where (\<lambda>r. rrequester r = u \<or> rowner r = u) (requests d)\<rparr>))"

definition findAll :: "db \<Rightarrow> user list" where
  "findAll d = sort_key (\<lambda>x. - ucreated x) (users d)"

definition findByStatus :: "db \<Rightarrow> user_status \<Rightarrow> user list" where
  "findByStatus d st = sort_key (\<lambda>x. - ucreated x) (filter (\<lambda>x. ustatus x = st) (users d))"

section \<open>What the schema keeps\<close>

text \<open>
  Ids, names and addresses are unique, ids are below the sequence, and whatever refers to a user
  refers to a row of the table.
\<close>

definition user_refs :: "db \<Rightarrow> nat set" where
  "user_refs d = guser ` set (user_paths d) \<union> guser ` set (user_files d) \<union> lcreated_by ` set (share_links d) \<union>
     rrequester ` set (requests d) \<union> rowner ` set (requests d)"

definition users_ok :: "(string \<Rightarrow> string) \<Rightarrow> db \<Rightarrow> bool" where
  "users_ok sha d \<longleftrightarrow> distinct (map uid (users d)) \<and> distinct (map username (users d)) \<and>
     distinct (map (\<lambda>x. sha (email x)) (users d)) \<and> (\<forall>x \<in> set (users d). uid x < next_user d) \<and>
     user_refs d \<subseteq> uid ` set (users d)"

lemma users_okD:
  assumes "users_ok sha d"
  shows "distinct (map uid (users d))" "distinct (map username (users d))"
    "distinct (map (\<lambda>x. sha (email x)) (users d))" "x \<in> set (users d) \<Longrightarrow> uid x < next_user d"
    "user_refs d \<subseteq> uid ` set (users d)"
  using assms by (simp_all add: users_ok_def)

lemma findById_iff:
  assumes "distinct (map uid (users d))"
  shows "findById d u = Some x \<longleftrightarrow> x \<in> set (users d) \<and> uid x = u"
proof
  assume "findById d u = Some x"
  then show "x \<in> set (users d) \<and> uid x = u"
    unfolding findById_def using first_row_in by fastforce
next
  assume x: "x \<in> set (users d) \<and> uid x = u"
  then show "findById d u = Some x"
    unfolding findById_def by (intro first_row_filter_unique [OF assms]) auto
qed

lemma findByUsername_iff:
  assumes "distinct (map username (users d))"
  shows "findByUsername d nm = Some x \<longleftrightarrow> x \<in> set (users d) \<and> username x = nm"
proof
  assume "findByUsername d nm = Some x"
  then show "x \<in> set (users d) \<and> username x = nm"
    unfolding findByUsername_def using first_row_in by fastforce
next
  assume x: "x \<in> set (users d) \<and> username x = nm"
  then show "findByUsername d nm = Some x"
    unfolding findByUsername_def by (intro first_row_filter_unique [OF assms]) auto
qed

lemma findById_None: "findById d u = None \<longleftrightarrow> u \<notin> uid ` set (users d)"
  by (auto simp: findById_def first_row_None filter_empty_conv image_iff)

lemma update_user_eq:
  "withTx (update_user u f) d =
     (Inr (), d\<lparr>users := update_where (\<lambda>x. uid x = u) (\<lambda>x. (f x)\<lparr>uupdated := datetime_now d\<rparr>) (users d)\<rparr>)"
  by (simp add: withTx_def update_user_def)

lemma deleteUser_eq:
  "deleteUser u d = (Inr (), snd (deleteUser u d))"
  by (simp add: deleteUser_def withTx_def)

text \<open>The outcomes of a creation: one of three refusals that change nothing, or the new row.\<close>

lemma createUser_cases:
  obtains "nm = [] \<or> em = [] \<or> hash = []"
      "createUser sha nm em hash adm d = (Inl (admin_error ''createUserRequiredFields'' 400), d)"
  | "nm \<in> username ` set (users d)"
      "createUser sha nm em hash adm d = (Inl (admin_error ''usernameTaken'' 409), d)"
  | "nm \<notin> username ` set (users d)" "sha (normalizeEmail em) \<in> (\<lambda>x. sha (email x)) ` set (users d)"
      "createUser sha nm em hash adm d = (Inl (auth_error ''emailTaken'' 409), d)"
  | "nm \<noteq> []" "em \<noteq> []" "hash \<noteq> []" "nm \<notin> username ` set (users d)"
      "sha (normalizeEmail em) \<notin> (\<lambda>x. sha (email x)) ` set (users d)"
      "createUser sha nm em hash adm d = (Inr (new_user d nm em hash adm),
         d\<lparr>users := users d @ [new_user d nm em hash adm], next_user := Suc (next_user d)\<rparr>)"
proof -
  have mails: "first_row (filter (same_mail sha (normalizeEmail em)) (users d)) = None \<longleftrightarrow>
      sha (normalizeEmail em) \<notin> (\<lambda>x. sha (email x)) ` set (users d)"
    by (auto simp: first_row_None filter_empty_conv same_mail_def image_iff intro: sym)
  have names: "findByUsername d nm = None \<longleftrightarrow> nm \<notin> username ` set (users d)"
    by (auto simp: findByUsername_def first_row_None filter_empty_conv)
  consider "nm = [] \<or> em = [] \<or> hash = []" | "nm \<noteq> []" "em \<noteq> []" "hash \<noteq> []" "nm \<in> username ` set (users d)"
    | "nm \<noteq> []" "em \<noteq> []" "hash \<noteq> []" "nm \<notin> username ` set (users d)"
      "sha (normalizeEmail em) \<in> (\<lambda>x. sha (email x)) ` set (users d)"
    | "nm \<noteq> []" "em \<noteq> []" "hash \<noteq> []" "nm \<notin> username ` set (users d)"
      "sha (normalizeEmail em) \<notin> (\<lambda>x. sha (email x)) ` set (users d)" by blast
  then show ?thesis
  proof cases
    case 1
    then show ?thesis by (intro that(1)) (auto simp: createUser_def service_defs)
  next
    case 2
    then have "createUser sha nm em hash adm d = (Inl (admin_error ''usernameTaken'' 409), d)"
      using names by (auto simp: createUser_def service_defs withTx_def admin_error_def split: option.splits)
    then show ?thesis using 2 that(2) by blast
  next
    case 3
    then have "createUser sha nm em hash adm d = (Inl (auth_error ''emailTaken'' 409), d)"
      using names mails by (auto simp: createUser_def service_defs withTx_def auth_error_def)
    then show ?thesis using 3 that(3) by blast
  next
    case 4
    have "\<not> list_ex (\<lambda>x. username x = nm \<or> email x = normalizeEmail em \<or> same_mail sha (normalizeEmail em) x) (users d)"
      using 4(4,5) by (auto simp: list_ex_iff same_mail_def image_iff)
    then have "createUser sha nm em hash adm d = (Inr (new_user d nm em hash adm),
         d\<lparr>users := users d @ [new_user d nm em hash adm], next_user := Suc (next_user d)\<rparr>)"
      using 4 names mails by (auto simp: createUser_def service_defs withTx_def insert_user_def new_user_def)
    then show ?thesis using 4 that(4) by blast
  qed
qed

end
