(* ===== verification/Accounts.thy ===== *)
theory Accounts
  imports Users Sharing
begin

text \<open>
  Accounts: \<open>domains/auth/service.js\<close> (registration, the login rate limit, login, refresh, logout),
  \<open>domains/auth/tokenStore.js\<close>, \<open>generateToken\<close> and \<open>authenticateToken\<close> of \<open>utils/auth.js\<close>, \<open>ensureDefaultAdmin\<close>
  of \<open>store/bootstrap.js\<close>, and \<open>admin/services/userService.js\<close>. They work on a drive together with the
  two in-memory caches: refresh tokens and failed logins. A signed token is represented by its claims.
  bcrypt, the hash of addresses, the random bytes of a refresh token and mail are fields of the
  environment, next to the configured values as \<open>parseInt\<close> and \<open>Number\<close> read them (\<open>None\<close> for \<open>NaN\<close>).
\<close>

section \<open>State and environment\<close>

record attempts =
  fcount :: nat
  reset_at :: int

record 'c accounts =
  adrive :: "'c drive"
  tokens :: "(string, nat) adapter"
  login_failures :: "(string, attempts) adapter"
  adraws :: nat

record account_env =
  cfg_rate_max :: "int option"
  cfg_rate_window :: "int option"
  cfg_refresh_days :: "int option"
  registration_enabled :: bool
  no_default_admin :: bool
  default_password :: string
  bcrypt_hash :: "nat \<Rightarrow> string \<Rightarrow> string"
  bcrypt_compare :: "string \<Rightarrow> string \<Rightarrow> bool"
  email_sha :: "string \<Rightarrow> string"
  random_hex :: "nat \<Rightarrow> string"
  send_mail :: "string \<Rightarrow> string \<Rightarrow> string \<Rightarrow> err option"

definition accounts_db :: "'c accounts \<Rightarrow> db" where
  "accounts_db s = pdb (dperm (adrive s))"

definition now_of :: "'c accounts \<Rightarrow> int" where
  "now_of s = clock (accounts_db s)"

definition on_accounts :: "('c drive, 'a) service \<Rightarrow> ('c accounts, 'a) service" where
  "on_accounts m s = (case m (adrive s) of (r, d) \<Rightarrow> (r, s\<lparr>adrive := d\<rparr>))"

definition on_users :: "(db, 'a) service \<Rightarrow> ('c accounts, 'a) service" where
  "on_users m = on_accounts (on_drive_db m)"

definition reads_users :: "(db \<Rightarrow> 'a) \<Rightarrow> ('c accounts, 'a) service" where
  "reads_users f = reads (\<lambda>s. f (accounts_db s))"

definition draw :: "(nat \<Rightarrow> 'a) \<Rightarrow> ('c accounts, 'a) service" where
  "draw f s = (Inr (f (adraws s)), s\<lparr>adraws := Suc (adraws s)\<rparr>)"

section \<open>tokenStore.js\<close>

definition refreshTokenTtlMs :: "account_env \<Rightarrow> int" where
  "refreshTokenTtlMs env =
     (case cfg_refresh_days env of None \<Rightarrow> 7 | Some raw \<Rightarrow> if raw > 0 then raw else 7) * ms_per_day"

definition refresh_key :: "string \<Rightarrow> string" where
  "refresh_key tok = ''refresh:'' @ tok"

definition generateRefreshTokenId :: "account_env \<Rightarrow> ('c accounts, string) service" where
  "generateRefreshTokenId env = draw (random_hex env)"

definition addRefreshToken :: "account_env \<Rightarrow> string \<Rightarrow> nat \<Rightarrow> ('c accounts, unit) service" where
  "addRefreshToken env tok u =
     updates (\<lambda>s. s\<lparr>tokens := cache_set (now_of s) (refresh_key tok) u (Some (refreshTokenTtlMs env)) (tokens s)\<rparr>)"

definition deleteRefreshToken :: "string \<Rightarrow> ('c accounts, unit) service" where
  "deleteRefreshToken tok = updates (\<lambda>s. s\<lparr>tokens := snd (cache_delete (refresh_key tok) (tokens s))\<rparr>)"

definition validateRefreshToken :: "string \<Rightarrow> ('c accounts, user option) service" where
  "validateRefreshToken tok s =
     (if tok = [] then (Inr None, s)
      else (case cache_get (now_of s) (refresh_key tok) (tokens s) of
              (None, c) \<Rightarrow> (Inr None, s\<lparr>tokens := c\<rparr>)
            | (Some u, c) \<Rightarrow>
                (case findById (accounts_db s) u of
                   Some x \<Rightarrow> (Inr (Some x), s\<lparr>tokens := c\<rparr>)
                 | None \<Rightarrow> (Inr None, s\<lparr>tokens := snd (cache_delete (refresh_key tok) c)\<rparr>))))"

definition deleteAllRefreshTokensForUser :: "nat \<Rightarrow> ('c accounts, unit) service" where
  "deleteAllRefreshTokensForUser u =
     updates (\<lambda>s. case cache_entries (now_of s) (tokens s) of (es, c) \<Rightarrow>
       s\<lparr>tokens := foldl (\<lambda>c (k, v). if starts_with k ''refresh:'' \<and> v = u then snd (cache_delete k c) else c) c es\<rparr>)"

section \<open>Tokens\<close>

definition generateToken :: "user \<Rightarrow> jwt_claims" where
  "generateToken x =
     \<lparr>jc_id = uid x, jc_username = username x, jc_token_version = token_version x, jc_is_admin = is_admin x\<rparr>"

definition authenticateToken :: "(string \<Rightarrow> jwt_claims option) \<Rightarrow> string option \<Rightarrow> nat \<times> string + jwt_claims" where
  "authenticateToken verifyToken authHeader =
     (case bearer authHeader of
        None \<Rightarrow> Inl (401, ''serverErrors.utilsAuth.accessTokenRequired'')
      | Some t \<Rightarrow> (case verifyToken t of
            None \<Rightarrow> Inl (403, ''serverErrors.utilsAuth.invalidOrExpiredToken'')
          | Some claims \<Rightarrow> Inr claims))"

section \<open>The login rate limit\<close>

definition rate_max :: "account_env \<Rightarrow> int" where
  "rate_max env = (case cfg_rate_max env of None \<Rightarrow> 20 | Some n \<Rightarrow> if n = 0 then 20 else n)"

definition rate_window :: "account_env \<Rightarrow> int" where
  "rate_window env = (case cfg_rate_window env of None \<Rightarrow> 900000 | Some n \<Rightarrow> if n = 0 then 900000 else n)"

text \<open>\<open>x-forwarded-for\<close> comes first, its first entry.\<close>

definition getClientIp :: "string option \<Rightarrow> string \<Rightarrow> string" where
  "getClientIp xff ip =
     (case xff of
        Some h \<Rightarrow> if trim h \<noteq> [] then trim (hd (split_on (CHR '','') h)) else ip
      | None \<Rightarrow> ip)"

definition rate_key :: "string \<Rightarrow> string" where
  "rate_key key = ''ratelimit:'' @ key"

text \<open>The answer is \<open>retryAfterMs\<close> of a refused attempt.\<close>

definition checkLoginRateLimit :: "account_env \<Rightarrow> string \<Rightarrow> ('c accounts, int option) service" where
  "checkLoginRateLimit env key s =
     (case cache_get (now_of s) (rate_key key) (login_failures s) of (entry, c) \<Rightarrow>
        (Inr (case entry of
            None \<Rightarrow> None
          | Some e \<Rightarrow> if now_of s > reset_at e then None
              else if int (fcount e) \<ge> rate_max env then Some (reset_at e - now_of s) else None),
         s\<lparr>login_failures := c\<rparr>))"

definition recordLoginFailure :: "account_env \<Rightarrow> string \<Rightarrow> ('c accounts, unit) service" where
  "recordLoginFailure env key =
     updates (\<lambda>s. let now = now_of s; k = rate_key key in
       (case cache_get now k (login_failures s) of (entry, c) \<Rightarrow>
          s\<lparr>login_failures :=
            (case entry of
               None \<Rightarrow> cache_set now k \<lparr>fcount = 1, reset_at = now + rate_window env\<rparr> (Some (rate_window env)) c
             | Some e \<Rightarrow>
                 if now > reset_at e
                 then cache_set now k \<lparr>fcount = 1, reset_at = now + rate_window env\<rparr> (Some (rate_window env)) c
                 else cache_set now k \<lparr>fcount = fcount e + 1, reset_at = reset_at e\<rparr> (Some (reset_at e - now)) c)\<rparr>))"

definition clearLoginFailures :: "string \<Rightarrow> ('c accounts, unit) service" where
  "clearLoginFailures key = updates (\<lambda>s. s\<lparr>login_failures := snd (cache_delete (rate_key key) (login_failures s))\<rparr>)"

section \<open>auth/service.js\<close>

definition resolveUserRootNodeId :: "db \<Rightarrow> nat \<Rightarrow> nat option" where
  "resolveUserRootNodeId d u = map_option v_id (getUserRootNode d u)"

text \<open>\<open>User.create\<close>: the hash is drawn, then the row inserted.\<close>

definition User_create :: "account_env \<Rightarrow> string \<Rightarrow> string \<Rightarrow> string \<Rightarrow> bool \<Rightarrow> ('c accounts, user) service" where
  "User_create env nm em pw isAdmin =
     seqs (draw (\<lambda>n. bcrypt_hash env n pw)) (\<lambda>hash. on_users (createUser (email_sha env) nm em hash isAdmin))"

definition ensureDefaultAdmin :: "account_env \<Rightarrow> ('c accounts, user option) service" where
  "ensureDefaultAdmin env =
     (if no_default_admin env then ret None
      else seqs (reads_users (\<lambda>d. findByUsername d ''admin'')) (\<lambda>existing.
        if existing \<noteq> None then ret None
        else seqs (User_create env ''admin'' ''admin@webdav.local''
               (if default_password env = [] then ''admin'' else default_password env) True)
             (\<lambda>x. ret (Some x))))"

text \<open>The answer: the new row and the id of its home node, if there is one.\<close>

definition registerUser :: "account_env \<Rightarrow> string \<Rightarrow> string \<Rightarrow> string \<Rightarrow> ('c accounts, user \<times> nat option) service" where
  "registerUser env nm em pw =
     seqs (guard (registration_enabled env) (auth_error ''registrationDisabled'' 403)) (\<lambda>_.
     seqs (guard (nm \<noteq> [] \<and> em \<noteq> [] \<and> pw \<noteq> []) (auth_error ''requiredFields'' 400)) (\<lambda>_.
     seqs (reads_users (\<lambda>d. findByUsername d nm)) (\<lambda>existing.
     seqs (guard (existing = None) (auth_error ''usernameTaken'' 400)) (\<lambda>_.
     seqs (reads_users (\<lambda>d. findByEmail (email_sha env) d em)) (\<lambda>existing.
     seqs (guard (existing = None) (auth_error ''emailTaken'' 400)) (\<lambda>_.
     seqs (User_create env nm em pw False) (\<lambda>created.
       (case send_mail env ''registrationPending'' em nm of
          Some _ \<Rightarrow> seqs (on_users (deleteUser (uid created))) (\<lambda>_. throw (auth_error ''emailSendFail'' 500))
        | None \<Rightarrow> seqs (reads_users (\<lambda>d. resolveUserRootNodeId d (uid created))) (\<lambda>root.
                  ret (created, root))))))))))"

record login_answer =
  access_token :: jwt_claims
  refresh_token :: string
  login_user :: user
  login_root :: "nat option"

definition refuse_login :: "account_env \<Rightarrow> string \<Rightarrow> err \<Rightarrow> ('c accounts, 'a) service" where
  "refuse_login env key e = seqs (recordLoginFailure env key) (\<lambda>_. throw e)"

definition issue_tokens :: "account_env \<Rightarrow> string \<Rightarrow> user \<Rightarrow> ('c accounts, login_answer) service" where
  "issue_tokens env key x =
     seqs (generateRefreshTokenId env) (\<lambda>tok.
     seqs (addRefreshToken env tok (uid x)) (\<lambda>_.
     seqs (clearLoginFailures key) (\<lambda>_.
     seqs (reads_users (\<lambda>d. resolveUserRootNodeId d (uid x))) (\<lambda>root.
       ret \<lparr>access_token = generateToken x, refresh_token = tok, login_user = x, login_root = root\<rparr>))))"

definition loginUser :: "account_env \<Rightarrow> string \<Rightarrow> string \<Rightarrow> string \<Rightarrow> ('c accounts, login_answer) service" where
  "loginUser env key nm pw =
     seqs (guard (nm \<noteq> [] \<and> pw \<noteq> []) (auth_error ''loginRequiredFields'' 400)) (\<lambda>_.
     seqs (checkLoginRateLimit env key) (\<lambda>limit.
     seqs (guard (limit = None) (auth_error ''loginRateLimit'' 429)) (\<lambda>_.
     seqs (if nm = ''admin''
           then seqs (reads_users (\<lambda>d. findByUsername d ''admin'')) (\<lambda>adminExists.
                  if adminExists \<noteq> None then ret ()
                  else catching (seqs (ensureDefaultAdmin env) (\<lambda>_. ret ())) (\<lambda>_. ret ()))
           else ret ()) (\<lambda>_.
     seqs (reads_users (\<lambda>d. findByUsername d nm)) (\<lambda>user.
       (case user of
          None \<Rightarrow> refuse_login env key (auth_error ''invalidCredentials'' 401)
        | Some x \<Rightarrow>
            if \<not> bcrypt_compare env pw (password x)
            then refuse_login env key (auth_error ''invalidCredentials'' 401)
            else (case ustatus x of
                User_pending \<Rightarrow> refuse_login env key (auth_error ''pendingApproval'' 403)
              | User_rejected \<Rightarrow> refuse_login env key (auth_error ''rejected'' 403)
              | User_approved \<Rightarrow> issue_tokens env key x)))))))"

text \<open>
  \<open>refreshAccessToken\<close> waits once, for the user's row: \<open>validateRefreshToken\<close> runs before, the rotation
  after. Other requests run between the two.
\<close>

definition rotate_token :: "account_env \<Rightarrow> string \<Rightarrow> user option \<Rightarrow> ('c accounts, jwt_claims \<times> string) service" where
  "rotate_token env tok found =
     (case found of
        None \<Rightarrow> throw (auth_error ''refreshTokenInvalid'' 401)
      | Some x \<Rightarrow>
          seqs (deleteRefreshToken tok) (\<lambda>_.
          seqs (generateRefreshTokenId env) (\<lambda>next_tok.
          seqs (addRefreshToken env next_tok (uid x)) (\<lambda>_.
          ret (generateToken x, next_tok)))))"

definition refreshAccessToken :: "account_env \<Rightarrow> string \<Rightarrow> ('c accounts, jwt_claims \<times> string) service" where
  "refreshAccessToken env tok = seqs (validateRefreshToken tok) (rotate_token env tok)"

definition logout :: "string option \<Rightarrow> ('c accounts, unit) service" where
  "logout tok = (if tok \<noteq> None \<and> tok \<noteq> Some [] then deleteRefreshToken (the tok) else ret ())"

definition getAuthenticatedUser :: "nat \<Rightarrow> nat option \<Rightarrow> ('c accounts, user \<times> nat option) service" where
  "getAuthenticatedUser u tokenVersion =
     seqs (reads_users (\<lambda>d. findById d u)) (\<lambda>user.
       (case user of
          None \<Rightarrow> throw (auth_error ''userNotFound'' 404)
        | Some x \<Rightarrow>
            seqs (guard (tokenVersion = None \<or> tokenVersion = Some (token_version x))
                   (Err ''serverErrors.utilsAuth.invalidOrExpiredToken'' 401)) (\<lambda>_.
            seqs (reads_users (\<lambda>d. resolveUserRootNodeId d u)) (\<lambda>root. ret (x, root)))))"

definition revokeAllUserTokens :: "nat \<Rightarrow> ('c accounts, unit) service" where
  "revokeAllUserTokens = deleteAllRefreshTokensForUser"

section \<open>admin/services/userService.js\<close>

definition ensureUserHomeNode :: "'c site \<Rightarrow> string \<Rightarrow> ('c drive, nat option) service" where
  "ensureUserHomeNode site nm =
     seqs (reads_db (\<lambda>d. resolvePath d (CHR ''/'' # nm))) (\<lambda>found.
     seqs (case found of
             Some v \<Rightarrow> ret v
           | None \<Rightarrow> on_drive_db (createDirectory None nm)) (\<lambda>node.
     seqs (on_vault (createDirectoryWebdav site (v_id node))) (\<lambda>_. ret (Some (v_id node)))))"

text \<open>The home node, the grant on it and the check of the grant, which both creating operations make.\<close>

definition give_home :: "'c site \<Rightarrow> nat \<Rightarrow> string \<Rightarrow> err \<Rightarrow> err \<Rightarrow> ('c accounts, unit) service" where
  "give_home site u nm no_folder no_permission =
     seqs (on_accounts (ensureUserHomeNode site nm)) (\<lambda>home.
       (case home of
          None \<Rightarrow> throw no_folder
        | Some h \<Rightarrow>
            seqs (on_accounts (on_perm (grant_path u h Admin))) (\<lambda>_.
            seqs (reads_users (\<lambda>d. checkPathPermission d u h ''admin'')) (\<lambda>hasPermission.
              guard hasPermission no_permission))))"

definition createAdminUser :: "account_env \<Rightarrow> 'c site \<Rightarrow> string \<Rightarrow> string \<Rightarrow> string \<Rightarrow> ('c accounts, user) service" where
  "createAdminUser env site nm em pw =
     seqs (guard (nm \<noteq> [] \<and> em \<noteq> [] \<and> pw \<noteq> []) (admin_error ''createUserRequiredFields'' 400)) (\<lambda>_.
     seqs (guard (length pw \<ge> 6) (admin_error ''passwordMinLength'' 400)) (\<lambda>_.
     seqs (reads_users (\<lambda>d. findByUsername d nm)) (\<lambda>existing.
     seqs (guard (existing = None) (admin_error ''usernameTaken'' 400)) (\<lambda>_.
     seqs (reads_users (\<lambda>d. findByEmail (email_sha env) d em)) (\<lambda>existing.
     seqs (guard (existing = None) (admin_error ''emailTaken'' 400)) (\<lambda>_.
     seqs (User_create env nm em pw False) (\<lambda>created.
     seqs (on_users (updateStatus (uid created) User_approved)) (\<lambda>_.
     seqs (catching
            (give_home site (uid created) nm (admin_error ''userFolderFail'' 500) (admin_error ''userPermissionFail'' 500))
            (\<lambda>_. seqs (on_users (deleteUser (uid created))) (\<lambda>_. throw (admin_error ''userPermissionFail'' 500)))) (\<lambda>_.
       ret (created\<lparr>ustatus := User_approved\<rparr>))))))))))"

definition approvePendingUser :: "'c site \<Rightarrow> nat \<Rightarrow> ('c accounts, user) service" where
  "approvePendingUser site u =
     seqs (reads_users (\<lambda>d. findById d u)) (\<lambda>user.
       (case user of
          None \<Rightarrow> throw (admin_error ''userNotFound'' 404)
        | Some x \<Rightarrow>
            seqs (guard (ustatus x = User_pending) (admin_error ''notPending'' 400)) (\<lambda>_.
            seqs (on_users (updateStatus u User_approved)) (\<lambda>_.
            seqs (catching
                   (give_home site u (username x) (admin_error ''approveFolderFail'' 500)
                      (admin_error ''approvePermissionFail'' 500))
                   (\<lambda>_. seqs (on_users (updateStatus u User_pending))
                          (\<lambda>_. throw (admin_error ''approvePermissionFail'' 500)))) (\<lambda>_.
              ret (x\<lparr>ustatus := User_approved\<rparr>))))))"

text \<open>\<open>deleteUserPermissionsFile\<close> deletes the same rows as \<open>revokeAllUserPermissions\<close>.\<close>

definition deleteUserPermissionsFile :: "nat \<Rightarrow> (perm_state, unit) service" where
  "deleteUserPermissionsFile u =
     seqs (lift_db (deleteAllUserPermissions u)) (\<lambda>_.
     seqs (updates (drop_user u)) (\<lambda>_. updates (invalidate (Inr ''/''))))"

text \<open>What a rejected or deleted account leaves: its requests go, those to it are rejected, its grants go.\<close>

definition withdraw_user :: "nat \<Rightarrow> nat \<Rightarrow> ('c accounts, unit) service" where
  "withdraw_user u adminId =
     seqs (on_users (deleteByRequesterId u)) (\<lambda>_.
     seqs (on_users (rejectPendingByOwnerId u (Some adminId))) (\<lambda>_.
     seqs (on_accounts (on_perm (revokeAllUserPermissions u))) (\<lambda>_.
       on_accounts (on_perm (deleteUserPermissionsFile u)))))"

definition rejectPendingUser :: "nat \<Rightarrow> nat \<Rightarrow> ('c accounts, user) service" where
  "rejectPendingUser u adminId =
     seqs (reads_users (\<lambda>d. findById d u)) (\<lambda>user.
       (case user of
          None \<Rightarrow> throw (admin_error ''rejectNotFound'' 404)
        | Some x \<Rightarrow>
            seqs (guard (ustatus x = User_pending) (admin_error ''notPendingReject'' 400)) (\<lambda>_.
            seqs (withdraw_user u adminId) (\<lambda>_.
            seqs (on_users (updateStatus u User_rejected)) (\<lambda>_. ret x)))))"

definition deleteUserCascade :: "nat \<Rightarrow> nat \<Rightarrow> ('c accounts, user) service" where
  "deleteUserCascade u adminId =
     seqs (guard (u \<noteq> adminId) (admin_error ''deleteSelf'' 400)) (\<lambda>_.
     seqs (reads_users (\<lambda>d. findById d u)) (\<lambda>user.
       (case user of
          None \<Rightarrow> throw (admin_error ''deleteNotFound'' 404)
        | Some x \<Rightarrow>
            seqs (guard (\<not> is_admin x) (admin_error ''deleteOtherAdmin'' 400)) (\<lambda>_.
            seqs (withdraw_user u adminId) (\<lambda>_.
            seqs (on_users (deleteUser u)) (\<lambda>_. ret x))))))"

definition listUsers :: "db \<Rightarrow> (nat \<times> string \<times> string \<times> int) list" where
  "listUsers d = map (\<lambda>x. (uid x, username x, email x, ucreated x)) (findAll d)"

text \<open>\<open>collate\<close> is the sort key of \<open>localeCompare\<close>.\<close>

definition listApprovedUsers :: "(string \<Rightarrow> 'k::linorder) \<Rightarrow> db \<Rightarrow> nat \<Rightarrow> (nat \<times> string \<times> string) list" where
  "listApprovedUsers collate d requesterId =
     filter (\<lambda>(u, _). u \<noteq> requesterId)
       (sort_key (\<lambda>(_, nm, _). collate nm)
         (map (\<lambda>x. (uid x, username x, email x))
           (filter (\<lambda>x. \<not> is_admin x) (findByStatus d User_approved))))"

definition getUserById :: "db \<Rightarrow> nat \<Rightarrow> err + user" where
  "getUserById d u =
     (case findById d u of None \<Rightarrow> Inl (auth_error ''userNotFound'' 404) | Some x \<Rightarrow> Inr x)"

definition updatePassword :: "account_env \<Rightarrow> nat \<Rightarrow> string \<Rightarrow> ('c accounts, unit) service" where
  "updatePassword env u pw =
     seqs (draw (\<lambda>n. bcrypt_hash env n pw)) (\<lambda>hash.
     seqs (on_users (updatePasswordHash u hash)) (\<lambda>_. revokeAllUserTokens u))"

definition changeEmail :: "account_env \<Rightarrow> nat \<Rightarrow> string \<Rightarrow> ('c accounts, unit) service" where
  "changeEmail env u newEmail =
     seqs (reads_users (\<lambda>d. findByEmail (email_sha env) d newEmail)) (\<lambda>existing.
     seqs (guard (existing = None \<or> uid (the existing) = u) (auth_error ''emailTaken'' 409)) (\<lambda>_.
       on_users (updateEmail (email_sha env) u newEmail)))"

end
