(* ===== verification/AccountLaws.thy ===== *)
theory AccountLaws
  imports Accounts SharingLaws
begin

text \<open>
  The laws of the accounts. What every service keeps of a reflexive and transitive relation between
  its states is proved compositionally, in the locale \<open>state_order\<close>, and used for three relations: how
  the user table moves, how the token cache moves, and what stays of the rate limits.
\<close>

section \<open>Services that stay within a relation\<close>

locale state_order =
  fixes ord :: "'s \<Rightarrow> 's \<Rightarrow> bool"
  assumes ord_refl: "ord s s"
    and ord_trans: "ord s t \<Longrightarrow> ord t u \<Longrightarrow> ord s u"
begin

definition keeps :: "('s, 'a) service \<Rightarrow> bool" where
  "keeps m \<longleftrightarrow> (\<forall>s. ord s (snd (m s)))"

lemma keepsI: "(\<And>s. ord s (snd (m s))) \<Longrightarrow> keeps m"
  by (simp add: keeps_def)

lemma keepsD: "keeps m \<Longrightarrow> ord s (snd (m s))"
  by (simp add: keeps_def)

lemma keeps_ret: "keeps (ret x)"
  by (simp add: keeps_def ret_def ord_refl)

lemma keeps_throw: "keeps (throw e)"
  by (simp add: keeps_def throw_def ord_refl)

lemma keeps_guard: "keeps (guard b e)"
  by (simp add: keeps_def guard_def ord_refl)

lemma keeps_reads: "keeps (reads f)"
  by (simp add: keeps_def reads_def ord_refl)

lemma keeps_updates: "(\<And>s. ord s (f s)) \<Longrightarrow> keeps (updates f)"
  by (simp add: keeps_def updates_def)

lemma keeps_seqs:
  assumes "keeps m" "\<And>x. keeps (f x)"
  shows "keeps (seqs m f)"
proof (rule keepsI)
  fix s
  obtain r t where m: "m s = (r, t)" by fastforce
  have "ord s t" using keepsD [OF assms(1), of s] m by simp
  moreover have "ord t (snd (f x t))" for x by (rule keepsD [OF assms(2)])
  ultimately show "ord s (snd (seqs m f s))"
    using ord_trans by (cases r) (auto simp: seqs_def m)
qed

lemma keeps_catching:
  assumes "keeps m" "\<And>e. keeps (h e)"
  shows "keeps (catching m h)"
proof (rule keepsI)
  fix s
  obtain r t where m: "m s = (r, t)" by fastforce
  have "ord s t" using keepsD [OF assms(1), of s] m by simp
  moreover have "ord t (snd (h e t))" for e by (rule keepsD [OF assms(2)])
  ultimately show "ord s (snd (catching m h s))"
    using ord_trans by (cases r) (auto simp: catching_def m)
qed

lemma keeps_withTx:
  assumes "keeps m"
  shows "keeps (withTx m)"
proof (rule keepsI)
  fix s
  obtain r t where m: "m s = (r, t)" by fastforce
  show "ord s (snd (withTx m s))"
    using keepsD [OF assms, of s] ord_refl by (cases r) (auto simp: withTx_def m)
qed

lemmas keeps_rules = keeps_ret keeps_throw keeps_guard keeps_reads keeps_seqs keeps_catching keeps_withTx

end

section \<open>How the user table moves\<close>

text \<open>Time goes on, ids come from the sequence and never come back.\<close>

definition users_follow :: "db \<Rightarrow> db \<Rightarrow> bool" where
  "users_follow d d' \<longleftrightarrow> clock d \<le> clock d' \<and> next_user d \<le> next_user d' \<and>
     (\<forall>x \<in> set (users d'). uid x \<in> uid ` set (users d) \<or> next_user d \<le> uid x \<and> uid x < next_user d')"

interpretation uf: state_order users_follow
proof
  show "users_follow s s" for s by (auto simp: users_follow_def)
  show "users_follow s u" if "users_follow s t" "users_follow t u" for s t u
  proof -
    have le: "next_user s \<le> next_user t" "next_user t \<le> next_user u" using that by (simp_all add: users_follow_def)
    have "uid x \<in> uid ` set (users s) \<or> next_user s \<le> uid x \<and> uid x < next_user u" if x: "x \<in> set (users u)" for x
    proof (cases "uid x \<in> uid ` set (users t)")
      case True
      then obtain y where "y \<in> set (users t)" "uid y = uid x" by force
      then have "uid y \<in> uid ` set (users s) \<or> next_user s \<le> uid y \<and> uid y < next_user t"
        using \<open>users_follow s t\<close> unfolding users_follow_def by blast
      then show ?thesis using \<open>uid y = uid x\<close> le by auto
    next
      case False
      then show ?thesis using le x \<open>users_follow t u\<close> unfolding users_follow_def by fastforce
    qed
    then show ?thesis using that le unfolding users_follow_def by (meson order_trans)
  qed
qed

lemma same_users_follow:
  "users d' = users d \<Longrightarrow> next_user d' = next_user d \<Longrightarrow> clock d' = clock d \<Longrightarrow> users_follow d d'"
  by (auto simp: users_follow_def)

lemma update_user_follow: "(\<And>x. uid (f x) = uid x) \<Longrightarrow> uf.keeps (withTx (update_user u f))"
  by (rule uf.keepsI) (auto simp: update_user_eq users_follow_def set_update_where)

lemma createUser_follow: "uf.keeps (createUser sha nm em hash adm)"
proof (rule uf.keepsI)
  fix d show "users_follow d (snd (createUser sha nm em hash adm d))"
    by (rule createUser_cases [of nm em hash sha adm d]) (auto simp: users_follow_def new_user_def)
qed

lemma user_ops_follow:
  "uf.keeps (updateStatus u st)" "uf.keeps (updatePasswordHash u hash)" "uf.keeps (deleteUser u)"
  "uf.keeps (updateEmail sha u em)" "uf.keeps (deleteByRequesterId u)" "uf.keeps (rejectPendingByOwnerId u by_admin)"
proof -
  show "uf.keeps (updateStatus u st)" unfolding updateStatus_def by (rule update_user_follow) simp
  show "uf.keeps (updatePasswordHash u hash)" unfolding updatePasswordHash_def by (rule update_user_follow) simp
  show "uf.keeps (deleteUser u)"
    by (rule uf.keepsI) (auto simp: deleteUser_def withTx_def users_follow_def)
  show "uf.keeps (deleteByRequesterId u)" "uf.keeps (rejectPendingByOwnerId u by_admin)"
    by (rule uf.keepsI, rule same_users_follow; simp add: deleteByRequesterId_def rejectPendingByOwnerId_def)+
  have "uf.keeps (update_user u (email_update (\<lambda>_. em)))" for em
    by (rule uf.keepsI) (auto simp: update_user_def users_follow_def set_update_where)
  then show "uf.keeps (updateEmail sha u em)"
    unfolding updateEmail_def Let_def by (intro uf.keeps_rules)
qed

text \<open>What only touches nodes: everything about people stays.\<close>

definition people_same :: "db \<Rightarrow> db \<Rightarrow> bool" where
  "people_same d d' \<longleftrightarrow> users d' = users d \<and> next_user d' = next_user d \<and> clock d' = clock d \<and>
     user_paths d' = user_paths d \<and> user_files d' = user_files d \<and> share_links d' = share_links d \<and>
     perm_shares d' = perm_shares d \<and> requests d' = requests d \<and> next_request d' = next_request d"

interpretation ps: state_order people_same
  by unfold_locales (auto simp: people_same_def)

lemma people_same_follow: "ps.keeps m \<Longrightarrow> uf.keeps m"
  unfolding ps.keeps_def uf.keeps_def by (auto simp: people_same_def intro: same_users_follow)

lemma insertAncestorRows_people: "ps.keeps (insertAncestorRows rs n)"
proof (rule ps.keepsI)
  fix d show "people_same d (snd (insertAncestorRows rs n d))"
  proof (induction rs n d rule: insertAncestorRows.induct)
    case (2 r rs n d)
    have "people_same d (d\<lparr>node_ancestors := node_ancestors d @ [r]\<rparr>)" by (simp add: people_same_def)
    then show ?case using 2 ps.ord_trans ps.ord_refl by auto
  qed (simp add: ps.ord_refl)
qed

lemma node_ops_people:
  "ps.keeps (createDirectory p nm)" "ps.keeps (updateSyncStatus i st)"
proof -
  have "ps.keeps (createNode p nm ty)" for ty
    by (rule ps.keepsI) (simp add: createNode_def people_same_def Let_def)
  moreover have "ps.keeps (buildAncestorsForNode i p)" for i
    unfolding buildAncestorsForNode_def
    by (cases p) (auto intro!: ps.keeps_rules insertAncestorRows_people)
  ultimately show "ps.keeps (createDirectory p nm)"
    unfolding createDirectory_def by (intro ps.keeps_rules)
  have "ps.keeps (repo_updateSyncStatus i st)"
    by (rule ps.keepsI) (simp add: repo_updateSyncStatus_def people_same_def)
  then show "ps.keeps (updateSyncStatus i st)"
    unfolding updateSyncStatus_def by (intro ps.keeps_rules)
qed

text \<open>Services over the blob store, and over the drive.\<close>

definition drive_people :: "'c drive \<Rightarrow> 'c drive \<Rightarrow> bool" where
  "drive_people s t \<longleftrightarrow> people_same (drive_db s) (drive_db t)"

interpretation dp: state_order drive_people
  unfolding drive_people_def by unfold_locales (auto simp: people_same_def)

definition vault_people :: "'c vault \<Rightarrow> 'c vault \<Rightarrow> bool" where
  "vault_people v w \<longleftrightarrow> people_same (vdb v) (vdb w)"

interpretation vp: state_order vault_people
  unfolding vault_people_def by unfold_locales (auto simp: people_same_def)

lemma on_db_people: "ps.keeps m \<Longrightarrow> vp.keeps (on_db m)"
  unfolding ps.keeps_def vp.keeps_def by (auto simp: vault_people_def on_db_def split: prod.splits) (metis snd_conv)

lemma on_store_people: "vp.keeps (on_store m)"
  unfolding vp.keeps_def by (auto simp: vault_people_def on_store_def people_same_def split: prod.splits)

lemma on_vault_people: "vp.keeps m \<Longrightarrow> dp.keeps (on_vault m)"
proof (rule dp.keepsI)
  fix s :: "'a drive" assume "vp.keeps m"
  then have "vault_people (vault_of s) (snd (m (vault_of s)))" by (rule vp.keepsD)
  then show "drive_people s (snd (on_vault m s))"
    by (cases "m (vault_of s)")
       (simp add: drive_people_def vault_people_def on_vault_def drive_db_def vault_of_def)
qed

lemma on_drive_db_people: "ps.keeps m \<Longrightarrow> dp.keeps (on_drive_db m)"
  unfolding ps.keeps_def dp.keeps_def
  by (auto simp: drive_people_def on_drive_db_def drive_db_def split: prod.splits) (metis snd_conv)

lemma createDirectoryWebdav_people: "vp.keeps (createDirectoryWebdav site i)"
proof -
  show ?thesis
    unfolding createDirectoryWebdav_def
    by (auto intro!: vp.keeps_rules on_store_people on_db_people node_ops_people split: option.splits)
qed

lemma ensureUserHomeNode_people: "dp.keeps (ensureUserHomeNode site nm)"
  unfolding ensureUserHomeNode_def reads_db_def
  by (intro dp.keeps_rules on_vault_people createDirectoryWebdav_people)
     (auto intro!: dp.keeps_rules on_drive_db_people node_ops_people split: option.splits)

section \<open>How the accounts move\<close>

text \<open>
  The user table follows, and a refresh token is either one that was there before or drawn since. The
  keys of the cache are those of a map.
\<close>

definition tokens_from :: "account_env \<Rightarrow> 'c accounts \<Rightarrow> 'c accounts \<Rightarrow> bool" where
  "tokens_from env s t \<longleftrightarrow> distinct (map fst (tokens t)) \<and>
     (\<forall>k e. map_of (tokens t) k = Some e \<longrightarrow> map_of (tokens s) k = Some e \<or>
        k \<in> (\<lambda>n. refresh_key (random_hex env n)) ` {adraws s ..< adraws t})"

definition follows :: "account_env \<Rightarrow> 'c accounts \<Rightarrow> 'c accounts \<Rightarrow> bool" where
  "follows env s t \<longleftrightarrow> users_follow (accounts_db s) (accounts_db t) \<and> adraws s \<le> adraws t \<and>
     (distinct (map fst (tokens s)) \<longrightarrow> tokens_from env s t)"

interpretation fl: state_order "follows env" for env
proof
  show "follows env s s" for s :: "'a accounts" by (simp add: follows_def tokens_from_def uf.ord_refl)
  show "follows env s u" if f: "follows env s t" "follows env t u" for s t u :: "'a accounts"
  proof -
    have le: "adraws s \<le> adraws t" "adraws t \<le> adraws u" using f by (simp_all add: follows_def)
    have "tokens_from env s u" if "distinct (map fst (tokens s))"
    proof -
      have st: "tokens_from env s t" and tu: "tokens_from env t u"
        using f that by (auto simp: follows_def tokens_from_def)
      have "map_of (tokens s) k = Some e \<or> k \<in> (\<lambda>n. refresh_key (random_hex env n)) ` {adraws s ..< adraws u}"
        if "map_of (tokens u) k = Some e" for k e
      proof (cases "map_of (tokens t) k = Some e")
        case True
        then show ?thesis using st le by (fastforce simp: tokens_from_def)
      next
        case False
        then show ?thesis using tu that le by (fastforce simp: tokens_from_def)
      qed
      then show ?thesis using tu by (simp add: tokens_from_def)
    qed
    then show ?thesis using f uf.ord_trans unfolding follows_def by (meson order_trans)
  qed
qed

lemma accounts_parts [simp]:
  "accounts_db (s\<lparr>tokens := c\<rparr>) = accounts_db s" "accounts_db (s\<lparr>login_failures := f\<rparr>) = accounts_db s"
  "accounts_db (s\<lparr>adraws := n\<rparr>) = accounts_db s" "accounts_db (s\<lparr>adrive := d\<rparr>) = drive_db d"
  "now_of (s\<lparr>tokens := c\<rparr>) = now_of s" "now_of (s\<lparr>login_failures := f\<rparr>) = now_of s" "now_of (s\<lparr>adraws := n\<rparr>) = now_of s"
  by (simp_all add: accounts_db_def now_of_def drive_db_def)

lemma drive_db_adrive: "drive_db (adrive s) = accounts_db s"
  by (simp add: accounts_db_def drive_db_def)

lemma on_users_eq:
  "on_users m s = (case m (accounts_db s) of (r, d) \<Rightarrow> (r, s\<lparr>adrive := with_db (adrive s) d\<rparr>))"
  by (cases "m (accounts_db s)") (simp add: on_users_def on_accounts_def on_drive_db_eq drive_db_adrive)

lemma on_users_follow: "uf.keeps m \<Longrightarrow> fl.keeps env (on_users m)"
proof (rule fl.keepsI)
  fix s assume "uf.keeps m"
  then have "users_follow (accounts_db s) (snd (m (accounts_db s)))" by (rule uf.keepsD)
  then show "follows env s (snd (on_users m s))"
    by (cases "m (accounts_db s)")
       (simp add: follows_def tokens_from_def on_users_eq)
qed

lemma on_accounts_follow:
  assumes "\<And>d. users_follow (drive_db d) (drive_db (snd (m d)))"
  shows "fl.keeps env (on_accounts m)"
proof (rule fl.keepsI)
  fix s
  show "follows env s (snd (on_accounts m s))"
    using assms [of "adrive s"]
    by (cases "m (adrive s)") (auto simp: follows_def tokens_from_def on_accounts_def drive_db_adrive)
qed

lemma on_people_follow: "dp.keeps m \<Longrightarrow> fl.keeps env (on_accounts m)"
proof (rule on_accounts_follow)
  fix d assume "dp.keeps m"
  then have "people_same (drive_db d) (drive_db (snd (m d)))"
    unfolding dp.keeps_def drive_people_def by blast
  then show "users_follow (drive_db d) (drive_db (snd (m d)))"
    by (simp add: people_same_def same_users_follow)
qed

lemma on_perm_follow:
  assumes "\<And>s. users_follow (pdb s) (pdb (snd (m s)))"
  shows "fl.keeps env (on_accounts (on_perm m))"
proof (rule on_accounts_follow)
  fix d
  show "users_follow (drive_db d) (drive_db (snd (on_perm m d)))"
    using assms [of "dperm d"] by (cases "m (dperm d)") (simp add: on_perm_def drive_db_def)
qed

lemma perm_ops_follow:
  "fl.keeps env (on_accounts (on_perm (grant_path u n p)))"
  "fl.keeps env (on_accounts (on_perm (revokeAllUserPermissions u)))"
  "fl.keeps env (on_accounts (on_perm (deleteUserPermissionsFile u)))"
  by (rule on_perm_follow, rule same_users_follow;
      auto simp: store_defs deleteUserPermissionsFile_def repo_write_defs drop_user_def invalidate_def)+

lemma draw_follow: "fl.keeps env (draw f)"
  by (rule fl.keepsI) (auto simp: draw_def follows_def tokens_from_def uf.ord_refl)

lemma reads_users_follow: "fl.keeps env (reads_users f)"
  unfolding reads_users_def by (rule fl.keeps_reads)

lemma fewer_tokens_follow:
  assumes "distinct (map fst (tokens s)) \<Longrightarrow> distinct (map fst c)"
    and "\<And>k e. distinct (map fst (tokens s)) \<Longrightarrow> map_of c k = Some e \<Longrightarrow> map_of (tokens s) k = Some e"
  shows "follows env s (s\<lparr>tokens := c\<rparr>)"
  using assms by (simp add: follows_def tokens_from_def uf.ord_refl)

lemma failures_follow: "fl.keeps env (updates (\<lambda>s. s\<lparr>login_failures := f s\<rparr>))"
  by (rule fl.keepsI) (simp add: updates_def follows_def tokens_from_def uf.ord_refl)

lemma map_of_delete_foldl:
  "map_of (foldl (\<lambda>c (k, v). if P k v then snd (cache_delete k c) else c) c es) k =
     (if \<exists>v. (k, v) \<in> set es \<and> P k v then None else map_of c k)"
proof (induction es arbitrary: c)
  case (Cons p es)
  then show ?case by (cases p) (auto simp: cache_delete_def delete_conv')
qed simp

lemma distinct_delete_foldl:
  "distinct (map fst c) \<Longrightarrow>
     distinct (map fst (foldl (\<lambda>c (k, v). if P k v then snd (cache_delete k c) else c) c es))"
proof (induction es arbitrary: c)
  case (Cons p es)
  then show ?case by (cases p) (auto simp: cache_delete_def distinct_delete)
qed simp

lemma map_of_filter_Some:
  "distinct (map fst c) \<Longrightarrow> map_of (filter p c) k = Some e \<longleftrightarrow> map_of c k = Some e \<and> p (k, e)"
  using distinct_map_filter [of fst c p] by auto

lemma rotate_issue_follow:
  fixes f :: "string \<Rightarrow> ('c accounts, 'b) service"
  assumes "\<And>tok. fl.keeps env (f tok)"
  shows "fl.keeps env (seqs (generateRefreshTokenId env) (\<lambda>tok. seqs (addRefreshToken env tok u) (\<lambda>_. f tok)))"
proof (rule fl.keepsI)
  fix s :: "'c accounts"
  let ?tok = "random_hex env (adraws s)"
  let ?t = "s\<lparr>adraws := Suc (adraws s), tokens := cache_set (now_of s) (refresh_key ?tok) u (Some (refreshTokenTtlMs env)) (tokens s)\<rparr>"
  have new: "{adraws s ..< Suc (adraws s)} = {adraws s}" by auto
  have fresh: "map_of (cache_set now (refresh_key ?tok) u ttl c) k = Some e \<Longrightarrow>
      map_of c k = Some e \<or> k = refresh_key ?tok" for now ttl c k e
    by (auto simp: cache_set_def update_conv' split: if_splits)
  have step: "follows env s ?t"
    unfolding follows_def tokens_from_def using fresh
    by (simp add: uf.ord_refl new distinct_cache_set del: map_of_eq_Some_iff)
  have "follows env ?t (snd (f ?tok ?t))" by (rule fl.keepsD [OF assms])
  from fl.ord_trans [OF step this]
  show "follows env s (snd (seqs (generateRefreshTokenId env) (\<lambda>tok. seqs (addRefreshToken env tok u) (\<lambda>_. f tok)) s))"
    by (simp add: seqs_def generateRefreshTokenId_def draw_def addRefreshToken_def updates_def)
qed

section \<open>Every operation follows\<close>

lemma tokens_ops_follow:
  "fl.keeps env (deleteRefreshToken tok)" "fl.keeps env (validateRefreshToken tok)"
  "fl.keeps env (deleteAllRefreshTokensForUser u)"
proof -
  show "fl.keeps env (deleteRefreshToken tok)"
    by (rule fl.keepsI)
       (auto simp: deleteRefreshToken_def updates_def cache_delete_def delete_conv' distinct_delete
         intro!: fewer_tokens_follow split: if_splits)
  show "fl.keeps env (validateRefreshToken tok)"
    by (rule fl.keepsI)
       (auto simp: validateRefreshToken_def cache_get_def cache_delete_def delete_conv' distinct_delete fl.ord_refl
         intro!: fewer_tokens_follow split: if_splits option.splits)
  show "fl.keeps env (deleteAllRefreshTokensForUser u)"
  proof (rule fl.keepsI)
    fix s
    show "follows env s (snd (deleteAllRefreshTokensForUser u s))"
      unfolding deleteAllRefreshTokensForUser_def updates_def cache_entries_filter
      by (auto simp: map_of_delete_foldl map_of_filter_Some distinct_delete_foldl distinct_map_filter
          intro!: fewer_tokens_follow split: if_splits)
  qed
qed

lemma failures_ops_follow:
  "fl.keeps env (checkLoginRateLimit env' key)" "fl.keeps env (recordLoginFailure env' key)"
  "fl.keeps env (clearLoginFailures key)"
  by (rule fl.keepsI,
      auto simp: checkLoginRateLimit_def recordLoginFailure_def clearLoginFailures_def updates_def Let_def
        follows_def tokens_from_def uf.ord_refl split: prod.splits)+

lemmas follow_rules = fl.keeps_rules on_users_follow user_ops_follow createUser_follow perm_ops_follow draw_follow
  reads_users_follow tokens_ops_follow failures_ops_follow rotate_issue_follow on_people_follow ensureUserHomeNode_people

lemma User_create_follow: "fl.keeps env (User_create env' nm em pw adm)"
  unfolding User_create_def by (intro follow_rules)

lemma auth_ops_follow:
  "fl.keeps env (registerUser env nm em pw)" "fl.keeps env (loginUser env key nm pw)"
  "fl.keeps env (refreshAccessToken env tok)" "fl.keeps env (logout opt)"
  "fl.keeps env (getAuthenticatedUser u v)" "fl.keeps env (updatePassword env u pw)"
  "fl.keeps env (changeEmail env u em)"
proof -
  show "fl.keeps env (registerUser env nm em pw)"
    unfolding registerUser_def
    by (intro follow_rules User_create_follow) (auto intro!: follow_rules split: option.splits)
  have admin: "fl.keeps env (ensureDefaultAdmin env)"
    unfolding ensureDefaultAdmin_def by (auto intro!: follow_rules User_create_follow)
  have refuse: "fl.keeps env (refuse_login env key e)" for e
    unfolding refuse_login_def by (intro follow_rules)
  have issue: "fl.keeps env (issue_tokens env key x)" for x
    unfolding issue_tokens_def by (intro follow_rules)
  show "fl.keeps env (loginUser env key nm pw)"
    unfolding loginUser_def
    by (intro follow_rules) (auto intro!: follow_rules admin refuse issue split: option.splits user_status.splits)
  have "fl.keeps env (rotate_token env tok found)" for found
    unfolding rotate_token_def by (auto intro!: follow_rules split: option.splits)
  then show "fl.keeps env (refreshAccessToken env tok)"
    unfolding refreshAccessToken_def by (intro follow_rules)
  show "fl.keeps env (logout opt)" unfolding logout_def by (auto intro!: follow_rules)
  show "fl.keeps env (getAuthenticatedUser u v)"
    unfolding getAuthenticatedUser_def by (auto intro!: follow_rules split: option.splits)
  show "fl.keeps env (updatePassword env u pw)"
    unfolding updatePassword_def revokeAllUserTokens_def by (intro follow_rules)
  show "fl.keeps env (changeEmail env u em)"
    unfolding changeEmail_def by (intro follow_rules)
qed

lemma admin_ops_follow:
  "fl.keeps env (createAdminUser env' site nm em pw)" "fl.keeps env (approvePendingUser site u)"
  "fl.keeps env (rejectPendingUser u a)" "fl.keeps env (deleteUserCascade u a)"
proof -
  have home: "fl.keeps env (give_home site u nm e e')" for u nm e e'
    unfolding give_home_def by (auto intro!: follow_rules split: option.splits)
  have withdraw: "fl.keeps env (withdraw_user u a)"
    unfolding withdraw_user_def by (intro follow_rules)
  show "fl.keeps env (createAdminUser env' site nm em pw)"
    unfolding createAdminUser_def by (intro follow_rules User_create_follow home)
  show "fl.keeps env (approvePendingUser site u)"
    unfolding approvePendingUser_def by (auto intro!: follow_rules home split: option.splits)
  show "fl.keeps env (rejectPendingUser u a)"
    unfolding rejectPendingUser_def by (auto intro!: follow_rules withdraw split: option.splits)
  show "fl.keeps env (deleteUserCascade u a)"
    unfolding deleteUserCascade_def by (auto intro!: follow_rules withdraw split: option.splits)
qed

end
