(* ===== verification/AccountProps.thy ===== *)
theory AccountProps
  imports AccountLaws SharingProps
begin

text \<open>The properties of accounts: the life of refresh tokens, the login rate limit, the life of a user.\<close>

section \<open>Histories\<close>

text \<open>
  A step is one operation, or anything else that leaves the user table and the token cache alone:
  time, the file and sharing operations, other draws.
\<close>

inductive account_step :: "account_env \<Rightarrow> 'c site \<Rightarrow> 'c accounts \<Rightarrow> 'c accounts \<Rightarrow> bool" for env site where
  registered: "account_step env site s (snd (registerUser env nm em pw s))"
| logged_in: "account_step env site s (snd (loginUser env key nm pw s))"
| refreshed: "account_step env site s (snd (refreshAccessToken env tok s))"
| logged_out: "account_step env site s (snd (logout opt s))"
| asked: "account_step env site s (snd (getAuthenticatedUser u v s))"
| password_changed: "account_step env site s (snd (updatePassword env u pw s))"
| email_changed: "account_step env site s (snd (changeEmail env u em s))"
| user_created: "account_step env site s (snd (createAdminUser env site nm em pw s))"
| approved: "account_step env site s (snd (approvePendingUser site u s))"
| rejected: "account_step env site s (snd (rejectPendingUser u a s))"
| deleted: "account_step env site s (snd (deleteUserCascade u a s))"
| elsewhere: "users (accounts_db t) = users (accounts_db s) \<Longrightarrow> next_user (accounts_db t) = next_user (accounts_db s) \<Longrightarrow>
    now_of s \<le> now_of t \<Longrightarrow> tokens t = tokens s \<Longrightarrow> adraws s \<le> adraws t \<Longrightarrow> account_step env site s t"

lemma account_step_follows: "account_step env site s t \<Longrightarrow> follows env s t"
proof (induction rule: account_step.induct)
  case (elsewhere t s)
  then show ?case by (auto simp: follows_def tokens_from_def users_follow_def now_of_def)
qed (rule fl.keepsD, rule auth_ops_follow admin_ops_follow)+

lemma account_steps_follow: "(account_step env site)\<^sup>*\<^sup>* s t \<Longrightarrow> follows env s t"
proof (induction rule: rtranclp_induct)
  case base
  show ?case by (rule fl.ord_refl)
next
  case (step t u)
  then show ?case using fl.ord_trans account_step_follows by blast
qed

section \<open>Refresh tokens\<close>

definition owner :: "'c accounts \<Rightarrow> string \<Rightarrow> nat option" where
  "owner s tok = map_option entry_value (map_of (tokens s) (refresh_key tok))"

text \<open>What ends a token: its use, an answer that refused it, logging out, a new password, the end of its user.\<close>

inductive ends_token :: "account_env \<Rightarrow> string \<Rightarrow> 'c accounts \<Rightarrow> 'c accounts \<Rightarrow> bool" for env tok where
  used: "ends_token env tok s (snd (refreshAccessToken env tok s))"
| left: "ends_token env tok s (snd (logout (Some tok) s))"
| new_password: "owner s tok = Some u \<Longrightarrow> ends_token env tok s (snd (updatePassword env u pw s))"
| removed: "owner s tok = Some u \<Longrightarrow> deleteUserCascade u a s = (Inr x, t) \<Longrightarrow> ends_token env tok s t"

definition dead :: "'c accounts \<Rightarrow> string \<Rightarrow> bool" where
  "dead s tok \<longleftrightarrow> tok = [] \<or> (\<forall>e. map_of (tokens s) (refresh_key tok) = Some e \<longrightarrow>
     entry_expired (now_of s) e \<or>
     entry_value e \<notin> uid ` set (users (accounts_db s)) \<and> entry_value e < next_user (accounts_db s))"

lemma refresh_key_eq [simp]: "refresh_key a = refresh_key b \<longleftrightarrow> a = b"
  by (simp add: refresh_key_def)

text \<open>Whom a token stands for now.\<close>

definition stands_for :: "'c accounts \<Rightarrow> string \<Rightarrow> user option" where
  "stands_for s tok =
     (case map_of (tokens s) (refresh_key tok) of
        None \<Rightarrow> None
      | Some e \<Rightarrow> if tok = [] \<or> entry_expired (now_of s) e then None else findById (accounts_db s) (entry_value e))"

text \<open>A validation answers that, and drops at most the entry it refused.\<close>

lemma validate_outcome:
  obtains c where "validateRefreshToken tok s = (Inr (stands_for s tok), s\<lparr>tokens := c\<rparr>)"
    "stands_for s tok \<noteq> None \<Longrightarrow> c = tokens s" "c = tokens s \<or> c = AList.delete (refresh_key tok) (tokens s)"
    "stands_for s tok = None \<Longrightarrow> tok \<noteq> [] \<Longrightarrow> map_of c (refresh_key tok) = None"
proof (cases "tok = [] \<or> map_of (tokens s) (refresh_key tok) = None")
  case True
  then show ?thesis
    by (intro that [of "tokens s"])
       (auto simp: validateRefreshToken_def stands_for_def cache_get_def split: option.splits)
next
  case False
  then obtain e where e: "tok \<noteq> []" "map_of (tokens s) (refresh_key tok) = Some e" by blast
  let ?gone = "AList.delete (refresh_key tok) (tokens s)"
  consider "entry_expired (now_of s) e" | "\<not> entry_expired (now_of s) e" "findById (accounts_db s) (entry_value e) = None"
    | x where "\<not> entry_expired (now_of s) e" "findById (accounts_db s) (entry_value e) = Some x" by blast
  then show ?thesis
  proof cases
    case 1
    then show ?thesis
      using e by (intro that [of ?gone]) (simp_all add: validateRefreshToken_def stands_for_def cache_get_def delete_conv')
  next
    case 2
    then show ?thesis
      using e by (intro that [of ?gone])
        (simp_all add: validateRefreshToken_def stands_for_def cache_get_def cache_delete_def delete_conv')
  next
    case 3
    then show ?thesis
      using e by (intro that [of "tokens s"]) (simp_all add: validateRefreshToken_def stands_for_def cache_get_def)
  qed
qed

lemma dead_stands: "dead s tok \<longleftrightarrow> tok = [] \<or> (\<forall>e. map_of (tokens s) (refresh_key tok) = Some e \<longrightarrow>
     entry_expired (now_of s) e \<or>
     findById (accounts_db s) (entry_value e) = None \<and> entry_value e < next_user (accounts_db s))"
  by (simp add: dead_def findById_None)

lemma refresh_refused:
  "stands_for s tok = None \<Longrightarrow> fst (refreshAccessToken env tok s) = Inl (auth_error ''refreshTokenInvalid'' 401)"
  by (rule validate_outcome [of tok s]) (simp add: refreshAccessToken_def seqs_def rotate_token_def throw_def)

lemma dead_refused: "dead s tok \<Longrightarrow> fst (refreshAccessToken env tok s) = Inl (auth_error ''refreshTokenInvalid'' 401)"
  by (rule refresh_refused) (auto simp: dead_stands stands_for_def split: option.splits)

lemma entry_expired_later: "entry_expired now e \<Longrightarrow> now \<le> later \<Longrightarrow> entry_expired later e"
  by (auto simp: entry_expired_def split: option.splits)

lemma dead_follows:
  assumes "dead s tok" "follows env s t" "distinct (map fst (tokens s))"
    and tok: "tok = random_hex env n" "n < adraws s" "inj (random_hex env)"
  shows "dead t tok"
proof (cases "tok = []")
  case True
  then show ?thesis by (simp add: dead_def)
next
  case False
  have "entry_expired (now_of t) e \<or>
      entry_value e \<notin> uid ` set (users (accounts_db t)) \<and> entry_value e < next_user (accounts_db t)"
    if e: "map_of (tokens t) (refresh_key tok) = Some e" for e
  proof -  have "refresh_key tok \<notin> (\<lambda>n. refresh_key (random_hex env n)) ` {adraws s ..< adraws t}"
    using tok by (auto simp: inj_eq)
  then have old: "map_of (tokens s) (refresh_key tok) = Some e"
    using assms(2,3) e unfolding follows_def tokens_from_def by blast
  have u: "users_follow (accounts_db s) (accounts_db t)" using assms(2) by (simp add: follows_def)
  then have "now_of s \<le> now_of t" by (simp add: users_follow_def now_of_def)
  moreover have "entry_value e \<notin> uid ` set (users (accounts_db t)) \<and> entry_value e < next_user (accounts_db t)"
    if "entry_value e \<notin> uid ` set (users (accounts_db s))" "entry_value e < next_user (accounts_db s)"
    using that u by (force simp: users_follow_def)
  ultimately show ?thesis
    using assms(1) False old entry_expired_later by (fastforce simp: dead_def)
  qed
  then show ?thesis by (simp add: dead_def)
qed

lemma revoked_absent:
  assumes "distinct (map fst (tokens s))" "owner s tok = Some u"
  shows "map_of (tokens (snd (revokeAllUserTokens u s))) (refresh_key tok) = None"
proof -
  obtain e where e: "map_of (tokens s) (refresh_key tok) = Some e" "entry_value e = u"
    using assms(2) by (auto simp: owner_def)
  show ?thesis
  proof (cases "entry_expired (now_of s) e")
    case True
    let ?live = "filter (\<lambda>p. \<not> entry_expired (now_of s) (snd p)) (tokens s)"
    have "map_of ?live (refresh_key tok) \<noteq> Some e'" for e'
      unfolding map_of_filter_Some [OF assms(1)] using e(1) True by auto
    then have "map_of ?live (refresh_key tok) = None" by blast
    then show ?thesis
      by (simp add: revokeAllUserTokens_def deleteAllRefreshTokensForUser_def updates_def cache_entries_filter
          map_of_delete_foldl)
  next
    case False
    then have "(refresh_key tok, u) \<in> set (fst (cache_entries (now_of s) (tokens s)))"
      using imageI [of "(refresh_key tok, e)" "set (filter (\<lambda>p. \<not> entry_expired (now_of s) (snd p)) (tokens s))"
          "\<lambda>(k, e). (k, entry_value e)"] map_of_SomeD [OF e(1)] e(2)
      by (simp add: cache_entries_filter)
    moreover have "starts_with (refresh_key tok) ''refresh:''" by (auto simp: starts_with_iff refresh_key_def)
    ultimately show ?thesis
      unfolding revokeAllUserTokens_def deleteAllRefreshTokensForUser_def updates_def
      by (cases "cache_entries (now_of s) (tokens s)") (simp add: map_of_delete_foldl)
  qed
qed

lemma rotate_outcome:
  assumes "stands_for s tok = Some x"
  shows "refreshAccessToken env tok s = (Inr (generateToken x, random_hex env (adraws s)),
    s\<lparr>tokens := cache_set (now_of s) (refresh_key (random_hex env (adraws s))) (uid x) (Some (refreshTokenTtlMs env))
         (AList.delete (refresh_key tok) (tokens s)), adraws := Suc (adraws s)\<rparr>)"
proof -
  have "validateRefreshToken tok s = (Inr (Some x), s)"
    using assms by (rule_tac validate_outcome [of tok s]) simp_all
  then show ?thesis
    by (simp add: refreshAccessToken_def seqs_def rotate_token_def deleteRefreshToken_def updates_def cache_delete_def
        generateRefreshTokenId_def draw_def addRefreshToken_def ret_def)
qed

lemma absent_dead: "map_of (tokens s) (refresh_key tok) = None \<Longrightarrow> dead s tok"
  by (simp add: dead_def)

lemma deleteUserCascade_users:
  assumes "deleteUserCascade u a s = (Inr x, t)"
  shows "u \<in> uid ` set (users (accounts_db s))" "u \<notin> uid ` set (users (accounts_db t))" "tokens t = tokens s"
proof -
  obtain y where y: "findById (accounts_db s) u = Some y"
    using assms by (auto simp: deleteUserCascade_def service_simps reads_users_def throw_def
        split: option.splits if_splits)
  then show "u \<in> uid ` set (users (accounts_db s))" using findById_None [of "accounts_db s" u] by simp
  obtain w where "withdraw_user u a s = w" by simp
  have run: "deleteUserCascade u a s = seqs (withdraw_user u a) (\<lambda>_. seqs (on_users (deleteUser u)) (\<lambda>_. ret y)) s"
    using assms y by (auto simp: deleteUserCascade_def service_simps reads_users_def throw_def split: if_splits)
  obtain r v where w: "withdraw_user u a s = (r, v)" by fastforce
  have r: "r = Inr ()" using assms run w by (cases r) (auto simp: seqs_def)
  have t: "t = snd (on_users (deleteUser u) v)"
    using assms run w r deleteUser_eq [of u "accounts_db v"] by (auto simp: seqs_def on_users_eq ret_def split: prod.splits)
  then show "u \<notin> uid ` set (users (accounts_db t))"
    by (auto simp: on_users_eq deleteUser_def withTx_def)
  have "tokens v = tokens s"
    using w by (auto simp: withdraw_user_def seqs_def on_users_def on_accounts_def split: prod.splits sum.splits)
  then show "tokens t = tokens s" using t deleteUser_eq [of u "accounts_db v"] by (simp add: on_users_eq split: prod.splits)
qed

lemma ends_dead:
  assumes "ends_token env tok s t" "distinct (map fst (tokens s))" "inj (random_hex env)"
    and "tok = random_hex env n" "n < adraws s" "\<forall>x \<in> set (users (accounts_db s)). uid x < next_user (accounts_db s)"
  shows "dead t tok"
  using assms
proof (induction rule: ends_token.induct)
  case (used s)
  show ?case
  proof (cases "stands_for s tok")
    case None
    obtain c where c: "validateRefreshToken tok s = (Inr None, s\<lparr>tokens := c\<rparr>)"
      "tok \<noteq> [] \<Longrightarrow> map_of c (refresh_key tok) = None"
      using None by (rule_tac validate_outcome [of tok s]) simp
    then have "snd (refreshAccessToken env tok s) = s\<lparr>tokens := c\<rparr>"
      by (simp add: refreshAccessToken_def seqs_def rotate_token_def throw_def)
    then show ?thesis using c(2) by (cases "tok = []") (auto simp: dead_def)
  next
    case (Some x)
    have "tok \<noteq> random_hex env (adraws s)" using used.prems by (auto simp: inj_eq)
    then show ?thesis
      unfolding rotate_outcome [OF Some] by (intro absent_dead) (simp add: cache_set_def update_conv' delete_conv')
  qed
next
  case (left s)
  show ?case
  proof (cases "tok = []")
    case False
    then show ?thesis
      by (intro absent_dead) (simp add: logout_def deleteRefreshToken_def updates_def cache_delete_def delete_conv')
  qed (simp add: dead_def)
next
  case (new_password s u pw)
  define s1 where "s1 = snd (on_users (updatePasswordHash u (bcrypt_hash env (adraws s) pw)) (s\<lparr>adraws := Suc (adraws s)\<rparr>))"
  have s1: "tokens s1 = tokens s" "snd (updatePassword env u pw s) = snd (revokeAllUserTokens u s1)"
    by (simp_all add: s1_def updatePassword_def seqs_def draw_def on_users_eq updatePasswordHash_def update_user_eq)
  have "owner s1 tok = Some u" using new_password.hyps s1(1) by (simp add: owner_def)
  then show ?case
    unfolding s1(2) using new_password.prems s1(1) by (intro absent_dead revoked_absent) simp_all
next
  case (removed s u a x t)
  note gone = deleteUserCascade_users [OF removed.hyps(2)]
  have "u < next_user (accounts_db s)" using gone(1) removed.prems by auto
  moreover have "next_user (accounts_db s) \<le> next_user (accounts_db t)"
    using fl.keepsD [OF admin_ops_follow(4), of env s u a] removed.hyps(2) by (simp add: follows_def users_follow_def)
  ultimately show ?case
    using gone removed.hyps(1) unfolding dead_def by (auto simp: owner_def)
qed

text \<open>
  C15: The life of a refresh token. Once a token has been used, logged out, revoked by a new password of its
  user, or lost its user, no later refresh with it succeeds, whatever operations run in between. The
  process starts without tokens, and the random identifiers never repeat.
\<close>

theorem refresh_token_life:
  assumes "inj (random_hex env)" "tokens s0 = []"
    and "\<forall>x \<in> set (users (accounts_db s0)). uid x < next_user (accounts_db s0)"
    and "(account_step env site)\<^sup>*\<^sup>* s0 s" "owner s tok = Some u"
    and "ends_token env tok s s'" "(account_step env site)\<^sup>*\<^sup>* s' t"
  shows "fst (refreshAccessToken env tok t) = Inl (auth_error ''refreshTokenInvalid'' 401)"
proof -
  have f: "follows env s0 s" "follows env s' t" using assms(4,7) account_steps_follow by blast+
  have d: "distinct (map fst (tokens s))" using f(1) assms(2) by (simp add: follows_def tokens_from_def)
  obtain e where "map_of (tokens s) (refresh_key tok) = Some e" using assms(5) by (auto simp: owner_def)
  then obtain n where n: "tok = random_hex env n" "n < adraws s"
    using f(1) assms(2) unfolding follows_def tokens_from_def by fastforce
  have ids: "\<forall>x \<in> set (users (accounts_db s)). uid x < next_user (accounts_db s)"
    using f(1) assms(3) unfolding follows_def users_follow_def by fastforce
  have dead: "dead s' tok" by (rule ends_dead [OF assms(6) d assms(1) n ids])
  have s': "follows env s s'"
    using assms(6)
  proof cases
    case (removed v a x)
    then show ?thesis using fl.keepsD [OF admin_ops_follow(4), of env s v a] by simp
  qed (auto intro: fl.keepsD auth_ops_follow)
  have "distinct (map fst (tokens s'))" "n < adraws s'"
    using s' d n by (auto simp: follows_def tokens_from_def)
  from dead_refused [OF dead_follows [OF dead f(2) this(1) n(1) this(2) assms(1)]] show ?thesis .
qed

definition demo_env :: account_env where
  "demo_env = \<lparr>cfg_rate_max = Some 2, cfg_rate_window = None, cfg_refresh_days = None, registration_enabled = True,
     no_default_admin = False, default_password = [], bcrypt_hash = (\<lambda>n p. CHR ''#'' # p),
     bcrypt_compare = (\<lambda>p h. h = CHR ''#'' # p), email_sha = id,
     random_hex = (\<lambda>n. replicate (Suc n) (CHR ''a'')), send_mail = (\<lambda>_ _ _. None)\<rparr>"

lemma demo_env_random: "inj (random_hex demo_env)" "random_hex demo_env n \<noteq> []"
  by (auto simp: demo_env_def inj_def)

definition demo_accounts :: "mem accounts" where
  "demo_accounts = \<lparr>adrive = with_db share_drive ((drive_db share_drive)
       \<lparr>users := map (password_update (\<lambda>_. ''#pw'')) (users (drive_db share_drive)), next_user := 20\<rparr>),
     tokens = [], login_failures = [], adraws = 0\<rparr>"

text \<open>Ann logs in, and refreshes.\<close>

definition ann_in :: "mem accounts" where
  "ann_in = snd (loginUser demo_env ''ip'' ''ann'' ''pw'' demo_accounts)"

theorem refresh_token_life_witness:
  "fst (refreshAccessToken demo_env ''a'' (snd (refreshAccessToken demo_env ''a'' ann_in)))
     = Inl (auth_error ''refreshTokenInvalid'' 401) \<and> \<not> isl (fst (refreshAccessToken demo_env ''a'' ann_in))"
proof
  have "tokens demo_accounts = []" "owner ann_in ''a'' = Some 7"
    "list_all (\<lambda>x. uid x < next_user (accounts_db demo_accounts)) (users (accounts_db demo_accounts))"
    by code_simp+
  moreover have "(account_step demo_env (mem_site mem_client))\<^sup>*\<^sup>* demo_accounts ann_in"
    unfolding ann_in_def by (rule r_into_rtranclp) (rule account_step.logged_in)
  ultimately show "fst (refreshAccessToken demo_env ''a'' (snd (refreshAccessToken demo_env ''a'' ann_in)))
     = Inl (auth_error ''refreshTokenInvalid'' 401)"
    using refresh_token_life [OF demo_env_random(1) _ _ _ _ ends_token.used rtranclp.rtrancl_refl]
    by (simp add: list_all_iff)
  show "\<not> isl (fst (refreshAccessToken demo_env ''a'' ann_in))" by code_simp
qed

section \<open>Refreshes that interleave\<close>

text \<open>
  Two refreshes with one token, both reading before either rotates; and a refresh that reads before and
  rotates after a change of the password.
\<close>

definition two_refreshes ::
  "account_env \<Rightarrow> string \<Rightarrow> ('c accounts, (jwt_claims \<times> string) \<times> (jwt_claims \<times> string)) service" where
  "two_refreshes env tok =
     seqs (validateRefreshToken tok) (\<lambda>first. seqs (validateRefreshToken tok) (\<lambda>second.
     seqs (rotate_token env tok first) (\<lambda>a. seqs (rotate_token env tok second) (\<lambda>b. ret (a, b)))))"

definition refresh_around_change ::
  "account_env \<Rightarrow> string \<Rightarrow> nat \<Rightarrow> string \<Rightarrow> ('c accounts, jwt_claims \<times> string) service" where
  "refresh_around_change env tok u pw =
     seqs (validateRefreshToken tok) (\<lambda>found. seqs (updatePassword env u pw) (\<lambda>_. rotate_token env tok found))"

lemma stands_forD:
  assumes "stands_for s tok = Some x"
  shows "validateRefreshToken tok s = (Inr (Some x), s)" "findById (accounts_db s) (uid x) = Some x" "tok \<noteq> []"
proof -
  show "validateRefreshToken tok s = (Inr (Some x), s)"
    using assms by (rule_tac validate_outcome [of tok s]) simp_all
  have "findById d u = Some x \<Longrightarrow> uid x = u" for d u
    unfolding findById_def using first_row_in by fastforce
  then show "findById (accounts_db s) (uid x) = Some x" "tok \<noteq> []"
    using assms by (auto simp: stands_for_def split: option.splits if_splits)
qed

lemma ttl_pos: "0 < refreshTokenTtlMs env"
  by (auto simp: refreshTokenTtlMs_def ms_per_day_def split: option.splits)

lemma stands_for_stored:
  assumes "tok \<noteq> []" "map_of (tokens s) (refresh_key tok) = Some \<lparr>entry_value = u, entry_expires = Some (now_of s + refreshTokenTtlMs env)\<rparr>"
  shows "stands_for s tok = findById (accounts_db s) u"
  using assms ttl_pos [of env] by (simp add: stands_for_def entry_expired_def)

lemma rotate_found:
  "rotate_token env tok (Some x) s = (Inr (generateToken x, random_hex env (adraws s)),
    s\<lparr>tokens := cache_set (now_of s) (refresh_key (random_hex env (adraws s))) (uid x) (Some (refreshTokenTtlMs env))
         (AList.delete (refresh_key tok) (tokens s)), adraws := Suc (adraws s)\<rparr>)"
  by (simp add: seqs_def rotate_token_def deleteRefreshToken_def updates_def cache_delete_def
      generateRefreshTokenId_def draw_def addRefreshToken_def ret_def)

text \<open>
  C29: Refreshes that interleave. The rotation of a refresh token is not serialised with the read that
  precedes it: of two refreshes with one token that both read before either rotates, both succeed, and
  both new tokens stay valid. A refresh that reads before and rotates after a change of the password
  leaves a valid token although the change revoked every token of the user, next to an access token of
  the old token version.
\<close>

theorem interleaved_refreshes:
  assumes "stands_for s tok = Some x" "inj (random_hex env)" "\<And>n. random_hex env n \<noteq> []"
    and "tok = random_hex env n" "n < adraws s"
  shows "(\<exists>a b t. two_refreshes env tok s = (Inr ((generateToken x, a), (generateToken x, b)), t) \<and> a \<noteq> b \<and>
      stands_for t a = Some x \<and> stands_for t b = Some x) \<and>
    (\<exists>a t y. refresh_around_change env tok (uid x) pw s = (Inr (generateToken x, a), t) \<and>
      stands_for t a = Some y \<and> uid y = uid x \<and> token_version y = token_version x + 1)"
proof
  note sf = stands_forD [OF assms(1)]
  let ?a = "random_hex env (adraws s)" and ?b = "random_hex env (Suc (adraws s))"
  have ne: "?a \<noteq> ?b" "?a \<noteq> tok" "?b \<noteq> tok" using assms(2,4,5) by (auto simp: inj_eq)
  let ?s1 = "snd (rotate_token env tok (Some x) s)" and ?t = "snd (rotate_token env tok (Some x) (snd (rotate_token env tok (Some x) s)))"
  have two: "two_refreshes env tok s = (Inr ((generateToken x, ?a), (generateToken x, ?b)), ?t)"
    by (simp add: two_refreshes_def seqs_def sf(1) rotate_found ret_def)
  have "map_of (tokens ?t) (refresh_key ?a) = Some \<lparr>entry_value = uid x, entry_expires = Some (now_of ?t + refreshTokenTtlMs env)\<rparr>"
    "map_of (tokens ?t) (refresh_key ?b) = Some \<lparr>entry_value = uid x, entry_expires = Some (now_of ?t + refreshTokenTtlMs env)\<rparr>"
    using ne ttl_pos [of env] by (simp_all add: rotate_found cache_set_def update_conv' delete_conv')
  then have "stands_for ?t ?a = Some x" "stands_for ?t ?b = Some x"
    using stands_for_stored [of ?a ?t] stands_for_stored [of ?b ?t] assms(3) sf(2) by (simp_all add: rotate_found)
  with two ne(1) show "\<exists>a b t. two_refreshes env tok s = (Inr ((generateToken x, a), (generateToken x, b)), t) \<and> a \<noteq> b \<and>
      stands_for t a = Some x \<and> stands_for t b = Some x" by blast
next
  note sf = stands_forD [OF assms(1)]
  define w where "w = snd (updatePassword env (uid x) pw s)"
  let ?c = "random_hex env (adraws w)"
  let ?t = "snd (rotate_token env tok (Some x) w)"
  have w: "fst (updatePassword env (uid x) pw s) = Inr ()"
    by (simp add: updatePassword_def seqs_def draw_def on_users_eq updatePasswordHash_def update_user_eq
        revokeAllUserTokens_def deleteAllRefreshTokensForUser_def updates_def)
  have run: "refresh_around_change env tok (uid x) pw s = (Inr (generateToken x, ?c), ?t)"
    using w by (cases "updatePassword env (uid x) pw s")
      (simp add: refresh_around_change_def seqs_def sf(1) rotate_found w_def)
  have db: "accounts_db w = snd (updatePasswordHash (uid x) (bcrypt_hash env (adraws s) pw) (accounts_db s))"
    by (simp add: w_def updatePassword_def seqs_def draw_def on_users_eq updatePasswordHash_def update_user_eq
        revokeAllUserTokens_def deleteAllRefreshTokensForUser_def updates_def split: prod.splits)
  obtain y where y: "findById (accounts_db w) (uid x) = Some y" "uid y = uid x" "token_version y = token_version x + 1"
  proof -
    have "filter (\<lambda>z. uid z = u) (update_where (\<lambda>z. uid z = u) f zs) = map f (filter (\<lambda>z. uid z = u) zs)"
      if "\<And>z. uid (f z) = uid z" for f :: "user \<Rightarrow> user" and u zs
      using that by (induction zs) (auto simp: update_where_def)
    then show ?thesis
      using sf(2) that unfolding db findById_def updatePasswordHash_def update_user_eq
      by (cases "filter (\<lambda>z. uid z = uid x) (users (accounts_db s))") auto
  qed
  have "map_of (tokens ?t) (refresh_key ?c) = Some \<lparr>entry_value = uid x, entry_expires = Some (now_of ?t + refreshTokenTtlMs env)\<rparr>"
    using ttl_pos [of env] by (simp add: rotate_found cache_set_def update_conv')
  then have "stands_for ?t ?c = Some y"
    using stands_for_stored [of ?c ?t] assms(3) y(1) by (simp add: rotate_found)
  with run y show "\<exists>a t y. refresh_around_change env tok (uid x) pw s = (Inr (generateToken x, a), t) \<and>
      stands_for t a = Some y \<and> uid y = uid x \<and> token_version y = token_version x + 1" by blast
qed

theorem interleaved_refreshes_witness:
  "\<exists>a b t. two_refreshes demo_env ''a'' ann_in = (Inr (a, b), t) \<and> snd a \<noteq> snd b"
proof -
  obtain x where "stands_for ann_in ''a'' = Some x"
    by (cases "stands_for ann_in ''a''") (code_simp, auto)
  moreover have "''a'' = random_hex demo_env 0" "adraws ann_in = 1" by code_simp+
  ultimately show ?thesis
    using interleaved_refreshes [of ann_in "''a''" _ demo_env 0 "[]"] demo_env_random by fastforce
qed

end
