(* ===== verification/LoginProps.thy ===== *)
theory LoginProps
  imports AccountProps
begin

text \<open>The properties of the login: what it answers, and the limit on failed attempts.\<close>

section \<open>Login\<close>

text \<open>The login_failures of an address that count at an instant.\<close>

definition standing :: "int \<Rightarrow> string \<Rightarrow> (string, attempts) adapter \<Rightarrow> attempts option" where
  "standing t key c =
     (case map_of c (rate_key key) of
        None \<Rightarrow> None
      | Some e \<Rightarrow> if entry_expired t e \<or> t > reset_at (entry_value e) then None else Some (entry_value e))"

definition limited :: "account_env \<Rightarrow> string \<Rightarrow> 'c accounts \<Rightarrow> bool" where
  "limited env key s \<longleftrightarrow>
     (case standing (now_of s) key (login_failures s) of None \<Rightarrow> False | Some e \<Rightarrow> int (fcount e) \<ge> rate_max env)"

text \<open>A failure opens a window, or counts in the one that is open.\<close>

definition next_failure :: "account_env \<Rightarrow> string \<Rightarrow> 'c accounts \<Rightarrow> attempts" where
  "next_failure env key s =
     (case standing (now_of s) key (login_failures s) of
        None \<Rightarrow> \<lparr>fcount = 1, reset_at = now_of s + rate_window env\<rparr>
      | Some e \<Rightarrow> \<lparr>fcount = fcount e + 1, reset_at = reset_at e\<rparr>)"

lemma rate_key_eq [simp]: "rate_key a = rate_key b \<longleftrightarrow> a = b"
  by (simp add: rate_key_def)

lemma standing_None_later: "standing t key c = None \<Longrightarrow> t \<le> u \<Longrightarrow> standing u key c = None"
  using entry_expired_later by (fastforce simp: standing_def split: option.splits if_splits)

lemma rate_window_nonzero: "rate_window env \<noteq> 0"
  by (auto simp: rate_window_def split: option.splits)

lemma standing_get:
  assumes "cache_get now (rate_key key) c = (entry, c')" "now \<le> t"
  shows "standing t j c' = standing t j c"
    and "standing now key c = (case entry of None \<Rightarrow> None | Some e \<Rightarrow> if now > reset_at e then None else Some e)"
  using assms entry_expired_later
  by (fastforce simp: cache_get_def standing_def delete_conv' split: option.splits if_splits)+

lemma check_outcome:
  obtains c where "checkLoginRateLimit env key s = (Inr (if limited env key s then Some (the (map_option (\<lambda>e. reset_at e - now_of s)
      (standing (now_of s) key (login_failures s)))) else None), s\<lparr>login_failures := c\<rparr>)"
    "\<And>t j. now_of s \<le> t \<Longrightarrow> standing t j c = standing t j (login_failures s)"
proof -
  obtain entry c where get: "cache_get (now_of s) (rate_key key) (login_failures s) = (entry, c)" by fastforce
  show ?thesis
  proof (rule that [of c])
    show "standing t j c = standing t j (login_failures s)" if "now_of s \<le> t" for t j
      by (rule standing_get(1) [OF get that])
    show "checkLoginRateLimit env key s = (Inr (if limited env key s then Some (the (map_option (\<lambda>e. reset_at e - now_of s)
        (standing (now_of s) key (login_failures s)))) else None), s\<lparr>login_failures := c\<rparr>)"
      using standing_get(2) [OF get order_refl]
      by (auto simp: checkLoginRateLimit_def get limited_def split: option.splits)
  qed
qed

lemma record_outcome:
  obtains c where "recordLoginFailure env key s = (Inr (), s\<lparr>login_failures := c\<rparr>)"
    "\<And>t. now_of s \<le> t \<Longrightarrow> standing t key c =
       (if t > reset_at (next_failure env key s) then None else Some (next_failure env key s))"
    "\<And>t j. now_of s \<le> t \<Longrightarrow> j \<noteq> key \<Longrightarrow> standing t j c = standing t j (login_failures s)"
proof -
  let ?now = "now_of s"
  obtain entry c where get: "cache_get ?now (rate_key key) (login_failures s) = (entry, c)" by fastforce
  define e' where "e' = next_failure env key s"
  have stand: "standing ?now key (login_failures s) = (case entry of None \<Rightarrow> None | Some e \<Rightarrow> if ?now > reset_at e then None else Some e)"
    using standing_get(2) [OF get order_refl] .
  have run: "recordLoginFailure env key s =
      (Inr (), s\<lparr>login_failures := cache_set ?now (rate_key key) e' (Some (reset_at e' - ?now)) c\<rparr>)"
    using stand by (auto simp: recordLoginFailure_def updates_def Let_def get e'_def next_failure_def split: option.splits)
  have "standing t key (cache_set ?now (rate_key key) e' (Some (reset_at e' - ?now)) c) = (if t > reset_at e' then None else Some e')"
    if "?now \<le> t" for t
    by (auto simp: standing_def cache_set_def update_conv' entry_expired_def)
  moreover have "standing t j (cache_set ?now (rate_key key) e' (Some (reset_at e' - ?now)) c) = standing t j (login_failures s)"
    if "?now \<le> t" "j \<noteq> key" for t j
    using standing_get(1) [OF get that(1), of j] that(2) by (simp add: standing_def cache_set_def update_conv')
  ultimately show ?thesis using that [OF run] unfolding e'_def by blast
qed

text \<open>The recreation of the administrator leaves the two caches and the clock alone.\<close>

definition same_caches :: "'c accounts \<Rightarrow> 'c accounts \<Rightarrow> bool" where
  "same_caches s t \<longleftrightarrow> login_failures t = login_failures s \<and> tokens t = tokens s \<and> now_of t = now_of s"

interpretation sc: state_order same_caches
  by unfold_locales (auto simp: same_caches_def)

lemma ensureDefaultAdmin_caches: "sc.keeps (ensureDefaultAdmin env)"
proof -
  have "same_caches s (snd (on_users (createUser sha nm em h adm) s))" for s :: "'a accounts" and sha nm em h adm
    by (rule createUser_cases [of nm em h sha adm "accounts_db s"])
       (simp_all add: on_users_eq same_caches_def now_of_def)
  moreover have "sc.keeps (draw f)" for f :: "nat \<Rightarrow> string"
    by (rule sc.keepsI) (simp add: draw_def same_caches_def)
  ultimately have "sc.keeps (User_create env nm em pw adm :: ('a accounts, user) service)" for nm em pw adm
    unfolding User_create_def by (intro sc.keeps_seqs) (auto intro: sc.keepsI)
  then show ?thesis
    unfolding ensureDefaultAdmin_def reads_users_def by (auto intro!: sc.keeps_rules)
qed

text \<open>A login, up to the lookup of the user.\<close>

definition finish_login :: "account_env \<Rightarrow> string \<Rightarrow> string \<Rightarrow> user option \<Rightarrow> ('c accounts, login_answer) service" where
  "finish_login env key pw user =
     (case user of
        None \<Rightarrow> refuse_login env key (auth_error ''invalidCredentials'' 401)
      | Some x \<Rightarrow>
          if \<not> bcrypt_compare env pw (password x)
          then refuse_login env key (auth_error ''invalidCredentials'' 401)
          else (case ustatus x of
              User_pending \<Rightarrow> refuse_login env key (auth_error ''pendingApproval'' 403)
            | User_rejected \<Rightarrow> refuse_login env key (auth_error ''rejected'' 403)
            | User_approved \<Rightarrow> issue_tokens env key x))"

lemma login_cases:
  obtains "nm = [] \<or> pw = []" "loginUser env key nm pw s = (Inl (auth_error ''loginRequiredFields'' 400), s)"
  | c where "nm \<noteq> []" "pw \<noteq> []" "limited env key s"
      "loginUser env key nm pw s = (Inl (auth_error ''loginRateLimit'' 429), s\<lparr>login_failures := c\<rparr>)"
      "\<And>t j. now_of s \<le> t \<Longrightarrow> standing t j c = standing t j (login_failures s)"
  | v where "nm \<noteq> []" "pw \<noteq> []" "\<not> limited env key s" "now_of v = now_of s" "tokens v = tokens s"
      "\<And>t j. now_of s \<le> t \<Longrightarrow> standing t j (login_failures v) = standing t j (login_failures s)"
      "nm \<noteq> ''admin'' \<Longrightarrow> accounts_db v = accounts_db s" "adraws s \<le> adraws v"
      "loginUser env key nm pw s = finish_login env key pw (findByUsername (accounts_db v) nm) v"
proof (cases "nm = [] \<or> pw = []")
  case True
  then show ?thesis by (intro that(1)) (auto simp: loginUser_def service_simps)
next
  case False
  then have ne: "nm \<noteq> []" "pw \<noteq> []" by auto
  obtain c where check: "checkLoginRateLimit env key s = (Inr (if limited env key s then Some (the (map_option
      (\<lambda>e. reset_at e - now_of s) (standing (now_of s) key (login_failures s)))) else None), s\<lparr>login_failures := c\<rparr>)"
    and c: "\<And>t j. now_of s \<le> t \<Longrightarrow> standing t j c = standing t j (login_failures s)"
    using check_outcome [of env key s] by blast
  have check': "seqs (checkLoginRateLimit env key) f s = f (if limited env key s then Some (the (map_option
      (\<lambda>e. reset_at e - now_of s) (standing (now_of s) key (login_failures s)))) else None) (s\<lparr>login_failures := c\<rparr>)"
    for f :: "int option \<Rightarrow> ('a accounts, login_answer) service"
    by (simp add: seqs_def check)
  show ?thesis
  proof (cases "limited env key s")
    case True
    then have "loginUser env key nm pw s = (Inl (auth_error ''loginRateLimit'' 429), s\<lparr>login_failures := c\<rparr>)"
      using ne by (simp add: loginUser_def service_simps check')
    then show ?thesis using that(2) ne True c by blast
  next
    case free: False
    define prepare where "prepare = (if nm = ''admin''
           then seqs (reads_users (\<lambda>d. findByUsername d ''admin'')) (\<lambda>adminExists.
                  if adminExists \<noteq> None then ret ()
                  else catching (seqs (ensureDefaultAdmin env) (\<lambda>_. ret ())) (\<lambda>_. ret ()))
           else ret () :: ('a accounts, unit) service)"
    have caches: "sc.keeps prepare"
      unfolding prepare_def reads_users_def by (auto intro!: sc.keeps_rules ensureDefaultAdmin_caches)
    have "fl.keeps env prepare"
      unfolding prepare_def ensureDefaultAdmin_def by (auto intro!: follow_rules User_create_follow)
    then have draws: "adraws (s\<lparr>login_failures := c\<rparr>) \<le> adraws (snd (prepare (s\<lparr>login_failures := c\<rparr>)))"
      using fl.keepsD [of env prepare "s\<lparr>login_failures := c\<rparr>"] by (simp add: follows_def)
    obtain v where v: "prepare (s\<lparr>login_failures := c\<rparr>) = (Inr (), v)"
    proof (cases "prepare (s\<lparr>login_failures := c\<rparr>)")
      case (Pair r v)
      have "ensureDefaultAdmin env w \<noteq> (Inl No_return, w')" for w w' :: "'a accounts"
      proof -
        have "on_users (createUser sha nm em h adm) w \<noteq> (Inl No_return, w')" for w w' :: "'a accounts" and sha nm em h adm
          by (rule createUser_cases [of nm em h sha adm "accounts_db w"])
             (simp_all add: on_users_eq admin_error_def auth_error_def)
        then show ?thesis
          by (auto simp: ensureDefaultAdmin_def User_create_def reads_users_def service_defs draw_def
              split: if_splits prod.splits sum.splits)
      qed
      then have "r = Inr ()"
        using Pair by (auto simp: prepare_def reads_users_def service_defs split: if_splits prod.splits sum.splits)
      then show ?thesis using Pair that by blast
    qed
    have "same_caches (s\<lparr>login_failures := c\<rparr>) v" using sc.keepsD [OF caches, of "s\<lparr>login_failures := c\<rparr>"] v by simp
    then have keep: "now_of v = now_of s" "tokens v = tokens s" "login_failures v = c" by (simp_all add: same_caches_def)
    have "accounts_db v = accounts_db s" if "nm \<noteq> ''admin''" using v that by (auto simp: prepare_def ret_def)
    moreover have v': "seqs prepare f (s\<lparr>login_failures := c\<rparr>) = f () v" for f :: "unit \<Rightarrow> ('a accounts, login_answer) service"
      by (simp add: seqs_def v)
    have "loginUser env key nm pw s = finish_login env key pw (findByUsername (accounts_db v) nm) v"
      using ne free unfolding loginUser_def finish_login_def prepare_def [symmetric]
      by (simp add: service_simps check' v' reads_users_def)
    ultimately show ?thesis using that(3) [of v] ne free keep c draws v by simp
  qed
qed

text \<open>What the two endings do to the counters.\<close>

lemma refuse_outcome:
  obtains c where "refuse_login env key e v = (Inl e :: login_answer result, v\<lparr>login_failures := c\<rparr>)"
    "\<And>t. now_of v \<le> t \<Longrightarrow> standing t key c =
       (if t > reset_at (next_failure env key v) then None else Some (next_failure env key v))"
    "\<And>t j. now_of v \<le> t \<Longrightarrow> j \<noteq> key \<Longrightarrow> standing t j c = standing t j (login_failures v)"
  by (rule record_outcome [of env key v]) (use that in \<open>auto simp: refuse_login_def seqs_def throw_def\<close>)

lemma issue_outcome:
  "issue_tokens env key x v =
     (Inr \<lparr>access_token = generateToken x, refresh_token = random_hex env (adraws v), login_user = x,
           login_root = resolveUserRootNodeId (accounts_db v) (uid x)\<rparr>,
      v\<lparr>adraws := Suc (adraws v),
        tokens := cache_set (now_of v) (refresh_key (random_hex env (adraws v))) (uid x) (Some (refreshTokenTtlMs env)) (tokens v),
        login_failures := AList.delete (rate_key key) (login_failures v)\<rparr>)"
  by (simp add: issue_tokens_def seqs_def generateRefreshTokenId_def draw_def addRefreshToken_def updates_def
      clearLoginFailures_def cache_delete_def reads_users_def reads_def ret_def)

lemma standing_deleted: "standing t j (AList.delete (rate_key key) c) = (if j = key then None else standing t j c)"
  by (simp add: standing_def delete_conv')

lemma finish_cases:
  obtains x where "user = Some x" "bcrypt_compare env pw (password x)" "ustatus x = User_approved"
      "finish_login env key pw user v = issue_tokens env key x v"
  | e where "finish_login env key pw user v = refuse_login env key e v"
      "e \<in> {auth_error ''invalidCredentials'' 401, auth_error ''pendingApproval'' 403, auth_error ''rejected'' 403}"
      "user = None \<or> (\<exists>x. user = Some x \<and> (bcrypt_compare env pw (password x) \<longrightarrow> ustatus x \<noteq> User_approved))"
      "e = auth_error ''invalidCredentials'' 401 \<longleftrightarrow>
         user = None \<or> (\<exists>x. user = Some x \<and> \<not> bcrypt_compare env pw (password x))"
proof (cases user)
  case None
  then show ?thesis using that(2) [of "auth_error ''invalidCredentials'' 401"] by (simp add: finish_login_def)
next
  case (Some x)
  show ?thesis
  proof (cases "bcrypt_compare env pw (password x)")
    case False
    then show ?thesis
      using Some that(2) [of "auth_error ''invalidCredentials'' 401"] by (simp add: finish_login_def)
  next
    case True
    show ?thesis
    proof (cases "ustatus x")
      case User_approved
      then show ?thesis using Some True that(1) by (simp add: finish_login_def)
    next
      case User_pending
      then show ?thesis
        using Some True that(2) [of "auth_error ''pendingApproval'' 403"] by (simp add: finish_login_def auth_error_def)
    next
      case User_rejected
      then show ?thesis
        using Some True that(2) [of "auth_error ''rejected'' 403"] by (simp add: finish_login_def auth_error_def)
    qed
  qed
qed

section \<open>Properties\<close>

definition required_error :: err where
  "required_error = auth_error ''loginRequiredFields'' 400"

definition rate_error :: err where
  "rate_error = auth_error ''loginRateLimit'' 429"

text \<open>
  C28: What a login answers. It succeeds only for an approved user with the right password, from an
  address that is not limited; then the access token carries the claims of that user, the refresh token
  is the user's, and the failures of the address are forgotten. A refusal issues no token. It is for
  missing fields, which nothing else follows; for the limit, whatever the password; or for the
  credentials or the status of the account, and then counts as a failure of the address. An unknown
  name and a wrong password are answered alike.
\<close>

theorem login_outcome:
  assumes "loginUser env key nm pw s = (r, t)"
  shows "case r of
      Inr a \<Rightarrow> \<not> limited env key s \<and> standing (now_of t) key (login_failures t) = None \<and>
        (\<exists>x. findByUsername (accounts_db t) nm = Some x \<and> bcrypt_compare env pw (password x) \<and>
           ustatus x = User_approved \<and> access_token a = generateToken x \<and> owner t (refresh_token a) = Some (uid x))
    | Inl e \<Rightarrow> tokens t = tokens s \<and>
        (if nm = [] \<or> pw = [] then e = required_error \<and> t = s
         else if limited env key s then e = rate_error
         else standing (now_of t) key (login_failures t) =
             (if now_of t > reset_at (next_failure env key s) then None else Some (next_failure env key s)) \<and>
           (case findByUsername (accounts_db t) nm of
              None \<Rightarrow> e = auth_error ''invalidCredentials'' 401
            | Some x \<Rightarrow>
                if \<not> bcrypt_compare env pw (password x) then e = auth_error ''invalidCredentials'' 401
                else ustatus x \<noteq> User_approved \<and>
                  e \<in> {auth_error ''pendingApproval'' 403, auth_error ''rejected'' 403}))"
proof (cases rule: login_cases [of nm pw env key s])
  case 1
  then show ?thesis using assms by (auto simp: required_error_def)
next
  case (2 c)
  then show ?thesis using assms by (auto simp: rate_error_def)
next
  case (3 v)
  have same: "next_failure env key v = next_failure env key s"
    using 3(4,6) by (simp add: next_failure_def split: option.split)
  show ?thesis
  proof (cases rule: finish_cases [of "findByUsername (accounts_db v) nm" env pw key v])
    case (1 x)
    then show ?thesis
      using 3 assms by (auto simp: issue_outcome standing_deleted owner_def cache_set_def update_conv')
  next
    case (2 e)
    obtain c where c: "refuse_login env key e v = (Inl e :: login_answer result, v\<lparr>login_failures := c\<rparr>)"
      "\<And>t. now_of v \<le> t \<Longrightarrow> standing t key c =
         (if t > reset_at (next_failure env key v) then None else Some (next_failure env key v))"
      "\<And>t j. now_of v \<le> t \<Longrightarrow> j \<noteq> key \<Longrightarrow> standing t j c = standing t j (login_failures v)"
      using refuse_outcome [of env key e v] by blast
    have rt: "r = Inl e" "t = v\<lparr>login_failures := c\<rparr>" using 3(9) 2(1) assms c(1) by simp_all
    have who: "case findByUsername (accounts_db v) nm of
          None \<Rightarrow> e = auth_error ''invalidCredentials'' 401
        | Some x \<Rightarrow>
            if \<not> bcrypt_compare env pw (password x) then e = auth_error ''invalidCredentials'' 401
            else ustatus x \<noteq> User_approved \<and>
              e \<in> {auth_error ''pendingApproval'' 403, auth_error ''rejected'' 403}"
      using 2(2-4) by (cases "findByUsername (accounts_db v) nm") auto
    have "standing (now_of s) key c =
        (if now_of s > reset_at (next_failure env key s) then None else Some (next_failure env key s))"
      using c(2) [OF order_refl] unfolding same 3(4) .
    then show ?thesis
      unfolding rt using who 3(1-3) by (simp add: 3(4,5))
  qed
qed

theorem login_outcome_witness:
  "let (r, t) = loginUser demo_env ''ip'' ''ann'' ''pw'' demo_accounts in
     \<not> isl r \<and> owner t (refresh_token (projr r)) = Some 7 \<and> jc_username (access_token (projr r)) = ''ann''"
proof -
  obtain r t where run: "loginUser demo_env ''ip'' ''ann'' ''pw'' demo_accounts = (r, t)" by fastforce
  have "\<not> isl (fst (loginUser demo_env ''ip'' ''ann'' ''pw'' demo_accounts))"
    "map_option (\<lambda>x. (uid x, username x)) (findByUsername (accounts_db (snd (loginUser demo_env ''ip'' ''ann'' ''pw'' demo_accounts))) ''ann'')
       = Some (7, ''ann'')"
    by code_simp+
  then obtain a x where "r = Inr a" "findByUsername (accounts_db t) ''ann'' = Some x" "uid x = 7" "username x = ''ann''"
    using run by (cases r) auto
  then show ?thesis using login_outcome [OF run] run by (simp add: generateToken_def)
qed

text \<open>Attempts at given instants, from given addresses.\<close>

definition at_time :: "int \<Rightarrow> 'c accounts \<Rightarrow> 'c accounts" where
  "at_time t s = s\<lparr>adrive := with_db (adrive s) ((accounts_db s)\<lparr>clock := t\<rparr>)\<rparr>"

fun login_run :: "account_env \<Rightarrow> (int \<times> string \<times> string \<times> string) list \<Rightarrow> 'c accounts \<Rightarrow> login_answer result list \<times> 'c accounts" where
  "login_run env [] s = ([], s)"
| "login_run env ((t, key, nm, pw) # as) s =
     (case loginUser env key nm pw (at_time t s) of (r, s') \<Rightarrow>
        (case login_run env as s' of (rs, u) \<Rightarrow> (r # rs, u)))"

text \<open>An attempt whose password was looked at.\<close>

definition tested :: "login_answer result \<Rightarrow> bool" where
  "tested r \<longleftrightarrow> r \<noteq> Inl required_error \<and> r \<noteq> Inl rate_error"

definition tests_of :: "string \<Rightarrow> (int \<times> string \<times> string \<times> string) list \<Rightarrow> login_answer result list \<Rightarrow> nat" where
  "tests_of key as rs = length (filter (\<lambda>((t, k, nm, pw), r). k = key \<and> tested r) (zip as rs))"

text \<open>Up to an instant \<open>B\<close> the address has \<open>n\<close> failures that count.\<close>

definition counted :: "string \<Rightarrow> int \<Rightarrow> int \<Rightarrow> nat \<Rightarrow> int \<Rightarrow> 'c accounts \<Rightarrow> bool" where
  "counted key t B n r s \<longleftrightarrow> (0 < n \<longrightarrow> B \<le> r) \<and>
     (\<forall>u. t \<le> u \<and> u \<le> B \<longrightarrow> standing u key (login_failures s) =
        (if n = 0 then None else Some \<lparr>fcount = n, reset_at = r\<rparr>))"

lemma counted_cong:
  assumes "counted key t B n r s" "t \<le> t'"
    and "\<And>u. t' \<le> u \<Longrightarrow> standing u key (login_failures s') = standing u key (login_failures s)"
  shows "counted key t' B n r s'"
  using assms by (auto simp: counted_def)

lemma login_counts:
  assumes run: "loginUser env k nm pw s = (res, s')" and c: "counted key t0 B n r s"
    and t: "t0 \<le> now_of s" "now_of s \<le> B" "B \<le> now_of s + rate_window env \<or> 0 < n"
    and max: "int n \<le> rate_max env" "0 < rate_max env" and fails: "k = key \<Longrightarrow> isl res"
  obtains r' where "counted key (now_of s) B (n + (if k = key \<and> tested res then 1 else 0)) r' s'"
    "k = key \<Longrightarrow> tested res \<longleftrightarrow> nm \<noteq> [] \<and> pw \<noteq> [] \<and> int n < rate_max env"
proof (cases rule: login_cases [of nm pw env k s])
  case 1
  then have "res = Inl required_error" "s' = s" using run by (simp_all add: required_error_def)
  then show ?thesis
    using that [of r] 1(1) counted_cong [OF c t(1), of s] by (auto simp: tested_def)
next
  case (2 c')
  then have res: "res = Inl rate_error" "s' = s\<lparr>login_failures := c'\<rparr>" using run by (simp_all add: rate_error_def)
  have "counted key (now_of s) B n r s'" by (rule counted_cong [OF c t(1)]) (simp add: res 2)
  moreover have "\<not> int n < rate_max env" if "k = key"
    using 2(3) that c t(1,2) by (auto simp: limited_def counted_def split: if_splits option.splits)
  ultimately show ?thesis using that [of r] res(1) by (simp add: tested_def)
next
  case (3 v)
  have cv: "counted key (now_of s) B n r v" by (rule counted_cong [OF c t(1)]) (simp add: 3)
  show ?thesis
  proof (cases rule: finish_cases [of "findByUsername (accounts_db v) nm" env pw k v])
    case (1 x)
    then have s': "res = Inr (projr res)" "login_failures s' = AList.delete (rate_key k) (login_failures v)"
      using run 3(9) by (auto simp: issue_outcome)
    then have "k \<noteq> key" using fails by (cases res) auto
    moreover have "counted key (now_of s) B n r s'"
      by (rule counted_cong [OF cv order_refl]) (use \<open>k \<noteq> key\<close> in \<open>simp add: s'(2) standing_deleted\<close>)
    ultimately show ?thesis using that [of r] by simp
  next
    case (2 e)
    obtain c' where c': "refuse_login env k e v = (Inl e :: login_answer result, v\<lparr>login_failures := c'\<rparr>)"
      "\<And>t. now_of v \<le> t \<Longrightarrow> standing t k c' =
         (if t > reset_at (next_failure env k v) then None else Some (next_failure env k v))"
      "\<And>t j. now_of v \<le> t \<Longrightarrow> j \<noteq> k \<Longrightarrow> standing t j c' = standing t j (login_failures v)"
      using refuse_outcome [of env k e v] by blast
    have "(res, s') = (Inl e, v\<lparr>login_failures := c'\<rparr>)"
      unfolding run [symmetric] 3(9) 2(1) by (rule c'(1))
    then have s': "res = Inl e" "login_failures s' = c'" by simp_all
    have tested: "tested res" using 2(2) s'(1) by (auto simp: tested_def required_error_def rate_error_def auth_error_def)
    show ?thesis
    proof (cases "k = key")
      case False
      have "counted key (now_of s) B n r s'"
        by (rule counted_cong [OF cv order_refl]) (use False c'(3) 3(4) in \<open>auto simp: s'(2)\<close>)
      then show ?thesis using that [of r] False by simp
    next
      case True
      have now: "standing (now_of v) k (login_failures v) = (if n = 0 then None else Some \<lparr>fcount = n, reset_at = r\<rparr>)"
        using cv t 3(4) True by (simp add: counted_def)
      have free: "int n < rate_max env"
        using 3(3,6) now 3(4) max t True by (auto simp: limited_def split: if_splits)
      define r' where "r' = (if n = 0 then now_of s + rate_window env else r)"
      have next_one: "next_failure env key v = \<lparr>fcount = n + 1, reset_at = r'\<rparr>"
        using now 3(4) True by (simp add: next_failure_def r'_def)
      have "B \<le> r'" using t(3) c by (auto simp: r'_def counted_def)
      then have "counted key (now_of s) B (n + 1) r' s'"
        using c'(2) 3(4) by (simp add: counted_def s'(2) next_one True)
      then show ?thesis using that [of r'] True tested free 3(1,2) by simp
    qed
  qed
qed

lemma at_time_parts [simp]: "now_of (at_time t s) = t" "login_failures (at_time t s) = login_failures s"
  by (simp_all add: at_time_def now_of_def)

lemma tests_of_Cons:
  "tests_of key ((t, k, nm, pw) # as) (r # rs) = (if k = key \<and> tested r then 1 else 0) + tests_of key as rs"
  by (simp add: tests_of_def)

lemma login_run_counts:
  assumes "login_run env as s = (rs, u)" "counted key t0 B n r s"
    and "\<forall>(t, a) \<in> set as. t0 \<le> t \<and> t \<le> B \<and> B \<le> t + rate_window env" "sorted (map fst as)"
    and "\<forall>((t, k, a), res) \<in> set (zip as rs). k = key \<longrightarrow> isl res"
    and "int n \<le> rate_max env" "0 < rate_max env"
  shows "tests_of key as rs = min (nat (rate_max env) - n)
    (length (filter (\<lambda>(t, k, nm, pw). k = key \<and> nm \<noteq> [] \<and> pw \<noteq> []) as))"
  using assms
proof (induction as arbitrary: s rs n r t0)
  case Nil
  then show ?case by (simp add: tests_of_def)
next
  case (Cons a as)
  obtain t k nm pw where a: "a = (t, k, nm, pw)" by (cases a)
  obtain res s' where one: "loginUser env k nm pw (at_time t s) = (res, s')" by fastforce
  obtain rs' where rest: "login_run env as s' = (rs', u)" "rs = res # rs'"
    using Cons.prems(1) one by (auto simp: a split: prod.splits)
  have c: "counted key t0 B n r (at_time t s)" using Cons.prems(2) by (simp add: counted_def)
  have "t0 \<le> t" "t \<le> B" "B \<le> t + rate_window env" using Cons.prems(3) by (auto simp: a)
  moreover have "k = key \<Longrightarrow> isl res" using Cons.prems(5) by (simp add: a rest)
  ultimately obtain r' where c': "counted key t B (n + (if k = key \<and> tested res then 1 else 0)) r' s'"
    and exact: "k = key \<Longrightarrow> tested res \<longleftrightarrow> nm \<noteq> [] \<and> pw \<noteq> [] \<and> int n < rate_max env"
    using login_counts [OF one c] Cons.prems(6,7) by (metis at_time_parts(1))
  let ?n = "n + (if k = key \<and> tested res then 1 else 0)"
  have "tests_of key as rs' = min (nat (rate_max env) - ?n)
      (length (filter (\<lambda>(t, k, nm, pw). k = key \<and> nm \<noteq> [] \<and> pw \<noteq> []) as))"
  proof (rule Cons.IH [OF rest(1) c'])
    show "\<forall>(t', a) \<in> set as. t \<le> t' \<and> t' \<le> B \<and> B \<le> t' + rate_window env" "sorted (map fst as)"
      using Cons.prems(3,4) by (auto simp: a)
    show "\<forall>((t, k, a), res) \<in> set (zip as rs'). k = key \<longrightarrow> isl res" using Cons.prems(5) by (auto simp: rest)
    show "int ?n \<le> rate_max env" using Cons.prems(6) exact by auto
  qed (rule Cons.prems(7))
  then show ?case using exact Cons.prems(6) by (auto simp: a rest(2) tests_of_Cons)
qed


definition three_wrong :: "(int \<times> string \<times> string \<times> string) list" where
  "three_wrong = [(1, ''ip'', ''ann'', ''x''), (2, ''ip'', ''ann'', ''y''), (3, ''ip'', ''ann'', ''pw'')]"


end
