(* ===== verification/UserProps.thy ===== *)
theory UserProps
  imports AccountProps
begin

text \<open>The life of a user: what each operation does to the user table, approval and deletion.\<close>

section \<open>The user table under each operation\<close>

definition same_users :: "'c accounts \<Rightarrow> 'c accounts \<Rightarrow> bool" where
  "same_users s t \<longleftrightarrow> users (accounts_db t) = users (accounts_db s) \<and>
     next_user (accounts_db t) = next_user (accounts_db s)"

interpretation su: state_order same_users
  by unfold_locales (auto simp: same_users_def)

lemma on_people_users: "dp.keeps m \<Longrightarrow> su.keeps (on_accounts m :: ('c accounts, 'a) service)"
proof (rule su.keepsI)
  fix s :: "'c accounts" assume "dp.keeps m"
  then have "drive_people (adrive s) (snd (m (adrive s)))" by (rule dp.keepsD)
  then show "same_users s (snd (on_accounts m s))"
    by (cases "m (adrive s)")
       (simp add: same_users_def on_accounts_def drive_people_def people_same_def drive_db_adrive)
qed

lemma on_perm_users:
  assumes "\<And>p. users (pdb (snd (m p))) = users (pdb p) \<and> next_user (pdb (snd (m p))) = next_user (pdb p)"
  shows "su.keeps (on_accounts (on_perm m) :: ('c accounts, 'a) service)"
proof (rule su.keepsI)
  fix s :: "'c accounts"
  show "same_users s (snd (on_accounts (on_perm m) s))"
    using assms [of "dperm (adrive s)"]
    by (cases "m (dperm (adrive s))") (simp add: same_users_def on_accounts_def on_perm_def accounts_db_def)
qed

lemma on_users_same: "(\<And>d. users (snd (m d)) = users d \<and> next_user (snd (m d)) = next_user d) \<Longrightarrow> su.keeps (on_users m)"
  by (rule su.keepsI) (simp add: same_users_def on_users_eq split: prod.splits; metis snd_conv)

lemma draw_users: "su.keeps (draw f)"
  by (rule su.keepsI) (simp add: draw_def same_users_def)

lemma caches_users:
  "su.keeps (updates (\<lambda>s. s\<lparr>tokens := f s\<rparr>))" "su.keeps (updates (\<lambda>s. s\<lparr>login_failures := g s\<rparr>))"
  by (rule su.keepsI, simp add: updates_def same_users_def)+

lemma perm_ops_users:
  "su.keeps (on_accounts (on_perm (grant_path u n p)))"
  "su.keeps (on_accounts (on_perm (revokeAllUserPermissions u)))"
  "su.keeps (on_accounts (on_perm (deleteUserPermissionsFile u)))"
  by (rule on_perm_users,
      simp add: store_defs deleteUserPermissionsFile_def repo_write_defs drop_user_def invalidate_def)+

lemma withdraw_users: "su.keeps (withdraw_user u a)"
  unfolding withdraw_user_def
  by (intro su.keeps_rules perm_ops_users on_users_same)
     (simp_all add: deleteByRequesterId_def rejectPendingByOwnerId_def)

lemma give_home_users: "su.keeps (give_home site u nm e e')"
  unfolding give_home_def reads_users_def
  by (auto intro!: su.keeps_rules perm_ops_users on_people_users ensureUserHomeNode_people split: option.splits)

text \<open>What an operation may have done to the table: nothing, one new row, one row edited, one row gone.\<close>

definition edited :: "nat \<Rightarrow> (user \<Rightarrow> user) \<Rightarrow> user list \<Rightarrow> user list" where
  "edited u f us = update_where (\<lambda>x. uid x = u) f us"

text \<open>The edges of a row's life: only a pending account changes its status, and only once.\<close>

definition user_edge :: "user \<Rightarrow> user \<Rightarrow> bool" where
  "user_edge x y \<longleftrightarrow> uid y = uid x \<and> username y = username x \<and> is_admin y = is_admin x \<and>
     token_version x \<le> token_version y \<and> (ustatus y = ustatus x \<or> ustatus x = User_pending)"

definition users_valid :: "(string \<Rightarrow> string) \<Rightarrow> db \<Rightarrow> bool" where
  "users_valid sha d \<longleftrightarrow> distinct (map uid (users d)) \<and> distinct (map username (users d)) \<and>
     distinct (map (\<lambda>x. sha (email x)) (users d)) \<and> (\<forall>x \<in> set (users d). uid x < next_user d)"

definition users_move :: "(string \<Rightarrow> string) \<Rightarrow> db \<Rightarrow> db \<Rightarrow> bool" where
  "users_move sha d d' \<longleftrightarrow> users_valid sha d' \<and> next_user d \<le> next_user d' \<and>
     (\<forall>y \<in> set (users d'). next_user d \<le> uid y \<or> (\<exists>x \<in> set (users d). user_edge x y))"

lemma user_edge_refl: "user_edge x x"
  by (simp add: user_edge_def)

lemma user_edge_trans: "user_edge x y \<Longrightarrow> user_edge y z \<Longrightarrow> user_edge x z"
  by (auto simp: user_edge_def)

lemma users_move_same:
  "users_valid sha d \<Longrightarrow> users d' = users d \<Longrightarrow> next_user d \<le> next_user d' \<Longrightarrow> users_move sha d d'"
  using user_edge_refl by (fastforce simp: users_move_def users_valid_def)

lemma users_move_trans:
  assumes "users_move sha d e" "users_move sha e f"
  shows "users_move sha d f"
proof -
  have "next_user d \<le> uid z \<or> (\<exists>x \<in> set (users d). user_edge x z)" if z: "z \<in> set (users f)" for z
  proof (cases "next_user e \<le> uid z")
    case True
    then show ?thesis using assms(1) by (auto simp: users_move_def)
  next
    case False
    then obtain y where y: "y \<in> set (users e)" "user_edge y z"
      using assms(2) z unfolding users_move_def by blast
    then have "next_user d \<le> uid y \<or> (\<exists>x \<in> set (users d). user_edge x y)"
      using assms(1) by (auto simp: users_move_def)
    moreover have "uid z = uid y" using y(2) by (simp add: user_edge_def)
    ultimately show ?thesis using y(2) user_edge_trans by metis
  qed
  then show ?thesis using assms by (auto simp: users_move_def)
qed

lemma users_move_edit:
  assumes "users_valid sha d" "users d' = update_where (\<lambda>x. uid x = u) f (users d)" "next_user d' = next_user d"
    and edge: "\<And>x. x \<in> set (users d) \<Longrightarrow> uid x = u \<Longrightarrow> user_edge x (f x)"
    and mail: "\<And>x. x \<in> set (users d) \<Longrightarrow> uid x = u \<Longrightarrow> sha (email (f x)) = sha (email x) \<or>
        sha (email (f x)) \<notin> (\<lambda>y. sha (email y)) ` {y \<in> set (users d). uid y \<noteq> u}"
  shows "users_move sha d d'"
proof -
  have fields: "map uid (users d') = map uid (users d)" "map username (users d') = map username (users d)"
    unfolding assms(2) update_where_def using edge by (auto simp: user_edge_def)
  have "inj_on (\<lambda>x. sha (email x)) (set (users d'))"
  proof (rule inj_onI)
    fix x y assume xy: "x \<in> set (users d')" "y \<in> set (users d')" "sha (email x) = sha (email y)"
    have inj: "inj_on (\<lambda>x. sha (email x)) (set (users d))" "inj_on uid (set (users d))"
      using assms(1) by (simp_all add: users_valid_def distinct_map)
    obtain a b where ab: "a \<in> set (users d)" "b \<in> set (users d)"
      "x = (if uid a = u then f a else a)" "y = (if uid b = u then f b else b)"
      using xy(1,2) by (auto simp: assms(2) set_update_where)
    have "a = b"
    proof (cases "uid a = u \<and> uid b = u")
      case True
      then show ?thesis using inj(2) ab(1,2) by (auto dest: inj_onD)
    next
      case False
      then show ?thesis
        using mail [of a] mail [of b] ab xy(3) inj(1) by (auto simp: image_iff dest: inj_onD split: if_splits)
    qed
    then show "x = y" using ab by simp
  qed
  moreover have "distinct (users d')" using fields(1) assms(1) by (metis distinct_map users_valid_def)
  ultimately have "distinct (map (\<lambda>x. sha (email x)) (users d'))" by (simp add: distinct_map)
  moreover have "uid y < next_user d'" if "y \<in> set (users d')" for y
  proof -
    have "uid y \<in> set (map uid (users d))" using that fields(1) by (metis image_eqI list.set_map)
    then show ?thesis using assms(1,3) by (auto simp: users_valid_def)
  qed
  ultimately have "users_valid sha d'" using assms(1) fields by (simp add: users_valid_def)
  moreover have "\<exists>x \<in> set (users d). user_edge x y" if "y \<in> set (users d')" for y
    using that edge user_edge_refl by (auto simp: assms(2) set_update_where split: if_splits)
  ultimately show ?thesis using assms(3) by (auto simp: users_move_def)
qed

lemma users_move_delete:
  "users_valid sha d \<Longrightarrow> users d' = delete_where P (users d) \<Longrightarrow> next_user d' = next_user d \<Longrightarrow> users_move sha d d'"
  using user_edge_refl by (fastforce simp: users_move_def users_valid_def distinct_map_delete)

lemma users_move_new:
  assumes "users_valid sha d" "users d' = users d @ [y]" "next_user d' = Suc (next_user d)" "uid y = next_user d"
    and "username y \<notin> username ` set (users d)" "sha (email y) \<notin> (\<lambda>x. sha (email x)) ` set (users d)"
  shows "users_move sha d d'"
  using assms user_edge_refl by (fastforce simp: users_move_def users_valid_def)

section \<open>Every operation moves the table along\<close>

definition moves :: "account_env \<Rightarrow> 'c accounts \<Rightarrow> 'c accounts \<Rightarrow> bool" where
  "moves env s t \<longleftrightarrow> (users_valid (email_sha env) (accounts_db s) \<longrightarrow>
     users_move (email_sha env) (accounts_db s) (accounts_db t))"

interpretation mv: state_order "moves env" for env
proof
  show "moves env s s" for s :: "'a accounts" by (simp add: moves_def users_move_same)
  show "moves env s u" if "moves env s t" "moves env t u" for s t u :: "'a accounts"
    using that users_move_trans unfolding moves_def users_move_def by blast
qed

lemma same_users_moves: "same_users s t \<Longrightarrow> moves env s t"
  by (simp add: moves_def same_users_def users_move_same)

lemma su_mv: "su.keeps m \<Longrightarrow> mv.keeps env m"
  by (simp add: su.keeps_def mv.keeps_def same_users_moves)

lemma on_users_moves:
  assumes "\<And>d. users_valid (email_sha env) d \<Longrightarrow> users_move (email_sha env) d (snd (m d))"
  shows "mv.keeps env (on_users m :: ('c accounts, 'a) service)"
proof (rule mv.keepsI)
  fix s :: "'c accounts"
  show "moves env s (snd (on_users m s))"
    using assms [of "accounts_db s"] by (cases "m (accounts_db s)") (simp add: moves_def on_users_eq)
qed

lemma createUser_moves:
  "users_valid sha d \<Longrightarrow> users_move sha d (snd (createUser sha nm em hash adm d))"
  by (rule createUser_cases [of nm em hash sha adm d])
     (auto simp: users_move_same new_user_def intro!: users_move_new)

lemma deleteUser_moves: "users_valid sha d \<Longrightarrow> users_move sha d (snd (deleteUser u d))"
  by (rule users_move_delete) (auto simp: deleteUser_def withTx_def)

lemma updatePasswordHash_moves: "users_valid sha d \<Longrightarrow> users_move sha d (snd (updatePasswordHash u h d))"
  unfolding updatePasswordHash_def update_user_eq
  by (rule users_move_edit) (auto simp: user_edge_def)

lemma updateStatus_moves:
  "users_valid sha d \<Longrightarrow> (\<And>x. x \<in> set (users d) \<Longrightarrow> uid x = u \<Longrightarrow> ustatus x = User_pending) \<Longrightarrow>
     users_move sha d (snd (updateStatus u st d))"
  unfolding updateStatus_def update_user_eq
  by (rule users_move_edit) (auto simp: user_edge_def)

lemma updateEmail_moves:
  assumes "users_valid sha d"
  shows "users_move sha d (snd (updateEmail sha u em d))"
proof (cases "fst (updateEmail sha u em d)")
  case (Inl e)
  then have "snd (updateEmail sha u em d) = d"
    by (auto simp: updateEmail_def Let_def service_defs withTx_def update_user_def split: if_splits sum.splits prod.splits)
  then show ?thesis using assms by (simp add: users_move_same)
next
  case (Inr r)
  let ?f = "\<lambda>x. x\<lparr>email := normalizeEmail em, uupdated := datetime_now d\<rparr>"
  have run: "snd (updateEmail sha u em d) = d\<lparr>users := update_where (\<lambda>x. uid x = u) ?f (users d)\<rparr>"
    and free: "first_row (filter (same_mail sha (normalizeEmail em)) (users d)) = None \<or>
      uid (the (first_row (filter (same_mail sha (normalizeEmail em)) (users d)))) = u"
    using Inr by (auto simp: updateEmail_def Let_def service_defs withTx_def update_user_def
        split: if_splits sum.splits prod.splits)
  have own: "uid y = u" if y: "y \<in> set (users d)" "sha (email y) = sha (normalizeEmail em)" for y
  proof -
    have "same_mail sha (normalizeEmail em) y" using y(2) by (simp add: same_mail_def)
    moreover have "distinct (map (\<lambda>x. sha (email x)) (users d))" using assms by (simp add: users_valid_def)
    ultimately have "first_row (filter (same_mail sha (normalizeEmail em)) (users d)) = Some y"
      using y by (intro first_row_filter_unique [where g = "\<lambda>x. sha (email x)"]) (auto simp: same_mail_def)
    then show ?thesis using free by simp
  qed
  show ?thesis
    unfolding run
  proof (rule users_move_edit [OF assms, where u = u and f = ?f])
    show "sha (email (?f x)) = sha (email x) \<or>
        sha (email (?f x)) \<notin> (\<lambda>y. sha (email y)) ` {y \<in> set (users d). uid y \<noteq> u}" for x
      using own by fastforce
  qed (simp_all add: user_edge_def)
qed

lemma User_create_moves: "mv.keeps env (User_create env nm em pw adm)"
  unfolding User_create_def
  by (intro mv.keeps_rules on_users_moves createUser_moves su_mv [OF draw_users])

lemma db_same_users: "(\<And>s. accounts_db (snd (m s)) = accounts_db s) \<Longrightarrow> su.keeps m"
  by (rule su.keepsI) (simp add: same_users_def)

lemma caches_db:
  "accounts_db (snd (deleteRefreshToken tok s)) = accounts_db s"
  "accounts_db (snd (validateRefreshToken tok s)) = accounts_db s"
  "accounts_db (snd (deleteAllRefreshTokensForUser u s)) = accounts_db s"
  "accounts_db (snd (addRefreshToken env tok u s)) = accounts_db s"
  "accounts_db (snd (generateRefreshTokenId env s)) = accounts_db s"
  "accounts_db (snd (checkLoginRateLimit env key s)) = accounts_db s"
  "accounts_db (snd (clearLoginFailures key s)) = accounts_db s"
  "accounts_db (snd (recordLoginFailure env key s)) = accounts_db s"
proof -
  show "accounts_db (snd (validateRefreshToken tok s)) = accounts_db s"
    by (rule validate_outcome [of tok s]) simp
  show "accounts_db (snd (checkLoginRateLimit env key s)) = accounts_db s"
    by (simp add: checkLoginRateLimit_def split: prod.split)
  show "accounts_db (snd (recordLoginFailure env key s)) = accounts_db s"
    by (cases "cache_get (now_of s) (rate_key key) (login_failures s)") (simp add: recordLoginFailure_def updates_def Let_def)
  show "accounts_db (snd (deleteAllRefreshTokensForUser u s)) = accounts_db s"
    by (cases "cache_entries (now_of s) (tokens s)") (simp add: deleteAllRefreshTokensForUser_def updates_def)
qed (simp_all add: deleteRefreshToken_def addRefreshToken_def generateRefreshTokenId_def draw_def
       clearLoginFailures_def updates_def)

lemma token_ops_users:
  "su.keeps (deleteRefreshToken tok)" "su.keeps (validateRefreshToken tok)" "su.keeps (deleteAllRefreshTokensForUser u)"
  "su.keeps (addRefreshToken env tok u)" "su.keeps (generateRefreshTokenId env)"
  "su.keeps (checkLoginRateLimit env key)" "su.keeps (recordLoginFailure env key)" "su.keeps (clearLoginFailures key)"
  by (rule db_same_users, rule caches_db)+

lemma reads_users_moves: "mv.keeps env (reads_users f)"
  unfolding reads_users_def by (rule mv.keeps_reads)

lemmas moves_rules = mv.keeps_rules User_create_moves su_mv [OF draw_users] su_mv [OF withdraw_users]
  su_mv [OF give_home_users] token_ops_users [THEN su_mv] reads_users_moves

lemma auth_ops_move:
  "mv.keeps env (registerUser env nm em pw)" "mv.keeps env (loginUser env key nm pw)"
  "mv.keeps env (refreshAccessToken env tok)" "mv.keeps env (logout opt)"
  "mv.keeps env (getAuthenticatedUser u v)" "mv.keeps env (updatePassword env u pw)"
  "mv.keeps env (changeEmail env u em)" "mv.keeps env (deleteUserCascade u a)"
proof -
  show "mv.keeps env (registerUser env nm em pw)"
    unfolding registerUser_def
    by (intro moves_rules) (auto intro!: moves_rules on_users_moves deleteUser_moves split: option.splits)
  have admin: "mv.keeps env (ensureDefaultAdmin env)"
    unfolding ensureDefaultAdmin_def by (auto intro!: moves_rules)
  have refuse: "mv.keeps env (refuse_login env key e)" for e
    unfolding refuse_login_def by (intro moves_rules)
  have issue: "mv.keeps env (issue_tokens env key x)" for x
    unfolding issue_tokens_def by (intro moves_rules)
  show "mv.keeps env (loginUser env key nm pw)"
    unfolding loginUser_def
    by (intro moves_rules) (auto intro!: moves_rules admin refuse issue split: option.splits user_status.splits)
  have "mv.keeps env (rotate_token env tok found)" for found
    unfolding rotate_token_def by (auto intro!: moves_rules split: option.splits)
  then show "mv.keeps env (refreshAccessToken env tok)"
    unfolding refreshAccessToken_def by (intro moves_rules)
  show "mv.keeps env (logout opt)" unfolding logout_def by (auto intro!: moves_rules)
  show "mv.keeps env (getAuthenticatedUser u v)"
    unfolding getAuthenticatedUser_def by (auto intro!: moves_rules split: option.splits)
  show "mv.keeps env (updatePassword env u pw)"
    unfolding updatePassword_def revokeAllUserTokens_def by (intro moves_rules on_users_moves updatePasswordHash_moves)
  show "mv.keeps env (changeEmail env u em)"
    unfolding changeEmail_def by (intro moves_rules on_users_moves updateEmail_moves)
  show "mv.keeps env (deleteUserCascade u a)"
    unfolding deleteUserCascade_def
    by (auto intro!: moves_rules on_users_moves deleteUser_moves split: option.splits)
qed

text \<open>A change of status that follows a pending row, with its possible way back.\<close>

lemma updateStatus_db:
  "on_users (updateStatus u st) s = (Inr (), s\<lparr>adrive := with_db (adrive s) (snd (updateStatus u st (accounts_db s)))\<rparr>)"
  by (simp add: on_users_eq updateStatus_def update_user_eq)

lemma seqs_prefix_same:
  assumes "su.keeps m" "m s = (r, t)"
  shows "users (accounts_db t) = users (accounts_db s)" "next_user (accounts_db t) = next_user (accounts_db s)"
  using su.keepsD [OF assms(1), of s] assms(2) by (simp_all add: same_users_def)

lemma pending_row:
  assumes "users_valid sha d" "findById d u = Some x" "ustatus x = User_pending" "y \<in> set (users d)" "uid y = u"
  shows "ustatus y = User_pending"
proof -
  have "distinct (map uid (users d))" using assms(1) by (simp add: users_valid_def)
  then have "findById d u = Some y" using findById_iff assms(4,5) by blast
  then show ?thesis using assms(2,3) by simp
qed

lemma reject_moves: "mv.keeps env (rejectPendingUser u a)"
proof (rule mv.keepsI)
  fix s :: "'a accounts"
  show "moves env s (snd (rejectPendingUser u a s))"
  proof (cases "findById (accounts_db s) u")
    case None
    then show ?thesis by (simp add: rejectPendingUser_def reads_users_def service_simps throw_def mv.ord_refl)
  next
    case (Some x)
    show ?thesis
    proof (cases "ustatus x = User_pending")
      case False
      then show ?thesis
        using Some by (simp add: rejectPendingUser_def reads_users_def service_simps mv.ord_refl)
    next
      case True
      obtain r v where w: "withdraw_user u a s = (r, v)" by fastforce
      have run: "snd (rejectPendingUser u a s) = (if isl r then v else snd (on_users (updateStatus u User_rejected) v))"
      proof -
        have "rejectPendingUser u a s = seqs (withdraw_user u a) (\<lambda>_. seqs (on_users (updateStatus u User_rejected)) (\<lambda>_. ret x)) s"
          using Some True by (simp add: rejectPendingUser_def reads_users_def service_simps)
        then show ?thesis by (cases r) (simp_all add: seqs_def w updateStatus_db ret_def)
      qed
      have same: "same_users s v" using su.keepsD [OF withdraw_users, of s u a] w by simp
      have "moves env v (snd (on_users (updateStatus u User_rejected) v))"
        unfolding moves_def updateStatus_db
      proof (simp, rule impI, rule updateStatus_moves)
        assume valid: "users_valid (email_sha env) (accounts_db v)"
        have "findById (accounts_db v) u = Some x" using Some same by (simp add: findById_def same_users_def)
        then show "ustatus y = User_pending" if "y \<in> set (users (accounts_db v))" "uid y = u" for y
          using pending_row [OF valid _ True that] by simp
      qed
      then have "moves env s (snd (on_users (updateStatus u User_rejected) v))"
        using same_users_moves [OF same] mv.ord_trans by blast
      then show ?thesis using run same_users_moves [OF same] by simp
    qed
  qed
qed

definition folder_fail :: err where
  "folder_fail = admin_error ''approveFolderFail'' 500"

definition approve_fail :: err where
  "approve_fail = admin_error ''approvePermissionFail'' 500"

lemma approve_run:
  assumes "findById (accounts_db s) u = Some x" "ustatus x = User_pending"
    and "give_home site u (username x) folder_fail approve_fail (snd (on_users (updateStatus u User_approved) s)) = (r, v)"
  shows "approvePendingUser site u s =
    (case r of
       Inr _ \<Rightarrow> (Inr (x\<lparr>ustatus := User_approved\<rparr>), v)
     | Inl e \<Rightarrow> if e = No_return then (Inl No_return, v)
         else (Inl approve_fail, snd (on_users (updateStatus u User_pending) v)))"
proof -
  let ?s1 = "snd (on_users (updateStatus u User_approved) s)"
  let ?h = "\<lambda>_. seqs (on_users (updateStatus u User_pending)) (\<lambda>_. throw approve_fail)"
  let ?m = "give_home site u (username x) folder_fail approve_fail"
  have step: "seqs (on_users (updateStatus u User_approved)) f s = f () ?s1" for f :: "unit \<Rightarrow> ('a accounts, user) service"
    by (simp add: seqs_def updateStatus_db)
  have "approvePendingUser site u s = seqs (catching ?m ?h) (\<lambda>_. ret (x\<lparr>ustatus := User_approved\<rparr>)) ?s1"
    using assms(1,2) unfolding approvePendingUser_def folder_fail_def approve_fail_def
    by (simp add: reads_users_def service_simps step)
  also have "\<dots> = (case catching ?m ?h ?s1 of (Inl e, t) \<Rightarrow> (Inl e, t) | (Inr y, t) \<Rightarrow> (Inr (x\<lparr>ustatus := User_approved\<rparr>), t))"
    by (simp add: seqs_def ret_def split: prod.splits sum.splits)
  also have "catching ?m ?h ?s1 = (case r of Inr y \<Rightarrow> (Inr y, v) | Inl e \<Rightarrow> if e = No_return then (Inl No_return, v)
      else (Inl approve_fail, snd (on_users (updateStatus u User_pending) v)))"
    unfolding catching_def assms(3) by (cases r) (simp_all add: seqs_def updateStatus_db throw_def)
  finally show ?thesis by (cases r) simp_all
qed

lemma approve_refused:
  "findById (accounts_db s) u = None \<Longrightarrow> approvePendingUser site u s = (Inl (admin_error ''userNotFound'' 404), s)"
  "findById (accounts_db s) u = Some x \<Longrightarrow> ustatus x \<noteq> User_pending \<Longrightarrow>
     approvePendingUser site u s = (Inl (admin_error ''notPending'' 400), s)"
  by (simp_all add: approvePendingUser_def reads_users_def service_simps throw_def)

lemma update_where_twice:
  "(\<And>x. uid (f x) = uid x) \<Longrightarrow> update_where (\<lambda>x. uid x = u) g (update_where (\<lambda>x. uid x = u) f xs) =
     update_where (\<lambda>x. uid x = u) (\<lambda>x. g (f x)) xs"
  by (simp add: update_where_def)

lemma approve_moves: "mv.keeps env (approvePendingUser site u)"
proof (rule mv.keepsI)
  fix s :: "'a accounts"
  show "moves env s (snd (approvePendingUser site u s))"
  proof (cases "\<exists>x. findById (accounts_db s) u = Some x \<and> ustatus x = User_pending")
    case False
    then show ?thesis
      using approve_refused [of s u] by (cases "findById (accounts_db s) u") (auto simp: mv.ord_refl)
  next
    case True
    then obtain x where x: "findById (accounts_db s) u = Some x" "ustatus x = User_pending" by blast
    let ?s1 = "snd (on_users (updateStatus u User_approved) s)"
    obtain r v where g: "give_home site u (username x) folder_fail approve_fail ?s1 = (r, v)" by fastforce
    have same: "same_users ?s1 v" using su.keepsD [OF give_home_users, of ?s1] g by (metis snd_conv)
    show ?thesis unfolding moves_def
    proof (rule impI)
      assume valid: "users_valid (email_sha env) (accounts_db s)"
      have pend: "ustatus y = User_pending" if "y \<in> set (users (accounts_db s))" "uid y = u" for y
        using pending_row [OF valid x that] .
      have up: "users_move (email_sha env) (accounts_db s) (accounts_db v)"
        using updateStatus_moves [OF valid, of u User_approved] pend same
        by (simp add: updateStatus_db same_users_def users_move_def users_valid_def)
      let ?reset = "snd (on_users (updateStatus u User_pending) v)"
      have "users (accounts_db ?reset) = update_where (\<lambda>x. uid x = u) (\<lambda>x. x\<lparr>ustatus := User_pending,
          uupdated := datetime_now (accounts_db v)\<rparr>) (users (accounts_db s))"
        "next_user (accounts_db ?reset) = next_user (accounts_db s)"
        using same by (simp_all add: on_users_eq updateStatus_def update_user_eq same_users_def update_where_twice)
      then have "users_move (email_sha env) (accounts_db s) (accounts_db ?reset)"
        using pend by (intro users_move_edit [OF valid]) (auto simp: user_edge_def)
      then show "users_move (email_sha env) (accounts_db s) (accounts_db (snd (approvePendingUser site u s)))"
        using up by (auto simp: approve_run [OF x g] split: sum.splits)
    qed
  qed
qed

lemma create_approved_moves:
  fixes k :: "user \<Rightarrow> ('c accounts, 'b) service"
  assumes "\<And>c. mv.keeps env (k c)"
  shows "mv.keeps env (seqs (User_create env nm em pw False) (\<lambda>c. seqs (on_users (updateStatus (uid c) User_approved)) (\<lambda>_. k c)))"
proof (rule mv.keepsI)
  fix s :: "'c accounts"
  let ?m = "seqs (User_create env nm em pw False) (\<lambda>c. seqs (on_users (updateStatus (uid c) User_approved)) (\<lambda>_. k c))"
  let ?d = "accounts_db s" and ?h = "bcrypt_hash env (adraws s) pw"
  show "moves env s (snd (?m s))"
  proof (cases rule: createUser_cases [of nm em ?h "email_sha env" False ?d])
    case 4
    define v where "v = s\<lparr>adraws := Suc (adraws s), adrive := with_db (adrive s)
      (?d\<lparr>users := users ?d @ [new_user ?d nm em ?h False], next_user := Suc (next_user ?d)\<rparr>)\<rparr>"
    have c: "User_create env nm em pw False s = (Inr (new_user ?d nm em ?h False), v)"
      by (simp add: User_create_def seqs_def draw_def on_users_eq 4(6) v_def)
    let ?w = "snd (on_users (updateStatus (next_user ?d) User_approved) v)"
    have run: "?m s = k (new_user ?d nm em ?h False) ?w"
      by (simp add: seqs_def c updateStatus_db new_user_def)
    have "moves env s v"
      using mv.keepsD [OF User_create_moves [where env = env and nm = nm and em = em and pw = pw and adm = False], of s] c
      by simp
    moreover have "moves env v ?w"
      unfolding moves_def
    proof (rule impI)
      assume valid: "users_valid (email_sha env) (accounts_db v)"
      have "ustatus y = User_pending" if y: "y \<in> set (users (accounts_db v))" "uid y = next_user ?d" for y
      proof -
        have "new_user ?d nm em ?h False \<in> set (users (accounts_db v))" by (simp add: v_def)
        then have "y = new_user ?d nm em ?h False"
          using valid y by (intro distinct_map_unique [where g = uid]) (simp_all add: users_valid_def new_user_def)
        then show ?thesis by (simp add: new_user_def)
      qed
      then show "users_move (email_sha env) (accounts_db v) (accounts_db ?w)"
        using updateStatus_moves [OF valid] by (simp add: updateStatus_db)
    qed
    moreover have "moves env ?w (snd (k (new_user ?d nm em ?h False) ?w))" by (rule mv.keepsD [OF assms])
    ultimately show ?thesis unfolding run using mv.ord_trans by blast
  qed (simp_all add: User_create_def seqs_def draw_def on_users_eq moves_def users_move_same)
qed

lemma createAdminUser_moves: "mv.keeps env (createAdminUser env site nm em pw)"
  unfolding createAdminUser_def
  by (intro moves_rules create_approved_moves) (auto intro!: moves_rules on_users_moves deleteUser_moves)

lemma account_step_moves: "account_step env site s t \<Longrightarrow> moves env s t"
proof (induction rule: account_step.induct)
  case (elsewhere t s)
  then show ?case by (intro same_users_moves) (simp add: same_users_def)
qed (rule mv.keepsD, rule auth_ops_move approve_moves reject_moves createAdminUser_moves)+

text \<open>
  C27: The life of an account. Over every history of operations, ids, names and addresses of accounts
  stay unique. An id is never given twice, and a row never changes its id, its name or whether it is an
  administrator; its token version only grows, and its status changes at most from pending to approved
  or rejected, whatever fails in the approval. A row that is gone does not come back.
\<close>

theorem account_lifecycle:
  assumes "users_valid (email_sha env) (accounts_db s)" "(account_step env site)\<^sup>*\<^sup>* s t"
  shows "users_valid (email_sha env) (accounts_db t) \<and>
    (\<forall>y \<in> set (users (accounts_db t)). next_user (accounts_db s) \<le> uid y \<or>
       (\<exists>x \<in> set (users (accounts_db s)). user_edge x y))"
proof -
  have "moves env s t" using assms(2)
  proof (induction rule: rtranclp_induct)
    case (step t u)
    then show ?case using mv.ord_trans account_step_moves by blast
  qed (rule mv.ord_refl)
  then show ?thesis using assms(1) by (auto simp: moves_def users_move_def)
qed

theorem account_lifecycle_witness:
  "list_all (\<lambda>y. \<not> is_admin y \<or> uid y = 8) (users (accounts_db (snd (registerUser demo_env ''eve'' ''e@x.y'' ''secret'' demo_accounts))))"
proof -
  let ?t = "snd (registerUser demo_env ''eve'' ''e@x.y'' ''secret'' demo_accounts)"
  have "users_valid (email_sha demo_env) (accounts_db demo_accounts)" by code_simp
  moreover have "(account_step demo_env (mem_site mem_client))\<^sup>*\<^sup>* demo_accounts ?t"
    by (rule r_into_rtranclp) (rule account_step.registered)
  ultimately have "\<forall>y \<in> set (users (accounts_db ?t)). next_user (accounts_db demo_accounts) \<le> uid y \<or>
      (\<exists>x \<in> set (users (accounts_db demo_accounts)). user_edge x y)"
    using account_lifecycle by blast
  moreover have "list_all (\<lambda>x. is_admin x \<longrightarrow> uid x = 8) (users (accounts_db demo_accounts))"
    "list_all (\<lambda>y. 20 \<le> uid y \<longrightarrow> \<not> is_admin y) (users (accounts_db ?t))" "next_user (accounts_db demo_accounts) = 20"
    by code_simp+
  ultimately show ?thesis by (auto simp: list_all_iff user_edge_def)
qed

section \<open>Approval\<close>

lemma createDirectoryWebdav_db:
  "fst (createDirectoryWebdav site i v) = Inr r \<Longrightarrow> vdb (snd (createDirectoryWebdav site i v)) = vdb v"
proof (cases "isWebdavMode site")
  case True
  assume ok: "fst (createDirectoryWebdav site i v) = Inr r"
  show ?thesis
  proof (cases "resolveWebdavPathOrNull (vdb v) i")
    case None
    then show ?thesis using True ok by (simp add: createDirectoryWebdav_def service_simps throw_def)
  next
    case (Some p)
    obtain x c where x: "makeDirectory (blobs site) p (vstore v) = (x, c)" by fastforce
    then have m: "on_store (makeDirectory (blobs site) p) v = (x, v\<lparr>vstore := c\<rparr>)" by (simp add: on_store_def)
    let ?m = "catching (on_store (makeDirectory (blobs site) p))
        (\<lambda>e. seqs (on_db (updateSyncStatus i Orphaned_node)) (\<lambda>_. throw e))"
    have run: "createDirectoryWebdav site i v = seqs ?m (\<lambda>_. ret (Some p)) v"
      using True Some by (simp add: createDirectoryWebdav_def service_simps)
    have "fst (?m v) = Inl e" if "x = Inl e" for e
      by (simp add: catching_def m that seqs_def throw_def on_db_def updateSyncStatus_def repo_updateSyncStatus_def ret_def)
    moreover have "?m v = (Inr y, v\<lparr>vstore := c\<rparr>)" if "x = Inr y" for y by (simp add: catching_def m that)
    ultimately show ?thesis using ok unfolding run by (cases x; cases "?m v") (auto simp: seqs_def ret_def)
  qed
qed (simp add: createDirectoryWebdav_def ret_def)

text \<open>The home node of a name: what the path of the name resolves to, or a new node of the root.\<close>

definition home_of :: "db \<Rightarrow> string \<Rightarrow> nat" where
  "home_of d nm = (case resolvePath d (CHR ''/'' # nm) of Some v \<Rightarrow> v_id v | None \<Rightarrow> next_node d)"

lemma ensureUserHomeNode_outcome:
  fixes s t :: "'c drive"
  assumes "ensureUserHomeNode site nm s = (Inr h, t)" "tree_ok (drive_db s)"
  shows "h = Some (home_of (drive_db s) nm)" "tree_ok (drive_db t)" "has_node (drive_db t) (home_of (drive_db s) nm)"
    "people_same (drive_db s) (drive_db t)" "dperm t = (dperm s)\<lparr>pdb := drive_db t\<rparr>"
proof -
  let ?d = "drive_db s"
  define made :: "('c drive, node_view) service"
    where "made = (case resolvePath ?d (CHR ''/'' # nm) of Some v \<Rightarrow> ret v | None \<Rightarrow> on_drive_db (createDirectory None nm))"
  have run: "ensureUserHomeNode site nm s = seqs made (\<lambda>node.
      seqs (on_vault (createDirectoryWebdav site (v_id node))) (\<lambda>_. ret (Some (v_id node)))) s"
    by (simp add: ensureUserHomeNode_def reads_db_eq made_def)
  obtain r w where m: "made s = (r, w)" by fastforce
  then obtain node where node: "r = Inr node" using assms(1) run by (cases r) (auto simp: seqs_def)
  obtain r' w' where v: "on_vault (createDirectoryWebdav site (v_id node)) w = (r', w')" by fastforce
  then obtain k where k: "r' = Inr k" using assms(1) run m node by (cases r') (auto simp: seqs_def)
  have t: "t = w'" "h = Some (v_id node)" using assms(1) run m node v k by (auto simp: seqs_def ret_def)
  have w': "drive_db w' = drive_db w" "dperm w' = (dperm w)\<lparr>pdb := drive_db w\<rparr>"
  proof -
    obtain q where q: "createDirectoryWebdav site (v_id node) (vault_of w) = (Inr k, q)"
      using v k by (auto simp: on_vault_def split: prod.splits)
    then have "vdb q = drive_db w"
      using createDirectoryWebdav_db [of site "v_id node" "vault_of w" k] by (simp add: vault_of_def drive_db_def)
    then show "drive_db w' = drive_db w" "dperm w' = (dperm w)\<lparr>pdb := drive_db w\<rparr>"
      using v q by (auto simp: on_vault_def drive_db_def)
  qed
  have *: "v_id node = home_of ?d nm \<and> tree_ok (drive_db w) \<and> has_node (drive_db w) (v_id node) \<and>
      people_same ?d (drive_db w) \<and> dperm w = (dperm s)\<lparr>pdb := drive_db w\<rparr>"
  proof (cases "resolvePath ?d (CHR ''/'' # nm)")
    case (Some v)
    then have wv: "w = s" "node = v" using m node by (simp_all add: made_def ret_def)
    obtain i where "getNode ?d i = Some v" using Some by (auto simp: resolvePath_def Let_def split: if_splits option.splits)
    then have "has_node ?d (v_id v)" using getNode_has by metis
    then show ?thesis using assms(2) Some wv by (simp add: home_of_def ps.ord_refl drive_db_def)
  next
    case None
    obtain e where e: "createDirectory None nm ?d = (Inr node, e)" "w = with_db s e"
      using m node None by (auto simp: made_def on_drive_db_eq split: prod.splits)
    note cc = create_cases [OF assms(2), of None nm Directory, folded createDirectory_def]
    have *: "v_id node = next_node ?d" "tree_ok e" "resolvePathSegment e None nm = Some (v_id node)"
      using cc e(1) by (auto split: if_splits)
    have "has_node e (v_id node)"
      using *(3) by (auto simp: resolvePathSegment_def has_node_def dest!: first_row_in)
    moreover have "people_same ?d e" using ps.keepsD [OF node_ops_people(1), of ?d None nm] e(1) by simp
    ultimately show ?thesis using * None e(2) by (simp add: home_of_def with_db_def drive_db_def)
  qed
  then show "h = Some (home_of (drive_db s) nm)" "tree_ok (drive_db t)" "has_node (drive_db t) (home_of (drive_db s) nm)"
    "people_same (drive_db s) (drive_db t)" "dperm t = (dperm s)\<lparr>pdb := drive_db t\<rparr>"
    using t w' by auto
qed

lemma give_home_outcome:
  assumes "give_home site u nm e e' s = (r, t)" "tree_ok (accounts_db s)" "grants_ok (accounts_db s)"
    and "has_user (accounts_db s) u"
  shows "case r of
      Inr _ \<Rightarrow> users (accounts_db t) = users (accounts_db s) \<and>
        user_paths (accounts_db t) = upsert_grant u (home_of (accounts_db s) nm) Admin (user_paths (accounts_db s)) \<and>
        user_files (accounts_db t) = user_files (accounts_db s) \<and>
        getPathEffectivePermission (accounts_db t) u (home_of (accounts_db s) nm) = Some Admin
    | Inl _ \<Rightarrow> people_same (accounts_db s) (accounts_db t)"
proof -
  let ?d = "accounts_db s"
  obtain x w where hm: "ensureUserHomeNode site nm (adrive s) = (x, w)" by fastforce
  show ?thesis
  proof (cases x)
    case (Inl e1)
    have "drive_people (adrive s) w" using dp.keepsD [OF ensureUserHomeNode_people, of "adrive s" site nm] hm by simp
    then show ?thesis
      using assms(1) by (auto simp: give_home_def seqs_def on_accounts_def hm Inl drive_people_def drive_db_adrive)
  next
    case (Inr h)
    note ok = ensureUserHomeNode_outcome [OF hm [unfolded Inr]]
    have tree: "tree_ok (drive_db (adrive s))" using assms(2) by (simp add: drive_db_adrive)
    let ?h = "home_of ?d nm" and ?p = "dperm w"
    have h: "h = Some ?h" "tree_ok (pdb ?p)" "has_node (pdb ?p) ?h" "people_same ?d (pdb ?p)"
      using ok(1) [OF tree] ok(2) [OF tree] ok(3) [OF tree] ok(4) [OF tree]
      unfolding drive_db_adrive drive_db_def [of w] by blast+
    have g: "grants_ok (pdb ?p)" "has_user (pdb ?p) u"
      using assms(3,4) h(4) by (simp_all add: grants_ok_def has_user_def people_same_def)
    define q where "q = snd (grant_path u ?h Admin ?p)"
    note effect = grant_path_effect [OF h(2) g(1) g(2) h(3), of Admin]
    have gp: "grant_path u ?h Admin ?p = (Inr (), q)" using effect by (simp add: q_def prod_eq_iff)
    have q: "pdb q = (pdb ?p)\<lparr>user_paths := upsert_grant u ?h Admin (user_paths (pdb ?p))\<rparr>"
      using g(2) h(3) by (simp add: q_def store_defs upsertPathPermission_def drop_user_def invalidate_def)
    let ?t = "s\<lparr>adrive := w\<lparr>dperm := q\<rparr>\<rparr>"
    have db: "accounts_db ?t = pdb q" by (simp add: accounts_db_def)
    have eff: "getPathEffectivePermission (pdb q) u ?h = Some Admin" using effect by (simp add: q_def)
    then have "checkPathPermission (pdb q) u ?h ''admin''"
      using meetsRank_names [of Admin Admin] by (auto simp: checkPathPermission_def getPathEffectivePermission_def)
    then have "give_home site u nm e e' s = (Inr (), ?t)"
      by (simp add: give_home_def seqs_def on_accounts_def hm Inr h(1) on_perm_def gp reads_users_def reads_def db guard_def drive_db_def)
    then show ?thesis
      using assms(1) h(4) eff by (auto simp: db q people_same_def drive_db_def)
  qed
qed

definition with_status :: "nat \<Rightarrow> user_status \<Rightarrow> db \<Rightarrow> user list" where
  "with_status u st d = update_where (\<lambda>x. uid x = u) (\<lambda>x. x\<lparr>ustatus := st, uupdated := datetime_now d\<rparr>) (users d)"

text \<open>
  C17: What an approval does. Only a pending account is approved. Its home is whatever node the path of
  its name resolves to, and a new node of the root when there is none. An approval that succeeds leaves
  the account approved and gives it an effective admin permission on that home, one grant row more or
  raised, and touches no other grant. When anything in it fails, the account is pending again and no
  grant has changed. A name is never checked for slashes on the server, so the home can be a node inside
  another user's folder.
\<close>

theorem approve_outcome:
  assumes "approvePendingUser site u s = (r, t)" "tree_ok (accounts_db s)" "grants_ok (accounts_db s)"
    and "r \<noteq> Inl No_return"
  shows "case findById (accounts_db s) u of
      None \<Rightarrow> r = Inl (admin_error ''userNotFound'' 404) \<and> t = s
    | Some x \<Rightarrow>
        if ustatus x \<noteq> User_pending then r = Inl (admin_error ''notPending'' 400) \<and> t = s
        else (case r of
            Inr y \<Rightarrow> y = x\<lparr>ustatus := User_approved\<rparr> \<and> users (accounts_db t) = with_status u User_approved (accounts_db s) \<and>
              user_paths (accounts_db t) =
                upsert_grant u (home_of (accounts_db s) (username x)) Admin (user_paths (accounts_db s)) \<and>
              user_files (accounts_db t) = user_files (accounts_db s) \<and>
              getPathEffectivePermission (accounts_db t) u (home_of (accounts_db s) (username x)) = Some Admin
          | Inl e \<Rightarrow> e = approve_fail \<and> users (accounts_db t) = with_status u User_pending (accounts_db s) \<and>
              user_paths (accounts_db t) = user_paths (accounts_db s) \<and>
              user_files (accounts_db t) = user_files (accounts_db s))"
proof (cases "findById (accounts_db s) u")
  case None
  then show ?thesis using assms(1) approve_refused(1) [OF None, of site] by simp
next
  case (Some x)
  show ?thesis
  proof (cases "ustatus x = User_pending")
    case False
    then show ?thesis using assms(1) Some approve_refused(2) [OF Some False, of site] by simp
  next
    case True
    let ?d = "accounts_db s"
    define s1 where "s1 = snd (on_users (updateStatus u User_approved) s)"
    have d1: "accounts_db s1 = ?d\<lparr>users := with_status u User_approved ?d\<rparr>"
      by (simp add: s1_def on_users_eq updateStatus_def update_user_eq with_status_def)
    obtain r' v where g: "give_home site u (username x) folder_fail approve_fail s1 = (r', v)" by fastforce
    have "u \<in> uid ` set (users ?d)"
      using Some findById_None [of ?d u] by auto
    moreover have "map uid (users (accounts_db s1)) = map uid (users ?d)"
      by (simp add: d1 with_status_def map_update_where)
    ultimately have user: "has_user (accounts_db s1) u"
      unfolding has_user_def by (metis (no_types, lifting) image_iff list.set_map)
    have tree: "tree_ok (accounts_db s1)" by (rule drive_tree_ok [OF _ _ _ assms(2)]) (simp_all add: d1)
    have grants: "grants_ok (accounts_db s1)" using assms(3) by (simp add: d1 grants_ok_def)
    have home: "home_of (accounts_db s1) nm = home_of ?d nm" for nm
    proof -
      have "resolve_segments (accounts_db s1) p ss = resolve_segments ?d p ss" for p ss
        by (induction ss arbitrary: p) (simp_all add: resolvePathSegment_def d1 split: option.splits)
      moreover have "getNode (accounts_db s1) i = getNode ?d i" for i by (simp add: d1 getNode_def cache_of_def)
      moreover have "next_node (accounts_db s1) = next_node ?d" by (simp add: d1)
      ultimately show ?thesis by (simp add: home_of_def resolvePath_def Let_def cong: option.case_cong)
    qed
    note out = give_home_outcome [OF g tree grants user]
    note run = approve_run [OF Some True, of site r' v] g
    show ?thesis
    proof (cases r')
      case (Inr y)
      then have "r = Inr (x\<lparr>ustatus := User_approved\<rparr>)" "t = v" using assms(1) run by (simp_all add: s1_def)
      then show ?thesis using Some True out Inr by (simp add: d1 home [unfolded d1])
    next
      case (Inl e)
      then have "r = Inl approve_fail" "t = snd (on_users (updateStatus u User_pending) v)"
        using assms(1,4) run by (auto simp: s1_def split: if_splits)
      moreover have "people_same (accounts_db s1) (accounts_db v)" using out Inl by simp
      ultimately show ?thesis
        using Some True
        by (simp add: on_users_eq updateStatus_def update_user_eq with_status_def people_same_def d1 datetime_now_def
            update_where_twice)
    qed
  qed
qed

text \<open>
  Somebody registers under the name \<open>a/b\<close>, the path of a folder Ann is admin of, and is approved:
  an admin of Ann's folder.
\<close>

definition slash_named :: "mem accounts" where
  "slash_named = snd (registerUser demo_env ''a/b'' ''x@y.z'' ''secret'' demo_accounts)"

theorem approve_outcome_witness:
  "getPathEffectivePermission (accounts_db slash_named) 20 2 = None \<and>
   getPathEffectivePermission (accounts_db (snd (approvePendingUser (mem_site mem_client) 20 slash_named))) 20 2 = Some Admin"
proof
  have "tree_ok (accounts_db slash_named)"
    by (rule drive_tree_ok [OF _ _ _ shared_ok(1)]) code_simp+
  moreover have "grants_ok (accounts_db slash_named)" by code_simp
  moreover obtain r t where run: "approvePendingUser (mem_site mem_client) 20 slash_named = (r, t)" by fastforce
  moreover have "\<not> isl (fst (approvePendingUser (mem_site mem_client) 20 slash_named))" by code_simp
  then have r: "r \<noteq> Inl No_return" "\<not> isl r" using run by auto
  moreover have "map_option ustatus (findById (accounts_db slash_named) 20) = Some User_pending"
    "map_option (\<lambda>x. home_of (accounts_db slash_named) (username x)) (findById (accounts_db slash_named) 20) = Some 2"
    by code_simp+
  ultimately show "getPathEffectivePermission
      (accounts_db (snd (approvePendingUser (mem_site mem_client) 20 slash_named))) 20 2 = Some Admin"
    using approve_outcome [OF run _ _ r(1)] by (cases r) auto
  show "getPathEffectivePermission (accounts_db slash_named) 20 2 = None" by code_simp
qed

end
