(* ===== verification/Versions.thy ===== *)
theory Versions
  imports Files
begin

text \<open>
  \<open>server/domains/files/services/versionsService.js\<close>: listing, restoring and downloading the versions
  of a file. A restore swaps two rows of the object map in one transaction; no blob moves. The
  thumbnail cache and the enrichment hook, which never throws, are not modelled. A \<open>null\<close> key is the
  empty key for the client of the store, which refuses both.
\<close>

record version_view =
  vv_number :: nat
  vv_status :: obj_status
  vv_created :: int
  vv_size :: "nat option"
  vv_current :: bool

record version_list =
  vl_node :: nat
  vl_current :: "nat option"
  vl_versions :: "version_view list"

record restored_version =
  rv_node :: nat
  rv_number :: nat
  rv_already :: bool

definition restore_unavailable :: err where
  "restore_unavailable = Err ''serverErrors.files.versionRestoreUnavailable'' 409"

definition version_not_found :: err where
  "version_not_found = Err ''serverErrors.files.versionNotFound'' 404"

definition version_blob_missing :: err where
  "version_blob_missing = Err ''serverErrors.files.versionBlobMissing'' 409"

definition headBlobOrNull :: "'c site \<Rightarrow> string option \<Rightarrow> ('c drive, (nat \<times> string option) option) service" where
  "headBlobOrNull site key =
     catching (on_blobs (headBlob (blobs site) (key_arg key)))
       (\<lambda>e. if isNotFoundError e then ret None else throw e)"

text \<open>A size that cannot be read is \<open>null\<close>.\<close>

definition probe_size :: "'c site \<Rightarrow> obj \<Rightarrow> ('c drive, nat option) service" where
  "probe_size site row =
     catching (seqs (on_blobs (headBlob (blobs site) (key_arg (okey row)))) (\<lambda>head. ret (map_option fst head)))
       (\<lambda>_. ret None)"

fun version_views :: "'c site \<Rightarrow> obj list \<Rightarrow> ('c drive, version_view list) service" where
  "version_views site [] = ret []"
| "version_views site (row # rows) =
     seqs (probe_size site row) (\<lambda>sz.
     seqs (version_views site rows) (\<lambda>vs.
     ret (\<lparr>vv_number = overs row, vv_status = ostatus row, vv_created = ocreated row, vv_size = sz,
           vv_current = (ostatus row = Obj_active)\<rparr> # vs)))"

definition listVersions :: "'c site \<Rightarrow> caller \<Rightarrow> nat \<Rightarrow> ('c drive, version_list) service" where
  "listVersions site c nodeId =
     seqs (need_node c nodeId ''read'' files_not_found) (\<lambda>_.
     seqs (reads_db (\<lambda>d. getVersionsByNode d nodeId)) (\<lambda>rows.
     seqs (version_views site rows) (\<lambda>versions.
     ret \<lparr>vl_node = nodeId, vl_current = map_option vv_number (first_row (filter vv_current versions)),
          vl_versions = versions\<rparr>)))"

definition find_version :: "nat \<Rightarrow> obj list \<Rightarrow> obj option" where
  "find_version versionNumber rows = first_row (filter (\<lambda>r. overs r = versionNumber) rows)"

definition find_current :: "obj list \<Rightarrow> obj option" where
  "find_current rows = first_row (filter (\<lambda>r. ostatus r = Obj_active) rows)"

text \<open>The transaction of a restore.\<close>

definition swap_versions :: "nat \<Rightarrow> obj \<Rightarrow> obj option \<Rightarrow> (db, unit) service" where
  "swap_versions nodeId target current =
     seqs (reactivateObjectMapRow (oid target)) (\<lambda>_.
     seqs (case Option.bind current okey of
             Some k \<Rightarrow> if k = [] then ret 0 else demoteActiveToHistory k
           | None \<Rightarrow> ret 0) (\<lambda>_.
     updateSyncStatus nodeId Active))"

text \<open>Once the swap has committed, the content is read again for its hash; failures are ignored.\<close>

definition refresh_cache :: "'c site \<Rightarrow> nat \<Rightarrow> obj \<Rightarrow> nat \<times> string option \<Rightarrow> ('c drive, unit) service" where
  "refresh_cache site nodeId target head =
     seqs (catching (seqs (on_blobs (downloadBlob (blobs site) (key_arg (okey target))))
                      (\<lambda>b. ret (map_option (sha256 site) b)))
            (\<lambda>_. ret None)) (\<lambda>restoredContentHash.
     best_effort (on_drive_db (upsertCache nodeId (fst head) (snd head) restoredContentHash)))"

definition restore_target :: "'c site \<Rightarrow> nat \<Rightarrow> obj option \<Rightarrow> obj \<Rightarrow> ('c drive, restored_version) service" where
  "restore_target site nodeId current target =
     (if map_option oid current = Some (oid target)
      then ret \<lparr>rv_node = nodeId, rv_number = overs target, rv_already = True\<rparr>
      else seqs (headBlobOrNull site (okey target)) (\<lambda>found.
        (case found of None \<Rightarrow> throw version_blob_missing | Some head \<Rightarrow>
          seqs (on_vault (vault_tx (on_db (swap_versions nodeId target current)))) (\<lambda>_.
          seqs (refresh_cache site nodeId target head) (\<lambda>_.
          ret \<lparr>rv_node = nodeId, rv_number = overs target, rv_already = False\<rparr>)))))"

definition restoreVersion :: "'c site \<Rightarrow> caller \<Rightarrow> nat \<Rightarrow> nat \<Rightarrow> ('c drive, restored_version) service" where
  "restoreVersion site c nodeId versionNumber =
     seqs (guard (\<not> isWebdavMode site) restore_unavailable) (\<lambda>_.
     seqs (need_node c nodeId ''write'' permission_denied) (\<lambda>_.
     seqs (reads_db (\<lambda>d. getNode d nodeId)) (\<lambda>found.
     (case found of None \<Rightarrow> throw files_not_found | Some node \<Rightarrow>
     seqs (guard (v_sync node \<noteq> Pending_upload) restore_unavailable) (\<lambda>_.
     seqs (reads_db (\<lambda>d. getVersionsByNode d nodeId)) (\<lambda>rows.
     (case find_version versionNumber rows of
        None \<Rightarrow> throw version_not_found
      | Some target \<Rightarrow> restore_target site nodeId (find_current rows) target)))))))"

definition downloadVersion :: "'c site \<Rightarrow> caller \<Rightarrow> nat \<Rightarrow> nat \<Rightarrow> ('c drive, buffer) service" where
  "downloadVersion site c nodeId versionNumber =
     seqs (need_node c nodeId ''read'' files_not_found) (\<lambda>_.
     seqs (reads_db (\<lambda>d. find_version versionNumber (getVersionsByNode d nodeId))) (\<lambda>target.
     (case Option.bind target okey of
        None \<Rightarrow> throw version_not_found
      | Some k \<Rightarrow> if k = [] then throw version_not_found
          else seqs (on_blobs (downloadBlob (blobs site) k)) (\<lambda>b.
            (case b of None \<Rightarrow> throw files_not_found | Some x \<Rightarrow> ret x)))))"

end
