(* ===== verification/VersionProps.thy ===== *)
theory VersionProps
  imports Versions SharingLaws
begin

text \<open>
  What restoring a version does to the object map, row by row, and what it does to the copies that
  refer to the same blob.
\<close>

section \<open>Checks and store operations leave the database alone\<close>

lemma need_node_cases:
  assumes "need_node c n req e s = (r, t)"
  shows "untouched s t"
    "r = (if is_admin_caller c \<or> fst (checkFilePermission (who c) n req (dperm s)) then Inr () else Inl e)"
proof -
  obtain b p where p: "checkFilePermission (who c) n req (dperm s) = (b, p)" by fastforce
  then have "pdb p = pdb (dperm s)" using file_check_pdb [of "who c" n req "dperm s"] by simp
  then show "untouched s t"
      "r = (if is_admin_caller c \<or> fst (checkFilePermission (who c) n req (dperm s)) then Inr () else Inl e)"
    using assms p by (auto simp: need_node_def seqs_def guard_def ret_def on_acl_def untouched_def drive_db_def split: if_splits)
qed

lemma on_blobs_run:
  "on_blobs m s = (fst (m (dstore s)), s\<lparr>dstore := snd (m (dstore s))\<rparr>)"
  by (cases s; cases "m (dstore s)") (simp add: on_blobs_def on_vault_def on_store_def vault_of_def)

lemma on_blobs_db: "drive_db (snd (on_blobs m s)) = drive_db s"
  by (simp add: on_blobs_run drive_db_def)

lemma headBlobOrNull_db: "headBlobOrNull site k s = (r, t) \<Longrightarrow> drive_db t = drive_db s"
  using on_blobs_db [of "headBlob (blobs site) (key_arg k)" s]
  by (auto simp: headBlobOrNull_def catching_def ret_def throw_def split: prod.splits sum.splits if_splits)

lemma untouched_db: "untouched s t \<Longrightarrow> drive_db t = drive_db s"
  by (simp add: untouched_def)

section \<open>The swap\<close>

definition key_of :: "obj option \<Rightarrow> string" where
  "key_of r = key_arg (Option.bind r okey)"

text \<open>
  A row after the restore of \<open>target\<close> when the current version has key \<open>k\<close>: the target is active
  first, then every active row with the key is history, of whatever node.
\<close>

definition swapped_row :: "obj \<Rightarrow> string \<Rightarrow> obj \<Rightarrow> obj" where
  "swapped_row target k r =
     (let q = (if oid r = oid target \<and> ostatus r = Obj_history then r\<lparr>ostatus := Obj_active\<rparr> else r)
      in if k \<noteq> [] \<and> okey q = Some k \<and> ostatus q = Obj_active then to_history q else q)"

definition synced :: "nat \<Rightarrow> db \<Rightarrow> node list" where
  "synced i d = update_where (\<lambda>n. nid n = i) (\<lambda>n. n\<lparr>nsync := Active, nupdated := datetime_now d\<rparr>) (file_nodes d)"

definition version_swapped :: "nat \<Rightarrow> obj \<Rightarrow> string \<Rightarrow> db \<Rightarrow> db" where
  "version_swapped i target k d =
     d\<lparr>object_map := map (swapped_row target k) (object_map d), file_nodes := synced i d\<rparr>"

lemma swap_versions_eq:
  assumes "objs_ok d" "target \<in> set (object_map d)" "ostatus target \<in> {Obj_active, Obj_history}"
  shows "swap_versions i target current d = (Inr (), version_swapped i target (key_of current) d)"
proof -
  let ?k = "key_of current"
  define d1 where "d1 = d\<lparr>object_map := update_where (\<lambda>r. oid r = oid target \<and> ostatus r \<in> {Obj_history, Obj_orphaned})
    (\<lambda>r. r\<lparr>ostatus := Obj_active\<rparr>) (object_map d)\<rparr>"
  have same: "oid r = oid target \<longleftrightarrow> r = target" if "r \<in> set (object_map d)" for r
    using objs_okD(1) [OF assms(1)] assms(2) that by (metis distinct_map inj_onD)
  have d1': "object_map d1 = map (\<lambda>r. if oid r = oid target \<and> ostatus r = Obj_history
      then r\<lparr>ostatus := Obj_active\<rparr> else r) (object_map d)"
    using same assms(3) by (auto simp: d1_def update_where_def)
  define d2 where "d2 = (if ?k = [] then d1 else d1\<lparr>object_map :=
    update_where (\<lambda>r. okey r = Some ?k \<and> ostatus r = Obj_active) to_history (object_map d1)\<rparr>)"
  have d2': "object_map d2 = map (swapped_row target ?k) (object_map d)"
    by (simp add: d2_def update_where_def d1' swapped_row_def Let_def)
  have rest: "d2 = d\<lparr>object_map := object_map d2\<rparr>"
    by (simp add: d2_def d1_def)
  have "(case Option.bind current okey of Some k \<Rightarrow> if k = [] then ret 0 else demoteActiveToHistory k
      | None \<Rightarrow> ret 0) d1 = (Inr n, d2)" if "n = (if ?k = [] then 0 else
      count_where (\<lambda>r. okey r = Some ?k \<and> ostatus r = Obj_active) (object_map d1))" for n
    using that by (auto simp: key_of_def key_arg_def ret_def d2_def demoteActiveToHistory_def update_objs_def
        to_history_def [abs_def] split: option.splits)
  then have "swap_versions i target current d = updateSyncStatus i Active d2"
    by (simp add: swap_versions_def seqs_def reactivateObjectMapRow_def update_objs_def d1_def)
  moreover have "datetime_now d2 = datetime_now d" "file_nodes d2 = file_nodes d"
    by (subst rest; simp add: datetime_now_def)+
  moreover have "d2\<lparr>file_nodes := ns\<rparr> = d\<lparr>object_map := object_map d2, file_nodes := ns\<rparr>" for ns
    by (subst rest) simp
  ultimately show ?thesis
    by (simp add: updateSyncStatus_def repo_updateSyncStatus_def seqs_def ret_def version_swapped_def synced_def d2')
qed

lemma refresh_cache_cases:
  assumes "refresh_cache site i target head s = (r, t)" "r \<noteq> Inl No_return"
  shows "r = Inr ()" "\<exists>fc. drive_db t = (drive_db s)\<lparr>filecache := fc\<rparr>"
proof -
  let ?get = "catching (seqs (on_blobs (downloadBlob (blobs site) (key_arg (okey target))))
      (\<lambda>b. ret (map_option (sha256 site) b))) (\<lambda>_. ret None) s"
  obtain x w where g: "?get = (x, w)" by fastforce
  have db: "drive_db w = drive_db s"
    using g on_blobs_db [of "downloadBlob (blobs site) (key_arg (okey target))" s]
    by (auto simp: catching_def seqs_def ret_def split: prod.splits sum.splits if_splits)
  have x: "x = Inl No_return" if "isl x"
    using g that by (auto simp: catching_def ret_def split: prod.splits sum.splits if_splits)
  then obtain h where h: "x = Inr h" using assms g by (cases x) (auto simp: refresh_cache_def seqs_def)
  obtain y d' where u: "upsertCache i (fst head) (snd head) h (drive_db w) = (y, d')" by fastforce
  have "y \<noteq> Inl No_return" "\<exists>fc. d' = (drive_db w)\<lparr>filecache := fc\<rparr>"
    using u by (auto simp: upsertCache_def Let_def db_failed_def split: if_splits intro: exI [of _ "filecache (drive_db w)"])
  then show "r = Inr ()" "\<exists>fc. drive_db t = (drive_db s)\<lparr>filecache := fc\<rparr>"
    using assms(1) g h u db
    by (auto simp: refresh_cache_def seqs_def best_effort_def catching_def on_drive_db_eq ret_def
        split: sum.splits if_splits)
qed

section \<open>Properties\<close>

definition may_write :: "'c drive \<Rightarrow> caller \<Rightarrow> nat \<Rightarrow> bool" where
  "may_write s c i \<longleftrightarrow> is_admin_caller c \<or> fst (checkFilePermission (who c) i ''write'' (dperm s))"

definition versions_of :: "'c drive \<Rightarrow> nat \<Rightarrow> obj list" where
  "versions_of s i = getVersionsByNode (drive_db s) i"

lemma versions_iff:
  "r \<in> set (versions_of s i) \<longleftrightarrow> r \<in> set (object_map (drive_db s)) \<and> onode r = i \<and> ostatus r \<in> {Obj_active, Obj_history}"
  by (auto simp: versions_of_def getVersionsByNode_def kept_versions_def node_objs_def is_kept_def)

lemma find_version_in: "find_version n rows = Some r \<Longrightarrow> r \<in> set rows \<and> overs r = n"
  using first_row_in by (fastforce simp: find_version_def)

lemma restore_version_cases:
  assumes "restoreVersion site c i n s = (r, t)" "r \<noteq> Inl No_return" "objs_ok (drive_db s)"
  shows "case r of Inl e \<Rightarrow> drive_db t = drive_db s
    | Inr a \<Rightarrow> \<not> isWebdavMode site \<and> may_write s c i \<and> rv_number a = n \<and>
        (\<exists>target. find_version n (versions_of s i) = Some target \<and>
          (let current = find_current (versions_of s i) in
           if rv_already a then map_option oid current = Some (oid target) \<and> drive_db t = drive_db s
           else \<exists>fc. drive_db t = (version_swapped i target (key_of current) (drive_db s))\<lparr>filecache := fc\<rparr>))"
proof (cases "isWebdavMode site")
  case True
  then show ?thesis using assms(1) by (auto simp: restoreVersion_def service_simps)
next
  case False
  obtain p w where need: "need_node c i ''write'' permission_denied s = (p, w)" by fastforce
  note perm = need_node_cases [OF need]
  have db: "drive_db w = drive_db s" by (rule untouched_db [OF perm(1)])
  let ?rows = "versions_of s i"
  define rest where "rest = restore_target site i (find_current ?rows)"
  have run: "restoreVersion site c i n s = (case p of Inl e \<Rightarrow> (Inl e, w) | Inr _ \<Rightarrow>
      (case getNode (drive_db s) i of None \<Rightarrow> (Inl files_not_found, w) | Some node \<Rightarrow>
        if v_sync node = Pending_upload then (Inl restore_unavailable, w) else
        (case find_version n ?rows of None \<Rightarrow> (Inl version_not_found, w) | Some target \<Rightarrow> rest target w)))"
    using False need
    by (simp add: restoreVersion_def service_simps seqs_def [of "need_node _ _ _ _"] reads_db_eq db throw_def
        versions_of_def rest_def split: sum.splits option.splits)
  show ?thesis
  proof (cases "\<exists>target. find_version n ?rows = Some target \<and> p = Inr () \<and> rest target w = (r, t)")
    case False
    then have "\<exists>e. r = Inl e \<and> t = w"
      using assms(1) run perm(2) by (auto split: sum.splits option.splits if_splits)
    then show ?thesis using db by auto
  next
    case True
    then obtain target where target: "find_version n ?rows = Some target" "p = Inr ()" "rest target w = (r, t)" by blast
    note member = find_version_in [OF target(1)]
    have may: "may_write s c i" using perm(2) target(2) by (simp add: may_write_def split: if_splits)
    show ?thesis
    proof (cases "map_option oid (find_current ?rows) = Some (oid target)")
      case True
      then show ?thesis using target(1,3) may member \<open>\<not> isWebdavMode site\<close> db by (auto simp: rest_def restore_target_def ret_def)
    next
      case differs: False
      obtain h w1 where head: "headBlobOrNull site (okey target) w = (h, w1)" by fastforce
      have on: "rest target w = (case h of Inl e \<Rightarrow> (Inl e, w1) | Inr None \<Rightarrow> (Inl version_blob_missing, w1)
        | Inr (Some head) \<Rightarrow>
            seqs (on_vault (vault_tx (on_db (swap_versions i target (find_current ?rows))))) (\<lambda>_.
            seqs (refresh_cache site i target head) (\<lambda>_.
            ret \<lparr>rv_node = i, rv_number = overs target, rv_already = False\<rparr>)) w1)"
        using differs unfolding rest_def restore_target_def if_False
        by (simp only: if_False seqs_def [of "headBlobOrNull _ _"] head prod.case throw_def split: sum.split option.split) simp
      have db1: "drive_db w1 = drive_db s" using headBlobOrNull_db [OF head] db by simp
      show ?thesis
      proof (cases "\<exists>hd. h = Inr (Some hd)")
        case False
        then have "\<exists>e. r = Inl e \<and> t = w1"
          using target(3) on by (auto split: sum.splits option.splits)
        then show ?thesis using db1 by auto
      next
        case True
        then obtain hd where hd: "h = Inr (Some hd)" by blast
        have target_in: "target \<in> set (object_map (drive_db s))" "ostatus target \<in> {Obj_active, Obj_history}"
          using member versions_iff by blast+
        let ?d = "version_swapped i target (key_of (find_current ?rows)) (drive_db s)"
        have "vdb (vault_of w1) = drive_db s" using db1 by (simp add: vault_of_def drive_db_def)
        then have "on_vault (vault_tx (on_db (swap_versions i target (find_current ?rows)))) w1 = (Inr (), with_db w1 ?d)"
          by (intro on_vault_db) (simp add: vault_tx_def on_db_def swap_versions_eq [OF assms(3) target_in])
        then have go: "rest target w = seqs (refresh_cache site i target hd) (\<lambda>_.
            ret \<lparr>rv_node = i, rv_number = overs target, rv_already = False\<rparr>) (with_db w1 ?d)"
          using on hd by (simp add: seqs_def)
        obtain x v where x: "refresh_cache site i target hd (with_db w1 ?d) = (x, v)" by fastforce
        have "x \<noteq> Inl No_return" using assms(2) target(3) go x by (auto simp: seqs_def)
        note end_state = refresh_cache_cases [OF x this]
        then have "r = Inr \<lparr>rv_node = i, rv_number = overs target, rv_already = False\<rparr>" "t = v"
          using target(3) go x by (auto simp: seqs_def ret_def)
        then show ?thesis using target(1) may member \<open>\<not> isWebdavMode site\<close> end_state(2) by simp
      qed
    qed
  qed
qed

text \<open>
  C24: What restoring a version does. It fails without changing a table, unless it is in S3 mode, the
  caller may write the file, the file exists and is not being uploaded, and it has a kept version of
  the number. Restoring the current version changes nothing. Otherwise the version becomes active, and
  every active row that refers to the blob of the current version becomes history; no row is added
  or removed, the file is in sync, and besides these rows only its cache row changes.
\<close>

theorem restore_version_outcome:
  assumes "restoreVersion site c i n s = (r, t)" "r \<noteq> Inl No_return" "objs_ok (drive_db s)"
  shows "case r of Inl e \<Rightarrow> drive_db t = drive_db s
    | Inr a \<Rightarrow> \<not> isWebdavMode site \<and> may_write s c i \<and> rv_number a = n \<and>
        (\<exists>target. find_version n (versions_of s i) = Some target \<and>
          (let current = find_current (versions_of s i) in
           if rv_already a then map_option oid current = Some (oid target) \<and> drive_db t = drive_db s
           else \<exists>fc. drive_db t = (version_swapped i target (key_of current) (drive_db s))\<lparr>filecache := fc\<rparr>))"
  by (rule restore_version_cases [OF assms])

lemma sole_active_row:
  assumes "status_count d i Obj_active = 1" "getActiveObject d i = Some a"
  shows "filter (\<lambda>r. ostatus r = Obj_active) (node_objs d i) = [a]"
proof -
  have "filter (\<lambda>r. onode r = i \<and> ostatus r = Obj_active) (object_map d)
      = filter (\<lambda>r. ostatus r = Obj_active) (node_objs d i)"
    unfolding node_objs_def filter_filter by (rule arg_cong [where f = "\<lambda>p. filter p _"]) auto
  then have "first_row (filter (\<lambda>r. ostatus r = Obj_active) (node_objs d i)) = Some a"
    "length (filter (\<lambda>r. ostatus r = Obj_active) (node_objs d i)) = 1"
    using assms by (simp_all add: getActiveObject_def status_count_def)
  then show ?thesis by (auto simp: length_Suc_conv first_row_def)
qed

lemma find_current_only:
  assumes "status_count d i Obj_active = 1" "getActiveObject d i = Some a"
  shows "find_current (getVersionsByNode d i) = Some a"
proof -
  have "filter (\<lambda>r. ostatus r = Obj_active) (kept_versions d i) = [a]"
    using sole_active_row [OF assms] by (simp add: kept_versions_def is_kept_def conj_commute filter_filter cong: conj_cong)
  then have "filter (\<lambda>r. ostatus r = Obj_active) (getVersionsByNode d i) = [a]"
    by (simp add: getVersionsByNode_def filter_sort)
  then show ?thesis by (simp add: find_current_def first_row_def)
qed

text \<open>
  C13: Restoring a version takes the content of copies away. A copy of a file refers to the blob of its
  source, and a restore demotes the version that is current by its key. When the current versions of
  two files share a key, restoring another version of one leaves the other without a current version:
  its row is history, and even an administrator who downloads it is told that there is no such file.
\<close>

theorem restore_demotes_copies:
  assumes "restoreVersion site c i n s = (Inr a, t)" "\<not> rv_already a" "objs_ok (drive_db s)"
    and "shares_key (drive_db s) i j k" "i \<noteq> j"
    and "status_count (drive_db s) i Obj_active = 1" "status_count (drive_db s) j Obj_active = 1"
    and "is_admin_caller c'"
  shows "getActiveObject (drive_db t) j = None \<and> fst (fs_downloadFile site c' j t) = Inl files_not_found"
proof -
  let ?d = "drive_db s"
  obtain x y where xy: "getActiveObject ?d i = Some x" "okey x = Some k" "k \<noteq> []"
    "getActiveObject ?d j = Some y" "okey y = Some k"
    using assms(4) by (auto simp: shares_key_def)
  have key: "key_of (find_current (versions_of s i)) = k"
    using find_current_only [OF assms(6) xy(1)] xy(2) by (simp add: versions_of_def key_of_def key_arg_def)
  obtain target fc where t: "find_version n (versions_of s i) = Some target" "\<not> isWebdavMode site"
    "drive_db t = (version_swapped i target k ?d)\<lparr>filecache := fc\<rparr>"
    using restore_version_cases [OF assms(1) _ assms(3)] assms(2) key by auto
  have target: "target \<in> set (object_map ?d)" "onode target = i"
    using find_version_in [OF t(1)] versions_iff by blast+
  have "\<not> (onode q = j \<and> ostatus q = Obj_active)" if q_in: "q \<in> set (object_map (drive_db t))" for q
  proof
    assume q: "onode q = j \<and> ostatus q = Obj_active"
    obtain r where r: "r \<in> set (object_map ?d)" "q = swapped_row target k r"
      using q_in [unfolded t(3)] by (auto simp: version_swapped_def)
    have "onode q = onode r" by (simp add: r(2) swapped_row_def Let_def)
    then have "onode r = j" using q by simp
    then have "oid r \<noteq> oid target"
      using objs_okD(1) [OF assms(3)] r(1) target assms(5) by (metis distinct_map inj_onD)
    then have "ostatus r = Obj_active" using q r(2) by (auto simp: swapped_row_def Let_def split: if_splits)
    then have "r \<in> set (filter (\<lambda>r. ostatus r = Obj_active) (node_objs ?d j))"
      using r(1) \<open>onode r = j\<close> by (simp add: node_objs_def)
    then have "r = y" unfolding sole_active_row [OF assms(7) xy(4)] by simp
    then show False using q r(2) xy(3,5) \<open>oid r \<noteq> oid target\<close> \<open>ostatus r = Obj_active\<close>
      by (simp add: swapped_row_def)
  qed
  then have none: "getActiveObject (drive_db t) j = None"
    by (auto simp: getActiveObject_def first_row_None filter_empty_conv)
  then have "on_vault (downloadNode site j) t = (Inr None, t)"
    using t(2) by (intro on_vault_same) (simp add: downloadNode_def service_simps ret_def vault_of_def drive_db_def)
  then have "fst (fs_downloadFile site c' j t) = Inl files_not_found"
    using assms(8) by (simp add: fs_downloadFile_def need_node_def seqs_ret seqs_Inr throw_def)
  then show ?thesis using none by simp
qed

text \<open>A file with two versions, its copy, and the restore of the first version.\<close>

definition versioned_drive :: "mem drive" where
  "versioned_drive = snd (fs_copyFile (mem_site mem_client) root_caller 5 (Some 4) None
     (snd (fs_uploadFile (mem_site mem_client) root_caller (Some 2) ''g'' [7] None (Some ''overwrite'') demo_drive)))"

lemma versioned_facts:
  "objs_ok (drive_db versioned_drive)" "status_count (drive_db versioned_drive) 5 Obj_active = 1"
  "status_count (drive_db versioned_drive) 6 Obj_active = 1"
  "fst (restoreVersion (mem_site mem_client) root_caller 5 1 versioned_drive) = Inr \<lparr>rv_node = 5, rv_number = 1, rv_already = False\<rparr>"
  by code_simp+

theorem restore_demotes_copies_witness:
  "fst (fs_downloadFile (mem_site mem_client) root_caller 6 versioned_drive) = Inr [7] \<and>
   fst (fs_downloadFile (mem_site mem_client) root_caller 6
     (snd (restoreVersion (mem_site mem_client) root_caller 5 1 versioned_drive))) = Inl files_not_found"
proof
  show "fst (fs_downloadFile (mem_site mem_client) root_caller 6 versioned_drive) = Inr [7]" by code_simp
  have "map_option okey (getActiveObject (drive_db versioned_drive) 5) = Some (Some ''k0'')"
    "map_option okey (getActiveObject (drive_db versioned_drive) 6) = Some (Some ''k0'')" by code_simp+
  then have "shares_key (drive_db versioned_drive) 5 6 ''k0''" by (auto simp: shares_key_def)
  moreover obtain r t where run: "restoreVersion (mem_site mem_client) root_caller 5 1 versioned_drive = (r, t)" by fastforce
  ultimately show "fst (fs_downloadFile (mem_site mem_client) root_caller 6
     (snd (restoreVersion (mem_site mem_client) root_caller 5 1 versioned_drive))) = Inl files_not_found"
    using restore_demotes_copies [of "mem_site mem_client" root_caller 5 1 versioned_drive _ t 6 _ root_caller]
      versioned_facts by (simp add: is_admin_caller_def root_caller_def)
qed

theorem restore_version_outcome_witness:
  "\<exists>target fc. find_version 1 (versions_of versioned_drive 5) = Some target \<and>
     drive_db (snd (restoreVersion (mem_site mem_client) root_caller 5 1 versioned_drive))
       = (version_swapped 5 target ''k0'' (drive_db versioned_drive))\<lparr>filecache := fc\<rparr>"
proof -
  obtain r t where run: "restoreVersion (mem_site mem_client) root_caller 5 1 versioned_drive = (r, t)" by fastforce
  have "key_of (find_current (versions_of versioned_drive 5)) = ''k0''" by code_simp
  then show ?thesis
    using restore_version_outcome [OF run _ versioned_facts(1)] versioned_facts(4) run by auto
qed

end
