(* ===== verification/Batch.thy ===== *)
theory Batch
  imports Files Journal
begin

text \<open>
  Batches: \<open>files/services/batchOperationService.js\<close> (the three loops, the bulk worker, the journal row
  of a batch and its undo), \<open>files/stores/operationProgress.js\<close> (jobs, download progress, preview tickets)
  and \<open>files/services/conflictResolver.js\<close>. What the cancel flag of a job says when the loop reaches an
  item is an argument: the flag is set by another request while the loop waits.
\<close>

section \<open>The loop over the items\<close>

datatype 'i item_error = Item_skipped 'i string | Item_failed 'i string

record ('i, 'r) batch_result =
  br_count :: nat
  br_succeeded :: "'r list"
  br_errors :: "'i item_error list"
  br_cancelled :: bool

definition no_items :: "('i, 'r) batch_result" where
  "no_items = \<lparr>br_count = 0, br_succeeded = [], br_errors = [], br_cancelled = False\<rparr>"

text \<open>\<open>err.message || 'unknown_error'\<close>.\<close>

definition reason_of :: "err \<Rightarrow> string" where
  "reason_of e = (if err_message e = [] then ''unknown_error'' else err_message e)"

text \<open>A step answers \<open>None\<close> when the permission check of the loop fails.\<close>

definition record_item :: "'i \<Rightarrow> err + 'r option \<Rightarrow> ('i, 'r) batch_result \<Rightarrow> ('i, 'r) batch_result" where
  "record_item x outcome acc =
     (case outcome of
        Inr (Some r) \<Rightarrow> acc\<lparr>br_count := Suc (br_count acc), br_succeeded := br_succeeded acc @ [r]\<rparr>
      | Inr None \<Rightarrow> acc\<lparr>br_errors := br_errors acc @ [Item_skipped x ''permission_denied'']\<rparr>
      | Inl e \<Rightarrow> acc\<lparr>br_errors := br_errors acc @ [Item_failed x (reason_of e)]\<rparr>)"

fun batch_loop ::
  "(nat \<Rightarrow> bool) \<Rightarrow> ('i \<Rightarrow> ('s, 'r option) service) \<Rightarrow> nat \<Rightarrow> 'i list \<Rightarrow> ('i, 'r) batch_result \<Rightarrow>
     ('s, ('i, 'r) batch_result) service" where
  "batch_loop isCancelled step index [] acc = ret acc"
| "batch_loop isCancelled step index (x # xs) acc =
     (if isCancelled index
      then ret (acc\<lparr>br_errors := br_errors acc @ map (\<lambda>y. Item_skipped y ''cancelled'') (x # xs), br_cancelled := True\<rparr>)
      else seqs (catching (seqs (step x) (\<lambda>r. ret (Inr r))) (\<lambda>e. ret (Inl e))) (\<lambda>outcome.
           batch_loop isCancelled step (Suc index) xs (record_item x outcome acc)))"

section \<open>The three batches\<close>

definition batch_allowed :: "caller \<Rightarrow> ('c drive, bool) service \<Rightarrow> ('c drive, bool) service" where
  "batch_allowed c check = (if is_admin_caller c then ret True else check)"

definition delete_item :: "'c site \<Rightarrow> caller \<Rightarrow> nat \<Rightarrow> ('c drive, nat option) service" where
  "delete_item site c nodeId =
     seqs (batch_allowed c (on_acl (checkFilePermission (who c) nodeId ''write''))) (\<lambda>canWrite.
     if \<not> canWrite then ret None
     else seqs (fs_deleteNode site c nodeId) (\<lambda>_. ret (Some nodeId)))"

definition batchDelete ::
  "'c site \<Rightarrow> caller \<Rightarrow> (nat \<Rightarrow> bool) \<Rightarrow> nat list \<Rightarrow> ('c drive, (nat, nat) batch_result) service" where
  "batchDelete site c isCancelled nodeIds = batch_loop isCancelled (delete_item site c) 0 nodeIds no_items"

record move_item =
  sourceNodeId :: nat
  destinationParentNodeId :: nat

text \<open>The previous parent is \<open>undefined\<close> when the read found no node.\<close>

record moved_item =
  md_item :: move_item
  md_previous :: "nat option option"

definition may_transfer :: "caller \<Rightarrow> string \<Rightarrow> nat \<Rightarrow> nat \<Rightarrow> ('c drive, bool) service" where
  "may_transfer c required source dest =
     batch_allowed c
       (seqs (on_acl (checkFilePermission (who c) source required)) (\<lambda>source_ok.
        seqs (on_acl (checkFolderPermission (who c) dest ''write'')) (\<lambda>dest_ok. ret (source_ok \<and> dest_ok))))"

definition move_one :: "'c site \<Rightarrow> caller \<Rightarrow> move_item \<Rightarrow> ('c drive, moved_item option) service" where
  "move_one site c m =
     seqs (may_transfer c ''write'' (sourceNodeId m) (destinationParentNodeId m)) (\<lambda>allowed.
     if \<not> allowed then ret None
     else seqs (reads_db (\<lambda>d. getNode d (sourceNodeId m))) (\<lambda>sourceNode.
          seqs (fs_moveNode site c (sourceNodeId m) (Some (destinationParentNodeId m))) (\<lambda>_.
          ret (Some \<lparr>md_item = m, md_previous = map_option v_parentId sourceNode\<rparr>))))"

definition batchMove ::
  "'c site \<Rightarrow> caller \<Rightarrow> (nat \<Rightarrow> bool) \<Rightarrow> move_item list \<Rightarrow> ('c drive, (move_item, moved_item) batch_result) service" where
  "batchMove site c isCancelled moves = batch_loop isCancelled (move_one site c) 0 moves no_items"

record copy_item =
  cp_source :: nat
  cp_dest :: nat
  cp_name :: "string option"

record copied_item =
  cd_item :: copy_item
  cd_node :: nat
  cd_name :: "string option"

definition copy_one :: "'c site \<Rightarrow> caller \<Rightarrow> copy_item \<Rightarrow> ('c drive, copied_item option) service" where
  "copy_one site c m =
     seqs (may_transfer c ''read'' (cp_source m) (cp_dest m)) (\<lambda>allowed.
     if \<not> allowed then ret None
     else seqs (fs_copyFile site c (cp_source m) (Some (cp_dest m)) (cp_name m)) (\<lambda>copiedNodeId.
          seqs (reads_db (\<lambda>d. getNode d copiedNodeId)) (\<lambda>createdNode.
          ret (Some \<lparr>cd_item = m, cd_node = copiedNodeId, cd_name = map_option v_name createdNode\<rparr>))))"

definition batchCopy ::
  "'c site \<Rightarrow> caller \<Rightarrow> (nat \<Rightarrow> bool) \<Rightarrow> copy_item list \<Rightarrow> ('c drive, (copy_item, copied_item) batch_result) service" where
  "batchCopy site c isCancelled copies = batch_loop isCancelled (copy_one site c) 0 copies no_items"

section \<open>The journal row of a batch\<close>

datatype batch_inverse = Move_back "nat option" | Trash_node

record batch_item =
  bi_node :: nat
  bi_parent :: "nat option"
  bi_name :: "string option"
  bi_inverse :: batch_inverse

record batch_payload =
  bp_operation :: string
  bp_job :: string
  bp_items :: "batch_item list"

text \<open>\<open>buildBatchJournalItems\<close>, for moves and for copies.\<close>

definition move_journal_items :: "moved_item list \<Rightarrow> batch_item list" where
  "move_journal_items succeeded =
     map (\<lambda>e. \<lparr>bi_node = sourceNodeId (md_item e), bi_parent = Some (destinationParentNodeId (md_item e)), bi_name = None,
                bi_inverse = Move_back (the (md_previous e))\<rparr>)
       (filter (\<lambda>e. md_previous e \<noteq> None) succeeded)"

definition copy_journal_items :: "copied_item list \<Rightarrow> batch_item list" where
  "copy_journal_items succeeded =
     map (\<lambda>e. \<lparr>bi_node = cd_node e, bi_parent = Some (cp_dest (cd_item e)), bi_name = cd_name e, bi_inverse = Trash_node\<rparr>)
       (filter (\<lambda>e. cd_name e \<noteq> None) succeeded)"

section \<open>Undoing a batch\<close>

text \<open>The undo runs in one database transaction. A rollback does not reach the blob store.\<close>

definition drive_tx :: "('c drive, 'a) service \<Rightarrow> ('c drive, 'a) service" where
  "drive_tx m s =
     (case m s of
        (Inl e, t) \<Rightarrow> (Inl (mapDatabaseError e), t\<lparr>dperm := (dperm t)\<lparr>pdb := pdb (dperm s)\<rparr>\<rparr>)
      | (Inr x, t) \<Rightarrow> (Inr x, t))"

definition item_changed :: "bool \<times> string option" where
  "item_changed = (False, Some ''changed'')"

text \<open>The remote part of moving a node back, in WebDAV mode.\<close>

definition move_back_remote :: "'c site \<Rightarrow> nat \<Rightarrow> string \<Rightarrow> ('c drive, unit) service" where
  "move_back_remote site nodeId batchedPath =
     seqs (reads_db (\<lambda>d. getNodePath d nodeId)) (\<lambda>restoredPath.
     catching (on_blobs (moveBlob (blobs site) batchedPath restoredPath False))
       (\<lambda>e. if source_not_found e
            then seqs (on_drive_db (repo_updateSyncStatus nodeId Orphaned_node)) (\<lambda>_. ret ())
            else throw e))"

definition move_node_back :: "'c site \<Rightarrow> nat \<Rightarrow> nat option \<Rightarrow> ('c drive, bool \<times> string option) service" where
  "move_node_back site nodeId restoreParentId =
     seqs (reads_db (\<lambda>d. getDescendantIds d nodeId)) (\<lambda>descendants.
     if restoreParentId \<noteq> None \<and> the restoreParentId \<in> set descendants then ret item_changed
     else seqs (reads_db (\<lambda>d. getNodePath d nodeId)) (\<lambda>batchedPath.
          seqs (on_drive_db (repo_moveNode nodeId restoreParentId)) (\<lambda>_.
          seqs (on_drive_db (rebuildAncestorsAfterMove nodeId restoreParentId)) (\<lambda>_.
          seqs (if isWebdavMode site then move_back_remote site nodeId batchedPath else ret ()) (\<lambda>_.
          ret (True, None))))))"

definition trash_copied :: "'c site \<Rightarrow> nat \<Rightarrow> nat \<Rightarrow> ('c drive, bool \<times> string option) service" where
  "trash_copied site actor nodeId =
     seqs (on_acl (getCachedUser actor)) (\<lambda>user.
     (case user of
        None \<Rightarrow> throw (Err ''serverErrors.auth.userNotFound'' 409)
      | Some x \<Rightarrow>
          seqs (fs_deleteNode site \<lparr>who = User_id actor, hasUser = True, adminUser = is_admin x\<rparr> nodeId) (\<lambda>_.
          ret (True, None))))"

definition applyBatchItemInverse :: "'c site \<Rightarrow> nat \<Rightarrow> batch_item \<Rightarrow> ('c drive, bool \<times> string option) service" where
  "applyBatchItemInverse site actor item =
     seqs (reads_db (\<lambda>d. getNode d (bi_node item))) (\<lambda>found.
     (case found of
        None \<Rightarrow> ret item_changed
      | Some node \<Rightarrow>
          if v_parentId node \<noteq> bi_parent item then ret item_changed
          else (case bi_inverse item of
              Move_back restoreParentId \<Rightarrow> move_node_back site (bi_node item) restoreParentId
            | Trash_node \<Rightarrow>
                if bi_name item \<noteq> None \<and> bi_name item \<noteq> Some (v_name node) then ret item_changed
                else trash_copied site actor (bi_node item))))"

fun apply_items :: "'c site \<Rightarrow> nat \<Rightarrow> batch_item list \<Rightarrow> ('c drive, (bool \<times> string option) list) service" where
  "apply_items site actor [] = ret []"
| "apply_items site actor (item # items) =
     seqs (applyBatchItemInverse site actor item) (\<lambda>outcome.
     seqs (apply_items site actor items) (\<lambda>outcomes. ret (outcome # outcomes)))"

text \<open>\<open>applyBatchUndoExecutor\<close> in the transaction of \<open>undoAction\<close>.\<close>

definition undo_batch :: "'c site \<Rightarrow> nat \<Rightarrow> batch_payload \<Rightarrow> ('c drive, (bool \<times> string option) list) service" where
  "undo_batch site actor payload = drive_tx (apply_items site actor (bp_items payload))"

section \<open>operationProgress.js\<close>

datatype bulk_payload = Bulk_delete "nat list" | Bulk_move "move_item list" | Bulk_copy "copy_item list"

datatype bulk_status = Bulk_pending | Bulk_running | Bulk_completed | Bulk_cancelled | Bulk_failed

datatype bulk_subject = On_node nat | On_pair nat nat

record bulk_entry =
  be_subject :: bulk_subject
  be_status :: string
  be_reason :: "string option"

record bulk_job =
  bj_user :: nat
  bj_payload :: bulk_payload
  bj_status :: bulk_status
  bj_results :: "bulk_entry list"
  bj_progress :: nat
  bj_total :: nat
  bj_cancelled :: bool
  bj_created :: int
  bj_error :: "string option"
  bj_undo :: "nat option"

record ticket =
  tk_principal :: principal
  tk_node :: nat

record ('c, 'd) bulk =
  bdrive :: "'c drive"
  bjobs :: "(string, bulk_job) adapter"
  bdownloads :: "(string, 'd) adapter"
  btickets :: "(string, ticket) adapter"
  bjournal :: "(batch_payload, unit) journal"
  bdraws :: nat

definition bulk_now :: "('c, 'd) bulk \<Rightarrow> int" where
  "bulk_now s = clock (pdb (dperm (bdrive s)))"

definition BULK_JOB_TTL_MS :: int where
  "BULK_JOB_TTL_MS = 3600000"

definition job_key :: "string \<Rightarrow> string" where
  "job_key jobId = ''bj:'' @ jobId"

definition payload_total :: "bulk_payload \<Rightarrow> nat" where
  "payload_total p = (case p of Bulk_delete ids \<Rightarrow> length ids | Bulk_move ms \<Rightarrow> length ms | Bulk_copy cs \<Rightarrow> length cs)"

definition createJob :: "(nat \<Rightarrow> string) \<Rightarrow> nat \<Rightarrow> bulk_payload \<Rightarrow> (('c, 'd) bulk, string) service" where
  "createJob random_id userId payload s =
     (let jobId = random_id (bdraws s);
          job = \<lparr>bj_user = userId, bj_payload = payload, bj_status = Bulk_pending, bj_results = [], bj_progress = 0,
                 bj_total = payload_total payload, bj_cancelled = False, bj_created = bulk_now s, bj_error = None,
                 bj_undo = None\<rparr>
      in (Inr jobId, s\<lparr>bdraws := Suc (bdraws s), bjobs := cache_set (bulk_now s) (job_key jobId) job None (bjobs s)\<rparr>))"

definition isJobExpired :: "int \<Rightarrow> bulk_job \<Rightarrow> bool" where
  "isJobExpired now job \<longleftrightarrow>
     bj_status job \<in> {Bulk_completed, Bulk_cancelled, Bulk_failed} \<and> now - bj_created job > BULK_JOB_TTL_MS"

definition getJob :: "string \<Rightarrow> (('c, 'd) bulk, bulk_job option) service" where
  "getJob jobId s =
     (case cache_get (bulk_now s) (job_key jobId) (bjobs s) of
        (None, c) \<Rightarrow> (Inr None, s\<lparr>bjobs := c\<rparr>)
      | (Some job, c) \<Rightarrow>
          if isJobExpired (bulk_now s) job
          then (Inr None, s\<lparr>bjobs := snd (cache_delete (job_key jobId) c)\<rparr>)
          else (Inr (Some job), s\<lparr>bjobs := c\<rparr>))"

text \<open>The object in the cache is changed in place.\<close>

definition mutate_job :: "string \<Rightarrow> (bulk_job \<Rightarrow> bulk_job) \<Rightarrow> (('c, 'd) bulk, bool) service" where
  "mutate_job jobId f s =
     (case cache_get (bulk_now s) (job_key jobId) (bjobs s) of
        (None, c) \<Rightarrow> (Inr False, s\<lparr>bjobs := c\<rparr>)
      | (Some job, c) \<Rightarrow> (Inr True, s\<lparr>bjobs := map (\<lambda>(k, e).
            if k = job_key jobId then (k, e\<lparr>entry_value := f (entry_value e)\<rparr>) else (k, e)) c\<rparr>))"

definition setJobCancelled :: "string \<Rightarrow> (('c, 'd) bulk, bool) service" where
  "setJobCancelled jobId = mutate_job jobId (\<lambda>job. job\<lparr>bj_cancelled := True\<rparr>)"

definition updateJob :: "string \<Rightarrow> (bulk_job \<Rightarrow> bulk_job) \<Rightarrow> (('c, 'd) bulk, unit) service" where
  "updateJob jobId f = seqs (mutate_job jobId f) (\<lambda>_. ret ())"

definition setDownloadProgress :: "string \<Rightarrow> 'd \<Rightarrow> (('c, 'd) bulk, unit) service" where
  "setDownloadProgress i st = updates (\<lambda>s. s\<lparr>bdownloads := cache_set (bulk_now s) (''dp:'' @ i) st None (bdownloads s)\<rparr>)"

text \<open>What the timer of \<open>cleanupDownloadProgress\<close> does when it fires.\<close>

definition cleanupDownloadProgress :: "string \<Rightarrow> (('c, 'd) bulk, unit) service" where
  "cleanupDownloadProgress i = updates (\<lambda>s. s\<lparr>bdownloads := snd (cache_delete (''dp:'' @ i) (bdownloads s))\<rparr>)"

text \<open>\<open>configured\<close> is the setting as \<open>parseInt\<close> reads it; zero and \<open>NaN\<close> are falsy.\<close>

definition ticket_ttl :: "int option \<Rightarrow> int option \<Rightarrow> int" where
  "ticket_ttl ttlMs configured =
     (case ttlMs of Some t \<Rightarrow> (if t \<noteq> 0 then t else case configured of Some n \<Rightarrow> if n \<noteq> 0 then n else 120000 | None \<Rightarrow> 120000)
      | None \<Rightarrow> (case configured of Some n \<Rightarrow> if n \<noteq> 0 then n else 120000 | None \<Rightarrow> 120000))"

definition issuePreviewTicket ::
  "(nat \<Rightarrow> string) \<Rightarrow> int option \<Rightarrow> principal \<Rightarrow> nat \<Rightarrow> int option \<Rightarrow> (('c, 'd) bulk, string) service" where
  "issuePreviewTicket random_hex configured principalId fileNodeId ttlMs s =
     (let tk = random_hex (bdraws s)
      in (Inr tk, s\<lparr>bdraws := Suc (bdraws s),
            btickets := cache_set (bulk_now s) (''pt:'' @ tk) \<lparr>tk_principal = principalId, tk_node = fileNodeId\<rparr>
              (Some (ticket_ttl ttlMs configured)) (btickets s)\<rparr>))"

definition readPreviewTicket :: "string \<Rightarrow> (('c, 'd) bulk, ticket option) service" where
  "readPreviewTicket tk s =
     (if tk = [] then (Inr None, s)
      else case cache_get (bulk_now s) (''pt:'' @ tk) (btickets s) of (r, c) \<Rightarrow> (Inr r, s\<lparr>btickets := c\<rparr>))"

section \<open>The bulk worker\<close>

definition on_bulk :: "('c drive, 'a) service \<Rightarrow> (('c, 'd) bulk, 'a) service" where
  "on_bulk m s = (case m (bdrive s) of (r, t) \<Rightarrow> (r, s\<lparr>bdrive := t\<rparr>))"

definition on_bulk_journal :: "((batch_payload, unit) journal, 'a) service \<Rightarrow> (('c, 'd) bulk, 'a) service" where
  "on_bulk_journal m s = (case m (bjournal s) of (r, t) \<Rightarrow> (r, s\<lparr>bjournal := t\<rparr>))"

fun error_entry :: "('i \<Rightarrow> bulk_subject) \<Rightarrow> 'i item_error \<Rightarrow> bulk_entry" where
  "error_entry f (Item_skipped x why) = \<lparr>be_subject = f x, be_status = ''skipped'', be_reason = Some why\<rparr>"
| "error_entry f (Item_failed x why) = \<lparr>be_subject = f x, be_status = ''failed'', be_reason = Some why\<rparr>"

definition succeeded_entry :: "bulk_subject \<Rightarrow> bulk_entry" where
  "succeeded_entry x = \<lparr>be_subject = x, be_status = ''succeeded'', be_reason = None\<rparr>"

definition move_subject :: "move_item \<Rightarrow> bulk_subject" where
  "move_subject m = On_pair (sourceNodeId m) (destinationParentNodeId m)"

definition copy_subject :: "copy_item \<Rightarrow> bulk_subject" where
  "copy_subject m = On_pair (cp_source m) (cp_dest m)"

text \<open>\<open>publicSucceededEntries\<close> and the errors after them.\<close>

definition public_results :: "('r \<Rightarrow> bulk_subject) \<Rightarrow> ('i \<Rightarrow> bulk_subject) \<Rightarrow> ('i, 'r) batch_result \<Rightarrow> bulk_entry list" where
  "public_results f g result =
     map (\<lambda>r. succeeded_entry (f r)) (br_succeeded result) @ map (error_entry g) (br_errors result)"

record bulk_report =
  bo_entries :: "bulk_entry list"
  bo_count :: nat
  bo_cancelled :: bool
  bo_items :: "batch_item list"

definition report_of ::
  "('r \<Rightarrow> bulk_subject) \<Rightarrow> ('i \<Rightarrow> bulk_subject) \<Rightarrow> ('r list \<Rightarrow> batch_item list) \<Rightarrow> ('i, 'r) batch_result \<Rightarrow> bulk_report" where
  "report_of f g items result =
     \<lparr>bo_entries = public_results f g result, bo_count = br_count result, bo_cancelled = br_cancelled result,
      bo_items = items (br_succeeded result)\<rparr>"

definition run_payload :: "'c site \<Rightarrow> caller \<Rightarrow> (nat \<Rightarrow> bool) \<Rightarrow> bulk_payload \<Rightarrow> ('c drive, bulk_report) service" where
  "run_payload site c isCancelled p =
     (case p of
        Bulk_delete ids \<Rightarrow> seqs (batchDelete site c isCancelled ids) (\<lambda>r. ret (report_of On_node On_node (\<lambda>_. []) r))
      | Bulk_move ms \<Rightarrow> seqs (batchMove site c isCancelled ms) (\<lambda>r.
          ret (report_of (\<lambda>e. move_subject (md_item e)) move_subject move_journal_items r))
      | Bulk_copy cs \<Rightarrow> seqs (batchCopy site c isCancelled cs) (\<lambda>r.
          ret (report_of (\<lambda>e. copy_subject (cd_item e)) copy_subject copy_journal_items r)))"

definition operation_name :: "bulk_payload \<Rightarrow> string" where
  "operation_name p = (case p of Bulk_delete _ \<Rightarrow> ''delete'' | Bulk_move _ \<Rightarrow> ''move'' | Bulk_copy _ \<Rightarrow> ''copy'')"

text \<open>The journal row; a failure of the journal is absorbed.\<close>

definition journal_batch ::
  "journal_env \<Rightarrow> string \<Rightarrow> nat \<Rightarrow> bulk_payload \<Rightarrow> batch_item list \<Rightarrow> (('c, 'd) bulk, nat option) service" where
  "journal_batch env jobId userId p items =
     (if items = [] then ret None
      else catching
        (seqs (on_bulk_journal (commitChange env ''batch'' (Subject (''batch:'' @ jobId))
                 \<lparr>m_actor = decimal userId, m_action = operation_name p, m_label = None\<rparr>
                 (\<lambda>_. \<lparr>bp_operation = operation_name p, bp_job = jobId, bp_items = items\<rparr>) (ret ()))) (\<lambda>(i, _).
         ret (Some i)))
        (\<lambda>_. ret None))"

definition finish_job :: "string \<Rightarrow> bulk_report \<Rightarrow> nat option \<Rightarrow> (('c, 'd) bulk, unit) service" where
  "finish_job jobId rep undo_id =
     updateJob jobId (\<lambda>job. job\<lparr>bj_status := (if bo_cancelled rep then Bulk_cancelled else Bulk_completed),
       bj_progress := bo_count rep, bj_results := bo_entries rep, bj_undo := undo_id\<rparr>)"

definition fail_job :: "string \<Rightarrow> string \<Rightarrow> (('c, 'd) bulk, unit) service" where
  "fail_job jobId msg = updateJob jobId (\<lambda>job. job\<lparr>bj_status := Bulk_failed, bj_error := Some msg\<rparr>)"

definition processBulkJob :: "'c site \<Rightarrow> journal_env \<Rightarrow> (nat \<Rightarrow> bool) \<Rightarrow> string \<Rightarrow> (('c, 'd) bulk, unit) service" where
  "processBulkJob site env isCancelled jobId =
     seqs (getJob jobId) (\<lambda>found.
     (case found of None \<Rightarrow> ret () | Some job \<Rightarrow>
       catching
         (seqs (on_bulk (on_acl (getCachedUser (bj_user job)))) (\<lambda>user.
          (case user of
             None \<Rightarrow> fail_job jobId ''serverErrors.auth.userNotFound''
           | Some x \<Rightarrow>
               seqs (updateJob jobId (\<lambda>job. job\<lparr>bj_status := Bulk_running, bj_progress := 0\<rparr>)) (\<lambda>_.
               seqs (on_bulk (run_payload site \<lparr>who = User_id (bj_user job), hasUser = True, adminUser = is_admin x\<rparr>
                       isCancelled (bj_payload job))) (\<lambda>rep.
               seqs (journal_batch env jobId (bj_user job) (bj_payload job) (bo_items rep)) (\<lambda>undo_id.
                 finish_job jobId rep undo_id))))))
         (\<lambda>e. fail_job jobId (err_message e))))"

section \<open>conflictResolver.js\<close>

datatype conflict_op = Upload_op "nat option" string | Transfer_op string "nat option" "nat option"

record conflict =
  cf_source :: "nat option"
  cf_dest :: nat
  cf_existing :: nat
  cf_name :: string
  cf_type :: string

text \<open>Ids of nodes are positive: zero and \<open>null\<close> are both no id. A source that is missing is reported as -1.\<close>

definition conflict_of :: "db \<Rightarrow> conflict_op \<Rightarrow> conflict option" where
  "conflict_of d op =
     (case op of
        Upload_op dest nm \<Rightarrow>
          (case dest of None \<Rightarrow> None | Some p \<Rightarrow>
             if nm = [] then None
             else map_option (\<lambda>c. \<lparr>cf_source = None, cf_dest = p, cf_existing = v_id c, cf_name = nm, cf_type = ''upload''\<rparr>)
               (first_row (filter (\<lambda>c. v_name c = nm \<and> v_type c \<noteq> Directory) (listDirectory d (Some p)))))
      | Transfer_op ty source dest \<Rightarrow>
          (case dest of None \<Rightarrow> None | Some p \<Rightarrow>
             (case source of None \<Rightarrow> None | Some i \<Rightarrow>
                (case getNode d i of None \<Rightarrow> None | Some n \<Rightarrow>
                   if v_name n = [] then None
                   else map_option (\<lambda>c. \<lparr>cf_source = Some i, cf_dest = p, cf_existing = v_id c, cf_name = v_name n,
                            cf_type = (if ty = [] then ''move'' else ty)\<rparr>)
                     (first_row (filter (\<lambda>c. v_name c = v_name n \<and> v_type c \<noteq> Directory) (listDirectory d (Some p))))))))"

fun conflicts_from :: "bool \<Rightarrow> db \<Rightarrow> conflict_op list \<Rightarrow> conflict list \<Rightarrow> conflict list" where
  "conflicts_from lim d [] conflicts = conflicts"
| "conflicts_from lim d (op # ops) conflicts =
     (if lim \<and> length conflicts > 100 then conflicts
      else conflicts_from lim d ops
        (case conflict_of d op of None \<Rightarrow> conflicts | Some c \<Rightarrow> conflicts @ [c]))"

definition getConflictsByNodeIds :: "db \<Rightarrow> conflict_op list \<Rightarrow> bool \<Rightarrow> conflict list" where
  "getConflictsByNodeIds d operations lim = conflicts_from lim d operations []"

end
