(* ===== verification/BatchProps.thy ===== *)
theory BatchProps
  imports Batch SharingProps
begin

text \<open>
  The properties of batches: every item is accounted for, what the undo of a batch of moves restores
  and what it does not, what a failed undo leaves behind, and the life of a bulk job.
\<close>

section \<open>The loop against its specification\<close>

text \<open>The items one after the other, each with its outcome, and the sorting of the outcomes.\<close>

fun run_items :: "('i \<Rightarrow> ('s, 'r option) service) \<Rightarrow> 'i list \<Rightarrow> 's \<Rightarrow> (err + 'r option) list \<times> 's" where
  "run_items step [] s = ([], s)"
| "run_items step (x # xs) s =
     (case step x s of (r, t) \<Rightarrow> case run_items step xs t of (rs, u) \<Rightarrow> (r # rs, u))"

fun done_of :: "(err + 'r option) list \<Rightarrow> 'r list" where
  "done_of [] = []"
| "done_of (Inr (Some r) # outs) = r # done_of outs"
| "done_of (out # outs) = done_of outs"

fun problems_of :: "'i list \<Rightarrow> (err + 'r option) list \<Rightarrow> 'i item_error list" where
  "problems_of (x # xs) (Inr (Some r) # outs) = problems_of xs outs"
| "problems_of (x # xs) (Inr None # outs) = Item_skipped x ''permission_denied'' # problems_of xs outs"
| "problems_of (x # xs) (Inl e # outs) = Item_failed x (reason_of e) # problems_of xs outs"
| "problems_of _ _ = []"

definition reached_items :: "(nat \<Rightarrow> bool) \<Rightarrow> nat \<Rightarrow> nat \<Rightarrow> nat" where
  "reached_items isCancelled from n = length (takeWhile (\<lambda>i. \<not> isCancelled i) [from ..< from + n])"

definition accounts_for ::
  "('i \<Rightarrow> ('s, 'r option) service) \<Rightarrow> (nat \<Rightarrow> bool) \<Rightarrow> 'i list \<Rightarrow> 's \<Rightarrow> (err + ('i, 'r) batch_result) \<times> 's \<Rightarrow> bool" where
  "accounts_for step isCancelled xs s out =
     (case out of
        (Inl e, t) \<Rightarrow> e = No_return
      | (Inr res, t) \<Rightarrow>
          (let k = reached_items isCancelled 0 (length xs); outs = fst (run_items step (take k xs) s) in
           snd (run_items step (take k xs) s) = t \<and> length outs = k \<and>
           br_succeeded res = done_of outs \<and>
           br_errors res = problems_of (take k xs) outs @ map (\<lambda>x. Item_skipped x ''cancelled'') (drop k xs) \<and>
           br_count res = length (br_succeeded res) \<and> (br_cancelled res \<longleftrightarrow> k < length xs) \<and>
           length (br_succeeded res) + length (br_errors res) = length xs))"

lemma reached_items_0 [simp]: "reached_items fl i 0 = 0"
  by (simp add: reached_items_def)

lemma reached_items_Suc: "reached_items fl i (Suc n) = (if fl i then 0 else Suc (reached_items fl (Suc i) n))"
  by (simp add: reached_items_def upt_conv_Cons del: upt_Suc)

lemma reached_items_le: "reached_items fl i n \<le> n"
  by (induction n arbitrary: i) (simp_all add: reached_items_Suc)

lemma run_items_length: "length (fst (run_items step xs s)) = length xs"
  by (induction xs arbitrary: s) (simp_all split: prod.splits, metis fst_conv)

lemma outcomes_total:
  "length outs = length xs \<Longrightarrow> length (done_of outs) + length (problems_of xs outs) = length xs"
  by (induction xs outs rule: problems_of.induct) auto

lemma batch_loop_run:
  assumes "batch_loop fl step i xs acc s = (Inr res, t)"
  defines "k \<equiv> reached_items fl i (length xs)"
  defines "outs \<equiv> fst (run_items step (take k xs) s)"
  shows "snd (run_items step (take k xs) s) = t"
    "br_succeeded res = br_succeeded acc @ done_of outs"
    "br_errors res = br_errors acc @ problems_of (take k xs) outs @ map (\<lambda>x. Item_skipped x ''cancelled'') (drop k xs)"
    "br_count res = br_count acc + length (done_of outs)"
    "br_cancelled res \<longleftrightarrow> br_cancelled acc \<or> k < length xs"
proof -
  have "snd (run_items step (take k xs) s) = t \<and>
    br_succeeded res = br_succeeded acc @ done_of outs \<and>
    br_errors res = br_errors acc @ problems_of (take k xs) outs @ map (\<lambda>x. Item_skipped x ''cancelled'') (drop k xs) \<and>
    br_count res = br_count acc + length (done_of outs) \<and> (br_cancelled res \<longleftrightarrow> br_cancelled acc \<or> k < length xs)"
    using assms(1) unfolding k_def outs_def
  proof (induction xs arbitrary: i acc s)
    case (Cons x xs)
    show ?case
    proof (cases "fl i")
      case True
      then show ?thesis using Cons.prems by (auto simp: reached_items_Suc ret_def)
    next
      case False
      obtain r u where step: "step x s = (r, u)" by fastforce
      have "r \<noteq> Inl No_return"
        using Cons.prems False step by (auto simp: seqs_def catching_def)
      then have "batch_loop fl step (Suc i) xs (record_item x r acc) u = (Inr res, t)"
        using Cons.prems False step by (cases r) (auto simp: seqs_def catching_def ret_def)
      note IH = Cons.IH [OF this]
      obtain rs w where rest: "run_items step (take (reached_items fl (Suc i) (length xs)) xs) u = (rs, w)" by fastforce
      show ?thesis
        using IH False step rest
        by (cases r; cases "projr r") (auto simp: reached_items_Suc record_item_def split: sum.splits option.splits)
    qed
  qed (simp add: ret_def)
  then show "snd (run_items step (take k xs) s) = t"
    "br_succeeded res = br_succeeded acc @ done_of outs"
    "br_errors res = br_errors acc @ problems_of (take k xs) outs @ map (\<lambda>x. Item_skipped x ''cancelled'') (drop k xs)"
    "br_count res = br_count acc + length (done_of outs)"
    "br_cancelled res \<longleftrightarrow> br_cancelled acc \<or> k < length xs" by blast+
qed

lemma batch_loop_error: "batch_loop fl step i xs acc s = (Inl e, t) \<Longrightarrow> e = No_return"
proof (induction xs arbitrary: i acc s)
  case (Cons x xs)
  then show ?case
    by (cases "step x s") (auto simp: seqs_def catching_def ret_def split: sum.splits if_splits)
qed (simp add: ret_def)

lemma batch_loop_accounts: "accounts_for step fl xs s (batch_loop fl step 0 xs no_items s)"
proof -
  obtain r t where run: "batch_loop fl step 0 xs no_items s = (r, t)" by fastforce
  show ?thesis
  proof (cases r)
    case (Inl e)
    then show ?thesis using run batch_loop_error by (auto simp: accounts_for_def)
  next
    case (Inr res)
    let ?k = "reached_items fl 0 (length xs)"
    let ?outs = "fst (run_items step (take ?k xs) s)"
    note facts = batch_loop_run [OF run [unfolded Inr]]
    have len: "length ?outs = length (take ?k xs)" by (rule run_items_length)
    have k: "length (take ?k xs) = ?k" using reached_items_le [of fl 0 "length xs"] by simp
    show ?thesis
      using facts len k outcomes_total [OF len] reached_items_le [of fl 0 "length xs"] Inr run
      by (simp add: accounts_for_def no_items_def Let_def)
  qed
qed

text \<open>
  C14: A batch accounts for every item. Whatever the cancel flag says when an item is reached_items, a batch of
  deletions, moves or copies is the run of the single operation over the items before the first
  cancelled one, in order, each in the state the one before left, whether that succeeded or not. Each
  of these is reported once, as succeeded, as skipped for want of permission, or as failed with its
  error; each item from the cancelled one on is reported as skipped and not touched. The count is the
  number of successes, and successes and errors together are as many as the items.
\<close>

theorem batch_accounts:
  "accounts_for (delete_item site c) fl nodeIds s (batchDelete site c fl nodeIds s) \<and>
   accounts_for (move_one site c) fl moves s (batchMove site c fl moves s) \<and>
   accounts_for (copy_one site c) fl copies s (batchCopy site c fl copies s)"
  unfolding batchDelete_def batchMove_def batchCopy_def by (intro conjI batch_loop_accounts)

section \<open>Moves and their undo\<close>

lemma insertAncestorRows_files: "file_nodes (snd (insertAncestorRows rs k d)) = file_nodes d"
  by (induction rs k d rule: insertAncestorRows.induct) (auto simp: Let_def)

lemma rebuild_files: "file_nodes (snd (rebuildAncestorsAfterMove m p d)) = file_nodes d"
proof -
  have del: "file_nodes (snd (deleteAncestorByDescendant ids e)) = file_nodes e" for ids e
    by (simp add: deleteAncestorByDescendant_def)
  obtain r e where e: "deleteAncestorByDescendant (getDescendantIds d m) d = (r, e)" by fastforce
  then have "file_nodes e = file_nodes d" using del [of "getDescendantIds d m" d] by simp
  then show ?thesis
    using e insertAncestorRows_files
    by (auto simp: rebuildAncestorsAfterMove_def service_simps seqs_def [of "deleteAncestorByDescendant _"] throw_def ret_def
        split: sum.splits option.splits)
      (auto simp: seqs_def ret_def split: sum.splits prod.splits dest!: arg_cong [where f = snd])
qed

lemma repo_move_files:
  "repo_moveNode m p d = (Inr k, e) \<Longrightarrow> file_nodes e = file_nodes (moved d m p)"
  "repo_moveNode m p d = (Inl x, e) \<Longrightarrow> e = d"
  by (auto simp: repo_moveNode_def write_nodes_def moved_def split: if_splits)

lemma move_pair_files:
  assumes "seqs (repo_moveNode m p) (\<lambda>_. rebuildAncestorsAfterMove m p) d = (Inr (), e)"
  shows "file_nodes e = file_nodes (moved d m p)"
proof -
  obtain k w where w: "repo_moveNode m p d = (Inr k, w)" "rebuildAncestorsAfterMove m p w = (Inr (), e)"
    using assms by (auto simp: seqs_def split: prod.splits sum.splits)
  then show ?thesis using repo_move_files(1) [OF w(1)] rebuild_files [of m p w] by simp
qed

lemma moveNode_files:
  assumes "moveNode m p d = (r, e)"
  shows "file_nodes e = (case r of Inr _ \<Rightarrow> file_nodes (moved d m p) | Inl _ \<Rightarrow> file_nodes d)"
proof (cases r)
  case (Inl x)
  then have "e = d"
    using assms by (auto simp: moveNode_def service_simps withTx_def split: if_splits prod.splits sum.splits)
  then show ?thesis using Inl by simp
next
  case (Inr x)
  then have "seqs (repo_moveNode m p) (\<lambda>_. rebuildAncestorsAfterMove m p) d = (Inr (), e)"
    using assms by (auto simp: moveNode_def service_simps withTx_def split: if_splits prod.splits sum.splits)
  then show ?thesis using Inr move_pair_files by simp
qed

lemma checks_db:
  "need_node c n req e s = (r, t) \<Longrightarrow> drive_db t = drive_db s"
  "need_folder c p s = (r, t) \<Longrightarrow> drive_db t = drive_db s"
  "may_transfer c req i j s = (b, t) \<Longrightarrow> drive_db t = drive_db s \<and> (\<exists>x. b = Inr x)"
proof -
  have folder: "pdb (snd (checkFolderPermission q n act v)) = pdb v" for q n act v
    by (auto simp: checkFolderPermission_def getCachedUser_def Let_def split: principal.splits option.splits)
  have optional: "pdb (snd (check_folder_opt q n act v)) = pdb v" for q n act v
    using folder by (auto simp: check_folder_opt_def getCachedUser_def Let_def split: principal.splits option.splits)
  show "need_node c n req e s = (r, t) \<Longrightarrow> drive_db t = drive_db s"
    using file_check_pdb [of "who c" n req "dperm s"]
    by (auto simp: need_node_def seqs_def guard_def ret_def on_acl_def drive_db_def split: prod.splits if_splits)
  show "need_folder c p s = (r, t) \<Longrightarrow> drive_db t = drive_db s"
    using optional [of "who c" p "''write''" "dperm s"]
    by (auto simp: need_folder_def seqs_def guard_def ret_def on_acl_def drive_db_def split: prod.splits if_splits)
  show "may_transfer c req i j s = (b, t) \<Longrightarrow> drive_db t = drive_db s \<and> (\<exists>x. b = Inr x)"
    using file_check_pdb [of "who c" i req "dperm s"] folder [of "who c" j "''write''"]
    by (auto simp: may_transfer_def batch_allowed_def seqs_def ret_def on_acl_def drive_db_def
        split: prod.splits if_splits) (metis snd_conv)
qed

lemma revoke_moved_files: "file_nodes (drive_db (snd (revoke_moved q i s))) = file_nodes (drive_db s)"
  "\<not> isl (fst (revoke_moved q i s))"
  by (cases q; simp add: revoke_moved_def seqs_def on_perm_def revokeUserSubtreePermissions_def lift_db_def
      deleteUserSubtreePermissions_def Let_def updates_def ret_def drop_user_def drive_db_def)+

lemma fs_moveNode_files:
  assumes "\<not> isWebdavMode site" "fs_moveNode site c i p s = (r, t)"
  shows "file_nodes (drive_db t) = (case r of Inr _ \<Rightarrow> file_nodes (moved (drive_db s) i p) | Inl _ \<Rightarrow> file_nodes (drive_db s))"
proof -
  obtain a s1 where a: "need_node c i ''write'' permission_denied s = (a, s1)" by fastforce
  obtain b s2 where b: "need_folder c p s1 = (b, s2)" by fastforce
  have db: "drive_db s1 = drive_db s" "drive_db s2 = drive_db s"
    using checks_db(1) [OF a] checks_db(2) [OF b] by simp_all
  show ?thesis
  proof (cases "isl a \<or> isl b")
    case True
    then have "\<exists>e. r = Inl e \<and> (t = s1 \<or> t = s2)"
      using assms(2) a b by (cases a; cases b) (auto simp: fs_moveNode_def seqs_def)
    then show ?thesis using db by auto
  next
    case False
    then have ok: "a = Inr ()" "b = Inr ()" by (cases a, simp, simp, cases b, simp, simp)
    obtain x e where m: "moveNode i p (drive_db s) = (x, e)" by fastforce
    let ?transfer = "ownership_transfer (drive_db s) c i p"
    have run: "fs_moveNode site c i p s = (case x of Inl y \<Rightarrow> (Inl y, with_db s2 e)
        | Inr _ \<Rightarrow> (if ?transfer then revoke_moved (who c) i else ret ()) (with_db s2 e))"
      using assms(1) a b ok db m
      by (simp add: fs_moveNode_def seqs_def [of "need_node _ _ _ _"] seqs_def [of "need_folder _ _"] reads_db_eq)
        (simp add: seqs_def on_drive_db_eq ret_def split: sum.splits)
    show ?thesis
      using run [unfolded assms(2)] moveNode_files [OF m] revoke_moved_files [of "who c" i "with_db s2 e"]
      by (cases x; cases ?transfer; cases "revoke_moved (who c) i (with_db s2 e)"; cases r) (auto simp: ret_def)
  qed
qed

lemma move_one_files:
  assumes "\<not> isWebdavMode site" "move_one site c m s = (r, t)"
  shows "case r of
      Inr (Some e) \<Rightarrow> md_item e = m \<and> md_previous e = map_option v_parentId (getNode (drive_db s) (sourceNodeId m)) \<and>
        file_nodes (drive_db t) = file_nodes (moved (drive_db s) (sourceNodeId m) (Some (destinationParentNodeId m)))
    | _ \<Rightarrow> file_nodes (drive_db t) = file_nodes (drive_db s)"
proof -
  obtain b s1 where b: "may_transfer c ''write'' (sourceNodeId m) (destinationParentNodeId m) s = (b, s1)" by fastforce
  obtain ok where ok: "b = Inr ok" and db: "drive_db s1 = drive_db s" using checks_db(3) [OF b] by blast
  obtain x s2 where x: "fs_moveNode site c (sourceNodeId m) (Some (destinationParentNodeId m)) s1 = (x, s2)" by fastforce
  have "move_one site c m s = (if \<not> ok then (Inr None, s1) else case x of Inl e \<Rightarrow> (Inl e, s2)
    | Inr _ \<Rightarrow> (Inr (Some \<lparr>md_item = m, md_previous = map_option v_parentId (getNode (drive_db s) (sourceNodeId m))\<rparr>), s2))"
    using b ok db x
    by (simp add: move_one_def seqs_def [of "may_transfer _ _ _ _"] reads_db_eq ret_def)
      (simp add: seqs_def ret_def split: sum.splits)
  then show ?thesis
    using assms(2) fs_moveNode_files [OF assms(1) x] db by (auto split: if_splits sum.splits)
qed

text \<open>What a batch of moves and its undo do to the parent column. An entry of an override wins over the column.\<close>

definition override :: "(nat \<times> nat option) list \<Rightarrow> (nat \<Rightarrow> nat option) \<Rightarrow> nat \<Rightarrow> nat option" where
  "override ps f x = (case map_of ps x of Some q \<Rightarrow> q | None \<Rightarrow> f x)"

definition source_of :: "moved_item \<Rightarrow> nat" where
  "source_of e = sourceNodeId (md_item e)"

definition dest_of :: "moved_item \<Rightarrow> nat" where
  "dest_of e = destinationParentNodeId (md_item e)"

definition same_rows :: "db \<Rightarrow> db \<Rightarrow> bool" where
  "same_rows d e \<longleftrightarrow> map nid (file_nodes e) = map nid (file_nodes d) \<and> (\<forall>x. live_id e x = live_id d x)"

lemma same_rows_refl [simp]: "same_rows d d"
  by (simp add: same_rows_def)

lemma same_rows_trans: "same_rows d e \<Longrightarrow> same_rows e f \<Longrightarrow> same_rows d f"
  by (simp add: same_rows_def)

lemma tree_cong:
  assumes "file_nodes d = file_nodes e"
  shows "parent_of d = parent_of e" "same_rows d e" "has_node d = has_node e" "live_id d = live_id e"
  using assms by (simp_all add: parent_of_def node_row_def same_rows_def live_id_def has_node_def fun_eq_iff)

lemma moved_rows:
  assumes "file_nodes e = file_nodes (moved d i p)" "has_node d i"
  shows "parent_of e = (parent_of d)(i := p)" "same_rows d e"
  using assms(2) tree_cong [OF assms(1)] nid_moved [of d i p] assms(1)
  by (simp_all add: parent_of_moved fun_eq_iff same_rows_def)

lemma live_view:
  assumes "distinct (map nid (file_nodes d))" "live_id d i"
  obtains v where "getNode d i = Some v" "v_parentId v = parent_of d i" "has_node d i"
proof -
  obtain n where n: "node_row d i = Some n" "live n" using assms(2) by (auto simp: live_id_def split: option.splits)
  then have in_d: "n \<in> set (file_nodes d)" "nid n = i" using first_row_in by (fastforce simp: node_row_def)+
  then have "first_row (filter (\<lambda>n. nid n = i \<and> live n) (file_nodes d)) = Some n"
    using n(2) by (intro first_row_filter_unique [OF assms(1)]) auto
  then have "getNode d i = Some (mapNodeRow n (cache_of d (nid n)))" by (simp add: getNode_def)
  moreover have "v_parentId (mapNodeRow n (cache_of d (nid n))) = parent_of d i"
    using n(1) by (simp add: mapNodeRow_def parent_of_def)
  moreover have "has_node d i" using in_d by (auto simp: has_node_def)
  ultimately show thesis by (rule that)
qed

lemma override_swap:
  assumes "i \<notin> fst ` set ps"
  shows "override ps (f(i := q)) = override ((i, q) # ps) f"
proof
  fix x
  have "map_of ps i = None" using assms by (simp add: map_of_eq_None_iff)
  then show "override ps (f(i := q)) x = override ((i, q) # ps) f x"
    by (cases "map_of ps x") (auto simp: override_def)
qed

lemma batch_move_parents:
  assumes "\<not> isWebdavMode site" "batch_loop fl (move_one site c) i xs acc s = (Inr res, t)"
    and "distinct (map nid (file_nodes (drive_db s)))" "distinct (map sourceNodeId xs)"
    and "\<forall>m \<in> set xs. live_id (drive_db s) (sourceNodeId m)"
  shows "\<exists>L. br_succeeded res = br_succeeded acc @ L \<and> distinct (map source_of L) \<and>
    set (map source_of L) \<subseteq> sourceNodeId ` set xs \<and>
    (\<forall>e \<in> set L. md_previous e = Some (parent_of (drive_db s) (source_of e))) \<and>
    parent_of (drive_db t) = override (map (\<lambda>e. (source_of e, Some (dest_of e))) L) (parent_of (drive_db s)) \<and>
    same_rows (drive_db s) (drive_db t)"
  using assms(2-)
proof (induction xs arbitrary: i acc s)
  case Nil
  then show ?case by (intro exI [of _ "[]"]) (simp add: ret_def override_def)
next
  case (Cons x xs)
  let ?d = "drive_db s"
  show ?case
  proof (cases "fl i")
    case True
    then show ?thesis using Cons.prems by (intro exI [of _ "[]"]) (auto simp: ret_def override_def)
  next
    case False
    obtain r u where step: "move_one site c x s = (r, u)" by fastforce
    have "r \<noteq> Inl No_return" using Cons.prems(1) False step by (auto simp: seqs_def catching_def)
    then have rest: "batch_loop fl (move_one site c) (Suc i) xs (record_item x r acc) u = (Inr res, t)"
      using Cons.prems(1) False step by (cases r) (auto simp: seqs_def catching_def ret_def)
    note files = move_one_files [OF assms(1) step]
    have live: "live_id ?d (sourceNodeId x)" using Cons.prems(4) by simp
    obtain v where v: "getNode ?d (sourceNodeId x) = Some v" "v_parentId v = parent_of ?d (sourceNodeId x)"
      "has_node ?d (sourceNodeId x)" using live_view [OF Cons.prems(2) live] .
    have rows: "same_rows ?d (drive_db u)"
      using files moved_rows(2) [OF _ v(3)] tree_cong(2) [of ?d "drive_db u"]
      by (cases r) (auto split: option.splits)
    have "\<exists>L. br_succeeded res = br_succeeded (record_item x r acc) @ L \<and> distinct (map source_of L) \<and>
      set (map source_of L) \<subseteq> sourceNodeId ` set xs \<and>
      (\<forall>e \<in> set L. md_previous e = Some (parent_of (drive_db u) (source_of e))) \<and>
      parent_of (drive_db t) = override (map (\<lambda>e. (source_of e, Some (dest_of e))) L) (parent_of (drive_db u)) \<and>
      same_rows (drive_db u) (drive_db t)"
      using Cons.prems(2-4) rows by (intro Cons.IH [OF rest]) (simp_all add: same_rows_def)
    then obtain L where L: "br_succeeded res = br_succeeded (record_item x r acc) @ L" "distinct (map source_of L)"
      "set (map source_of L) \<subseteq> sourceNodeId ` set xs"
      "\<forall>e \<in> set L. md_previous e = Some (parent_of (drive_db u) (source_of e))"
      "parent_of (drive_db t) = override (map (\<lambda>e. (source_of e, Some (dest_of e))) L) (parent_of (drive_db u))"
      "same_rows (drive_db u) (drive_db t)" by blast
    have fresh: "sourceNodeId x \<notin> set (map source_of L)" using L(3) Cons.prems(3) by auto
    show ?thesis
    proof (cases "\<exists>e. r = Inr (Some e)")
      case True
      then obtain e where e: "r = Inr (Some e)" by blast
      have me: "source_of e = sourceNodeId x" "dest_of e = destinationParentNodeId x"
        "md_previous e = Some (parent_of ?d (sourceNodeId x))"
        "parent_of (drive_db u) = (parent_of ?d)(sourceNodeId x := Some (destinationParentNodeId x))"
        using files e v(1,2) moved_rows(1) [OF _ v(3)] by (simp_all add: source_of_def dest_of_def)
      have "override (map (\<lambda>e. (source_of e, Some (dest_of e))) L) (parent_of (drive_db u))
          = override (map (\<lambda>e. (source_of e, Some (dest_of e))) (e # L)) (parent_of ?d)"
        unfolding me(4) using fresh me(1,2) by (subst override_swap) (auto simp: image_image)
      moreover have "parent_of (drive_db u) (source_of f) = parent_of ?d (source_of f)" if "f \<in> set L" for f
      proof -
        have "source_of f \<in> set (map source_of L)" using that by simp
        then have "source_of f \<noteq> sourceNodeId x" using fresh by metis
        then show ?thesis by (simp add: me(4))
      qed
      ultimately show ?thesis
        using L e me fresh same_rows_trans [OF rows L(6)]
        by (intro exI [of _ "e # L"]) (auto simp: record_item_def)
    next
      case False
      then have same: "file_nodes (drive_db u) = file_nodes ?d" "br_succeeded (record_item x r acc) = br_succeeded acc"
        using files by (auto simp: record_item_def split: sum.splits option.splits)
      show ?thesis
        using L tree_cong(1) [OF same(1)] same(2) same_rows_trans [OF rows L(6)]
        by (intro exI [of _ L]) auto
    qed
  qed
qed

lemma move_back_files:
  assumes "\<not> isWebdavMode site" "move_node_back site i p s = (Inr out, t)"
  shows "fst out \<Longrightarrow> file_nodes (drive_db t) = file_nodes (moved (drive_db s) i p)"
    "\<not> fst out \<Longrightarrow> drive_db t = drive_db s"
proof -
  define refuse where "refuse \<longleftrightarrow> p \<noteq> None \<and> the p \<in> set (getDescendantIds (drive_db s) i)"
  obtain k d1 where k: "repo_moveNode i p (drive_db s) = (k, d1)" by fastforce
  obtain x d2 where x: "rebuildAncestorsAfterMove i p d1 = (x, d2)" by fastforce
  have run: "move_node_back site i p s = (if refuse then (Inr item_changed, s) else
      case k of Inl e \<Rightarrow> (Inl e, with_db s d1) | Inr _ \<Rightarrow>
      (case x of Inl e \<Rightarrow> (Inl e, with_db s d2) | Inr _ \<Rightarrow> (Inr (True, None), with_db s d2)))"
  proof (cases refuse)
    case True
    then show ?thesis unfolding refuse_def by (simp add: move_node_back_def reads_db_eq ret_def)
  next
    case False
    then have "move_node_back site i p s = seqs (on_drive_db (repo_moveNode i p)) (\<lambda>_.
        seqs (on_drive_db (rebuildAncestorsAfterMove i p)) (\<lambda>_. seqs (ret ()) (\<lambda>_. ret (True, None)))) s"
      using assms(1) unfolding move_node_back_def reads_db_eq refuse_def by (simp only: reads_db_eq if_False if_cancel)
    also have "\<dots> = (case k of Inl e \<Rightarrow> (Inl e, with_db s d1) | Inr _ \<Rightarrow>
        (case x of Inl e \<Rightarrow> (Inl e, with_db s d2) | Inr _ \<Rightarrow> (Inr (True, None), with_db s d2)))"
      by (cases k; cases x) (simp_all add: seqs_def on_drive_db_eq k x ret_def)
    finally show ?thesis unfolding if_not_P [OF False] .
  qed
  have d2: "file_nodes d2 = file_nodes d1" using rebuild_files [of i p d1] x by simp
  have d1: "file_nodes d1 = file_nodes (moved (drive_db s) i p)" if "k = Inr n" for n
    using repo_move_files(1) [of i p "drive_db s" n d1] k that by simp
  have "(out = item_changed \<and> t = s) \<or> (out = (True, None) \<and> t = with_db s d2 \<and> (\<exists>n. k = Inr n))"
    using run [unfolded assms(2)] by (cases refuse; cases k; cases x) simp_all
  then show "fst out \<Longrightarrow> file_nodes (drive_db t) = file_nodes (moved (drive_db s) i p)"
    "\<not> fst out \<Longrightarrow> drive_db t = drive_db s"
    using d1 d2 by (auto simp: item_changed_def)
qed

lemma undo_move_files:
  assumes "\<not> isWebdavMode site" "bi_inverse item = Move_back p" "applyBatchItemInverse site actor item s = (Inr out, t)"
  shows "fst out \<Longrightarrow> file_nodes (drive_db t) = file_nodes (moved (drive_db s) (bi_node item) p) \<and>
      has_node (drive_db s) (bi_node item)"
    "\<not> fst out \<Longrightarrow> drive_db t = drive_db s"
proof -
  have "(out = item_changed \<and> t = s) \<or>
      (move_node_back site (bi_node item) p s = (Inr out, t) \<and> has_node (drive_db s) (bi_node item))"
  proof (cases "getNode (drive_db s) (bi_node item)")
    case None
    then show ?thesis using assms(2,3) by (auto simp: applyBatchItemInverse_def reads_db_eq ret_def)
  next
    case (Some v)
    then have "has_node (drive_db s) (bi_node item)" using getNode_has by metis
    then show ?thesis using assms(2,3) Some
      by (auto simp: applyBatchItemInverse_def reads_db_eq ret_def split: if_splits)
  qed
  then show "fst out \<Longrightarrow> file_nodes (drive_db t) = file_nodes (moved (drive_db s) (bi_node item) p) \<and>
      has_node (drive_db s) (bi_node item)"
    "\<not> fst out \<Longrightarrow> drive_db t = drive_db s"
    using move_back_files [OF assms(1), of "bi_node item" p s out t] by (auto simp: item_changed_def)
qed

definition undo_item :: "moved_item \<Rightarrow> batch_item" where
  "undo_item e = \<lparr>bi_node = source_of e, bi_parent = Some (dest_of e), bi_name = None, bi_inverse = Move_back (the (md_previous e))\<rparr>"

lemma undo_parents:
  assumes "\<not> isWebdavMode site" "apply_items site actor (map undo_item L) s = (Inr outs, t)" "distinct (map source_of L)"
  shows "length outs = length L"
    "parent_of (drive_db t) = override (map (\<lambda>(e, out). (source_of e, the (md_previous e)))
       (filter (\<lambda>(e, out). fst out) (zip L outs))) (parent_of (drive_db s))"
proof -
  have "length outs = length L \<and> parent_of (drive_db t) = override (map (\<lambda>(e, out). (source_of e, the (md_previous e)))
       (filter (\<lambda>(e, out). fst out) (zip L outs))) (parent_of (drive_db s))"
    using assms(2,3)
  proof (induction L arbitrary: s outs)
    case Nil
    then show ?case by (simp add: ret_def override_def)
  next
    case (Cons e L)
    obtain out u where step: "applyBatchItemInverse site actor (undo_item e) s = (Inr out, u)"
      using Cons.prems(1) by (auto simp: seqs_def split: prod.splits sum.splits)
    then obtain outs' where rest: "apply_items site actor (map undo_item L) u = (Inr outs', t)" "outs = out # outs'"
      using Cons.prems(1) by (auto simp: seqs_def ret_def split: prod.splits sum.splits)
    have IH: "length outs' = length L" "parent_of (drive_db t) = override (map (\<lambda>(e, out). (source_of e, the (md_previous e)))
       (filter (\<lambda>(e, out). fst out) (zip L outs'))) (parent_of (drive_db u))"
      using Cons.IH [OF rest(1)] Cons.prems(2) by simp_all
    let ?ps = "map (\<lambda>(e, out). (source_of e, the (md_previous e))) (filter (\<lambda>(e, out). fst out) (zip L outs'))"
    have fresh: "source_of e \<notin> fst ` set ?ps"
    proof
      assume "source_of e \<in> fst ` set ?ps"
      then obtain f g where "(f, g) \<in> set (zip L outs')" "source_of f = source_of e" by auto
      then have "source_of e \<in> set (map source_of L)" by (metis image_eqI list.set_map set_zip_leftD)
      then show False using Cons.prems(2) by simp
    qed
    have inv: "bi_inverse (undo_item e) = Move_back (the (md_previous e))" "bi_node (undo_item e) = source_of e"
      by (simp_all add: undo_item_def)
    show ?case
    proof (cases "fst out")
      case True
      have "parent_of (drive_db u) = (parent_of (drive_db s))(source_of e := the (md_previous e))"
        using undo_move_files(1) [OF assms(1) inv(1) step True] moved_rows(1) by (simp add: inv(2))
      then show ?thesis using IH rest(2) True override_swap [OF fresh] by simp
    next
      case False
      then show ?thesis using IH rest(2) undo_move_files(2) [OF assms(1) inv(1) step] by simp
    qed
  qed
  then show "length outs = length L"
    "parent_of (drive_db t) = override (map (\<lambda>(e, out). (source_of e, the (md_previous e)))
       (filter (\<lambda>(e, out). fst out) (zip L outs))) (parent_of (drive_db s))" by blast+
qed

lemma drive_tx_Inr: "drive_tx m s = (Inr x, t) \<Longrightarrow> m s = (Inr x, t)"
  by (auto simp: drive_tx_def split: prod.splits sum.splits)

lemma drive_tx_Inl: "drive_tx m s = (Inl e, t) \<Longrightarrow> drive_db t = drive_db s"
  by (auto simp: drive_tx_def drive_db_def split: prod.splits sum.splits)

definition move_payload :: "string \<Rightarrow> (move_item, moved_item) batch_result \<Rightarrow> batch_payload" where
  "move_payload jobId res = \<lparr>bp_operation = ''move'', bp_job = jobId, bp_items = move_journal_items (br_succeeded res)\<rparr>"

lemma map_of_zip_filter:
  assumes "distinct (map g L)" "length outs = length L"
  shows "map_of (map (\<lambda>(e, out). (g e, h e)) (filter (\<lambda>(e, out). P out) (zip L outs))) x =
    (case map_of (zip (map g L) (zip L outs)) x of Some (e, out) \<Rightarrow> if P out then Some (h e) else None | None \<Rightarrow> None)"
  using assms(2,1)
proof (induction outs L rule: list_induct2)
  case (Cons out outs e L)
  have "map_of (zip (map g L) (zip L outs)) (g e) = None"
    using Cons.prems by (auto simp: map_of_eq_None_iff dest: set_zip_leftD)
  then show ?case using Cons by (cases "x = g e"; cases "P out") (simp_all del: map_of_eq_None_iff)
qed simp

text \<open>
  C12: What undoing a batch of moves restores. In S3 mode, move a batch of distinct live nodes and undo
  it with the journal items of the batch, with nothing in between. When the undo succeeds it has one
  outcome for every node that was moved. A node whose outcome is applied is under the parent it had
  before the batch, one whose outcome is not stays where the batch put it, and every other node is where it
  was. When every outcome is applied, the parent column is as before the batch.
\<close>

theorem batch_undo_restores:
  assumes "\<not> isWebdavMode site" "nodes_ok (drive_db s)" "distinct (map sourceNodeId moves)"
    and "\<forall>m \<in> set moves. live_id (drive_db s) (sourceNodeId m)"
    and "batchMove site c fl moves s = (Inr res, t)"
    and "undo_batch site actor (move_payload jobId res) t = (Inr outs, u)"
  shows "length outs = br_count res \<and>
    (\<forall>x. parent_of (drive_db u) x =
      (case map_of (zip (map source_of (br_succeeded res)) (zip (br_succeeded res) outs)) x of
         Some (e, out) \<Rightarrow> if fst out then parent_of (drive_db s) x else Some (dest_of e)
       | None \<Rightarrow> parent_of (drive_db s) x)) \<and>
    (list_all fst outs \<longrightarrow> parent_of (drive_db u) = parent_of (drive_db s))"
proof -
  let ?L = "br_succeeded res" and ?p = "parent_of (drive_db s)"
  note loop = assms(5) [unfolded batchMove_def]
  have L: "distinct (map source_of ?L)" "\<forall>e \<in> set ?L. md_previous e = Some (?p (source_of e))"
    "parent_of (drive_db t) = override (map (\<lambda>e. (source_of e, Some (dest_of e))) ?L) ?p"
    using batch_move_parents [OF assms(1) loop nodes_okD(1) [OF assms(2)] assms(3,4)] by (auto simp: no_items_def)
  have "move_journal_items ?L = map undo_item ?L"
    using L(2) by (auto simp: move_journal_items_def undo_item_def source_of_def dest_of_def filter_id_conv)
  then have "apply_items site actor (map undo_item ?L) t = (Inr outs, u)"
    using drive_tx_Inr assms(6) by (simp add: undo_batch_def move_payload_def)
  note undo = undo_parents [OF assms(1) this L(1)]
  have at: "parent_of (drive_db u) x =
      (case map_of (zip (map source_of ?L) (zip ?L outs)) x of
         Some (e, out) \<Rightarrow> if fst out then ?p x else Some (dest_of e) | None \<Rightarrow> ?p x)" for x
  proof (cases "map_of (zip (map source_of ?L) (zip ?L outs)) x")
    case None
    then have "x \<notin> set (map source_of ?L)"
      using undo(1) by (metis length_map length_zip map_of_zip_is_None min.idem)
    then have "map_of (map (\<lambda>e. (source_of e, Some (dest_of e))) ?L) x = None"
      by (auto simp: map_of_eq_None_iff)
    then show ?thesis
      using None undo(2) L(3) map_of_zip_filter [OF L(1) undo(1), of "\<lambda>e. the (md_previous e)" fst x]
      by (simp add: override_def)
  next
    case (Some eo)
    obtain e out where eo: "eo = (e, out)" by (cases eo)
    have "(x, eo) \<in> set (zip (map source_of ?L) (zip ?L outs))" using Some by (rule map_of_SomeD)
    then have e: "e \<in> set ?L" "x = source_of e"
      using eo by (auto simp: set_zip)
    have "map_of (map (\<lambda>e. (source_of e, Some (dest_of e))) ?L) x = Some (Some (dest_of e))"
      using e L(1) by (intro map_of_is_SomeI) (auto simp: comp_def)
    moreover have "the (md_previous e) = ?p x" using L(2) e by simp
    ultimately show ?thesis
      using Some eo undo(2) L(3) map_of_zip_filter [OF L(1) undo(1), of "\<lambda>e. the (md_previous e)" fst x]
      by (simp add: override_def)
  qed
  have "parent_of (drive_db u) = ?p" if all: "list_all fst outs"
  proof
    fix x
    show "parent_of (drive_db u) x = ?p x"
    proof (cases "map_of (zip (map source_of ?L) (zip ?L outs)) x")
      case (Some eo)
      then have "snd eo \<in> set outs" by (cases eo) (auto dest!: map_of_SomeD simp: set_zip)
      then have "fst (snd eo)" using all by (simp add: list_all_iff)
      then show ?thesis using at [of x] Some by (cases eo) simp
    qed (simp add: at)
  qed
  moreover have "br_count res = length ?L"
    using batch_loop_run(2,4) [OF loop] by (simp add: no_items_def)
  ultimately show ?thesis using undo(1) at by simp
qed

definition move_of :: "nat \<Rightarrow> nat \<Rightarrow> move_item" where
  "move_of i p = \<lparr>sourceNodeId = i, destinationParentNodeId = p\<rparr>"

definition demo_moves :: "move_item list" where
  "demo_moves = [move_of 3 4, move_of 5 4]"

definition moved_out :: "err + (move_item, moved_item) batch_result" where
  "moved_out = fst (batchMove (mem_site mem_client) root_caller (\<lambda>_. False) demo_moves demo_drive)"

definition moved_drive :: "mem drive" where
  "moved_drive = snd (batchMove (mem_site mem_client) root_caller (\<lambda>_. False) demo_moves demo_drive)"

theorem batch_undo_restores_witness:
  "parent_of (drive_db moved_drive) 3 = Some 4 \<and>
   parent_of (drive_db (snd (undo_batch (mem_site mem_client) 8 (move_payload ''j'' (projr moved_out)) moved_drive)))
     = parent_of (drive_db demo_drive)"
proof
  show "parent_of (drive_db moved_drive) 3 = Some 4" by code_simp
  let ?undo = "undo_batch (mem_site mem_client) 8 (move_payload ''j'' (projr moved_out)) moved_drive"
  have "\<not> isl moved_out" by code_simp
  then have run: "batchMove (mem_site mem_client) root_caller (\<lambda>_. False) demo_moves demo_drive = (Inr (projr moved_out), moved_drive)"
    by (simp add: moved_out_def moved_drive_def prod_eq_iff)
  have "fst ?undo = Inr [(True, None), (True, None)]" by code_simp
  then have undo: "?undo = (Inr [(True, None), (True, None)], snd ?undo)" by (simp add: prod_eq_iff)
  have nodes: "nodes_ok (drive_db demo_drive)" using meta_okD(1) [OF uploaded_ok] tree_okD(1) by simp
  have "distinct (map sourceNodeId demo_moves)" "list_all (\<lambda>m. getNode (drive_db demo_drive) (sourceNodeId m) \<noteq> None) demo_moves"
    by code_simp+
  then show "parent_of (drive_db (snd ?undo)) = parent_of (drive_db demo_drive)"
    using batch_undo_restores [OF mem_not_webdav nodes _ _ run undo] getNode_live [OF nodes] by (simp add: list_all_iff)
qed

text \<open>
  The inverses of a batch run in the order of the batch. Move the folder \<open>/a/b\<close> into \<open>/c\<close>, then \<open>/a\<close>
  into \<open>/c/b\<close>. Undoing the batch at once, with nothing in between, skips the first inverse, since the
  parent to restore lies below the node, and reports the node as changed; it stays in \<open>/c\<close>. The same
  inverses, last one first, restore both.
\<close>

definition crossed :: "(err + (move_item, moved_item) batch_result) \<times> mem drive" where
  "crossed = batchMove (mem_site mem_client) root_caller (\<lambda>_. False) [move_of 2 4, move_of 1 2] demo_drive"

definition crossed_items :: "batch_item list" where
  "crossed_items = move_journal_items (br_succeeded (projr (fst crossed)))"

theorem batch_undo_forward:
  "let (outcomes, t) = undo_batch (mem_site mem_client) 8 \<lparr>bp_operation = ''move'', bp_job = ''j'', bp_items = crossed_items\<rparr> (snd crossed);
       (outcomes', t') = apply_items (mem_site mem_client) 8 (rev crossed_items) (snd crossed)
   in outcomes = Inr [item_changed, (True, None)] \<and> parent_of (drive_db t) 2 = Some 4 \<and>
      outcomes' = Inr [(True, None), (True, None)] \<and> parent_of (drive_db t') 2 = parent_of (drive_db demo_drive) 2 \<and>
      parent_of (drive_db demo_drive) 2 = Some 1"
  by code_simp

text \<open>A WebDAV server that holds paths, on which moves to \<open>/a/b\<close> time out.\<close>

definition path_dav :: "string list dav_client" where
  "path_dav = \<lparr>putFileContents = (\<lambda>p _ s. (Inr (), p # s)), getFileContents = (\<lambda>_ s. (Inl timeout, s)),
     deleteFile = (\<lambda>p s. (Inr (), removeAll p s)), getFileMetadata = (\<lambda>_ s. (Inl timeout, s)),
     copyFile = (\<lambda>_ q _ s. (Inr (), q # s)),
     moveFile = (\<lambda>p q _ s. if q = ''/a/b'' then (Inl timeout, s) else (Inr (), map (\<lambda>x. if x = p then q else x) s)),
     dav_createDirectory = (\<lambda>p s. (Inr (), p # s)), dav_ensureDirectoryExists = (\<lambda>p s. (Inr (), p # s)),
     listAllEntriesRecursive = (\<lambda>_ s. (Inr (map (\<lambda>p. (p, None)) s), s))\<rparr>"

definition path_site :: "string list site" where
  "path_site = \<lparr>blobs = dav_store path_dav, isWebdavMode = True, uuid = number_key, sha256 = (\<lambda>b. ''h''),
     maxPerNode = None, configuredCap = None\<rparr>"

definition path_drive :: "string list drive" where
  "path_drive = \<lparr>dperm = demo_acl\<lparr>pdb := demo_tree\<rparr>, dstore = [''/a/b'', ''/a/b/f''], ddraws = 0\<rparr>"

definition path_moved :: "(err + (move_item, moved_item) batch_result) \<times> string list drive" where
  "path_moved = batchMove path_site root_caller (\<lambda>_. False) [move_of 3 1, move_of 2 4] path_drive"


section \<open>The life of a bulk job\<close>

definition job_at :: "string \<Rightarrow> ('c, 'd) bulk \<Rightarrow> bulk_job option" where
  "job_at jobId s = (case map_of (bjobs s) (job_key jobId) of
     Some e \<Rightarrow> if entry_expires e = None then Some (entry_value e) else None | None \<Rightarrow> None)"

definition others_same :: "string \<Rightarrow> ('c, 'd) bulk \<Rightarrow> ('c, 'd) bulk \<Rightarrow> bool" where
  "others_same jobId s t \<longleftrightarrow> (\<forall>k. k \<noteq> job_key jobId \<longrightarrow> map_of (bjobs t) k = map_of (bjobs s) k)"

lemma job_at_get:
  assumes "job_at jobId s = Some job"
  shows "cache_get now (job_key jobId) (bjobs s) = (Some job, bjobs s)"
  using assms by (auto simp: job_at_def cache_get_def entry_expired_def split: option.splits if_splits)

lemma map_of_mutate:
  "map_of (map (\<lambda>(k, e). if k = i then (k, f e) else (k, e)) c) j = (if j = i then map_option f (map_of c i) else map_of c j)"
  by (induction c) auto

lemma mutate_job_ok:
  assumes "job_at jobId s = Some job"
  obtains t where "mutate_job jobId f s = (Inr True, t)" "job_at jobId t = Some (f job)" "others_same jobId s t"
    "bdrive t = bdrive s" "bjournal t = bjournal s"
proof -
  let ?c = "map (\<lambda>(k, e). if k = job_key jobId then (k, e\<lparr>entry_value := f (entry_value e)\<rparr>) else (k, e)) (bjobs s)"
  have "mutate_job jobId f s = (Inr True, s\<lparr>bjobs := ?c\<rparr>)"
    using job_at_get [OF assms] by (simp add: mutate_job_def)
  moreover have "job_at jobId (s\<lparr>bjobs := ?c\<rparr>) = Some (f job)" "others_same jobId s (s\<lparr>bjobs := ?c\<rparr>)"
    using assms by (auto simp: job_at_def others_same_def map_of_mutate split: option.splits if_splits)
  ultimately show thesis by (rule that) simp_all
qed

lemma updateJob_ok:
  assumes "job_at jobId s = Some job"
  obtains t where "updateJob jobId f s = (Inr (), t)" "job_at jobId t = Some (f job)" "others_same jobId s t"
    "bdrive t = bdrive s" "bjournal t = bjournal s"
proof -
  obtain t where t: "mutate_job jobId f s = (Inr True, t)" "job_at jobId t = Some (f job)" "others_same jobId s t"
    "bdrive t = bdrive s" "bjournal t = bjournal s" by (rule mutate_job_ok [OF assms])
  have "updateJob jobId f s = (Inr (), t)" by (simp add: updateJob_def seqs_def ret_def t(1))
  then show thesis using t(2-) by (rule that)
qed

lemma others_same_refl [simp]: "others_same jobId s s"
  by (simp add: others_same_def)

lemma others_same_trans: "others_same jobId s t \<Longrightarrow> others_same jobId t u \<Longrightarrow> others_same jobId s u"
  by (simp add: others_same_def)

lemma same_jobs:
  assumes "bjobs t = bjobs s"
  shows "job_at jobId t = job_at jobId s" "others_same jobId s t"
  using assms by (simp_all add: job_at_def others_same_def)

lemma on_bulk_jobs: "bjobs (snd (on_bulk m s)) = bjobs s" "bjobs (snd (on_bulk_journal n s)) = bjobs s"
  by (simp_all add: on_bulk_def on_bulk_journal_def split: prod.split)

lemma journal_batch_jobs:
  assumes "journal_batch env jobId u p items s = (r, t)"
  shows "bjobs t = bjobs s" "r = Inl No_return \<or> \<not> isl r"
proof -
  let ?m = "on_bulk_journal (commitChange env ''batch'' (Subject (''batch:'' @ jobId))
      \<lparr>m_actor = decimal u, m_action = operation_name p, m_label = None\<rparr>
      (\<lambda>_. \<lparr>bp_operation = operation_name p, bp_job = jobId, bp_items = items\<rparr>) (ret ()))"
  obtain x w where m: "?m s = (x, w)" by fastforce
  have "bjobs w = bjobs s" using on_bulk_jobs(2) [of _ s] m by (metis snd_conv)
  then show "bjobs t = bjobs s" "r = Inl No_return \<or> \<not> isl r"
    using assms m
    by (auto simp: journal_batch_def catching_def seqs_def ret_def split: if_splits prod.splits sum.splits)
qed

lemma done_entries:
  "length (filter (\<lambda>e. be_status e = ''succeeded'') (public_results f g res)) = length (br_succeeded res)"
proof -
  have "filter (\<lambda>e. be_status e = ''succeeded'') (map (error_entry g) es) = []" for es
  proof (induction es)
    case (Cons e es)
    then show ?case by (cases e) simp_all
  qed simp
  then show ?thesis by (simp add: public_results_def succeeded_entry_def comp_def)
qed

definition complete_report :: "(nat \<Rightarrow> bool) \<Rightarrow> nat \<Rightarrow> bulk_report \<Rightarrow> bool" where
  "complete_report fl n rep \<longleftrightarrow> length (bo_entries rep) = n \<and>
     bo_count rep = length (filter (\<lambda>e. be_status e = ''succeeded'') (bo_entries rep)) \<and>
     (bo_cancelled rep \<longleftrightarrow> (\<exists>i < n. fl i))"

lemma reached_all: "reached_items fl i n < n \<longleftrightarrow> (\<exists>k < n. fl (i + k))"
proof (induction n arbitrary: i)
  case (Suc n)
  have "(\<exists>k < Suc n. fl (i + k)) \<longleftrightarrow> fl i \<or> (\<exists>k < n. fl (Suc i + k))" by (auto simp: less_Suc_eq_0_disj)
  then show ?case using Suc [of "Suc i"] by (simp add: reached_items_Suc)
qed simp

lemma report_complete:
  assumes "accounts_for step fl xs s (Inr res, t)"
  shows "complete_report fl (length xs) (report_of f g items res)"
proof -
  have "br_count res = length (br_succeeded res)" "br_cancelled res \<longleftrightarrow> reached_items fl 0 (length xs) < length xs"
    "length (br_succeeded res) + length (br_errors res) = length xs"
    using assms unfolding accounts_for_def Let_def prod.case sum.case by blast+
  moreover have "length (public_results f g res) = length (br_succeeded res) + length (br_errors res)"
    by (simp add: public_results_def)
  ultimately show ?thesis
    using done_entries [of f g res] reached_all [of fl 0 "length xs"]
    by (simp add: complete_report_def report_of_def)
qed

lemma loop_report:
  assumes "accounts_for step fl xs s (m s)" "seqs m (\<lambda>res. ret (report_of f g items res)) s = (r, t)"
  shows "case r of Inl e \<Rightarrow> e = No_return | Inr rep \<Rightarrow> complete_report fl (length xs) rep"
proof -
  obtain x u where m: "m s = (x, u)" by fastforce
  show ?thesis
  proof (cases x)
    case (Inl e)
    then show ?thesis using assms m by (auto simp: seqs_def accounts_for_def)
  next
    case (Inr res)
    then have "complete_report fl (length xs) (report_of f g items res)" using assms(1) m report_complete by metis
    then show ?thesis using assms(2) m Inr by (auto simp: seqs_def ret_def)
  qed
qed

lemma run_payload_report:
  assumes "run_payload site c fl p s = (r, t)"
  shows "case r of Inl e \<Rightarrow> e = No_return | Inr rep \<Rightarrow> complete_report fl (payload_total p) rep"
proof (cases p)
  case (Bulk_delete xs)
  have "accounts_for (delete_item site c) fl xs s (batchDelete site c fl xs s)"
    unfolding batchDelete_def by (rule batch_loop_accounts)
  from loop_report [where m = "batchDelete site c fl xs" and f = On_node and g = On_node and items = "\<lambda>_. []", OF this, of r t]
  show ?thesis using assms Bulk_delete by (cases r) (simp_all add: run_payload_def payload_total_def)
next
  case (Bulk_move xs)
  have "accounts_for (move_one site c) fl xs s (batchMove site c fl xs s)"
    unfolding batchMove_def by (rule batch_loop_accounts)
  from loop_report [where m = "batchMove site c fl xs" and f = "\<lambda>e. move_subject (md_item e)" and g = move_subject and items = move_journal_items, OF this, of r t]
  show ?thesis using assms Bulk_move by (cases r) (simp_all add: run_payload_def payload_total_def)
next
  case (Bulk_copy xs)
  have "accounts_for (copy_one site c) fl xs s (batchCopy site c fl xs s)"
    unfolding batchCopy_def by (rule batch_loop_accounts)
  from loop_report [where m = "batchCopy site c fl xs" and f = "\<lambda>e. copy_subject (cd_item e)" and g = copy_subject and items = copy_journal_items, OF this, of r t]
  show ?thesis using assms Bulk_copy by (cases r) (simp_all add: run_payload_def payload_total_def)
qed

text \<open>
  C25: A bulk job that is taken up is finished. Let a job that has not expired be in the store. The worker
  that takes it up, if every operation it calls returns, leaves the job with its user, payload and total,
  and with one of the three final statuses. Without a row of its user it is failed and nothing is done.
  Otherwise it is completed, or cancelled exactly when the flag was set at one of the items; it has one
  result per item, and its progress is the number of the results that succeeded. No other job changes.
\<close>

theorem bulk_job_outcome:
  fixes s t :: "('c, 'd) bulk"
  assumes "processBulkJob site env fl jobId s = (r, t)" "r \<noteq> Inl No_return"
    and "job_at jobId s = Some job" "\<not> isJobExpired (bulk_now s) job"
  shows "\<exists>job'. job_at jobId t = Some job' \<and> r = Inr () \<and> others_same jobId s t \<and>
    bj_user job' = bj_user job \<and> bj_payload job' = bj_payload job \<and> bj_total job' = bj_total job \<and>
    (if fst (getCachedUser (bj_user job) (dperm (bdrive s))) = None
     then bj_status job' = Bulk_failed \<and> drive_db (bdrive t) = drive_db (bdrive s)
     else bj_status job' = (if \<exists>i < payload_total (bj_payload job). fl i then Bulk_cancelled else Bulk_completed) \<and>
       length (bj_results job') = payload_total (bj_payload job) \<and>
       bj_progress job' = length (filter (\<lambda>e. be_status e = ''succeeded'') (bj_results job')))"
proof -
  define body where "body = seqs (on_bulk (on_acl (getCachedUser (bj_user job)))) (\<lambda>user.
          (case user of
             None \<Rightarrow> fail_job jobId ''serverErrors.auth.userNotFound''
           | Some x \<Rightarrow>
               seqs (updateJob jobId (\<lambda>job. job\<lparr>bj_status := Bulk_running, bj_progress := 0\<rparr>)) (\<lambda>_.
               seqs (on_bulk (run_payload site \<lparr>who = User_id (bj_user job), hasUser = True, adminUser = is_admin x\<rparr>
                       fl (bj_payload job))) (\<lambda>rep.
               seqs (journal_batch env jobId (bj_user job) (bj_payload job) (bo_items rep)) (\<lambda>undo_id.
                 finish_job jobId rep undo_id)))) :: (('c, 'd) bulk, unit) service)"
  have "getJob jobId s = (Inr (Some job), s)"
    using job_at_get [OF assms(3)] assms(4) by (simp add: getJob_def)
  then have run: "processBulkJob site env fl jobId s = catching body (\<lambda>e. fail_job jobId (err_message e)) s"
    by (simp add: processBulkJob_def seqs_def [of "getJob _"] body_def)
  obtain user p where user: "getCachedUser (bj_user job) (dperm (bdrive s)) = (user, p)" by fastforce
  define s1 where "s1 = s\<lparr>bdrive := (bdrive s)\<lparr>dperm := p\<rparr>\<rparr>"
  have read: "on_bulk (on_acl (getCachedUser (bj_user job))) s = (Inr user, s1)"
    using user by (simp add: on_bulk_def on_acl_def s1_def)
  have job1: "job_at jobId s1 = Some job" "others_same jobId s s1"
    using same_jobs [of s1 s jobId] assms(3) by (simp_all add: s1_def)
  show ?thesis
  proof (cases user)
    case None
    obtain u where u: "fail_job jobId ''serverErrors.auth.userNotFound'' s1 = (Inr (), u)"
      "job_at jobId u = Some (job\<lparr>bj_status := Bulk_failed, bj_error := Some ''serverErrors.auth.userNotFound''\<rparr>)"
      "others_same jobId s1 u" "bdrive u = bdrive s1"
      unfolding fail_job_def by (rule updateJob_ok [OF job1(1)])
    have "processBulkJob site env fl jobId s = (Inr (), u)"
      using u(1) read None by (simp add: run body_def seqs_def catching_def)
    moreover have "pdb p = pdb (dperm (bdrive s))"
      using user by (auto simp: getCachedUser_def Let_def split: option.splits)
    ultimately show ?thesis
      using assms(1) u(2-4) others_same_trans [OF job1(2)] None user by (simp add: s1_def drive_db_def)
  next
    case (Some x)
    let ?c = "\<lparr>who = User_id (bj_user job), hasUser = True, adminUser = is_admin x\<rparr>"
    obtain s2 where s2: "updateJob jobId (\<lambda>job. job\<lparr>bj_status := Bulk_running, bj_progress := 0\<rparr>) s1 = (Inr (), s2)"
      "job_at jobId s2 = Some (job\<lparr>bj_status := Bulk_running, bj_progress := 0\<rparr>)" "others_same jobId s1 s2"
      by (rule updateJob_ok [OF job1(1)])
    obtain y w where y: "run_payload site ?c fl (bj_payload job) (bdrive s2) = (y, w)" by fastforce
    note rep_ok = run_payload_report [OF y]
    let ?s3 = "s2\<lparr>bdrive := w\<rparr>"
    have at: "body s = (case y of Inl e \<Rightarrow> (Inl e, ?s3) | Inr rep \<Rightarrow>
        seqs (journal_batch env jobId (bj_user job) (bj_payload job) (bo_items rep)) (finish_job jobId rep) ?s3)"
      using read Some s2(1) y by (simp add: body_def seqs_def on_bulk_def split: sum.split)
    obtain rep where rep: "y = Inr rep"
      using at rep_ok assms(1,2) run by (cases y) (auto simp: catching_def)
    obtain z v where z: "journal_batch env jobId (bj_user job) (bj_payload job) (bo_items rep) ?s3 = (z, v)" by fastforce
    note kept = journal_batch_jobs [OF z]
    obtain undo_id where undo: "z = Inr undo_id"
      using kept(2) at rep z assms(1,2) run by (cases z) (auto simp: catching_def seqs_def)
    have job3: "job_at jobId v = Some (job\<lparr>bj_status := Bulk_running, bj_progress := 0\<rparr>)" "others_same jobId s2 v"
      using same_jobs [of v s2 jobId] kept(1) s2(2) by simp_all
    obtain u where u: "finish_job jobId rep undo_id v = (Inr (), u)"
      "job_at jobId u = Some (job\<lparr>bj_status := (if bo_cancelled rep then Bulk_cancelled else Bulk_completed),
         bj_progress := bo_count rep, bj_results := bo_entries rep, bj_undo := undo_id\<rparr>)" "others_same jobId v u"
      unfolding finish_job_def
      by (rule updateJob_ok [OF job3(1), of "\<lambda>job. job\<lparr>bj_status := (if bo_cancelled rep then Bulk_cancelled else Bulk_completed),
         bj_progress := bo_count rep, bj_results := bo_entries rep, bj_undo := undo_id\<rparr>"]) simp
    have "processBulkJob site env fl jobId s = (Inr (), u)"
      using at rep z undo u(1) by (simp add: run catching_def seqs_def)
    moreover have "others_same jobId s u"
      using job1(2) s2(3) job3(2) u(3) others_same_trans by metis
    ultimately show ?thesis
      using assms(1) u(2) rep_ok rep Some user by (simp add: complete_report_def)
  qed
qed

text \<open>An administrator deletes three nodes, one of which does not exist, and cancels before the third.\<close>

definition bulk_env :: journal_env where
  "bulk_env = \<lparr>e_backend = Postgresql, e_sha = (\<lambda>x. x), e_token = (\<lambda>n. ''token''), e_owner = ''host'', e_nap = (\<lambda>k l. l)\<rparr>"

definition demo_bulk :: "(mem, unit) bulk" where
  "demo_bulk = snd (createJob (\<lambda>n. ''j'' @ decimal n) 8 (Bulk_delete [3, 99, 5])
     \<lparr>bdrive = share_drive, bjobs = [], bdownloads = [], btickets = [],
      bjournal = \<lparr>jlocks = \<lparr>lclock = 0, lrows = []\<rparr>, jrows = [], jnext = 1, jdom = (), jdraws = 0\<rparr>, bdraws = 0\<rparr>)"

theorem bulk_job_outcome_witness:
  "map_option (\<lambda>j. (bj_status j, bj_progress j, length (bj_results j)))
     (job_at ''j0'' (snd (processBulkJob (mem_site mem_client) bulk_env (\<lambda>i. i = 2) ''j0'' demo_bulk))) = Some (Bulk_cancelled, 1, 3)"
proof -
  let ?run = "processBulkJob (mem_site mem_client) bulk_env (\<lambda>i. i = 2) ''j0'' demo_bulk"
  have "\<not> isl (fst ?run)" by code_simp
  then have run: "?run = (fst ?run, snd ?run)" "fst ?run \<noteq> Inl No_return" by auto
  have "map_option (\<lambda>j. (bj_payload j, isJobExpired (bulk_now demo_bulk) j)) (job_at ''j0'' demo_bulk)
      = Some (Bulk_delete [3, 99, 5], False)"
    "map_option (\<lambda>j. fst (getCachedUser (bj_user j) (dperm (bdrive demo_bulk))) = None) (job_at ''j0'' demo_bulk) = Some False"
    by code_simp+
  then obtain job where job: "job_at ''j0'' demo_bulk = Some job" "\<not> isJobExpired (bulk_now demo_bulk) job"
    "bj_payload job = Bulk_delete [3, 99, 5]" "fst (getCachedUser (bj_user job) (dperm (bdrive demo_bulk))) \<noteq> None" by auto
  have "map_option bj_progress (job_at ''j0'' (snd ?run)) = Some 1" by code_simp
  then show ?thesis
    using bulk_job_outcome [OF run job(1,2)] job(3,4) by (auto simp: payload_total_def)
qed

end
