(* ===== verification/Collections.thy ===== *)
theory Collections
  imports Complex_Main Users Journal
begin

text \<open>
  Collections: the tables of the collections platform with \<open>CollectionsRepository.sqlite.js\<close> and
  \<open>collectionsShared.js\<close>. A definition is an opaque value here, of type \<open>'d\<close>. Activity scores and centroids
  belong to the usage and embedding subsystems and are not part of the model. The instant of a statement is the clock of the node tables.
\<close>

section \<open>Rows\<close>

datatype origin = Origin_system | Origin_user | Origin_seed | Origin_search

datatype coll_status = Coll_active | Coll_archived

datatype publish_mode = Mode_ask | Mode_off | Mode_auto

datatype pinner = Pin_user | Pin_auto

datatype grant_role = Viewer | Editor

datatype item_source = From_manual | From_system | From_seed | From_search

datatype suggestion_state = Sug_pending | Sug_merged | Sug_dismissed | Sug_rejected

record 'd collection =
  co_id :: nat
  co_owner :: nat
  co_name :: string
  co_locked :: bool
  co_origin :: origin
  co_status :: coll_status
  co_def :: "'d option"
  co_mode :: publish_mode
  co_pinned :: bool
  co_pinner :: "pinner option"
  co_archived :: "int option"
  co_changed :: "int option"
  co_created :: int
  co_updated :: int

record member =
  mb_coll :: nat
  mb_node :: nat
  mb_by :: nat
  mb_published :: bool
  mb_source :: item_source
  mb_reason :: "string option"
  mb_created :: int

record coll_grant =
  cg_coll :: nat
  cg_user :: nat
  cg_role :: grant_role
  cg_by :: nat
  cg_created :: int

record suggestion =
  sg_id :: nat
  sg_a :: nat
  sg_b :: nat
  sg_score :: int
  sg_state :: suggestion_state
  sg_count :: nat
  sg_dismissed :: "int option"
  sg_rejected :: "int option"
  sg_verdict :: "string option"
  sg_why :: "string option"
  sg_created :: int

text \<open>An exclusion is (collection, node), a visibility row (user, collection, hidden), a cursor
  (user, collection, last visit), a tombstone (owner, fingerprint, deletion).\<close>

record 'd shelf =
  acl :: perm_state
  collections :: "'d collection list"
  members :: "member list"
  exclusions :: "(nat \<times> nat) list"
  coll_grants :: "coll_grant list"
  visibility :: "(nat \<times> nat \<times> bool) list"
  digest_cursors :: "(nat \<times> nat \<times> int) list"
  tombstones :: "(nat \<times> string \<times> int) list"
  suggestions :: "suggestion list"
  next_coll :: nat
  next_sugg :: nat

definition shelf_db :: "'d shelf \<Rightarrow> db" where
  "shelf_db s = pdb (acl s)"

definition shelf_now :: "'d shelf \<Rightarrow> int" where
  "shelf_now s = datetime_now (shelf_db s)"

section \<open>CollectionsRepository.sqlite.js: reads\<close>

definition getCollection :: "'d shelf \<Rightarrow> nat \<Rightarrow> 'd collection option" where
  "getCollection s c = first_row (filter (\<lambda>r. co_id r = c) (collections s))"

definition getGrant :: "'d shelf \<Rightarrow> nat \<Rightarrow> nat \<Rightarrow> coll_grant option" where
  "getGrant s c u = first_row (filter (\<lambda>g. cg_coll g = c \<and> cg_user g = u) (coll_grants s))"

definition coll_listGrants :: "'d shelf \<Rightarrow> nat \<Rightarrow> coll_grant list" where
  "coll_listGrants s c = sort_key cg_created (filter (\<lambda>g. cg_coll g = c) (coll_grants s))"

definition isHiddenFor :: "'d shelf \<Rightarrow> nat \<Rightarrow> nat \<Rightarrow> bool" where
  "isHiddenFor s u c \<longleftrightarrow> first_row (filter (\<lambda>(v, d, h). v = u \<and> d = c) (visibility s)) = Some (u, c, True)"

text \<open>What \<open>listForUser\<close> selects; \<open>None\<close> is the status \<open>'all'\<close>.\<close>

definition listed_for :: "'d shelf \<Rightarrow> nat \<Rightarrow> coll_status option \<Rightarrow> 'd collection \<Rightarrow> bool" where
  "listed_for s u st r \<longleftrightarrow> (co_owner r = u \<or> getGrant s (co_id r) u \<noteq> None) \<and> \<not> isHiddenFor s u (co_id r) \<and>
     (case st of None \<Rightarrow> True | Some x \<Rightarrow> co_status r = x)"

datatype coll_sort = By_activity | By_name | By_created | By_updated

text \<open>\<open>score\<close> is the column \<open>activity_score\<close>. The last sort is the first key of the clause.\<close>

definition order_collections :: "(nat \<Rightarrow> real) \<Rightarrow> coll_sort \<Rightarrow> 'd collection list \<Rightarrow> 'd collection list" where
  "order_collections score by rows =
     (let newest = sort_key (\<lambda>r. - co_created r) (sort_key (\<lambda>r. - int (co_id r)) rows)
      in case by of
           By_name \<Rightarrow> sort_key co_name rows
         | By_created \<Rightarrow> newest
         | By_updated \<Rightarrow> sort_key (\<lambda>r. - co_updated r) (sort_key (\<lambda>r. - int (co_id r)) rows)
         | By_activity \<Rightarrow> sort_key (\<lambda>r. - score (co_id r))
             (sort_key (\<lambda>r. - (case co_changed r of Some t \<Rightarrow> t | None \<Rightarrow> co_created r)) newest))"

definition listForUser :: "(nat \<Rightarrow> real) \<Rightarrow> 'd shelf \<Rightarrow> nat \<Rightarrow> coll_sort \<Rightarrow> coll_status option \<Rightarrow> 'd collection list" where
  "listForUser score s u by st = order_collections score by (filter (listed_for s u st) (collections s))"

definition listArchived :: "'d shelf \<Rightarrow> nat \<Rightarrow> 'd collection list" where
  "listArchived s u = sort_key (\<lambda>r. - (case co_archived r of Some t \<Rightarrow> t | None \<Rightarrow> 0))
     (filter (\<lambda>r. co_owner r = u \<and> co_status r = Coll_archived) (collections s))"

definition existsActiveName :: "'d shelf \<Rightarrow> nat \<Rightarrow> string \<Rightarrow> bool" where
  "existsActiveName s u nm \<longleftrightarrow> list_ex (\<lambda>r. co_owner r = u \<and> co_name r = nm \<and> co_status r = Coll_active) (collections s)"

definition listStoredItems :: "'d shelf \<Rightarrow> nat \<Rightarrow> int option \<Rightarrow> member list" where
  "listStoredItems s c since =
     sort_key mb_created (filter (\<lambda>m. mb_coll m = c \<and> (case since of None \<Rightarrow> True | Some t \<Rightarrow> mb_created m > t)) (members s))"

definition getStoredItem :: "'d shelf \<Rightarrow> nat \<Rightarrow> nat \<Rightarrow> member option" where
  "getStoredItem s c n = first_row (filter (\<lambda>m. mb_coll m = c \<and> mb_node m = n) (members s))"

definition countTrashedMembersSince :: "'d shelf \<Rightarrow> nat \<Rightarrow> int \<Rightarrow> nat" where
  "countTrashedMembersSince s c since =
     count_where (\<lambda>m. mb_coll m = c \<and> list_ex (\<lambda>n. nid n = mb_node m \<and>
         (case ndeleted n of None \<Rightarrow> False | Some t \<Rightarrow> t > since)) (file_nodes (shelf_db s))) (members s)"

definition listExclusions :: "'d shelf \<Rightarrow> nat \<Rightarrow> nat list" where
  "listExclusions s c = sort (map snd (filter (\<lambda>(d, n). d = c) (exclusions s)))"

definition isExcluded :: "'d shelf \<Rightarrow> nat \<Rightarrow> nat \<Rightarrow> bool" where
  "isExcluded s c n \<longleftrightarrow> list_ex (\<lambda>e. e = (c, n)) (exclusions s)"

definition listForNodes :: "'d shelf \<Rightarrow> nat \<Rightarrow> nat list \<Rightarrow> (nat \<times> nat) list" where
  "listForNodes s u ids =
     map (\<lambda>m. (mb_node m, mb_coll m))
       (filter (\<lambda>m. mb_node m \<in> set ids \<and> (case getCollection s (mb_coll m) of
            None \<Rightarrow> False
          | Some c \<Rightarrow> (co_owner c = u \<or> mb_published m \<and> getGrant s (co_id c) u \<noteq> None) \<and>
              \<not> isHiddenFor s u (co_id c) \<and> co_status c = Coll_active)) (members s))"

definition getDigestCursor :: "'d shelf \<Rightarrow> nat \<Rightarrow> nat \<Rightarrow> int option" where
  "getDigestCursor s u c =
     map_option (\<lambda>(_, _, t). t) (first_row (filter (\<lambda>(v, d, t). v = u \<and> d = c) (digest_cursors s)))"

definition isTombstoned :: "'d shelf \<Rightarrow> nat \<Rightarrow> string \<Rightarrow> bool" where
  "isTombstoned s u fp \<longleftrightarrow> list_ex (\<lambda>(v, f, t). v = u \<and> f = fp) (tombstones s)"

definition listTombstones :: "'d shelf \<Rightarrow> nat \<Rightarrow> (string \<times> int) list" where
  "listTombstones s u = map snd (sort_key (\<lambda>(v, f, t). - t) (filter (\<lambda>(v, f, t). v = u) (tombstones s)))"

definition listMergeSuggestions :: "'d shelf \<Rightarrow> nat list \<Rightarrow> suggestion_state \<Rightarrow> suggestion list" where
  "listMergeSuggestions s ids st =
     sort_key (\<lambda>g. - sg_created g) (sort_key (\<lambda>g. - int (sg_id g))
       (filter (\<lambda>g. sg_state g = st \<and> (ids = [] \<or> sg_a g \<in> set ids \<or> sg_b g \<in> set ids)) (suggestions s)))"

section \<open>CollectionsRepository.sqlite.js: writes\<close>

text \<open>\<open>collections_owner_name_active_uq\<close>: a statement that would break it fails.\<close>

definition active_names :: "'d collection list \<Rightarrow> (nat \<times> string) list" where
  "active_names rows = map (\<lambda>r. (co_owner r, co_name r)) (filter (\<lambda>r. co_status r = Coll_active) rows)"

definition put_collections :: "'a \<Rightarrow> 'd collection list \<Rightarrow> ('d shelf, 'a) service" where
  "put_collections x rows s =
     (if distinct (active_names rows) then (Inr x, s\<lparr>collections := rows\<rparr>) else (Inl unique_failed, s))"

definition update_collections ::
  "('d collection \<Rightarrow> bool) \<Rightarrow> ('d collection \<Rightarrow> 'd collection) \<Rightarrow> ('d shelf, nat) service" where
  "update_collections p f s = put_collections (count_where p (collections s)) (update_where p f (collections s)) s"

definition insertCollection ::
  "nat \<Rightarrow> string \<Rightarrow> origin \<Rightarrow> publish_mode option \<Rightarrow> 'd option \<Rightarrow> bool \<Rightarrow> ('d shelf, nat) service" where
  "insertCollection owner nm org mode df nameLocked s =
     (let row = \<lparr>co_id = next_coll s, co_owner = owner, co_name = nm, co_locked = nameLocked, co_origin = org,
                 co_status = Coll_active, co_def = df, co_mode = (case mode of None \<Rightarrow> Mode_ask | Some m \<Rightarrow> m),
                 co_pinned = False, co_pinner = None, co_archived = None, co_changed = None,
                 co_created = shelf_now s, co_updated = shelf_now s\<rparr>
      in if \<not> distinct (active_names (collections s @ [row])) then (Inl unique_failed, s)
         else if \<not> has_user (shelf_db s) owner then (Inl fk_failed, s)
         else (Inr (next_coll s), s\<lparr>collections := collections s @ [row], next_coll := Suc (next_coll s)\<rparr>))"

definition repo_renameCollection :: "nat \<Rightarrow> string \<Rightarrow> bool \<Rightarrow> ('d shelf, nat) service" where
  "repo_renameCollection c nm lockName s =
     update_collections (\<lambda>r. co_id r = c)
       (\<lambda>r. r\<lparr>co_name := nm, co_locked := lockName \<or> co_locked r, co_updated := shelf_now s\<rparr>) s"

definition updatePin :: "nat \<Rightarrow> bool \<Rightarrow> pinner option \<Rightarrow> ('d shelf, nat) service" where
  "updatePin c pinned by s =
     update_collections (\<lambda>r. co_id r = c)
       (\<lambda>r. r\<lparr>co_pinned := pinned, co_pinner := (if pinned then Some Pin_user else by), co_updated := shelf_now s\<rparr>) s"

definition repo_setAutoPin :: "nat \<Rightarrow> ('d shelf, nat) service" where
  "repo_setAutoPin c s =
     update_collections (\<lambda>r. co_id r = c \<and> co_origin r = Origin_system \<and> \<not> co_pinned r)
       (\<lambda>r. r\<lparr>co_pinned := True, co_pinner := Some Pin_auto, co_updated := shelf_now s\<rparr>) s"

definition repo_clearAutoPin :: "nat \<Rightarrow> ('d shelf, nat) service" where
  "repo_clearAutoPin c s =
     update_collections (\<lambda>r. co_id r = c \<and> co_pinner r = Some Pin_auto \<and> (co_origin r \<noteq> Origin_system \<or> \<not> co_pinned r))
       (\<lambda>r. r\<lparr>co_pinned := False, co_pinner := None, co_updated := shelf_now s\<rparr>) s"

definition updatePublishMode :: "nat \<Rightarrow> publish_mode \<Rightarrow> ('d shelf, nat) service" where
  "updatePublishMode c mode s =
     update_collections (\<lambda>r. co_id r = c) (\<lambda>r. r\<lparr>co_mode := mode, co_updated := shelf_now s\<rparr>) s"

definition archiveRow :: "nat \<Rightarrow> ('d shelf, nat) service" where
  "archiveRow c s =
     update_collections (\<lambda>r. co_id r = c \<and> co_status r = Coll_active)
       (\<lambda>r. r\<lparr>co_status := Coll_archived, co_archived := Some (shelf_now s), co_updated := shelf_now s\<rparr>) s"

definition restoreRow :: "nat \<Rightarrow> ('d shelf, nat) service" where
  "restoreRow c s =
     update_collections (\<lambda>r. co_id r = c \<and> co_status r = Coll_archived)
       (\<lambda>r. r\<lparr>co_status := Coll_active, co_archived := None, co_updated := shelf_now s\<rparr>) s"

definition repo_touchMemberChange :: "nat \<Rightarrow> ('d shelf, nat) service" where
  "repo_touchMemberChange c s =
     update_collections (\<lambda>r. co_id r = c) (\<lambda>r. r\<lparr>co_changed := Some (shelf_now s)\<rparr>) s"

definition has_collection :: "'d shelf \<Rightarrow> nat \<Rightarrow> bool" where
  "has_collection s c \<longleftrightarrow> list_ex (\<lambda>r. co_id r = c) (collections s)"

text \<open>The options as the repository defaults them: published, by hand, without a reason.\<close>

record item_options =
  io_published :: bool
  io_source :: item_source
  io_reason :: "string option"

definition insertItem :: "nat \<Rightarrow> nat \<Rightarrow> nat \<Rightarrow> item_options \<Rightarrow> ('d shelf, nat) service" where
  "insertItem c n by opt s =
     (if getStoredItem s c n \<noteq> None then (Inr 0, s)
      else if \<not> has_collection s c \<or> \<not> has_node (shelf_db s) n \<or> \<not> has_user (shelf_db s) by then (Inl fk_failed, s)
      else (Inr 1, s\<lparr>members := members s @ [\<lparr>mb_coll = c, mb_node = n, mb_by = by, mb_published = io_published opt,
        mb_source = io_source opt, mb_reason = io_reason opt, mb_created = shelf_now s\<rparr>]\<rparr>))"

definition is_member :: "nat \<Rightarrow> nat \<Rightarrow> member \<Rightarrow> bool" where
  "is_member c n m \<longleftrightarrow> mb_coll m = c \<and> mb_node m = n"

definition deleteItem :: "nat \<Rightarrow> nat \<Rightarrow> ('d shelf, nat) service" where
  "deleteItem c n s =
     (Inr (count_where (is_member c n) (members s)), s\<lparr>members := delete_where (is_member c n) (members s)\<rparr>)"

definition repo_setItemPublished :: "nat \<Rightarrow> nat list \<Rightarrow> bool \<Rightarrow> ('d shelf, nat) service" where
  "repo_setItemPublished c ids published s =
     (if ids = [] then (Inr 0, s)
      else let p = (\<lambda>m. mb_coll m = c \<and> mb_node m \<in> set ids)
           in (Inr (count_where p (members s)),
               s\<lparr>members := update_where p (\<lambda>m. m\<lparr>mb_published := published\<rparr>) (members s)\<rparr>))"

definition insertExclusion :: "nat \<Rightarrow> nat \<Rightarrow> ('d shelf, nat) service" where
  "insertExclusion c n s =
     (if isExcluded s c n then (Inr 0, s)
      else if \<not> has_collection s c \<or> \<not> has_node (shelf_db s) n then (Inl fk_failed, s)
      else (Inr 1, s\<lparr>exclusions := exclusions s @ [(c, n)]\<rparr>))"

definition deleteExclusion :: "nat \<Rightarrow> nat \<Rightarrow> ('d shelf, nat) service" where
  "deleteExclusion c n s =
     (Inr (count_where (\<lambda>e. e = (c, n)) (exclusions s)), s\<lparr>exclusions := delete_where (\<lambda>e. e = (c, n)) (exclusions s)\<rparr>)"

definition upsertGrant :: "nat \<Rightarrow> nat \<Rightarrow> grant_role \<Rightarrow> nat \<Rightarrow> ('d shelf, nat) service" where
  "upsertGrant c u role by s =
     (if \<not> has_user (shelf_db s) by \<or> getGrant s c u = None \<and> (\<not> has_collection s c \<or> \<not> has_user (shelf_db s) u)
      then (Inl fk_failed, s)
      else (Inr 1, s\<lparr>coll_grants :=
        (if getGrant s c u = None
         then coll_grants s @ [\<lparr>cg_coll = c, cg_user = u, cg_role = role, cg_by = by, cg_created = shelf_now s\<rparr>]
         else update_where (\<lambda>g. cg_coll g = c \<and> cg_user g = u) (\<lambda>g. g\<lparr>cg_role := role, cg_by := by\<rparr>) (coll_grants s))\<rparr>))"

definition deleteGrant :: "nat \<Rightarrow> nat \<Rightarrow> ('d shelf, nat) service" where
  "deleteGrant c u s =
     (Inr (count_where (\<lambda>g. cg_coll g = c \<and> cg_user g = u) (coll_grants s)),
      s\<lparr>coll_grants := delete_where (\<lambda>g. cg_coll g = c \<and> cg_user g = u) (coll_grants s)\<rparr>)"

definition repo_setVisible :: "nat \<Rightarrow> nat \<Rightarrow> bool \<Rightarrow> ('d shelf, nat) service" where
  "repo_setVisible u c h s =
     (if list_ex (\<lambda>(v, d, x). v = u \<and> d = c) (visibility s)
      then (Inr 1, s\<lparr>visibility := update_where (\<lambda>(v, d, x). v = u \<and> d = c) (\<lambda>(v, d, x). (v, d, h)) (visibility s)\<rparr>)
      else if \<not> has_user (shelf_db s) u \<or> \<not> has_collection s c then (Inl fk_failed, s)
      else (Inr 1, s\<lparr>visibility := visibility s @ [(u, c, h)]\<rparr>))"

definition repo_upsertDigestCursor :: "nat \<Rightarrow> nat \<Rightarrow> int \<Rightarrow> ('d shelf, nat) service" where
  "repo_upsertDigestCursor u c t s =
     (if getDigestCursor s u c \<noteq> None
      then (Inr 1, s\<lparr>digest_cursors := update_where (\<lambda>(v, d, x). v = u \<and> d = c) (\<lambda>(v, d, x). (v, d, t)) (digest_cursors s)\<rparr>)
      else if \<not> has_user (shelf_db s) u \<or> \<not> has_collection s c then (Inl fk_failed, s)
      else (Inr 1, s\<lparr>digest_cursors := digest_cursors s @ [(u, c, t)]\<rparr>))"

definition deleteDigestCursor :: "nat \<Rightarrow> nat \<Rightarrow> ('d shelf, nat) service" where
  "deleteDigestCursor u c s =
     (Inr (count_where (\<lambda>(v, d, x). v = u \<and> d = c) (digest_cursors s)),
      s\<lparr>digest_cursors := delete_where (\<lambda>(v, d, x). v = u \<and> d = c) (digest_cursors s)\<rparr>)"

definition insertTombstone :: "nat \<Rightarrow> string \<Rightarrow> ('d shelf, nat) service" where
  "insertTombstone u fp s =
     (if isTombstoned s u fp then (Inr 0, s)
      else if \<not> has_user (shelf_db s) u then (Inl fk_failed, s)
      else (Inr 1, s\<lparr>tombstones := tombstones s @ [(u, fp, shelf_now s)]\<rparr>))"

definition purgeExpiredTombstones :: "int \<Rightarrow> ('d shelf, nat) service" where
  "purgeExpiredTombstones cutoff s =
     (Inr (count_where (\<lambda>(v, f, t). t < cutoff) (tombstones s)),
      s\<lparr>tombstones := delete_where (\<lambda>(v, f, t). t < cutoff) (tombstones s)\<rparr>)"

text \<open>The row, and \<open>ON DELETE CASCADE\<close> of the tables that refer to it.\<close>

definition deleteCollectionRow :: "nat \<Rightarrow> ('d shelf, nat) service" where
  "deleteCollectionRow c s =
     (Inr (count_where (\<lambda>r. co_id r = c) (collections s)),
      s\<lparr>collections := delete_where (\<lambda>r. co_id r = c) (collections s),
        members := delete_where (\<lambda>m. mb_coll m = c) (members s),
        exclusions := delete_where (\<lambda>(d, n). d = c) (exclusions s),
        coll_grants := delete_where (\<lambda>g. cg_coll g = c) (coll_grants s),
        visibility := delete_where (\<lambda>(u, d, h). d = c) (visibility s),
        digest_cursors := delete_where (\<lambda>(u, d, t). d = c) (digest_cursors s),
        suggestions := delete_where (\<lambda>g. sg_a g = c \<or> sg_b g = c) (suggestions s)\<rparr>)"

definition pair_suggestion :: "'d shelf \<Rightarrow> nat \<Rightarrow> nat \<Rightarrow> suggestion option" where
  "pair_suggestion s a b = first_row (filter (\<lambda>g. sg_a g = min a b \<and> sg_b g = max a b) (suggestions s))"

definition repo_upsertMergeSuggestion ::
  "nat \<Rightarrow> nat \<Rightarrow> int \<Rightarrow> string option \<Rightarrow> string option \<Rightarrow> ('d shelf, suggestion option) service" where
  "repo_upsertMergeSuggestion a b score verdict why s =
     (if pair_suggestion s a b \<noteq> None then (Inr (pair_suggestion s a b), s)
      else if \<not> has_collection s a \<or> \<not> has_collection s b then (Inl fk_failed, s)
      else let row = \<lparr>sg_id = next_sugg s, sg_a = min a b, sg_b = max a b, sg_score = score, sg_state = Sug_pending,
                      sg_count = 0, sg_dismissed = None, sg_rejected = None, sg_verdict = verdict, sg_why = why,
                      sg_created = shelf_now s\<rparr>
           in (Inr (Some row), s\<lparr>suggestions := suggestions s @ [row], next_sugg := Suc (next_sugg s)\<rparr>))"

definition stamp_suggestion :: "suggestion_state \<Rightarrow> int \<Rightarrow> suggestion \<Rightarrow> suggestion" where
  "stamp_suggestion st now g =
     (case st of
        Sug_dismissed \<Rightarrow> g\<lparr>sg_state := st, sg_dismissed := Some now, sg_count := Suc (sg_count g)\<rparr>
      | Sug_rejected \<Rightarrow> g\<lparr>sg_state := st, sg_rejected := Some now\<rparr>
      | _ \<Rightarrow> g\<lparr>sg_state := st\<rparr>)"

definition repo_setSuggestionState :: "nat \<Rightarrow> suggestion_state \<Rightarrow> ('d shelf, nat) service" where
  "repo_setSuggestionState i st s =
     (if st = Sug_pending then (Inr 0, s)
      else let p = (\<lambda>g. sg_id g = i \<and> sg_state g = Sug_pending)
           in (Inr (count_where p (suggestions s)),
               s\<lparr>suggestions := update_where p (stamp_suggestion st (shelf_now s)) (suggestions s)\<rparr>))"

definition repo_reopenMergeSuggestion :: "nat \<Rightarrow> int option \<Rightarrow> ('d shelf, nat) service" where
  "repo_reopenMergeSuggestion i score s =
     (let p = (\<lambda>g. sg_id g = i \<and> sg_state g = Sug_dismissed)
      in (Inr (count_where p (suggestions s)),
          s\<lparr>suggestions := update_where p (\<lambda>g. g\<lparr>sg_state := Sug_pending,
              sg_score := (case score of None \<Rightarrow> sg_score g | Some x \<Rightarrow> x)\<rparr>) (suggestions s)\<rparr>))"

end
