(* ===== verification/CollStore.thy ===== *)
theory CollStore
  imports Collections
begin

text \<open>
  \<open>store/collectionsStore.js\<close>: every command of a user writes the tables and its journal row in one
  transaction, with a descriptor of its inverse; what a command reads for the descriptor is read
  before the transaction. A state is the journal over the tables of collections.
\<close>

section \<open>Payloads\<close>

text \<open>
  The operations of a descriptor. The last two stand at the head of a row whose items carry their own
  descriptors. \<open>Unmerge\<close> holds the absorbed row, its members and its exclusions.
\<close>

datatype 'd inverse =
    Delete_collection nat
  | Rename_collection nat "string option"
  | Set_pinned nat bool
  | Set_publish_mode nat "publish_mode option"
  | Restore_collection nat
  | Archive_collection nat
  | Remove_item nat nat
  | Add_item nat nat string
  | Remove_exclusion nat nat
  | Add_exclusion nat nat
  | Set_items_published nat "nat list" bool
  | Revoke_access nat nat
  | Grant_access nat nat "grant_role option" "nat option"
  | Unmerge nat nat "'d collection" "member list" "nat list"
  | Remove_items nat
  | Update_properties nat

record 'd coll_payload =
  pl_inverse :: "'d inverse"
  pl_items :: "'d inverse list"
  pl_atomic :: bool
  pl_dropped :: "nat list \<times> nat list"

type_synonym 'd library = "('d coll_payload, 'd shelf) journal"

definition single :: "'d inverse \<Rightarrow> 'd coll_payload" where
  "single i = \<lparr>pl_inverse = i, pl_items = [], pl_atomic = False, pl_dropped = ([], [])\<rparr>"

definition unit_of :: "'d inverse \<Rightarrow> 'd inverse list \<Rightarrow> bool \<Rightarrow> 'd coll_payload" where
  "unit_of i items allOrNothing = \<lparr>pl_inverse = i, pl_items = items, pl_atomic = allOrNothing, pl_dropped = ([], [])\<rparr>"

definition collection_subject :: "nat \<Rightarrow> string" where
  "collection_subject c = ''collection:'' @ decimal c"

definition coll_commit ::
  "journal_env \<Rightarrow> nat \<Rightarrow> string \<Rightarrow> string \<Rightarrow> string option \<Rightarrow> 'd coll_payload \<Rightarrow> ('d shelf, 'r) service \<Rightarrow>
     ('d library, 'r \<times> nat) service" where
  "coll_commit env c actor action label payload mutation =
     seqs (commitChange env ''collection'' (Subject (collection_subject c))
             \<lparr>m_actor = actor, m_action = action, m_label = label\<rparr> (\<lambda>_. payload) mutation) (\<lambda>(i, n, r).
     ret (r, i))"

definition in_shelf :: "('d shelf \<Rightarrow> 'a) \<Rightarrow> ('d library, 'a) service" where
  "in_shelf f = reads (\<lambda>s. f (jdom s))"

definition labelOf :: "nat \<Rightarrow> ('d library, string option) service" where
  "labelOf c = in_shelf (\<lambda>s. map_option co_name (getCollection s c))"

definition shelf_tx :: "('d shelf, 'a) service \<Rightarrow> ('d library, 'a) service" where
  "shelf_tx m = on_domain (withTx m)"

section \<open>Commands on the collection row\<close>

definition created_row :: "nat \<Rightarrow> nat \<Rightarrow> ('d shelf, 'd collection) service" where
  "created_row owner i =
     seqs (reads (\<lambda>s. getCollection s i)) (\<lambda>found.
     (case found of
        None \<Rightarrow> throw (Plain ''Cannot read properties of null'')
      | Some row \<Rightarrow> seqs (repo_upsertDigestCursor owner i (co_created row)) (\<lambda>_. ret row)))"

definition store_createCollection ::
  "journal_env \<Rightarrow> nat \<Rightarrow> string \<Rightarrow> origin \<Rightarrow> publish_mode option \<Rightarrow> 'd option \<Rightarrow> string \<Rightarrow>
     ('d library, 'd collection \<times> nat) service" where
  "store_createCollection env owner nm org mode df actor =
     seqs (commitChange env ''collection'' (Subject_of (\<lambda>row. collection_subject (co_id row)))
             \<lparr>m_actor = actor, m_action = ''create'', m_label = Some nm\<rparr>
             (\<lambda>row. single (Delete_collection (co_id row)))
             (seqs (insertCollection owner nm org mode df False) (created_row owner))) (\<lambda>(i, n, row).
     ret (row, i))"

definition store_renameCollection ::
  "journal_env \<Rightarrow> nat \<Rightarrow> string \<Rightarrow> bool \<Rightarrow> string \<Rightarrow> ('d library, 'd collection option \<times> nat) service" where
  "store_renameCollection env c nm lockName actor =
     seqs (in_shelf (\<lambda>s. getCollection s c)) (\<lambda>previous.
       coll_commit env c actor ''rename'' (Some nm) (single (Rename_collection c (map_option co_name previous)))
         (seqs (repo_renameCollection c nm lockName) (\<lambda>_. reads (\<lambda>s. getCollection s c))))"

definition store_setPinned :: "journal_env \<Rightarrow> nat \<Rightarrow> bool \<Rightarrow> string \<Rightarrow> ('d library, nat \<times> nat) service" where
  "store_setPinned env c pinned actor =
     seqs (labelOf c) (\<lambda>label.
       coll_commit env c actor (if pinned then ''pin'' else ''unpin'') label (single (Set_pinned c (\<not> pinned)))
         (updatePin c pinned (if pinned then Some Pin_user else None)))"

definition store_setPublishMode ::
  "journal_env \<Rightarrow> nat \<Rightarrow> publish_mode \<Rightarrow> string \<Rightarrow> ('d library, 'd collection option \<times> nat) service" where
  "store_setPublishMode env c mode actor =
     seqs (in_shelf (\<lambda>s. getCollection s c)) (\<lambda>previous.
       coll_commit env c actor ''set-publish-mode'' (map_option co_name previous)
         (single (Set_publish_mode c (map_option co_mode previous)))
         (seqs (updatePublishMode c mode) (\<lambda>_. reads (\<lambda>s. getCollection s c))))"

definition store_setAutoPin :: "nat \<Rightarrow> ('d library, nat) service" where
  "store_setAutoPin c = shelf_tx (repo_setAutoPin c)"

definition store_clearAutoPin :: "nat \<Rightarrow> ('d library, nat) service" where
  "store_clearAutoPin c = shelf_tx (repo_clearAutoPin c)"

definition store_archiveCollection :: "journal_env \<Rightarrow> nat \<Rightarrow> string \<Rightarrow> ('d library, nat \<times> nat) service" where
  "store_archiveCollection env c actor =
     seqs (labelOf c) (\<lambda>label. coll_commit env c actor ''archive'' label (single (Restore_collection c)) (archiveRow c))"

definition store_restoreCollection :: "journal_env \<Rightarrow> nat \<Rightarrow> string \<Rightarrow> ('d library, nat \<times> nat) service" where
  "store_restoreCollection env c actor =
     seqs (labelOf c) (\<lambda>label. coll_commit env c actor ''restore'' label (single (Archive_collection c)) (restoreRow c))"

text \<open>The permanent deletion has no inverse and takes the journal of its subject with it.\<close>

definition store_deletePermanent :: "journal_env \<Rightarrow> nat \<Rightarrow> string option \<Rightarrow> ('d library, nat) service" where
  "store_deletePermanent env c defFingerprint =
     seqs (in_shelf (\<lambda>s. getCollection s c)) (\<lambda>found.
     (case found of
        None \<Rightarrow> ret 0
      | Some row \<Rightarrow> with_lock env (journal_lock ''collection'' (collection_subject c)) (in_tx (
          seqs (on_domain (deleteCollectionRow c)) (\<lambda>removed.
          if removed = 0 then ret 0
          else seqs (case defFingerprint of
                       None \<Rightarrow> ret 0
                     | Some fp \<Rightarrow> if fp \<noteq> [] \<and> co_origin row = Origin_system then on_domain (insertTombstone (co_owner row) fp)
                                 else ret 0) (\<lambda>_.
               seqs (purgeSubject ''collection'' (collection_subject c)) (\<lambda>_. ret removed)))))))"

definition store_touchMemberChange :: "nat \<Rightarrow> ('d library, nat) service" where
  "store_touchMemberChange c = shelf_tx (repo_touchMemberChange c)"

section \<open>The properties dialog: one row for all its changes\<close>

record properties_patch =
  pt_name :: "string option"
  pt_pinned :: "bool option"
  pt_mode :: "publish_mode option"
  pt_upsert :: "(nat \<times> grant_role) list"
  pt_revoke :: "nat list"

definition renames :: "'d collection \<Rightarrow> properties_patch \<Rightarrow> string option" where
  "renames previous p = (case pt_name p of Some nm \<Rightarrow> if nm \<noteq> co_name previous then Some nm else None | None \<Rightarrow> None)"

definition repins :: "'d collection \<Rightarrow> properties_patch \<Rightarrow> bool option" where
  "repins previous p = (case pt_pinned p of Some b \<Rightarrow> if b \<noteq> co_pinned previous then Some b else None | None \<Rightarrow> None)"

definition remodes :: "'d collection \<Rightarrow> properties_patch \<Rightarrow> publish_mode option" where
  "remodes previous p = (case pt_mode p of Some m \<Rightarrow> if m \<noteq> co_mode previous then Some m else None | None \<Rightarrow> None)"

definition new_roles :: "(nat \<Rightarrow> coll_grant option) \<Rightarrow> properties_patch \<Rightarrow> (nat \<times> grant_role) list" where
  "new_roles existing p = filter (\<lambda>(u, role). map_option cg_role (existing u) \<noteq> Some role) (pt_upsert p)"

definition property_items :: "nat \<Rightarrow> 'd collection \<Rightarrow> (nat \<Rightarrow> coll_grant option) \<Rightarrow> properties_patch \<Rightarrow> 'd inverse list" where
  "property_items c previous existing p =
     (if renames previous p \<noteq> None then [Rename_collection c (Some (co_name previous))] else []) @
     (if repins previous p \<noteq> None then [Set_pinned c (co_pinned previous)] else []) @
     (if remodes previous p \<noteq> None then [Set_publish_mode c (Some (co_mode previous))] else []) @
     map (\<lambda>u. Grant_access c u (map_option cg_role (existing u)) (map_option cg_by (existing u))) (pt_revoke p) @
     map (\<lambda>(u, role). case existing u of
            Some g \<Rightarrow> Grant_access c u (Some (cg_role g)) (Some (cg_by g))
          | None \<Rightarrow> Revoke_access c u) (new_roles existing p)"

fun apply_revokes :: "nat \<Rightarrow> nat list \<Rightarrow> ('d shelf, unit) service" where
  "apply_revokes c [] = ret ()"
| "apply_revokes c (u # us) =
     seqs (deleteGrant c u) (\<lambda>_. seqs (deleteDigestCursor u c) (\<lambda>_. apply_revokes c us))"

fun apply_upserts ::
  "nat \<Rightarrow> nat \<Rightarrow> (nat \<Rightarrow> coll_grant option) \<Rightarrow> (nat \<times> grant_role) list \<Rightarrow> ('d shelf, unit) service" where
  "apply_upserts c actor existing [] = ret ()"
| "apply_upserts c actor existing ((u, role) # us) =
     seqs (upsertGrant c u role actor) (\<lambda>_.
     seqs (if existing u = None then repo_setVisible u c False else ret 0) (\<lambda>_.
       apply_upserts c actor existing us))"

definition apply_properties ::
  "nat \<Rightarrow> nat \<Rightarrow> 'd collection \<Rightarrow> (nat \<Rightarrow> coll_grant option) \<Rightarrow> properties_patch \<Rightarrow>
     ('d shelf, 'd collection option) service" where
  "apply_properties c actor previous existing p =
     seqs (case renames previous p of Some nm \<Rightarrow> repo_renameCollection c nm True | None \<Rightarrow> ret 0) (\<lambda>_.
     seqs (case repins previous p of Some b \<Rightarrow> updatePin c b (if b then Some Pin_user else None) | None \<Rightarrow> ret 0) (\<lambda>_.
     seqs (case remodes previous p of Some m \<Rightarrow> updatePublishMode c m | None \<Rightarrow> ret 0) (\<lambda>_.
     seqs (apply_revokes c (pt_revoke p)) (\<lambda>_.
     seqs (apply_upserts c actor existing (new_roles existing p)) (\<lambda>_.
     seqs (if pt_pinned p \<noteq> Some False \<and> co_origin previous = Origin_system then repo_setAutoPin c else ret 0) (\<lambda>_.
       reads (\<lambda>s. getCollection s c)))))))"

definition store_updateProperties ::
  "journal_env \<Rightarrow> nat \<Rightarrow> properties_patch \<Rightarrow> nat \<Rightarrow> ('d library, 'd collection option \<times> nat option) service" where
  "store_updateProperties env c p actor =
     seqs (in_shelf (\<lambda>s. getCollection s c)) (\<lambda>found.
     (case found of
        None \<Rightarrow> ret (None, None)
      | Some previous \<Rightarrow>
          seqs (in_shelf (\<lambda>s. getGrant s c)) (\<lambda>existing.
          let todo = property_items c previous existing p in
          if todo = [] then ret (Some previous, None)
          else seqs (coll_commit env c (decimal actor) ''update-properties''
                       (Some (case renames previous p of Some nm \<Rightarrow> nm | None \<Rightarrow> co_name previous))
                       (unit_of (Update_properties c) todo True) (apply_properties c actor previous existing p))
                    (\<lambda>(row, i). ret (row, Some i)))))"

section \<open>Merging\<close>

text \<open>The members and exclusions move; what the survivor has already is dropped and recorded.\<close>

fun merge_items :: "nat \<Rightarrow> nat \<Rightarrow> member list \<Rightarrow> ('d shelf, nat list) service" where
  "merge_items survivor loser [] = ret []"
| "merge_items survivor loser (m # ms) =
     seqs (insertItem survivor (mb_node m) (mb_by m)
             \<lparr>io_published = mb_published m, io_source = From_manual, io_reason = None\<rparr>) (\<lambda>n.
     seqs (deleteItem loser (mb_node m)) (\<lambda>_.
     seqs (merge_items survivor loser ms) (\<lambda>dropped.
       ret (if n = 0 then mb_node m # dropped else dropped))))"

fun merge_exclusions :: "nat \<Rightarrow> nat \<Rightarrow> nat list \<Rightarrow> ('d shelf, nat list) service" where
  "merge_exclusions survivor loser [] = ret []"
| "merge_exclusions survivor loser (x # xs) =
     seqs (insertExclusion survivor x) (\<lambda>n.
     seqs (deleteExclusion loser x) (\<lambda>_.
     seqs (merge_exclusions survivor loser xs) (\<lambda>dropped.
       ret (if n = 0 then x # dropped else dropped))))"

definition merge_body ::
  "nat \<Rightarrow> nat \<Rightarrow> member list \<Rightarrow> nat list \<Rightarrow> suggestion option \<Rightarrow>
     ('d shelf, 'd collection option \<times> nat list \<times> nat list) service" where
  "merge_body survivor loser its exs suggested =
     seqs (merge_items survivor loser its) (\<lambda>droppedItems.
     seqs (merge_exclusions survivor loser exs) (\<lambda>droppedExclusions.
     seqs (case suggested of Some g \<Rightarrow> repo_setSuggestionState (sg_id g) Sug_merged | None \<Rightarrow> ret 0) (\<lambda>_.
     seqs (repo_touchMemberChange survivor) (\<lambda>_.
     seqs (deleteCollectionRow loser) (\<lambda>_.
     seqs (reads (\<lambda>s. getCollection s survivor)) (\<lambda>row.
       ret (row, droppedItems, droppedExclusions)))))))"

definition coll_notFound :: err where
  "coll_notFound = Err ''notFound'' 404"

definition store_mergeCollections ::
  "journal_env \<Rightarrow> nat \<Rightarrow> nat \<Rightarrow> string \<Rightarrow> ('d library, 'd collection option \<times> nat) service" where
  "store_mergeCollections env survivor loserId actor =
     seqs (in_shelf (\<lambda>s. getCollection s loserId)) (\<lambda>found.
     (case found of
        None \<Rightarrow> throw coll_notFound
      | Some loser \<Rightarrow>
          if co_status loser \<noteq> Coll_active then throw coll_notFound
          else with_lock env (journal_lock ''collection'' (collection_subject loserId)) (
            seqs (in_shelf (\<lambda>s. listStoredItems s loserId None)) (\<lambda>its.
            seqs (in_shelf (\<lambda>s. listExclusions s loserId)) (\<lambda>exs.
            seqs (in_shelf (\<lambda>s. first_row (filter (\<lambda>g. sg_a g = min survivor loserId \<and> sg_b g = max survivor loserId)
                    (listMergeSuggestions s [survivor, loserId] Sug_pending)))) (\<lambda>suggested.
            seqs (commitChange env ''collection'' (Subject (collection_subject survivor))
                    \<lparr>m_actor = actor, m_action = ''merge'', m_label = Some (co_name loser)\<rparr>
                    (\<lambda>(row, dropped). (single (Unmerge survivor loserId loser its exs))\<lparr>pl_dropped := dropped\<rparr>)
                    (merge_body survivor loserId its exs suggested)) (\<lambda>(i, n, row, dropped).
              ret (row, i))))))))"

section \<open>Commands on members and exclusions\<close>

definition store_addItem ::
  "journal_env \<Rightarrow> nat \<Rightarrow> nat \<Rightarrow> nat \<Rightarrow> item_options \<Rightarrow> string \<Rightarrow> ('d library, nat \<times> nat) service" where
  "store_addItem env c n by opt actor =
     seqs (labelOf c) (\<lambda>label.
       coll_commit env c actor ''add-item'' label (single (Remove_item c n)) (insertItem c n by opt))"

definition store_removeItem :: "journal_env \<Rightarrow> nat \<Rightarrow> nat \<Rightarrow> string \<Rightarrow> ('d library, nat \<times> nat) service" where
  "store_removeItem env c n actor =
     seqs (labelOf c) (\<lambda>label.
       coll_commit env c actor ''remove-item'' label (single (Add_item c n actor)) (deleteItem c n))"

text \<open>A loop of single-row writes; the ids whose statement changed a row are collected.\<close>

fun each_changed :: "(nat \<Rightarrow> ('d shelf, nat) service) \<Rightarrow> nat list \<Rightarrow> ('d shelf, nat list) service" where
  "each_changed f [] = ret []"
| "each_changed f (x # xs) =
     seqs (f x) (\<lambda>n. seqs (each_changed f xs) (\<lambda>ys. ret (if n > 0 then x # ys else ys)))"

definition store_addItems ::
  "journal_env \<Rightarrow> nat \<Rightarrow> nat list \<Rightarrow> nat \<Rightarrow> item_options \<Rightarrow> string \<Rightarrow>
     ('d library, nat list \<times> nat list \<times> nat) service" where
  "store_addItems env c ids by opt actor =
     seqs (in_shelf (\<lambda>s. filter (\<lambda>n. getStoredItem s c n \<noteq> None) ids)) (\<lambda>alreadyMembers.
     seqs (in_shelf (\<lambda>s. filter (\<lambda>n. getStoredItem s c n = None) ids)) (\<lambda>toInsert.
     seqs (labelOf c) (\<lambda>label.
     seqs (coll_commit env c actor ''add-items'' label (unit_of (Remove_items c) (map (Remove_item c) toInsert) False)
             (seqs (each_changed (\<lambda>n. insertItem c n by opt) toInsert) (\<lambda>added.
              seqs (repo_touchMemberChange c) (\<lambda>_. ret added)))) (\<lambda>(added, i).
       ret (added, alreadyMembers, i)))))"

definition is_system :: "'d collection option \<Rightarrow> bool" where
  "is_system found = (case found of None \<Rightarrow> False | Some r \<Rightarrow> co_origin r = Origin_system)"

definition store_removeItems ::
  "journal_env \<Rightarrow> nat \<Rightarrow> nat list \<Rightarrow> nat list \<Rightarrow> string \<Rightarrow> ('d library, (nat list \<times> nat list) \<times> nat) service" where
  "store_removeItems env c storedNodeIds excludeNodeIds actor =
     seqs (in_shelf (\<lambda>s. getCollection s c)) (\<lambda>found.
       coll_commit env c actor ''remove-items'' (map_option co_name found)
         (unit_of (Remove_items c)
            (map (\<lambda>n. Add_item c n actor) storedNodeIds @ map (Remove_exclusion c) excludeNodeIds) False)
         (seqs (each_changed (deleteItem c) storedNodeIds) (\<lambda>removed.
          seqs (each_changed (insertExclusion c) excludeNodeIds) (\<lambda>excluded.
          seqs (if is_system found then repo_setAutoPin c else ret 0) (\<lambda>_.
          seqs (repo_touchMemberChange c) (\<lambda>_. ret (removed, excluded)))))))"

definition store_addExclusion :: "journal_env \<Rightarrow> nat \<Rightarrow> nat \<Rightarrow> string \<Rightarrow> ('d library, nat \<times> nat) service" where
  "store_addExclusion env c n actor =
     seqs (in_shelf (\<lambda>s. getCollection s c)) (\<lambda>found.
       coll_commit env c actor ''exclude'' (map_option co_name found) (single (Remove_exclusion c n))
         (seqs (insertExclusion c n) (\<lambda>k.
          seqs (if is_system found then repo_setAutoPin c else ret 0) (\<lambda>_. ret k))))"

definition store_removeExclusion :: "journal_env \<Rightarrow> nat \<Rightarrow> nat \<Rightarrow> string \<Rightarrow> ('d library, nat \<times> nat) service" where
  "store_removeExclusion env c n actor =
     seqs (labelOf c) (\<lambda>label.
       coll_commit env c actor ''unexclude'' label (single (Add_exclusion c n)) (deleteExclusion c n))"

definition store_setItemPublished ::
  "journal_env \<Rightarrow> nat \<Rightarrow> nat list \<Rightarrow> bool \<Rightarrow> string \<Rightarrow> ('d library, nat \<times> nat) service" where
  "store_setItemPublished env c ids published actor =
     seqs (labelOf c) (\<lambda>label.
       coll_commit env c actor ''set-items-published'' label (single (Set_items_published c ids (\<not> published)))
         (repo_setItemPublished c ids published))"

section \<open>Sharing, visibility, cursors, tombstones, suggestions\<close>

definition grant_inverse :: "nat \<Rightarrow> nat \<Rightarrow> coll_grant option \<Rightarrow> 'd inverse" where
  "grant_inverse c u existing =
     (case existing of
        Some g \<Rightarrow> Grant_access c u (Some (cg_role g)) (Some (cg_by g))
      | None \<Rightarrow> Revoke_access c u)"

definition store_grantAccess ::
  "journal_env \<Rightarrow> nat \<Rightarrow> nat \<Rightarrow> grant_role \<Rightarrow> nat \<Rightarrow> string \<Rightarrow> ('d library, nat \<times> nat) service" where
  "store_grantAccess env c u role grantedBy actor =
     seqs (in_shelf (\<lambda>s. getGrant s c u)) (\<lambda>existing.
     seqs (labelOf c) (\<lambda>label.
       coll_commit env c actor ''grant'' label (single (grant_inverse c u existing)) (upsertGrant c u role grantedBy)))"

definition store_revokeAccess :: "journal_env \<Rightarrow> nat \<Rightarrow> nat \<Rightarrow> string \<Rightarrow> ('d library, nat \<times> nat) service" where
  "store_revokeAccess env c u actor =
     seqs (in_shelf (\<lambda>s. getGrant s c u)) (\<lambda>existing.
     seqs (labelOf c) (\<lambda>label.
       coll_commit env c actor ''revoke'' label (single (Grant_access c u (map_option cg_role existing) None))
         (seqs (deleteGrant c u) (\<lambda>removed. seqs (deleteDigestCursor u c) (\<lambda>_. ret removed)))))"

definition store_setVisible :: "nat \<Rightarrow> nat \<Rightarrow> bool \<Rightarrow> ('d library, nat) service" where
  "store_setVisible u c h = shelf_tx (repo_setVisible u c h)"

definition store_upsertDigestCursor :: "nat \<Rightarrow> nat \<Rightarrow> int \<Rightarrow> ('d library, nat) service" where
  "store_upsertDigestCursor u c t = shelf_tx (repo_upsertDigestCursor u c t)"

definition store_addTombstone :: "nat \<Rightarrow> string \<Rightarrow> ('d library, nat) service" where
  "store_addTombstone u fp = shelf_tx (insertTombstone u fp)"

definition store_upsertMergeSuggestion ::
  "nat \<Rightarrow> nat \<Rightarrow> int \<Rightarrow> string option \<Rightarrow> string option \<Rightarrow> ('d library, suggestion option) service" where
  "store_upsertMergeSuggestion a b score verdict why = shelf_tx (repo_upsertMergeSuggestion a b score verdict why)"

definition store_setSuggestionState :: "nat \<Rightarrow> suggestion_state \<Rightarrow> ('d library, nat) service" where
  "store_setSuggestionState i st = shelf_tx (repo_setSuggestionState i st)"

definition store_reopenMergeSuggestion :: "nat \<Rightarrow> int option \<Rightarrow> ('d library, nat) service" where
  "store_reopenMergeSuggestion i score = shelf_tx (repo_reopenMergeSuggestion i score)"

end
