(* ===== verification/Actions.thy ===== *)
theory Actions
  imports CollStore
begin

text \<open>
  \<open>domains/actions/service.js\<close>: the executor of the inverses of collection commands, registered with the
  journal, the undo behind \<open>POST /api/actions/:id/undo\<close>, and the feed. An actor is a user's id in decimal
  or \<open>system\<close>.
\<close>

section \<open>Ids in texts\<close>

fun digits_value :: "nat \<Rightarrow> string \<Rightarrow> nat option" where
  "digits_value acc [] = Some acc"
| "digits_value acc (c # cs) =
     (let n = of_char c :: nat in if 48 \<le> n \<and> n \<le> 57 then digits_value (acc * 10 + (n - 48)) cs else None)"

text \<open>\<open>Number(text)\<close>, when it is a positive integer.\<close>

definition id_of :: "string \<Rightarrow> nat option" where
  "id_of s = (if s = [] then None
     else case digits_value 0 s of Some n \<Rightarrow> if n > 0 then Some n else None | None \<Rightarrow> None)"

definition numericActorOr :: "string \<Rightarrow> nat \<Rightarrow> nat" where
  "numericActorOr v fallback = (case id_of v of Some n \<Rightarrow> n | None \<Rightarrow> fallback)"

definition parseCollectionSubject :: "string \<Rightarrow> nat option" where
  "parseCollectionSubject subject = (if starts_with subject ''collection:'' then id_of (drop 11 subject) else None)"

section \<open>The executor\<close>

definition fingerprintRefusal :: err where
  "fingerprintRefusal = Err ''serverErrors.actions.fingerprintMismatch'' 409"

type_synonym outcome = "bool \<times> string option"

definition state_changed :: outcome where
  "state_changed = (False, Some ''changed'')"

definition outcomeFromChanges :: "nat \<Rightarrow> outcome" where
  "outcomeFromChanges n = (n > 0, None)"

definition if_exists ::
  "nat \<Rightarrow> ('d collection \<Rightarrow> bool) \<Rightarrow> ('d collection \<Rightarrow> ('d shelf, nat) service) \<Rightarrow> ('d shelf, outcome) service" where
  "if_exists c p m =
     seqs (reads (\<lambda>s. getCollection s c)) (\<lambda>found.
     (case found of
        None \<Rightarrow> ret state_changed
      | Some r \<Rightarrow> if \<not> p r then ret state_changed else seqs (m r) (\<lambda>n. ret (outcomeFromChanges n))))"

definition counted :: "('d shelf, nat) service \<Rightarrow> ('d shelf, outcome) service" where
  "counted m = seqs m (\<lambda>n. ret (outcomeFromChanges n))"

fun unmerge_items :: "nat \<Rightarrow> nat \<Rightarrow> nat \<Rightarrow> nat list \<Rightarrow> member list \<Rightarrow> ('d shelf, unit) service" where
  "unmerge_items survivor owner restored dropped [] = ret ()"
| "unmerge_items survivor owner restored dropped (m # ms) =
     seqs (insertItem restored (mb_node m) (if mb_by m > 0 then mb_by m else owner)
             \<lparr>io_published = mb_published m, io_source = mb_source m, io_reason = mb_reason m\<rparr>) (\<lambda>_.
     seqs (if mb_node m \<notin> set dropped then deleteItem survivor (mb_node m) else ret 0) (\<lambda>_.
       unmerge_items survivor owner restored dropped ms))"

fun unmerge_exclusions :: "nat \<Rightarrow> nat \<Rightarrow> nat list \<Rightarrow> nat list \<Rightarrow> ('d shelf, unit) service" where
  "unmerge_exclusions survivor restored dropped [] = ret ()"
| "unmerge_exclusions survivor restored dropped (x # xs) =
     seqs (insertExclusion restored x) (\<lambda>_.
     seqs (if x \<notin> set dropped then deleteExclusion survivor x else ret 0) (\<lambda>_.
       unmerge_exclusions survivor restored dropped xs))"

definition applyMergeInverse ::
  "nat list \<times> nat list \<Rightarrow> nat \<Rightarrow> nat \<Rightarrow> 'd collection \<Rightarrow> member list \<Rightarrow> nat list \<Rightarrow> ('d shelf, outcome) service" where
  "applyMergeInverse dropped survivorId loserId loser its exs =
     seqs (reads (\<lambda>s. (getCollection s survivorId, getCollection s loserId))) (\<lambda>(survivor, reused).
     (case survivor of
        None \<Rightarrow> ret state_changed
      | Some sv \<Rightarrow>
          if reused \<noteq> None then ret state_changed
          else seqs (reads (\<lambda>s. existsActiveName s (co_owner sv) (co_name loser))) (\<lambda>taken.
            if taken then ret state_changed
            else seqs (insertCollection (co_owner sv) (co_name loser) (co_origin loser) (Some (co_mode loser))
                         (co_def loser) (co_locked loser)) (\<lambda>restored.
                 seqs (unmerge_items survivorId (co_owner sv) restored (fst dropped) its) (\<lambda>_.
                 seqs (unmerge_exclusions survivorId restored (snd dropped) exs) (\<lambda>_.
                 seqs (if \<not> co_pinned loser then ret 0
                       else if co_pinner loser = Some Pin_auto then repo_setAutoPin restored
                       else updatePin restored True (Some Pin_user)) (\<lambda>_.
                 seqs (repo_touchMemberChange survivorId) (\<lambda>_. ret (True, None)))))))))"

definition applyInverseTx :: "'d inverse \<Rightarrow> string \<Rightarrow> nat list \<times> nat list \<Rightarrow> ('d shelf, outcome) service" where
  "applyInverseTx descriptor actor dropped =
     (case descriptor of
        Delete_collection c \<Rightarrow> if_exists c (\<lambda>_. True) (\<lambda>_. deleteCollectionRow c)
      | Rename_collection c previousName \<Rightarrow>
          if_exists c (\<lambda>r. Some (co_name r) \<noteq> previousName)
            (\<lambda>_. repo_renameCollection c (case previousName of Some nm \<Rightarrow> nm | None \<Rightarrow> ''null'') False)
      | Set_pinned c b \<Rightarrow> if_exists c (\<lambda>r. co_pinned r \<noteq> b) (\<lambda>_. updatePin c b (if b then Some Pin_user else None))
      | Set_publish_mode c mode \<Rightarrow>
          (case mode of
             None \<Rightarrow> ret state_changed
           | Some m \<Rightarrow> if_exists c (\<lambda>r. co_mode r \<noteq> m) (\<lambda>_. updatePublishMode c m))
      | Restore_collection c \<Rightarrow> counted (restoreRow c)
      | Archive_collection c \<Rightarrow> counted (archiveRow c)
      | Remove_item c n \<Rightarrow> counted (deleteItem c n)
      | Add_item c n by \<Rightarrow> if_exists c (\<lambda>_. True) (\<lambda>r. insertItem c n (numericActorOr by (co_owner r))
            \<lparr>io_published = True, io_source = From_manual, io_reason = None\<rparr>)
      | Remove_exclusion c n \<Rightarrow> counted (deleteExclusion c n)
      | Add_exclusion c n \<Rightarrow> if_exists c (\<lambda>_. True) (\<lambda>_. insertExclusion c n)
      | Set_items_published c ids b \<Rightarrow> counted (repo_setItemPublished c ids b)
      | Revoke_access c u \<Rightarrow> counted (deleteGrant c u)
      | Grant_access c u role by \<Rightarrow>
          (case role of
             None \<Rightarrow> ret state_changed
           | Some x \<Rightarrow> if_exists c (\<lambda>_. True) (\<lambda>r. upsertGrant c u x
               (case by of Some b \<Rightarrow> if b > 0 then b else co_owner r | None \<Rightarrow> numericActorOr actor (co_owner r))))
      | Unmerge survivorId loserId loser its exs \<Rightarrow> applyMergeInverse dropped survivorId loserId loser its exs
      | Remove_items c \<Rightarrow> ret state_changed
      | Update_properties c \<Rightarrow> ret state_changed)"

text \<open>The items of a row one after the other; in an atomic row the first that does not apply refuses the undo.\<close>

fun apply_unit ::
  "bool \<Rightarrow> string \<Rightarrow> nat list \<times> nat list \<Rightarrow> 'd inverse list \<Rightarrow> ('d shelf, outcome list) service" where
  "apply_unit allOrNothing actor dropped [] = ret []"
| "apply_unit allOrNothing actor dropped (i # is) =
     seqs (applyInverseTx i actor dropped) (\<lambda>outcome.
     if allOrNothing \<and> \<not> fst outcome then throw fingerprintRefusal
     else seqs (apply_unit allOrNothing actor dropped is) (\<lambda>outs. ret (outcome # outs)))"

definition applyCollectionInverse :: "('d coll_payload, 'd shelf) undo_executor" where
  "applyCollectionInverse row =
     (case a_payload row of
        None \<Rightarrow> throw fingerprintRefusal
      | Some p \<Rightarrow>
          if pl_items p \<noteq> [] then apply_unit (pl_atomic p) (a_actor row) (pl_dropped p) (pl_items p)
          else if pl_atomic p then throw fingerprintRefusal
          else seqs (applyInverseTx (pl_inverse p) (a_actor row) (pl_dropped p)) (\<lambda>outcome.
            if \<not> fst outcome then throw fingerprintRefusal else ret [outcome]))"

definition collection_executors :: "string \<Rightarrow> ('d coll_payload, 'd shelf) undo_executor option" where
  "collection_executors domain = (if domain = ''collection'' then Some applyCollectionInverse else None)"

section \<open>Undo\<close>

definition owns_collection :: "'d shelf \<Rightarrow> nat \<Rightarrow> nat \<Rightarrow> bool" where
  "owns_collection s u c = (case getCollection s c of None \<Rightarrow> False | Some r \<Rightarrow> co_owner r = u)"

definition isVisibleTo :: "'d shelf \<Rightarrow> nat \<Rightarrow> 'p action \<Rightarrow> bool" where
  "isVisibleTo s u row =
     (if a_actor row = ''system''
      then (case parseCollectionSubject (a_subject row) of None \<Rightarrow> False | Some c \<Rightarrow> owns_collection s u c)
      else a_actor row = decimal u)"

record undo_report =
  ur_action :: nat
  ur_status :: "action_status option"
  ur_cascade :: "nat list"
  ur_undone :: nat
  ur_skipped :: nat

definition undo_outcome :: "nat \<Rightarrow> undo_result \<Rightarrow> ('d library, undo_report) service" where
  "undo_outcome actionId result =
     (case result of
        Journal_not_found \<Rightarrow> throw (Err ''notFound'' 404)
      | Journal_already_undone \<Rightarrow> throw (Err ''alreadyUndone'' 409)
      | Journal_expired \<Rightarrow> throw (Err ''expired'' 409)
      | Journal_cascade_required laterCount \<Rightarrow> throw (Err ''cascadeConfirmRequired'' 409)
      | Undone n skipped ids \<Rightarrow>
          seqs (reads (\<lambda>s. getAction s actionId)) (\<lambda>undone.
          ret \<lparr>ur_action = actionId, ur_status = map_option a_status undone,
               ur_cascade = filter (\<lambda>i. i \<noteq> actionId) ids, ur_undone = n, ur_skipped = length skipped\<rparr>))"

definition undo_action :: "journal_env \<Rightarrow> nat \<Rightarrow> nat \<Rightarrow> bool \<Rightarrow> ('d library, undo_report) service" where
  "undo_action env u actionId confirmCascade =
     seqs (reads (\<lambda>s. getAction s actionId)) (\<lambda>found.
     (case found of
        None \<Rightarrow> throw (Err ''notFound'' 404)
      | Some row \<Rightarrow>
          seqs (in_shelf (\<lambda>s. isVisibleTo s u row)) (\<lambda>visible.
          if \<not> visible then throw (Err ''notFound'' 404)
          else seqs (undoAction env collection_executors actionId confirmCascade) (undo_outcome actionId))))"

section \<open>The feed\<close>

definition FEED_LIMIT :: nat where
  "FEED_LIMIT = 200"

text \<open>A row with the flag \<open>is_tip\<close>: it is applied, and no later applied row stands on its subject.\<close>

definition getActionsFeed :: "nat \<Rightarrow> string option \<Rightarrow> ('d library, ('d coll_payload action \<times> bool) list) service" where
  "getActionsFeed u domain =
     (if domain \<noteq> None \<and> the domain \<notin> set JOURNAL_DOMAIN_ALL then throw (Err ''invalidDomain'' 400)
      else reads (\<lambda>s.
        let own = listFeed s (Some (decimal u)) domain None;
            sys = filter (\<lambda>row. case parseCollectionSubject (a_subject row) of
                      None \<Rightarrow> False | Some c \<Rightarrow> owns_collection (jdom s) u c) (listFeed s (Some ''system'') domain None);
            recent = filter (\<lambda>row. a_created row \<ge> jclock s - 30 * ms_per_day) (own @ sys);
            feed = take FEED_LIMIT (sort_key (\<lambda>r. - a_created r) (sort_key (\<lambda>r. - int (a_id r)) recent))
        in map (\<lambda>row. (row, a_status row = Act_applied \<and>
              countLaterAppliedTx s (a_domain row) (a_subject row) (a_seq row) = 0)) feed))"

end
