(* ===== verification/CollService.thy ===== *)
theory CollService
  imports Actions Trash Validation
begin

text \<open>
  \<open>domains/collections/shareService.js\<close> (roles, the read gate, publishing, grants, consumption of a member)
  and \<open>domains/collections/service.js\<close> (life of a collection, its members, its member view, merging). An
  argument has the type the code asks for; what it refuses by value is refused here. Whether a user
  likes a member is not part of a member row, and a row's score is the argument \<open>score\<close>.
\<close>

section \<open>Errors and lifting\<close>

text \<open>\<open>serviceError\<close>: a bare code, some with a status. Both services use the same.\<close>

definition coll_error :: "string \<Rightarrow> err" where
  "coll_error code =
     (if code \<in> set [''notFound'', ''granteeNotFound'', ''grantNotFound'', ''suggestionNotFound''] then Err code 404
      else if code = ''forbidden'' then Err code 403
      else if code \<in> set [''alreadyArchived'', ''notArchived'', ''aiNotConfigured''] then Err code 409
      else Plain code)"

definition lib_acl :: "(perm_state \<Rightarrow> 'a \<times> perm_state) \<Rightarrow> ('d library, 'a) service" where
  "lib_acl f s = (case f (acl (jdom s)) of (r, t) \<Rightarrow> (Inr r, s\<lparr>jdom := (jdom s)\<lparr>acl := t\<rparr>\<rparr>))"

definition canReadNode :: "nat \<Rightarrow> nat \<Rightarrow> ('d library, bool) service" where
  "canReadNode u n =
     seqs (in_shelf (\<lambda>s. isOwnerNode (shelf_db s) u n)) (\<lambda>own.
     if own then ret True else lib_acl (checkFilePermission (User_id u) n ''read''))"

section \<open>shareService.js: roles and the read gate\<close>

datatype coll_role = Role_owner | Role_grant grant_role

definition getRole :: "'d shelf \<Rightarrow> nat \<Rightarrow> nat \<Rightarrow> coll_role option" where
  "getRole s u c =
     (case getCollection s c of
        None \<Rightarrow> None
      | Some r \<Rightarrow> if co_owner r = u then Some Role_owner
                 else map_option (\<lambda>g. Role_grant (cg_role g)) (getGrant s c u))"

definition getCollectionForRead :: "nat \<Rightarrow> nat \<Rightarrow> ('d library, 'd collection \<times> coll_grant option) service" where
  "getCollectionForRead u c =
     seqs (in_shelf (\<lambda>s. getCollection s c)) (\<lambda>found.
     (case found of
        None \<Rightarrow> throw (coll_error ''notFound'')
      | Some r \<Rightarrow>
          if co_owner r = u then ret (r, None)
          else seqs (in_shelf (\<lambda>s. (getGrant s c u, isHiddenFor s u c))) (\<lambda>(g, hid).
            if g = None \<or> hid then throw (coll_error ''notFound'') else ret (r, g))))"

definition requireOwner :: "nat \<Rightarrow> 'd collection \<Rightarrow> ('d library, unit) service" where
  "requireOwner u r = guard (co_owner r = u) (coll_error ''forbidden'')"

definition requireOwnerOrRole :: "nat \<Rightarrow> 'd collection \<Rightarrow> grant_role \<Rightarrow> ('d library, coll_role) service" where
  "requireOwnerOrRole u r minimumRole =
     (if co_owner r = u then ret Role_owner
      else seqs (in_shelf (\<lambda>s. (getGrant s (co_id r) u, isHiddenFor s u (co_id r)))) (\<lambda>(g, hid).
        (case g of
           None \<Rightarrow> throw (coll_error ''notFound'')
         | Some x \<Rightarrow>
             if hid then throw (coll_error ''notFound'')
             else if minimumRole = Editor \<and> cg_role x \<noteq> Editor then throw (coll_error ''forbidden'')
             else ret (Role_grant (cg_role x)))))"

text \<open>A stored row is not virtual: the mode of the collection plays no part.\<close>

definition isVisibleToGrantee :: "'d collection \<Rightarrow> member \<Rightarrow> bool" where
  "isVisibleToGrantee r m \<longleftrightarrow> mb_published m"

definition MAX_NODE_IDS :: nat where
  "MAX_NODE_IDS = 200"

definition parseNodeIds :: "nat list \<Rightarrow> ('d library, nat list) service" where
  "parseNodeIds raw =
     (if raw = [] \<or> length raw > MAX_NODE_IDS \<or> 0 \<in> set raw then throw (coll_error ''emptyNodeIds'') else ret raw)"

definition touchSystemAutoPin :: "'d collection \<Rightarrow> ('d library, bool) service" where
  "touchSystemAutoPin r =
     (if co_origin r = Origin_system then seqs (store_setAutoPin (co_id r)) (\<lambda>n. ret (n > 0)) else ret False)"

record publish_report =
  pr_published :: "nat list"
  pr_ignored :: "nat list"
  pr_undo :: "nat option"

definition publish :: "journal_env \<Rightarrow> nat \<Rightarrow> nat \<Rightarrow> nat list \<Rightarrow> bool \<Rightarrow> ('d library, publish_report) service" where
  "publish env u c ids published =
     seqs (parseNodeIds ids) (\<lambda>parsed.
     seqs (getCollectionForRead u c) (\<lambda>(r, g).
     seqs (requireOwnerOrRole u r Editor) (\<lambda>_.
     seqs (in_shelf (\<lambda>s. map mb_node (listStoredItems s c None))) (\<lambda>memberIds.
     let flipIds = filter (\<lambda>n. n \<in> set memberIds) parsed;
         ignored = filter (\<lambda>n. n \<notin> set memberIds) parsed
     in if flipIds = [] then ret \<lparr>pr_published = [], pr_ignored = ignored, pr_undo = None\<rparr>
        else seqs (store_setItemPublished env c flipIds published (decimal u)) (\<lambda>(n, i).
             seqs (touchSystemAutoPin r) (\<lambda>_.
             ret \<lparr>pr_published = flipIds, pr_ignored = ignored, pr_undo = Some i\<rparr>))))))"

section \<open>shareService.js: grants\<close>

definition share_listGrants :: "nat \<Rightarrow> nat \<Rightarrow> ('d library, (coll_grant \<times> string option) list) service" where
  "share_listGrants u c =
     seqs (getCollectionForRead u c) (\<lambda>(r, g).
     seqs (requireOwner u r) (\<lambda>_.
     in_shelf (\<lambda>s. map (\<lambda>g. (g, map_option username (findById (shelf_db s) (cg_user g)))) (coll_listGrants s c))))"

definition share_grant ::
  "journal_env \<Rightarrow> nat \<Rightarrow> nat \<Rightarrow> nat \<Rightarrow> grant_role \<Rightarrow> ('d library, coll_grant option \<times> string \<times> nat) service" where
  "share_grant env u c granteeId role =
     seqs (getCollectionForRead u c) (\<lambda>(r, g).
     seqs (requireOwner u r) (\<lambda>_.
     seqs (in_shelf (\<lambda>s. if granteeId > 0 then findById (shelf_db s) granteeId else None)) (\<lambda>found.
     (case found of
        None \<Rightarrow> throw (coll_error ''granteeNotFound'')
      | Some grantee \<Rightarrow>
          if uid grantee = u \<or> is_admin grantee then throw (coll_error ''forbidden'')
          else seqs (store_grantAccess env c (uid grantee) role u (decimal u)) (\<lambda>(n, i).
               seqs (in_shelf (\<lambda>s. getGrant s c (uid grantee))) (\<lambda>updated.
               seqs (store_setVisible (uid grantee) c False) (\<lambda>_.
               ret (updated, username grantee, i))))))))"

definition share_revoke :: "journal_env \<Rightarrow> nat \<Rightarrow> nat \<Rightarrow> nat \<Rightarrow> ('d library, nat) service" where
  "share_revoke env u c granteeId =
     seqs (getCollectionForRead u c) (\<lambda>(r, g).
     seqs (requireOwner u r) (\<lambda>_.
     seqs (in_shelf (\<lambda>s. if granteeId > 0 then getGrant s c granteeId else None)) (\<lambda>existing.
     seqs (guard (existing \<noteq> None) (coll_error ''grantNotFound'')) (\<lambda>_.
     seqs (store_revokeAccess env c granteeId (decimal u)) (\<lambda>(n, i). ret i)))))"

definition revokeOwnGrant :: "journal_env \<Rightarrow> nat \<Rightarrow> nat \<Rightarrow> ('d library, nat) service" where
  "revokeOwnGrant env u c =
     seqs (getCollectionForRead u c) (\<lambda>(r, own).
     seqs (guard (co_owner r \<noteq> u \<and> own \<noteq> None) (coll_error ''grantNotFound'')) (\<lambda>_.
     seqs (store_revokeAccess env c u (decimal u)) (\<lambda>(n, i). ret i)))"

definition assertMemberConsumable :: "nat \<Rightarrow> nat \<Rightarrow> nat \<Rightarrow> ('d library, unit) service" where
  "assertMemberConsumable u c n =
     seqs (guard (n > 0) (coll_error ''notFound'')) (\<lambda>_.
     seqs (getCollectionForRead u c) (\<lambda>(r, g).
     seqs (in_shelf (\<lambda>s. getStoredItem s c n)) (\<lambda>stored.
     (case stored of
        None \<Rightarrow> throw (coll_error ''notFound'')
      | Some m \<Rightarrow>
          seqs (in_shelf (\<lambda>s. getNode (shelf_db s) n)) (\<lambda>node.
          seqs (guard (node \<noteq> None) (coll_error ''notFound'')) (\<lambda>_.
          if co_owner r \<noteq> u
          then seqs (guard (isVisibleToGrantee r m) (coll_error ''forbidden'')) (\<lambda>_.
               seqs (in_shelf (\<lambda>s. isOwnerNode (shelf_db s) (co_owner r) n)) (\<lambda>own.
               guard own (coll_error ''forbidden'')))
          else seqs (canReadNode u n) (\<lambda>readable. guard readable (coll_error ''forbidden''))))))))"

section \<open>service.js: the life of a collection\<close>

text \<open>The loop over the suffixes is that of a restore: \<open>name (2)\<close>, \<open>name (3)\<close>, ... until one is free.\<close>

definition active_names_of :: "'d shelf \<Rightarrow> nat \<Rightarrow> string set" where
  "active_names_of s u =
     set (map co_name (filter (\<lambda>r. co_owner r = u \<and> co_status r = Coll_active) (collections s)))"

definition resolveCollectionName :: "nat \<Rightarrow> string \<Rightarrow> ('d library, string) service" where
  "resolveCollectionName u baseName =
     seqs (in_shelf (\<lambda>s. if \<not> existsActiveName s u baseName then Some baseName
                         else first_free (active_names_of s u) baseName [] 2)) (\<lambda>found.
     (case found of None \<Rightarrow> throw No_return | Some nm \<Rightarrow> ret nm))"

definition check_name :: "string \<Rightarrow> ('d library, unit) service" where
  "check_name nm =
     seqs (guard (trim nm \<noteq> []) (coll_error ''nameRequired'')) (\<lambda>_.
     guard (validateFileName nm = None) (coll_error ''invalidName''))"

definition coll_create :: "journal_env \<Rightarrow> nat \<Rightarrow> string \<Rightarrow> ('d library, 'd collection \<times> nat) service" where
  "coll_create env u nm =
     seqs (check_name nm) (\<lambda>_.
     seqs (resolveCollectionName u (trim nm)) (\<lambda>finalName.
     store_createCollection env u finalName Origin_user None None (decimal u)))"

record coll_patch =
  cpt_name :: "string option"
  cpt_pinned :: "bool option"
  cpt_mode :: "publish_mode option"

definition reread :: "nat \<Rightarrow> 'd collection \<Rightarrow> ('d library, 'd collection) service" where
  "reread c r = in_shelf (\<lambda>s. case getCollection s c of Some x \<Rightarrow> x | None \<Rightarrow> r)"

definition coll_update :: "journal_env \<Rightarrow> nat \<Rightarrow> nat \<Rightarrow> coll_patch \<Rightarrow> ('d library, 'd collection \<times> nat option) service" where
  "coll_update env u c p =
     seqs (getCollectionForRead u c) (\<lambda>(r0, g).
     seqs (requireOwner u r0) (\<lambda>_.
     seqs (case cpt_name p of
             None \<Rightarrow> ret (r0, None)
           | Some nm \<Rightarrow>
               seqs (check_name nm) (\<lambda>_.
               seqs (resolveCollectionName u (trim nm)) (\<lambda>finalName.
               seqs (store_renameCollection env c finalName True (decimal u)) (\<lambda>(x, i).
               seqs (reread c r0) (\<lambda>r. ret (r, Some i)))))) (\<lambda>(r1, first1).
     seqs (case cpt_pinned p of
             None \<Rightarrow> ret (r1, first1)
           | Some b \<Rightarrow>
               seqs (store_setPinned env c b (decimal u)) (\<lambda>(x, i).
               seqs (reread c r1) (\<lambda>r. ret (r, if first1 = None then Some i else first1)))) (\<lambda>(r2, first2).
     seqs (case cpt_mode p of
             None \<Rightarrow> ret (r2, first2)
           | Some m \<Rightarrow>
               seqs (store_setPublishMode env c m (decimal u)) (\<lambda>(x, i).
               seqs (reread c r2) (\<lambda>r. ret (r, if first2 = None then Some i else first2)))) (\<lambda>(r3, first3).
     seqs (if cpt_pinned p \<noteq> Some False then touchSystemAutoPin r3 else ret False) (\<lambda>touched.
     seqs (if touched then reread c r3 else ret r3) (\<lambda>r4.
     ret (r4, first3))))))))"

section \<open>service.js: the properties dialog\<close>

record grant_patch =
  gp_upsert :: "(nat \<times> grant_role) list"
  gp_revoke :: "nat list"

text \<open>A later entry for the same user replaces the role in place.\<close>

fun put_role :: "nat \<Rightarrow> grant_role \<Rightarrow> (nat \<times> grant_role) list \<Rightarrow> (nat \<times> grant_role) list" where
  "put_role u role [] = [(u, role)]"
| "put_role u role ((v, x) # rest) = (if v = u then (u, role) # rest else (v, x) # put_role u role rest)"

fun parse_upserts :: "nat list \<Rightarrow> (nat \<times> grant_role) list \<Rightarrow> (nat \<times> grant_role) list \<Rightarrow> err + (nat \<times> grant_role) list" where
  "parse_upserts revoked [] acc = Inr acc"
| "parse_upserts revoked ((u, role) # rest) acc =
     (if u = 0 then Inl (coll_error ''granteeNotFound'')
      else if u \<in> set revoked then Inl (coll_error ''invalidRole'')
      else parse_upserts revoked rest (put_role u role acc))"

definition parseGrantPatch :: "grant_patch \<Rightarrow> err + grant_patch" where
  "parseGrantPatch p =
     (if 0 \<in> set (gp_revoke p) then Inl (coll_error ''granteeNotFound'')
      else case parse_upserts (gp_revoke p) (gp_upsert p) [] of
             Inl e \<Rightarrow> Inl e
           | Inr upserts \<Rightarrow> Inr \<lparr>gp_upsert = upserts, gp_revoke = rev (remdups (rev (gp_revoke p)))\<rparr>)"

definition of_result :: "err + 'a \<Rightarrow> ('s, 'a) service" where
  "of_result x = (case x of Inl e \<Rightarrow> throw e | Inr v \<Rightarrow> ret v)"

fun check_revokes :: "nat \<Rightarrow> 'd collection \<Rightarrow> nat list \<Rightarrow> ('d library, unit) service" where
  "check_revokes c r [] = ret ()"
| "check_revokes c r (u # us) =
     seqs (guard (u \<noteq> co_owner r) (coll_error ''grantNotFound'')) (\<lambda>_.
     seqs (in_shelf (\<lambda>s. getGrant s c u)) (\<lambda>existing.
     seqs (guard (existing \<noteq> None) (coll_error ''grantNotFound'')) (\<lambda>_. check_revokes c r us)))"

fun check_upserts :: "nat \<Rightarrow> 'd collection \<Rightarrow> (nat \<times> grant_role) list \<Rightarrow> ('d library, (nat \<times> grant_role) list) service" where
  "check_upserts c r [] = ret []"
| "check_upserts c r ((u, role) # us) =
     seqs (guard (u \<noteq> co_owner r) (coll_error ''forbidden'')) (\<lambda>_.
     seqs (in_shelf (\<lambda>s. (findById (shelf_db s) u, getGrant s c u))) (\<lambda>(grantee, existing).
     (case grantee of
        None \<Rightarrow> throw (coll_error ''granteeNotFound'')
      | Some x \<Rightarrow>
          seqs (guard (\<not> is_admin x) (coll_error ''forbidden'')) (\<lambda>_.
          seqs (check_upserts c r us) (\<lambda>rest.
          ret (if map_option cg_role existing = Some role then rest else (u, role) # rest))))))"

record dialog_patch =
  dp_name :: "string option"
  dp_pinned :: "bool option"
  dp_mode :: "publish_mode option"
  dp_grants :: "grant_patch option"

definition dialog_name :: "nat \<Rightarrow> 'd collection \<Rightarrow> string option \<Rightarrow> ('d library, string option) service" where
  "dialog_name u r requested =
     (case requested of
        None \<Rightarrow> ret None
      | Some nm \<Rightarrow>
          seqs (check_name nm) (\<lambda>_.
          if trim nm = co_name r then ret None
          else seqs (resolveCollectionName u (trim nm)) (\<lambda>finalName.
               ret (if finalName \<noteq> co_name r then Some finalName else None))))"

definition dialog_grants :: "nat \<Rightarrow> 'd collection \<Rightarrow> grant_patch option \<Rightarrow> ('d library, grant_patch) service" where
  "dialog_grants c r requested =
     (case requested of
        None \<Rightarrow> ret \<lparr>gp_upsert = [], gp_revoke = []\<rparr>
      | Some raw \<Rightarrow>
          seqs (of_result (parseGrantPatch raw)) (\<lambda>p.
          seqs (check_revokes c r (gp_revoke p)) (\<lambda>_.
          seqs (check_upserts c r (gp_upsert p)) (\<lambda>ups.
          ret \<lparr>gp_upsert = ups, gp_revoke = gp_revoke p\<rparr>))))"

definition coll_updateProperties ::
  "journal_env \<Rightarrow> nat \<Rightarrow> nat \<Rightarrow> dialog_patch \<Rightarrow>
     ('d library, 'd collection option \<times> (coll_grant \<times> string option) list \<times> nat option) service" where
  "coll_updateProperties env u c p =
     seqs (getCollectionForRead u c) (\<lambda>(r, g).
     seqs (requireOwner u r) (\<lambda>_.
     seqs (dialog_name u r (dp_name p)) (\<lambda>nm.
     seqs (dialog_grants c r (dp_grants p)) (\<lambda>gp.
     seqs (store_updateProperties env c
             \<lparr>pt_name = nm,
              pt_pinned = (if dp_pinned p = Some (co_pinned r) then None else dp_pinned p),
              pt_mode = (if dp_mode p = Some (co_mode r) then None else dp_mode p),
              pt_upsert = gp_upsert gp, pt_revoke = gp_revoke gp\<rparr> u) (\<lambda>(row, i).
     seqs (share_listGrants u c) (\<lambda>listed.
     ret (row, listed, i)))))))"

section \<open>service.js: archive, restore, delete\<close>

definition touch_current :: "nat \<Rightarrow> ('d library, 'd collection option) service" where
  "touch_current c =
     seqs (in_shelf (\<lambda>s. getCollection s c)) (\<lambda>found.
     seqs (case found of Some r \<Rightarrow> touchSystemAutoPin r | None \<Rightarrow> ret False) (\<lambda>_.
     in_shelf (\<lambda>s. getCollection s c)))"

definition coll_archive :: "journal_env \<Rightarrow> nat \<Rightarrow> nat \<Rightarrow> ('d library, 'd collection option \<times> nat) service" where
  "coll_archive env u c =
     seqs (getCollectionForRead u c) (\<lambda>(r, g).
     seqs (requireOwner u r) (\<lambda>_.
     seqs (store_archiveCollection env c (decimal u)) (\<lambda>(n, i).
     seqs (guard (n \<noteq> 0) (coll_error ''alreadyArchived'')) (\<lambda>_.
     seqs (touch_current c) (\<lambda>refreshed. ret (refreshed, i))))))"

definition coll_restore :: "journal_env \<Rightarrow> nat \<Rightarrow> nat \<Rightarrow> ('d library, 'd collection option \<times> nat) service" where
  "coll_restore env u c =
     seqs (getCollectionForRead u c) (\<lambda>(r, g).
     seqs (requireOwner u r) (\<lambda>_.
     seqs (guard (co_status r = Coll_archived) (coll_error ''notArchived'')) (\<lambda>_.
     seqs (in_shelf (\<lambda>s. existsActiveName s (co_owner r) (co_name r))) (\<lambda>taken.
     seqs (if taken
           then seqs (resolveCollectionName (co_owner r) (co_name r)) (\<lambda>finalName.
                seqs (store_renameCollection env c finalName False (decimal u)) (\<lambda>_. ret ()))
           else ret ()) (\<lambda>_.
     seqs (store_restoreCollection env c (decimal u)) (\<lambda>(n, i).
     seqs (guard (n \<noteq> 0) (coll_error ''notArchived'')) (\<lambda>_.
     seqs (touch_current c) (\<lambda>refreshed. ret (refreshed, i)))))))))"

text \<open>\<open>fingerprint\<close> is \<open>fingerprintDefinition\<close>.\<close>

definition coll_deletePermanent :: "journal_env \<Rightarrow> ('d \<Rightarrow> string) \<Rightarrow> nat \<Rightarrow> nat \<Rightarrow> ('d library, unit) service" where
  "coll_deletePermanent env fingerprint u c =
     seqs (getCollectionForRead u c) (\<lambda>(r, g).
     seqs (requireOwner u r) (\<lambda>_.
     seqs (guard (co_status r = Coll_archived) (coll_error ''notArchived'')) (\<lambda>_.
     seqs (store_deletePermanent env c
             (if co_origin r = Origin_system then map_option fingerprint (co_def r) else None)) (\<lambda>_. ret ()))))"

section \<open>service.js: the member view\<close>

record member_view =
  mv_node :: nat
  mv_derived :: bool
  mv_published :: bool
  mv_by :: nat
  mv_created :: int
  mv_normal :: bool
  mv_name :: "string option"
  mv_type :: "node_type option"
  mv_mime :: "string option"
  mv_reason :: "string option"
  mv_foreign :: bool

definition member_row :: "nat \<Rightarrow> 'd collection \<Rightarrow> member \<Rightarrow> ('d library, member_view option) service" where
  "member_row u r m =
     seqs (in_shelf (\<lambda>s. (getNode (shelf_db s) (mb_node m), \<not> isOwnerNode (shelf_db s) (co_owner r) (mb_node m)))) (\<lambda>(found, foreign).
     (case found of
        None \<Rightarrow> ret None
      | Some node \<Rightarrow>
          if co_owner r \<noteq> u \<and> (foreign \<or> \<not> isVisibleToGrantee r m) then ret None
          else seqs (canReadNode u (mb_node m)) (\<lambda>readable.
            ret (Some \<lparr>mv_node = mb_node m, mv_derived = (mb_source m \<noteq> From_manual), mv_published = mb_published m,
              mv_by = mb_by m, mv_created = mb_created m, mv_normal = readable,
              mv_name = (if readable then Some (v_name node) else None),
              mv_type = (if readable then Some (v_type node) else None),
              mv_mime = (if readable then v_mime node else None),
              mv_reason = mb_reason m, mv_foreign = foreign\<rparr>))))"

fun member_rows :: "nat \<Rightarrow> 'd collection \<Rightarrow> member list \<Rightarrow> ('d library, member_view list) service" where
  "member_rows u r [] = ret []"
| "member_rows u r (m # ms) =
     seqs (member_row u r m) (\<lambda>v. seqs (member_rows u r ms) (\<lambda>vs.
     ret (case v of None \<Rightarrow> vs | Some x \<Rightarrow> x # vs)))"

definition resolveMemberRows :: "nat \<Rightarrow> 'd collection \<Rightarrow> ('d library, member_view list) service" where
  "resolveMemberRows u r =
     seqs (in_shelf (\<lambda>s. listStoredItems s (co_id r) None)) (\<lambda>stored. member_rows u r stored)"

definition PREVIEW_ITEM_CAP :: nat where
  "PREVIEW_ITEM_CAP = 4"

definition buildPreviewItems :: "member_view list \<Rightarrow> member_view list" where
  "buildPreviewItems rows =
     take PREVIEW_ITEM_CAP (sort_key (\<lambda>v. - mv_created v) (sort_key (\<lambda>v. - int (mv_node v)) (filter mv_normal rows)))"

definition sortItemRows :: "(nat \<Rightarrow> real) \<Rightarrow> member_view list \<Rightarrow> member_view list" where
  "sortItemRows score rows = sort_key (\<lambda>v. - score (mv_node v)) (sort_key mv_node rows)"

record items_payload =
  ip_items :: "member_view list"
  ip_pending :: "nat option"
  ip_digest :: "(nat \<times> nat) option"

definition REMOVAL_JOURNAL_ACTIONS :: "string list" where
  "REMOVAL_JOURNAL_ACTIONS = [''remove-item'', ''remove-items'', ''exclude'']"

text \<open>\<open>None\<close> is a date that does not parse.\<close>

definition computeDigest :: "'d library \<Rightarrow> 'd collection \<Rightarrow> int option \<Rightarrow> nat \<times> nat" where
  "computeDigest s r since =
     (case since of
        None \<Rightarrow> (0, 0)
      | Some t \<Rightarrow>
          (let storedSince = listStoredItems (jdom s) (co_id r) (Some t);
               unchanged = (case co_changed r of None \<Rightarrow> False | Some x \<Rightarrow> x \<le> t);
               removals = filter (\<lambda>a. a_action a \<in> set REMOVAL_JOURNAL_ACTIONS \<and> a_created a > t)
                 (listBySubject s ''collection'' (collection_subject (co_id r)) None)
           in if unchanged \<and> storedSince = [] then (0, 0)
              else (length storedSince, length removals + countTrashedMembersSince (jdom s) (co_id r) t)))"

definition coll_getItems ::
  "(nat \<Rightarrow> real) \<Rightarrow> nat \<Rightarrow> nat \<Rightarrow> int option option \<Rightarrow> ('d library, items_payload) service" where
  "coll_getItems score u c since =
     seqs (getCollectionForRead u c) (\<lambda>(r, g).
     seqs (resolveMemberRows u r) (\<lambda>unsorted.
     (let rows = sortItemRows score unsorted in
     seqs (reads (\<lambda>s. case since of None \<Rightarrow> None | Some t \<Rightarrow> Some (computeDigest s r t))) (\<lambda>digest.
     seqs (in_shelf (\<lambda>s. clock (shelf_db s))) (\<lambda>now.
     seqs (store_upsertDigestCursor u c now) (\<lambda>_.
     ret \<lparr>ip_items = rows,
          ip_pending = (if co_owner r = u then Some (length (filter (\<lambda>v. \<not> mv_published v) rows)) else None),
          ip_digest = digest\<rparr>))))))"

definition coll_get :: "nat \<Rightarrow> nat \<Rightarrow> ('d library, 'd collection \<times> grant_role option \<times> member_view list) service" where
  "coll_get u c =
     seqs (getCollectionForRead u c) (\<lambda>(r, g).
     seqs (resolveMemberRows u r) (\<lambda>view. ret (r, map_option cg_role g, view)))"

section \<open>service.js: members\<close>

fun readable_ids :: "nat \<Rightarrow> nat list \<Rightarrow> ('d library, nat list \<times> nat list) service" where
  "readable_ids u [] = ret ([], [])"
| "readable_ids u (n # ns) =
     seqs (canReadNode u n) (\<lambda>readable. seqs (readable_ids u ns) (\<lambda>(yes, no).
     ret (if readable then (n # yes, no) else (yes, n # no))))"

record add_report =
  ar_added :: "nat list"
  ar_already :: "nat list"
  ar_rejected :: "nat list"
  ar_undo :: nat

definition coll_addItems :: "journal_env \<Rightarrow> nat \<Rightarrow> nat \<Rightarrow> nat list \<Rightarrow> ('d library, add_report) service" where
  "coll_addItems env u c ids =
     seqs (parseNodeIds ids) (\<lambda>parsed.
     seqs (getCollectionForRead u c) (\<lambda>(r, g).
     seqs (requireOwnerOrRole u r Editor) (\<lambda>_.
     seqs (readable_ids u parsed) (\<lambda>(addable, rejected).
     seqs (store_addItems env c addable u
             \<lparr>io_published = (co_mode r = Mode_auto), io_source = From_manual, io_reason = None\<rparr> (decimal u)) (\<lambda>(added, already, i).
     seqs (touchSystemAutoPin r) (\<lambda>_.
     ret \<lparr>ar_added = added, ar_already = already, ar_rejected = rejected, ar_undo = i\<rparr>))))))"

text \<open>What to delete, what to exclude, what to ignore; an editor removes what it added.\<close>

fun classify_removals ::
  "nat \<Rightarrow> nat \<Rightarrow> origin \<Rightarrow> bool \<Rightarrow> nat list \<Rightarrow> ('d library, nat list \<times> nat list \<times> nat list) service" where
  "classify_removals u c org isOwner [] = ret ([], [], [])"
| "classify_removals u c org isOwner (n # ns) =
     seqs (in_shelf (\<lambda>s. getStoredItem s c n)) (\<lambda>stored.
     seqs (guard (isOwner \<or> (case stored of Some m \<Rightarrow> mb_by m = u | None \<Rightarrow> False)) (coll_error ''forbidden'')) (\<lambda>_.
     seqs (classify_removals u c org isOwner ns) (\<lambda>(dels, exs, ign).
     ret (if stored \<noteq> None then (n # dels, exs, ign)
          else if org = Origin_user then (dels, exs, n # ign)
          else (dels, n # exs, ign)))))"

definition coll_removeItems ::
  "journal_env \<Rightarrow> nat \<Rightarrow> nat \<Rightarrow> nat list \<Rightarrow> ('d library, nat list \<times> nat list \<times> nat list \<times> nat) service" where
  "coll_removeItems env u c ids =
     seqs (parseNodeIds ids) (\<lambda>parsed.
     seqs (getCollectionForRead u c) (\<lambda>(r, g).
     seqs (requireOwnerOrRole u r Editor) (\<lambda>role.
     seqs (classify_removals u c (co_origin r) (role = Role_owner) parsed) (\<lambda>(dels, exs, ign).
     seqs (store_removeItems env c dels exs (decimal u)) (\<lambda>((removed, excluded), i).
     ret (removed, excluded, ign, i))))))"

definition getForNodes :: "nat \<Rightarrow> nat list \<Rightarrow> ('d library, (nat \<times> nat list) list) service" where
  "getForNodes u ids =
     seqs (parseNodeIds ids) (\<lambda>parsed.
     in_shelf (\<lambda>s. map (\<lambda>n. (n, sort (remdups (map snd (filter (\<lambda>(m, c). m = n) (listForNodes s u parsed)))))) parsed))"

section \<open>service.js: merging\<close>

record merge_report =
  mr_survivor :: nat
  mr_name :: string
  mr_count :: nat
  mr_absorbed :: nat
  mr_undo :: nat

definition coll_merge :: "journal_env \<Rightarrow> nat \<Rightarrow> nat \<Rightarrow> nat \<Rightarrow> ('d library, merge_report) service" where
  "coll_merge env u survivorId otherId =
     seqs (guard (survivorId > 0 \<and> otherId > 0) (coll_error ''notFound'')) (\<lambda>_.
     seqs (guard (survivorId \<noteq> otherId) (coll_error ''mergeSameCollection'')) (\<lambda>_.
     seqs (getCollectionForRead u survivorId) (\<lambda>(survivor, g).
     seqs (getCollectionForRead u otherId) (\<lambda>(other, h).
     seqs (requireOwner u survivor) (\<lambda>_.
     seqs (requireOwner u other) (\<lambda>_.
     seqs (guard (co_status survivor = Coll_active \<and> co_status other = Coll_active) (coll_error ''notArchived'')) (\<lambda>_.
     seqs (store_mergeCollections env survivorId otherId (decimal u)) (\<lambda>(row, i).
     seqs (reread survivorId survivor) (\<lambda>refreshed.
     seqs (resolveMemberRows u refreshed) (\<lambda>rows.
     ret \<lparr>mr_survivor = co_id refreshed, mr_name = co_name refreshed, mr_count = length rows,
          mr_absorbed = otherId, mr_undo = i\<rparr>))))))))))"

definition resolveOwnedPair :: "nat \<Rightarrow> nat \<Rightarrow> nat \<Rightarrow> ('d library, unit) service" where
  "resolveOwnedPair u a b =
     seqs (in_shelf (\<lambda>s. a > 0 \<and> b > 0 \<and> owns_collection s u a \<and> owns_collection s u b)) (\<lambda>ok.
     guard ok (coll_error ''suggestionNotFound''))"

definition settle_suggestion :: "suggestion_state \<Rightarrow> nat \<Rightarrow> nat \<Rightarrow> nat \<Rightarrow> ('d library, suggestion) service" where
  "settle_suggestion st u a b =
     seqs (resolveOwnedPair u a b) (\<lambda>_.
     seqs (in_shelf (\<lambda>s. first_row (filter (\<lambda>g. sg_a g = min a b \<and> sg_b g = max a b)
             (listMergeSuggestions s [a, b] Sug_pending)))) (\<lambda>found.
     (case found of
        None \<Rightarrow> throw (coll_error ''suggestionNotFound'')
      | Some g \<Rightarrow>
          seqs (store_setSuggestionState (sg_id g) st) (\<lambda>n.
          seqs (guard (n \<noteq> 0) (coll_error ''suggestionNotFound'')) (\<lambda>_. ret g)))))"

definition dismissMerge :: "nat \<Rightarrow> nat \<Rightarrow> nat \<Rightarrow> ('d library, suggestion) service" where
  "dismissMerge = settle_suggestion Sug_dismissed"

definition rejectMerge :: "nat \<Rightarrow> nat \<Rightarrow> nat \<Rightarrow> ('d library, suggestion) service" where
  "rejectMerge = settle_suggestion Sug_rejected"

end
