(* ===== verification/CollLaws.thy ===== *)
theory CollLaws
  imports CollService AccountLaws JournalLaws TrashLaws
begin

text \<open>
  The laws of collections: how a relation between the tables of a domain carries over to the journal
  above it, what every statement keeps of the tables, and what the gate decides.
\<close>

section \<open>Relations between the tables, seen through the journal\<close>

locale domain_order = state_order ord for ord :: "'s \<Rightarrow> 's \<Rightarrow> bool"
begin

definition through :: "(('p, 's) journal, 'a) service \<Rightarrow> bool" where
  "through m \<longleftrightarrow> (\<forall>s. ord (jdom s) (jdom (snd (m s))))"

lemma throughI: "(\<And>s. ord (jdom s) (jdom (snd (m s)))) \<Longrightarrow> through m"
  by (simp add: through_def)

lemma throughD: "through m \<Longrightarrow> ord (jdom s) (jdom (snd (m s)))"
  by (simp add: through_def)

lemma through_result: "through m \<Longrightarrow> m s = (r, t) \<Longrightarrow> ord (jdom s) (jdom t)"
  using throughD [of m s] by simp

lemma through_core: "(\<And>s. jdom (snd (m s)) = jdom s) \<Longrightarrow> through m"
  by (rule throughI) (simp add: ord_refl)

lemma through_basic:
  "through (ret x)" "through (throw e)" "through (guard b e)" "through (reads f)"
  by (rule through_core; simp add: service_defs)+

lemma through_seqs:
  assumes "through m" "\<And>x. through (f x)"
  shows "through (seqs m f)"
proof (rule throughI)
  fix s
  obtain r t where m: "m s = (r, t)" by fastforce
  have "ord (jdom s) (jdom t)" using through_result [OF assms(1) m] .
  moreover have "ord (jdom t) (jdom (snd (f x t)))" for x by (rule throughD [OF assms(2)])
  ultimately show "ord (jdom s) (jdom (snd (seqs m f s)))"
    using ord_trans by (cases r) (auto simp: seqs_def m)
qed

lemma through_on_domain: "keeps m \<Longrightarrow> through (on_domain m)"
  by (rule throughI) (simp add: on_domain_def keeps_def split_beta)

lemma through_with_lock:
  assumes "through m"
  shows "through (with_lock env n m)"
proof (rule throughI)
  fix s
  show "ord (jdom s) (jdom (snd (with_lock env n m s)))"
  proof (cases rule: with_lock_cases [of env n m s])
    case (refused e l)
    then show ?thesis by (simp add: ord_refl)
  next
    case (held l l' r t)
    then show ?thesis using through_result [OF assms held(1)] by simp
  qed
qed

lemma through_in_tx:
  assumes "through m"
  shows "through (in_tx m)"
proof (rule throughI)
  fix s
  obtain r t where m: "m s = (r, t)" by fastforce
  then show "ord (jdom s) (jdom (snd (in_tx m s)))"
    using through_result [OF assms m] by (cases r) (simp_all add: in_tx_def ord_refl)
qed

lemma through_insertAction: "through (insertAction dm sub l a k p n days)"
  by (rule through_core) (simp add: insertAction_def)

lemma through_commitChange: "keeps m \<Longrightarrow> through (commitChange env dm sub meta f m)"
  unfolding commitChange_def commit_body_def
  by (intro through_with_lock through_in_tx through_seqs through_on_domain through_insertAction through_basic)

lemma through_purgeSubject: "through (purgeSubject dm sub)"
  by (rule through_core) (simp add: purgeSubject_def)

lemma through_markUndone: "through (markUndone ids)"
  by (rule through_core) (simp add: markUndone_def Let_def)

lemma through_executor:
  assumes "\<And>row. keeps (h row)"
  shows "through (run_executor h rows n sk)"
  by (induction rows arbitrary: n sk) (simp_all add: through_basic through_seqs through_on_domain assms)

lemma through_undo:
  assumes "\<And>dm h row. execs dm = Some h \<Longrightarrow> keeps (h row)"
  shows "through (undoAction env execs i withLater)"
proof -
  have rows: "through (undo_rows execs dm rows)" for dm rows
    unfolding undo_rows_def using assms
    by (auto split: option.split intro!: through_basic through_seqs through_executor through_markUndone)
  have "through (undo_body execs i withLater)"
    unfolding undo_body_def by (auto split: option.split intro!: through_basic through_seqs rows)
  then show ?thesis
    unfolding undoAction_def
    by (auto split: option.split intro!: through_basic through_seqs through_with_lock through_in_tx)
qed

lemmas through_rules = through_basic through_seqs

end

section \<open>Commits in full\<close>

text \<open>The row a commit appends, with its actor and action.\<close>

definition journal_row :: "string \<Rightarrow> string \<Rightarrow> act_meta \<Rightarrow> 'p \<Rightarrow> nat \<Rightarrow> nat \<Rightarrow> 'p action \<Rightarrow> bool" where
  "journal_row domain subject meta p i n row \<longleftrightarrow> committed_row row i domain subject p n \<and>
     a_actor row = m_actor meta \<and> a_action row = m_action meta \<and> a_label row = m_label meta"

definition appended ::
  "string \<Rightarrow> string \<Rightarrow> act_meta \<Rightarrow> 'p \<Rightarrow> nat \<Rightarrow> ('p, 's) journal \<Rightarrow> ('p, 's) journal \<Rightarrow> bool" where
  "appended domain subject meta p i s t \<longleftrightarrow> i = jnext s \<and> jnext t = Suc (jnext s) \<and>
     (\<exists>row. jrows t = jrows s @ [row] \<and> journal_row domain subject meta p i (getMaxChainSeq s domain subject + 1) row)"

lemma commit_body_run:
  assumes "mutation (jdom s) = (Inr r, d)" "domain \<in> set JOURNAL_DOMAIN_ALL"
  obtains t where "commit_body domain subject meta inv_of mutation s
      = (Inr (jnext s, getMaxChainSeq s domain (resolve_subject subject r) + 1, r), t)"
    "jdom t = d" "appended domain (resolve_subject subject r) meta (inv_of r) (jnext s) s t"
proof -
  let ?sub = "resolve_subject subject r"
  have max: "getMaxChainSeq (s\<lparr>jdom := d\<rparr>) domain ?sub = getMaxChainSeq s domain ?sub" by (simp add: getMaxChainSeq_def)
  have fresh: "\<not> (\<exists>q \<in> set (jrows s). of_subject domain ?sub q \<and> a_seq q = Suc (getMaxChainSeq s domain ?sub))"
    using getMaxChainSeq_upper [of _ s domain ?sub] by force
  have "commit_body domain subject meta inv_of mutation s
      = seqs (insertAction domain ?sub (m_label meta) (m_actor meta) (m_action meta) (Some (inv_of r))
          (getMaxChainSeq s domain ?sub + 1) JOURNAL_RETENTION_DAYS)
          (\<lambda>i. ret (i, getMaxChainSeq s domain ?sub + 1, r)) (s\<lparr>jdom := d\<rparr>)"
    unfolding commit_body_def seqs_def [of "on_domain mutation"] on_domain_def
    by (simp add: assms(1) seqs_reads max)
  then show ?thesis
    using that fresh assms(2)
    by (auto simp: insertAction_def seqs_def ret_def appended_def journal_row_def committed_row_def)
qed

lemma commit_cases:
  assumes "commitChange env domain subject meta inv_of mutation s = (x, t)" "domain \<in> set JOURNAL_DOMAIN_ALL"
  obtains (refused) e where "x = Inl e" "same_core s t"
        "lock_answer env (journal_lock domain (lock_subject subject)) s = Inl e"
    | (failed) e d where "x = Inl (mapDatabaseError e)" "same_core s t" "mutation (jdom s) = (Inl e, d)"
    | (committed) i n r where "x = Inr (i, n, r)" "mutation (jdom s) = (Inr r, jdom t)"
        "appended domain (resolve_subject subject r) meta (inv_of r) i s t"
proof -
  let ?name = "journal_lock domain (lock_subject subject)"
  show ?thesis
  proof (cases rule: with_lock_cases [of env ?name "in_tx (commit_body domain subject meta inv_of mutation)" s])
    case (refused e l)
    then show ?thesis using assms(1) that(1) [of e] by (auto simp: commitChange_def)
  next
    case (held l l' y u)
    let ?s = "s\<lparr>jlocks := l, jdraws := Suc (jdraws s)\<rparr>"
    have xt: "x = y" "t = u\<lparr>jlocks := l'\<rparr>" using held(2) assms(1) by (auto simp: commitChange_def)
    obtain z d where m: "mutation (jdom s) = (z, d)" by fastforce
    show ?thesis
    proof (cases z)
      case (Inl e)
      then have "commit_body domain subject meta inv_of mutation ?s = (Inl e, ?s\<lparr>jdom := d\<rparr>)"
        using m by (simp add: commit_body_def seqs_def on_domain_def)
      then have "y = Inl (mapDatabaseError e)" "u = ?s" using held(1) by (simp_all add: in_tx_def)
      then show ?thesis using that(2) [of e d] m Inl xt by simp
    next
      case (Inr r)
      then obtain w where w: "commit_body domain subject meta inv_of mutation ?s
          = (Inr (jnext ?s, getMaxChainSeq ?s domain (resolve_subject subject r) + 1, r), w)"
        "jdom w = d" "appended domain (resolve_subject subject r) meta (inv_of r) (jnext ?s) ?s w"
        using commit_body_run [of mutation ?s r d domain subject meta inv_of] m assms(2) by auto
      have "y = Inr (jnext s, getMaxChainSeq ?s domain (resolve_subject subject r) + 1, r)" "u = w"
        using held(1) w(1) by (simp_all add: in_tx_def)
      moreover have "appended domain (resolve_subject subject r) meta (inv_of r) (jnext s) s t"
        using w(3) xt(2) \<open>u = w\<close> by (simp add: appended_def getMaxChainSeq_def)
      ultimately show ?thesis using that(3) xt m Inr w(2) by simp
    qed
  qed
qed

section \<open>Well-formed tables\<close>

text \<open>Keys are unique, rows refer to a collection that exists, the active names of an owner are distinct.\<close>

definition keyed :: "'d shelf \<Rightarrow> ('r \<Rightarrow> 'k) \<Rightarrow> ('r \<Rightarrow> nat) \<Rightarrow> 'r list \<Rightarrow> bool" where
  "keyed s key coll rows \<longleftrightarrow> distinct (map key rows) \<and> (\<forall>r \<in> set rows. coll r \<in> co_id ` set (collections s))"

definition rows_ok :: "'d shelf \<Rightarrow> bool" where
  "rows_ok s \<longleftrightarrow> distinct (map co_id (collections s)) \<and> (\<forall>r \<in> set (collections s). co_id r < next_coll s) \<and>
     distinct (active_names (collections s))"

definition shelf_ok :: "'d shelf \<Rightarrow> bool" where
  "shelf_ok s \<longleftrightarrow> rows_ok s \<and>
     keyed s (\<lambda>m. (mb_coll m, mb_node m)) mb_coll (members s) \<and>
     keyed s (\<lambda>e. e) fst (exclusions s) \<and>
     keyed s (\<lambda>g. (cg_coll g, cg_user g)) cg_coll (coll_grants s) \<and>
     keyed s (\<lambda>v. (fst v, fst (snd v))) (\<lambda>v. fst (snd v)) (visibility s) \<and>
     keyed s (\<lambda>v. (fst v, fst (snd v))) (\<lambda>v. fst (snd v)) (digest_cursors s) \<and>
     keyed s (\<lambda>g. (sg_a g, sg_b g)) sg_a (suggestions s) \<and> keyed s sg_id sg_b (suggestions s) \<and>
     (\<forall>g \<in> set (suggestions s). sg_id g < next_sugg s)"

lemma has_collection_iff: "has_collection s c \<longleftrightarrow> c \<in> co_id ` set (collections s)"
  by (auto simp: has_collection_def list_ex_iff)

lemma getCollection_has: "has_collection s c \<longleftrightarrow> getCollection s c \<noteq> None"
  by (auto simp: has_collection_def getCollection_def first_row_None filter_empty_conv list_ex_iff)

lemma keyed_cong: "co_id ` set (collections t) = co_id ` set (collections s) \<Longrightarrow> keyed t k f rows = keyed s k f rows"
  by (simp add: keyed_def)

lemma keyed_rows:
  "co_id ` set rows = co_id ` set (collections s) \<Longrightarrow> keyed (s\<lparr>collections := rows\<rparr>) k g xs = keyed s k g xs"
  by (simp add: keyed_def)

lemma keyed_update: "(\<And>r. k (f r) = k r) \<Longrightarrow> (\<And>r. g (f r) = g r) \<Longrightarrow> keyed s k g rows \<Longrightarrow> keyed s k g (update_where p f rows)"
  by (auto simp: keyed_def map_update_where set_update_where)

lemma keyed_delete: "keyed s k g rows \<Longrightarrow> keyed s k g (delete_where p rows)"
  by (auto simp: keyed_def distinct_map_delete)

lemma keyed_snoc: "keyed s k g rows \<Longrightarrow> k r \<notin> k ` set rows \<Longrightarrow> has_collection s (g r) \<Longrightarrow> keyed s k g (rows @ [r])"
  by (auto simp: keyed_def has_collection_iff)

lemmas keyed_rules = keyed_update keyed_delete keyed_snoc

definition sound :: "'d shelf \<Rightarrow> 'd shelf \<Rightarrow> bool" where
  "sound s t \<longleftrightarrow> (shelf_ok s \<longrightarrow> shelf_ok t)"

interpretation so: domain_order sound
  by unfold_locales (auto simp: sound_def)

lemma so_keepsI: "(\<And>s. shelf_ok s \<Longrightarrow> shelf_ok (snd (m s))) \<Longrightarrow> so.keeps m"
  by (rule so.keepsI) (simp add: sound_def)

lemma getStoredItem_None: "getStoredItem s c n = None \<longleftrightarrow> (c, n) \<notin> (\<lambda>m. (mb_coll m, mb_node m)) ` set (members s)"
  by (auto simp: getStoredItem_def first_row_None filter_empty_conv)

lemma getGrant_None: "getGrant s c u = None \<longleftrightarrow> (c, u) \<notin> (\<lambda>g. (cg_coll g, cg_user g)) ` set (coll_grants s)"
  by (auto simp: getGrant_def first_row_None filter_empty_conv)

lemma key_of_row: "(u, c) \<notin> (\<lambda>v. (fst v, fst (snd v))) ` set rows \<longleftrightarrow> (\<forall>x. (u, c, x) \<notin> set rows)"
  by (force simp: image_iff)

lemma getDigestCursor_None: "getDigestCursor s u c = None \<longleftrightarrow> (\<forall>x. (u, c, x) \<notin> set (digest_cursors s))"
  by (auto simp: getDigestCursor_def first_row_None filter_empty_conv)

lemma isExcluded_iff: "isExcluded s c n \<longleftrightarrow> (c, n) \<in> set (exclusions s)"
  by (auto simp: isExcluded_def list_ex_iff)

section \<open>Every statement keeps the tables well-formed\<close>

text \<open>What an update of the collection rows leaves.\<close>

lemma update_collections_cases:
  obtains (failed) "update_collections p f s = (Inl unique_failed, s)"
    | (updated) "update_collections p f s = (Inr (count_where p (collections s)), s\<lparr>collections := update_where p f (collections s)\<rparr>)"
        "distinct (active_names (update_where p f (collections s)))"
  by (cases "distinct (active_names (update_where p f (collections s)))")
    (auto simp: update_collections_def put_collections_def)

lemma ok_collections:
  assumes "shelf_ok s" "map co_id rows = map co_id (collections s)" "distinct (active_names rows)"
  shows "shelf_ok (s\<lparr>collections := rows\<rparr>)"
proof -
  have ids: "co_id ` set rows = co_id ` set (collections s)" using assms(2) by (metis list.set_map)
  have "\<forall>r \<in> set rows. co_id r < next_coll s"
    using assms(1) ids by (metis (no_types, lifting) image_iff rows_ok_def shelf_ok_def)
  then show ?thesis using assms by (simp add: shelf_ok_def rows_ok_def keyed_rows [OF ids])
qed

lemma update_collections_sound:
  fixes f :: "'d shelf \<Rightarrow> 'd collection \<Rightarrow> 'd collection"
  assumes "\<And>s r. co_id (f s r) = co_id r"
  shows "so.keeps (\<lambda>s. update_collections p (f s) s)"
proof (rule so_keepsI)
  fix s :: "'d shelf" assume "shelf_ok s"
  then show "shelf_ok (snd (update_collections p (f s) s))"
    by (cases rule: update_collections_cases [of p "f s" s]) (auto intro!: ok_collections simp: map_update_where assms)
qed

lemma collection_updates_sound:
  "so.keeps (repo_renameCollection c nm lk)" "so.keeps (updatePin c b by)" "so.keeps (repo_setAutoPin c)"
  "so.keeps (repo_clearAutoPin c)" "so.keeps (updatePublishMode c m)" "so.keeps (archiveRow c)"
  "so.keeps (restoreRow c)" "so.keeps (repo_touchMemberChange c)"
  unfolding repo_renameCollection_def updatePin_def repo_setAutoPin_def repo_clearAutoPin_def updatePublishMode_def
    archiveRow_def restoreRow_def repo_touchMemberChange_def
  by (rule update_collections_sound, simp)+

lemma insertCollection_sound: "so.keeps (insertCollection u nm org md df lk)"
proof (rule so_keepsI)
  fix s :: "'a shelf" assume ok: "shelf_ok s"
  have "next_coll s \<notin> co_id ` set (collections s)" using ok by (auto simp: shelf_ok_def rows_ok_def)
  then show "shelf_ok (snd (insertCollection u nm org md df lk s))"
    using ok less_SucI by (auto simp: insertCollection_def Let_def shelf_ok_def rows_ok_def keyed_def)
qed

lemma shelf_okD:
  assumes "shelf_ok s"
  shows "distinct (map co_id (collections s))" "\<And>r. r \<in> set (collections s) \<Longrightarrow> co_id r < next_coll s"
    "distinct (active_names (collections s))" "keyed s (\<lambda>m. (mb_coll m, mb_node m)) mb_coll (members s)"
    "keyed s (\<lambda>e. e) fst (exclusions s)" "keyed s (\<lambda>g. (cg_coll g, cg_user g)) cg_coll (coll_grants s)"
    "keyed s (\<lambda>v. (fst v, fst (snd v))) (\<lambda>v. fst (snd v)) (visibility s)"
    "keyed s (\<lambda>v. (fst v, fst (snd v))) (\<lambda>v. fst (snd v)) (digest_cursors s)"
  using assms by (auto simp: shelf_ok_def rows_ok_def)

text \<open>A statement on one of the other tables.\<close>

lemma ok_tables:
  assumes "shelf_ok s"
  shows "keyed s (\<lambda>m. (mb_coll m, mb_node m)) mb_coll ms \<Longrightarrow> shelf_ok (s\<lparr>members := ms\<rparr>)"
    "keyed s (\<lambda>e. e) fst es \<Longrightarrow> shelf_ok (s\<lparr>exclusions := es\<rparr>)"
    "keyed s (\<lambda>g. (cg_coll g, cg_user g)) cg_coll gs \<Longrightarrow> shelf_ok (s\<lparr>coll_grants := gs\<rparr>)"
    "keyed s (\<lambda>v. (fst v, fst (snd v))) (\<lambda>v. fst (snd v)) vs \<Longrightarrow> shelf_ok (s\<lparr>visibility := vs\<rparr>)"
    "keyed s (\<lambda>v. (fst v, fst (snd v))) (\<lambda>v. fst (snd v)) cs \<Longrightarrow> shelf_ok (s\<lparr>digest_cursors := cs\<rparr>)"
    "shelf_ok (s\<lparr>tombstones := ts\<rparr>)" "shelf_ok (s\<lparr>acl := p\<rparr>)"
  using assms by (simp_all add: shelf_ok_def rows_ok_def keyed_def)

lemma member_updates_sound:
  "so.keeps (insertItem c n u opt)" "so.keeps (deleteItem c n)" "so.keeps (repo_setItemPublished c ids b)"
  by (rule so_keepsI; auto simp: insertItem_def deleteItem_def repo_setItemPublished_def Let_def getStoredItem_None
    intro!: ok_tables keyed_rules dest: shelf_okD(4))+

lemma exclusion_updates_sound: "so.keeps (insertExclusion c n)" "so.keeps (deleteExclusion c n)"
  by (rule so_keepsI; auto simp: insertExclusion_def deleteExclusion_def isExcluded_iff
    intro!: ok_tables keyed_rules dest: shelf_okD(5))+

lemma grant_updates_sound: "so.keeps (upsertGrant c u role by)" "so.keeps (deleteGrant c u)"
  by (rule so_keepsI; auto simp: upsertGrant_def deleteGrant_def getGrant_None
    intro!: ok_tables keyed_rules dest: shelf_okD(6))+

lemma visibility_sound: "so.keeps (repo_setVisible u c h)"
  by (rule so_keepsI) (auto simp: repo_setVisible_def list_ex_iff split_beta key_of_row
    intro!: ok_tables keyed_rules dest: shelf_okD(7))

lemma cursor_updates_sound: "so.keeps (repo_upsertDigestCursor u c t)" "so.keeps (deleteDigestCursor u c)"
  by (rule so_keepsI; auto simp: repo_upsertDigestCursor_def deleteDigestCursor_def getDigestCursor_None key_of_row split_beta
    intro!: ok_tables keyed_rules dest: shelf_okD(8))+

lemma tombstone_sound: "so.keeps (insertTombstone u fp)" "so.keeps (purgeExpiredTombstones t)"
  by (rule so_keepsI; simp add: insertTombstone_def purgeExpiredTombstones_def ok_tables)+

lemma deleteCollectionRow_sound: "so.keeps (deleteCollectionRow c)"
proof (rule so_keepsI)
  fix s :: "'a shelf" assume ok: "shelf_ok s"
  let ?t = "snd (deleteCollectionRow c s)"
  have gone: "x \<in> co_id ` set (collections ?t)" if "x \<in> co_id ` set (collections s)" "x \<noteq> c" for x
    using that by (auto simp: deleteCollectionRow_def)
  have k: "keyed ?t k g (delete_where p rows)"
    if "keyed s k g rows" "\<And>r. \<not> p r \<Longrightarrow> g r \<noteq> c" for k :: "'r \<Rightarrow> 'k" and g p rows
    using that gone by (auto simp: keyed_def distinct_map_delete)
  have "filter (\<lambda>r. co_status r = Coll_active) (delete_where p rows) = delete_where p (filter (\<lambda>r. co_status r = Coll_active) rows)"
    for p and rows :: "'a collection list"
    by (simp add: delete_where_def conj_commute)
  then have "distinct (active_names (delete_where p rows))" if "distinct (active_names rows)" for p and rows :: "'a collection list"
    using that by (simp add: active_names_def distinct_map_delete)
  then have "rows_ok ?t" using ok by (auto simp: shelf_ok_def rows_ok_def deleteCollectionRow_def distinct_map_delete)
  then show "shelf_ok ?t"
    using ok unfolding shelf_ok_def by (auto simp: deleteCollectionRow_def split_beta intro!: k [unfolded deleteCollectionRow_def, simplified])
qed

lemma ok_suggestions:
  "shelf_ok s \<Longrightarrow> (\<And>g. sg_id (f g) = sg_id g) \<Longrightarrow> (\<And>g. sg_a (f g) = sg_a g) \<Longrightarrow> (\<And>g. sg_b (f g) = sg_b g) \<Longrightarrow>
    shelf_ok (s\<lparr>suggestions := update_where p f (suggestions s)\<rparr>)"
  by (auto simp: shelf_ok_def rows_ok_def keyed_def map_update_where set_update_where)

lemma suggestion_updates_sound:
  "so.keeps (repo_setSuggestionState i st)" "so.keeps (repo_reopenMergeSuggestion i sc)"
proof -
  have stamp: "sg_id (stamp_suggestion st now g) = sg_id g" "sg_a (stamp_suggestion st now g) = sg_a g"
    "sg_b (stamp_suggestion st now g) = sg_b g" for now g
    by (cases st; simp add: stamp_suggestion_def)+
  show "so.keeps (repo_setSuggestionState i st)" "so.keeps (repo_reopenMergeSuggestion i sc)"
    by (rule so_keepsI; auto simp: repo_setSuggestionState_def repo_reopenMergeSuggestion_def Let_def stamp intro!: ok_suggestions)+
qed

lemma upsertMergeSuggestion_sound: "so.keeps (repo_upsertMergeSuggestion a b score v w)"
proof (rule so_keepsI)
  fix s :: "'a shelf" assume k: "shelf_ok s"
  have "pair_suggestion s a b = None \<longleftrightarrow> (min a b, max a b) \<notin> (\<lambda>g. (sg_a g, sg_b g)) ` set (suggestions s)"
    by (force simp: pair_suggestion_def first_row_None filter_empty_conv)
  moreover have "next_sugg s \<notin> sg_id ` set (suggestions s)" using k by (auto simp: shelf_ok_def)
  ultimately show "shelf_ok (snd (repo_upsertMergeSuggestion a b score v w s))"
    using k less_SucI
    by (auto simp: repo_upsertMergeSuggestion_def Let_def shelf_ok_def rows_ok_def keyed_def has_collection_iff min_def max_def
        split: if_splits)
qed

lemmas statements_sound = collection_updates_sound insertCollection_sound member_updates_sound exclusion_updates_sound
  grant_updates_sound visibility_sound cursor_updates_sound tombstone_sound deleteCollectionRow_sound suggestion_updates_sound
  upsertMergeSuggestion_sound

section \<open>Every command and every undo keeps the tables well-formed\<close>

lemmas sound_rules = statements_sound so.keeps_rules

lemma each_changed_sound: "(\<And>n. so.keeps (f n)) \<Longrightarrow> so.keeps (each_changed f ids)"
  by (induction ids) (auto intro!: sound_rules)

lemma loops_sound:
  "so.keeps (apply_revokes c us)" "so.keeps (apply_upserts c a g ups)" "so.keeps (merge_items x y ms)"
  "so.keeps (merge_exclusions x y ns)" "so.keeps (unmerge_items x w y ns ms)" "so.keeps (unmerge_exclusions x y ns zs)"
proof -
  show "so.keeps (apply_revokes c us)" by (induction us) (auto intro!: sound_rules)
  show "so.keeps (apply_upserts c a g ups)" by (induction ups) (auto intro!: sound_rules)
  show "so.keeps (merge_items x y ms)" by (induction ms) (auto intro!: sound_rules)
  show "so.keeps (merge_exclusions x y ns)" by (induction ns) (auto intro!: sound_rules)
  show "so.keeps (unmerge_items x w y ns ms)" by (induction ms) (auto intro!: sound_rules)
  show "so.keeps (unmerge_exclusions x y ns zs)" by (induction zs) (auto intro!: sound_rules)
qed

lemma inverse_sound: "so.keeps (applyInverseTx i a dr)"
  unfolding applyInverseTx_def if_exists_def counted_def applyMergeInverse_def
  by (auto split: inverse.split option.split prod.split intro!: sound_rules loops_sound)

lemma unit_sound: "so.keeps (apply_unit b a dr descriptors)"
  by (induction descriptors) (auto intro!: sound_rules inverse_sound)

lemma executor_sound: "so.keeps (applyCollectionInverse row)"
  unfolding applyCollectionInverse_def by (auto split: option.split intro!: sound_rules inverse_sound unit_sound)

lemma shelf_tx_sound: "so.keeps m \<Longrightarrow> so.through (shelf_tx m)"
  unfolding shelf_tx_def by (intro so.through_on_domain so.keeps_withTx)

lemma coll_commit_sound: "so.keeps m \<Longrightarrow> so.through (coll_commit env c a act l p m)"
  unfolding coll_commit_def by (auto split: prod.split intro!: so.through_rules so.through_commitChange)

lemma in_shelf_sound: "so.through (in_shelf f)" "so.through (labelOf c)"
  unfolding labelOf_def in_shelf_def by (intro so.through_rules)+

lemmas through_sound = so.through_rules shelf_tx_sound coll_commit_sound in_shelf_sound sound_rules loops_sound each_changed_sound

lemma store_sound:
  "so.through (store_createCollection env u nm org md df a)" "so.through (store_renameCollection env c nm lk a)"
  "so.through (store_setPinned env c b a)" "so.through (store_setPublishMode env c m a)"
  "so.through (store_setAutoPin c)" "so.through (store_clearAutoPin c)"
  "so.through (store_archiveCollection env c a)" "so.through (store_restoreCollection env c a)"
  "so.through (store_touchMemberChange c)" "so.through (store_addItem env c n u opt a)"
  "so.through (store_removeItem env c n a)" "so.through (store_addItems env c ns u opt a)"
  "so.through (store_removeItems env c ns xs a)" "so.through (store_addExclusion env c n a)"
  "so.through (store_removeExclusion env c n a)" "so.through (store_setItemPublished env c ns b a)"
  "so.through (store_grantAccess env c v role u a)" "so.through (store_revokeAccess env c v a)"
  "so.through (store_setVisible u c b)" "so.through (store_upsertDigestCursor u c t)"
  "so.through (store_addTombstone u fp)" "so.through (store_upsertMergeSuggestion x y sc vd wy)"
  "so.through (store_setSuggestionState i st)" "so.through (store_reopenMergeSuggestion i so)"
  unfolding store_createCollection_def store_renameCollection_def store_setPinned_def store_setPublishMode_def
    store_setAutoPin_def store_clearAutoPin_def store_archiveCollection_def store_restoreCollection_def
    store_touchMemberChange_def store_addItem_def store_removeItem_def store_addItems_def store_removeItems_def
    store_addExclusion_def store_removeExclusion_def store_setItemPublished_def store_grantAccess_def
    store_revokeAccess_def store_setVisible_def store_upsertDigestCursor_def store_addTombstone_def
    store_upsertMergeSuggestion_def store_setSuggestionState_def store_reopenMergeSuggestion_def created_row_def
  by (auto split: prod.split option.split intro!: through_sound so.through_commitChange)

lemma store_composites_sound:
  "so.through (store_deletePermanent env c fp)" "so.through (store_updateProperties env c p u)"
  "so.through (store_mergeCollections env x y a)"
proof -
  show "so.through (store_deletePermanent env c fp)"
    unfolding store_deletePermanent_def
    by (auto split: option.split intro!: through_sound so.through_with_lock so.through_in_tx so.through_on_domain
        so.through_purgeSubject)
  show "so.through (store_updateProperties env c p u)"
    unfolding store_updateProperties_def apply_properties_def Let_def
    by (auto split: option.split prod.split intro!: through_sound)
  show "so.through (store_mergeCollections env x y a)"
    unfolding store_mergeCollections_def merge_body_def
    by (auto split: option.split prod.split intro!: through_sound so.through_with_lock so.through_commitChange)
qed

lemma undo_sound: "so.through (undo_action env u i b)"
proof -
  have "so.through (undoAction env collection_executors i b)"
    by (rule so.through_undo) (auto simp: collection_executors_def executor_sound split: if_splits)
  then show ?thesis
    unfolding undo_action_def undo_outcome_def
    by (auto split: option.split undo_result.split intro!: through_sound)
qed

lemma lib_acl_sound: "so.through (lib_acl f)"
  by (rule so.throughI) (simp add: lib_acl_def sound_def ok_tables(7) split_beta)

lemma gate_sound:
  "so.through (canReadNode u n)" "so.through (getCollectionForRead u c)" "so.through (requireOwner u r)"
  "so.through (requireOwnerOrRole u r role)" "so.through (parseNodeIds ns)" "so.through (touchSystemAutoPin r)"
  "so.through (resolveCollectionName u nm)" "so.through (check_name nm)" "so.through (reread c r)"
  "so.through (touch_current c)" "so.through (of_result x)" "so.through (share_listGrants u c)"
  unfolding canReadNode_def getCollectionForRead_def requireOwner_def requireOwnerOrRole_def parseNodeIds_def
    touchSystemAutoPin_def resolveCollectionName_def check_name_def reread_def touch_current_def of_result_def
    share_listGrants_def
  by (auto split: option.split sum.split prod.split intro!: through_sound store_sound lib_acl_sound)

lemmas service_sound_rules = through_sound store_sound store_composites_sound gate_sound lib_acl_sound

lemma service_loops_sound:
  "so.through (check_revokes c r us)" "so.through (check_upserts c r ups)" "so.through (member_rows u r ms)"
  "so.through (readable_ids u ns)" "so.through (classify_removals u c og b ns)"
proof -
  show "so.through (check_revokes c r us)" by (induction us) (auto intro!: service_sound_rules)
  show "so.through (check_upserts c r ups)"
    by (induction ups) (auto split: option.split prod.split intro!: service_sound_rules)
  show "so.through (member_rows u r ms)"
    by (induction ms) (auto simp: member_row_def split: option.split prod.split intro!: service_sound_rules)
  show "so.through (readable_ids u ns)"
    by (induction ns) (auto split: prod.split intro!: service_sound_rules)
  show "so.through (classify_removals u c og b ns)"
    by (induction ns) (auto split: prod.split option.split intro!: service_sound_rules)
qed

lemma service_sound:
  "so.through (publish env u c ns b)" "so.through (share_grant env u c v role)" "so.through (share_revoke env u c v)"
  "so.through (revokeOwnGrant env u c)" "so.through (assertMemberConsumable u c n)" "so.through (coll_create env u nm)"
  "so.through (coll_archive env u c)" "so.through (coll_restore env u c)"
  "so.through (coll_deletePermanent env fp u c)" "so.through (coll_getItems score u c since)" "so.through (coll_get u c)"
  "so.through (coll_addItems env u c ns)" "so.through (coll_removeItems env u c ns)" "so.through (getForNodes u ns)"
  "so.through (coll_merge env u x y)" "so.through (settle_suggestion st u x y)"
  unfolding publish_def share_grant_def share_revoke_def revokeOwnGrant_def assertMemberConsumable_def coll_create_def
    coll_archive_def coll_restore_def coll_deletePermanent_def coll_getItems_def coll_get_def coll_addItems_def
    coll_removeItems_def getForNodes_def coll_merge_def settle_suggestion_def resolveOwnedPair_def resolveMemberRows_def Let_def
  by (auto split: option.split prod.split intro!: service_sound_rules service_loops_sound)

lemma update_sound: "so.through (coll_update env u c p)"
  unfolding coll_update_def by (auto split: option.split prod.split intro!: service_sound_rules)

lemma properties_sound: "so.through (coll_updateProperties env u c p)"
  unfolding coll_updateProperties_def dialog_name_def dialog_grants_def
  by (auto split: option.split prod.split intro!: service_sound_rules service_loops_sound)

section \<open>Commits of collections\<close>

lemma collection_domain: "''collection'' \<in> set JOURNAL_DOMAIN_ALL"
  by (simp add: JOURNAL_DOMAIN_ALL_def)

definition coll_lock :: "nat \<Rightarrow> string" where
  "coll_lock c = journal_lock ''collection'' (collection_subject c)"

lemma coll_commit_cases:
  assumes "coll_commit env c actor action label p m s = (x, t)"
  obtains (refused) e where "x = Inl e" "same_core s t" "lock_answer env (coll_lock c) s = Inl e"
    | (failed) e d where "x = Inl (mapDatabaseError e)" "same_core s t" "m (jdom s) = (Inl e, d)"
    | (committed) r i where "x = Inr (r, i)" "m (jdom s) = (Inr r, jdom t)"
        "appended ''collection'' (collection_subject c) \<lparr>m_actor = actor, m_action = action, m_label = label\<rparr> p i s t"
proof -
  obtain y u where y: "commitChange env ''collection'' (Subject (collection_subject c))
      \<lparr>m_actor = actor, m_action = action, m_label = label\<rparr> (\<lambda>_. p) m s = (y, u)" by fastforce
  then have xt: "x = (case y of Inl e \<Rightarrow> Inl e | Inr (i, n, r) \<Rightarrow> Inr (r, i))" "t = u"
    using assms by (cases y; auto simp: coll_commit_def seqs_def ret_def split: prod.splits)+
  show ?thesis
  proof (cases rule: commit_cases [OF y collection_domain])
    case (1 e)
    then show ?thesis using that(1) [of e] xt by (simp add: coll_lock_def lock_subject_def)
  next
    case (2 e d)
    then show ?thesis using that(2) [of e d] xt by simp
  next
    case (3 i n r)
    then show ?thesis using that(3) [of r i] xt by (simp add: resolve_subject_def)
  qed
qed

text \<open>Reads and the gate leave the state as it is.\<close>

lemma in_shelf_run: "in_shelf f s = (Inr (f (jdom s)), s)"
  by (simp add: in_shelf_def reads_def)

lemma seqs_in_shelf: "seqs (in_shelf f) g s = g (f (jdom s)) s"
  by (simp add: seqs_def in_shelf_run)

lemma labelOf_run: "seqs (labelOf c) g s = g (map_option co_name (getCollection (jdom s) c)) s"
  by (simp add: labelOf_def seqs_in_shelf)

text \<open>What a user may see of a collection: it exists, and the user owns it or holds a grant and has not hidden it.\<close>

definition sees :: "'d shelf \<Rightarrow> nat \<Rightarrow> nat \<Rightarrow> bool" where
  "sees s u c \<longleftrightarrow> (case getCollection s c of None \<Rightarrow> False
     | Some r \<Rightarrow> co_owner r = u \<or> getGrant s c u \<noteq> None \<and> \<not> isHiddenFor s u c)"

definition gate_grant :: "'d shelf \<Rightarrow> nat \<Rightarrow> 'd collection \<Rightarrow> coll_grant option" where
  "gate_grant s u r = (if co_owner r = u then None else getGrant s (co_id r) u)"

lemma getCollection_id: "getCollection s c = Some r \<Longrightarrow> co_id r = c \<and> r \<in> set (collections s)"
  using first_row_in [of "filter (\<lambda>r. co_id r = c) (collections s)" r] by (simp add: getCollection_def)

lemma gate_run:
  "getCollectionForRead u c s =
     (if sees (jdom s) u c
      then (Inr (the (getCollection (jdom s) c), gate_grant (jdom s) u (the (getCollection (jdom s) c))), s)
      else (Inl (coll_error ''notFound''), s))"
  by (auto simp: getCollectionForRead_def seqs_in_shelf sees_def gate_grant_def throw_def ret_def
      dest: getCollection_id split: option.splits)

lemma gate_seqs:
  "seqs (getCollectionForRead u c) f s =
     (if sees (jdom s) u c
      then f (the (getCollection (jdom s) c), gate_grant (jdom s) u (the (getCollection (jdom s) c))) s
      else (Inl (coll_error ''notFound''), s))"
  by (simp add: seqs_def gate_run)

lemma requireOwner_seqs: "seqs (requireOwner u r) f s = (if co_owner r = u then f () s else (Inl (coll_error ''forbidden''), s))"
  by (simp add: requireOwner_def seqs_guard)

lemma parse_seqs:
  "seqs (parseNodeIds ids) f s =
     (if ids = [] \<or> length ids > MAX_NODE_IDS \<or> 0 \<in> set ids then (Inl (coll_error ''emptyNodeIds''), s) else f ids s)"
  by (simp add: parseNodeIds_def seqs_def throw_def ret_def)

text \<open>Behind the gate, the role is that of the grant.\<close>

lemma role_seqs:
  assumes "sees (jdom s) u c" "getCollection (jdom s) c = Some r"
  shows "seqs (requireOwnerOrRole u r Editor) f s =
     (case getRole (jdom s) u c of
        Some (Role_grant Viewer) \<Rightarrow> (Inl (coll_error ''forbidden''), s)
      | Some role \<Rightarrow> f role s
      | None \<Rightarrow> undefined)"
proof -
  have id: "co_id r = c" using getCollection_id [OF assms(2)] by simp
  show ?thesis
  proof (cases "co_owner r = u")
    case True
    then show ?thesis using assms by (simp add: requireOwnerOrRole_def getRole_def seqs_ret)
  next
    case False
    then obtain g where g: "getGrant (jdom s) c u = Some g" "\<not> isHiddenFor (jdom s) u c"
      using assms by (auto simp: sees_def)
    then show ?thesis
      using assms False id
      by (cases "cg_role g") (simp_all add: requireOwnerOrRole_def getRole_def seqs_def in_shelf_run throw_def ret_def)
  qed
qed

lemma sees_role: "sees s u c \<Longrightarrow> getRole s u c \<noteq> None"
  by (auto simp: sees_def getRole_def split: option.splits if_splits)

end
