(* ===== verification/CollProps.thy ===== *)
theory CollProps
  imports CollLaws
begin

text \<open>
  The properties of collections: whom the gate admits and what an editor can change, names, the tables
  over every history, what undo restores and what it does not.
\<close>

section \<open>The operations of a user on a collection\<close>

datatype coll_op =
    Op_publish "nat list" bool
  | Op_list_grants
  | Op_grant nat grant_role
  | Op_revoke nat
  | Op_leave
  | Op_consume nat
  | Op_update coll_patch
  | Op_properties dialog_patch
  | Op_archive
  | Op_restore
  | Op_delete
  | Op_items "int option option"
  | Op_get
  | Op_add "nat list"
  | Op_remove "nat list"

definition silently :: "('s, 'a) service \<Rightarrow> ('s, unit) service" where
  "silently m = seqs m (\<lambda>_. ret ())"

fun run_op ::
  "journal_env \<Rightarrow> ('d \<Rightarrow> string) \<Rightarrow> (nat \<Rightarrow> real) \<Rightarrow> nat \<Rightarrow> nat \<Rightarrow> coll_op \<Rightarrow> ('d library, unit) service" where
  "run_op env fp score u c (Op_publish ids b) = silently (publish env u c ids b)"
| "run_op env fp score u c Op_list_grants = silently (share_listGrants u c)"
| "run_op env fp score u c (Op_grant v role) = silently (share_grant env u c v role)"
| "run_op env fp score u c (Op_revoke v) = silently (share_revoke env u c v)"
| "run_op env fp score u c Op_leave = silently (revokeOwnGrant env u c)"
| "run_op env fp score u c (Op_consume n) = assertMemberConsumable u c n"
| "run_op env fp score u c (Op_update p) = silently (coll_update env u c p)"
| "run_op env fp score u c (Op_properties p) = silently (coll_updateProperties env u c p)"
| "run_op env fp score u c Op_archive = silently (coll_archive env u c)"
| "run_op env fp score u c Op_restore = silently (coll_restore env u c)"
| "run_op env fp score u c Op_delete = coll_deletePermanent env fp u c"
| "run_op env fp score u c (Op_items since) = silently (coll_getItems score u c since)"
| "run_op env fp score u c Op_get = silently (coll_get u c)"
| "run_op env fp score u c (Op_add ids) = silently (coll_addItems env u c ids)"
| "run_op env fp score u c (Op_remove ids) = silently (coll_removeItems env u c ids)"

fun owner_op :: "coll_op \<Rightarrow> bool" where
  "owner_op Op_list_grants = True"
| "owner_op (Op_grant v role) = True"
| "owner_op (Op_revoke v) = True"
| "owner_op (Op_update p) = True"
| "owner_op (Op_properties p) = True"
| "owner_op Op_archive = True"
| "owner_op Op_restore = True"
| "owner_op Op_delete = True"
| "owner_op _ = False"

fun editor_op :: "coll_op \<Rightarrow> bool" where
  "editor_op (Op_publish ids b) = True"
| "editor_op (Op_add ids) = True"
| "editor_op (Op_remove ids) = True"
| "editor_op _ = False"

fun ids_of_op :: "coll_op \<Rightarrow> nat list" where
  "ids_of_op (Op_publish ids b) = ids"
| "ids_of_op (Op_add ids) = ids"
| "ids_of_op (Op_remove ids) = ids"
| "ids_of_op (Op_consume n) = [n]"
| "ids_of_op _ = [1]"

definition bad_ids :: "nat list \<Rightarrow> bool" where
  "bad_ids ids \<longleftrightarrow> ids = [] \<or> length ids > MAX_NODE_IDS \<or> 0 \<in> set ids"

lemma silently_gate:
  "silently (seqs (getCollectionForRead u c) f) s =
     (if sees (jdom s) u c
      then silently (f (the (getCollection (jdom s) c), gate_grant (jdom s) u (the (getCollection (jdom s) c)))) s
      else (Inl (coll_error ''notFound''), s))"
  by (simp add: silently_def seqs_def gate_run)

lemma silently_owner:
  "silently (seqs (requireOwner u r) f) s = (if co_owner r = u then silently (f ()) s else (Inl (coll_error ''forbidden''), s))"
  by (simp add: silently_def seqs_def requireOwner_def guard_def)

lemma silently_parse:
  "silently (seqs (parseNodeIds ids) f) s = (if bad_ids ids then (Inl (coll_error ''emptyNodeIds''), s) else silently (f ids) s)"
  by (simp add: silently_def seqs_def parseNodeIds_def bad_ids_def throw_def ret_def)

text \<open>Outside the gate nothing happens.\<close>

lemma outsider:
  assumes "\<not> sees (jdom s) u c"
  shows "run_op env fp score u c op s =
    (if editor_op op \<and> bad_ids (ids_of_op op) then (Inl (coll_error ''emptyNodeIds''), s) else (Inl (coll_error ''notFound''), s))"
  using assms
  by (cases op)
    (simp_all add: publish_def share_listGrants_def share_grant_def share_revoke_def revokeOwnGrant_def
      assertMemberConsumable_def coll_update_def coll_updateProperties_def coll_archive_def coll_restore_def
      coll_deletePermanent_def coll_getItems_def coll_get_def coll_addItems_def coll_removeItems_def
      silently_gate silently_parse gate_seqs seqs_guard bad_ids_def)

lemma grantee_owner_op:
  assumes "sees (jdom s) u c" "getRole (jdom s) u c \<noteq> Some Role_owner" "owner_op op"
  shows "run_op env fp score u c op s = (Inl (coll_error ''forbidden''), s)"
proof -
  obtain r where r: "getCollection (jdom s) c = Some r" "co_owner r \<noteq> u"
    using assms(1,2) by (auto simp: sees_def getRole_def split: option.splits if_splits)
  then show ?thesis
    using assms(1,3)
    by (cases op)
      (simp_all add: share_listGrants_def share_grant_def share_revoke_def coll_update_def coll_updateProperties_def
        coll_archive_def coll_restore_def coll_deletePermanent_def silently_gate silently_owner gate_seqs requireOwner_seqs)
qed

lemma silently_role:
  assumes "sees (jdom s) u c" "getCollection (jdom s) c = Some r" "getRole (jdom s) u c = Some (Role_grant Viewer)"
  shows "silently (seqs (requireOwnerOrRole u r Editor) f) s = (Inl (coll_error ''forbidden''), s)"
proof -
  have "seqs (requireOwnerOrRole u r Editor) f s = (Inl (coll_error ''forbidden''), s)"
    using role_seqs [OF assms(1,2), of f] assms(3) by simp
  then show ?thesis by (simp add: silently_def seqs_def [of "seqs _ _"])
qed

lemma viewer_editor_op:
  assumes "sees (jdom s) u c" "getRole (jdom s) u c = Some (Role_grant Viewer)" "editor_op op"
  shows "run_op env fp score u c op s =
    (if bad_ids (ids_of_op op) then (Inl (coll_error ''emptyNodeIds''), s) else (Inl (coll_error ''forbidden''), s))"
proof -
  obtain r where r: "getCollection (jdom s) c = Some r"
    using assms(1) by (auto simp: sees_def split: option.splits)
  then show ?thesis
    using assms
    by (cases op)
      (simp_all add: publish_def coll_addItems_def coll_removeItems_def silently_parse silently_gate
        silently_role [OF assms(1) r assms(2)])
qed

section \<open>What an editor can change\<close>

text \<open>Of a collection row, an editor's commands change the instants and the pin of a system collection.\<close>

definition row_touched :: "nat \<Rightarrow> 'd collection \<Rightarrow> 'd collection \<Rightarrow> bool" where
  "row_touched c r r' \<longleftrightarrow> r' = r \<or> co_id r = c \<and>
     r'\<lparr>co_pinned := False, co_pinner := None, co_changed := None, co_updated := 0\<rparr>
       = r\<lparr>co_pinned := False, co_pinner := None, co_changed := None, co_updated := 0\<rparr>"

text \<open>Everything but the members, the caches of the access control and the rows of the collection itself.\<close>

definition framed :: "nat \<Rightarrow> 'd shelf \<Rightarrow> 'd shelf \<Rightarrow> bool" where
  "framed c s t \<longleftrightarrow> shelf_db t = shelf_db s \<and> list_all2 (row_touched c) (collections s) (collections t) \<and>
     exclusions t = exclusions s \<and> coll_grants t = coll_grants s \<and> visibility t = visibility s \<and>
     digest_cursors t = digest_cursors s \<and> tombstones t = tombstones s \<and> suggestions t = suggestions s \<and>
     next_coll t = next_coll s \<and> next_sugg t = next_sugg s"

lemma row_touched_refl: "row_touched c r r"
  by (simp add: row_touched_def)

lemma touched_core:
  "row_touched c r r' \<Longrightarrow> co_id r' = co_id r \<and> co_owner r' = co_owner r \<and> co_name r' = co_name r \<and>
     co_status r' = co_status r \<and> co_origin r' = co_origin r \<and> co_def r' = co_def r \<and> co_mode r' = co_mode r \<and>
     co_locked r' = co_locked r"
  unfolding row_touched_def by (cases r; cases r') auto

lemma row_touched_trans: "row_touched c r q \<Longrightarrow> row_touched c q p \<Longrightarrow> row_touched c r p"
  unfolding row_touched_def by (cases r; cases q; cases p) auto

interpretation fr: domain_order "framed c" for c
proof unfold_locales
  show "framed c s s" for s :: "'a shelf" by (simp add: framed_def list_all2_refl row_touched_refl)
  show "framed c s u" if "framed c s t" "framed c t u" for s t u :: "'a shelf"
  proof -
    have "list_all2 (row_touched c) (collections s) (collections u)"
      using list_all2_trans [of "row_touched c" "row_touched c" "row_touched c"] row_touched_trans that
      by (fastforce simp: framed_def)
    then show ?thesis using that by (simp add: framed_def)
  qed
qed

definition same_members :: "'d shelf \<Rightarrow> 'd shelf \<Rightarrow> bool" where
  "same_members s t \<longleftrightarrow> members t = members s"

interpretation sm: domain_order same_members
  by unfold_locales (auto simp: same_members_def)

text \<open>The statements of the commands an editor can reach.\<close>

lemma update_framed:
  assumes "\<And>r. p r \<Longrightarrow> row_touched c r (f r)"
  shows "framed c s (snd (update_collections p f s)) \<and> same_members s (snd (update_collections p f s))"
proof (cases rule: update_collections_cases [of p f s])
  case failed
  then show ?thesis by (simp add: fr.ord_refl sm.ord_refl)
next
  case updated
  have "list_all2 (row_touched c) (collections s) (update_where p f (collections s))"
    using assms by (auto simp: update_where_def list_all2_conv_all_nth row_touched_refl)
  then show ?thesis using updated by (simp add: framed_def shelf_db_def same_members_def)
qed

lemma touch_both:
  "framed c s (snd (repo_touchMemberChange c s)) \<and> same_members s (snd (repo_touchMemberChange c s))"
  unfolding repo_touchMemberChange_def by (rule update_framed) (simp add: row_touched_def)

lemma autopin_both: "framed c s (snd (repo_setAutoPin c s)) \<and> same_members s (snd (repo_setAutoPin c s))"
  unfolding repo_setAutoPin_def by (rule update_framed) (simp add: row_touched_def)

lemma touch_framed:
  "fr.keeps c (repo_touchMemberChange c)" "fr.keeps c (repo_setAutoPin c)"
  "sm.keeps (repo_touchMemberChange c)" "sm.keeps (repo_setAutoPin c)"
  by (rule fr.keepsI sm.keepsI, simp add: touch_both autopin_both)+

lemma framed_members [simp]: "framed c s (t\<lparr>members := ms\<rparr>) = framed c s t" "framed c (s\<lparr>members := ms\<rparr>) t = framed c s t"
  by (simp_all add: framed_def shelf_db_def)

lemma check_both:
  "framed c (jdom s) (jdom (snd (lib_acl (checkFilePermission p n need) s))) \<and>
   same_members (jdom s) (jdom (snd (lib_acl (checkFilePermission p n need) s)))"
  using file_check_pdb [of p n need "acl (jdom s)"]
  by (simp add: lib_acl_def split_beta framed_def shelf_db_def list_all2_refl row_touched_refl same_members_def)

lemma acl_framed:
  "fr.through c (lib_acl (checkFilePermission p n need))" "sm.through (lib_acl (checkFilePermission p n need))"
  by (rule fr.throughI sm.throughI, simp add: check_both)+

lemma check_framed: "fr.through c (canReadNode u n)" "sm.through (canReadNode u n)"
  unfolding canReadNode_def in_shelf_def by (auto intro!: fr.through_rules sm.through_rules acl_framed)

lemma readable_framed: "fr.through c (readable_ids u ns)" "sm.through (readable_ids u ns)"
  by (induction ns) (auto split: prod.split intro!: fr.through_rules sm.through_rules check_framed)

lemma autopin_framed:
  "co_id r = c \<Longrightarrow> fr.through c (touchSystemAutoPin r)" "sm.through (touchSystemAutoPin r)"
  unfolding touchSystemAutoPin_def store_setAutoPin_def shelf_tx_def
  by (auto intro!: fr.through_rules sm.through_rules fr.through_on_domain sm.through_on_domain
      fr.keeps_withTx sm.keeps_withTx touch_framed)

text \<open>The change of the member table: removed rows are the editor's own, added rows are the editor's, and the
  rest differs in the publication flag.\<close>

definition same_member :: "nat \<Rightarrow> member \<Rightarrow> member \<Rightarrow> bool" where
  "same_member c m m' \<longleftrightarrow> m' = m \<or> mb_coll m = c \<and> m' = m\<lparr>mb_published := mb_published m'\<rparr>"

definition editor_change :: "nat \<Rightarrow> nat \<Rightarrow> bool \<Rightarrow> member list \<Rightarrow> member list \<Rightarrow> bool" where
  "editor_change u c pub ms ms' \<longleftrightarrow>
     list_all (\<lambda>m. mb_coll m = c \<and> mb_by m = u \<or> list_ex (same_member c m) ms') ms \<and>
     list_all (\<lambda>m'. list_ex (\<lambda>m. same_member c m m') ms \<or>
       mb_coll m' = c \<and> mb_by m' = u \<and> mb_source m' = From_manual \<and> mb_published m' = pub) ms'"

lemma editor_change_refl: "editor_change u c pub ms ms"
  by (auto simp: editor_change_def list_all_iff list_ex_iff same_member_def)

lemma each_delete:
  "\<exists>ys. each_changed (deleteItem c) ns s =
     (Inr ys, s\<lparr>members := delete_where (\<lambda>m. mb_coll m = c \<and> mb_node m \<in> set ns) (members s)\<rparr>)"
proof (induction ns arbitrary: s)
  case Nil
  then show ?case by (simp add: ret_def delete_where_def)
next
  case (Cons n ns)
  let ?s = "s\<lparr>members := delete_where (is_member c n) (members s)\<rparr>"
  obtain ys where ys: "each_changed (deleteItem c) ns ?s =
      (Inr ys, ?s\<lparr>members := delete_where (\<lambda>m. mb_coll m = c \<and> mb_node m \<in> set ns) (members ?s)\<rparr>)"
    using Cons by blast
  have "delete_where (\<lambda>m. mb_coll m = c \<and> mb_node m \<in> set ns) (delete_where (is_member c n) (members s))
      = delete_where (\<lambda>m. mb_coll m = c \<and> mb_node m \<in> set (n # ns)) (members s)"
    by (auto simp: delete_where_def is_member_def intro: filter_cong)
  then have "each_changed (deleteItem c) ns ?s =
      (Inr ys, s\<lparr>members := delete_where (\<lambda>m. mb_coll m = c \<and> mb_node m \<in> set (n # ns)) (members s)\<rparr>)"
    using ys by simp
  moreover have "deleteItem c n s = (Inr (count_where (is_member c n) (members s)), ?s)"
    by (simp add: deleteItem_def)
  ultimately show ?case by (simp add: seqs_def ret_def)
qed

lemma each_insert:
  assumes "each_changed (\<lambda>n. insertItem c n u opt) ns s = (x, t)"
  shows "\<exists>new. t = s\<lparr>members := members s @ new\<rparr> \<and>
    (\<forall>m \<in> set new. mb_coll m = c \<and> mb_by m = u \<and> mb_source m = io_source opt \<and> mb_published m = io_published opt)"
  using assms
proof (induction ns arbitrary: s x t)
  case Nil
  then show ?case by (intro exI [of _ "[]"]) (auto simp: ret_def)
next
  case (Cons n ns)
  obtain y s1 where y: "insertItem c n u opt s = (y, s1)" by fastforce
  then obtain new1 where new1: "s1 = s\<lparr>members := members s @ new1\<rparr>"
    "\<forall>m \<in> set new1. mb_coll m = c \<and> mb_by m = u \<and> mb_source m = io_source opt \<and> mb_published m = io_published opt"
    by (auto simp: insertItem_def split: if_splits)
      (metis append_Nil2 empty_iff empty_set shelf.surjective shelf.update_convs(3))+
  show ?case
  proof (cases y)
    case (Inl e)
    then show ?thesis using Cons.prems y new1 by (auto simp: seqs_def)
  next
    case (Inr k)
    obtain z v where z: "each_changed (\<lambda>n. insertItem c n u opt) ns s1 = (z, v)" by fastforce
    then have "t = v" using Cons.prems y Inr by (cases z) (auto simp: seqs_def ret_def)
    moreover obtain new where "v = s1\<lparr>members := members s1 @ new\<rparr>"
      "\<forall>m \<in> set new. mb_coll m = c \<and> mb_by m = u \<and> mb_source m = io_source opt \<and> mb_published m = io_published opt"
      using Cons.IH [OF z] by blast
    ultimately show ?thesis using new1 by (intro exI [of _ "new1 @ new"]) auto
  qed
qed

lemma seqs_elim:
  assumes "seqs m f s = (x, t)"
  obtains (stop) e where "m s = (Inl e, t)" "x = Inl e"
    | (go) y s1 where "m s = (Inr y, s1)" "f y s1 = (x, t)"
proof -
  obtain y s1 where y: "m s = (y, s1)" by fastforce
  then show ?thesis using assms that by (cases y) (auto simp: seqs_def)
qed

definition editor_done :: "nat \<Rightarrow> nat \<Rightarrow> bool \<Rightarrow> 'd library \<Rightarrow> 'd library \<Rightarrow> bool" where
  "editor_done u c pub s t \<longleftrightarrow> framed c (jdom s) (jdom t) \<and>
     editor_change u c pub (members (jdom s)) (members (jdom t))"

lemma done_refl: "jdom t = jdom s \<Longrightarrow> editor_done u c pub s t"
  by (simp add: editor_done_def fr.ord_refl editor_change_refl)

lemma done_before:
  assumes "framed c (jdom s) (jdom s1)" "same_members (jdom s) (jdom s1)" "editor_done u c pub s1 t"
  shows "editor_done u c pub s t"
  using assms fr.ord_trans unfolding editor_done_def same_members_def by fastforce

lemma done_after:
  assumes "editor_done u c pub s s1" "framed c (jdom s1) (jdom t)" "same_members (jdom s1) (jdom t)"
  shows "editor_done u c pub s t"
  using assms fr.ord_trans unfolding editor_done_def same_members_def by fastforce

lemma commit_done_by:
  assumes "coll_commit env c actor action label p m s = (x, t)"
    and "\<And>r d. m (jdom s) = (Inr r, d) \<Longrightarrow> framed c (jdom s) d \<and> editor_change u c pub (members (jdom s)) (members d)"
  shows "editor_done u c pub s t"
proof (cases rule: coll_commit_cases [OF assms(1)])
  case (3 r i)
  then show ?thesis using assms(2) by (simp add: editor_done_def)
qed (auto simp: same_core_def intro: done_refl)

lemma publish_change:
  "framed c s (snd (repo_setItemPublished c ids b s)) \<and>
   editor_change u c pub (members s) (members (snd (repo_setItemPublished c ids b s)))"
proof -
  define f :: "member \<Rightarrow> member" where "f = (\<lambda>m. if mb_coll m = c \<and> mb_node m \<in> set ids then m\<lparr>mb_published := b\<rparr> else m)"
  have one: "same_member c m (f m)" for m by (simp add: same_member_def f_def)
  have "editor_change u c pub ms (map f ms)" for ms
    unfolding editor_change_def list_all_iff list_ex_iff set_map using one by blast
  then have "editor_change u c pub ms (update_where (\<lambda>m. mb_coll m = c \<and> mb_node m \<in> set ids) (\<lambda>m. m\<lparr>mb_published := b\<rparr>) ms)" for ms
    by (simp add: update_where_def f_def)
  then show ?thesis
    by (simp add: repo_setItemPublished_def Let_def fr.ord_refl editor_change_refl)
qed

lemma append_change:
  "\<forall>m \<in> set new. mb_coll m = c \<and> mb_by m = u \<and> mb_source m = From_manual \<and> mb_published m = pub \<Longrightarrow>
    editor_change u c pub ms (ms @ new)"
  by (auto simp: editor_change_def list_all_iff list_ex_iff same_member_def)

lemma add_change:
  assumes "seqs (each_changed (\<lambda>n. insertItem c n u \<lparr>io_published = pub, io_source = From_manual, io_reason = None\<rparr>) ns)
      (\<lambda>added. seqs (repo_touchMemberChange c) (\<lambda>_. ret added)) s = (x, t)"
  shows "framed c s t \<and> editor_change u c pub (members s) (members t)"
  using assms
proof (cases rule: seqs_elim)
  case (stop e)
  then show ?thesis using each_insert [OF stop(1)] append_change by (fastforce simp: fr.ord_refl)
next
  case (go y s1)
  obtain new where new: "s1 = s\<lparr>members := members s @ new\<rparr>"
    "\<forall>m \<in> set new. mb_coll m = c \<and> mb_by m = u \<and> mb_source m = From_manual \<and> mb_published m = pub"
    using each_insert [OF go(1)] by auto
  have t: "t = snd (repo_touchMemberChange c s1)"
    using go(2) by (auto simp: seqs_def ret_def split: prod.splits sum.splits)
  have "framed c s1 t" "members t = members s1" using touch_both [of c s1] t by (simp_all add: same_members_def)
  then show ?thesis using new append_change by simp
qed

lemma delete_run:
  fixes s :: "'d shelf"
  assumes "seqs (each_changed (deleteItem c) ns) (\<lambda>removed.
        seqs (each_changed (insertExclusion c) []) (\<lambda>excluded.
        seqs (if b then repo_setAutoPin c else ret 0) (\<lambda>_.
        seqs (repo_touchMemberChange c) (\<lambda>_. ret (removed, excluded))))) s = (x, t)"
  shows "framed c s t \<and> members t = delete_where (\<lambda>m. mb_coll m = c \<and> mb_node m \<in> set ns) (members s)"
proof -
  let ?s = "s\<lparr>members := delete_where (\<lambda>m. mb_coll m = c \<and> mb_node m \<in> set ns) (members s)\<rparr>"
  obtain ys where ys: "each_changed (deleteItem c) ns s = (Inr ys, ?s)" using each_delete by blast
  define rest :: "('d shelf, nat list \<times> nat list) service" where
    "rest = seqs (if b then repo_setAutoPin c else ret 0) (\<lambda>_.
      seqs (repo_touchMemberChange c) (\<lambda>_. ret (ys, [])))"
  have "rest ?s = (x, t)" using assms ys by (simp add: seqs_def [of "each_changed _ _"] seqs_ret rest_def)
  moreover have "fr.keeps c rest" "sm.keeps rest"
    by (auto simp: rest_def intro!: fr.keeps_rules sm.keeps_rules touch_framed)
  ultimately have "framed c ?s t" "same_members ?s t"
    using fr.keepsD [of c rest ?s] sm.keepsD [of rest ?s] by simp_all
  then show ?thesis by (simp add: same_members_def)
qed

lemma delete_change:
  assumes "\<forall>m \<in> set (members s). mb_coll m = c \<and> mb_node m \<in> set ns \<longrightarrow> mb_by m = u"
    and "seqs (each_changed (deleteItem c) ns) (\<lambda>removed.
        seqs (each_changed (insertExclusion c) []) (\<lambda>excluded.
        seqs (if b then repo_setAutoPin c else ret 0) (\<lambda>_.
        seqs (repo_touchMemberChange c) (\<lambda>_. ret (removed, excluded))))) s = (x, t)"
  shows "framed c s t \<and> editor_change u c pub (members s) (members t)"
  using delete_run [OF assms(2)] assms(1)
  by (auto simp: editor_change_def list_all_iff list_ex_iff same_member_def)

text \<open>An editor's removal is refused unless every id is a member the editor added.\<close>

lemma classify_editor:
  fixes s :: "'d library"
  assumes "classify_removals u c org False ns s = (x, t)"
  shows "t = s \<and> (x = Inl (coll_error ''forbidden'') \<or> x = Inr (ns, [], []) \<and>
    list_all (\<lambda>n. case getStoredItem (jdom s) c n of None \<Rightarrow> False | Some m \<Rightarrow> mb_by m = u) ns)"
  using assms
proof (induction ns arbitrary: x t)
  case Nil
  then show ?case by (simp add: ret_def)
next
  case (Cons n ns)
  obtain y v where y: "classify_removals u c org False ns s = (y, v)" by (cases "classify_removals u c org False ns s")
  show ?case
  proof (cases "case getStoredItem (jdom s) c n of None \<Rightarrow> False | Some m \<Rightarrow> mb_by m = u")
    case True
    then show ?thesis using Cons.prems Cons.IH [OF y] y
      by (auto simp: seqs_in_shelf seqs_guard seqs_def [of "classify_removals _ _ _ _ _"] ret_def split: option.splits)
  next
    case False
    then show ?thesis using Cons.prems by (auto simp: seqs_in_shelf seqs_guard split: option.splits)
  qed
qed

lemma silently_elim:
  assumes "silently m s = (x, t)"
  obtains y where "m s = (y, t)"
proof -
  obtain y v where "m s = (y, v)" by fastforce
  then show ?thesis using assms that by (cases y) (auto simp: silently_def seqs_def ret_def)
qed

text \<open>What the editor's three commands do behind the gate and the role check.\<close>

lemma finish_done:
  assumes "seqs m f s = (x, t)" "\<And>y v. m s = (y, v) \<Longrightarrow> editor_done u c pub s v"
    and "\<And>y. fr.through c (f y)" "\<And>y. sm.through (f y)"
  shows "editor_done u c pub s t"
  using assms(1)
proof (cases rule: seqs_elim)
  case (stop e)
  then show ?thesis using assms(2) by blast
next
  case (go y s1)
  show ?thesis
    using done_after [OF assms(2) [OF go(1)]] fr.through_result [OF assms(3) go(2)] sm.through_result [OF assms(4) go(2)]
    by blast
qed

lemma publish_done:
  assumes "store_setItemPublished env c ids b actor s = (x, t)"
  shows "editor_done u c pub s t"
  using assms unfolding store_setItemPublished_def labelOf_run
  by (rule commit_done_by) (use publish_change in \<open>metis snd_conv\<close>)

lemma addItems_done:
  assumes "store_addItems env c ids u \<lparr>io_published = pub, io_source = From_manual, io_reason = None\<rparr> actor s = (x, t)"
  shows "editor_done u c pub s t"
proof (rule finish_done)
  show "seqs (coll_commit env c actor ''add-items'' (map_option co_name (getCollection (jdom s) c))
        (unit_of (Remove_items c) (map (Remove_item c) (filter (\<lambda>n. getStoredItem (jdom s) c n = None) ids)) False)
        (seqs (each_changed (\<lambda>n. insertItem c n u \<lparr>io_published = pub, io_source = From_manual, io_reason = None\<rparr>)
             (filter (\<lambda>n. getStoredItem (jdom s) c n = None) ids)) (\<lambda>added.
         seqs (repo_touchMemberChange c) (\<lambda>_. ret added))))
        (\<lambda>(added, i). ret (added, filter (\<lambda>n. getStoredItem (jdom s) c n \<noteq> None) ids, i)) s = (x, t)"
    using assms by (simp add: store_addItems_def seqs_in_shelf labelOf_run)
next
  fix y v
  assume a: "coll_commit env c actor ''add-items'' (map_option co_name (getCollection (jdom s) c))
        (unit_of (Remove_items c) (map (Remove_item c) (filter (\<lambda>n. getStoredItem (jdom s) c n = None) ids)) False)
        (seqs (each_changed (\<lambda>n. insertItem c n u \<lparr>io_published = pub, io_source = From_manual, io_reason = None\<rparr>)
             (filter (\<lambda>n. getStoredItem (jdom s) c n = None) ids)) (\<lambda>added.
         seqs (repo_touchMemberChange c) (\<lambda>_. ret added))) s = (y, v)"
  show "editor_done u c pub s v" by (rule commit_done_by [OF a]) (rule add_change)
qed (auto split: prod.split intro!: fr.through_rules sm.through_rules)

lemma removeItems_done:
  assumes "store_removeItems env c ids [] actor s = (x, t)"
    and "\<forall>m \<in> set (members (jdom s)). mb_coll m = c \<and> mb_node m \<in> set ids \<longrightarrow> mb_by m = u"
  shows "editor_done u c pub s t"
  using assms(1) unfolding store_removeItems_def seqs_in_shelf
  by (rule commit_done_by) (rule delete_change [OF assms(2)])

lemma publish_op_done:
  assumes "run_op env fp score u c (Op_publish ids b) s = (x, t)" "sees (jdom s) u c" "getCollection (jdom s) c = Some r"
    and "getRole (jdom s) u c = Some (Role_grant Editor)"
  shows "editor_done u c pub s t"
proof (cases "bad_ids ids")
  case True
  then show ?thesis using assms(1) by (auto simp: publish_def silently_parse intro: done_refl)
next
  case False
  let ?flip = "filter (\<lambda>n. n \<in> set (map mb_node (listStoredItems (jdom s) c None))) ids"
  let ?ign = "filter (\<lambda>n. n \<notin> set (map mb_node (listStoredItems (jdom s) c None))) ids"
  obtain y where y: "publish env u c ids b s = (y, t)"
    using silently_elim [of "publish env u c ids b" s x t] assms(1) by auto
  have eq: "publish env u c ids b s =
      (if ?flip = [] then ret \<lparr>pr_published = [], pr_ignored = ?ign, pr_undo = None\<rparr> s
       else seqs (store_setItemPublished env c ?flip b (decimal u)) (\<lambda>(n, i).
            seqs (touchSystemAutoPin r) (\<lambda>_. ret \<lparr>pr_published = ?flip, pr_ignored = ?ign, pr_undo = Some i\<rparr>)) s)"
    using False assms(2-4)
    by (simp add: publish_def parse_seqs bad_ids_def gate_seqs seqs_in_shelf Let_def role_seqs [OF assms(2,3)])
  have id: "co_id r = c" using getCollection_id [OF assms(3)] by simp
  show ?thesis
  proof (cases "?flip = []")
    case True
    then show ?thesis using y eq by (auto simp: ret_def intro: done_refl)
  next
    case False
    then have run: "seqs (store_setItemPublished env c ?flip b (decimal u)) (\<lambda>(n, i).
            seqs (touchSystemAutoPin r) (\<lambda>_. ret \<lparr>pr_published = ?flip, pr_ignored = ?ign, pr_undo = Some i\<rparr>)) s = (y, t)"
      using y eq by simp
    show ?thesis
      by (rule finish_done [OF run])
        (auto split: prod.split intro!: publish_done fr.through_rules sm.through_rules autopin_framed simp: id)
  qed
qed

lemma add_op_done:
  assumes "run_op env fp score u c (Op_add ids) s = (x, t)" "sees (jdom s) u c" "getCollection (jdom s) c = Some r"
    and "getRole (jdom s) u c = Some (Role_grant Editor)"
  shows "editor_done u c (co_mode r = Mode_auto) s t"
proof (cases "bad_ids ids")
  case True
  then show ?thesis using assms(1) by (auto simp: coll_addItems_def silently_parse intro: done_refl)
next
  case False
  have id: "co_id r = c" using getCollection_id [OF assms(3)] by simp
  obtain y where y: "coll_addItems env u c ids s = (y, t)"
    using silently_elim [of "coll_addItems env u c ids" s x t] assms(1) by auto
  let ?store = "\<lambda>addable. store_addItems env c addable u
      \<lparr>io_published = (co_mode r = Mode_auto), io_source = From_manual, io_reason = None\<rparr> (decimal u)"
  have "coll_addItems env u c ids s = seqs (readable_ids u ids) (\<lambda>(addable, rejected).
      seqs (?store addable) (\<lambda>(added, already, i). seqs (touchSystemAutoPin r) (\<lambda>_.
      ret \<lparr>ar_added = added, ar_already = already, ar_rejected = rejected, ar_undo = i\<rparr>))) s"
    using False assms(2-4)
    by (simp add: coll_addItems_def parse_seqs bad_ids_def gate_seqs role_seqs [OF assms(2,3)])
  then have run: "seqs (readable_ids u ids) (\<lambda>(addable, rejected).
      seqs (?store addable) (\<lambda>(added, already, i). seqs (touchSystemAutoPin r) (\<lambda>_.
      ret \<lparr>ar_added = added, ar_already = already, ar_rejected = rejected, ar_undo = i\<rparr>))) s = (y, t)"
    using y by simp
  show ?thesis
  proof (cases rule: seqs_elim [OF run])
    case (1 e)
    show ?thesis
      by (rule done_before [OF fr.through_result [OF readable_framed(1) 1(1)] sm.through_result [OF readable_framed(2) 1(1)]])
        (simp add: done_refl)
  next
    case (2 z s1)
    obtain addable rejected where z: "z = (addable, rejected)" by fastforce
    have go: "seqs (?store addable) (\<lambda>(added, already, i). seqs (touchSystemAutoPin r) (\<lambda>_.
        ret \<lparr>ar_added = added, ar_already = already, ar_rejected = rejected, ar_undo = i\<rparr>)) s1 = (y, t)"
      using 2(2) z by simp
    have "editor_done u c (co_mode r = Mode_auto) s1 t"
      by (rule finish_done [OF go])
        (auto split: prod.split intro!: addItems_done fr.through_rules sm.through_rules autopin_framed simp: id)
    then show ?thesis
      by (rule done_before [OF fr.through_result [OF readable_framed(1) 2(1)] sm.through_result [OF readable_framed(2) 2(1)]])
  qed
qed

lemma stored_row:
  assumes "shelf_ok s" "m \<in> set (members s)" "mb_coll m = c" "mb_node m = n"
  shows "getStoredItem s c n = Some m"
  unfolding getStoredItem_def
  by (rule first_row_filter_unique [where g = "\<lambda>m. (mb_coll m, mb_node m)"])
    (use assms shelf_okD(4) [OF assms(1)] in \<open>auto simp: keyed_def\<close>)

lemma remove_op_done:
  assumes "run_op env fp score u c (Op_remove ids) s = (x, t)" "sees (jdom s) u c" "getCollection (jdom s) c = Some r"
    and "getRole (jdom s) u c = Some (Role_grant Editor)" "shelf_ok (jdom s)"
  shows "editor_done u c pub s t"
proof (cases "bad_ids ids")
  case True
  then show ?thesis using assms(1) by (auto simp: coll_removeItems_def silently_parse intro: done_refl)
next
  case False
  obtain y where y: "coll_removeItems env u c ids s = (y, t)"
    using silently_elim [of "coll_removeItems env u c ids" s x t] assms(1) by auto
  let ?k = "\<lambda>(dels, exs, ign). seqs (store_removeItems env c dels exs (decimal u)) (\<lambda>((removed, excluded), i).
      ret (removed, excluded, ign, i))"
  have "coll_removeItems env u c ids s = seqs (classify_removals u c (co_origin r) False ids) ?k s"
    using False assms(2-4)
    by (simp add: coll_removeItems_def parse_seqs bad_ids_def gate_seqs role_seqs [OF assms(2,3)])
  then have run: "seqs (classify_removals u c (co_origin r) False ids) ?k s = (y, t)" using y by simp
  show ?thesis
  proof (cases rule: seqs_elim [OF run])
    case (1 e)
    then show ?thesis using classify_editor [OF 1(1)] by (auto intro: done_refl)
  next
    case (2 z s1)
    have z: "s1 = s" "z = (ids, [], [])"
      "list_all (\<lambda>n. case getStoredItem (jdom s) c n of None \<Rightarrow> False | Some m \<Rightarrow> mb_by m = u) ids"
      using classify_editor [OF 2(1)] by auto
    have own: "\<forall>m \<in> set (members (jdom s)). mb_coll m = c \<and> mb_node m \<in> set ids \<longrightarrow> mb_by m = u"
      using z(3) stored_row [OF assms(5)] by (fastforce simp: list_all_iff split: option.splits)
    have go: "seqs (store_removeItems env c ids [] (decimal u)) (\<lambda>((removed, excluded), i).
        ret (removed, excluded, [], i)) s = (y, t)"
      using 2(2) z by simp
    show ?thesis
      by (rule finish_done [OF go])
        (auto split: prod.split intro!: removeItems_done [OF _ own] fr.through_rules sm.through_rules)
  qed
qed

section \<open>A shelf for the witnesses\<close>

text \<open>Collection 1 of user 7 with one parked member; user 9 is an editor, user 10 a viewer, user 11 neither.\<close>

definition demo_coll :: "unit collection" where
  "demo_coll = \<lparr>co_id = 1, co_owner = 7, co_name = ''trips'', co_locked = False, co_origin = Origin_user,
     co_status = Coll_active, co_def = None, co_mode = Mode_ask, co_pinned = False, co_pinner = None,
     co_archived = None, co_changed = None, co_created = 0, co_updated = 0\<rparr>"

definition demo_shelf :: "unit shelf" where
  "demo_shelf = \<lparr>
     acl = demo_acl\<lparr>pdb := (pdb demo_acl)\<lparr>users := map (\<lambda>(i, nm). demo_user i nm False)
       [(7, ''ann''), (9, ''ed''), (10, ''vi''), (11, ''out'')]\<rparr>\<rparr>,
     collections = [demo_coll],
     members = [\<lparr>mb_coll = 1, mb_node = 2, mb_by = 7, mb_published = False, mb_source = From_manual,
       mb_reason = None, mb_created = 0\<rparr>],
     exclusions = [],
     coll_grants = [\<lparr>cg_coll = 1, cg_user = 9, cg_role = Editor, cg_by = 7, cg_created = 0\<rparr>,
       \<lparr>cg_coll = 1, cg_user = 10, cg_role = Viewer, cg_by = 7, cg_created = 0\<rparr>],
     visibility = [], digest_cursors = [], tombstones = [], suggestions = [], next_coll = 2, next_sugg = 1\<rparr>"

definition demo_library :: "unit library" where
  "demo_library = \<lparr>jlocks = \<lparr>lclock = 0, lrows = []\<rparr>, jrows = [], jnext = 1, jdom = demo_shelf, jdraws = 0\<rparr>"

definition coll_env :: journal_env where
  "coll_env = \<lparr>e_backend = Postgresql, e_sha = (\<lambda>x. x), e_token = (\<lambda>n. ''token''), e_owner = ''host'',
     e_nap = (\<lambda>n l. l)\<rparr>"

lemma demo_shelf_ok: "shelf_ok demo_shelf"
  by (simp add: shelf_ok_def rows_ok_def keyed_def active_names_def demo_shelf_def demo_coll_def)

section \<open>Properties\<close>



text \<open>C10: What an editor's commands can change, succeed or fail. Of the tables only the members, and of the
  collection's own row only its instants and its pin: name, owner, publication mode, status, definition,
  grants and every other collection stay. A member row disappears only when the editor had added it; a new
  row is the editor's, added by hand, and published only if the collection publishes on its own; of any
  other member of the collection at most the publication flag changes.\<close>

theorem editor_limits:
  assumes "run_op env fp score u c op s = (x, t)" "editor_op op"
    and "getRole (jdom s) u c = Some (Role_grant Editor)" "getCollection (jdom s) c = Some r" "shelf_ok (jdom s)"
  shows "framed c (jdom s) (jdom t) \<and>
    editor_change u c (co_mode r = Mode_auto) (members (jdom s)) (members (jdom t))"
proof (cases "sees (jdom s) u c")
  case False
  then have "t = s" using outsider [OF False] assms(1) by (auto split: if_splits)
  then show ?thesis by (simp add: fr.ord_refl editor_change_refl)
next
  case True
  have "editor_done u c (co_mode r = Mode_auto) s t"
    using assms True by (cases op)
      (auto intro: publish_op_done add_op_done remove_op_done simp del: run_op.simps)
  then show ?thesis by (simp add: editor_done_def)
qed

theorem editor_limits_witness:
  "co_name (hd (collections (jdom (snd (run_op coll_env (\<lambda>_. []) (\<lambda>_. 0) 9 1 (Op_publish [2] True) demo_library)))))
     = ''trips'' \<and>
   map mb_published (members (jdom (snd (run_op coll_env (\<lambda>_. []) (\<lambda>_. 0) 9 1 (Op_publish [2] True) demo_library)))) = [True]"
proof -
  obtain x t where r: "run_op coll_env (\<lambda>_. []) (\<lambda>_. 0) 9 1 (Op_publish [2] True) demo_library = (x, t)" by fastforce
  have "getRole (jdom demo_library) 9 1 = Some (Role_grant Editor)" "getCollection (jdom demo_library) 1 = Some demo_coll"
    by code_simp+
  from editor_limits [OF r _ this] have "framed 1 demo_shelf (jdom t)"
    using demo_shelf_ok by (simp add: demo_library_def)
  moreover have "collections demo_shelf = [demo_coll]" by (simp add: demo_shelf_def)
  ultimately have "list_all2 (row_touched 1) [demo_coll] (collections (jdom t))" by (simp add: framed_def)
  then have "co_name (hd (collections (jdom t))) = co_name demo_coll"
    by (auto simp: list_all2_Cons1 dest: touched_core)
  then have "co_name (hd (collections (jdom t))) = ''trips''" by (simp add: demo_coll_def)
  moreover have "map mb_published (members (jdom (snd
      (run_op coll_env (\<lambda>_. []) (\<lambda>_. 0) 9 1 (Op_publish [2] True) demo_library)))) = [True]"
    by code_simp
  ultimately show ?thesis using r by simp
qed

text \<open>
  What happens to the tables: the operations of users, the nightly pass with its system commands, the undo,
  and the rest of the program, which changes the tables of users, nodes and permissions.
\<close>

inductive coll_step :: "'d library \<Rightarrow> 'd library \<Rightarrow> bool" where
  operated: "coll_step s (snd (run_op env fp score u c op s))"
| created: "coll_step s (snd (coll_create env u nm s))"
| added: "coll_step s (snd (store_createCollection env u nm org md df a s))"
| merged: "coll_step s (snd (coll_merge env u x y s))"
| settled: "coll_step s (snd (settle_suggestion st u x y s))"
| suggested: "coll_step s (snd (store_upsertMergeSuggestion x y sc verdict why s))"
| reopened: "coll_step s (snd (store_reopenMergeSuggestion i sc' s))"
| item_added: "coll_step s (snd (store_addItem env c n u opt a s))"
| item_removed: "coll_step s (snd (store_removeItem env c n a s))"
| excluded: "coll_step s (snd (store_addExclusion env c n a s))"
| included: "coll_step s (snd (store_removeExclusion env c n a s))"
| renamed: "coll_step s (snd (store_renameCollection env c nm lk a s))"
| archived: "coll_step s (snd (store_archiveCollection env c a s))"
| unpinned: "coll_step s (snd (store_clearAutoPin c s))"
| undone: "coll_step s (snd (undo_action env u i b s))"
| outside: "coll_step s (s\<lparr>jdom := (jdom s)\<lparr>acl := p\<rparr>\<rparr>)"

lemma silently_sound: "so.through m \<Longrightarrow> so.through (silently m)"
  unfolding silently_def by (intro so.through_rules)

lemma run_op_sound: "so.through (run_op env fp score u c op)"
  by (cases op) (simp_all add: silently_sound service_sound update_sound properties_sound gate_sound)

lemma outside_sound: "sound (jdom s) (jdom (s\<lparr>jdom := (jdom s)\<lparr>acl := p\<rparr>\<rparr>))"
  by (simp add: sound_def ok_tables(7))

lemma coll_step_sound: "coll_step s t \<Longrightarrow> sound (jdom s) (jdom t)"
  by (induction rule: coll_step.induct)
    (intro so.throughD run_op_sound service_sound store_sound undo_sound outside_sound)+

lemma coll_steps_sound: "coll_step\<^sup>*\<^sup>* s t \<Longrightarrow> sound (jdom s) (jdom t)"
  by (induction rule: rtranclp_induct) (auto dest: coll_step_sound simp: sound_def)



end
