(* ===== verification/CollUndo.thy ===== *)
theory CollUndo
  imports CollProps
begin

text \<open>
  Undo over collections: the executor on the rows that commands have just appended, what the undo of a
  removal leaves, and what an editor regains by undoing with the later changes.
\<close>

section \<open>Ids in texts\<close>

lemma digits_value_append:
  "digits_value a (xs @ [c]) =
     (case digits_value a xs of None \<Rightarrow> None
      | Some v \<Rightarrow> let n = of_char c :: nat in if 48 \<le> n \<and> n \<le> 57 then Some (v * 10 + (n - 48)) else None)"
  by (induction a xs rule: digits_value.induct) (auto simp: Let_def)

lemma digits_value_decimal: "digits_value 0 (decimal n) = Some n"
proof (induction n rule: decimal.induct)
  case (1 n)
  have d: "(of_char (char_of (48 + k) :: char) :: nat) = 48 + k" if "k < 10" for k :: nat
    using that by (simp add: of_char_of)
  show ?case
  proof (cases "n < 10")
    case True
    then show ?thesis by (subst decimal.simps) (simp add: d)
  next
    case False
    then show ?thesis using 1 d [of "n mod 10"]
      by (subst decimal.simps) (simp add: digits_value_append)
  qed
qed

lemma numericActor_decimal: "numericActorOr (decimal u) w = (if u > 0 then u else w)"
proof -
  have "decimal u \<noteq> []" by (subst decimal.simps) simp
  then show ?thesis by (simp add: numericActorOr_def id_of_def digits_value_decimal)
qed

section \<open>The undo of the last rows of a subject\<close>

lemma appended_done:
  assumes "appended ''collection'' sub meta p i s t"
  shows "commit_done ''collection'' sub p s i (getMaxChainSeq s ''collection'' sub + 1) t"
  using assms collection_domain by (auto simp: appended_def journal_row_def commit_done_def)

lemma undo_run:
  assumes "journal_ok t" "jrows t = jrows s @ row # rest"
    and "chain_rows ''collection'' sub (getMaxChainSeq s ''collection'' sub) (row # rest)"
    and "\<forall>w. jdom w = jdom t \<longrightarrow>
      (\<exists>n sk u. run_executor applyCollectionInverse (rev (row # rest)) 0 [] w = (Inr (n, sk), u) \<and> P (jdom u))"
    and "undoAction env collection_executors (a_id row) True t = (x, v)"
  shows "(\<exists>e name. x = Inl e \<and> lock_answer env name t = Inl e \<and> same_core t v) \<or>
    (\<exists>n sk. x = Inr (Undone n sk (map a_id (rev (row # rest)))) \<and> P (jdom v))"
proof -
  have get: "getAction t (a_id row) = Some row"
    by (rule getAction_Some [OF assms(1)]) (use assms(2) in simp)
  have r: "a_status row = Act_applied" "a_domain row = ''collection''"
    using assms(3) by (auto simp: chain_rows_def of_subject_def)
  let ?name = "journal_lock (a_domain row) (a_subject row)"
  have run: "with_lock env ?name (in_tx (undo_body collection_executors (a_id row) True)) t = (x, v)"
    using assms(5) get by (simp add: undoAction_def seqs_reads)
  show ?thesis
  proof (cases rule: with_lock_cases [of env ?name "in_tx (undo_body collection_executors (a_id row) True)" t])
    case (refused e l)
    then show ?thesis using run by (auto intro!: exI [of _ ?name])
  next
    case (held l l' y u)
    let ?t = "t\<lparr>jlocks := l, jdraws := Suc (jdraws t)\<rparr>"
    have core: "same_core t ?t" by (rule same_core_locks)
    have scope: "undo_scope ?t row True = rev (row # rest)"
      using reads_core(4) [OF core] settings.scope_of_chain [OF assms(2,3) refl] by simp
    have "jdom ?t = jdom t" by simp
    then obtain n sk w where w: "run_executor applyCollectionInverse (rev (row # rest)) 0 [] ?t = (Inr (n, sk), w)" "P (jdom w)"
      using assms(4) by blast
    have "undo_body collection_executors (a_id row) True ?t = undo_rows collection_executors ''collection'' (rev (row # rest)) ?t"
      using get r scope reads_core(1) [OF core] by (simp add: undo_body_def seqs_reads undo_scope_def)
    also have "\<dots> = (Inr (Undone n sk (map a_id (rev (row # rest)))), snd (markUndone (map a_id (rev (row # rest))) w))"
      using w(1) by (simp add: undo_rows_def collection_executors_def seqs_def markUndone_def ret_def Let_def)
    finally have "y = Inr (Undone n sk (map a_id (rev (row # rest))))"
      "u = snd (markUndone (map a_id (rev (row # rest))) w)"
      using held(1) by (simp_all add: in_tx_def)
    then show ?thesis using held(2) run w(2) by (simp add: markUndone_def Let_def)
  qed
qed

text \<open>A user sees the rows the user has written.\<close>

lemma own_row_visible: "a_actor row = decimal u \<Longrightarrow> isVisibleTo s u row"
proof -
  have "CHR ''s'' \<notin> set (decimal u)" using decimal_digits [of u] by auto
  then have "decimal u \<noteq> ''system''" by (metis list.set_intros(1))
  then show "a_actor row = decimal u \<Longrightarrow> ?thesis" by (simp add: isVisibleTo_def)
qed

lemma own_undo_run:
  assumes "journal_ok t" "jrows t = jrows s @ row # rest" "a_actor row = decimal u"
    and "chain_rows ''collection'' sub (getMaxChainSeq s ''collection'' sub) (row # rest)"
    and "\<forall>w. jdom w = jdom t \<longrightarrow>
      (\<exists>n sk u. run_executor applyCollectionInverse (rev (row # rest)) 0 [] w = (Inr (n, sk), u) \<and> P (jdom u))"
    and "undo_action env u (a_id row) True t = (x, v)"
  shows "(\<exists>e name. x = Inl e \<and> lock_answer env name t = Inl e \<and> same_core t v) \<or> (\<exists>rep. x = Inr rep \<and> P (jdom v))"
proof -
  obtain y v' where y: "undoAction env collection_executors (a_id row) True t = (y, v')" by fastforce
  have get: "getAction t (a_id row) = Some row"
    by (rule getAction_Some [OF assms(1)]) (use assms(2) in simp)
  have eq: "undo_action env u (a_id row) True t = (case y of Inl e \<Rightarrow> (Inl e, v') | Inr r \<Rightarrow> undo_outcome (a_id row) r v')"
    using y get
    by (simp add: undo_action_def seqs_reads seqs_in_shelf seqs_def [of "undoAction _ _ _ _"] own_row_visible [OF assms(3)])
  from undo_run [OF assms(1,2,4,5) y] show ?thesis
  proof (elim disjE exE conjE)
    fix e name assume "y = Inl e" "lock_answer env name t = Inl e" "same_core t v'"
    then show ?thesis using eq assms(6) by auto
  next
    fix n sk assume "y = Inr (Undone n sk (map a_id (rev (row # rest))))" "P (jdom v')"
    then show ?thesis using eq assms(6) by (auto simp: undo_outcome_def seqs_reads ret_def)
  qed
qed

section \<open>The undo of a removal\<close>

lemma framed_collection:
  assumes "framed c s t" "getCollection s k = Some r"
  shows "\<exists>r'. getCollection t k = Some r' \<and> co_owner r' = co_owner r"
proof -
  have "first_row (filter (\<lambda>r. co_id r = k) ys) = Some r' \<longrightarrow>
      (\<exists>q. first_row (filter (\<lambda>r. co_id r = k) zs) = Some q \<and> co_owner q = co_owner r')"
    if "list_all2 (row_touched c) ys zs" for ys zs :: "'a collection list" and r'
    using that by (induction rule: list_all2_induct) (auto simp: first_row_def dest: touched_core)
  then show ?thesis using assms by (auto simp: framed_def getCollection_def)
qed

lemma readd_run:
  assumes "getCollection d c = Some r" "co_owner r = u" "has_user (shelf_db d) u"
    and "\<forall>n \<in> set ids. has_node (shelf_db d) n"
  shows "\<exists>outs new. apply_unit False a dr (map (\<lambda>n. Add_item c n (decimal u)) ids) d =
      (Inr outs, d\<lparr>members := members d @ new\<rparr>) \<and>
    (\<forall>m \<in> set new. mb_coll m = c \<and> mb_node m \<in> set ids \<and> mb_by m = u \<and> mb_published m \<and>
       mb_source m = From_manual \<and> mb_reason m = None) \<and>
    (\<forall>n \<in> set ids. \<exists>m \<in> set (members d @ new). mb_coll m = c \<and> mb_node m = n)"
  using assms
proof (induction ids arbitrary: d)
  case Nil
  then show ?case by (intro exI [of _ "[]"]) (simp add: ret_def)
next
  case (Cons n ids)
  have has: "has_collection d c" using Cons.prems(1) by (simp add: getCollection_has)
  obtain k new1 where one: "insertItem c n u \<lparr>io_published = True, io_source = From_manual, io_reason = None\<rparr> d =
      (Inr k, d\<lparr>members := members d @ new1\<rparr>)"
    "\<forall>m \<in> set new1. mb_coll m = c \<and> mb_node m = n \<and> mb_by m = u \<and> mb_published m \<and> mb_source m = From_manual \<and> mb_reason m = None"
    "\<exists>m \<in> set (members d @ new1). mb_coll m = c \<and> mb_node m = n"
  proof (cases "getStoredItem d c n")
    case None
    let ?m = "\<lparr>mb_coll = c, mb_node = n, mb_by = u, mb_published = True, mb_source = From_manual,
      mb_reason = None, mb_created = shelf_now d\<rparr>"
    show ?thesis
      by (rule that [of 1 "[?m]"]) (use None has Cons.prems in \<open>simp_all add: insertItem_def\<close>)
  next
    case (Some m)
    then have "(c, n) \<in> (\<lambda>m. (mb_coll m, mb_node m)) ` set (members d)"
      using getStoredItem_None [of d c n] by auto
    then show ?thesis
      by (intro that [of 0 "[]"]) (use Some in \<open>auto simp: insertItem_def\<close>)
  qed
  let ?d = "d\<lparr>members := members d @ new1\<rparr>"
  have "getCollection ?d c = Some r" "shelf_db ?d = shelf_db d"
    using Cons.prems(1) by (simp_all add: getCollection_def shelf_db_def)
  then obtain outs new where rest: "apply_unit False a dr (map (\<lambda>n. Add_item c n (decimal u)) ids) ?d =
      (Inr outs, ?d\<lparr>members := members ?d @ new\<rparr>)"
    "\<forall>m \<in> set new. mb_coll m = c \<and> mb_node m \<in> set ids \<and> mb_by m = u \<and> mb_published m \<and>
       mb_source m = From_manual \<and> mb_reason m = None"
    "\<forall>n \<in> set ids. \<exists>m \<in> set (members ?d @ new). mb_coll m = c \<and> mb_node m = n"
    using Cons.IH [of ?d] Cons.prems by auto
  have "numericActorOr (decimal u) u = u" by (simp add: numericActor_decimal)
  then have "applyInverseTx (Add_item c n (decimal u)) a dr d = (Inr (outcomeFromChanges k), ?d)"
    using one(1) Cons.prems(1,2) by (simp add: applyInverseTx_def if_exists_def seqs_def reads_def ret_def)
  then have "apply_unit False a dr (map (\<lambda>n. Add_item c n (decimal u)) (n # ids)) d =
      (Inr (outcomeFromChanges k # outs), d\<lparr>members := members d @ new1 @ new\<rparr>)"
    using rest(1) by (simp add: seqs_def ret_def)
  then show ?case using one(2,3) rest(2,3)
    by (intro exI [of _ "outcomeFromChanges k # outs"] exI [of _ "new1 @ new"]) fastforce
qed

lemma classify_owner:
  fixes s :: "'d library"
  assumes "\<forall>n \<in> set ns. getStoredItem (jdom s) c n \<noteq> None"
  shows "classify_removals u c org True ns s = (Inr (ns, [], []), s)"
  using assms
  by (induction ns) (auto simp: seqs_in_shelf seqs_guard seqs_def [of "classify_removals _ _ _ _ _"] ret_def)

lemma removal_committed:
  fixes s :: "'d library"
  assumes "coll_removeItems env u c ids s = (Inr (removed, excluded, ignored, i), t)"
    and "getRole (jdom s) u c = Some Role_owner" "\<forall>n \<in> set ids. getStoredItem (jdom s) c n \<noteq> None"
  shows "ids \<noteq> [] \<and> framed c (jdom s) (jdom t) \<and>
    members (jdom t) = delete_where (\<lambda>m. mb_coll m = c \<and> mb_node m \<in> set ids) (members (jdom s)) \<and>
    (\<exists>label. appended ''collection'' (collection_subject c)
       \<lparr>m_actor = decimal u, m_action = ''remove-items'', m_label = label\<rparr>
       (unit_of (Remove_items c) (map (\<lambda>n. Add_item c n (decimal u)) ids) False) i s t)"
proof -
  obtain r where r: "getCollection (jdom s) c = Some r" "co_owner r = u"
    using assms(2) by (auto simp: getRole_def split: option.splits if_splits)
  then have sees: "sees (jdom s) u c" by (simp add: sees_def)
  have ids: "\<not> bad_ids ids" using assms(1) by (auto simp: coll_removeItems_def parse_seqs bad_ids_def split: if_splits)
  have "coll_removeItems env u c ids s =
      seqs (store_removeItems env c ids [] (decimal u)) (\<lambda>((removed, excluded), i). ret (removed, excluded, [], i)) s"
    using ids sees r assms(2)
    by (simp add: coll_removeItems_def parse_seqs bad_ids_def gate_seqs role_seqs [OF sees r(1)]
        seqs_def [of "classify_removals _ _ _ _ _"] classify_owner [OF assms(3)])
  then obtain y where y: "store_removeItems env c ids [] (decimal u) s = (Inr (y, i), t)"
    using assms(1) by (auto simp: seqs_def ret_def split: prod.splits sum.splits)
  note commit = y [unfolded store_removeItems_def seqs_in_shelf]
  show ?thesis
  proof (cases rule: coll_commit_cases [OF commit])
    case (3 r' j)
    then show ?thesis using delete_run [OF 3(2)] ids by (auto simp: bad_ids_def)
  qed auto
qed

text \<open>C21: What the undo of a removal leaves. When the owner of a collection removes members by hand and undoes that,
  the undo fails only if the lock is refused, and then every removed node is a member again, added by the
  owner by hand, without a reason and published, whatever the removed row said: a member that was waiting
  for publication is visible to the grantees after the undo. All other members are as before the removal.\<close>

theorem removal_undo_publishes:
  fixes s :: "'d library"
  assumes "coll_removeItems env u c ids s = (Inr (removed, excluded, ignored, i), t)"
    and "undo_action env' u i True t = (x, v)" "journal_ok s" "getRole (jdom s) u c = Some Role_owner"
    and "\<forall>n \<in> set ids. getStoredItem (jdom s) c n \<noteq> None \<and> has_node (shelf_db (jdom s)) n"
    and "has_user (shelf_db (jdom s)) u"
  shows "(\<exists>e name. x = Inl e \<and> lock_answer env' name t = Inl e \<and> same_core t v) \<or>
    (\<exists>rep. x = Inr rep \<and>
      (\<forall>n \<in> set ids. \<exists>m \<in> set (members (jdom v)). mb_coll m = c \<and> mb_node m = n) \<and>
      (\<forall>m \<in> set (members (jdom v)). mb_coll m = c \<and> mb_node m \<in> set ids \<longrightarrow>
         mb_by m = u \<and> mb_published m \<and> mb_source m = From_manual \<and> mb_reason m = None) \<and>
      delete_where (\<lambda>m. mb_coll m = c \<and> mb_node m \<in> set ids) (members (jdom v)) =
        delete_where (\<lambda>m. mb_coll m = c \<and> mb_node m \<in> set ids) (members (jdom s)))"
proof -
  let ?sub = "collection_subject c" and ?gone = "\<lambda>m. mb_coll m = c \<and> mb_node m \<in> set ids"
  let ?items = "map (\<lambda>n. Add_item c n (decimal u)) ids :: 'd inverse list"
  from removal_committed [OF assms(1,4)] assms(5) obtain label where gone:
    "ids \<noteq> []" "framed c (jdom s) (jdom t)" "members (jdom t) = delete_where ?gone (members (jdom s))"
    "appended ''collection'' ?sub \<lparr>m_actor = decimal u, m_action = ''remove-items'', m_label = label\<rparr>
       (unit_of (Remove_items c) ?items False) i s t"
    by auto
  then obtain row where row: "jrows t = jrows s @ [row]" "a_id row = i" "a_actor row = decimal u"
    "a_payload row = Some (unit_of (Remove_items c) ?items False)"
    "chain_rows ''collection'' ?sub (getMaxChainSeq s ''collection'' ?sub) [row]"
    by (auto simp: appended_def journal_row_def committed_row_def chain_rows_def of_subject_def)
  have ok: "journal_ok t" using commit_done_ok [OF assms(3) appended_done [OF gone(4)]] .
  obtain r where r: "getCollection (jdom t) c = Some r" "co_owner r = u"
    using assms(4) framed_collection [OF gone(2)]
    by (fastforce simp: getRole_def split: option.splits if_splits)
  have db: "shelf_db (jdom t) = shelf_db (jdom s)" using gone(2) by (simp add: framed_def)
  obtain outs new where run: "apply_unit False (decimal u) ([], []) ?items (jdom t) =
      (Inr outs, (jdom t)\<lparr>members := members (jdom t) @ new\<rparr>)"
    "\<forall>m \<in> set new. mb_coll m = c \<and> mb_node m \<in> set ids \<and> mb_by m = u \<and> mb_published m \<and>
       mb_source m = From_manual \<and> mb_reason m = None"
    "\<forall>n \<in> set ids. \<exists>m \<in> set (members (jdom t) @ new). mb_coll m = c \<and> mb_node m = n"
    using readd_run [OF r, of ids "decimal u" "([], [])"] assms(5,6) db by auto
  have exec: "\<forall>w. jdom w = jdom t \<longrightarrow>
      (\<exists>n sk z. run_executor applyCollectionInverse (rev [row]) 0 [] w = (Inr (n, sk), z) \<and>
        jdom z = (jdom t)\<lparr>members := members (jdom t) @ new\<rparr>)"
    using row(3,4) run(1) gone(1)
    by (simp add: applyCollectionInverse_def unit_of_def seqs_def on_domain_def ret_def)
  have undo: "undo_action env' u (a_id row) True t = (x, v)" using assms(2) row(2) by simp
  from own_undo_run [where P = "\<lambda>d. d = (jdom t)\<lparr>members := members (jdom t) @ new\<rparr>", OF ok row(1,3,5) exec undo]
  show ?thesis
  proof (elim disjE exE conjE)
    fix rep assume "x = Inr rep" "jdom v = (jdom t)\<lparr>members := members (jdom t) @ new\<rparr>"
    moreover from this have "members (jdom v) = delete_where ?gone (members (jdom s)) @ new" using gone(3) by simp
    moreover have "delete_where ?gone new = []" using run(2) by (auto simp: delete_where_def filter_empty_conv)
    ultimately show ?thesis
      using run(2,3) gone(3) by (intro disjI2 exI [of _ rep]) (auto simp: delete_where_def)
  qed blast
qed

theorem removal_undo_publishes_witness:
  "map mb_published (members (jdom demo_library)) = [False] \<and>
   map mb_published (members (jdom (snd (undo_action coll_env 7 1 True
     (snd (coll_removeItems coll_env 7 1 [2] demo_library)))))) = [True]"
proof -
  obtain y t where r: "coll_removeItems coll_env 7 1 [2] demo_library = (y, t)" by fastforce
  have "fst (coll_removeItems coll_env 7 1 [2] demo_library) = Inr ([2], [], [], 1)" by code_simp
  then have r': "coll_removeItems coll_env 7 1 [2] demo_library = (Inr ([2], [], [], 1), t)" using r by simp
  obtain x v where u: "undo_action coll_env 7 1 True t = (x, v)" by fastforce
  have facts: "journal_ok demo_library" "getRole (jdom demo_library) 7 1 = Some Role_owner"
    "\<forall>n \<in> set [2]. getStoredItem (jdom demo_library) 1 n \<noteq> None \<and> has_node (shelf_db (jdom demo_library)) n"
    "has_user (shelf_db (jdom demo_library)) 7"
    by (simp add: journal_ok_def demo_library_def) code_simp+
  have "isl (fst (undo_action coll_env 7 1 True (snd (coll_removeItems coll_env 7 1 [2] demo_library)))) = False"
    "map (\<lambda>m. (mb_coll m, mb_node m)) (members (jdom (snd (undo_action coll_env 7 1 True
      (snd (coll_removeItems coll_env 7 1 [2] demo_library)))))) = [(1, 2)]"
    "map mb_published (members (jdom demo_library)) = [False]"
    by code_simp+
  moreover from removal_undo_publishes [OF r' u facts]
  have "isl x \<or> (\<forall>m \<in> set (members (jdom v)). mb_coll m = 1 \<and> mb_node m = 2 \<longrightarrow> mb_published m)" by auto
  ultimately show ?thesis using r u by auto
qed

section \<open>Undo with the later changes\<close>

lemma touch_rows:
  "jrows (snd (touchSystemAutoPin r s)) = jrows s" "jnext (snd (touchSystemAutoPin r s)) = jnext s"
  by (auto simp: touchSystemAutoPin_def store_setAutoPin_def shelf_tx_def on_domain_def seqs_def ret_def
      split: prod.split sum.split)

lemma appended_rows:
  "appended dm sub meta p i s s' \<Longrightarrow> jrows t = jrows s' \<Longrightarrow> jnext t = jnext s' \<Longrightarrow> appended dm sub meta p i s t"
  by (auto simp: appended_def)

lemma flipped_member:
  assumes "m \<in> set (members s)" "mb_coll m = c" "mb_node m \<in> set ids"
  shows "m\<lparr>mb_published := b\<rparr> \<in> set (members (snd (repo_setItemPublished c ids b s)))"
proof -
  have "ids \<noteq> []" using assms(3) by auto
  then show ?thesis using assms
    by (auto simp: repo_setItemPublished_def Let_def set_update_where image_iff intro!: bexI [of _ m])
qed

lemma publish_row:
  fixes s :: "'d library"
  assumes "publish env u c ids b s = (Inr rep, t)" "pr_undo rep = Some i"
    and "getRole (jdom s) u c = Some (Role_grant Editor)"
  shows "framed c (jdom s) (jdom t) \<and>
    (\<exists>label ids'. appended ''collection'' (collection_subject c)
       \<lparr>m_actor = decimal u, m_action = ''set-items-published'', m_label = label\<rparr>
       (single (Set_items_published c ids' (\<not> b))) i s t \<and>
     (\<exists>m \<in> set (members (jdom t)). mb_coll m = c \<and> mb_node m \<in> set ids'))"
proof -
  have parsed: "\<not> bad_ids ids" and sees: "sees (jdom s) u c"
    using assms(1) by (auto simp: publish_def parse_seqs bad_ids_def gate_seqs split: if_splits)
  obtain r where r: "getCollection (jdom s) c = Some r" using sees by (auto simp: sees_def split: option.splits)
  let ?flip = "filter (\<lambda>n. n \<in> set (map mb_node (listStoredItems (jdom s) c None))) ids"
  let ?ign = "filter (\<lambda>n. n \<notin> set (map mb_node (listStoredItems (jdom s) c None))) ids"
  have "publish env u c ids b s =
      (if ?flip = [] then ret \<lparr>pr_published = [], pr_ignored = ?ign, pr_undo = None\<rparr> s
       else seqs (store_setItemPublished env c ?flip b (decimal u)) (\<lambda>(n, i).
            seqs (touchSystemAutoPin r) (\<lambda>_. ret \<lparr>pr_published = ?flip, pr_ignored = ?ign, pr_undo = Some i\<rparr>)) s)"
    using parsed sees r assms(3)
    by (simp add: publish_def parse_seqs bad_ids_def gate_seqs seqs_in_shelf Let_def role_seqs [OF sees r])
  then have flip: "?flip \<noteq> []" and run: "seqs (store_setItemPublished env c ?flip b (decimal u)) (\<lambda>(n, i).
      seqs (touchSystemAutoPin r) (\<lambda>_. ret \<lparr>pr_published = ?flip, pr_ignored = ?ign, pr_undo = Some i\<rparr>)) s = (Inr rep, t)"
    using assms(1,2) by (auto simp: ret_def split: if_splits)
  obtain n k s' where s': "store_setItemPublished env c ?flip b (decimal u) s = (Inr (n, k), s')"
    "seqs (touchSystemAutoPin r) (\<lambda>_. ret \<lparr>pr_published = ?flip, pr_ignored = ?ign, pr_undo = Some k\<rparr>) s' = (Inr rep, t)"
    using run by (cases rule: seqs_elim) auto
  obtain y where y: "touchSystemAutoPin r s' = (Inr y, t)" "k = i"
    using s'(2) assms(2) by (cases rule: seqs_elim) (auto simp: ret_def)
  have rows: "jrows t = jrows s'" "jnext t = jnext s'" using touch_rows [of r s'] y by simp_all
  have id: "co_id r = c" using getCollection_id [OF r] by simp
  have touched: "framed c (jdom s') (jdom t)" "members (jdom t) = members (jdom s')"
    using fr.through_result [OF autopin_framed(1) [OF id] y(1)] sm.through_result [OF autopin_framed(2) y(1)]
    by (simp_all add: same_members_def)
  note commit = s'(1) [unfolded store_setItemPublished_def labelOf_run]
  show ?thesis
  proof (cases rule: coll_commit_cases [OF commit])
    case (3 n' i')
    then have change: "jdom s' = snd (repo_setItemPublished c ?flip b (jdom s))" by simp
    then have "framed c (jdom s) (jdom s')" using publish_change [of c "jdom s" ?flip b] by simp
    then have "framed c (jdom s) (jdom t)" using fr.ord_trans touched(1) by blast
    moreover have "appended ''collection'' (collection_subject c)
        \<lparr>m_actor = decimal u, m_action = ''set-items-published'', m_label = map_option co_name (getCollection (jdom s) c)\<rparr>
        (single (Set_items_published c ?flip (\<not> b))) i s t"
      using appended_rows [OF 3(3) rows] 3(1) y(2) by simp
    moreover have "\<exists>m \<in> set (members (jdom t)). mb_coll m = c \<and> mb_node m \<in> set ?flip"
    proof -
      obtain k where "k \<in> set ?flip" using flip by (metis list.set_intros(1) neq_Nil_conv)
      then obtain m where m: "m \<in> set (members (jdom s))" "mb_coll m = c" "mb_node m \<in> set ?flip"
        by (auto simp: listStoredItems_def)
      then have "m\<lparr>mb_published := b\<rparr> \<in> set (members (jdom s'))"
        unfolding change by (rule flipped_member)
      then show ?thesis using touched(2) m(2,3) by (intro bexI [of _ "m\<lparr>mb_published := b\<rparr>"]) auto
    qed
    ultimately show ?thesis by blast
  qed auto
qed

lemma revoke_row:
  fixes s :: "'d library"
  assumes "share_revoke env owner c u s = (Inr j, t)" "getRole (jdom s) u c = Some (Role_grant role)"
  shows "(\<exists>r. getCollection (jdom t) c = Some r \<and> co_owner r = owner) \<and> owner \<noteq> u \<and>
    getGrant (jdom t) c u = None \<and> shelf_db (jdom t) = shelf_db (jdom s) \<and> members (jdom t) = members (jdom s) \<and>
    (\<exists>label. appended ''collection'' (collection_subject c)
       \<lparr>m_actor = decimal owner, m_action = ''revoke'', m_label = label\<rparr>
       (single (Grant_access c u (Some role) None)) j s t)"
proof -
  have sees: "sees (jdom s) owner c" using assms(1) by (auto simp: share_revoke_def gate_seqs split: if_splits)
  then obtain r where r: "getCollection (jdom s) c = Some r" by (auto simp: sees_def split: option.splits)
  have owner: "co_owner r = owner" using assms(1) sees r
    by (auto simp: share_revoke_def gate_seqs requireOwner_seqs split: if_splits)
  obtain g where g: "getGrant (jdom s) c u = Some g" "cg_role g = role" "owner \<noteq> u"
    using assms(2) r owner by (auto simp: getRole_def split: if_splits)
  have run: "seqs (store_revokeAccess env c u (decimal owner)) (\<lambda>(n, i). ret i) s = (Inr j, t)"
    using assms(1) sees r owner g
    by (auto simp: share_revoke_def gate_seqs requireOwner_seqs seqs_in_shelf seqs_guard split: if_splits)
  then obtain n where n: "store_revokeAccess env c u (decimal owner) s = (Inr (n, j), t)"
    by (cases rule: seqs_elim) (auto simp: ret_def)
  note commit = n [unfolded store_revokeAccess_def seqs_in_shelf labelOf_run]
  show ?thesis
  proof (cases rule: coll_commit_cases [OF commit])
    case (3 n' i')
    have t: "jdom t = (jdom s)\<lparr>coll_grants := delete_where (\<lambda>g. cg_coll g = c \<and> cg_user g = u) (coll_grants (jdom s)),
        digest_cursors := delete_where (\<lambda>(v, d, x). v = u \<and> d = c) (digest_cursors (jdom s))\<rparr>"
      using 3(2) by (auto simp: seqs_def deleteGrant_def deleteDigestCursor_def ret_def)
    have "getGrant (jdom t) c u = None"
      by (auto simp: t getGrant_def first_row_None filter_empty_conv delete_where_def)
    then show ?thesis using 3(1,3) r owner g by (auto simp: t getCollection_def shelf_db_def)
  qed auto
qed

text \<open>The executor on the two rows: the grant is made again, then the flags are set back.\<close>

lemma regrant_run:
  assumes "getCollection d c = Some r" "co_owner r = owner" "getGrant d c u = None"
    and "has_user (shelf_db d) owner" "has_user (shelf_db d) u"
  shows "\<exists>g. applyInverseTx (Grant_access c u (Some role) None) (decimal owner) dr d =
      (Inr (True, None), d\<lparr>coll_grants := coll_grants d @ [g]\<rparr>) \<and> cg_coll g = c \<and> cg_user g = u \<and> cg_role g = role"
proof -
  have has: "has_collection d c" using assms(1) by (simp add: getCollection_has)
  have owner: "numericActorOr (decimal owner) owner = owner" by (simp add: numericActor_decimal)
  show ?thesis
    by (rule exI [of _ "\<lparr>cg_coll = c, cg_user = u, cg_role = role, cg_by = owner, cg_created = shelf_now d\<rparr>"])
      (use assms has owner in \<open>simp add: applyInverseTx_def if_exists_def seqs_def reads_def ret_def upsertGrant_def
        outcomeFromChanges_def\<close>)
qed

lemma flags_run:
  assumes "m \<in> set (members d)" "mb_coll m = c" "mb_node m \<in> set ids"
  shows "\<exists>ms. applyInverseTx (Set_items_published c ids b) a dr d = (Inr (True, None), d\<lparr>members := ms\<rparr>)"
proof -
  have "ids \<noteq> []" using assms(3) by auto
  moreover have "count_where (\<lambda>m. mb_coll m = c \<and> mb_node m \<in> set ids) (members d) > 0"
    using assms count_where_0 [of "\<lambda>m. mb_coll m = c \<and> mb_node m \<in> set ids" "members d"] by (metis not_gr_zero)
  ultimately show ?thesis
    by (simp add: applyInverseTx_def counted_def seqs_def ret_def repo_setItemPublished_def Let_def outcomeFromChanges_def)
      (metis shelf.update_convs(3))
qed

lemma single_run:
  assumes "a_payload row = Some (single i)" "applyInverseTx i (a_actor row) ([], []) d = (Inr (True, w), d')"
  shows "applyCollectionInverse row d = (Inr [(True, w)], d')"
  using assms by (simp add: applyCollectionInverse_def single_def seqs_def ret_def)

text \<open>C11: What an editor regains by undoing. An editor flips the publication of members; then the owner revokes the
  editor's access, and the former editor has no role. The undo of the editor's own action, taking the later
  changes of the collection along, asks only whether the action is the caller's own: unless the lock is
  refused it succeeds, and it undoes the owner's revocation too, so that the role of an editor is back.\<close>

theorem undo_regains_access:
  fixes s :: "'d library"
  assumes "publish env u c ids b s = (Inr rep, s1)" "pr_undo rep = Some i"
    and "share_revoke env1 owner c u s1 = (Inr j, t)" "undo_action env2 u i True t = (x, v)"
    and "journal_ok s" "getRole (jdom s) u c = Some (Role_grant Editor)"
    and "has_user (shelf_db (jdom s)) u" "has_user (shelf_db (jdom s)) owner"
  shows "getRole (jdom t) u c = None \<and>
    ((\<exists>e name. x = Inl e \<and> lock_answer env2 name t = Inl e \<and> same_core t v) \<or>
     (\<exists>rep. x = Inr rep \<and> getRole (jdom v) u c = Some (Role_grant Editor)))"
proof -
  let ?sub = "collection_subject c" and ?max = "getMaxChainSeq s ''collection'' (collection_subject c)"
  obtain label ids' m where first: "framed c (jdom s) (jdom s1)"
    "appended ''collection'' ?sub \<lparr>m_actor = decimal u, m_action = ''set-items-published'', m_label = label\<rparr>
       (single (Set_items_published c ids' (\<not> b))) i s s1"
    "m \<in> set (members (jdom s1))" "mb_coll m = c" "mb_node m \<in> set ids'"
    using publish_row [OF assms(1,2,6)] by blast
  have role: "getRole (jdom s1) u c = Some (Role_grant Editor)"
    using assms(6) framed_collection [OF first(1)] first(1)
    by (fastforce simp: getRole_def getGrant_def framed_def split: option.splits if_splits)
  obtain r label2 where second: "getCollection (jdom t) c = Some r" "co_owner r = owner" "owner \<noteq> u"
    "getGrant (jdom t) c u = None" "shelf_db (jdom t) = shelf_db (jdom s1)" "members (jdom t) = members (jdom s1)"
    "appended ''collection'' ?sub \<lparr>m_actor = decimal owner, m_action = ''revoke'', m_label = label2\<rparr>
       (single (Grant_access c u (Some Editor) None)) j s1 t"
    using revoke_row [OF assms(3) role] by blast
  have max: "getMaxChainSeq s1 ''collection'' ?sub = ?max + 1" using getMax_commit [OF appended_done [OF first(2)]] by simp
  obtain r1 r2 where rows: "jrows t = jrows s @ [r1, r2]" "a_id r1 = i" "a_actor r1 = decimal u" "a_actor r2 = decimal owner"
    "a_payload r1 = Some (single (Set_items_published c ids' (\<not> b)))"
    "a_payload r2 = Some (single (Grant_access c u (Some Editor) None))"
    "chain_rows ''collection'' ?sub ?max [r1, r2]"
    using first(2) second(7) max
    by (auto simp: appended_def journal_row_def committed_row_def chain_rows_def of_subject_def)
  have ok: "journal_ok t"
    using commit_done_ok [OF commit_done_ok [OF assms(5) appended_done [OF first(2)]] appended_done [OF second(7)]] .
  have db: "shelf_db (jdom t) = shelf_db (jdom s)" using first(1) second(5) by (simp add: framed_def)
  obtain g where g: "applyInverseTx (Grant_access c u (Some Editor) None) (decimal owner) ([], []) (jdom t) =
      (Inr (True, None), (jdom t)\<lparr>coll_grants := coll_grants (jdom t) @ [g]\<rparr>)"
    "cg_coll g = c" "cg_user g = u" "cg_role g = Editor"
    using regrant_run [OF second(1,2,4), where role = Editor and dr = "([], [])"] assms(7,8) db by auto
  let ?d = "(jdom t)\<lparr>coll_grants := coll_grants (jdom t) @ [g]\<rparr>"
  have "m \<in> set (members ?d)" using first(3) second(6) by simp
  then obtain ms where ms: "applyInverseTx (Set_items_published c ids' (\<not> b)) (decimal u) ([], []) ?d =
      (Inr (True, None), ?d\<lparr>members := ms\<rparr>)"
    using flags_run [OF _ first(4,5)] by blast
  have regained: "getRole (?d\<lparr>members := ms\<rparr>) u c = Some (Role_grant Editor)"
    using second(1-4) g(2-4) by (auto simp: getRole_def getCollection_def getGrant_def first_row_def split: list.splits)
  have exec: "\<forall>w. jdom w = jdom t \<longrightarrow>
      (\<exists>n sk z. run_executor applyCollectionInverse (rev [r1, r2]) 0 [] w = (Inr (n, sk), z) \<and>
        jdom z = ?d\<lparr>members := ms\<rparr>)"
    using single_run [OF rows(6), of "jdom t"] single_run [OF rows(5), of ?d] g(1) ms rows(3,4)
    by (simp add: seqs_def on_domain_def ret_def)
  have undo: "undo_action env2 u (a_id r1) True t = (x, v)" using assms(4) rows(2) by simp
  have "getRole (jdom t) u c = None" using second(1-4) by (simp add: getRole_def)
  then show ?thesis
    using own_undo_run [where P = "\<lambda>d. d = ?d\<lparr>members := ms\<rparr>", OF ok rows(1,3,7) exec undo] regained by metis
qed

theorem undo_regains_access_witness:
  "(let s1 = snd (publish coll_env 9 1 [2] True demo_library); t = snd (share_revoke coll_env 7 1 9 s1);
        v = snd (undo_action coll_env 9 1 True t)
    in (getRole (jdom t) 9 1, getRole (jdom v) 9 1)) = (None, Some (Role_grant Editor))"
proof -
  obtain y s1 where p: "publish coll_env 9 1 [2] True demo_library = (y, s1)" by fastforce
  obtain z t where q: "share_revoke coll_env 7 1 9 s1 = (z, t)" by fastforce
  obtain x v where u: "undo_action coll_env 9 1 True t = (x, v)" by fastforce
  have "fst (publish coll_env 9 1 [2] True demo_library) = Inr \<lparr>pr_published = [2], pr_ignored = [], pr_undo = Some 1\<rparr>"
    "fst (share_revoke coll_env 7 1 9 (snd (publish coll_env 9 1 [2] True demo_library))) = Inr 2"
    "isl (fst (undo_action coll_env 9 1 True (snd (share_revoke coll_env 7 1 9
       (snd (publish coll_env 9 1 [2] True demo_library)))))) = False"
    by code_simp+
  then have run: "publish coll_env 9 1 [2] True demo_library =
      (Inr \<lparr>pr_published = [2], pr_ignored = [], pr_undo = Some 1\<rparr>, s1)"
    "share_revoke coll_env 7 1 9 s1 = (Inr 2, t)" "\<not> isl x"
    using p q u by auto
  have "journal_ok demo_library" "getRole (jdom demo_library) 9 1 = Some (Role_grant Editor)"
    "has_user (shelf_db (jdom demo_library)) 9" "has_user (shelf_db (jdom demo_library)) 7"
    by (simp add: journal_ok_def demo_library_def) code_simp+
  from undo_regains_access [OF run(1) _ run(2) u this] run(3)
  have "getRole (jdom t) 9 1 = None" "getRole (jdom v) 9 1 = Some (Role_grant Editor)" by auto
  then show ?thesis using p q u by (simp add: Let_def)
qed

end
