(* ===== verification/Spec2Isabelle.thy ===== *)
theory Spec2Isabelle
  imports Requests Validation UploadRaces GcProps FileProps JobProps JournalProps SharingProps LoginProps UserProps VersionProps BatchProps CollUndo
begin

text \<open>
  \<^bold>\<open>WebDAV EasyAccess: the server's core.\<close> The program is a file manager: a Node server keeps the
  metadata of files in a database (sqlite or PostgreSQL), their content in a blob store (S3, or a
  remote WebDAV server), and serves a browser client. This development models the server's own logic
  over the sqlite tables, the theory files following the layers of the code.

  \<^bold>\<open>Conventions.\<close> A table is the list of its rows (\<open>Tables\<close>); a method of a repository is a function
  on the record \<open>db\<close>, one definition per method, the SQL statement written as an operation on rows.
  Whatever may throw is a service function from a state to a result and a state (\<open>Prelude\<close>): \<open>seqs\<close> is
  \<open>await\<close>, \<open>catching\<close> is \<open>try\<close> and \<open>catch\<close>, and what was written before a throw stays written unless \<open>withTx\<close>
  rolls it back. States grow with the layers: \<open>db\<close> the tables, \<open>vault\<close> the tables, the blob store
  and the random draws, \<open>drive\<close> those and the caches of the access control, \<open>queue\<close> the job table, \<open>accounts\<close>
  the user table with the token and rate-limit caches, \<open>shelf\<close> the tables of collections beside the access
  control, \<open>library\<close> the journal over a shelf. Instants are milliseconds; a handler runs at
  one instant unless the code waits.

  \<^bold>\<open>Theories and code\<close> (paths under \<open>src/server\<close> unless they begin with \<open>shared\<close>):
  \<^item> \<open>Prelude\<close>, \<open>Tables\<close>: errors, service functions, rows, constraints, foreign keys and their cascade,
    transactions (\<open>store/storage.js\<close>, \<open>utils/errorHandler.js\<close>, the schema).
  \<^item> \<open>PathUtils\<close>, \<open>Validation\<close>: \<open>shared/pathUtils.js\<close>, \<open>shared/validation.js\<close>, \<open>shared/fileTypes.js\<close>.
  \<^item> \<open>FileNodeRepo\<close>, \<open>Closure\<close>, \<open>ClosureLaws\<close>, \<open>MoveLaws\<close>, \<open>TreeProps\<close>: the node tree and its closure table
    (\<open>store/repositories/sqlite/FileNodeRepository.sqlite.js\<close>, \<open>service/_ancestryHelper.js\<close>,
    \<open>service/fileNodeService.js\<close>).
  \<^item> \<open>Cache\<close>: \<open>infrastructure/adapters/cache/InMemoryCacheAdapter.js\<close> and the expiring maps of the access control.
  \<^item> \<open>Permissions\<close>, \<open>Acl\<close>, \<open>AclLaws\<close>, \<open>Requests\<close>: \<open>domains/permissions\<close>, its repository, store, policies, checks
    and permission requests.
  \<^item> \<open>Objects\<close>, \<open>ObjectLaws\<close>: the version rows and the file cache of the same repository.
  \<^item> \<open>Blobs\<close>, \<open>Upload\<close>, \<open>UploadLaws\<close>, \<open>UploadProps\<close>, \<open>UploadRaces\<close>: the two blob stores, \<open>service/blobStorageService.js\<close>,
    \<open>service/uploadService.js\<close>.
  \<^item> \<open>Trash\<close>, \<open>TrashLaws\<close>, \<open>Gc\<close>, \<open>PurgeLaws\<close>, \<open>TrashProps\<close>, \<open>CopyProps\<close>, \<open>GcProps\<close>: \<open>service/trashService.js\<close>,
    \<open>service/webdavRemoteOps.js\<close>, \<open>service/gcService.js\<close>.
  \<^item> \<open>Files\<close>, \<open>FileProps\<close>: \<open>domains/files/services/fileService.js\<close>, the operations behind the file routes.
  \<^item> \<open>Versions\<close>, \<open>VersionProps\<close>: \<open>domains/files/services/versionsService.js\<close>, listing, restoring and downloading
    the versions of a file.
  \<^item> \<open>Batch\<close>, \<open>BatchProps\<close>: \<open>domains/files/services/batchOperationService.js\<close>, \<open>operationProgress.js\<close>, \<open>conflictResolver.js\<close>: batch
    operations over several nodes, their undo, the progress store, preview tickets, bulk jobs and
    name conflicts.
  \<^item> \<open>Jobs\<close>, \<open>Pipelines\<close>, \<open>JobLaws\<close>, \<open>JobProps\<close>: the persistent job queue (\<open>AiJobsRepository.sqlite.js\<close>) and its worker
    (\<open>domains/ai/pipelines\<close>).
  \<^item> \<open>Locks\<close>, \<open>Journal\<close>, \<open>JournalLaws\<close>, \<open>JournalProps\<close>: \<open>infrastructure/lockManager.js\<close>, \<open>store/actionJournalStore.js\<close> and
    the journaled settings.
  \<^item> \<open>Sharing\<close>, \<open>SharingLaws\<close>, \<open>SharingProps\<close>: share links (\<open>domains/sharing\<close>) and the middleware that admits their tokens.
  \<^item> \<open>Users\<close>, \<open>Accounts\<close>: the user table (\<open>UserRepository.sqlite.js\<close>), \<open>domains/auth\<close> (registration, the login rate
    limit, login, refresh tokens) and \<open>domains/admin/services/userService.js\<close>. \<open>AccountLaws\<close> holds what each
    service keeps; \<open>AccountProps\<close> the refresh tokens, \<open>LoginProps\<close> the login, \<open>UserProps\<close> approval and deletion.
  \<^item> \<open>Collections\<close>, \<open>CollStore\<close>: the tables of collections (\<open>CollectionsRepository.sqlite.js\<close>) and their journaled
    commands, each with its inverse (\<open>store/collectionsStore.js\<close>).
  \<^item> \<open>Actions\<close>: \<open>domains/actions/service.js\<close>, the executor of those inverses, undo and the feed.
  \<^item> \<open>CollService\<close>: \<open>domains/collections/shareService.js\<close> and \<open>service.js\<close>. \<open>CollLaws\<close> holds what every statement
    keeps and what the gate decides; \<open>CollProps\<close> roles, editors and the tables over histories; \<open>CollUndo\<close>
    what undo leaves.

  \<^bold>\<open>How the parts interact.\<close> A file route checks the caller through the access control, whose decision
  walks the closure table; it then changes the tree and the object rows in transactions and talks to
  the blob store between them. The trash marks and unmarks subtrees and purges them; the collector
  removes objects no row keeps. Sharing and requests create the grants the access control reads. The
  queue and the journal stand beside the tree and refer to nodes and settings. A batch calls the file
  operations one by one and writes one journal entry for those that succeeded. Accounts create the home
  folder and its grant when a user is approved, and their tokens name the caller the file routes check.
  Collections refer to nodes and users: adding a member asks the access control whether the caller may read
  the node, a command on a collection is a commit of the journal on the subject of the collection (pins by
  touch, visibility and visits are written beside it), and an undo runs the recorded inverses, newest
  first, through the executor.

  \<^bold>\<open>What the lemmas show.\<close> For the tree: the invariant that the closure table is the ancestor relation of
  the parent column, over every history, and the exact effect of create, move and delete on every
  branch. For the access control: the decision as the nearest grant on the walk up, and that neither
  cache can be observed. For uploads: the phases, their rollback, the number of versions that stay,
  and an interleaving of two overwrites. For the trash: restore inverts trashing; what purging and
  collecting remove, and whose content goes with it. For the queue: the state machine of a row, whom a
  claim serves, that drains end. For the journal: undo restores. For locks: exclusion. For links: a
  token opens the subtree of its link and nothing else. For accounts: a refresh token serves at most
  once and only while it lives, an address is refused after the configured failures, and what approval
  and deletion do to the tables. For versions: a restore exchanges two rows and keeps every other, and
  where copies share keys it demotes their current version too. For batches: every item is accounted
  for exactly once, undo restores the moved nodes, and what an undo that fails leaves. For collections: who is
  refused what, the most an editor can change, well-formed tables over every history, and two undos that
  leave more than was there: a removed member comes back published, and a former editor regains access.
  Each property stands in a theory named \<open>...Props\<close> or at the end of its component, with a concrete
  instance where it has hypotheses.

  \<^bold>\<open>Interfaces.\<close> \<open>expiring_cache\<close> is the contract of the caches; the expiring map of the access control and the
  adapter meet it. \<open>settling\<close> is the contract between the worker and an executor of a job kind; the
  backfill, asr and caption pipelines meet it. \<open>reversible\<close> is the contract between the journal and a
  domain; the journaled settings meet it. \<open>state_order\<close> is the contract of a relation between the states of
  a run; its compositional rules are used for the ways in which the user table, the token cache and
  the failure counts move. \<open>domain_order\<close> extends it to the journal: a relation that the statements of a
  domain keep is kept by commits and undos; it is used for the well-formedness of the tables of
  collections, for what an editor leaves as it is, and for the members. The documented behaviour of the S3 client is a predicate on
  the client, \<open>s3_laws\<close>, because the client is an argument; an in-memory client meets it.

  \<^bold>\<open>Loops.\<close> A loop without an evident end is a \<open>partial_function (option)\<close>; \<open>No_return\<close> is its missing
  result. That it ends is proved: the breadth-first rebuild on every forest (\<open>MoveLaws\<close>), the walks and the free
  name of a restore (\<open>TrashLaws\<close>), the drains of the worker for executors that settle their job
  (\<open>JobLaws\<close>), the waiting for a lock up to its deadline (\<open>Locks\<close>). The pages of a bucket listing end
  only if the service says so: properties that list a bucket hold whether it ends or not.

  \<^bold>\<open>Parameters.\<close> The S3 and WebDAV clients, random identifiers (the n-th draw is \<open>uuid n\<close>, and uniqueness is
  stated where it is used), SHA-256 and bcrypt, signing and verification of JSON web tokens, the model
  adapter and the media tools of the worker, mail, and what happens while a process waits for a lock.

  \<^bold>\<open>Not modelled.\<close> The browser client; the PostgreSQL dialect of the repositories other than the locks; search,
  embeddings, and of collections the evaluation of definitions, the nightly evolution, seed and search
  collections, previews and activity scores, which compute with vectors and answers of language models
  (a definition is an opaque value here); extraction
  and thumbnails, which call tools; streams, range requests and archives of downloads; configuration, set-up and migration scripts; routes that only pass
  requests on; health reports and metrics. Node ids, user ids and tokens are already decoded, so type
  confusions of the HTTP layer are outside the model.
\<close>

end
